(* ===== verification/Kprelude.thy ===== *)
theory Kprelude
  imports "HOL-Library.Word"
begin

unbundle bit_operations_syntax

text \<open>
  Prelude of the BonfireOS development: the machine types, the C string and byte buffer
  conventions every component uses, and the generic lemmas on them.

  \<^item> \<open>u8\<close>, \<open>u16\<close>, \<open>u32\<close>, \<open>u64\<close> are the fixed width types of \<^verbatim>\<open>include/kernel/types.h\<close>
    (\<open>size_t\<close> is \<open>u64\<close>); a C \<open>int\<close> whose value never comes near its bounds is an \<open>int\<close>.
  \<^item> A C string is the list of its characters before the terminating NUL. \<open>cget s i\<close> is
    \<open>s[i]\<close>, which is NUL at the length of the string.
  \<^item> \<open>blit buf off bs\<close> is the array \<open>buf\<close> after \<open>bs\<close> is stored from index \<open>off\<close> on.
  \<^item> \<open>wrapping words\<close>: \<open>le16\<close> and \<open>be16\<close> (and their 32-bit forms) are the byte lists of a word,
    \<open>of_le16\<close> and \<open>of_be16\<close> read them back.
\<close>

named_theorems kmem \<open>byte buffers: lengths and elements after stores\<close>
named_theorems kbytes \<open>encoding words as bytes and reading them back\<close>

type_synonym u8 = "8 word"
type_synonym u16 = "16 word"
type_synonym u32 = "32 word"
type_synonym u64 = "64 word"

section \<open>C strings\<close>

abbreviation NUL :: char where "NUL \<equiv> CHR 0x00"

definition cget :: "string \<Rightarrow> nat \<Rightarrow> char" where
  "cget s i = (if i < length s then s ! i else NUL)"

definition cstr :: "string \<Rightarrow> bool" where
  "cstr s \<longleftrightarrow> NUL \<notin> set s"

lemma cget_beyond [simp]: "length s \<le> i \<Longrightarrow> cget s i = NUL"
  by (simp add: cget_def)

lemma cget_not_NUL_less: "cget s i \<noteq> NUL \<Longrightarrow> i < length s"
  by (auto simp: cget_def split: if_splits)

lemma cstr_Nil [simp]: "cstr []"
  by (simp add: cstr_def)

lemma cstr_Cons [simp]: "cstr (c # s) \<longleftrightarrow> c \<noteq> NUL \<and> cstr s"
  by (auto simp: cstr_def)

lemma cstr_append [simp]: "cstr (s @ t) \<longleftrightarrow> cstr s \<and> cstr t"
  by (auto simp: cstr_def)

lemma cstr_take [intro]: "cstr s \<Longrightarrow> cstr (take n s)"
  by (auto simp: cstr_def dest: in_set_takeD)

lemma cstr_drop [intro]: "cstr s \<Longrightarrow> cstr (drop n s)"
  by (auto simp: cstr_def dest: in_set_dropD)

lemma cget_eq_nth: "i < length s \<Longrightarrow> cget s i = s ! i"
  by (simp add: cget_def)

lemma cstr_cget_iff: "cstr s \<Longrightarrow> cget s i \<noteq> NUL \<longleftrightarrow> i < length s"
  by (auto simp: cget_def cstr_def in_set_conv_nth)

text \<open>The character of a byte.\<close>

definition byte_char :: "u8 \<Rightarrow> char" where
  "byte_char b = char_of (unat b)"

section \<open>Lists used as arrays\<close>

definition blit :: "'a list \<Rightarrow> nat \<Rightarrow> 'a list \<Rightarrow> 'a list" where
  "blit buf off bs = take off buf @ bs @ drop (off + length bs) buf"

lemma length_blit [simp, kmem]: "off + length bs \<le> length buf \<Longrightarrow> length (blit buf off bs) = length buf"
  by (simp add: blit_def)

lemma nth_blit [kmem]:
  assumes "off + length bs \<le> length buf" and "i < length buf"
  shows "blit buf off bs ! i =
    (if off \<le> i \<and> i < off + length bs then bs ! (i - off) else buf ! i)"
  using assms by (auto simp: blit_def nth_append min_def)

lemma blit_Nil [simp]: "blit buf off [] = buf"
  by (simp add: blit_def)

lemma blit_Cons:
  assumes "off + Suc (length bs) \<le> length buf"
  shows "blit buf off (b # bs) = (blit buf (Suc off) bs)[off := b]"
proof (rule nth_equalityI)
  show "length (blit buf off (b # bs)) = length ((blit buf (Suc off) bs)[off := b])"
    using assms by simp
next
  fix i assume "i < length (blit buf off (b # bs))"
  with assms have i: "i < length buf" by simp
  show "blit buf off (b # bs) ! i = (blit buf (Suc off) bs)[off := b] ! i"
    using assms i
    by (auto simp: nth_blit nth_list_update nth_Cons')
qed

lemma take_blit_prefix [simp]:
  "off \<le> length buf \<Longrightarrow> take (off + length bs) (blit buf off bs) = take off buf @ bs"
  by (simp add: blit_def)

lemma blit_0_take [simp]: "take (length bs) (blit buf 0 bs) = bs"
  by (simp add: blit_def)

lemma take_Suc_snoc: "n < length xs \<Longrightarrow> take (Suc n) xs = take n xs @ [xs ! n]"
  by (simp add: take_Suc_conv_app_nth)

section \<open>Words as bytes\<close>

definition le16 :: "u16 \<Rightarrow> u8 list" where
  "le16 v = [ucast v, ucast (drop_bit 8 v)]"

definition le32 :: "u32 \<Rightarrow> u8 list" where
  "le32 v = [ucast v, ucast (drop_bit 8 v), ucast (drop_bit 16 v), ucast (drop_bit 24 v)]"

definition be16 :: "u16 \<Rightarrow> u8 list" where
  "be16 v = [ucast (drop_bit 8 v), ucast v]"

definition be32 :: "u32 \<Rightarrow> u8 list" where
  "be32 v = [ucast (drop_bit 24 v), ucast (drop_bit 16 v), ucast (drop_bit 8 v), ucast v]"

definition of_le16 :: "u8 \<Rightarrow> u8 \<Rightarrow> u16" where
  "of_le16 b0 b1 = ucast b0 OR push_bit 8 (ucast b1)"

definition of_be16 :: "u8 \<Rightarrow> u8 \<Rightarrow> u16" where
  "of_be16 b0 b1 = push_bit 8 (ucast b0) OR ucast b1"

definition of_le32 :: "u8 \<Rightarrow> u8 \<Rightarrow> u8 \<Rightarrow> u8 \<Rightarrow> u32" where
  "of_le32 b0 b1 b2 b3 =
     ucast b0 OR push_bit 8 (ucast b1) OR push_bit 16 (ucast b2) OR push_bit 24 (ucast b3)"

definition of_be32 :: "u8 \<Rightarrow> u8 \<Rightarrow> u8 \<Rightarrow> u8 \<Rightarrow> u32" where
  "of_be32 b0 b1 b2 b3 =
     push_bit 24 (ucast b0) OR push_bit 16 (ucast b1) OR push_bit 8 (ucast b2) OR ucast b3"

lemma length_words [simp, kmem]:
  "length (le16 v) = 2" "length (be16 v) = 2" "length (le32 w) = 4" "length (be32 w) = 4"
  by (simp_all add: le16_def be16_def le32_def be32_def)

lemma of_le16_le16 [simp, kbytes]: "of_le16 (ucast v) (ucast (drop_bit 8 v)) = (v :: u16)"
  unfolding of_le16_def
  by (rule bit_word_eqI) (auto simp: bit_simps)

lemma of_be16_be16 [simp, kbytes]: "of_be16 (ucast (drop_bit 8 v)) (ucast v) = (v :: u16)"
  unfolding of_be16_def
  by (rule bit_word_eqI) (auto simp: bit_simps)

lemma of_le32_le32 [simp, kbytes]:
  "of_le32 (ucast v) (ucast (drop_bit 8 v)) (ucast (drop_bit 16 v)) (ucast (drop_bit 24 v)) = (v :: u32)"
proof (rule bit_word_eqI)
  fix n assume "n < LENGTH(32)"
  then consider "n < 8" | "8 \<le> n" "n < 16" | "16 \<le> n" "n < 24" | "24 \<le> n" "n < 32"
    by fastforce
  then show "bit (of_le32 (ucast v) (ucast (drop_bit 8 v)) (ucast (drop_bit 16 v)) (ucast (drop_bit 24 v))) n = bit v n"
    unfolding of_le32_def by cases (auto simp: bit_simps)
qed

lemma of_be32_be32 [simp, kbytes]:
  "of_be32 (ucast (drop_bit 24 v)) (ucast (drop_bit 16 v)) (ucast (drop_bit 8 v)) (ucast v) = (v :: u32)"
proof (rule bit_word_eqI)
  fix n assume "n < LENGTH(32)"
  then consider "n < 8" | "8 \<le> n" "n < 16" | "16 \<le> n" "n < 24" | "24 \<le> n" "n < 32"
    by fastforce
  then show "bit (of_be32 (ucast (drop_bit 24 v)) (ucast (drop_bit 16 v)) (ucast (drop_bit 8 v)) (ucast v)) n = bit v n"
    unfolding of_be32_def by cases (auto simp: bit_simps)
qed

section \<open>Bounds and alignment\<close>

lemma unat_less_64: "unat (x :: u64) < 18446744073709551616"
  by (rule order_less_le_trans [OF unsigned_less]) simp

lemma unat_less_32: "unat (x :: u32) < 4294967296"
  by (rule order_less_le_trans [OF unsigned_less]) simp

lemma unat_less_16: "unat (x :: u16) < 65536"
  by (rule order_less_le_trans [OF unsigned_less]) simp

lemma unat_less_8: "unat (x :: u8) < 256"
  by (rule order_less_le_trans [OF unsigned_less]) simp

lemma unat_ucast_up [simp]:
  "unat (ucast (x :: u8) :: u16) = unat x" "unat (ucast (x :: u8) :: u32) = unat x"
  "unat (ucast (x :: u8) :: u64) = unat x" "unat (ucast (y :: u16) :: u32) = unat y"
  "unat (ucast (y :: u16) :: u64) = unat y" "unat (ucast (z :: u32) :: u64) = unat z"
  using unat_less_8 [of x] unat_less_16 [of y] unat_less_32 [of z]
  by (simp_all add: unsigned_ucast_eq take_bit_eq_mod)

lemma unat_ucast_16 [simp]: "unat (x :: u32) < 65536 \<Longrightarrow> unat (ucast x :: u16) = unat x"
  by (simp add: unsigned_ucast_eq take_bit_eq_mod)

lemma unat_and_mask16: "unat (x AND 0xFFFF :: u32) = unat x mod 65536"
proof -
  have "(0xFFFF :: u32) = mask 16" by (simp add: mask_eq_exp_minus_1)
  then have "x AND 0xFFFF = take_bit 16 x" by (simp only: take_bit_eq_mask)
  then show ?thesis by (simp only: unsigned_take_bit_eq) (simp add: take_bit_eq_mod)
qed

lemma unat_drop_bit [simp]: "unat (drop_bit n x) = unat x div 2 ^ n"
  by (simp only: unsigned_drop_bit_eq) (simp add: drop_bit_eq_div take_bit_nat_eq_self)

lemma unat_not16: "unat (NOT x :: u16) = 65535 - unat x"
proof -
  have "NOT x = - 1 - x" by (simp add: not_eq_complement)
  moreover have "unat (- 1 - x) = unat (- 1 :: u16) - unat x" by (rule unat_sub) simp
  moreover have "unat (- 1 :: u16) = 65535" by (simp add: unsigned_minus_1_eq_mask mask_eq_exp_minus_1)
  ultimately show ?thesis by simp
qed

lemma ucast16_not_and: "(ucast (NOT x AND 0xFFFF) :: u16) = NOT (ucast (x :: u32))"
proof -
  have m: "(0xFFFF :: u32) = mask 16" by (simp add: mask_eq_exp_minus_1)
  show ?thesis unfolding m by (rule bit_word_eqI) (auto simp: bit_simps)
qed

lemma unat_align_down: "unat (x AND NOT (7 :: u64)) = unat x div 8 * 8"
proof -
  have m: "(7 :: u64) = mask 3" by (simp add: mask_eq_exp_minus_1)
  have "x AND NOT (7 :: u64) = push_bit 3 (drop_bit 3 x)"
    unfolding m by (rule bit_word_eqI) (auto simp: bit_simps)
  moreover have "unat (push_bit 3 (drop_bit 3 x)) = unat x div 8 * 8"
  proof -
    have "unat x div 8 * 8 < 18446744073709551616" using unat_less_64 [of x] by arith
    then show ?thesis by (simp add: push_bit_eq_mult drop_bit_eq_div unat_word_ariths unat_div)
  qed
  ultimately show ?thesis by simp
qed

text \<open>\<open>ALIGN_UP(x, 8)\<close> of the three allocators: it wraps to 0 within seven bytes of \<open>2^64\<close>.\<close>

definition align_up8 :: "u64 \<Rightarrow> u64" where
  "align_up8 x = (x + 8 - 1) AND NOT 7"

lemma unat_align_up8:
  assumes "unat x + 7 < 2 ^ 64"
  shows "unat (align_up8 x) = (unat x + 7) div 8 * 8"
proof -
  have "unat (x + 7) = unat x + 7"
    using assms by (simp add: unat_word_ariths)
  moreover have "align_up8 x = (x + 7) AND NOT 7"
    by (simp add: align_up8_def add.commute)
  ultimately show ?thesis by (simp only: unat_align_down)
qed

lemma align_up8_bounds:
  assumes "unat x + 7 < 2 ^ 64"
  shows "unat x \<le> unat (align_up8 x)" and "unat (align_up8 x) < unat x + 8"
    and "8 dvd unat (align_up8 x)"
  using unat_align_up8 [OF assms] by auto

end
