(* ===== verification/Ring.thy ===== *)
theory Ring
  imports Kprelude "HOL-Library.Sublist"
begin

text \<open>
  Ring buffers, as the keyboard driver and the loopback interface keep them: an array of \<open>N\<close>
  cells, a read index and a number of stored items. \<open>ring_items\<close> is the queue the cells
  stand for. The locale \<open>bounded_fifo\<close> is the contract of such a queue (a producer that drops
  what does not fit, a consumer that takes the oldest item); its lemmas relate every
  interleaving of producer and consumer to a bounded list.
\<close>

section \<open>The queue stored in a ring of cells\<close>

definition ring_items :: "nat \<Rightarrow> 'a list \<Rightarrow> nat \<Rightarrow> nat \<Rightarrow> 'a list" where
  "ring_items N buf tail n = map (\<lambda>k. buf ! ((tail + k) mod N)) [0..<n]"

lemma length_ring_items [simp]: "length (ring_items N buf tail n) = n"
  by (simp add: ring_items_def)

lemma ring_items_0 [simp]: "ring_items N buf tail 0 = []"
  by (simp add: ring_items_def)

lemma ring_slot_inj_le:
  fixes tail :: nat
  assumes "k \<le> n" and "n < N" and "(tail + n) mod N = (tail + k) mod N"
  shows "k = n"
proof -
  have "N dvd (tail + n) - (tail + k)"
    using assms mod_eq_dvd_iff_nat [of "tail + k" "tail + n" N] by simp
  then have "N dvd n - k" by simp
  with assms(1,2) show ?thesis by (auto dest: dvd_imp_le)
qed

lemma ring_slot_inj:
  fixes tail :: nat
  assumes "k < N" and "n < N" and "(tail + k) mod N = (tail + n) mod N"
  shows "k = n"
  using assms ring_slot_inj_le [of k n N tail] ring_slot_inj_le [of n k N tail]
  by (cases "k \<le> n") auto

lemma ring_items_store_other:
  assumes "n < N" and "length buf = N"
  shows "ring_items N (buf[(tail + n) mod N := x]) tail n = ring_items N buf tail n"
  unfolding ring_items_def
proof (rule map_cong [OF refl])
  fix k assume "k \<in> set [0..<n]"
  then have k: "k < n" by simp
  with assms(1) have "(tail + k) mod N \<noteq> (tail + n) mod N"
    using ring_slot_inj [of k N n tail] by auto
  then show "buf[(tail + n) mod N := x] ! ((tail + k) mod N) = buf ! ((tail + k) mod N)"
    by simp
qed

lemma ring_items_push:
  assumes "n < N" and "length buf = N" and "head = (tail + n) mod N"
  shows "ring_items N (buf[head := x]) tail (Suc n) = ring_items N buf tail n @ [x]"
proof -
  have "ring_items N (buf[head := x]) tail (Suc n)
      = ring_items N (buf[head := x]) tail n @ [buf[head := x] ! ((tail + n) mod N)]"
    by (simp add: ring_items_def)
  with assms show ?thesis by (simp add: ring_items_store_other)
qed

lemma ring_items_pop:
  "ring_items N buf tail (Suc n) = buf ! (tail mod N) # ring_items N buf (Suc tail mod N) n"
proof -
  have "[0..<Suc n] = 0 # map Suc [0..<n]"
    by (simp add: upt_conv_Cons map_Suc_upt del: upt_Suc)
  then show ?thesis
    by (simp add: ring_items_def mod_simps)
qed

lemma hd_tl_ring_items:
  assumes "0 < n"
  shows "hd (ring_items N buf tail n) = buf ! (tail mod N)"
    and "tl (ring_items N buf tail n) = ring_items N buf (Suc tail mod N) (n - 1)"
  using assms by (cases n; simp add: ring_items_pop)+

text \<open>The number of items between a read index and a write index that are never equal when full.\<close>

definition ring_dist :: "nat \<Rightarrow> nat \<Rightarrow> nat \<Rightarrow> nat" where
  "ring_dist N h t = (if h \<le> t then t - h else t + N - h)"

lemma Suc_mod_ring: "i < N \<Longrightarrow> Suc i mod N = (if Suc i = N then 0 else Suc i)"
  by simp

lemma ring_dist_less: "h < N \<Longrightarrow> t < N \<Longrightarrow> ring_dist N h t < N"
  by (auto simp: ring_dist_def)

lemma ring_dist_end: "h < N \<Longrightarrow> t < N \<Longrightarrow> (h + ring_dist N h t) mod N = t"
  by (auto simp: ring_dist_def)

lemma ring_dist_0_iff: "h < N \<Longrightarrow> t < N \<Longrightarrow> ring_dist N h t = 0 \<longleftrightarrow> h = t"
  by (auto simp: ring_dist_def)

lemma ring_dist_full_iff:
  "h < N \<Longrightarrow> t < N \<Longrightarrow> Suc t mod N = h \<longleftrightarrow> ring_dist N h t = N - 1"
  by (auto simp: ring_dist_def Suc_mod_ring)

lemma ring_dist_push:
  "h < N \<Longrightarrow> t < N \<Longrightarrow> Suc t mod N \<noteq> h \<Longrightarrow> ring_dist N h (Suc t mod N) = Suc (ring_dist N h t)"
  by (auto simp: ring_dist_def Suc_mod_ring)

lemma ring_dist_pop:
  "h < N \<Longrightarrow> t < N \<Longrightarrow> h \<noteq> t \<Longrightarrow> ring_dist N (Suc h mod N) t = ring_dist N h t - 1"
  by (auto simp: ring_dist_def Suc_mod_ring)

section \<open>The contract of a bounded queue\<close>

text \<open>
  A run interleaves the producer (an interrupt, a transmit) with the consumer (a read, a
  fetch). \<open>fifo_run\<close> collects what the consumer got. The reference queue is a list that
  takes a new item only while it is shorter than the capacity.
\<close>

datatype 'e fifo_event = Produce 'e | Consume

fun fifo_run :: "('e \<Rightarrow> 'q \<Rightarrow> 'q) \<Rightarrow> ('q \<Rightarrow> 'a option \<times> 'q) \<Rightarrow> 'e fifo_event list \<Rightarrow> 'q \<Rightarrow> 'a list \<times> 'q" where
  "fifo_run push pop [] q = ([], q)"
| "fifo_run push pop (Produce e # evs) q = fifo_run push pop evs (push e q)"
| "fifo_run push pop (Consume # evs) q =
     (case pop q of
        (None, q') \<Rightarrow> fifo_run push pop evs q'
      | (Some x, q') \<Rightarrow> (case fifo_run push pop evs q' of (xs, q'') \<Rightarrow> (x # xs, q'')))"

fun list_fifo :: "('e \<Rightarrow> 'a option) \<Rightarrow> nat \<Rightarrow> 'e fifo_event list \<Rightarrow> 'a list \<Rightarrow> 'a list \<times> 'a list" where
  "list_fifo dec cap [] xs = ([], xs)"
| "list_fifo dec cap (Produce e # evs) xs =
     list_fifo dec cap evs
       (case dec e of None \<Rightarrow> xs | Some x \<Rightarrow> if length xs < cap then xs @ [x] else xs)"
| "list_fifo dec cap (Consume # evs) [] = list_fifo dec cap evs []"
| "list_fifo dec cap (Consume # evs) (x # xs) =
     (case list_fifo dec cap evs xs of (ys, zs) \<Rightarrow> (x # ys, zs))"

fun offered :: "('e \<Rightarrow> 'a option) \<Rightarrow> 'e fifo_event list \<Rightarrow> 'a list" where
  "offered dec [] = []"
| "offered dec (Produce e # evs) = (case dec e of None \<Rightarrow> offered dec evs | Some x \<Rightarrow> x # offered dec evs)"
| "offered dec (Consume # evs) = offered dec evs"

lemma list_fifo_order:
  assumes "list_fifo dec cap evs xs = (ys, zs)"
  shows "\<exists>acc. subseq acc (offered dec evs) \<and> ys @ zs = xs @ acc"
  using assms
proof (induction dec cap evs xs arbitrary: ys zs rule: list_fifo.induct)
  case (1 dec cap xs)
  then show ?case by auto
next
  case (2 dec cap e evs xs)
  show ?case
  proof (cases "dec e")
    case None
    with 2 show ?thesis by simp
  next
    case (Some x)
    let ?xs = "if length xs < cap then xs @ [x] else xs"
    from 2 Some obtain acc where "subseq acc (offered dec evs)" and "ys @ zs = ?xs @ acc"
      by fastforce
    with Some show ?thesis
      by (cases "length xs < cap") (auto intro: exI [of _ "x # acc"] exI [of _ acc])
  qed
next
  case (3 dec cap evs)
  then show ?case by simp
next
  case (4 dec cap evs x xs)
  then show ?case by (fastforce split: prod.splits)
qed

lemma list_fifo_nothing_lost:
  assumes "length xs + length (offered dec evs) \<le> cap"
    and "list_fifo dec cap evs xs = (ys, zs)"
  shows "ys @ zs = xs @ offered dec evs"
  using assms
proof (induction dec cap evs xs arbitrary: ys zs rule: list_fifo.induct)
  case (1 dec cap xs)
  then show ?case by simp
next
  case (2 dec cap e evs xs)
  show ?case
  proof (cases "dec e")
    case None
    with "2.prems" "2.IH" [of ys zs] show ?thesis by simp
  next
    case (Some x)
    with "2.prems"(1) have "length xs < cap" by simp
    with Some "2.prems" "2.IH" [of ys zs] show ?thesis by simp
  qed
next
  case (3 dec cap evs)
  then show ?case by simp
next
  case (4 dec cap evs x xs)
  obtain ys1 zs1 where r: "list_fifo dec cap evs xs = (ys1, zs1)" by fastforce
  with "4.prems" "4.IH" [of ys1 zs1] show ?case by auto
qed

locale bounded_fifo =
  fixes inv :: "'q \<Rightarrow> bool"
    and items :: "'q \<Rightarrow> 'a list"
    and cap :: nat
    and dec :: "'e \<Rightarrow> 'a option"
    and push :: "'e \<Rightarrow> 'q \<Rightarrow> 'q"
    and pop :: "'q \<Rightarrow> 'a option \<times> 'q"
  assumes inv_push: "inv q \<Longrightarrow> inv (push e q)"
    and inv_pop: "inv q \<Longrightarrow> inv (snd (pop q))"
    and items_push: "inv q \<Longrightarrow> items (push e q) =
      (case dec e of None \<Rightarrow> items q
       | Some x \<Rightarrow> if length (items q) < cap then items q @ [x] else items q)"
    and fst_pop: "inv q \<Longrightarrow> fst (pop q) = (case items q of [] \<Rightarrow> None | x # xs \<Rightarrow> Some x)"
    and items_pop: "inv q \<Longrightarrow> items (snd (pop q)) = tl (items q)"
begin

lemma run_refines_list:
  assumes "inv q" and "fifo_run push pop evs q = (ys, q')"
  shows "inv q'" and "list_fifo dec cap evs (items q) = (ys, items q')"
proof -
  have "inv q' \<and> list_fifo dec cap evs (items q) = (ys, items q')"
    using assms
  proof (induction evs arbitrary: q ys)
    case Nil
    then show ?case by simp
  next
    case (Cons ev evs)
    show ?case
    proof (cases ev)
      case (Produce e)
      have "inv (push e q)" using Cons.prems(1) by (rule inv_push)
      moreover have "fifo_run push pop evs (push e q) = (ys, q')"
        using Cons.prems(2) Produce by simp
      ultimately have "inv q' \<and> list_fifo dec cap evs (items (push e q)) = (ys, items q')"
        by (rule Cons.IH)
      with Produce items_push [OF Cons.prems(1), of e] show ?thesis by simp
    next
      case Consume
      obtain r q1 where pop: "pop q = (r, q1)" by fastforce
      have q1: "inv q1" "items q1 = tl (items q)" "r = (case items q of [] \<Rightarrow> None | x # xs \<Rightarrow> Some x)"
        using inv_pop [OF Cons.prems(1)] items_pop [OF Cons.prems(1)] fst_pop [OF Cons.prems(1)] pop
        by auto
      show ?thesis
      proof (cases "items q")
        case Nil
        with q1 pop Consume Cons.prems(2) have "fifo_run push pop evs q1 = (ys, q')" by simp
        with Cons.IH [of q1 ys] q1 Nil Consume show ?thesis by simp
      next
        case items: (Cons x xs)
        with q1 pop Consume obtain ys1 where "fifo_run push pop evs q1 = (ys1, q')" "ys = x # ys1"
          using Cons.prems(2) by (auto split: prod.splits)
        with Cons.IH [of q1 ys1] q1 items Consume show ?thesis by simp
      qed
    qed
  qed
  then show "inv q'" and "list_fifo dec cap evs (items q) = (ys, items q')" by auto
qed

lemma run_in_order:
  assumes "inv q" and "fifo_run push pop evs q = (ys, q')"
  shows "\<exists>acc. subseq acc (offered dec evs) \<and> ys @ items q' = items q @ acc"
  using run_refines_list(2) [OF assms] by (rule list_fifo_order)

lemma run_nothing_lost:
  assumes "inv q" and "fifo_run push pop evs q = (ys, q')"
    and "length (items q) + length (offered dec evs) \<le> cap"
  shows "ys @ items q' = items q @ offered dec evs"
  using assms(3) run_refines_list(2) [OF assms(1,2)] by (rule list_fifo_nothing_lost)

end

end
