(* ===== verification/Keyboard.thy ===== *)
theory Keyboard
  imports Ring
begin

text \<open>
  The PS/2 keyboard driver (\<^verbatim>\<open>src/kernel/drivers/keyboard.c\<close>). The IRQ1 handler gets the
  scancode byte the controller delivers (its \<open>inb\<close> is the argument \<open>raw\<close>) and feeds two rings:
  characters, with a separate full flag, and press/release events, with a separate count.
  Both rings are interpretations of \<open>bounded_fifo\<close> over the same driver state.
\<close>

definition KEYBUF_SIZE :: nat where "KEYBUF_SIZE = 256"
definition SCEV_BUF_SIZE :: nat where "SCEV_BUF_SIZE = 64"

record kbd =
  keybuf :: "u8 list"
  keybuf_head :: nat
  keybuf_tail :: nat
  keybuf_full :: bool
  scev_buf :: "(u8 \<times> bool) list"
  scev_head :: nat
  scev_tail :: nat
  scev_count :: nat

definition kbd_boot :: kbd where
  "kbd_boot = \<lparr>keybuf = replicate KEYBUF_SIZE 0, keybuf_head = 0, keybuf_tail = 0, keybuf_full = False,
     scev_buf = replicate SCEV_BUF_SIZE (0, False), scev_head = 0, scev_tail = 0, scev_count = 0\<rparr>"

definition scancode_to_ascii :: "u8 list" where
  "scancode_to_ascii =
    [0, 27, 49, 50, 51, 52, 53, 54, 55, 56, 57, 48, 45, 61, 8,
     9, 113, 119, 101, 114, 116, 121, 117, 105, 111, 112, 91, 93, 10,
     0, 97, 115, 100, 102, 103, 104, 106, 107, 108, 59, 39, 96,
     0, 92, 122, 120, 99, 118, 98, 110, 109, 44, 46, 47, 0,
     42, 0, 32, 0, 0, 0, 0, 0, 0, 0, 0, 0, 0, 0, 0, 0,
     55, 56, 57, 45, 52, 53, 54, 43, 49, 50, 51, 48, 46]
    @ replicate 44 0"

section \<open>The handler and the readers\<close>

definition scev_put :: "u8 \<Rightarrow> bool \<Rightarrow> kbd \<Rightarrow> kbd" where
  "scev_put sc down k =
     (if scev_count k < SCEV_BUF_SIZE
      then k\<lparr>scev_buf := (scev_buf k)[scev_head k := (sc, down)],
             scev_head := (scev_head k + 1) mod SCEV_BUF_SIZE,
             scev_count := scev_count k + 1\<rparr>
      else k)"

definition keybuf_put :: "u8 \<Rightarrow> kbd \<Rightarrow> kbd" where
  "keybuf_put c k =
     (if keybuf_full k then k
      else let head = (keybuf_head k + 1) mod KEYBUF_SIZE
        in k\<lparr>keybuf := (keybuf k)[keybuf_head k := c], keybuf_head := head,
             keybuf_full := (if head = keybuf_tail k then True else keybuf_full k)\<rparr>)"

definition keyboard_irq_handler :: "u8 \<Rightarrow> kbd \<Rightarrow> kbd" where
  "keyboard_irq_handler raw k =
     (let down = (raw AND 0x80 = 0);
          sc = (if \<not> down then raw AND 0x7F else raw);
          k1 = scev_put sc down k
      in if \<not> down then k1
         else if sc \<ge> 128 then k1
         else let c = scancode_to_ascii ! unat sc
           in if c = 0 then k1 else keybuf_put c k1)"

text \<open>\<open>keyboard_getchar\<close> returns NUL when nothing is pending.\<close>

definition keyboard_getchar :: "kbd \<Rightarrow> u8 \<times> kbd" where
  "keyboard_getchar k =
     (if \<not> keybuf_full k \<and> keybuf_head k = keybuf_tail k then (0, k)
      else (keybuf k ! keybuf_tail k,
            k\<lparr>keybuf_tail := (keybuf_tail k + 1) mod KEYBUF_SIZE, keybuf_full := False\<rparr>))"

text \<open>\<open>None\<close> is the result 0 of \<open>keyboard_get_scancode\<close>; \<open>Some\<close> carries its two out parameters.\<close>

definition keyboard_get_scancode :: "kbd \<Rightarrow> (u8 \<times> bool) option \<times> kbd" where
  "keyboard_get_scancode k =
     (if scev_count k = 0 then (None, k)
      else (Some (scev_buf k ! scev_tail k),
            k\<lparr>scev_tail := (scev_tail k + 1) mod SCEV_BUF_SIZE, scev_count := scev_count k - 1\<rparr>))"

definition keyboard_clear_scancodes :: "kbd \<Rightarrow> kbd" where
  "keyboard_clear_scancodes k = k\<lparr>scev_tail := scev_head k, scev_count := 0\<rparr>"

section \<open>Invariants and queues\<close>

definition keybuf_count :: "kbd \<Rightarrow> nat" where
  "keybuf_count k = (if keybuf_full k then KEYBUF_SIZE
     else ring_dist KEYBUF_SIZE (keybuf_tail k) (keybuf_head k))"

definition keybuf_items :: "kbd \<Rightarrow> u8 list" where
  "keybuf_items k = ring_items KEYBUF_SIZE (keybuf k) (keybuf_tail k) (keybuf_count k)"

definition scev_items :: "kbd \<Rightarrow> (u8 \<times> bool) list" where
  "scev_items k = ring_items SCEV_BUF_SIZE (scev_buf k) (scev_tail k) (scev_count k)"

definition keybuf_inv :: "kbd \<Rightarrow> bool" where
  "keybuf_inv k \<longleftrightarrow> length (keybuf k) = KEYBUF_SIZE \<and> keybuf_head k < KEYBUF_SIZE
     \<and> keybuf_tail k < KEYBUF_SIZE \<and> (keybuf_full k \<longrightarrow> keybuf_head k = keybuf_tail k)
     \<and> 0 \<notin> set (keybuf_items k)"

definition scev_inv :: "kbd \<Rightarrow> bool" where
  "scev_inv k \<longleftrightarrow> length (scev_buf k) = SCEV_BUF_SIZE \<and> scev_tail k < SCEV_BUF_SIZE
     \<and> scev_count k \<le> SCEV_BUF_SIZE \<and> scev_head k = (scev_tail k + scev_count k) mod SCEV_BUF_SIZE"

definition kbd_inv :: "kbd \<Rightarrow> bool" where
  "kbd_inv k \<longleftrightarrow> keybuf_inv k \<and> scev_inv k"

lemma ring_sizes [simp]: "0 < KEYBUF_SIZE" "0 < SCEV_BUF_SIZE"
  by (simp_all add: KEYBUF_SIZE_def SCEV_BUF_SIZE_def)

lemma kbd_inv_boot: "kbd_inv kbd_boot"
  by (simp add: kbd_inv_def keybuf_inv_def scev_inv_def kbd_boot_def keybuf_items_def
      keybuf_count_def ring_dist_def)

text \<open>What each raw byte stands for: the press or release, and the character of a press.\<close>

definition key_event :: "u8 \<Rightarrow> (u8 \<times> bool) option" where
  "key_event raw = Some (if raw AND 0x80 = 0 then raw else raw AND 0x7F, raw AND 0x80 = 0)"

definition key_char :: "u8 \<Rightarrow> u8 option" where
  "key_char raw =
     (if raw AND 0x80 = 0 \<and> raw < 128 \<and> scancode_to_ascii ! unat raw \<noteq> 0
      then Some (scancode_to_ascii ! unat raw) else None)"

lemma keybuf_items_put:
  assumes "keybuf_inv k"
  shows "keybuf_items (keybuf_put c k) =
    (if length (keybuf_items k) < KEYBUF_SIZE then keybuf_items k @ [c] else keybuf_items k)"
proof (cases "keybuf_full k")
  case True
  then show ?thesis by (simp add: keybuf_put_def keybuf_items_def keybuf_count_def)
next
  case False
  let ?k = "keybuf_put c k" and ?n = "ring_dist KEYBUF_SIZE (keybuf_tail k) (keybuf_head k)"
  from assms have b: "keybuf_tail k < KEYBUF_SIZE" "keybuf_head k < KEYBUF_SIZE"
      "length (keybuf k) = KEYBUF_SIZE" by (auto simp: keybuf_inv_def)
  have n: "keybuf_count k = ?n" "?n < KEYBUF_SIZE"
    using False b ring_dist_less by (simp_all add: keybuf_count_def)
  have "keybuf_count ?k = Suc ?n"
  proof (cases "Suc (keybuf_head k) mod KEYBUF_SIZE = keybuf_tail k")
    case full: True
    with b have "?n = KEYBUF_SIZE - 1" using ring_dist_full_iff by blast
    with full False show ?thesis by (simp add: keybuf_put_def keybuf_count_def KEYBUF_SIZE_def)
  next
    case room: False
    with b False show ?thesis by (simp add: keybuf_put_def keybuf_count_def Let_def ring_dist_push)
  qed
  then have "keybuf_items ?k
      = ring_items KEYBUF_SIZE ((keybuf k)[keybuf_head k := c]) (keybuf_tail k) (Suc ?n)"
    using False by (simp add: keybuf_items_def keybuf_put_def Let_def)
  also have "\<dots> = keybuf_items k @ [c]"
    unfolding keybuf_items_def n(1) using b n(2) ring_dist_end [OF b(1,2)]
    by (intro ring_items_push) auto
  finally show ?thesis using n by (simp add: keybuf_items_def)
qed

lemma keybuf_inv_put:
  assumes "keybuf_inv k" and "c \<noteq> 0"
  shows "keybuf_inv (keybuf_put c k)"
proof -
  have "0 \<notin> set (keybuf_items (keybuf_put c k))"
    using assms keybuf_items_put [OF assms(1), of c] by (auto simp: keybuf_inv_def split: if_splits)
  with assms show ?thesis by (auto simp: keybuf_inv_def keybuf_put_def Let_def)
qed

lemma scev_items_put:
  assumes "scev_inv k"
  shows "scev_items (scev_put sc down k) =
      (if length (scev_items k) < SCEV_BUF_SIZE then scev_items k @ [(sc, down)] else scev_items k)"
    and "scev_inv (scev_put sc down k)"
  using assms
  by (auto simp: scev_inv_def scev_put_def scev_items_def mod_Suc_eq intro!: ring_items_push)

text \<open>Each ring is untouched by the operations of the other.\<close>

lemma kbd_frames [simp]:
  "keybuf_items (scev_put sc down k) = keybuf_items k"
  "keybuf_inv (scev_put sc down k) \<longleftrightarrow> keybuf_inv k"
  "scev_items (keybuf_put c k) = scev_items k"
  "scev_inv (keybuf_put c k) \<longleftrightarrow> scev_inv k"
  by (simp_all add: keybuf_items_def keybuf_count_def scev_items_def scev_put_def keybuf_put_def
      Let_def keybuf_inv_def scev_inv_def)

lemma irq_eq:
  "keyboard_irq_handler raw k =
     (let (sc, down) = the (key_event raw); k1 = scev_put sc down k
      in case key_char raw of None \<Rightarrow> k1 | Some c \<Rightarrow> keybuf_put c k1)"
  by (auto simp: keyboard_irq_handler_def key_event_def key_char_def Let_def not_le)

lemma key_char_nonzero: "key_char raw = Some c \<Longrightarrow> c \<noteq> 0"
  by (auto simp: key_char_def split: if_splits)

lemma keybuf_items_irq:
  assumes "keybuf_inv k"
  shows "keybuf_items (keyboard_irq_handler raw k) =
    (case key_char raw of None \<Rightarrow> keybuf_items k
     | Some c \<Rightarrow> if length (keybuf_items k) < KEYBUF_SIZE then keybuf_items k @ [c] else keybuf_items k)"
    and "keybuf_inv (keyboard_irq_handler raw k)"
  using assms
  by (auto simp: irq_eq keybuf_items_put keybuf_inv_put key_char_nonzero Let_def split: option.splits prod.splits)

lemma scev_items_irq:
  assumes "scev_inv k"
  shows "scev_items (keyboard_irq_handler raw k) =
    (case key_event raw of None \<Rightarrow> scev_items k
     | Some e \<Rightarrow> if length (scev_items k) < SCEV_BUF_SIZE then scev_items k @ [e] else scev_items k)"
    and "scev_inv (keyboard_irq_handler raw k)"
  using assms
  by (auto simp: irq_eq scev_items_put key_event_def Let_def split: option.splits)

definition char_pop :: "kbd \<Rightarrow> u8 option \<times> kbd" where
  "char_pop k = (case keyboard_getchar k of (c, k') \<Rightarrow> (if c = 0 then None else Some c, k'))"

lemma char_pop_eq:
  assumes "keybuf_inv k"
  shows "fst (char_pop k) = (case keybuf_items k of [] \<Rightarrow> None | c # cs \<Rightarrow> Some c)"
    and "keybuf_items (snd (char_pop k)) = tl (keybuf_items k)"
    and "keybuf_inv (snd (char_pop k))"
proof -
  from assms have b: "keybuf_tail k < KEYBUF_SIZE" "keybuf_head k < KEYBUF_SIZE"
    by (auto simp: keybuf_inv_def)
  have "fst (char_pop k) = (case keybuf_items k of [] \<Rightarrow> None | c # cs \<Rightarrow> Some c)
    \<and> keybuf_items (snd (char_pop k)) = tl (keybuf_items k) \<and> keybuf_inv (snd (char_pop k))"
  proof (cases "\<not> keybuf_full k \<and> keybuf_head k = keybuf_tail k")
    case True
    then have "keybuf_items k = []" by (simp add: keybuf_items_def keybuf_count_def ring_dist_def)
    with True assms show ?thesis by (simp add: char_pop_def keyboard_getchar_def)
  next
    case False
    let ?k = "k\<lparr>keybuf_tail := Suc (keybuf_tail k) mod KEYBUF_SIZE, keybuf_full := False\<rparr>"
    have count: "keybuf_count k = Suc (keybuf_count ?k)"
    proof (cases "keybuf_full k")
      case full: True
      with assms have "keybuf_head k = keybuf_tail k" by (simp add: keybuf_inv_def)
      with full b show ?thesis
        by (auto simp: keybuf_count_def ring_dist_def Suc_mod_ring)
    next
      case nfull: False
      with False b have "keybuf_tail k \<noteq> keybuf_head k" by auto
      with ring_dist_pop [OF b] ring_dist_0_iff [OF b] nfull show ?thesis
        by (simp add: keybuf_count_def)
    qed
    have items: "keybuf_items k = (keybuf k ! keybuf_tail k) # keybuf_items ?k"
      using b by (simp add: keybuf_items_def count ring_items_pop)
    then have "keybuf k ! keybuf_tail k \<noteq> 0" "keybuf_inv ?k"
      using assms by (auto simp: keybuf_inv_def)
    with False items show ?thesis by (auto simp: char_pop_def keyboard_getchar_def)
  qed
  then show "fst (char_pop k) = (case keybuf_items k of [] \<Rightarrow> None | c # cs \<Rightarrow> Some c)"
    and "keybuf_items (snd (char_pop k)) = tl (keybuf_items k)"
    and "keybuf_inv (snd (char_pop k))" by auto
qed

lemma get_scancode_eq:
  assumes "scev_inv k"
  shows "fst (keyboard_get_scancode k) = (case scev_items k of [] \<Rightarrow> None | e # es \<Rightarrow> Some e)"
    and "scev_items (snd (keyboard_get_scancode k)) = tl (scev_items k)"
    and "scev_inv (snd (keyboard_get_scancode k))"
  using assms
  by (cases "scev_count k"; simp add: keyboard_get_scancode_def scev_items_def scev_inv_def
      ring_items_pop mod_simps)+

interpretation kb: bounded_fifo keybuf_inv keybuf_items KEYBUF_SIZE key_char keyboard_irq_handler char_pop
  by unfold_locales (auto simp: keybuf_items_irq char_pop_eq)

interpretation sc: bounded_fifo scev_inv scev_items SCEV_BUF_SIZE key_event keyboard_irq_handler
    keyboard_get_scancode
  by unfold_locales (auto simp: scev_items_irq get_scancode_eq)

lemma kbd_inv_irq: "kbd_inv k \<Longrightarrow> kbd_inv (keyboard_irq_handler raw k)"
  by (simp add: kbd_inv_def keybuf_items_irq scev_items_irq)

lemma kbd_inv_clear: "kbd_inv k \<Longrightarrow> kbd_inv (keyboard_clear_scancodes k)"
  by (auto simp: kbd_inv_def keybuf_inv_def scev_inv_def keyboard_clear_scancodes_def
      keybuf_items_def keybuf_count_def)

section \<open>Properties\<close>

text \<open>Every state the driver can be in: interrupts and the three consumer calls in any order.\<close>

inductive kbd_reach :: "kbd \<Rightarrow> bool" where
  boot: "kbd_reach kbd_boot"
| irq: "kbd_reach k \<Longrightarrow> kbd_reach (keyboard_irq_handler raw k)"
| getchar: "kbd_reach k \<Longrightarrow> kbd_reach (snd (keyboard_getchar k))"
| get_scancode: "kbd_reach k \<Longrightarrow> kbd_reach (snd (keyboard_get_scancode k))"
| clear: "kbd_reach k \<Longrightarrow> kbd_reach (keyboard_clear_scancodes k)"

lemma kbd_reach_inv: "kbd_reach k \<Longrightarrow> kbd_inv k"
proof (induction rule: kbd_reach.induct)
  case boot
  show ?case by (rule kbd_inv_boot)
next
  case (irq k raw)
  then show ?case by (simp add: kbd_inv_irq)
next
  case (getchar k)
  have "snd (char_pop k) = snd (keyboard_getchar k)" by (simp add: char_pop_def split: prod.splits)
  with getchar char_pop_eq(3) [of k] show ?case
    by (auto simp: kbd_inv_def scev_inv_def keyboard_getchar_def)
next
  case (get_scancode k)
  with get_scancode_eq(3) [of k] show ?case
    by (auto simp: kbd_inv_def keybuf_inv_def keyboard_get_scancode_def keybuf_items_def keybuf_count_def)
next
  case (clear k)
  then show ?case by (simp add: kbd_inv_clear)
qed

text \<open>
  In every reachable state of the keyboard driver both rings are consistent: every index is
  inside its array, the full flag and the event count agree with the indices, and the character ring
  holds no NUL, so that the NUL of \<open>keyboard_getchar\<close> always means that nothing is pending.
\<close>

theorem keyboard_reachable_consistent:
  assumes "kbd_reach k"
  shows "kbd_inv k \<and> (fst (keyboard_getchar k) = 0 \<longleftrightarrow> keybuf_items k = [])"
proof
  show "kbd_inv k" using assms by (rule kbd_reach_inv)
  then have "fst (char_pop k) = (case keybuf_items k of [] \<Rightarrow> None | c # cs \<Rightarrow> Some c)"
    by (simp add: kbd_inv_def char_pop_eq)
  then show "fst (keyboard_getchar k) = 0 \<longleftrightarrow> keybuf_items k = []"
    by (auto simp: char_pop_def split: prod.splits list.splits if_splits)
qed

theorem keyboard_reachable_consistent_witness:
  "kbd_inv (keyboard_irq_handler 30 kbd_boot)
   \<and> (fst (keyboard_getchar (keyboard_irq_handler 30 kbd_boot)) = 0
      \<longleftrightarrow> keybuf_items (keyboard_irq_handler 30 kbd_boot) = [])"
  by (rule keyboard_reachable_consistent) (intro kbd_reach.irq kbd_reach.boot)

text \<open>
  C23: The characters a reader gets from \<open>keyboard_getchar\<close>, in any interleaving of interrupts and
  reads from boot, are exactly what a list bounded to \<open>KEYBUF_SIZE\<close> delivers: in typing order, each
  once, dropping only what arrives while 256 characters are pending.
\<close>

theorem keyboard_getchar_is_bounded_queue:
  "fst (fifo_run keyboard_irq_handler char_pop evs kbd_boot) = fst (list_fifo key_char KEYBUF_SIZE evs [])"
proof -
  obtain ys k where r: "fifo_run keyboard_irq_handler char_pop evs kbd_boot = (ys, k)" by fastforce
  have "keybuf_inv kbd_boot" using kbd_inv_boot by (simp add: kbd_inv_def)
  from kb.run_refines_list(2) [OF this r] r show ?thesis
    by (simp add: kbd_boot_def keybuf_items_def keybuf_count_def ring_dist_def)
qed

text \<open>
  Press and release events (\<open>keyboard_get_scancode\<close>, which the game ports poll) are
  delivered in order and none is lost, as long as no more than \<open>SCEV_BUF_SIZE\<close> are raised.
\<close>

theorem keyboard_scancodes_nothing_lost:
  assumes "length (offered key_event evs) \<le> SCEV_BUF_SIZE"
    and "fifo_run keyboard_irq_handler keyboard_get_scancode evs kbd_boot = (ys, k)"
  shows "ys @ scev_items k = offered key_event evs"
proof -
  have "scev_inv kbd_boot" "scev_items kbd_boot = []"
    using kbd_inv_boot by (simp_all add: kbd_inv_def scev_items_def kbd_boot_def)
  with sc.run_nothing_lost [OF _ assms(2)] assms(1) show ?thesis by simp
qed

theorem keyboard_scancodes_nothing_lost_witness:
  "fst (fifo_run keyboard_irq_handler keyboard_get_scancode [Produce 30, Produce 158, Consume] kbd_boot)
     @ scev_items (snd (fifo_run keyboard_irq_handler keyboard_get_scancode [Produce 30, Produce 158, Consume] kbd_boot))
   = [(30, True), (30, False)]"
  using keyboard_scancodes_nothing_lost [of "[Produce 30, Produce 158, Consume]",
      OF _ prod.collapse [symmetric]]
  by (simp add: key_event_def SCEV_BUF_SIZE_def)

end
