(* ===== verification/Loopback.thy ===== *)
theory Loopback
  imports Ring
begin

text \<open>
  The loopback interface (\<^verbatim>\<open>src/kernel/net/net_loopback.c\<close>): a ring of \<open>LB_Q\<close> datagram
  slots of \<open>LB_MTU\<close> bytes. One slot always stays free, so the capacity is \<open>LB_Q - 1\<close>.
  The component is interpreted as a \<open>bounded_fifo\<close> of datagrams.
\<close>

definition LB_Q :: nat where "LB_Q = 16"
definition LB_MTU :: nat where "LB_MTU = 2048"

record loopback =
  lb_buf :: "u8 list list"
  lb_len :: "nat list"
  lb_head :: nat
  lb_tail :: nat

text \<open>
  \<open>ip\<close> is the array of the caller and \<open>len\<close> the byte count; the loop copies \<open>len\<close> bytes into
  the slot, leaving the rest of the slot as it was.
\<close>

definition loopback_xmit :: "u8 list \<Rightarrow> int \<Rightarrow> loopback \<Rightarrow> loopback" where
  "loopback_xmit ip len lb =
     (if len \<le> 0 \<or> int LB_MTU < len then lb
      else let next_slot = (lb_tail lb + 1) mod LB_Q in
        if next_slot = lb_head lb then lb
        else lb\<lparr>lb_buf := (lb_buf lb)[lb_tail lb := blit (lb_buf lb ! lb_tail lb) 0 (take (nat len) ip)],
                lb_len := (lb_len lb)[lb_tail lb := nat len],
                lb_tail := next_slot\<rparr>)"

text \<open>\<open>loopback_fetch\<close> returns the bytes it stored in \<open>out\<close>; their number is its C result.\<close>

definition loopback_fetch :: "nat \<Rightarrow> loopback \<Rightarrow> u8 list \<times> loopback" where
  "loopback_fetch max_len lb =
     (if lb_head lb = lb_tail lb then ([], lb)
      else let n = lb_len lb ! lb_head lb; n = (if n > max_len then max_len else n)
        in (take n (lb_buf lb ! lb_head lb), lb\<lparr>lb_head := (lb_head lb + 1) mod LB_Q\<rparr>))"

definition loopback_clear :: "loopback \<Rightarrow> loopback" where
  "loopback_clear lb = lb\<lparr>lb_head := 0, lb_tail := 0\<rparr>"

text \<open>The arrays are static: zero before the first use.\<close>

definition loopback_boot :: loopback where
  "loopback_boot = \<lparr>lb_buf = replicate LB_Q (replicate LB_MTU 0), lb_len = replicate LB_Q 0,
     lb_head = 0, lb_tail = 0\<rparr>"

section \<open>Invariant and queue\<close>

definition lb_count :: "loopback \<Rightarrow> nat" where
  "lb_count lb = ring_dist LB_Q (lb_head lb) (lb_tail lb)"

definition lb_slots :: "loopback \<Rightarrow> u8 list list" where
  "lb_slots lb = map (\<lambda>i. take (lb_len lb ! i) (lb_buf lb ! i)) [0..<LB_Q]"

definition lb_items :: "loopback \<Rightarrow> u8 list list" where
  "lb_items lb = ring_items LB_Q (lb_slots lb) (lb_head lb) (lb_count lb)"

definition lb_shape :: "loopback \<Rightarrow> bool" where
  "lb_shape lb \<longleftrightarrow> length (lb_buf lb) = LB_Q \<and> length (lb_len lb) = LB_Q
     \<and> lb_head lb < LB_Q \<and> lb_tail lb < LB_Q
     \<and> (\<forall>b \<in> set (lb_buf lb). length b = LB_MTU)"

definition lb_inv :: "loopback \<Rightarrow> bool" where
  "lb_inv lb \<longleftrightarrow> lb_shape lb \<and> (\<forall>d \<in> set (lb_items lb). 0 < length d \<and> length d \<le> LB_MTU)"

lemma LB_Q_pos [simp]: "0 < LB_Q"
  by (simp add: LB_Q_def)

lemma lb_shapeD:
  assumes "lb_shape lb"
  shows "lb_head lb < LB_Q" "lb_tail lb < LB_Q" "length (lb_buf lb) = LB_Q"
    "length (lb_len lb) = LB_Q" "i < LB_Q \<Longrightarrow> length (lb_buf lb ! i) = LB_MTU"
  using assms by (auto simp: lb_shape_def)

lemma lb_shape_xmit: "lb_shape lb \<Longrightarrow> len \<le> int (length ip) \<Longrightarrow> lb_shape (loopback_xmit ip len lb)"
  by (auto simp: lb_shape_def loopback_xmit_def Let_def dest!: set_update_subset_insert [THEN subsetD])

lemma lb_inv_boot: "lb_inv loopback_boot"
  by (simp add: lb_inv_def lb_shape_def loopback_boot_def lb_items_def lb_count_def ring_dist_def)

lemma lb_inv_clear: "lb_inv lb \<Longrightarrow> lb_inv (loopback_clear lb)"
  by (simp add: lb_inv_def lb_shape_def loopback_clear_def lb_items_def lb_count_def ring_dist_def)

lemma lb_items_clear [simp]: "lb_items (loopback_clear lb) = []"
  by (simp add: loopback_clear_def lb_items_def lb_count_def ring_dist_def)

text \<open>
  The contract: a datagram is \<open>ip\<close> together with its length, accepted when it holds between
  one and \<open>LB_MTU\<close> bytes. Fetching with room for \<open>LB_MTU\<close> bytes returns it whole.
\<close>

definition lb_dec :: "u8 list \<Rightarrow> u8 list option" where
  "lb_dec d = (if 0 < length d \<and> length d \<le> LB_MTU then Some d else None)"

definition lb_push :: "u8 list \<Rightarrow> loopback \<Rightarrow> loopback" where
  "lb_push d lb = loopback_xmit d (int (length d)) lb"

definition lb_pop :: "loopback \<Rightarrow> u8 list option \<times> loopback" where
  "lb_pop lb = (case loopback_fetch LB_MTU lb of (d, lb') \<Rightarrow> (if d = [] then None else Some d, lb'))"

lemma lb_slots_nth [simp]: "i < LB_Q \<Longrightarrow> lb_slots lb ! i = take (lb_len lb ! i) (lb_buf lb ! i)"
  by (simp add: lb_slots_def)

lemma length_lb_slots [simp]: "length (lb_slots lb) = LB_Q"
  by (simp add: lb_slots_def)

lemma lb_items_push:
  assumes "lb_inv lb"
  shows "lb_items (lb_push d lb) = (case lb_dec d of None \<Rightarrow> lb_items lb
    | Some x \<Rightarrow> if length (lb_items lb) < LB_Q - 1 then lb_items lb @ [x] else lb_items lb)"
proof (cases "0 < length d \<and> length d \<le> LB_MTU \<and> Suc (lb_tail lb) mod LB_Q \<noteq> lb_head lb")
  case False
  with assms show ?thesis
    by (auto simp: lb_push_def lb_dec_def loopback_xmit_def lb_items_def lb_count_def
        ring_dist_full_iff lb_inv_def lb_shape_def Let_def)
next
  case True
  let ?lb = "lb_push d lb"
  from assms have b: "lb_head lb < LB_Q" "lb_tail lb < LB_Q" "length (lb_buf lb) = LB_Q"
      "length (lb_len lb) = LB_Q" "length (lb_buf lb ! lb_tail lb) = LB_MTU"
    by (auto simp: lb_inv_def lb_shape_def)
  with True have room: "lb_count lb < LB_Q - 1"
    using ring_dist_full_iff [OF b(1,2)] ring_dist_less [OF b(1,2)] by (auto simp: lb_count_def)
  have head: "lb_head ?lb = lb_head lb" and tail: "lb_tail ?lb = Suc (lb_tail lb) mod LB_Q"
    using True by (auto simp: lb_push_def loopback_xmit_def Let_def)
  have count: "lb_count ?lb = Suc (lb_count lb)"
    unfolding lb_count_def head tail using True b by (intro ring_dist_push) auto
  have slots: "lb_slots ?lb = (lb_slots lb)[lb_tail lb := d]"
  proof (rule nth_equalityI)
    fix i assume "i < length (lb_slots ?lb)"
    then have i: "i < LB_Q" by simp
    with True b show "lb_slots ?lb ! i = (lb_slots lb)[lb_tail lb := d] ! i"
      by (auto simp: nth_list_update lb_push_def loopback_xmit_def Let_def)
  qed simp
  have "lb_items ?lb = ring_items LB_Q ((lb_slots lb)[lb_tail lb := d]) (lb_head lb) (Suc (lb_count lb))"
    by (simp add: lb_items_def slots head count)
  also have "\<dots> = lb_items lb @ [d]"
    unfolding lb_items_def
    using b ring_dist_end [OF b(1,2)] ring_dist_less [OF b(1,2)]
    by (intro ring_items_push) (auto simp: lb_count_def)
  finally show ?thesis
    using True room by (simp add: lb_dec_def lb_items_def)
qed

lemma lb_inv_push: "lb_inv lb \<Longrightarrow> lb_inv (lb_push d lb)"
proof -
  assume inv: "lb_inv lb"
  have "\<forall>x \<in> set (lb_items (lb_push d lb)). 0 < length x \<and> length x \<le> LB_MTU"
    using inv by (auto simp: lb_items_push lb_dec_def lb_inv_def split: option.splits if_splits)
  moreover have "lb_shape (lb_push d lb)"
    using inv unfolding lb_inv_def lb_push_def by (intro lb_shape_xmit) auto
  ultimately show ?thesis by (simp add: lb_inv_def)
qed

lemma lb_pop_eq:
  assumes "lb_inv lb"
  shows "fst (lb_pop lb) = (case lb_items lb of [] \<Rightarrow> None | x # xs \<Rightarrow> Some x)"
    and "lb_items (snd (lb_pop lb)) = tl (lb_items lb)"
    and "lb_inv (snd (lb_pop lb))"
proof -
  have all: "fst (lb_pop lb) = (case lb_items lb of [] \<Rightarrow> None | x # xs \<Rightarrow> Some x)
    \<and> lb_items (snd (lb_pop lb)) = tl (lb_items lb) \<and> lb_inv (snd (lb_pop lb))"
  proof (cases "lb_head lb = lb_tail lb")
    case True
    then have "lb_count lb = 0" by (simp add: lb_count_def ring_dist_def)
    then have "lb_items lb = []" by (simp add: lb_items_def)
    with True assms show ?thesis by (simp add: lb_pop_def loopback_fetch_def)
  next
    case False
    from assms have b: "lb_head lb < LB_Q" "lb_tail lb < LB_Q" by (auto simp: lb_inv_def lb_shape_def)
    with False obtain n where n: "lb_count lb = Suc n"
      using ring_dist_0_iff [OF b] by (cases "lb_count lb") (auto simp: lb_count_def)
    let ?d = "take (lb_len lb ! lb_head lb) (lb_buf lb ! lb_head lb)"
    let ?lb = "lb\<lparr>lb_head := Suc (lb_head lb) mod LB_Q\<rparr>"
    have items: "lb_items lb = ?d # ring_items LB_Q (lb_slots lb) (Suc (lb_head lb) mod LB_Q) n"
      using b by (simp add: lb_items_def n ring_items_pop)
    have d: "0 < length ?d" "length ?d \<le> LB_MTU"
      using assms items by (auto simp: lb_inv_def LB_MTU_def)
    have fetched: "loopback_fetch LB_MTU lb = (?d, ?lb)"
    proof -
      have "length (lb_buf lb ! lb_head lb) = LB_MTU"
        using assms b by (simp add: lb_inv_def lb_shapeD)
      then have "take LB_MTU (lb_buf lb ! lb_head lb) = lb_buf lb ! lb_head lb" by simp
      then show ?thesis using False
        by (simp add: loopback_fetch_def Let_def \<open>length (lb_buf lb ! lb_head lb) = LB_MTU\<close>)
    qed
    have count: "lb_count ?lb = n"
      using b n False by (simp add: lb_count_def ring_dist_pop)
    have rest: "lb_items ?lb = ring_items LB_Q (lb_slots lb) (Suc (lb_head lb) mod LB_Q) n"
      by (simp add: lb_items_def count) (simp add: lb_slots_def)
    have "lb_inv ?lb"
      using assms rest items by (auto simp: lb_inv_def lb_shape_def)
    with d fetched items rest show ?thesis by (auto simp: lb_pop_def)
  qed
  then show "fst (lb_pop lb) = (case lb_items lb of [] \<Rightarrow> None | x # xs \<Rightarrow> Some x)"
    and "lb_items (snd (lb_pop lb)) = tl (lb_items lb)"
    and "lb_inv (snd (lb_pop lb))" by auto
qed

interpretation lb: bounded_fifo lb_inv lb_items "LB_Q - 1" lb_dec lb_push lb_pop
  by unfold_locales (auto simp: lb_inv_push lb_items_push lb_pop_eq)

section \<open>Properties\<close>

text \<open>
  The loopback interface delivers the datagrams of 1 to 2048 bytes it was given whole,
  unchanged, in order and each once, when at most 15 are outstanding: the bytes fetched, followed by
  those still queued, are those transmitted.
\<close>

theorem loopback_delivers:
  assumes "length (offered lb_dec evs) \<le> LB_Q - 1"
    and "fifo_run lb_push lb_pop evs loopback_boot = (ys, lb)"
  shows "ys @ lb_items lb = offered lb_dec evs"
proof -
  have "lb_items loopback_boot = []"
    by (simp add: lb_items_def loopback_boot_def lb_count_def ring_dist_def)
  with lb.run_nothing_lost [OF lb_inv_boot assms(2)] assms(1) show ?thesis by simp
qed

theorem loopback_delivers_witness:
  "fst (fifo_run lb_push lb_pop [Produce [1, 2], Consume, Produce [3]] loopback_boot)
     @ lb_items (snd (fifo_run lb_push lb_pop [Produce [1, 2], Consume, Produce [3]] loopback_boot))
   = [[1, 2], [3]]"
  using loopback_delivers [of "[Produce [1, 2], Consume, Produce [3]]", OF _ prod.collapse [symmetric]]
  by (simp add: lb_dec_def LB_Q_def LB_MTU_def)

text \<open>
  In any interleaving whatever, also when the ring overflows, the interface behaves as a list
  that refuses a sixteenth datagram: what is fetched is a subsequence of what was sent.
\<close>

theorem loopback_is_bounded_queue:
  "fst (fifo_run lb_push lb_pop evs loopback_boot) = fst (list_fifo lb_dec (LB_Q - 1) evs [])"
proof -
  obtain ys k where r: "fifo_run lb_push lb_pop evs loopback_boot = (ys, k)" by fastforce
  from lb.run_refines_list(2) [OF lb_inv_boot r] r show ?thesis
    by (simp add: lb_items_def loopback_boot_def lb_count_def ring_dist_def)
qed

end
