(* ===== verification/Kheap.thy ===== *)
theory Kheap
  imports Kprelude
begin

text \<open>
  The kernel heap (\<^verbatim>\<open>src/kernel/mm/heap.c\<close>): a bump allocator over one region. Pointers are
  \<open>u64\<close> addresses and all arithmetic wraps as on the machine. \<open>kmalloc\<close> returns \<open>None\<close> for
  \<open>NULL\<close>. \<open>kfree\<close> does nothing, as in the source.
\<close>

record kheap =
  heap_start :: u64
  heap_cur :: u64
  heap_end :: u64

definition heap_init :: "u64 \<Rightarrow> u64 \<Rightarrow> kheap" where
  "heap_init region sz = \<lparr>heap_start = region, heap_cur = region, heap_end = region + sz\<rparr>"

definition kmalloc :: "u64 \<Rightarrow> kheap \<Rightarrow> u64 option \<times> kheap" where
  "kmalloc sz h =
     (let sz = align_up8 sz in
      if heap_cur h + sz > heap_end h then (None, h)
      else (Some (heap_cur h), h\<lparr>heap_cur := heap_cur h + sz\<rparr>))"

definition kfree :: "u64 option \<Rightarrow> kheap \<Rightarrow> kheap" where
  "kfree ptr h = h"

text \<open>A client's sequence of requests, and the blocks (address, request) it got.\<close>

fun kmalloc_seq :: "u64 list \<Rightarrow> kheap \<Rightarrow> (u64 \<times> u64) list \<times> kheap" where
  "kmalloc_seq [] h = ([], h)"
| "kmalloc_seq (n # ns) h =
     (case kmalloc n h of
        (None, h') \<Rightarrow> kmalloc_seq ns h'
      | (Some p, h') \<Rightarrow> (case kmalloc_seq ns h' of (bs, h'') \<Rightarrow> ((p, n) # bs, h'')))"

section \<open>Invariant\<close>

definition kheap_inv :: "kheap \<Rightarrow> bool" where
  "kheap_inv h \<longleftrightarrow> heap_start h \<le> heap_cur h \<and> heap_cur h \<le> heap_end h"

text \<open>
  A request is sane when rounding it and adding it to the end of the region stay below
  \<open>2^64\<close>. Every request of the kernel (64 KiB stacks in a region below 2 MiB) is.
\<close>

definition kmalloc_sane :: "kheap \<Rightarrow> u64 \<Rightarrow> bool" where
  "kmalloc_sane h n \<longleftrightarrow> unat (heap_end h) + unat n + 8 < 2 ^ 64"

lemma kheap_inv_init:
  assumes "unat region + unat sz < 2 ^ 64"
  shows "kheap_inv (heap_init region sz)"
  using assms by (simp add: kheap_inv_def heap_init_def word_le_nat_alt unat_word_ariths)

lemma kmalloc_frame [simp]:
  "heap_start (snd (kmalloc n h)) = heap_start h" "heap_end (snd (kmalloc n h)) = heap_end h"
  by (simp_all add: kmalloc_def Let_def)

lemma kmalloc_cases:
  assumes "kheap_inv h" and "kmalloc_sane h n"
  shows "(unat (heap_cur h) + unat (align_up8 n) \<le> unat (heap_end h)
      \<and> fst (kmalloc n h) = Some (heap_cur h)
      \<and> unat (heap_cur (snd (kmalloc n h))) = unat (heap_cur h) + unat (align_up8 n))
    \<or> (unat (heap_end h) < unat (heap_cur h) + unat (align_up8 n) \<and> kmalloc n h = (None, h))"
proof -
  have "unat n + 7 < 2 ^ 64" using assms(2) by (simp add: kmalloc_sane_def)
  from align_up8_bounds(2) [OF this] assms
  have "unat (heap_cur h) + unat (align_up8 n) < 18446744073709551616"
    by (simp add: kmalloc_sane_def kheap_inv_def word_le_nat_alt)
  then have "unat (heap_cur h + align_up8 n) = unat (heap_cur h) + unat (align_up8 n)"
    by (simp add: unat_word_ariths)
  then show ?thesis
    by (auto simp: kmalloc_def Let_def word_less_nat_alt)
qed

lemma kheap_inv_kmalloc:
  assumes "kheap_inv h" and "kmalloc_sane h n"
  shows "kheap_inv (snd (kmalloc n h))" and "heap_cur h \<le> heap_cur (snd (kmalloc n h))"
  using kmalloc_cases [OF assms] assms(1) by (auto simp: kheap_inv_def word_le_nat_alt)

lemma kmalloc_sane_frame: "kmalloc_sane (snd (kmalloc m h)) n \<longleftrightarrow> kmalloc_sane h n"
  by (simp add: kmalloc_sane_def)

text \<open>Blocks as intervals of natural numbers: \<open>[p, p + n)\<close>.\<close>

definition block_range :: "u64 \<times> u64 \<Rightarrow> nat set" where
  "block_range b = {unat (fst b) ..< unat (fst b) + unat (snd b)}"

lemma kmalloc_seq_above:
  assumes "kheap_inv h" and "\<forall>n \<in> set ns. kmalloc_sane h n"
    and "kmalloc_seq ns h = (bs, h')" and "b \<in> set bs"
  shows "block_range b \<subseteq> {unat (heap_cur h) ..< unat (heap_end h)}"
  using assms
proof (induction ns arbitrary: h h' bs)
  case Nil
  then show ?case by simp
next
  case (Cons n ns)
  have inv: "kheap_inv (snd (kmalloc n h))" and le: "heap_cur h \<le> heap_cur (snd (kmalloc n h))"
    using kheap_inv_kmalloc Cons.prems(1,2) by auto
  obtain bs1 h1 where rec: "kmalloc_seq ns (snd (kmalloc n h)) = (bs1, h1)" by fastforce
  have above: "block_range b \<subseteq> {unat (heap_cur h) ..< unat (heap_end h)}" if "b \<in> set bs1"
    using Cons.IH [OF inv _ rec that] Cons.prems(2) le
    by (auto simp: kmalloc_sane_frame word_le_nat_alt)
  from Cons.prems(2) have "kmalloc_sane h n" by simp
  with Cons.prems(1) consider
    (got) "unat (heap_cur h) + unat (align_up8 n) \<le> unat (heap_end h)" "fst (kmalloc n h) = Some (heap_cur h)"
    | (full) "kmalloc n h = (None, h)"
    using kmalloc_cases by blast
  then show ?case
  proof cases
    case got
    then obtain h2 where k: "kmalloc n h = (Some (heap_cur h), h2)" by (cases "kmalloc n h") auto
    have "unat n + 7 < 2 ^ 64" using \<open>kmalloc_sane h n\<close> by (simp add: kmalloc_sane_def)
    with got(1) align_up8_bounds(1) [of n]
    have "unat (heap_cur h) + unat n \<le> unat (heap_end h)" by simp
    with k rec above Cons.prems(3,4) show ?thesis by (auto simp: block_range_def)
  next
    case full
    with rec above Cons.prems(3,4) show ?thesis by auto
  qed
qed

lemma kmalloc_seq_disjoint:
  assumes "kheap_inv h" and "\<forall>n \<in> set ns. kmalloc_sane h n"
    and "kmalloc_seq ns h = (bs, h')" and "i < j" and "j < length bs"
  shows "block_range (bs ! i) \<inter> block_range (bs ! j) = {}"
  using assms
proof (induction ns arbitrary: h h' bs i j)
  case Nil
  then show ?case by simp
next
  case (Cons n ns)
  have inv: "kheap_inv (snd (kmalloc n h))" using kheap_inv_kmalloc Cons.prems(1,2) by auto
  have sane: "\<forall>m \<in> set ns. kmalloc_sane (snd (kmalloc n h)) m"
    using Cons.prems(2) by (simp add: kmalloc_sane_frame)
  obtain bs1 h1 where rec: "kmalloc_seq ns (snd (kmalloc n h)) = (bs1, h1)" by fastforce
  from Cons.prems(2) have sn: "kmalloc_sane h n" by simp
  with Cons.prems(1) consider
    (got) "fst (kmalloc n h) = Some (heap_cur h)"
      "unat (heap_cur (snd (kmalloc n h))) = unat (heap_cur h) + unat (align_up8 n)"
    | (full) "kmalloc n h = (None, h)"
    using kmalloc_cases by blast
  then show ?case
  proof cases
    case got
    then obtain h2 where k: "kmalloc n h = (Some (heap_cur h), h2)" by (cases "kmalloc n h") auto
    with rec Cons.prems(3) have bs: "bs = (heap_cur h, n) # bs1" by auto
    show ?thesis
    proof (cases i)
      case 0
      have "unat n + 7 < 2 ^ 64" using sn by (simp add: kmalloc_sane_def)
      from align_up8_bounds(1) [OF this] got(2)
      have "unat (heap_cur h) + unat n \<le> unat (heap_cur (snd (kmalloc n h)))" by simp
      moreover have "block_range (bs ! j) \<subseteq> {unat (heap_cur (snd (kmalloc n h))) ..<
          unat (heap_end (snd (kmalloc n h)))}"
        using kmalloc_seq_above [OF inv sane rec] Cons.prems(4,5) bs by (cases j) auto
      ultimately show ?thesis using 0 bs by (fastforce simp: block_range_def)
    next
      case (Suc i')
      with Cons.IH [OF inv sane rec, of i' "j - 1"] Cons.prems(4,5) bs show ?thesis
        by (cases j) auto
    qed
  next
    case full
    with Cons.IH [OF inv sane rec] rec Cons.prems(3-5) show ?thesis by simp
  qed
qed

section \<open>Properties\<close>

text \<open>
  C39: A sequence of \<open>kmalloc\<close> calls on a freshly initialised heap, with requests that do not
  wrap, yields blocks that lie inside the region and are pairwise disjoint.
\<close>

theorem kmalloc_blocks_disjoint:
  assumes "unat region + unat sz < 2 ^ 64" and "\<forall>n \<in> set ns. kmalloc_sane (heap_init region sz) n"
    and "kmalloc_seq ns (heap_init region sz) = (bs, h)"
  shows "(\<forall>b \<in> set bs. block_range b \<subseteq> {unat region ..< unat region + unat sz})
    \<and> (\<forall>i j. i < j \<and> j < length bs \<longrightarrow> block_range (bs ! i) \<inter> block_range (bs ! j) = {})"
proof -
  have inv: "kheap_inv (heap_init region sz)" using assms(1) by (rule kheap_inv_init)
  have "unat (heap_cur (heap_init region sz)) = unat region"
    "unat (heap_end (heap_init region sz)) = unat region + unat sz"
    using assms(1) by (simp_all add: heap_init_def unat_word_ariths)
  with kmalloc_seq_above [OF inv assms(2,3)] kmalloc_seq_disjoint [OF inv assms(2,3)]
  show ?thesis by metis
qed

theorem kmalloc_blocks_disjoint_witness:
  "fst (kmalloc_seq [20, 100, 3] (heap_init 4096 200)) = [(4096, 20), (4120, 100), (4224, 3)]
   \<and> block_range (4096, 20) \<inter> block_range (4120, 100) = {}
   \<and> block_range (4096, 20) \<inter> block_range (4224, 3) = {}"
proof -
  let ?bs = "fst (kmalloc_seq [20, 100, 3] (heap_init 4096 200))"
  have bs: "?bs = [(4096, 20), (4120, 100), (4224, 3)]"
    by (simp add: kmalloc_def heap_init_def align_up8_def Let_def)
  have "\<forall>i j. i < j \<and> j < length ?bs \<longrightarrow> block_range (?bs ! i) \<inter> block_range (?bs ! j) = {}"
    using kmalloc_blocks_disjoint [of 4096 200 "[20, 100, 3]", OF _ _ prod.collapse [symmetric]]
    by (simp add: kmalloc_sane_def heap_init_def)
  from this [rule_format, of 0 1] this [rule_format, of 0 2] show ?thesis
    unfolding bs by simp
qed

text \<open>
  Near the top of the address space \<open>ALIGN_UP\<close> and the bound check of \<open>kmalloc\<close> wrap: a
  request of \<open>2^64 - 8\<close> bytes succeeds and moves the heap pointer back by 8, so that the next
  block overlaps the previous one.
\<close>

theorem kmalloc_wraps_back:
  assumes "8 \<le> heap_cur h" and "heap_cur h \<le> heap_end h"
  shows "kmalloc (2 ^ 64 - 8) h = (Some (heap_cur h), h\<lparr>heap_cur := heap_cur h - 8\<rparr>)"
proof -
  have a: "align_up8 (2 ^ 64 - 8) = - 8" by (simp add: align_up8_def)
  have "heap_cur h - 8 \<le> heap_end h"
    using assms by (simp add: word_le_nat_alt unat_sub)
  then show ?thesis unfolding kmalloc_def a by (simp add: Let_def not_less)
qed

theorem kmalloc_wraps_back_witness:
  "kmalloc (2 ^ 64 - 8) (snd (kmalloc 64 (heap_init 4096 200)))
   = (Some 4160, (snd (kmalloc 64 (heap_init 4096 200)))\<lparr>heap_cur := 4152\<rparr>)"
  using kmalloc_wraps_back [of "snd (kmalloc 64 (heap_init 4096 200))"]
  by (simp add: kmalloc_def heap_init_def align_up8_def)

end
