(* ===== verification/Allocator.thy ===== *)
theory Allocator
  imports Kprelude
begin

text \<open>
  The contract of an allocator with \<open>malloc\<close>, \<open>free\<close> and \<open>realloc\<close>, and what a client that
  keeps to it may rely on. A client is a script of calls: it remembers the pointers it holds with the
  sizes it asked for, and frees or resizes only those. An address is a natural number, 0 is
  \<open>NULL\<close>, and \<open>None\<close> is a call that does not return. \<open>Freelist\<close> provides the interface.
\<close>

datatype heap_op = OpMalloc u64 | OpFree nat | OpRealloc nat u64

definition remove_nth :: "nat \<Rightarrow> 'a list \<Rightarrow> 'a list" where
  "remove_nth k xs = take k xs @ drop (Suc k) xs"

fun heap_step :: "(u64 \<Rightarrow> 's \<Rightarrow> (nat \<times> 's) option) \<Rightarrow> (nat \<Rightarrow> 's \<Rightarrow> 's option)
    \<Rightarrow> (nat \<Rightarrow> u64 \<Rightarrow> 's \<Rightarrow> (nat \<times> 's) option) \<Rightarrow> heap_op \<Rightarrow> 's \<times> (nat \<times> u64) list
    \<Rightarrow> ('s \<times> (nat \<times> u64) list) option" where
  "heap_step m f r (OpMalloc sz) (s, ps) =
     (case m sz s of None \<Rightarrow> None | Some (p, s') \<Rightarrow> Some (s', if p = 0 then ps else (p, sz) # ps))"
| "heap_step m f r (OpFree k) (s, ps) =
     (if k < length ps
      then (case f (fst (ps ! k)) s of None \<Rightarrow> None | Some s' \<Rightarrow> Some (s', remove_nth k ps))
      else Some (s, ps))"
| "heap_step m f r (OpRealloc k sz) (s, ps) =
     (if k < length ps
      then (case r (fst (ps ! k)) sz s of None \<Rightarrow> None
            | Some (q, s') \<Rightarrow>
                Some (s', if sz = 0 then remove_nth k ps
                          else if q = 0 then ps else (q, sz) # remove_nth k ps))
      else Some (s, ps))"

fun heap_run :: "(u64 \<Rightarrow> 's \<Rightarrow> (nat \<times> 's) option) \<Rightarrow> (nat \<Rightarrow> 's \<Rightarrow> 's option)
    \<Rightarrow> (nat \<Rightarrow> u64 \<Rightarrow> 's \<Rightarrow> (nat \<times> 's) option) \<Rightarrow> heap_op list \<Rightarrow> 's \<times> (nat \<times> u64) list
    \<Rightarrow> ('s \<times> (nat \<times> u64) list) option" where
  "heap_run m f r [] c = Some c"
| "heap_run m f r (op # ops) c =
     (case heap_step m f r op c of None \<Rightarrow> None | Some c' \<Rightarrow> heap_run m f r ops c')"

text \<open>Sizes that survive the rounding to a multiple of 8.\<close>

fun op_nowrap :: "heap_op \<Rightarrow> bool" where
  "op_nowrap (OpMalloc sz) \<longleftrightarrow> unat sz + 7 < 2 ^ 64"
| "op_nowrap (OpFree k) \<longleftrightarrow> True"
| "op_nowrap (OpRealloc k sz) \<longleftrightarrow> unat sz + 7 < 2 ^ 64"

text \<open>The byte ranges a client was promised are pairwise disjoint and inside \<open>{lo..<hi}\<close>.\<close>

fun promised :: "nat \<times> u64 \<Rightarrow> nat set" where
  "promised (p, sz) = {p..<p + unat sz}"

fun blocks_sound :: "nat \<Rightarrow> nat \<Rightarrow> (nat \<times> u64) list \<Rightarrow> bool" where
  "blocks_sound lo hi [] \<longleftrightarrow> True"
| "blocks_sound lo hi (b # bs) \<longleftrightarrow> fst b \<noteq> 0 \<and> lo \<le> fst b \<and> fst b + unat (snd b) \<le> hi
     \<and> (\<forall>c \<in> set bs. promised b \<inter> promised c = {}) \<and> blocks_sound lo hi bs"

lemma remove_nth_split:
  assumes "k < length xs"
  obtains as bs where "xs = as @ xs ! k # bs" and "remove_nth k xs = as @ bs"
  using assms that [of "take k xs" "drop (Suc k) xs"] by (simp add: remove_nth_def id_take_nth_drop)

lemma live_remove:
  assumes "distinct (map fst (as @ x # bs))"
  shows "fst ` set (as @ x # bs) - {fst x} = fst ` set (as @ bs)"
proof -
  have "fst x \<notin> fst ` set (as @ bs)" using assms by (simp add: image_Un)
  then show ?thesis by auto
qed

lemma blocks_soundI:
  assumes "distinct (map fst bs)"
    and "\<And>b. b \<in> set bs \<Longrightarrow> fst b \<noteq> 0 \<and> lo \<le> fst b \<and> fst b + unat (snd b) \<le> hi"
    and "\<And>b c. b \<in> set bs \<Longrightarrow> c \<in> set bs \<Longrightarrow> fst b \<noteq> fst c \<Longrightarrow> promised b \<inter> promised c = {}"
  shows "blocks_sound lo hi bs"
  using assms
proof (induction bs)
  case Nil
  then show ?case by simp
next
  case (Cons b bs)
  have "promised b \<inter> promised c = {}" if "c \<in> set bs" for c
  proof (rule Cons.prems(3))
    show "fst b \<noteq> fst c" using Cons.prems(1) that by auto
  qed (use that in simp_all)
  moreover have "blocks_sound lo hi bs" using Cons.prems by (intro Cons.IH) auto
  ultimately show ?case using Cons.prems(2) [of b] by simp
qed

text \<open>
  The laws. \<open>inv s L\<close>: the state is well formed and \<open>L\<close> are the live pointers.
  \<open>usable s p\<close> is the number of bytes behind \<open>p\<close>.
\<close>

locale allocator =
  fixes inv :: "'s \<Rightarrow> nat set \<Rightarrow> bool"
    and usable :: "'s \<Rightarrow> nat \<Rightarrow> nat"
    and lo :: nat and hi :: nat
    and malloc :: "u64 \<Rightarrow> 's \<Rightarrow> (nat \<times> 's) option"
    and release :: "nat \<Rightarrow> 's \<Rightarrow> 's option"
    and realloc :: "nat \<Rightarrow> u64 \<Rightarrow> 's \<Rightarrow> (nat \<times> 's) option"
  assumes malloc_zero: "malloc 0 s = Some (0, s)"
    and malloc_law: "inv s L \<Longrightarrow> sz \<noteq> 0 \<Longrightarrow> unat sz + 7 < 2 ^ 64 \<Longrightarrow>
      \<exists>p s'. malloc sz s = Some (p, s') \<and> inv s' (if p = 0 then L else insert p L)
        \<and> (\<forall>q \<in> L. usable s' q = usable s q) \<and> (p \<noteq> 0 \<longrightarrow> p \<notin> L \<and> unat sz \<le> usable s' p)"
    and free_law: "inv s L \<Longrightarrow> p \<in> L \<Longrightarrow>
      \<exists>s'. release p s = Some s' \<and> inv s' (L - {p}) \<and> (\<forall>q \<in> L - {p}. usable s' q = usable s q)"
    and realloc_zero: "p \<noteq> 0 \<Longrightarrow> realloc p 0 s = map_option (\<lambda>s'. (0, s')) (release p s)"
    and realloc_law: "inv s L \<Longrightarrow> p \<in> L \<Longrightarrow> sz \<noteq> 0 \<Longrightarrow> unat sz + 7 < 2 ^ 64 \<Longrightarrow>
      \<exists>n s'. realloc p sz s = Some (n, s') \<and> inv s' (if n = 0 then L else insert n (L - {p}))
        \<and> (\<forall>q \<in> L - {p}. usable s' q = usable s q) \<and> (n = 0 \<longrightarrow> usable s' p = usable s p)
        \<and> (n \<noteq> 0 \<longrightarrow> n \<notin> L - {p} \<and> unat sz \<le> usable s' n)"
    and live_bounds: "inv s L \<Longrightarrow> p \<in> L \<Longrightarrow> p \<noteq> 0 \<and> lo \<le> p \<and> p + usable s p \<le> hi"
    and live_disjoint: "inv s L \<Longrightarrow> p \<in> L \<Longrightarrow> q \<in> L \<Longrightarrow> p \<noteq> q \<Longrightarrow>
      {p..<p + usable s p} \<inter> {q..<q + usable s q} = {}"
begin

definition holds :: "'s \<Rightarrow> (nat \<times> u64) list \<Rightarrow> bool" where
  "holds s ps \<longleftrightarrow> inv s (fst ` set ps) \<and> distinct (map fst ps)
     \<and> (\<forall>b \<in> set ps. unat (snd b) \<le> usable s (fst b))"

lemma holds_blocks_sound:
  assumes "holds s ps"
  shows "blocks_sound lo hi ps"
proof (rule blocks_soundI)
  show "distinct (map fst ps)" using assms by (simp add: holds_def)
next
  fix b assume "b \<in> set ps"
  with assms live_bounds [of s "fst ` set ps" "fst b"]
  show "fst b \<noteq> 0 \<and> lo \<le> fst b \<and> fst b + unat (snd b) \<le> hi" by (fastforce simp: holds_def)
next
  fix b c assume b: "b \<in> set ps" and c: "c \<in> set ps" and "fst b \<noteq> fst c"
  then have "{fst b..<fst b + usable s (fst b)} \<inter> {fst c..<fst c + usable s (fst c)} = {}"
    using assms by (intro live_disjoint) (auto simp: holds_def)
  moreover have "promised b \<subseteq> {fst b..<fst b + usable s (fst b)}"
    "promised c \<subseteq> {fst c..<fst c + usable s (fst c)}"
    using assms b c by (cases b; cases c; fastforce simp: holds_def)+
  ultimately show "promised b \<inter> promised c = {}" by blast
qed

lemma holds_nth:
  assumes "holds s ps" and "k < length ps"
  obtains as bs where "remove_nth k ps = as @ bs" and "inv s (fst ` set ps)"
    and "fst (ps ! k) \<in> fst ` set ps" and "fst ` set ps - {fst (ps ! k)} = fst ` set (as @ bs)"
    and "distinct (map fst (as @ bs))"
    and "\<forall>b \<in> set (as @ bs). unat (snd b) \<le> usable s (fst b)"
proof -
  from assms(2) obtain as bs where ps: "ps = as @ ps ! k # bs" and rm: "remove_nth k ps = as @ bs"
    by (rule remove_nth_split)
  have d: "distinct (map fst (as @ ps ! k # bs))" using assms(1) ps by (simp add: holds_def)
  have "\<forall>b \<in> set (as @ ps ! k # bs). unat (snd b) \<le> usable s (fst b)"
    using assms(1) ps by (simp add: holds_def)
  then have "\<forall>b \<in> set (as @ bs). unat (snd b) \<le> usable s (fst b)" by simp
  moreover have "fst ` set ps - {fst (ps ! k)} = fst ` set (as @ bs)"
    using live_remove [OF d] ps by simp
  moreover have "inv s (fst ` set ps)" using assms(1) by (simp add: holds_def)
  moreover have "distinct (map fst (as @ bs))" using d by simp
  ultimately show ?thesis using that rm assms(2) by simp
qed

lemma free_holds:
  assumes "holds s ps" and "k < length ps"
  shows "\<exists>s'. release (fst (ps ! k)) s = Some s' \<and> holds s' (remove_nth k ps)"
proof -
  from assms obtain as bs where rm: "remove_nth k ps = as @ bs" and i: "inv s (fst ` set ps)"
    and mem: "fst (ps ! k) \<in> fst ` set ps" and left: "fst ` set ps - {fst (ps ! k)} = fst ` set (as @ bs)"
    and d: "distinct (map fst (as @ bs))"
    and old: "\<forall>b \<in> set (as @ bs). unat (snd b) \<le> usable s (fst b)"
    by (rule holds_nth)
  from free_law [OF i mem, unfolded left] obtain s' where
    r: "release (fst (ps ! k)) s = Some s'" "inv s' (fst ` set (as @ bs))" and
    same: "\<forall>q \<in> fst ` set (as @ bs). usable s' q = usable s q"
    by (elim exE conjE) (rule that)
  have "\<forall>b \<in> set (as @ bs). unat (snd b) \<le> usable s' (fst b)"
    using old same by simp
  with r d show ?thesis by (simp add: rm holds_def)
qed

lemma realloc_holds:
  assumes h: "holds s ps" and k: "k < length ps" and sz: "sz \<noteq> 0" "unat sz + 7 < 2 ^ 64"
  shows "\<exists>n s'. realloc (fst (ps ! k)) sz s = Some (n, s')
    \<and> holds s' (if n = 0 then ps else (n, sz) # remove_nth k ps)"
proof -
  from h k obtain as bs where rm: "remove_nth k ps = as @ bs" and i: "inv s (fst ` set ps)"
    and mem: "fst (ps ! k) \<in> fst ` set ps" and left: "fst ` set ps - {fst (ps ! k)} = fst ` set (as @ bs)"
    and d: "distinct (map fst (as @ bs))"
    and old: "\<forall>b \<in> set (as @ bs). unat (snd b) \<le> usable s (fst b)"
    by (rule holds_nth)
  from realloc_law [OF i mem sz, unfolded left] obtain n s' where
    re: "realloc (fst (ps ! k)) sz s = Some (n, s')" and
    inv': "inv s' (if n = 0 then fst ` set ps else insert n (fst ` set (as @ bs)))" and
    same: "\<forall>q \<in> fst ` set (as @ bs). usable s' q = usable s q" and
    zero: "n = 0 \<longrightarrow> usable s' (fst (ps ! k)) = usable s (fst (ps ! k))" and
    fresh: "n \<noteq> 0 \<longrightarrow> n \<notin> fst ` set (as @ bs) \<and> unat sz \<le> usable s' n"
    by (elim exE conjE) (rule that)
  show ?thesis
  proof (cases "n = 0")
    case True
    have "usable s' q = usable s q" if "q \<in> fst ` set ps" for q
    proof (cases "q = fst (ps ! k)")
      case True
      with zero \<open>n = 0\<close> show ?thesis by simp
    next
      case False
      with that have "q \<in> fst ` set ps - {fst (ps ! k)}" by simp
      with same show ?thesis unfolding left by (rule bspec)
    qed
    then have "\<forall>b \<in> set ps. usable s' (fst b) = usable s (fst b)" by simp
    with True inv' h have "holds s' ps" by (simp add: holds_def)
    with True re show ?thesis by simp
  next
    case False
    have "\<forall>b \<in> set (as @ bs). unat (snd b) \<le> usable s' (fst b)"
      using old same by simp
    with False inv' fresh d have "holds s' ((n, sz) # as @ bs)"
      by (simp add: holds_def image_Un)
    with False re rm show ?thesis by simp
  qed
qed

lemma step_holds:
  assumes h: "holds s ps" and "op_nowrap op"
  shows "\<exists>s' ps'. heap_step malloc release realloc op (s, ps) = Some (s', ps') \<and> holds s' ps'"
proof (cases op)
  case (OpMalloc sz)
  show ?thesis
  proof (cases "sz = 0")
    case True
    with OpMalloc h show ?thesis by (simp add: malloc_zero)
  next
    case False
    with malloc_law [of s "fst ` set ps" sz] h assms(2) OpMalloc show ?thesis
      by (fastforce simp: holds_def)
  qed
next
  case (OpFree k)
  with free_holds [OF h, of k] h show ?thesis by (cases "k < length ps") auto
next
  case (OpRealloc k sz)
  show ?thesis
  proof (cases "k < length ps")
    case False
    with OpRealloc h show ?thesis by simp
  next
    case k: True
    show ?thesis
    proof (cases "sz = 0")
      case True
      have "fst (ps ! k) \<noteq> 0" using live_bounds [of s "fst ` set ps" "fst (ps ! k)"] h k
        by (simp add: holds_def)
      with free_holds [OF h k] True OpRealloc k show ?thesis by (auto simp: realloc_zero)
    next
      case False
      with realloc_holds [OF h k False] assms(2) OpRealloc k show ?thesis
        by (auto split: if_splits)
    qed
  qed
qed

lemma run_holds:
  assumes "holds s ps" and "\<forall>op \<in> set ops. op_nowrap op"
  shows "\<exists>s' ps'. heap_run malloc release realloc ops (s, ps) = Some (s', ps') \<and> holds s' ps'"
  using assms
proof (induction ops arbitrary: s ps)
  case Nil
  then show ?case by simp
next
  case (Cons op ops)
  with step_holds [of s ps op] show ?case by fastforce
qed

lemma run_blocks_sound:
  assumes "inv s {}" and "\<forall>op \<in> set ops. op_nowrap op"
  shows "\<exists>s' ps. heap_run malloc release realloc ops (s, []) = Some (s', ps) \<and> blocks_sound lo hi ps"
proof -
  have "holds s []" using assms(1) by (simp add: holds_def)
  from run_holds [OF this assms(2)] holds_blocks_sound show ?thesis by blast
qed

end

end
