(* ===== verification/Freelist.thy ===== *)
theory Freelist
  imports Allocator
begin

text \<open>
  The two game heaps (\<^verbatim>\<open>src/kernel/doom_host/doom_malloc.c\<close> and
  \<^verbatim>\<open>src/kernel/redalert_host/redalert_malloc.c\<close>): one first-fit free-list algorithm over a
  static array, instantiated twice. \<open>base\<close> is the address of the array and \<open>H\<close> its size.

  Memory is split as the code's types split it: the two fields of \<open>struct block\<close> are maps from
  block addresses (\<open>fl_size\<close>, \<open>fl_next\<close>) and \<open>fl_mem\<close> holds the payload bytes. An address is
  a natural number and 0 is \<open>NULL\<close>. Sizes are naturals once \<open>ALIGN_UP\<close> has been computed on
  \<open>u64\<close> (it can wrap); no later sum can, because a block size is compared first and every
  block lies inside the array. The loops along the list are \<open>partial_function\<close>s: \<open>None\<close> is
  a list that never ends.
\<close>

definition SIZEOF_BLOCK :: nat where "SIZEOF_BLOCK = 16"
definition ALIGN :: nat where "ALIGN = 8"
definition DOOM_HEAP_SIZE :: nat where "DOOM_HEAP_SIZE = 2 * 1024 * 1024"
definition REDALERT_HEAP_SIZE :: nat where "REDALERT_HEAP_SIZE = 4 * 1024 * 1024"

record flist =
  fl_inited :: bool
  fl_head :: nat
  fl_size :: "nat \<Rightarrow> nat"
  fl_next :: "nat \<Rightarrow> nat"
  fl_mem :: "nat \<Rightarrow> u8"

definition fl_boot :: flist where
  "fl_boot = \<lparr>fl_inited = False, fl_head = 0, fl_size = (\<lambda>_. 0), fl_next = (\<lambda>_. 0), fl_mem = (\<lambda>_. 0)\<rparr>"

definition fl_heap_init :: "nat \<Rightarrow> nat \<Rightarrow> flist \<Rightarrow> flist" where
  "fl_heap_init base H s =
     (if fl_inited s then s
      else s\<lparr>fl_inited := True, fl_head := base,
             fl_size := (fl_size s)(base := H - SIZEOF_BLOCK),
             fl_next := (fl_next s)(base := 0)\<rparr>)"

text \<open>\<open>*p = v\<close>, where \<open>p\<close> is the list head (\<open>prev = 0\<close>) or the \<open>next\<close> field of \<open>prev\<close>.\<close>

definition set_link :: "nat \<Rightarrow> nat \<Rightarrow> flist \<Rightarrow> flist" where
  "set_link prev v s =
     (if prev = 0 then s\<lparr>fl_head := v\<rparr> else s\<lparr>fl_next := (fl_next s)(prev := v)\<rparr>)"

partial_function (option) fl_find :: "flist \<Rightarrow> nat \<Rightarrow> nat \<Rightarrow> nat \<Rightarrow> (nat \<times> nat) option" where
  "fl_find s need prev cur =
     (if cur = 0 then Some (prev, 0)
      else if fl_size s cur \<ge> need then Some (prev, cur)
      else fl_find s need cur (fl_next s cur))"

definition fl_take :: "nat \<Rightarrow> nat \<Rightarrow> nat \<Rightarrow> flist \<Rightarrow> flist" where
  "fl_take need prev b s =
     (if fl_size s b \<ge> need + SIZEOF_BLOCK + ALIGN
      then let rest = b + SIZEOF_BLOCK + need;
               s = s\<lparr>fl_size := (fl_size s)(rest := fl_size s b - need - SIZEOF_BLOCK),
                     fl_next := (fl_next s)(rest := fl_next s b)\<rparr>;
               s = set_link prev rest s
        in s\<lparr>fl_size := (fl_size s)(b := need)\<rparr>
      else set_link prev (fl_next s b) s)"

definition fl_malloc :: "nat \<Rightarrow> nat \<Rightarrow> u64 \<Rightarrow> flist \<Rightarrow> (nat \<times> flist) option" where
  "fl_malloc base H sz s =
     (if sz = 0 then Some (0, s)
      else let s = fl_heap_init base H s; need = unat (align_up8 sz)
        in case fl_find s need 0 (fl_head s) of
             None \<Rightarrow> None
           | Some (prev, b) \<Rightarrow>
               if b = 0 then Some (0, s) else Some (b + SIZEOF_BLOCK, fl_take need prev b s))"

partial_function (option) fl_before :: "flist \<Rightarrow> nat \<Rightarrow> nat \<Rightarrow> nat \<Rightarrow> (nat \<times> nat) option" where
  "fl_before s b prev cur =
     (if cur \<noteq> 0 \<and> cur < b then fl_before s b cur (fl_next s cur) else Some (prev, cur))"

definition fl_coalesce :: "nat \<Rightarrow> flist \<Rightarrow> flist" where
  "fl_coalesce b s =
     (let nx = fl_next s b in
      if nx \<noteq> 0 \<and> b + SIZEOF_BLOCK + fl_size s b = nx
      then s\<lparr>fl_size := (fl_size s)(b := fl_size s b + (SIZEOF_BLOCK + fl_size s nx)),
             fl_next := (fl_next s)(b := fl_next s nx)\<rparr>
      else s)"

definition fl_free :: "nat \<Rightarrow> nat \<Rightarrow> nat \<Rightarrow> flist \<Rightarrow> flist option" where
  "fl_free base H ptr s =
     (if ptr = 0 then Some s
      else let s = fl_heap_init base H s; b = ptr - SIZEOF_BLOCK
        in case fl_before s b 0 (fl_head s) of
             None \<Rightarrow> None
           | Some (prev, cur) \<Rightarrow>
               Some (fl_coalesce b (set_link prev b (s\<lparr>fl_next := (fl_next s)(b := cur)\<rparr>))))"

fun copy_bytes :: "nat \<Rightarrow> nat \<Rightarrow> nat \<Rightarrow> (nat \<Rightarrow> u8) \<Rightarrow> (nat \<Rightarrow> u8)" where
  "copy_bytes dst src 0 mem = mem"
| "copy_bytes dst src (Suc n) mem = copy_bytes (Suc dst) (Suc src) n (mem(dst := mem src))"

definition fl_realloc :: "nat \<Rightarrow> nat \<Rightarrow> nat \<Rightarrow> u64 \<Rightarrow> flist \<Rightarrow> (nat \<times> flist) option" where
  "fl_realloc base H ptr sz s =
     (if ptr = 0 then fl_malloc base H sz s
      else if sz = 0 then map_option (\<lambda>s'. (0, s')) (fl_free base H ptr s)
      else let b = ptr - SIZEOF_BLOCK in
        if fl_size s b \<ge> unat sz then Some (ptr, s)
        else case fl_malloc base H sz s of
               None \<Rightarrow> None
             | Some (n, s) \<Rightarrow>
                 if n = 0 then Some (0, s)
                 else let s = s\<lparr>fl_mem := copy_bytes n ptr (fl_size s b) (fl_mem s)\<rparr>
                   in map_option (\<lambda>s'. (n, s')) (fl_free base H ptr s))"

text \<open>The entry points of the two files.\<close>

definition doom_malloc_impl :: "nat \<Rightarrow> u64 \<Rightarrow> flist \<Rightarrow> (nat \<times> flist) option" where
  "doom_malloc_impl base = fl_malloc base DOOM_HEAP_SIZE"

definition doom_free_impl :: "nat \<Rightarrow> nat \<Rightarrow> flist \<Rightarrow> flist option" where
  "doom_free_impl base = fl_free base DOOM_HEAP_SIZE"

definition doom_realloc_impl :: "nat \<Rightarrow> nat \<Rightarrow> u64 \<Rightarrow> flist \<Rightarrow> (nat \<times> flist) option" where
  "doom_realloc_impl base = fl_realloc base DOOM_HEAP_SIZE"

definition redalert_malloc_impl :: "nat \<Rightarrow> u64 \<Rightarrow> flist \<Rightarrow> (nat \<times> flist) option" where
  "redalert_malloc_impl base = fl_malloc base REDALERT_HEAP_SIZE"

definition redalert_free_impl :: "nat \<Rightarrow> nat \<Rightarrow> flist \<Rightarrow> flist option" where
  "redalert_free_impl base = fl_free base REDALERT_HEAP_SIZE"

definition redalert_realloc_impl :: "nat \<Rightarrow> nat \<Rightarrow> u64 \<Rightarrow> flist \<Rightarrow> (nat \<times> flist) option" where
  "redalert_realloc_impl base = fl_realloc base REDALERT_HEAP_SIZE"

section \<open>Paths along the next fields\<close>

fun path :: "(nat \<Rightarrow> nat) \<Rightarrow> nat \<Rightarrow> nat list \<Rightarrow> nat \<Rightarrow> bool" where
  "path nx a [] z \<longleftrightarrow> a = z"
| "path nx a (x # xs) z \<longleftrightarrow> a = x \<and> x \<noteq> 0 \<and> path nx (nx x) xs z"

lemma path_append: "path nx a (xs @ ys) z \<longleftrightarrow> (\<exists>m. path nx a xs m \<and> path nx m ys z)"
  by (induction xs arbitrary: a) auto

lemma path_upd_other: "b \<notin> set xs \<Longrightarrow> path (nx(b := v)) a xs z \<longleftrightarrow> path nx a xs z"
  by (induction xs arbitrary: a) auto

lemma path_relink:
  "path nx a xs z \<Longrightarrow> distinct xs \<Longrightarrow> xs \<noteq> [] \<Longrightarrow> path (nx(last xs := v)) a xs v"
proof (induction xs arbitrary: a)
  case Nil
  then show ?case by simp
next
  case (Cons x xs)
  show ?case
  proof (cases "xs = []")
    case True
    with Cons.prems show ?thesis by simp
  next
    case False
    then have "last xs \<in> set xs" by simp
    with Cons.prems have "x \<noteq> last xs" by auto
    with Cons False show ?thesis by auto
  qed
qed

text \<open>After \<open>set_link\<close> at the end of a path, the path leads to the new target.\<close>

lemma path_set_link:
  assumes "path (fl_next s) (fl_head s) us z" and "distinct us"
  shows "path (fl_next (set_link (last (0 # us)) v s)) (fl_head (set_link (last (0 # us)) v s)) us v"
proof (cases "us = []")
  case True
  then show ?thesis by (simp add: set_link_def)
next
  case False
  with assms(1) have "last us \<noteq> 0" by (induction us arbitrary: s rule: rev_induct) (auto simp: path_append)
  with False assms show ?thesis by (simp add: set_link_def path_relink)
qed

lemma set_link_frame [simp]:
  "fl_size (set_link p v s) = fl_size s" "fl_inited (set_link p v s) = fl_inited s"
  "fl_mem (set_link p v s) = fl_mem s"
  by (simp_all add: set_link_def)

lemma path_set_link_other:
  assumes "last (0 # us) \<notin> set vs"
  shows "path (fl_next (set_link (last (0 # us)) v s)) a vs z \<longleftrightarrow> path (fl_next s) a vs z"
  using assms by (cases "us = []") (auto simp: set_link_def path_upd_other)

text \<open>The two searches stop on a finite path and return where they stopped.\<close>

lemma fl_find_path:
  assumes "path (fl_next s) cur L 0"
  shows "\<exists>us vs. L = us @ vs \<and> (\<forall>u \<in> set us. fl_size s u < need)
    \<and> fl_find s need prev cur = Some (last (prev # us), (case vs of [] \<Rightarrow> 0 | v # _ \<Rightarrow> v))
    \<and> (case vs of [] \<Rightarrow> True | v # _ \<Rightarrow> need \<le> fl_size s v)"
  using assms
proof (induction L arbitrary: cur prev)
  case Nil
  then show ?case by (simp add: fl_find.simps)
next
  case (Cons x L)
  show ?case
  proof (cases "need \<le> fl_size s x")
    case True
    with Cons.prems show ?thesis
      by (intro exI [of _ "[]"] exI [of _ "x # L"]) (simp add: fl_find.simps)
  next
    case False
    with Cons.prems obtain us vs where "L = us @ vs" "\<forall>u \<in> set us. fl_size s u < need"
      "fl_find s need x (fl_next s x) = Some (last (x # us), (case vs of [] \<Rightarrow> 0 | v # _ \<Rightarrow> v))"
      "case vs of [] \<Rightarrow> True | v # _ \<Rightarrow> need \<le> fl_size s v"
      using Cons.IH [of "fl_next s x" x] by auto
    with False Cons.prems show ?thesis
      by (intro exI [of _ "x # us"] exI [of _ vs]) (simp add: fl_find.simps [of s need prev x])
  qed
qed

lemma fl_before_path:
  assumes "path (fl_next s) cur L 0" and "sorted L"
  shows "fl_before s b prev cur =
    Some (last (prev # filter (\<lambda>x. x < b) L), (case filter (\<lambda>x. b \<le> x) L of [] \<Rightarrow> 0 | v # _ \<Rightarrow> v))"
  using assms
proof (induction L arbitrary: cur prev)
  case Nil
  then show ?case by (simp add: fl_before.simps)
next
  case (Cons x L)
  show ?case
  proof (cases "x < b")
    case True
    with Cons show ?thesis by (simp add: fl_before.simps [of s b prev x])
  next
    case False
    with Cons.prems(2) have "filter (\<lambda>y. y < b) L = []" by (auto simp: filter_empty_conv)
    with False Cons.prems show ?thesis by (simp add: fl_before.simps [of s b prev x])
  qed
qed

section \<open>Blocks tile the heap\<close>

text \<open>
  The invariant: the headers \<open>bs\<close>, in address order, tile the array without gaps, the free
  ones \<open>F\<close> are linked in that order, and everything else is live.
\<close>

fun tiles :: "(nat \<Rightarrow> nat) \<Rightarrow> nat \<Rightarrow> nat \<Rightarrow> nat list \<Rightarrow> bool" where
  "tiles sz a e [] \<longleftrightarrow> a = e"
| "tiles sz a e (b # bs) \<longleftrightarrow> b = a \<and> tiles sz (a + SIZEOF_BLOCK + sz a) e bs"

lemma tiles_append: "tiles sz a e (xs @ ys) \<longleftrightarrow> (\<exists>m. tiles sz a m xs \<and> tiles sz m e ys)"
  by (induction xs arbitrary: a) auto

lemma tiles_cong: "(\<And>b. b \<in> set bs \<Longrightarrow> sz b = sz' b) \<Longrightarrow> tiles sz a e bs \<longleftrightarrow> tiles sz' a e bs"
  by (induction bs arbitrary: a) auto

lemma tiles_upd_other [simp]: "c \<notin> set bs \<Longrightarrow> tiles (sz(c := v)) a e bs \<longleftrightarrow> tiles sz a e bs"
  by (rule tiles_cong) auto

lemma filter_mem_insert [simp]:
  "r \<notin> set xs \<Longrightarrow> filter (\<lambda>c. c = r \<or> c \<in> A) xs = filter (\<lambda>c. c \<in> A) xs"
  by (induction xs) auto

lemma filter_mem_remove [simp]:
  "b \<notin> set xs \<Longrightarrow> filter (\<lambda>c. c \<in> A \<and> c \<noteq> b) xs = filter (\<lambda>c. c \<in> A) xs"
  by (induction xs) auto

lemma tiles_le: "tiles sz a e bs \<Longrightarrow> a \<le> e"
  by (induction bs arbitrary: a) fastforce+

lemma tiles_bounds: "tiles sz a e bs \<Longrightarrow> b \<in> set bs \<Longrightarrow> a \<le> b \<and> b + SIZEOF_BLOCK + sz b \<le> e"
  by (induction bs arbitrary: a) (fastforce dest: tiles_le)+

lemma tiles_sorted: "tiles sz a e bs \<Longrightarrow> sorted bs \<and> distinct bs"
proof (induction bs arbitrary: a)
  case Nil
  then show ?case by simp
next
  case (Cons b bs)
  then have t: "tiles sz (b + SIZEOF_BLOCK + sz b) e bs" by simp
  have "\<forall>c \<in> set bs. b < c"
  proof
    fix c assume "c \<in> set bs"
    with tiles_bounds [OF t] have "b + SIZEOF_BLOCK + sz b \<le> c" by blast
    then show "b < c" by (simp add: SIZEOF_BLOCK_def)
  qed
  with Cons.IH [OF t] show ?case by auto
qed

text \<open>What a block in the middle of the tiling knows about its neighbours.\<close>

lemma tiles_split:
  assumes "tiles sz a e (xs @ b # ys)"
  shows "tiles sz a b xs" and "tiles sz (b + SIZEOF_BLOCK + sz b) e ys"
    and "\<forall>c \<in> set xs. c + SIZEOF_BLOCK + sz c \<le> b" and "\<forall>c \<in> set ys. b + SIZEOF_BLOCK + sz b \<le> c"
    and "b \<notin> set xs" and "b \<notin> set ys"
proof -
  show xs: "tiles sz a b xs" and ys: "tiles sz (b + SIZEOF_BLOCK + sz b) e ys"
    using assms by (auto simp: tiles_append)
  show left: "\<forall>c \<in> set xs. c + SIZEOF_BLOCK + sz c \<le> b" using tiles_bounds [OF xs] by blast
  show right: "\<forall>c \<in> set ys. b + SIZEOF_BLOCK + sz b \<le> c" using tiles_bounds [OF ys] by blast
  show "b \<notin> set xs" using left by (force simp: SIZEOF_BLOCK_def)
  show "b \<notin> set ys" using right by (force simp: SIZEOF_BLOCK_def)
qed

lemma tiles_disjoint:
  assumes "tiles sz a e bs" and "b \<in> set bs" and "c \<in> set bs" and "b \<noteq> c"
  shows "b + SIZEOF_BLOCK + sz b \<le> c \<or> c + SIZEOF_BLOCK + sz c \<le> b"
proof -
  obtain xs ys where bs: "bs = xs @ b # ys" using assms(2) by (auto dest: split_list)
  with assms(3,4) have "c \<in> set xs \<or> c \<in> set ys" by auto
  with tiles_split(3,4) [of sz a e xs b ys] assms(1) bs show ?thesis by blast
qed

definition fl_ok :: "nat \<Rightarrow> nat \<Rightarrow> flist \<Rightarrow> nat list \<Rightarrow> nat set \<Rightarrow> bool" where
  "fl_ok base H s bs F \<longleftrightarrow> fl_inited s \<and> 0 < base \<and> tiles (fl_size s) base (base + H) bs
     \<and> F \<subseteq> set bs \<and> path (fl_next s) (fl_head s) (filter (\<lambda>b. b \<in> F) bs) 0"

lemma fl_ok_init:
  assumes "\<not> fl_inited s" and "0 < base" and "SIZEOF_BLOCK \<le> H"
  shows "fl_ok base H (fl_heap_init base H s) [base] {base}"
  using assms by (simp add: fl_ok_def fl_heap_init_def)

lemma fl_ok_inited [simp]: "fl_ok base H s bs F \<Longrightarrow> fl_heap_init base H s = s"
  by (simp add: fl_ok_def fl_heap_init_def)

text \<open>The free list around a given header.\<close>

lemma fl_ok_split:
  assumes ok: "fl_ok base H s bs F" and "b \<in> set bs"
  obtains xs ys where "bs = xs @ b # ys" and "b \<notin> set xs" and "b \<notin> set ys" and "0 \<notin> set bs"
    and "distinct bs"
proof -
  obtain xs ys where bs: "bs = xs @ b # ys" using assms(2) by (auto dest: split_list)
  have "0 \<notin> set bs" using ok tiles_bounds by (fastforce simp: fl_ok_def)
  moreover have "distinct bs" using ok tiles_sorted by (auto simp: fl_ok_def)
  ultimately show ?thesis using that [OF bs] bs by simp
qed

lemma fl_ok_at_free:
  assumes ok: "fl_ok base H s bs F" and L: "filter (\<lambda>c. c \<in> F) bs = us @ b # vs"
  obtains xs ys where "bs = xs @ b # ys" and "filter (\<lambda>c. c \<in> F) xs = us"
    and "filter (\<lambda>c. c \<in> F) ys = vs" and "b \<notin> set xs" and "b \<notin> set ys" and "0 \<notin> set bs"
    and "distinct bs" and "b \<in> F"
proof -
  have "b \<in> set (filter (\<lambda>c. c \<in> F) bs)" unfolding L by simp
  then have b: "b \<in> F" "b \<in> set bs" by auto
  from fl_ok_split [OF ok b(2)] obtain xs ys where bs: "bs = xs @ b # ys" and nin: "b \<notin> set xs" "b \<notin> set ys"
    and nz: "0 \<notin> set bs" and dist: "distinct bs" .
  have L': "us @ b # vs = filter (\<lambda>c. c \<in> F) xs @ b # filter (\<lambda>c. c \<in> F) ys"
    using L bs b(1) by simp
  have "distinct (us @ b # vs)" using dist L by (metis distinct_filter)
  then have "b \<notin> set us" "b \<notin> set vs" by auto
  from append_Cons_eq_iff [OF this] L'
  have "us = filter (\<lambda>c. c \<in> F) xs \<and> vs = filter (\<lambda>c. c \<in> F) ys" by blast
  then show ?thesis using that [OF bs] nin nz dist b by auto
qed

lemma last_0_notin: "0 \<notin> A \<Longrightarrow> set us \<inter> A = {} \<Longrightarrow> last (0 # us) \<notin> A"
  by (cases "us = []") (auto simp: disjoint_iff dest: last_in_set)

section \<open>Allocation\<close>

text \<open>Unlinking a free block: its free predecessor is led past it.\<close>

lemma path_unlink:
  assumes "path (fl_next s) (fl_head s) (us @ b # vs) 0" and "distinct (us @ b # vs)"
    and "0 \<notin> set (us @ b # vs)"
  shows "path (fl_next (set_link (last (0 # us)) (fl_next s b) s))
    (fl_head (set_link (last (0 # us)) (fl_next s b) s)) (us @ vs) 0"
proof -
  have "last (0 # us) \<notin> set vs" using assms(2,3) by (intro last_0_notin) auto
  with assms path_set_link [of s us b "fl_next s b"] show ?thesis
    by (auto simp: path_append path_set_link_other simp del: last.simps)
qed

text \<open>Replacing a free block by one at another address, with the same successor.\<close>

lemma path_replace:
  assumes "path (fl_next s) (fl_head s) (us @ b # vs) 0" and "distinct (us @ b # vs)"
    and "0 \<notin> set (us @ b # vs)" and "r \<notin> set (us @ b # vs)" and "r \<noteq> 0"
    and s': "s' = s\<lparr>fl_size := sz, fl_next := (fl_next s)(r := fl_next s b)\<rparr>"
  shows "path (fl_next (set_link (last (0 # us)) r s')) (fl_head (set_link (last (0 # us)) r s'))
    (us @ r # vs) 0"
proof -
  have r: "last (0 # us) \<noteq> r" using assms(4,5) last_0_notin [of "{r}" us] by auto
  have vs: "last (0 # us) \<notin> set vs" using assms(2,3) by (intro last_0_notin) auto
  have "path (fl_next s') (fl_head s') us b"
    using assms(1,4) by (simp add: s' path_append path_upd_other)
  then have "path (fl_next (set_link (last (0 # us)) r s')) (fl_head (set_link (last (0 # us)) r s')) us r"
    using assms(2) by (intro path_set_link) auto
  moreover have "fl_next (set_link (last (0 # us)) r s') r = fl_next s b"
    using r by (auto simp: set_link_def s')
  moreover have "path (fl_next (set_link (last (0 # us)) r s')) (fl_next s b) vs 0"
    using assms(1,4) vs by (simp add: path_set_link_other path_append s' path_upd_other del: last.simps)
  ultimately show ?thesis using assms(5) by (auto simp: path_append)
qed

lemma tiles_resize:
  assumes "tiles sz a e (xs @ b # ys)" and "sz b = need + SIZEOF_BLOCK + k"
  shows "tiles (sz(b + SIZEOF_BLOCK + need := k, b := need)) a e
    (xs @ b # (b + SIZEOF_BLOCK + need) # ys)"
proof -
  note t = tiles_split [OF assms(1)]
  let ?r = "b + SIZEOF_BLOCK + need"
  have "?r \<notin> set xs" "?r \<notin> set ys" "b \<noteq> ?r"
    using t(3,4) assms(2) by (force simp: SIZEOF_BLOCK_def)+
  then have "tiles (sz(?r := k, b := need)) a b xs"
    and "tiles (sz(?r := k, b := need)) (b + SIZEOF_BLOCK + sz b) e ys"
    using t(1,2,5,6) by simp_all
  with assms(2) \<open>b \<noteq> ?r\<close> show ?thesis by (auto simp: tiles_append add.assoc)
qed

text \<open>A block that fits closely is taken whole; of a bigger one the rest becomes a block of its own.\<close>

lemma fl_take_whole:
  assumes ok: "fl_ok base H s bs F" and L: "filter (\<lambda>c. c \<in> F) bs = us @ b # vs"
    and need: "need \<le> fl_size s b" and room: "\<not> need + SIZEOF_BLOCK + ALIGN \<le> fl_size s b"
  shows "\<exists>bs' F'. fl_ok base H (fl_take need (last (0 # us)) b s) bs' F'
    \<and> set bs' - F' = insert b (set bs - F)
    \<and> (\<forall>c \<in> set bs - F. fl_size (fl_take need (last (0 # us)) b s) c = fl_size s c)
    \<and> need \<le> fl_size (fl_take need (last (0 # us)) b s) b"
proof -
  from fl_ok_at_free [OF ok L] obtain xs ys where bs: "bs = xs @ b # ys"
    and us: "filter (\<lambda>c. c \<in> F) xs = us" and vs: "filter (\<lambda>c. c \<in> F) ys = vs"
    and b: "b \<notin> set xs" "b \<notin> set ys" "0 \<notin> set bs" "distinct bs" "b \<in> F" .
  have p: "path (fl_next s) (fl_head s) (us @ b # vs) 0" using ok L by (simp add: fl_ok_def)
  have sub: "set (us @ b # vs) \<subseteq> set bs" using L by (metis filter_is_subset)
  have dist: "distinct (us @ b # vs)" using b(4) L by (metis distinct_filter)
  have nz: "0 \<notin> set (us @ b # vs)" using sub b(3) by blast
  from room have take: "fl_take need (last (0 # us)) b s = set_link (last (0 # us)) (fl_next s b) s"
    by (simp add: fl_take_def)
  have "filter (\<lambda>c. c \<in> F - {b}) bs = us @ vs"
    unfolding bs using us vs b(1,2) by simp
  then have "fl_ok base H (set_link (last (0 # us)) (fl_next s b) s) bs (F - {b})"
    using ok path_unlink [OF p dist nz] by (auto simp: fl_ok_def simp del: last.simps)
  with take need b(5) ok show ?thesis
    by (intro exI [of _ bs] exI [of _ "F - {b}"]) (auto simp: fl_ok_def simp del: last.simps)
qed

lemma fl_take_split:
  assumes ok: "fl_ok base H s bs F" and L: "filter (\<lambda>c. c \<in> F) bs = us @ b # vs"
    and need: "need \<le> fl_size s b" and room: "need + SIZEOF_BLOCK + ALIGN \<le> fl_size s b"
  shows "\<exists>bs' F'. fl_ok base H (fl_take need (last (0 # us)) b s) bs' F'
    \<and> set bs' - F' = insert b (set bs - F)
    \<and> (\<forall>c \<in> set bs - F. fl_size (fl_take need (last (0 # us)) b s) c = fl_size s c)
    \<and> need \<le> fl_size (fl_take need (last (0 # us)) b s) b"
proof -
  from fl_ok_at_free [OF ok L] obtain xs ys where bs: "bs = xs @ b # ys"
    and us: "filter (\<lambda>c. c \<in> F) xs = us" and vs: "filter (\<lambda>c. c \<in> F) ys = vs"
    and b: "b \<notin> set xs" "b \<notin> set ys" "0 \<notin> set bs" "distinct bs" "b \<in> F" .
  have p: "path (fl_next s) (fl_head s) (us @ b # vs) 0" using ok L by (simp add: fl_ok_def)
  have sub: "set (us @ b # vs) \<subseteq> set bs" using L by (metis filter_is_subset)
  have dist: "distinct (us @ b # vs)" using b(4) L by (metis distinct_filter)
  have nz: "0 \<notin> set (us @ b # vs)" using sub b(3) by blast
  let ?r = "b + SIZEOF_BLOCK + need" and ?k = "fl_size s b - need - SIZEOF_BLOCK"
  let ?s1 = "s\<lparr>fl_size := (fl_size s)(?r := ?k), fl_next := (fl_next s)(?r := fl_next s b)\<rparr>"
  let ?s2 = "set_link (last (0 # us)) ?r ?s1"
  have take: "fl_take need (last (0 # us)) b s = ?s2\<lparr>fl_size := (fl_size ?s2)(b := need)\<rparr>"
    using room by (simp add: fl_take_def Let_def)
  have t: "tiles (fl_size s) base (base + H) (xs @ b # ys)" using ok bs by (simp add: fl_ok_def)
  have r: "?r \<notin> set bs" "?r \<noteq> 0" "b \<noteq> ?r"
    using tiles_split(3,4) [OF t] room bs by (force simp: SIZEOF_BLOCK_def ALIGN_def)+
  have "tiles ((fl_size s)(?r := ?k, b := need)) base (base + H) (xs @ b # ?r # ys)"
    using room by (intro tiles_resize [OF t]) (simp add: SIZEOF_BLOCK_def)
  moreover have "path (fl_next ?s2) (fl_head ?s2) (us @ ?r # vs) 0"
    using r(1) sub by (intro path_replace [OF p dist nz _ r(2) refl]) blast
  moreover have "filter (\<lambda>c. c \<in> insert ?r (F - {b})) (xs @ b # ?r # ys) = us @ ?r # vs"
  proof -
    have "filter (\<lambda>c. c \<in> insert ?r (F - {b})) xs = filter (\<lambda>c. c \<in> F) xs"
      using r(1) b(1) unfolding bs by (intro filter_cong [OF refl]) (metis DiffE DiffI UnI1 insertE insertI2 set_append singletonD)
    moreover have "filter (\<lambda>c. c \<in> insert ?r (F - {b})) ys = filter (\<lambda>c. c \<in> F) ys"
      using r(1) b(2) unfolding bs by (intro filter_cong [OF refl]) (metis DiffE DiffI UnI2 insertE insertI2 list.set_intros(2) set_append singletonD)
    moreover have "b \<notin> insert ?r (F - {b})" using r(3) by blast
    ultimately show ?thesis using us vs by (simp only: filter_append filter.simps) simp
  qed
  moreover have "insert ?r (F - {b}) \<subseteq> set (xs @ b # ?r # ys)"
    using ok bs by (auto simp: fl_ok_def)
  ultimately have "fl_ok base H (fl_take need (last (0 # us)) b s) (xs @ b # ?r # ys) (insert ?r (F - {b}))"
    using ok take by (simp add: fl_ok_def del: last.simps)
  moreover have "set (xs @ b # ?r # ys) - insert ?r (F - {b}) = insert b (set bs - F)"
    using bs r b(5) by auto
  moreover have "\<forall>c \<in> set bs - F. fl_size (fl_take need (last (0 # us)) b s) c = fl_size s c"
    using take r(1) b(5) by (auto simp del: last.simps)
  ultimately show ?thesis
    by (intro exI [of _ "xs @ b # ?r # ys"] exI [of _ "insert ?r (F - {b})"])
      (simp add: take del: last.simps)
qed

lemma fl_take_ok:
  assumes ok: "fl_ok base H s bs F" and need: "need \<le> fl_size s b"
    and L: "filter (\<lambda>c. c \<in> F) bs = us @ b # vs"
  shows "\<exists>bs' F'. fl_ok base H (fl_take need (last (0 # us)) b s) bs' F'
    \<and> set bs' - F' = insert b (set bs - F)
    \<and> (\<forall>c \<in> set bs - F. fl_size (fl_take need (last (0 # us)) b s) c = fl_size s c)
    \<and> need \<le> fl_size (fl_take need (last (0 # us)) b s) b"
  using fl_take_whole [OF ok L need] fl_take_split [OF ok L need] by blast

text \<open>The live payload pointers \<open>L\<close>, before and after the first use of the heap.\<close>

definition fl_inv :: "nat \<Rightarrow> nat \<Rightarrow> flist \<Rightarrow> nat set \<Rightarrow> bool" where
  "fl_inv base H s L \<longleftrightarrow> 0 < base \<and> SIZEOF_BLOCK \<le> H
     \<and> (\<not> fl_inited s \<and> L = {}
        \<or> (\<exists>bs F. fl_ok base H s bs F \<and> L = (\<lambda>b. b + SIZEOF_BLOCK) ` (set bs - F)))"

text \<open>The usable size of a live payload, as its header records it.\<close>

definition psize :: "flist \<Rightarrow> nat \<Rightarrow> nat" where
  "psize s p = fl_size s (p - SIZEOF_BLOCK)"

lemma fl_inv_boot: "0 < base \<Longrightarrow> SIZEOF_BLOCK \<le> H \<Longrightarrow> fl_inv base H fl_boot {}"
  by (simp add: fl_inv_def fl_boot_def)

lemma fl_inv_init:
  assumes "fl_inv base H s L"
  obtains bs F where "fl_ok base H (fl_heap_init base H s) bs F"
    and "L = (\<lambda>b. b + SIZEOF_BLOCK) ` (set bs - F)"
    and "\<forall>p \<in> L. psize (fl_heap_init base H s) p = psize s p"
proof (cases "fl_inited s")
  case True
  with assms obtain bs F where "fl_ok base H s bs F" "L = (\<lambda>b. b + SIZEOF_BLOCK) ` (set bs - F)"
    by (auto simp: fl_inv_def)
  then show ?thesis by (intro that [of bs F]) auto
next
  case False
  with assms have "L = {}" "0 < base" "SIZEOF_BLOCK \<le> H" by (auto simp: fl_inv_def fl_ok_def)
  with False fl_ok_init show ?thesis by (intro that [of "[base]" "{base}"]) auto
qed

lemma fl_inv_live_bounds:
  assumes "fl_inv base H s L" and "p \<in> L"
  shows "base + SIZEOF_BLOCK \<le> p" and "p + psize s p \<le> base + H"
proof -
  from assms obtain bs F where ok: "fl_ok base H s bs F" and "p \<in> (\<lambda>b. b + SIZEOF_BLOCK) ` (set bs - F)"
    by (auto simp: fl_inv_def)
  then obtain b where "b \<in> set bs" "p = b + SIZEOF_BLOCK" by auto
  with ok tiles_bounds [of "fl_size s" base "base + H" bs b]
  show "base + SIZEOF_BLOCK \<le> p" and "p + psize s p \<le> base + H"
    by (auto simp: fl_ok_def psize_def)
qed

lemma fl_inv_live_disjoint:
  assumes "fl_inv base H s L" and "p \<in> L" and "q \<in> L" and "p \<noteq> q"
  shows "{p..<p + psize s p} \<inter> {q..<q + psize s q} = {}"
proof -
  from assms obtain bs F where ok: "fl_ok base H s bs F" and L: "L = (\<lambda>b. b + SIZEOF_BLOCK) ` (set bs - F)"
    by (auto simp: fl_inv_def)
  from assms L obtain b c where bc: "b \<in> set bs" "p = b + SIZEOF_BLOCK" "c \<in> set bs"
    "q = c + SIZEOF_BLOCK" "b \<noteq> c" by auto
  have "tiles (fl_size s) base (base + H) bs" using ok by (simp add: fl_ok_def)
  from tiles_disjoint [OF this bc(1,3,5)] bc show ?thesis by (auto simp: psize_def)
qed

theorem fl_malloc_spec:
  assumes inv: "fl_inv base H s L" and "sz \<noteq> 0"
  shows "\<exists>p s'. fl_malloc base H sz s = Some (p, s') \<and> fl_inv base H s' (if p = 0 then L else insert p L)
    \<and> (\<forall>q \<in> L. psize s' q = psize s q)
    \<and> (p \<noteq> 0 \<longrightarrow> p \<notin> L \<and> unat (align_up8 sz) \<le> psize s' p)"
proof -
  let ?s = "fl_heap_init base H s" and ?need = "unat (align_up8 sz)"
  from fl_inv_init [OF inv] obtain bs F where ok: "fl_ok base H ?s bs F"
    and L: "L = (\<lambda>b. b + SIZEOF_BLOCK) ` (set bs - F)" and same: "\<forall>p \<in> L. psize ?s p = psize s p" .
  have "path (fl_next ?s) (fl_head ?s) (filter (\<lambda>b. b \<in> F) bs) 0" using ok by (simp add: fl_ok_def)
  from fl_find_path [OF this, of ?need 0] obtain us vs where
    uv: "filter (\<lambda>b. b \<in> F) bs = us @ vs" and
    find: "fl_find ?s ?need 0 (fl_head ?s) = Some (last (0 # us), (case vs of [] \<Rightarrow> 0 | v # _ \<Rightarrow> v))" and
    fits: "case vs of [] \<Rightarrow> True | v # _ \<Rightarrow> ?need \<le> fl_size ?s v" by blast
  show ?thesis
  proof (cases vs)
    case Nil
    have "fl_inv base H ?s L" using inv ok L by (auto simp: fl_inv_def)
    with Nil find assms(2) same show ?thesis by (simp add: fl_malloc_def Let_def)
  next
    case (Cons b vs')
    let ?t = "fl_take ?need (last (0 # us)) b ?s"
    from uv Cons have uv': "filter (\<lambda>b. b \<in> F) bs = us @ b # vs'" by simp
    then have "b \<in> set (filter (\<lambda>b. b \<in> F) bs)" by simp
    then have "b \<in> F" "b \<in> set bs" by auto
    with ok tiles_bounds have "b \<noteq> 0" by (fastforce simp: fl_ok_def)
    from fits Cons have "?need \<le> fl_size ?s b" by simp
    from fl_take_ok [OF ok this uv'] obtain bs' F' where ok': "fl_ok base H ?t bs' F'"
      and live: "set bs' - F' = insert b (set bs - F)"
      and sizes: "\<forall>c \<in> set bs - F. fl_size ?t c = fl_size ?s c" and big: "?need \<le> fl_size ?t b" by blast
    have mal: "fl_malloc base H sz s = Some (b + SIZEOF_BLOCK, ?t)"
      using find Cons assms(2) \<open>b \<noteq> 0\<close> by (simp add: fl_malloc_def Let_def del: last.simps)
    have "fl_inv base H ?t (insert (b + SIZEOF_BLOCK) L)"
      using inv ok' live L by (auto simp: fl_inv_def intro!: exI [of _ bs'] exI [of _ F'])
    moreover have "\<forall>q \<in> L. psize ?t q = psize s q"
      using sizes L same by (auto simp: psize_def)
    moreover have "b + SIZEOF_BLOCK \<notin> L" using L \<open>b \<in> F\<close> by auto
    ultimately show ?thesis using mal big by (auto simp: psize_def SIZEOF_BLOCK_def)
  qed
qed

section \<open>Release\<close>

lemma fl_coalesce_ok:
  assumes ok: "fl_ok base H s bs F" and "b \<in> F"
  shows "\<exists>bs' F'. fl_ok base H (fl_coalesce b s) bs' F' \<and> set bs' - F' = set bs - F
    \<and> (\<forall>c \<in> set bs - F. fl_size (fl_coalesce b s) c = fl_size s c)"
proof (cases "fl_next s b \<noteq> 0 \<and> b + SIZEOF_BLOCK + fl_size s b = fl_next s b")
  case False
  then have "fl_coalesce b s = s" by (auto simp: fl_coalesce_def Let_def)
  with ok show ?thesis by auto
next
  case True
  let ?nx = "fl_next s b"
  let ?s = "s\<lparr>fl_size := (fl_size s)(b := fl_size s b + (SIZEOF_BLOCK + fl_size s ?nx)),
              fl_next := (fl_next s)(b := fl_next s ?nx)\<rparr>"
  have co: "fl_coalesce b s = ?s" using True by (simp add: fl_coalesce_def Let_def)
  have "b \<in> set (filter (\<lambda>c. c \<in> F) bs)" using ok assms(2) by (auto simp: fl_ok_def)
  then obtain us vs0 where L0: "filter (\<lambda>c. c \<in> F) bs = us @ b # vs0" by (auto dest: split_list)
  from fl_ok_at_free [OF ok L0] obtain xs ys0 where bs0: "bs = xs @ b # ys0"
    and us: "filter (\<lambda>c. c \<in> F) xs = us" and vs0: "filter (\<lambda>c. c \<in> F) ys0 = vs0"
    and nz: "0 \<notin> set bs" and dist: "distinct bs" by blast
  have p0: "path (fl_next s) (fl_head s) (us @ b # vs0) 0" using ok L0 by (simp add: fl_ok_def)
  then have "path (fl_next s) ?nx vs0 0" by (auto simp: path_append)
  with True obtain vs where vs: "vs0 = ?nx # vs" by (cases vs0) auto
  have "?nx \<in> set (filter (\<lambda>c. c \<in> F) ys0)" using vs0 vs by simp
  then have nxF: "?nx \<in> F" "?nx \<in> set ys0" by auto
  have t: "tiles (fl_size s) base (base + H) (xs @ b # ys0)" using ok bs0 by (simp add: fl_ok_def)
  obtain ys where ys: "ys0 = ?nx # ys"
    using tiles_split(2) [OF t] nxF(2) True by (cases ys0) auto
  have bs: "bs = xs @ b # ?nx # ys" using bs0 ys by simp
  have vs': "filter (\<lambda>c. c \<in> F) ys = vs" using vs0 vs ys nxF by simp
  have "tiles (fl_size ?s) base (base + H) (xs @ b # ys)"
    using t dist bs True ys by (auto simp: tiles_append add.assoc)
  moreover have "filter (\<lambda>c. c \<in> F - {?nx}) (xs @ b # ys) = us @ b # vs"
    using us vs' dist bs assms(2) by simp
  moreover have "path (fl_next ?s) (fl_head ?s) (us @ b # vs) 0"
  proof -
    have "b \<notin> set us" "b \<notin> set vs" using dist bs us vs' by auto
    with p0 vs show ?thesis by (auto simp: path_append path_upd_other)
  qed
  moreover have "F - {?nx} \<subseteq> set (xs @ b # ys)" using ok bs by (auto simp: fl_ok_def)
  ultimately have "fl_ok base H ?s (xs @ b # ys) (F - {?nx})"
    using ok by (simp add: fl_ok_def)
  moreover have "set (xs @ b # ys) - (F - {?nx}) = set bs - F"
    using bs nxF(1) dist by auto
  moreover have "\<forall>c \<in> set bs - F. fl_size ?s c = fl_size s c" using assms(2) by auto
  ultimately show ?thesis unfolding co by blast
qed

lemma fl_insert_ok:
  assumes ok: "fl_ok base H s bs F" and b: "b \<in> set bs - F"
    and before: "fl_before s b 0 (fl_head s) = Some (prev, cur)"
  shows "fl_ok base H (set_link prev b (s\<lparr>fl_next := (fl_next s)(b := cur)\<rparr>)) bs (insert b F)"
proof -
  let ?L = "filter (\<lambda>c. c \<in> F) bs"
  have "b \<in> set bs" using b by simp
  from fl_ok_split [OF ok this] obtain xs ys where bs: "bs = xs @ b # ys" and nb: "b \<notin> set xs" "b \<notin> set ys"
    and nz: "0 \<notin> set bs" and dist: "distinct bs" .
  have t: "tiles (fl_size s) base (base + H) (xs @ b # ys)" and p: "path (fl_next s) (fl_head s) ?L 0"
    using ok bs by (auto simp: fl_ok_def)
  have "sorted bs" using ok tiles_sorted by (auto simp: fl_ok_def)
  then have "sorted ?L" by (rule sorted_filter [of id, simplified])
  from fl_before_path [OF p this, of b 0] before
  have prev: "prev = last (0 # filter (\<lambda>x. x < b) ?L)"
    and cur: "cur = (case filter (\<lambda>x. b \<le> x) ?L of [] \<Rightarrow> 0 | v # _ \<Rightarrow> v)"
    by (simp_all del: last.simps)
  let ?us = "filter (\<lambda>c. c \<in> F) xs" and ?vs = "filter (\<lambda>c. c \<in> F) ys"
  have lo: "\<forall>c \<in> set xs. c < b" and hi: "\<forall>c \<in> set ys. b < c"
    using tiles_split(3,4) [OF t] by (force simp: SIZEOF_BLOCK_def)+
  have L: "?L = ?us @ ?vs" using b bs by simp
  have "filter (\<lambda>x. x < b) ?us = ?us" "filter (\<lambda>x. b \<le> x) ?vs = ?vs"
    using lo hi by (auto simp: filter_id_conv simp del: filter_filter)
  moreover have "filter (\<lambda>x. x < b) ?vs = []" "filter (\<lambda>x. b \<le> x) ?us = []"
    using lo hi by (auto simp: filter_empty_conv)
  ultimately have us: "filter (\<lambda>x. x < b) ?L = ?us" and vs: "filter (\<lambda>x. b \<le> x) ?L = ?vs"
    unfolding L filter_append by simp_all
  let ?s1 = "s\<lparr>fl_next := (fl_next s)(b := cur)\<rparr>"
  let ?s2 = "set_link prev b ?s1"
  have mid: "\<exists>m. path (fl_next s) (fl_head s) ?us m \<and> path (fl_next s) m ?vs 0"
    using p L by (simp add: path_append)
  then obtain m where m: "path (fl_next s) (fl_head s) ?us m" "path (fl_next s) m ?vs 0" by blast
  then have "m = cur" using cur vs by (cases ?vs) auto
  have link: "prev = last (0 # ?us)" using prev us by simp
  have notin: "prev \<notin> set (b # ?vs)"
    unfolding link using nz dist bs by (intro last_0_notin) auto
  have "path (fl_next ?s1) (fl_head ?s1) ?us m" using m(1) nb by (simp add: path_upd_other)
  then have "path (fl_next ?s2) (fl_head ?s2) ?us b"
    unfolding link using dist bs by (intro path_set_link) auto
  moreover have "fl_next ?s2 b = cur" using notin by (auto simp: set_link_def)
  moreover have "path (fl_next ?s2) cur ?vs 0"
    using m(2) \<open>m = cur\<close> notin nb
    by (auto simp: link path_set_link_other path_upd_other simp del: last.simps)
  moreover have "b \<noteq> 0" using nz bs by auto
  ultimately have "path (fl_next ?s2) (fl_head ?s2) (?us @ b # ?vs) 0"
    by (auto simp: path_append)
  moreover have "filter (\<lambda>c. c \<in> insert b F) bs = ?us @ b # ?vs" using nb bs by simp
  ultimately show ?thesis using ok b by (simp add: fl_ok_def)
qed

theorem fl_free_spec:
  assumes inv: "fl_inv base H s L" and "p \<in> L"
  shows "\<exists>s'. fl_free base H p s = Some s' \<and> fl_inv base H s' (L - {p})
    \<and> (\<forall>q \<in> L - {p}. psize s' q = psize s q) \<and> fl_mem s' = fl_mem s"
proof -
  from assms obtain bs F where ok: "fl_ok base H s bs F" and L: "L = (\<lambda>b. b + SIZEOF_BLOCK) ` (set bs - F)"
    by (auto simp: fl_inv_def)
  from L assms(2) obtain b where b: "b \<in> set bs - F" "p = b + SIZEOF_BLOCK" by auto
  have "sorted bs" using ok tiles_sorted by (auto simp: fl_ok_def)
  then have "sorted (filter (\<lambda>c. c \<in> F) bs)" by (rule sorted_filter [of id, simplified])
  moreover have "path (fl_next s) (fl_head s) (filter (\<lambda>c. c \<in> F) bs) 0" using ok by (simp add: fl_ok_def)
  ultimately obtain prev cur where before: "fl_before s b 0 (fl_head s) = Some (prev, cur)"
    using fl_before_path by blast
  let ?s = "set_link prev b (s\<lparr>fl_next := (fl_next s)(b := cur)\<rparr>)"
  have ok1: "fl_ok base H ?s bs (insert b F)" by (rule fl_insert_ok [OF ok b(1) before])
  obtain bs' F' where ok2: "fl_ok base H (fl_coalesce b ?s) bs' F'"
    and live: "set bs' - F' = set bs - insert b F"
    and sizes: "\<forall>c \<in> set bs - insert b F. fl_size (fl_coalesce b ?s) c = fl_size ?s c"
    using fl_coalesce_ok [OF ok1] by blast
  have "fl_free base H p s = Some (fl_coalesce b ?s)"
    using before b(2) ok by (simp add: fl_free_def SIZEOF_BLOCK_def)
  moreover have "L - {p} = (\<lambda>b. b + SIZEOF_BLOCK) ` (set bs' - F')"
    unfolding L live b(2) by auto
  then have "fl_inv base H (fl_coalesce b ?s) (L - {p})"
    using inv ok2 by (auto simp: fl_inv_def)
  moreover have "\<forall>q \<in> L - {p}. psize (fl_coalesce b ?s) q = psize s q"
    using sizes L b(2) by (auto simp: psize_def)
  moreover have "fl_mem (fl_coalesce b ?s) = fl_mem s" by (simp add: fl_coalesce_def Let_def)
  ultimately show ?thesis by blast
qed

section \<open>Reallocation\<close>

lemma copy_bytes_frame: "a < dst \<or> dst + n \<le> a \<Longrightarrow> copy_bytes dst src n mem a = mem a"
  by (induction n arbitrary: dst src mem) auto

lemma copy_bytes_copies:
  assumes "src + n \<le> dst \<or> dst + n \<le> src" and "i < n"
  shows "copy_bytes dst src n mem (dst + i) = mem (src + i)"
  using assms
proof (induction n arbitrary: dst src mem i)
  case 0
  then show ?case by simp
next
  case (Suc n)
  show ?case
  proof (cases i)
    case 0
    then show ?thesis by (simp add: copy_bytes_frame)
  next
    case (Suc j)
    have "copy_bytes (Suc dst) (Suc src) n (mem(dst := mem src)) (Suc dst + j)
        = (mem(dst := mem src)) (Suc src + j)"
      using Suc.prems Suc by (intro Suc.IH) auto
    with Suc Suc.prems show ?thesis by auto
  qed
qed

lemma fl_malloc_mem: "fl_malloc base H sz s = Some (p, s') \<Longrightarrow> fl_mem s' = fl_mem s"
  by (auto simp: fl_malloc_def Let_def fl_heap_init_def fl_take_def split: option.splits if_splits prod.splits)

lemma fl_inv_mem [simp]: "fl_inv base H (s\<lparr>fl_mem := m\<rparr>) L \<longleftrightarrow> fl_inv base H s L"
  by (simp add: fl_inv_def fl_ok_def)

lemma psize_mem [simp]: "psize (s\<lparr>fl_mem := m\<rparr>) p = psize s p"
  by (simp add: psize_def)

text \<open>Copying a block into a bigger one moves its contents and touches no other live block.\<close>

lemma fl_copy_fresh:
  assumes inv: "fl_inv base H s (insert n L)" and np: "n \<notin> L" and p: "p \<in> L" and less: "psize s p < psize s n"
  defines "m \<equiv> copy_bytes n p (psize s p) (fl_mem s)"
  shows "i < psize s p \<Longrightarrow> m (n + i) = fl_mem s (p + i)"
    and "q \<in> L \<Longrightarrow> i < psize s q \<Longrightarrow> m (q + i) = fl_mem s (q + i)"
proof -
  have disj: "q + psize s q \<le> n \<or> n + psize s n \<le> q" if "q \<in> L" "0 < psize s q" for q
  proof -
    have "q \<noteq> n" using that(1) np by auto
    from fl_inv_live_disjoint [OF inv, of q n] that this less
    have "{q..<q + psize s q} \<inter> {n..<n + psize s n} = {}" by simp
    with that(2) less show ?thesis by (auto simp: ivl_disj_un Int_atLeastLessThan max_def min_def split: if_splits)
  qed
  show "m (n + i) = fl_mem s (p + i)" if i: "i < psize s p"
  proof -
    from i disj [of p] less p have "p + psize s p \<le> n \<or> n + psize s p \<le> p" by auto
    with i show ?thesis unfolding m_def by (subst copy_bytes_copies) auto
  qed
  show "m (q + i) = fl_mem s (q + i)" if q: "q \<in> L" and i: "i < psize s q"
  proof -
    from q i disj [of q] have "q + psize s q \<le> n \<or> n + psize s n \<le> q" by auto
    with i less have "q + i < n \<or> n + psize s p \<le> q + i" by auto
    then show ?thesis unfolding m_def by (simp add: copy_bytes_frame)
  qed
qed

text \<open>
  \<open>realloc\<close> to a non-zero size that does not wrap: either it fails and nothing changed, or the
  block it returns replaces the old one, is big enough and starts with the old contents; no
  other payload was touched.
\<close>

theorem fl_realloc_spec:
  assumes inv: "fl_inv base H s L" and "p \<in> L" and "sz \<noteq> 0" and nowrap: "unat sz + 7 < 2 ^ 64"
  shows "\<exists>n s'. fl_realloc base H p sz s = Some (n, s')
    \<and> fl_inv base H s' (if n = 0 then L else insert n (L - {p}))
    \<and> (\<forall>q \<in> L - {p}. psize s' q = psize s q)
    \<and> (n = 0 \<longrightarrow> psize s' p = psize s p \<and> fl_mem s' = fl_mem s)
    \<and> (n \<noteq> 0 \<longrightarrow> n \<notin> L - {p} \<and> unat sz \<le> psize s' n
         \<and> (\<forall>i < min (psize s p) (unat sz). fl_mem s' (n + i) = fl_mem s (p + i))
         \<and> (\<forall>q \<in> L - {p}. \<forall>i < psize s q. fl_mem s' (q + i) = fl_mem s (q + i)))"
proof -
  have "p \<noteq> 0" using fl_inv_live_bounds(1) [OF inv assms(2)] by (simp add: SIZEOF_BLOCK_def)
  show ?thesis
  proof (cases "unat sz \<le> psize s p")
    case True
    then have "fl_realloc base H p sz s = Some (p, s)"
      using \<open>p \<noteq> 0\<close> \<open>sz \<noteq> 0\<close> by (simp add: fl_realloc_def psize_def)
    with True inv \<open>p \<noteq> 0\<close> \<open>p \<in> L\<close> show ?thesis by (simp add: insert_absorb)
  next
    case False
    from fl_malloc_spec [OF inv \<open>sz \<noteq> 0\<close>] obtain n s1 where
      mal: "fl_malloc base H sz s = Some (n, s1)" and
      inv1: "fl_inv base H s1 (if n = 0 then L else insert n L)" and
      same1: "\<forall>q \<in> L. psize s1 q = psize s q" and
      new: "n \<noteq> 0 \<longrightarrow> n \<notin> L \<and> unat (align_up8 sz) \<le> psize s1 n" by blast
    have mem1: "fl_mem s1 = fl_mem s" using mal by (rule fl_malloc_mem)
    show ?thesis
    proof (cases "n = 0")
      case True
      then have "fl_realloc base H p sz s = Some (0, s1)"
        using mal \<open>p \<noteq> 0\<close> \<open>sz \<noteq> 0\<close> False by (simp add: fl_realloc_def psize_def)
      with True inv1 same1 mem1 \<open>p \<in> L\<close> show ?thesis by simp
    next
      case n: False
      let ?m = "copy_bytes n p (psize s1 p) (fl_mem s1)"
      let ?s2 = "s1\<lparr>fl_mem := ?m\<rparr>"
      have inv2: "fl_inv base H ?s2 (insert n L)" using inv1 n by simp
      with fl_free_spec [OF inv2, of p] \<open>p \<in> L\<close> obtain s' where
        free: "fl_free base H p ?s2 = Some s'" and inv': "fl_inv base H s' (insert n L - {p})" and
        same': "\<forall>q \<in> insert n L - {p}. psize s' q = psize s1 q" and mem': "fl_mem s' = ?m" by auto
      have np: "n \<notin> L" "n \<noteq> p" using new n \<open>p \<in> L\<close> by auto
      have re: "fl_realloc base H p sz s = Some (n, s')"
        using mal \<open>p \<noteq> 0\<close> \<open>sz \<noteq> 0\<close> False n free by (simp add: fl_realloc_def psize_def)
      have big: "unat sz \<le> psize s1 n"
        using new n align_up8_bounds(1) [OF nowrap] by simp
      have sp: "psize s1 p = psize s p" "psize s1 p < psize s1 n" using same1 \<open>p \<in> L\<close> False big by auto
      have inv1n: "fl_inv base H s1 (insert n L)" using inv1 n by simp
      note copy = fl_copy_fresh [OF inv1n np(1) \<open>p \<in> L\<close> sp(2)]
      have "\<forall>i < psize s p. fl_mem s' (n + i) = fl_mem s (p + i)"
        using copy(1) sp(1) mem1 by (simp add: mem')
      moreover have "\<forall>q \<in> L - {p}. \<forall>i < psize s q. fl_mem s' (q + i) = fl_mem s (q + i)"
        using copy(2) same1 mem1 by (simp add: mem')
      moreover have "insert n L - {p} = insert n (L - {p})" using np by auto
      ultimately show ?thesis using re inv' same' same1 np n big by auto
    qed
  qed
qed

section \<open>The two instances as allocators\<close>

lemma fl_allocator:
  "allocator (fl_inv base H) psize (base + SIZEOF_BLOCK) (base + H)
     (fl_malloc base H) (fl_free base H) (fl_realloc base H)"
proof
  show "fl_malloc base H 0 s = Some (0, s)" for s by (simp add: fl_malloc_def)
next
  fix s L and sz :: u64
  assume inv: "fl_inv base H s L" and nz: "sz \<noteq> 0" and nowrap: "unat sz + 7 < 2 ^ 64"
  have le: "unat sz \<le> unat (align_up8 sz)" using nowrap by (rule align_up8_bounds(1))
  from fl_malloc_spec [OF inv nz] obtain p s' where
    "fl_malloc base H sz s = Some (p, s')" "fl_inv base H s' (if p = 0 then L else insert p L)"
    "\<forall>q \<in> L. psize s' q = psize s q"
    "p \<noteq> 0 \<longrightarrow> p \<notin> L \<and> unat (align_up8 sz) \<le> psize s' p" by (elim exE conjE) (rule that)
  with le show "\<exists>p s'. fl_malloc base H sz s = Some (p, s')
      \<and> fl_inv base H s' (if p = 0 then L else insert p L)
      \<and> (\<forall>q \<in> L. psize s' q = psize s q) \<and> (p \<noteq> 0 \<longrightarrow> p \<notin> L \<and> unat sz \<le> psize s' p)"
    by (intro exI [of _ p] exI [of _ s']) auto
next
  fix s L p assume "fl_inv base H s L" "p \<in> L"
  from fl_free_spec [OF this] show "\<exists>s'. fl_free base H p s = Some s' \<and> fl_inv base H s' (L - {p})
    \<and> (\<forall>q \<in> L - {p}. psize s' q = psize s q)" by (elim exE conjE) (intro exI conjI)
next
  show "p \<noteq> 0 \<Longrightarrow> fl_realloc base H p 0 s = map_option (\<lambda>s'. (0, s')) (fl_free base H p s)" for p s
    by (simp add: fl_realloc_def)
next
  fix s L p and sz :: u64
  assume "fl_inv base H s L" "p \<in> L" "sz \<noteq> 0" "unat sz + 7 < 2 ^ 64"
  from fl_realloc_spec [OF this] obtain n s' where
    "fl_realloc base H p sz s = Some (n, s')" "fl_inv base H s' (if n = 0 then L else insert n (L - {p}))"
    "\<forall>q \<in> L - {p}. psize s' q = psize s q"
    "n = 0 \<longrightarrow> psize s' p = psize s p \<and> fl_mem s' = fl_mem s"
    "n \<noteq> 0 \<longrightarrow> n \<notin> L - {p} \<and> unat sz \<le> psize s' n
         \<and> (\<forall>i < min (psize s p) (unat sz). fl_mem s' (n + i) = fl_mem s (p + i))
         \<and> (\<forall>q \<in> L - {p}. \<forall>i < psize s q. fl_mem s' (q + i) = fl_mem s (q + i))"
    by (elim exE conjE) (rule that)
  then show "\<exists>n s'. fl_realloc base H p sz s = Some (n, s')
      \<and> fl_inv base H s' (if n = 0 then L else insert n (L - {p}))
      \<and> (\<forall>q \<in> L - {p}. psize s' q = psize s q) \<and> (n = 0 \<longrightarrow> psize s' p = psize s p)
      \<and> (n \<noteq> 0 \<longrightarrow> n \<notin> L - {p} \<and> unat sz \<le> psize s' n)"
    by (intro exI [of _ n] exI [of _ s']) simp
next
  fix s L p assume "fl_inv base H s L" "p \<in> L"
  from fl_inv_live_bounds [OF this]
  show "p \<noteq> 0 \<and> base + SIZEOF_BLOCK \<le> p \<and> p + psize s p \<le> base + H"
    by (auto simp: SIZEOF_BLOCK_def)
next
  show "fl_inv base H s L \<Longrightarrow> p \<in> L \<Longrightarrow> q \<in> L \<Longrightarrow> p \<noteq> q \<Longrightarrow>
    {p..<p + psize s p} \<inter> {q..<q + psize s q} = {}" for s L p q
    by (rule fl_inv_live_disjoint)
qed

interpretation doom: allocator "fl_inv base DOOM_HEAP_SIZE" psize "base + SIZEOF_BLOCK"
  "base + DOOM_HEAP_SIZE" "doom_malloc_impl base" "doom_free_impl base" "doom_realloc_impl base" for base
  unfolding doom_malloc_impl_def doom_free_impl_def doom_realloc_impl_def by (rule fl_allocator)

interpretation redalert: allocator "fl_inv base REDALERT_HEAP_SIZE" psize "base + SIZEOF_BLOCK"
  "base + REDALERT_HEAP_SIZE" "redalert_malloc_impl base" "redalert_free_impl base"
  "redalert_realloc_impl base" for base
  unfolding redalert_malloc_impl_def redalert_free_impl_def redalert_realloc_impl_def
  by (rule fl_allocator)

section \<open>Properties\<close>

lemma doom_boot_inv: "0 < base \<Longrightarrow> fl_inv base DOOM_HEAP_SIZE fl_boot {}"
  by (intro fl_inv_boot) (simp_all add: SIZEOF_BLOCK_def DOOM_HEAP_SIZE_def)

lemma redalert_boot_inv: "0 < base \<Longrightarrow> fl_inv base REDALERT_HEAP_SIZE fl_boot {}"
  by (intro fl_inv_boot) (simp_all add: SIZEOF_BLOCK_def REDALERT_HEAP_SIZE_def)

text \<open>
  C3: Whatever sequence of \<open>malloc\<close>, \<open>free\<close> and \<open>realloc\<close> calls the DOOM port makes (freeing and
  resizing only pointers it holds, with sizes that survive rounding), every call returns, and the
  blocks it holds in the end are inside the array, at least as big as asked for, and disjoint.
\<close>

theorem doom_heap_blocks_disjoint:
  assumes "0 < base" and "\<forall>op \<in> set ops. op_nowrap op"
  shows "\<exists>s ps. heap_run (doom_malloc_impl base) (doom_free_impl base) (doom_realloc_impl base) ops
      (fl_boot, []) = Some (s, ps)
    \<and> blocks_sound (base + SIZEOF_BLOCK) (base + DOOM_HEAP_SIZE) ps"
  by (rule doom.run_blocks_sound [OF doom_boot_inv [OF assms(1)] assms(2)])

theorem doom_heap_blocks_disjoint_witness:
  "\<exists>s ps. heap_run (doom_malloc_impl 4096) (doom_free_impl 4096) (doom_realloc_impl 4096)
      [OpMalloc 100, OpMalloc 8, OpFree 1, OpRealloc 0 300] (fl_boot, []) = Some (s, ps)
    \<and> blocks_sound (4096 + SIZEOF_BLOCK) (4096 + DOOM_HEAP_SIZE) ps"
  by (rule doom_heap_blocks_disjoint) simp_all

text \<open>The same for the Red Alert port and its own array.\<close>

theorem redalert_heap_blocks_disjoint:
  assumes "0 < base" and "\<forall>op \<in> set ops. op_nowrap op"
  shows "\<exists>s ps. heap_run (redalert_malloc_impl base) (redalert_free_impl base) (redalert_realloc_impl base)
      ops (fl_boot, []) = Some (s, ps)
    \<and> blocks_sound (base + SIZEOF_BLOCK) (base + REDALERT_HEAP_SIZE) ps"
  by (rule redalert.run_blocks_sound [OF redalert_boot_inv [OF assms(1)] assms(2)])

theorem redalert_heap_blocks_disjoint_witness:
  "\<exists>s ps. heap_run (redalert_malloc_impl 8) (redalert_free_impl 8) (redalert_realloc_impl 8)
      [OpMalloc 24, OpRealloc 0 0, OpMalloc 1] (fl_boot, []) = Some (s, ps)
    \<and> blocks_sound (8 + SIZEOF_BLOCK) (8 + REDALERT_HEAP_SIZE) ps"
  by (rule redalert_heap_blocks_disjoint) simp_all

text \<open>
  C15: Resizing a live block to a non-zero size that does not wrap returns; when it yields a block,
  that block is big enough and starts with the bytes of the old one (up to the smaller of both
  sizes), and no byte of any other live block has changed; when it fails, nothing has.
\<close>

theorem doom_realloc_keeps_contents:
  assumes "fl_inv base DOOM_HEAP_SIZE s L" and "p \<in> L" and "sz \<noteq> 0" and "unat sz + 7 < 2 ^ 64"
  shows "\<exists>n s'. doom_realloc_impl base p sz s = Some (n, s')
    \<and> (n = 0 \<longrightarrow> fl_inv base DOOM_HEAP_SIZE s' L \<and> fl_mem s' = fl_mem s)
    \<and> (n \<noteq> 0 \<longrightarrow> fl_inv base DOOM_HEAP_SIZE s' (insert n (L - {p})) \<and> unat sz \<le> psize s' n
         \<and> (\<forall>i < min (psize s p) (unat sz). fl_mem s' (n + i) = fl_mem s (p + i))
         \<and> (\<forall>q \<in> L - {p}. \<forall>i < psize s q. fl_mem s' (q + i) = fl_mem s (q + i)))"
proof -
  from fl_realloc_spec [OF assms] obtain n s' where
    "fl_realloc base DOOM_HEAP_SIZE p sz s = Some (n, s')"
    "fl_inv base DOOM_HEAP_SIZE s' (if n = 0 then L else insert n (L - {p}))"
    "\<forall>q \<in> L - {p}. psize s' q = psize s q"
    "n = 0 \<longrightarrow> psize s' p = psize s p \<and> fl_mem s' = fl_mem s"
    "n \<noteq> 0 \<longrightarrow> n \<notin> L - {p} \<and> unat sz \<le> psize s' n
         \<and> (\<forall>i < min (psize s p) (unat sz). fl_mem s' (n + i) = fl_mem s (p + i))
         \<and> (\<forall>q \<in> L - {p}. \<forall>i < psize s q. fl_mem s' (q + i) = fl_mem s (q + i))"
    by (elim exE conjE) (rule that)
  then show ?thesis unfolding doom_realloc_impl_def
    by (intro exI [of _ n] exI [of _ s']) (simp split: if_splits)
qed


lemma doom_heap_one_block:
  assumes "s = snd (the (doom_malloc_impl 4096 8 fl_boot))"
  shows "doom_malloc_impl 4096 8 fl_boot = Some (4112, s)" and "fl_inv 4096 DOOM_HEAP_SIZE s {4112}"
proof -
  show m: "doom_malloc_impl 4096 8 fl_boot = Some (4112, s)"
    unfolding assms by (simp add: doom_malloc_impl_def fl_malloc_def fl_heap_init_def fl_boot_def
        fl_find.simps align_up8_def DOOM_HEAP_SIZE_def SIZEOF_BLOCK_def)
  have "fl_inv 4096 DOOM_HEAP_SIZE fl_boot {}" by (intro doom_boot_inv) simp
  from fl_malloc_spec [OF this, of 8] m show "fl_inv 4096 DOOM_HEAP_SIZE s {4112}"
    by (auto simp: doom_malloc_impl_def)
qed

theorem doom_realloc_keeps_contents_witness:
  "\<exists>n s'. doom_realloc_impl 4096 4112 64 (snd (the (doom_malloc_impl 4096 8 fl_boot))) = Some (n, s')
     \<and> (n \<noteq> 0 \<longrightarrow> 64 \<le> psize s' n)"
proof -
  have "\<exists>n s'. doom_realloc_impl 4096 4112 64 (snd (the (doom_malloc_impl 4096 8 fl_boot))) = Some (n, s')
    \<and> (n = 0 \<longrightarrow> fl_inv 4096 DOOM_HEAP_SIZE s' {4112}
         \<and> fl_mem s' = fl_mem (snd (the (doom_malloc_impl 4096 8 fl_boot))))
    \<and> (n \<noteq> 0 \<longrightarrow> fl_inv 4096 DOOM_HEAP_SIZE s' (insert n ({4112} - {4112})) \<and> unat (64 :: u64) \<le> psize s' n
         \<and> (\<forall>i < min (psize (snd (the (doom_malloc_impl 4096 8 fl_boot))) 4112) (unat (64 :: u64)).
              fl_mem s' (n + i) = fl_mem (snd (the (doom_malloc_impl 4096 8 fl_boot))) (4112 + i))
         \<and> (\<forall>q \<in> {4112} - {4112}. \<forall>i < psize (snd (the (doom_malloc_impl 4096 8 fl_boot))) q.
              fl_mem s' (q + i) = fl_mem (snd (the (doom_malloc_impl 4096 8 fl_boot))) (q + i)))"
    by (rule doom_realloc_keeps_contents [OF doom_heap_one_block(2) [OF refl]]) simp_all
  then show ?thesis by (elim exE conjE) (intro exI conjI, assumption, simp)
qed

end
