(* ===== verification/Sched.thy ===== *)
theory Sched
  imports Kheap
begin

text \<open>
  The process table and the round-robin scheduler (\<^verbatim>\<open>src/kernel/process/process.c\<close>) with the
  timer it drives (\<^verbatim>\<open>src/kernel/drivers/timer.c\<close>). A process is named by its index in the table;
  \<open>NULL\<close> is \<open>None\<close>. Stacks come from \<open>kmalloc\<close> of \<open>Kheap\<close>, and \<open>stk\<close> holds the 8-byte words
  stored in them. Entry points are code addresses. What \<open>context_switch_to\<close>
  (\<^verbatim>\<open>src/kernel/arch/context_switch.asm\<close>) reads from a saved stack pointer is \<open>resume_rip\<close>.
\<close>

section \<open>Timer\<close>

definition PIT_HZ :: u32 where "PIT_HZ = 1193182"

text \<open>The millisecond counter and the port writes; \<open>None\<close> is the division by zero.\<close>

definition timer_init :: "u32 \<Rightarrow> (u32 \<times> (u16 \<times> u8) list) option" where
  "timer_init hz =
     (if hz = 0 then None
      else let divisor = PIT_HZ div hz;
               divisor = (if divisor > 65535 then 65535 else divisor)
        in Some (0, [(0x43, 0x36), (0x40, ucast (divisor AND 0xFF)),
                     (0x40, ucast (drop_bit 8 divisor AND 0xFF))]))"

definition timer_tick :: "u32 \<Rightarrow> u32" where
  "timer_tick timer_ms = timer_ms + 10"

section \<open>Process table\<close>

definition STACK_ALIGN :: u64 where "STACK_ALIGN = 16"
definition PROCESS_STACK_SIZE :: u64 where "PROCESS_STACK_SIZE = 64 * 1024"
definition MAX_PROCESSES :: nat where "MAX_PROCESSES = 8"

datatype process_state = PROC_RUNNABLE | PROC_RUNNING | PROC_BLOCKED

record process =
  pid :: u64
  pstate :: process_state
  saved_rsp :: u64
  kernel_stack :: "u64 option"
  pnext :: "nat option"

record sched =
  processes :: "process list"
  process_count :: nat
  current_process :: "nat option"
  run_list :: "nat option"
  next_pid :: u64
  heap :: kheap
  stk :: "u64 \<Rightarrow> u64"
  timer_ms :: u32

definition sched_boot :: "kheap \<Rightarrow> sched" where
  "sched_boot h =
     \<lparr>processes = replicate MAX_PROCESSES
        \<lparr>pid = 0, pstate = PROC_RUNNABLE, saved_rsp = 0, kernel_stack = None, pnext = None\<rparr>,
      process_count = 0, current_process = None, run_list = None, next_pid = 0, heap = h,
      stk = (\<lambda>_. 0), timer_ms = 0\<rparr>"

definition upd :: "nat \<Rightarrow> (process \<Rightarrow> process) \<Rightarrow> sched \<Rightarrow> sched" where
  "upd p f s = s\<lparr>processes := list_update (processes s) p (f (processes s ! p))\<rparr>"

definition alloc_process :: "sched \<Rightarrow> nat option \<times> sched" where
  "alloc_process s =
     (if process_count s \<ge> MAX_PROCESSES then (None, s)
      else (Some (process_count s), s\<lparr>process_count := process_count s + 1\<rparr>))"

text \<open>Stores, in the order of the code, below and above \<open>saved\<close>.\<close>

fun store_words :: "u64 \<Rightarrow> u64 list \<Rightarrow> (u64 \<Rightarrow> u64) \<Rightarrow> (u64 \<Rightarrow> u64)" where
  "store_words a [] m = m"
| "store_words a (w # ws) m = store_words (a + 8) ws (m(a := w))"

definition process_setup_stack :: "nat \<Rightarrow> u64 \<Rightarrow> sched \<Rightarrow> sched" where
  "process_setup_stack p entry s =
     (let stack_top = the (kernel_stack (processes s ! p)) + PROCESS_STACK_SIZE;
          stack_top = stack_top AND NOT (STACK_ALIGN - 1);
          saved = stack_top - 8 * 15;
          m = (stk s)(saved - 8 := 32, saved - 16 := entry, saved - 24 := 0x08,
                      saved - 32 := 0x202, saved - 40 := 0, saved - 48 := 0x10);
          m = store_words saved (replicate 15 0) m
      in upd p (\<lambda>q. q\<lparr>saved_rsp := saved\<rparr>) (s\<lparr>stk := m\<rparr>))"

definition process_create :: "u64 \<Rightarrow> sched \<Rightarrow> sched" where
  "process_create entry s =
     (case alloc_process s of
        (None, s) \<Rightarrow> s
      | (Some p, s) \<Rightarrow>
          (case kmalloc PROCESS_STACK_SIZE (heap s) of (ks, h) \<Rightarrow>
            let s = upd p (\<lambda>q. q\<lparr>kernel_stack := ks\<rparr>) (s\<lparr>heap := h\<rparr>) in
            if ks = None then s
            else let s = upd p (\<lambda>q. q\<lparr>pid := next_pid s, pstate := PROC_RUNNABLE, pnext := None\<rparr>)
                           (s\<lparr>next_pid := next_pid s + 1\<rparr>);
                     s = process_setup_stack p entry s
              in case run_list s of
                   None \<Rightarrow> upd p (\<lambda>q. q\<lparr>pnext := Some p\<rparr>) (s\<lparr>run_list := Some p\<rparr>)
                 | Some r \<Rightarrow>
                     let s = upd p (\<lambda>q. q\<lparr>pnext := pnext (processes s ! r)\<rparr>) s;
                         s = upd r (\<lambda>q. q\<lparr>pnext := Some p\<rparr>) s
                     in s\<lparr>run_list := Some p\<rparr>))"

definition process_init :: "u64 \<Rightarrow> sched \<Rightarrow> sched" where
  "process_init idle_loop s =
     process_create idle_loop
       (s\<lparr>process_count := 0, current_process := None, run_list := None, next_pid := 1\<rparr>)"

text \<open>The result is the stack pointer the interrupt return uses.\<close>

definition scheduler_tick :: "u64 \<Rightarrow> sched \<Rightarrow> u64 \<times> sched" where
  "scheduler_tick current_rsp s =
     (let s = s\<lparr>timer_ms := timer_tick (timer_ms s)\<rparr> in
      case current_process s of
        None \<Rightarrow> (current_rsp, s)
      | Some c \<Rightarrow>
          let s = upd c (\<lambda>q. q\<lparr>saved_rsp := current_rsp, pstate := PROC_RUNNABLE\<rparr>) s in
          case pnext (processes s ! c) of
            None \<Rightarrow> (current_rsp, s)
          | Some nx \<Rightarrow>
              let s = upd nx (\<lambda>q. q\<lparr>pstate := PROC_RUNNING\<rparr>) (s\<lparr>current_process := Some nx\<rparr>)
              in (saved_rsp (processes s ! nx), s))"

definition process_set_current :: "nat option \<Rightarrow> sched \<Rightarrow> sched" where
  "process_set_current p s =
     (let s = s\<lparr>current_process := p\<rparr>
      in case p of None \<Rightarrow> s | Some i \<Rightarrow> upd i (\<lambda>q. q\<lparr>pstate := PROC_RUNNING\<rparr>) s)"

definition process_add_runnable :: "nat \<Rightarrow> sched \<Rightarrow> sched" where
  "process_add_runnable p s =
     (case run_list s of
        None \<Rightarrow> upd p (\<lambda>q. q\<lparr>pnext := Some p\<rparr>) (s\<lparr>run_list := Some p\<rparr>)
      | Some r \<Rightarrow>
          let s = upd p (\<lambda>q. q\<lparr>pnext := pnext (processes s ! r)\<rparr>) s
          in upd r (\<lambda>q. q\<lparr>pnext := Some p\<rparr>) s)"

text \<open>\<open>Some rsp\<close> is the stack pointer given to \<open>context_switch_to\<close>.\<close>

definition scheduler_first_run :: "sched \<Rightarrow> u64 option \<times> sched" where
  "scheduler_first_run s =
     (case run_list s of
        None \<Rightarrow> (None, s)
      | Some r \<Rightarrow>
          let s = upd r (\<lambda>q. q\<lparr>pstate := PROC_RUNNING\<rparr>) (s\<lparr>current_process := Some r\<rparr>)
          in (Some (saved_rsp (processes s ! r)), s))"

text \<open>
  \<open>context_switch_to\<close> pops fifteen registers from \<open>new_rsp\<close> on and skips the vector; \<open>iretq\<close>
  then loads the instruction pointer from the next word.
\<close>

definition resume_slot :: "u64 \<Rightarrow> u64" where
  "resume_slot new_rsp = new_rsp + 15 * 8 + 8"

definition resume_rip :: "u64 \<Rightarrow> sched \<Rightarrow> u64" where
  "resume_rip new_rsp s = stk s (resume_slot new_rsp)"

section \<open>The ring of runnable processes\<close>

definition next_of :: "sched \<Rightarrow> nat \<Rightarrow> nat option" where
  "next_of s p = pnext (processes s ! p)"

text \<open>\<open>ps\<close> in running order: each points to its successor, the last (\<open>run_list\<close>) to the first.\<close>

fun chain :: "(nat \<Rightarrow> nat option) \<Rightarrow> nat list \<Rightarrow> nat \<Rightarrow> bool" where
  "chain nx [] z \<longleftrightarrow> True"
| "chain nx [p] z \<longleftrightarrow> nx p = Some z"
| "chain nx (p # q # ps) z \<longleftrightarrow> nx p = Some q \<and> chain nx (q # ps) z"

text \<open>The current process is the only one marked running; the others are runnable.\<close>

definition states_ok :: "nat option \<Rightarrow> (nat \<Rightarrow> process_state) \<Rightarrow> nat list \<Rightarrow> bool" where
  "states_ok cur st ps \<longleftrightarrow>
     (\<forall>c. cur = Some c \<longrightarrow> c \<in> set ps)
     \<and> (\<forall>p \<in> set ps. st p = (if cur = Some p then PROC_RUNNING else PROC_RUNNABLE))"

abbreviation state_of :: "sched \<Rightarrow> nat \<Rightarrow> process_state" where
  "state_of s \<equiv> \<lambda>p. pstate (processes s ! p)"

text \<open>The processes that were created with a stack, in the order of their creation.\<close>

definition ready :: "sched \<Rightarrow> nat list" where
  "ready s = filter (\<lambda>p. kernel_stack (processes s ! p) \<noteq> None) [0..<process_count s]"

text \<open>There is an entry free in the table and room for a stack.\<close>

definition gets_stack :: "sched \<Rightarrow> bool" where
  "gets_stack s \<longleftrightarrow> process_count s < MAX_PROCESSES \<and> fst (kmalloc PROCESS_STACK_SIZE (heap s)) \<noteq> None"

definition sched_inv :: "sched \<Rightarrow> nat list \<Rightarrow> bool" where
  "sched_inv s ps \<longleftrightarrow> length (processes s) = MAX_PROCESSES \<and> process_count s \<le> MAX_PROCESSES
     \<and> distinct ps \<and> (\<forall>p \<in> set ps. p < process_count s)
     \<and> (if ps = [] then run_list s = None else run_list s = Some (last ps) \<and> chain (next_of s) ps (hd ps))
     \<and> states_ok (current_process s) (state_of s) ps"

lemma states_ok_cong: "(\<And>p. p \<in> set ps \<Longrightarrow> st p = st' p) \<Longrightarrow> states_ok cur st ps \<longleftrightarrow> states_ok cur st' ps"
  by (auto simp: states_ok_def)

lemma states_ok_snoc:
  "states_ok cur st ps \<Longrightarrow> p \<notin> set ps \<Longrightarrow> st p = PROC_RUNNABLE \<Longrightarrow> states_ok cur st (ps @ [p])"
  by (auto simp: states_ok_def)

lemma states_ok_single: "states_ok cur st [] \<Longrightarrow> st p = PROC_RUNNABLE \<Longrightarrow> states_ok cur st [p]"
  by (auto simp: states_ok_def)

lemma chain_cong: "(\<And>p. p \<in> set ps \<Longrightarrow> nx p = nx' p) \<Longrightarrow> chain nx ps z \<longleftrightarrow> chain nx' ps z"
  by (induction ps rule: induct_list012) auto

lemma chain_upd_other: "p \<notin> set ps \<Longrightarrow> chain (nx(p := v)) ps z \<longleftrightarrow> chain nx ps z"
  by (rule chain_cong) auto

lemma chain_append_last: "chain nx (ps @ [p]) z \<longleftrightarrow> nx p = Some z \<and> (ps = [] \<or> chain nx ps p)"
  by (induction ps rule: induct_list012) auto

lemma chain_relink_last:
  "chain nx ps z \<Longrightarrow> distinct ps \<Longrightarrow> ps \<noteq> [] \<Longrightarrow> chain (nx(last ps := Some y)) ps y"
proof (induction ps rule: induct_list012)
  case (3 p q ps)
  then have "p \<noteq> last (q # ps)" by (metis distinct.simps(2) last_in_set list.distinct(1))
  with 3 show ?case by auto
qed auto

lemma chain_nth:
  assumes "chain nx ps (hd ps)" and "i < length ps"
  shows "nx (ps ! i) = Some (ps ! (Suc i mod length ps))"
proof -
  have "chain nx ps z \<Longrightarrow> i < length ps \<Longrightarrow> nx (ps ! i) = Some (if Suc i = length ps then z else ps ! Suc i)" for z
  proof (induction ps arbitrary: i rule: induct_list012)
    case (3 p q ps)
    then show ?case by (cases i) auto
  qed auto
  from this [OF assms] assms(2) show ?thesis by (cases ps) auto
qed

lemma upd_simps [simp]:
  "length (processes (upd p f s)) = length (processes s)" "process_count (upd p f s) = process_count s"
  "current_process (upd p f s) = current_process s" "run_list (upd p f s) = run_list s"
  "next_pid (upd p f s) = next_pid s" "heap (upd p f s) = heap s" "stk (upd p f s) = stk s"
  "timer_ms (upd p f s) = timer_ms s"
  by (simp_all add: upd_def)

lemma processes_upd [simp]:
  "p < length (processes s) \<Longrightarrow> processes (upd p f s) ! q = (if q = p then f (processes s ! p) else processes s ! q)"
  by (auto simp: upd_def)

lemma setup_stack_simps [simp]:
  "length (processes (process_setup_stack p e s)) = length (processes s)"
  "process_count (process_setup_stack p e s) = process_count s"
  "current_process (process_setup_stack p e s) = current_process s"
  "run_list (process_setup_stack p e s) = run_list s"
  "heap (process_setup_stack p e s) = heap s" "next_pid (process_setup_stack p e s) = next_pid s"
  by (simp_all add: process_setup_stack_def Let_def)

lemma processes_setup_stack [simp]:
  "p < length (processes s) \<Longrightarrow> pnext (processes (process_setup_stack p e s) ! q) = pnext (processes s ! q)"
  "p < length (processes s) \<Longrightarrow> pstate (processes (process_setup_stack p e s) ! q) = pstate (processes s ! q)"
  by (simp_all add: process_setup_stack_def Let_def)

lemma sched_inv_next:
  assumes "sched_inv s ps" and "i < length ps"
  shows "pnext (processes s ! (ps ! i)) = Some (ps ! (Suc i mod length ps))"
proof -
  have "chain (next_of s) ps (hd ps)" using assms by (auto simp: sched_inv_def split: if_splits)
  from chain_nth [OF this assms(2)] show ?thesis by (simp add: next_of_def)
qed

text \<open>\<open>t\<close> is \<open>s\<close> with the next entry of the table filled in, in no list yet.\<close>

definition fills_entry :: "sched \<Rightarrow> sched \<Rightarrow> bool" where
  "fills_entry s t \<longleftrightarrow> process_count s < MAX_PROCESSES \<and> length (processes t) = MAX_PROCESSES
     \<and> process_count t = process_count s + 1 \<and> run_list t = run_list s \<and> current_process t = current_process s
     \<and> (\<forall>q. pnext (processes t ! q) = (if q = process_count s then None else pnext (processes s ! q)))
     \<and> (\<forall>q. pstate (processes t ! q) = (if q = process_count s then PROC_RUNNABLE else pstate (processes s ! q)))"

lemma sched_inv_first:
  assumes inv: "sched_inv s []" and t: "fills_entry s t"
  defines "p \<equiv> process_count s"
  shows "sched_inv (upd p (\<lambda>q. q\<lparr>pnext := Some p\<rparr>) (t\<lparr>run_list := Some p\<rparr>)) [p]"
proof -
  let ?t = "upd p (\<lambda>q. q\<lparr>pnext := Some p\<rparr>) (t\<lparr>run_list := Some p\<rparr>)"
  have "states_ok (current_process s) (state_of ?t) [p]"
    using inv t by (intro states_ok_single) (auto simp: fills_entry_def p_def sched_inv_def states_ok_def)
  with t show ?thesis by (simp add: fills_entry_def p_def sched_inv_def next_of_def)
qed

lemma sched_inv_link:
  assumes inv: "sched_inv s ps" and ne: "ps \<noteq> []" and t: "fills_entry s t"
  defines "p \<equiv> process_count s" and "r \<equiv> last ps"
  defines "t' \<equiv> upd r (\<lambda>q. q\<lparr>pnext := Some p\<rparr>) (upd p (\<lambda>q. q\<lparr>pnext := pnext (processes t ! r)\<rparr>) t)"
  shows "sched_inv (t'\<lparr>run_list := Some p\<rparr>) (ps @ [p])"
proof -
  let ?t = "t'\<lparr>run_list := Some p\<rparr>"
  have fresh: "p \<notin> set ps" and below: "\<forall>q \<in> set ps. q < p" and ring: "chain (next_of s) ps (hd ps)"
    using inv ne by (auto simp: sched_inv_def p_def)
  have r: "r \<in> set ps" "r < p" "r \<noteq> p" using ne below fresh by (auto simp: r_def)
  with t have pl: "p < length (processes t)" "r < length (processes t)" by (simp_all add: fills_entry_def p_def)
  have last: "pnext (processes s ! r) = Some (hd ps)"
    using chain_append_last [of "next_of s" "butlast ps" r "hd ps"] ring ne by (simp add: next_of_def r_def)
  have nx: "next_of ?t = (next_of s)(r := Some p, p := Some (hd ps))"
    using pl r last t by (auto simp: t'_def next_of_def fun_eq_iff fills_entry_def p_def)
  have st: "state_of ?t = (\<lambda>q. if q = p then PROC_RUNNABLE else state_of s q)"
    using pl t by (auto simp: t'_def fun_eq_iff fills_entry_def p_def)
  have "chain ((next_of s)(r := Some p)) ps p"
    unfolding r_def using inv ne by (intro chain_relink_last [OF ring]) (auto simp: sched_inv_def)
  then have "chain ((next_of s)(r := Some p, p := Some (hd ps))) ps p"
    by (rule chain_upd_other [THEN iffD2, OF fresh])
  then have "chain (next_of ?t) (ps @ [p]) (hd (ps @ [p]))"
    unfolding nx chain_append_last using ne by simp
  moreover have "states_ok (current_process s) (state_of s) ps" using inv by (simp add: sched_inv_def)
  then have "states_ok (current_process s) (state_of ?t) (ps @ [p])"
    unfolding st using fresh by (intro states_ok_snoc) (auto intro: states_ok_cong [THEN iffD1, rotated])
  ultimately show ?thesis
    using inv ne fresh t below unfolding sched_inv_def t'_def fills_entry_def p_def by (simp add: less_Suc_eq)
qed

lemma sched_inv_create:
  assumes inv: "sched_inv s ps"
  shows "sched_inv (process_create e s) (if gets_stack s then ps @ [process_count s] else ps)"
proof (cases "process_count s < MAX_PROCESSES")
  case False
  then have "process_create e s = s" by (simp add: process_create_def alloc_process_def)
  with inv False show ?thesis by (simp add: gets_stack_def)
next
  case True
  let ?p = "process_count s"
  obtain ks h where k: "kmalloc PROCESS_STACK_SIZE (heap s) = (ks, h)" by fastforce
  have len: "length (processes s) = MAX_PROCESSES" using inv by (simp add: sched_inv_def)
  let ?s1 = "upd ?p (\<lambda>q. q\<lparr>kernel_stack := ks\<rparr>) (s\<lparr>process_count := ?p + 1, heap := h\<rparr>)"
  show ?thesis
  proof (cases ks)
    case None
    then have "process_create e s = ?s1" using True k by (simp add: process_create_def alloc_process_def)
    moreover have "next_of ?s1 = next_of s" using True len by (auto simp: next_of_def)
    moreover have "state_of ?s1 = state_of s" using True len by (auto simp: fun_eq_iff)
    ultimately have "sched_inv (process_create e s) ps"
      using inv True unfolding sched_inv_def by (auto simp: less_Suc_eq)
    then show ?thesis using None k by (simp add: gets_stack_def)
  next
    case (Some a)
    then have got: "gets_stack s" using True k by (simp add: gets_stack_def)
    let ?s2 = "process_setup_stack ?p e (upd ?p (\<lambda>q. q\<lparr>pid := next_pid ?s1, pstate := PROC_RUNNABLE, pnext := None\<rparr>)
      (?s1\<lparr>next_pid := next_pid ?s1 + 1\<rparr>))"
    have s2: "fills_entry s ?s2" using True len by (simp add: fills_entry_def)
    show ?thesis
    proof (cases "ps = []")
      case empty: True
      with sched_inv_first [OF _ s2] inv True k Some got show ?thesis
        by (simp add: process_create_def alloc_process_def Let_def sched_inv_def)
    next
      case False
      with inv have "run_list s = Some (last ps)" by (simp add: sched_inv_def)
      with sched_inv_link [OF inv False s2] True k Some got show ?thesis
        by (simp add: process_create_def alloc_process_def Let_def)
    qed
  qed
qed

lemma stack_setup_stack [simp]:
  "p < length (processes s) \<Longrightarrow> kernel_stack (processes (process_setup_stack p e s) ! q) = kernel_stack (processes s ! q)"
  by (simp add: process_setup_stack_def Let_def)

lemma ready_cong:
  "process_count s' = process_count s \<Longrightarrow> (\<And>p. kernel_stack (processes s' ! p) = kernel_stack (processes s ! p)) \<Longrightarrow> ready s' = ready s"
  by (simp add: ready_def)

lemma ready_create:
  assumes "sched_inv s ps"
  shows "ready (process_create e s) = (if gets_stack s then ready s @ [process_count s] else ready s)"
proof (cases "process_count s < MAX_PROCESSES")
  case False
  then show ?thesis by (simp add: process_create_def alloc_process_def gets_stack_def)
next
  case True
  let ?p = "process_count s"
  obtain ks h where k: "kmalloc PROCESS_STACK_SIZE (heap s) = (ks, h)" by fastforce
  have len: "length (processes s) = MAX_PROCESSES" using assms by (simp add: sched_inv_def)
  have r: "r < MAX_PROCESSES" if "run_list s = Some r" for r
  proof -
    from that assms have "r = last ps" "ps \<noteq> []" "\<forall>p \<in> set ps. p < ?p" by (auto simp: sched_inv_def split: if_splits)
    then have "r < ?p" by simp
    with True show ?thesis by simp
  qed
  have count: "process_count (process_create e s) = Suc ?p"
    using True k by (simp add: process_create_def alloc_process_def Let_def split: option.split)
  have stacks: "kernel_stack (processes (process_create e s) ! q) = (if q = ?p then ks else kernel_stack (processes s ! q))" for q
    using True k len r by (cases "run_list s") (simp_all add: process_create_def alloc_process_def Let_def)
  have "filter (\<lambda>q. kernel_stack (processes (process_create e s) ! q) \<noteq> None) [0..<?p]
      = filter (\<lambda>q. kernel_stack (processes s ! q) \<noteq> None) [0..<?p]"
    by (rule filter_cong) (simp_all add: stacks)
  then show ?thesis using True k by (simp add: ready_def count stacks gets_stack_def)
qed

lemma sched_inv_tick:
  assumes inv: "sched_inv s ps" and cur: "current_process s = Some (ps ! i)" and i: "i < length ps"
  defines "j \<equiv> Suc i mod length ps"
  shows "sched_inv (snd (scheduler_tick rsp s)) ps"
    and "current_process (snd (scheduler_tick rsp s)) = Some (ps ! j)"
    and "fst (scheduler_tick rsp s) = (if ps ! j = ps ! i then rsp else saved_rsp (processes s ! (ps ! j)))"
    and "p < MAX_PROCESSES \<Longrightarrow> saved_rsp (processes (snd (scheduler_tick rsp s)) ! p)
      = (if p = ps ! i then rsp else saved_rsp (processes s ! p))"
proof -
  let ?c = "ps ! i" and ?d = "ps ! j"
  have j: "j < length ps" using i unfolding j_def by (intro mod_less_divisor) linarith
  have mem: "?c \<in> set ps" "?d \<in> set ps" using i j by simp_all
  then have len: "?c < length (processes s)" "?d < length (processes s)"
    using inv by (auto simp: sched_inv_def)
  have nx: "pnext (processes s ! ?c) = Some ?d" unfolding j_def by (rule sched_inv_next [OF inv i])
  let ?s0 = "s\<lparr>timer_ms := timer_tick (timer_ms s)\<rparr>"
  let ?s1 = "upd ?c (\<lambda>q. q\<lparr>saved_rsp := rsp, pstate := PROC_RUNNABLE\<rparr>) ?s0"
  let ?s2 = "upd ?d (\<lambda>q. q\<lparr>pstate := PROC_RUNNING\<rparr>) (?s1\<lparr>current_process := Some ?d\<rparr>)"
  have eq: "scheduler_tick rsp s = (saved_rsp (processes ?s2 ! ?d), ?s2)"
    using cur nx len by (simp add: scheduler_tick_def Let_def)
  have same: "next_of ?s2 = next_of s" using len by (auto simp: next_of_def fun_eq_iff)
  have st: "states_ok (current_process s) (state_of s) ps" using inv by (simp add: sched_inv_def)
  have "states_ok (Some ?d) (state_of ?s2) ps"
    using st mem cur len by (auto simp: states_ok_def)
  then show "sched_inv (snd (scheduler_tick rsp s)) ps"
    using inv unfolding eq sched_inv_def snd_conv same by simp
  show "current_process (snd (scheduler_tick rsp s)) = Some ?d" unfolding eq by simp
  show "fst (scheduler_tick rsp s) = (if ?d = ?c then rsp else saved_rsp (processes s ! ?d))"
    unfolding eq using len by simp
  show "p < MAX_PROCESSES \<Longrightarrow> saved_rsp (processes (snd (scheduler_tick rsp s)) ! p)
      = (if p = ?c then rsp else saved_rsp (processes s ! p))"
    unfolding eq using len inv by (auto simp: sched_inv_def)
qed

lemma sched_inv_tick_none:
  assumes "sched_inv s ps" and "current_process s = None"
  shows "sched_inv (snd (scheduler_tick rsp s)) ps" and "fst (scheduler_tick rsp s) = rsp"
proof -
  have "next_of (s\<lparr>timer_ms := t\<rparr>) = next_of s" for t by (simp add: next_of_def fun_eq_iff)
  with assms show "sched_inv (snd (scheduler_tick rsp s)) ps" and "fst (scheduler_tick rsp s) = rsp"
    by (simp_all add: scheduler_tick_def sched_inv_def Let_def)
qed

lemma sched_inv_first_run:
  assumes "sched_inv s ps" and "current_process s = None"
  shows "sched_inv (snd (scheduler_first_run s)) ps"
proof (cases "ps = []")
  case True
  with assms show ?thesis by (simp add: scheduler_first_run_def sched_inv_def)
next
  case False
  let ?r = "last ps"
  let ?s = "upd ?r (\<lambda>q. q\<lparr>pstate := PROC_RUNNING\<rparr>) (s\<lparr>current_process := Some ?r\<rparr>)"
  have mem: "?r \<in> set ps" using False by simp
  then have len: "?r < length (processes s)" using assms(1) unfolding sched_inv_def by fastforce
  have eq: "snd (scheduler_first_run s) = ?s"
    using assms(1) False by (simp add: scheduler_first_run_def sched_inv_def Let_def)
  have "next_of ?s = next_of s" using len by (auto simp: next_of_def fun_eq_iff)
  moreover have "states_ok (Some ?r) (state_of ?s) ps"
    using assms mem len by (auto simp: states_ok_def sched_inv_def)
  ultimately show ?thesis using assms(1) unfolding eq sched_inv_def by simp
qed

lemma sched_inv_create_ready: "sched_inv s (ready s) \<Longrightarrow> sched_inv (process_create e s) (ready (process_create e s))"
  using sched_inv_create [of s "ready s" e] by (simp only: ready_create)

lemma sched_inv_init:
  assumes "length (processes s) = MAX_PROCESSES"
  shows "sched_inv (process_init idle s) (ready (process_init idle s))"
proof -
  let ?s = "s\<lparr>process_count := 0, current_process := None, run_list := None, next_pid := 1\<rparr>"
  have "ready ?s = []" by (simp add: ready_def)
  moreover have "sched_inv ?s []" using assms by (simp add: sched_inv_def states_ok_def)
  ultimately have "sched_inv ?s (ready ?s)" by simp
  from sched_inv_create_ready [OF this] show ?thesis by (simp add: process_init_def)
qed

lemma ready_tick: "sched_inv s ps \<Longrightarrow> ready (snd (scheduler_tick rsp s)) = ready s"
proof (cases "current_process s")
  case None
  then show ?thesis by (simp add: scheduler_tick_def ready_def Let_def)
next
  case (Some c)
  assume inv: "sched_inv s ps"
  with Some have "c \<in> set ps" by (simp add: sched_inv_def states_ok_def)
  then obtain i where i: "i < length ps" "c = ps ! i" by (auto simp: in_set_conv_nth)
  have nx: "pnext (processes s ! c) = Some (ps ! (Suc i mod length ps))" using sched_inv_next [OF inv i(1)] i(2) by simp
  have "Suc i mod length ps < length ps" using i(1) by (intro mod_less_divisor) linarith
  then have "ps ! (Suc i mod length ps) < length (processes s)" "c < length (processes s)"
    using inv i nth_mem by (fastforce simp: sched_inv_def)+
  with Some nx show ?thesis by (intro ready_cong) (simp_all add: scheduler_tick_def Let_def)
qed

lemma ready_first_run:
  assumes "sched_inv s ps"
  shows "ready (snd (scheduler_first_run s)) = ready s"
proof (cases "run_list s")
  case None
  then show ?thesis by (simp add: scheduler_first_run_def)
next
  case (Some r)
  with assms have "r \<in> set ps" by (auto simp: sched_inv_def split: if_splits)
  then have "r < length (processes s)" using assms by (fastforce simp: sched_inv_def)
  with Some show ?thesis by (intro ready_cong) (simp_all add: scheduler_first_run_def Let_def)
qed

section \<open>Runs\<close>

text \<open>The kernel: initialisation, then processes created, the first run once, and timer ticks.\<close>

inductive sched_reach :: "sched \<Rightarrow> bool" where
  init: "sched_reach (process_init idle (sched_boot h))"
| create: "sched_reach s \<Longrightarrow> sched_reach (process_create entry s)"
| first_run: "sched_reach s \<Longrightarrow> current_process s = None \<Longrightarrow> sched_reach (snd (scheduler_first_run s))"
| tick: "sched_reach s \<Longrightarrow> sched_reach (snd (scheduler_tick rsp s))"

lemma sched_reach_inv: "sched_reach s \<Longrightarrow> sched_inv s (ready s)"
proof (induction rule: sched_reach.induct)
  case (init idle h)
  show ?case by (rule sched_inv_init) (simp add: sched_boot_def)
next
  case (create s entry)
  then show ?case by (intro sched_inv_create_ready)
next
  case (first_run s)
  then show ?case using sched_inv_first_run ready_first_run by metis
next
  case (tick s rsp)
  note inv = tick.IH
  show ?case
  proof (cases "current_process s")
    case None
    with sched_inv_tick_none(1) [OF inv] ready_tick [OF inv] show ?thesis by simp
  next
    case (Some c)
    with inv have "c \<in> set (ready s)" by (simp add: sched_inv_def states_ok_def)
    then obtain i where "i < length (ready s)" "c = ready s ! i" by (auto simp: in_set_conv_nth)
    with sched_inv_tick(1) [OF inv] Some ready_tick [OF inv] show ?thesis by simp
  qed
qed

fun run_ticks :: "u64 list \<Rightarrow> sched \<Rightarrow> sched" where
  "run_ticks [] s = s"
| "run_ticks (rsp # rsps) s = run_ticks rsps (snd (scheduler_tick rsp s))"

lemma run_ticks_snoc: "run_ticks (rsps @ [r]) s = snd (scheduler_tick r (run_ticks rsps s))"
  by (induction rsps arbitrary: s) auto

lemma run_ticks_ring:
  assumes inv: "sched_inv s ps" and cur: "current_process s = Some (ps ! i)" and i: "i < length ps"
  shows "sched_inv (run_ticks rsps s) ps
    \<and> current_process (run_ticks rsps s) = Some (ps ! ((i + length rsps) mod length ps))"
proof (induction rsps rule: rev_induct)
  case Nil
  with assms show ?case by simp
next
  case (snoc r rsps)
  let ?k = "(i + length rsps) mod length ps"
  have k: "?k < length ps" using i by (intro mod_less_divisor) linarith
  from sched_inv_tick(1,2) [OF conjunct1 [OF snoc] conjunct2 [OF snoc] k, of r]
  show ?case by (simp add: run_ticks_snoc mod_Suc_eq)
qed

text \<open>During a round, the first process preempted keeps its stack pointer.\<close>

lemma round_keeps_rsp:
  assumes inv: "sched_inv s ps" and cur: "current_process s = Some (ps ! i)" and i: "i < length ps"
    and "length rsps < length ps" and "rsps \<noteq> []"
  shows "saved_rsp (processes (run_ticks rsps s) ! (ps ! i)) = hd rsps"
  using assms(4,5)
proof (induction rsps rule: rev_induct)
  case Nil
  then show ?case by simp
next
  case (snoc r rsps)
  let ?k = "(i + length rsps) mod length ps" and ?s = "run_ticks rsps s"
  have k: "?k < length ps" using i by (intro mod_less_divisor) linarith
  have pi: "ps ! i < MAX_PROCESSES" using inv i nth_mem [OF i] unfolding sched_inv_def by fastforce
  note ring = run_ticks_ring [OF inv cur i, of rsps]
  note tick = sched_inv_tick(4) [OF conjunct1 [OF ring] conjunct2 [OF ring] k pi, of r]
  show ?case
  proof (cases "rsps = []")
    case True
    with tick i show ?thesis by (simp add: run_ticks_snoc)
  next
    case False
    have "?k \<noteq> i"
    proof -
      have "0 < length rsps" "length rsps < length ps" using snoc.prems False by simp_all
      with i show ?thesis by (cases "i + length rsps < length ps") (simp_all add: le_mod_geq not_less)
    qed
    moreover have "distinct ps" using inv by (simp add: sched_inv_def)
    ultimately have "ps ! i \<noteq> ps ! ?k" using i k by (simp add: nth_eq_iff_index_eq)
    with tick snoc False show ?thesis by (simp add: run_ticks_snoc)
  qed
qed

section \<open>Properties\<close>

lemma current_in_ring:
  assumes "sched_inv s ps" and "current_process s = Some c"
  obtains i where "i < length ps" and "c = ps ! i"
  using assms by (auto simp: sched_inv_def states_ok_def in_set_conv_nth)

lemma ring_length:
  assumes "sched_inv s ps"
  shows "length ps \<le> MAX_PROCESSES"
proof -
  have "set ps \<subseteq> {..<MAX_PROCESSES}" and "distinct ps"
    using assms unfolding sched_inv_def by force+
  then show ?thesis using card_mono [of "{..<MAX_PROCESSES}" "set ps"] by (simp add: distinct_card)
qed

text \<open>
  In every state the kernel can reach, the runnable processes form one ring of distinct table
  entries closed at \<open>run_list\<close>, and the current process, if there is one, is in the ring and the
  only one marked running.
\<close>

theorem scheduler_ring_invariant:
  assumes "sched_reach s"
  shows "\<exists>ps. sched_inv s ps \<and> length ps \<le> MAX_PROCESSES"
  using sched_reach_inv [OF assms] ring_length by blast

theorem scheduler_ring_invariant_witness:
  "\<exists>ps. sched_inv (process_create 7 (process_init 5 (sched_boot (heap_init 4096 200000)))) ps
    \<and> length ps \<le> MAX_PROCESSES"
  by (rule scheduler_ring_invariant) (intro sched_reach.create sched_reach.init)

text \<open>
  C9: Scheduling is round robin over all processes. In every reachable state the cyclic order is the list of
  the table entries that got a stack when they were created, in the order of their creation, at most eight; a
  process created while the table and the heap have room is put at its end, and one that gets no
  stack is in no order. From a state with a current process every timer tick makes the next of this list
  current, so that each of its processes runs again within as many ticks as it has entries.
\<close>

theorem scheduler_round_robin:
  assumes "sched_reach s" and "current_process s = Some c"
  shows "ready (process_create e s) = (if gets_stack s then ready s @ [process_count s] else ready s)
    \<and> distinct (ready s) \<and> length (ready s) \<le> MAX_PROCESSES
    \<and> (\<exists>i < length (ready s). ready s ! i = c
        \<and> (\<forall>rsps. current_process (run_ticks rsps s) = Some (ready s ! ((i + length rsps) mod length (ready s)))))"
proof -
  have inv: "sched_inv s (ready s)" by (rule sched_reach_inv [OF assms(1)])
  from current_in_ring [OF inv assms(2)] obtain i where i: "i < length (ready s)" "c = ready s ! i" .
  from run_ticks_ring [OF inv] assms(2) i
  have "\<forall>rsps. current_process (run_ticks rsps s) = Some (ready s ! ((i + length rsps) mod length (ready s)))" by simp
  with i inv ring_length [OF inv] ready_create [OF inv] show ?thesis by (auto simp: sched_inv_def)
qed

definition two_procs :: sched where
  "two_procs = snd (scheduler_first_run (process_create 7 (process_init 5 (sched_boot (heap_init 4096 200000)))))"

lemma two_procs_reach: "sched_reach two_procs" "current_process two_procs = Some 1"
proof -
  let ?s = "process_create 7 (process_init 5 (sched_boot (heap_init 4096 200000)))"
  have c: "current_process ?s = None" "run_list ?s = Some 1"
    by (simp_all add: process_create_def process_init_def sched_boot_def alloc_process_def MAX_PROCESSES_def
        kmalloc_def heap_init_def align_up8_def PROCESS_STACK_SIZE_def Let_def)
  show "sched_reach two_procs" unfolding two_procs_def
    using c(1) by (intro sched_reach.first_run sched_reach.create sched_reach.init)
  show "current_process two_procs = Some 1" unfolding two_procs_def
    using c by (simp add: scheduler_first_run_def Let_def)
qed

lemma two_procs_ready: "ready two_procs = [0, 1]"
proof -
  let ?s = "process_create 7 (process_init 5 (sched_boot (heap_init 4096 200000)))"
  have "sched_reach ?s" by (intro sched_reach.create sched_reach.init)
  then have "ready two_procs = ready ?s"
    unfolding two_procs_def by (rule ready_first_run [OF sched_reach_inv])
  then show ?thesis
    by (simp add: ready_def process_create_def process_init_def sched_boot_def alloc_process_def MAX_PROCESSES_def
        kmalloc_def heap_init_def align_up8_def PROCESS_STACK_SIZE_def process_setup_stack_def upd_def Let_def)
qed

text \<open>Two processes: three ticks lead from the second to the first.\<close>

theorem scheduler_round_robin_witness: "current_process (run_ticks [10, 20, 30] two_procs) = Some 0"
proof -
  from scheduler_round_robin [OF two_procs_reach, of 0] obtain i where
    i: "i < length (ready two_procs)" "ready two_procs ! i = 1" and
    all: "\<forall>rsps. current_process (run_ticks rsps two_procs) = Some (ready two_procs ! ((i + length rsps) mod length (ready two_procs)))"
    by (elim exE conjE) (rule that)
  have "i = 1" using i by (cases i) (simp_all add: two_procs_ready)
  have m: "(1 + length [10, 20, 30 :: u64]) mod length [0, 1 :: nat] = 0" "[0, 1 :: nat] ! 0 = 0" by (simp_all add: mod_if)
  from all [THEN spec, of "[10, 20, 30]"] show ?thesis
    unfolding two_procs_ready \<open>i = 1\<close> m .
qed

text \<open>
  A process preempted by a tick gets its own stack pointer back: one round later, whatever the
  stack pointers of the processes in between, the tick that makes it current again returns the
  stack pointer it was preempted with.
\<close>

theorem preempted_process_resumes:
  assumes "sched_reach s" and "current_process s = Some c"
  shows "\<exists>n. 0 < n \<and> n \<le> MAX_PROCESSES \<and> (\<forall>rsps r. length rsps = n - 1 \<longrightarrow>
    scheduler_tick r (run_ticks rsps s) = (hd (rsps @ [r]), run_ticks (rsps @ [r]) s)
    \<and> current_process (run_ticks (rsps @ [r]) s) = Some c)"
proof -
  obtain ps where inv: "sched_inv s ps" using sched_reach_inv [OF assms(1)] by blast
  from current_in_ring [OF inv assms(2)] obtain i where i: "i < length ps" "c = ps ! i" .
  have cur: "current_process s = Some (ps ! i)" using assms(2) i(2) by simp
  let ?n = "length ps"
  have "scheduler_tick r (run_ticks rsps s) = (hd (rsps @ [r]), run_ticks (rsps @ [r]) s)
    \<and> current_process (run_ticks (rsps @ [r]) s) = Some c" if len: "length rsps = ?n - 1" for rsps r
  proof -
    let ?k = "(i + length rsps) mod ?n" and ?s = "run_ticks rsps s"
    have k: "?k < ?n" using i by (intro mod_less_divisor) linarith
    have "Suc (i + length rsps) = i + ?n" using i len by simp
    then have k': "Suc ?k mod ?n = i" using i(1) by (simp only: mod_Suc_eq) simp
    note ring = run_ticks_ring [OF inv cur i(1), of rsps]
    note tick = sched_inv_tick(2,3) [OF conjunct1 [OF ring] conjunct2 [OF ring] k, of r, unfolded k']
    have "fst (scheduler_tick r ?s) = hd (rsps @ [r])"
    proof (cases "rsps = []")
      case True
      with tick(2) i len show ?thesis by simp
    next
      case False
      then have "0 < length rsps" by simp
      moreover have "length rsps < ?n" using len i(1) by linarith
      ultimately have "0 < length rsps" "length rsps < ?n" .
      then have "?k \<noteq> i" using i len by (cases "i = 0") (simp_all add: le_mod_geq)
      then have "ps ! i \<noteq> ps ! ?k" using inv i k by (simp add: sched_inv_def nth_eq_iff_index_eq)
      with tick(2) round_keeps_rsp [OF inv cur i(1) \<open>length rsps < ?n\<close> False] False show ?thesis by simp
    qed
    with tick(1) i(2) show ?thesis by (simp add: run_ticks_snoc prod_eq_iff)
  qed
  with i(1) ring_length [OF inv] show ?thesis by (intro exI [of _ ?n]) auto
qed

theorem preempted_process_resumes_witness:
  "\<exists>n. 0 < n \<and> n \<le> MAX_PROCESSES
    \<and> fst (scheduler_tick 5 (run_ticks (replicate (n - 1) 9) two_procs)) = hd (replicate (n - 1) 9 @ [5])"
proof -
  from preempted_process_resumes [OF two_procs_reach] obtain n where n: "0 < n" "n \<le> MAX_PROCESSES" and
    all: "\<forall>rsps r. length rsps = n - 1 \<longrightarrow>
      scheduler_tick r (run_ticks rsps two_procs) = (hd (rsps @ [r]), run_ticks (rsps @ [r]) two_procs)
      \<and> current_process (run_ticks (rsps @ [r]) two_procs) = Some 1"
    by (elim exE conjE) (rule that)
  from all [rule_format, of "replicate (n - 1) 9" 5]
  have "fst (scheduler_tick 5 (run_ticks (replicate (n - 1) 9) two_procs)) = hd (replicate (n - 1) 9 @ [5])"
    by (simp del: run_ticks.simps)
  with n show ?thesis by (intro exI conjI)
qed

lemma replicate_15: "replicate 15 (0 :: u64) = [0, 0, 0, 0, 0, 0, 0, 0, 0, 0, 0, 0, 0, 0, 0]"
  by (simp add: numeral_eq_Suc)

lemma stack_stores:
  "store_words (t - 120) (replicate 15 0)
     (m(t - 128 := 32, t - 136 := e, t - 144 := 8, t - 152 := 514, t - 160 := 0, t - 168 := 16))
     (t + 8) = m (t + 8)"
  "store_words (t - 120) (replicate 15 0)
     (m(t - 128 := 32, t - 136 := e, t - 144 := 8, t - 152 := 514, t - 160 := 0, t - 168 := 16))
     (t - 136) = (e :: u64)"
  for t :: u64
  by (simp_all add: replicate_15)

text \<open>
  C40: The frame \<open>process_create\<close> builds does not match what \<open>context_switch_to\<close> pops. The saved
  stack pointer is 120 bytes below the top of the stack, the entry point is stored 16 bytes below
  it, and the instruction pointer is loaded from 8 bytes above the top, where nothing was stored:
  a process that has never run does not start at its entry point.
\<close>

theorem new_process_frame_mismatch:
  fixes stack_top :: u64
  assumes "p < length (processes s)" and "kernel_stack (processes s ! p) = Some ks"
    and "stack_top = (ks + PROCESS_STACK_SIZE) AND NOT (STACK_ALIGN - 1)"
    and "s' = process_setup_stack p entry s" and "rsp = saved_rsp (processes s' ! p)"
  shows "rsp = stack_top - 120 \<and> stk s' (rsp - 16) = entry \<and> resume_slot rsp = stack_top + 8
    \<and> resume_rip rsp s' = stk s (stack_top + 8)"
proof -
  have rsp: "rsp = stack_top - 120"
    using assms by (simp add: process_setup_stack_def Let_def)
  have stk: "stk s' = store_words (stack_top - 120) (replicate 15 0)
     ((stk s)(stack_top - 128 := 32, stack_top - 136 := entry, stack_top - 144 := 8,
        stack_top - 152 := 514, stack_top - 160 := 0, stack_top - 168 := 16))"
    using assms by (simp add: process_setup_stack_def Let_def)
  show ?thesis unfolding rsp stk resume_rip_def resume_slot_def by (simp add: stack_stores)
qed

theorem new_process_frame_mismatch_witness:
  "\<exists>s rsp. s = process_setup_stack 0 7 (upd 0 (\<lambda>q. q\<lparr>kernel_stack := Some 4096\<rparr>) (sched_boot (heap_init 4096 200000)))
    \<and> rsp = saved_rsp (processes s ! 0) \<and> stk s (rsp - 16) = 7 \<and> resume_rip rsp s = 0"
proof -
  let ?s = "upd 0 (\<lambda>q. q\<lparr>kernel_stack := Some 4096\<rparr>) (sched_boot (heap_init 4096 200000))"
  have "0 < length (processes ?s)" "kernel_stack (processes ?s ! 0) = Some 4096" "stk ?s = (\<lambda>_. 0)"
    by (simp_all add: sched_boot_def MAX_PROCESSES_def)
  with new_process_frame_mismatch [of 0 ?s 4096, OF _ _ refl refl refl, of 7] show ?thesis by auto
qed

end
