(* ===== verification/Netsum.thy ===== *)
theory Netsum
  imports Kprelude
begin

text \<open>
  The two Internet checksums of the network stack: \<open>net_checksum16\<close> of
  \<^verbatim>\<open>src/kernel/net/net_checksum.c\<close>, which loads 16-bit words the way the (little endian)
  machine does, and \<open>tcp_cksum\<close> of \<^verbatim>\<open>src/kernel/net/net_tcp.c\<close>, which composes them most
  significant byte first. Sums are kept on \<open>u32\<close> as in the code; the lemmas read them as
  naturals, where folding the carries is reduction modulo 65535 that avoids 0.
\<close>

section \<open>The code\<close>

text \<open>\<open>while (sum >> 16) sum = (sum & 0xFFFF) + (sum >> 16)\<close>\<close>

function ck_fold :: "u32 \<Rightarrow> u32" where
  "ck_fold s = (if drop_bit 16 s \<noteq> 0 then ck_fold ((s AND 0xFFFF) + drop_bit 16 s) else s)"
  by pat_completeness auto

lemma unat_fold_step:
  "unat ((s AND 0xFFFF) + drop_bit 16 s :: u32) = unat s mod 65536 + unat s div 65536"
proof -
  have "unat s mod 65536 + unat s div 65536 < 4294967296"
    using unat_less_32 [of s] by arith
  then show ?thesis by (simp add: unat_word_ariths unat_and_mask16)
qed

lemma drop_bit_16_0_iff: "drop_bit 16 (s :: u32) = 0 \<longleftrightarrow> unat s < 65536"
proof -
  have "unat (drop_bit 16 s) = unat s div 65536" by (simp add: drop_bit_eq_div unat_div)
  moreover have "drop_bit 16 s = 0 \<longleftrightarrow> unat (drop_bit 16 s) = 0" by (simp only: unat_eq_0)
  ultimately show ?thesis by (simp only: div_eq_0_iff) simp
qed

termination ck_fold
proof (relation "measure unat")
  show "wf (measure unat)" by simp
next
  fix s :: u32 assume "drop_bit 16 s \<noteq> 0"
  then have "65536 \<le> unat s" by (simp add: drop_bit_16_0_iff)
  then have "unat s div 65536 * 65536 + unat s mod 65536 = unat s" and "0 < unat s div 65536"
    by (simp_all add: div_greater_zero_iff)
  then have "unat s mod 65536 + unat s div 65536 < unat s" by linarith
  then show "((s AND 0xFFFF) + drop_bit 16 s, s) \<in> measure unat"
    by (simp only: in_measure unat_fold_step)
qed

declare ck_fold.simps [simp del]

text \<open>The words \<open>*p++\<close> loads, and a last odd byte, which goes to the upper half.\<close>

fun ck_words :: "u8 list \<Rightarrow> u32 \<Rightarrow> u32" where
  "ck_words (a # b # bs) s = ck_words bs (s + ucast (of_le16 a b))"
| "ck_words [a] s = s + push_bit 8 (ucast a)"
| "ck_words [] s = s"

definition net_checksum16 :: "u8 list \<Rightarrow> u16" where
  "net_checksum16 data = ucast (NOT (ck_fold (ck_words data 0)) AND 0xFFFF)"

fun tcp_words :: "u8 list \<Rightarrow> u32 \<Rightarrow> u32" where
  "tcp_words (a # b # bs) s = tcp_words bs (s + ucast (of_be16 a b))"
| "tcp_words [a] s = s + push_bit 8 (ucast a)"
| "tcp_words [] s = s"

definition tcp_cksum :: "u32 \<Rightarrow> u32 \<Rightarrow> u8 list \<Rightarrow> u16" where
  "tcp_cksum saddr daddr tcp =
     (let s = drop_bit 16 saddr + (saddr AND 0xFFFF);
          s = s + (drop_bit 16 daddr + (daddr AND 0xFFFF));
          s = s + 6;
          s = s + ucast (of_nat (length tcp) :: u16)
      in NOT (ucast (ck_fold (tcp_words tcp s))))"

section \<open>Folding as arithmetic\<close>

text \<open>Folding keeps the residue modulo 65535 and yields 0 only for 0.\<close>

definition fold_nat :: "nat \<Rightarrow> nat" where
  "fold_nat n = (if n = 0 then 0 else (n - 1) mod 65535 + 1)"

lemma fold_nat_small: "n < 65536 \<Longrightarrow> fold_nat n = n"
  by (auto simp: fold_nat_def)

lemma fold_nat_bound: "fold_nat n \<le> 65535"
  by (simp add: fold_nat_def Suc_le_eq)

lemma fold_nat_step:
  assumes "65536 \<le> n"
  shows "fold_nat (n mod 65536 + n div 65536) = fold_nat n"
proof -
  let ?m = "n mod 65536 + n div 65536"
  have n: "n = ?m + n div 65536 * 65535"
    using div_mult_mod_eq [of n 65536] by linarith
  have "0 < n div 65536" using assms by (simp add: div_greater_zero_iff)
  then have pos: "0 < ?m" by simp
  with n have "n - 1 = (?m - 1) + n div 65536 * 65535" by linarith
  then have "(n - 1) mod 65535 = (?m - 1) mod 65535" by (simp only: mod_mult_self1)
  with pos assms show ?thesis by (simp add: fold_nat_def)
qed

lemma unat_ck_fold: "unat (ck_fold s) = fold_nat (unat s)"
proof (induction s rule: ck_fold.induct)
  case (1 s)
  show ?case
  proof (cases "unat s < 65536")
    case True
    then show ?thesis by (simp add: ck_fold.simps [of s] drop_bit_16_0_iff fold_nat_small)
  next
    case False
    then have "drop_bit 16 s \<noteq> 0" by (simp add: drop_bit_16_0_iff)
    with 1 False show ?thesis by (simp add: ck_fold.simps [of s] unat_fold_step fold_nat_step)
  qed
qed

text \<open>Adding the complement of a folded sum to that sum folds to all ones.\<close>

lemma fold_nat_complement: "fold_nat (n + (65535 - fold_nat n)) = 65535"
proof (cases "n = 0")
  case True
  then show ?thesis by (simp add: fold_nat_def)
next
  case False
  then obtain m where m: "n = Suc m" by (cases n) auto
  obtain q k where qk: "m = q * 65535 + k" "k < 65535"
    using div_mult_mod_eq [of m 65535] by (metis mod_less_divisor zero_less_numeral)
  then have "fold_nat n = k + 1" by (simp add: m fold_nat_def)
  then have "n + (65535 - fold_nat n) = Suc (q * 65535 + 65534)"
    using qk by (simp add: m)
  then show ?thesis by (simp add: fold_nat_def mod_add_eq)
qed

lemma fold_nat_65535_iff: "fold_nat n = 65535 \<longleftrightarrow> 0 < n \<and> 65535 dvd n"
proof (cases n)
  case 0
  then show ?thesis by (simp add: fold_nat_def)
next
  case (Suc m)
  have "m mod 65535 = 65534 \<longleftrightarrow> Suc m mod 65535 = 0"
    using mod_Suc [of m 65535] by auto
  with Suc show ?thesis by (auto simp: fold_nat_def dvd_eq_mod_eq_0)
qed

section \<open>Sums as arithmetic\<close>

fun be_sum :: "u8 list \<Rightarrow> nat" where
  "be_sum (a # b # bs) = 256 * unat a + unat b + be_sum bs"
| "be_sum [a] = 256 * unat a"
| "be_sum [] = 0"

fun le_sum :: "u8 list \<Rightarrow> nat" where
  "le_sum (a # b # bs) = unat a + 256 * unat b + le_sum bs"
| "le_sum [a] = 256 * unat a"
| "le_sum [] = 0"

lemma unat_of_be16: "unat (of_be16 a b) = 256 * unat a + unat b"
proof -
  have "of_be16 a b = push_bit 8 (ucast a) + ucast b"
    unfolding of_be16_def
    by (rule disjunctive_add [symmetric]) (auto simp: bit_simps dest: bit_imp_le_length)
  moreover have "256 * unat a + unat b < 65536" using unat_less_8 [of a] unat_less_8 [of b] by simp
  ultimately show ?thesis
    by (simp add: unat_word_ariths push_bit_eq_mult mult.commute)
qed

lemma of_le16_be16: "of_le16 a b = of_be16 b a"
  by (simp add: of_le16_def of_be16_def or.commute)

lemma unat_of_le16: "unat (of_le16 a b) = unat a + 256 * unat b"
  by (simp add: of_le16_be16 unat_of_be16)

lemma be_sum_bound: "be_sum bs \<le> 65535 * length bs"
proof (induction bs rule: be_sum.induct)
  case (1 a b bs)
  then show ?case using unat_less_8 [of a] unat_less_8 [of b] by simp
next
  case (2 a)
  then show ?case using unat_less_8 [of a] by simp
qed simp

lemma le_sum_bound: "le_sum bs \<le> 65535 * length bs"
proof (induction bs rule: le_sum.induct)
  case (1 a b bs)
  then show ?case using unat_less_8 [of a] unat_less_8 [of b] by simp
next
  case (2 a)
  then show ?case using unat_less_8 [of a] by simp
qed simp

text \<open>The loops compute these sums, as long as 32 bits hold them.\<close>

lemma unat_add_no_wrap: "unat (x :: u32) + n < 4294967296 \<Longrightarrow> n = unat y \<Longrightarrow> unat (x + y) = unat x + n"
  by (simp add: unat_word_ariths)

lemma unat_push_bit_8: "unat (push_bit 8 (ucast (a :: u8)) :: u32) = 256 * unat a"
  using unat_less_8 [of a] by (simp add: push_bit_eq_mult unat_word_ariths)

lemma unat_tcp_words:
  "unat s + be_sum bs < 4294967296 \<Longrightarrow> unat (tcp_words bs s) = unat s + be_sum bs"
proof (induction bs s rule: tcp_words.induct)
  case (1 a b bs s)
  have "unat (s + ucast (of_be16 a b)) = unat s + (256 * unat a + unat b)"
    using 1(2) by (intro unat_add_no_wrap) (simp_all add: unat_of_be16)
  with 1 show ?case by simp
next
  case (2 a s)
  then show ?case by (simp add: unat_add_no_wrap [OF _ unat_push_bit_8 [symmetric]])
qed simp

lemma unat_ck_words:
  "unat s + le_sum bs < 4294967296 \<Longrightarrow> unat (ck_words bs s) = unat s + le_sum bs"
proof (induction bs s rule: ck_words.induct)
  case (1 a b bs s)
  have "unat (s + ucast (of_le16 a b)) = unat s + (unat a + 256 * unat b)"
    using 1(2) by (intro unat_add_no_wrap) (simp_all add: unat_of_le16)
  with 1 show ?case by simp
next
  case (2 a s)
  then show ?case by (simp add: unat_add_no_wrap [OF _ unat_push_bit_8 [symmetric]])
qed simp

text \<open>The complement at 16 bits.\<close>

definition pseudo_sum :: "u32 \<Rightarrow> u32 \<Rightarrow> nat \<Rightarrow> nat" where
  "pseudo_sum saddr daddr len =
     unat saddr div 65536 + unat saddr mod 65536 + (unat daddr div 65536 + unat daddr mod 65536)
     + 6 + len mod 65536"

lemma pseudo_sum_bound: "pseudo_sum saddr daddr len < 327690"
proof -
  have d: "unat a div 65536 < 65536" for a :: u32 using unat_less_32 [of a] by arith
  have "x mod 65536 < 65536" for x :: nat by simp
  from d [of saddr] d [of daddr] this [of "unat saddr"] this [of "unat daddr"] this [of len]
  show ?thesis by (simp add: pseudo_sum_def)
qed

theorem unat_tcp_cksum:
  assumes "length tcp \<le> 4096"
  shows "unat (tcp_cksum saddr daddr tcp)
    = 65535 - fold_nat (pseudo_sum saddr daddr (length tcp) + be_sum tcp)"
proof -
  let ?s = "drop_bit 16 saddr + (saddr AND 0xFFFF) + (drop_bit 16 daddr + (daddr AND 0xFFFF)) + 6
    + (ucast (of_nat (length tcp) :: u16) :: u32)"
  let ?p = "pseudo_sum saddr daddr (length tcp)"
  have small: "unat a div 65536 + unat a mod 65536 < 131071" for a :: u32
  proof -
    have "unat a div 65536 < 65536" using unat_less_32 [of a] by arith
    moreover have "unat a mod 65536 < 65536" by simp
    ultimately show ?thesis by linarith
  qed
  have p: "unat ?s = ?p"
    using small [of saddr] small [of daddr] assms
    by (simp add: unat_word_ariths unat_and_mask16 pseudo_sum_def unsigned_of_nat take_bit_eq_mod)
  have "be_sum tcp \<le> 65535 * length tcp" by (rule be_sum_bound)
  also have "\<dots> \<le> 65535 * 4096" using assms by (rule mult_le_mono2)
  finally have "?p + be_sum tcp < 4294967296"
    using pseudo_sum_bound [of saddr daddr "length tcp"] by simp
  with p have "unat (ck_fold (tcp_words tcp ?s)) = fold_nat (?p + be_sum tcp)"
    by (simp only: unat_ck_fold unat_tcp_words)
  moreover have "tcp_cksum saddr daddr tcp = NOT (ucast (ck_fold (tcp_words tcp ?s)))"
    by (simp add: tcp_cksum_def Let_def)
  ultimately show ?thesis
    using fold_nat_bound [of "?p + be_sum tcp"] by (simp add: unat_not16)
qed

theorem unat_net_checksum16:
  assumes "length data \<le> 65535"
  shows "unat (net_checksum16 data) = 65535 - fold_nat (le_sum data)"
proof -
  have "le_sum data \<le> 65535 * length data" by (rule le_sum_bound)
  also have "\<dots> \<le> 65535 * 65535" using assms by (rule mult_le_mono2)
  finally have "unat (ck_fold (ck_words data 0)) = fold_nat (le_sum data)"
    by (simp add: unat_ck_fold unat_ck_words)
  then show ?thesis
    using fold_nat_bound [of "le_sum data"]
    by (simp add: net_checksum16_def ucast16_not_and unat_not16)
qed

section \<open>The check of a receiver\<close>

lemma be_sum_append: "even (length xs) \<Longrightarrow> be_sum (xs @ ys) = be_sum xs + be_sum ys"
  by (induction xs rule: be_sum.induct) auto

lemma le_sum_append: "even (length xs) \<Longrightarrow> le_sum (xs @ ys) = le_sum xs + le_sum ys"
  by (induction xs rule: le_sum.induct) auto

lemma be_sum_field: "be_sum (be16 c @ post) = unat c + be_sum post"
  using unat_of_be16 [of "ucast (drop_bit 8 c)" "ucast c"] by (simp add: be16_def)

lemma le_sum_field: "le_sum (le16 c @ post) = unat c + le_sum post"
  using unat_of_le16 [of "ucast c" "ucast (drop_bit 8 c)"] by (simp add: le16_def)

text \<open>The word with its two bytes exchanged, which storing high byte first stands for.\<close>

definition bswap16 :: "u16 \<Rightarrow> u16" where
  "bswap16 c = of_be16 (ucast c) (ucast (drop_bit 8 c))"

lemma le_sum_swapped: "le_sum (be16 c @ post) = unat (bswap16 c) + le_sum post"
  by (simp add: be16_def bswap16_def unat_of_be16)

lemma tcp_cksum_field_verifies:
  assumes "even (length pre)" and "length pre + length post \<le> 4094"
  shows "tcp_cksum src dst (pre @ be16 (tcp_cksum src dst (pre @ [0, 0] @ post)) @ post) = 0"
proof -
  let ?c = "tcp_cksum src dst (pre @ [0, 0] @ post)"
  let ?n = "pseudo_sum src dst (length pre + 2 + length post) + (be_sum pre + be_sum post)"
  have "unat ?c = 65535 - fold_nat ?n"
    using assms by (simp add: unat_tcp_cksum be_sum_append add.assoc)
  then have "unat (tcp_cksum src dst (pre @ be16 ?c @ post)) = 65535 - fold_nat (?n + (65535 - fold_nat ?n))"
    using assms by (simp add: unat_tcp_cksum be_sum_append be_sum_field ac_simps)
  then have "unat (tcp_cksum src dst (pre @ be16 ?c @ post)) = 0" by (simp add: fold_nat_complement)
  then show ?thesis by (simp only: unat_eq_0)
qed

lemma net_checksum16_field_verifies:
  assumes "even (length pre)" and "length pre + length post \<le> 4094"
  shows "net_checksum16 (pre @ le16 (net_checksum16 (pre @ [0, 0] @ post)) @ post) = 0"
proof -
  let ?c = "net_checksum16 (pre @ [0, 0] @ post)"
  let ?n = "le_sum pre + le_sum post"
  have "unat ?c = 65535 - fold_nat ?n"
    using assms by (simp add: unat_net_checksum16 le_sum_append)
  then have "unat (net_checksum16 (pre @ le16 ?c @ post)) = 65535 - fold_nat (?n + (65535 - fold_nat ?n))"
    using assms by (simp add: unat_net_checksum16 le_sum_append le_sum_field ac_simps)
  then have "unat (net_checksum16 (pre @ le16 ?c @ post)) = 0" by (simp add: fold_nat_complement)
  then show ?thesis by (simp only: unat_eq_0)
qed

lemma unat_bswap16: "unat (bswap16 c) = 256 * (unat c mod 256) + unat c div 256"
  using unat_less_16 [of c]
  by (simp add: bswap16_def unat_of_be16 unsigned_ucast_eq take_bit_eq_mod)

lemma dvd_sum_iff_same_mod:
  fixes n x y :: nat
  assumes "k dvd n + y"
  shows "k dvd n + x \<longleftrightarrow> x mod k = y mod k"
proof -
  have "k dvd n + x \<longleftrightarrow> int k dvd (int n + int x) - (int n + int y)"
    using assms by (metis dvd_diff int_dvd_int_iff int_plus dvd_add_right_iff diff_add_cancel)
  also have "\<dots> \<longleftrightarrow> int k dvd int x - int y" by simp
  finally show ?thesis by (metis mod_eq_dvd_iff of_nat_eq_iff zmod_int)
qed

text \<open>A word and its swapped form agree modulo 65535 only if both bytes are equal.\<close>

lemma bswap16_same_mod_iff: "unat (bswap16 c) mod 65535 = unat c mod 65535 \<longleftrightarrow> bswap16 c = c"
proof
  assume mod: "unat (bswap16 c) mod 65535 = unat c mod 65535"
  define h l where "h = unat c div 256" and "l = unat c mod 256"
  have c: "unat c = 256 * h + l" and b: "h < 256" "l < 256"
    using unat_less_16 [of c] by (simp_all add: h_def l_def less_mult_imp_div_less)
  have s: "unat (bswap16 c) = 256 * l + h" by (simp add: unat_bswap16 h_def l_def)
  from mod have "(256 * int l + int h) mod 65535 = (256 * int h + int l) mod 65535"
    unfolding s c by (metis of_nat_add of_nat_mult of_nat_numeral zmod_int)
  then have "65535 dvd (256 * int l + int h) - (256 * int h + int l)" by (simp only: mod_eq_dvd_iff)
  then have "255 * 257 dvd 255 * (int l - int h)" by (simp add: algebra_simps)
  then have "257 dvd int l - int h"
    by (subst (asm) dvd_mult_cancel_left) simp
  moreover have "\<bar>int l - int h\<bar> < 257" using b by simp
  ultimately have "int l = int h" by (metis abs_of_nonneg dvd_imp_le_int abs_numeral eq_iff_diff_eq_0 not_less)
  then have "unat (bswap16 c) = unat c" by (simp add: s c)
  then show "bswap16 c = c" by (simp only: word_unat_eq_iff)
qed simp

lemma net_checksum16_swapped_verifies_iff:
  assumes "even (length pre)" and "length pre + length post \<le> 4094" and "0 < le_sum pre + le_sum post"
  shows "net_checksum16 (pre @ be16 (net_checksum16 (pre @ [0, 0] @ post)) @ post) = 0
    \<longleftrightarrow> bswap16 (net_checksum16 (pre @ [0, 0] @ post)) = net_checksum16 (pre @ [0, 0] @ post)"
proof -
  let ?c = "net_checksum16 (pre @ [0, 0] @ post)"
  let ?n = "le_sum pre + le_sum post"
  have c: "unat ?c = 65535 - fold_nat ?n"
    using assms by (simp add: unat_net_checksum16 le_sum_append)
  have s: "unat (net_checksum16 (pre @ be16 ?c @ post)) = 65535 - fold_nat (?n + unat (bswap16 ?c))"
    using assms by (simp add: unat_net_checksum16 le_sum_append le_sum_swapped ac_simps)
  have n: "65535 dvd ?n + unat ?c"
    using fold_nat_complement [of ?n] unfolding c fold_nat_65535_iff by blast
  have "net_checksum16 (pre @ be16 ?c @ post) = 0 \<longleftrightarrow> 65535 dvd ?n + unat (bswap16 ?c)"
  proof -
    have "net_checksum16 (pre @ be16 ?c @ post) = 0 \<longleftrightarrow> unat (net_checksum16 (pre @ be16 ?c @ post)) = 0"
      by (simp only: unat_eq_0)
    also have "\<dots> \<longleftrightarrow> fold_nat (?n + unat (bswap16 ?c)) = 65535"
      using fold_nat_bound [of "?n + unat (bswap16 ?c)"] unfolding s by arith
    finally show ?thesis using assms(3) by (simp only: fold_nat_65535_iff) simp
  qed
  also have "\<dots> \<longleftrightarrow> unat (bswap16 ?c) mod 65535 = unat ?c mod 65535"
    using n by (rule dvd_sum_iff_same_mod)
  also have "\<dots> \<longleftrightarrow> bswap16 ?c = ?c" by (rule bswap16_same_mod_iff)
  finally show ?thesis .
qed

end
