(* ===== verification/Netstack.thy ===== *)
theory Netstack
  imports Netsum Loopback
begin

text \<open>
  The network stack over the loopback interface: IPv4 and ICMP
  (\<^verbatim>\<open>src/kernel/net/net_ipv4.c\<close>), TCP (\<^verbatim>\<open>src/kernel/net/net_tcp.c\<close>) and the glue with
  \<open>net_poll\<close>, ping and the HTTP client (\<^verbatim>\<open>src/kernel/net/net.c\<close>). The state is one record:
  the two connection control blocks, the loopback ring and the count of echo replies. A packet is
  the list of its bytes; its length is the \<open>len\<close> argument of the C functions.
  \<open>net_poll\<close> is a loop without a bound and so a \<open>partial_function\<close>: \<open>None\<close> is a poll that
  never returns. \<open>None\<close> in \<open>tcp_send_data\<close> is a write past the segment buffer.
\<close>

section \<open>State\<close>

datatype tcp_state = ST_CLOSED | ST_LISTEN | ST_SYN_SENT | ST_SYN_RCVD | ST_ESTABLISHED

record tcb =
  tcp_st :: tcp_state
  local_port :: u16
  remote_ip :: u32
  remote_port :: u16
  snd_una :: u32
  snd_nxt :: u32
  iss :: u32
  rcv_nxt :: u32
  tcp_rx :: "u8 list"
  rx_len :: nat

record net =
  srv :: tcb
  cli :: tcb
  lo :: loopback
  icmp_echo_reply_rx :: nat

definition TCP_FIN :: u8 where "TCP_FIN = 1"
definition TCP_SYN :: u8 where "TCP_SYN = 2"
definition TCP_RST :: u8 where "TCP_RST = 4"
definition TCP_PSH :: u8 where "TCP_PSH = 8"
definition TCP_ACK :: u8 where "TCP_ACK = 0x10"
definition SRV_PORT :: u16 where "SRV_PORT = 80"
definition CLI_PORT :: u16 where "CLI_PORT = 49152"
definition NET_IPV4_LOOPBACK :: u32 where "NET_IPV4_LOOPBACK = 0x7F000001"
definition IP_PROTO_ICMP :: u8 where "IP_PROTO_ICMP = 1"
definition IP_PROTO_TCP :: u8 where "IP_PROTO_TCP = 6"
definition ICMP_ECHO_REPLY :: u8 where "ICMP_ECHO_REPLY = 0"
definition ICMP_ECHO :: u8 where "ICMP_ECHO = 8"
definition RX_SIZE :: nat where "RX_SIZE = 4096"

definition tcb_boot :: tcb where
  "tcb_boot = \<lparr>tcp_st = ST_CLOSED, local_port = 0, remote_ip = 0, remote_port = 0, snd_una = 0,
     snd_nxt = 0, iss = 0, rcv_nxt = 0, tcp_rx = replicate RX_SIZE 0, rx_len = 0\<rparr>"

definition net_boot :: net where
  "net_boot = \<lparr>srv = tcb_boot, cli = tcb_boot, lo = loopback_boot, icmp_echo_reply_rx = 0\<rparr>"

section \<open>IPv4 and ICMP\<close>

definition rd_ip4 :: "u8 list \<Rightarrow> nat \<Rightarrow> u32" where
  "rd_ip4 p i = of_be32 (p ! i) (p ! (i + 1)) (p ! (i + 2)) (p ! (i + 3))"

text \<open>The twenty header bytes, with the checksum field still zero.\<close>

definition ipv4_header :: "nat \<Rightarrow> u8 \<Rightarrow> u32 \<Rightarrow> u32 \<Rightarrow> u8 list" where
  "ipv4_header tot proto src dst =
     [0x45, 0] @ be16 (of_nat tot) @ [0, 0, 0, 0, 64, proto, 0, 0] @ be32 src @ be32 dst"

text \<open>The checksum of the header goes into bytes 10 and 11, high byte first.\<close>

definition ipv4_finish :: "u8 list \<Rightarrow> u8 list" where
  "ipv4_finish pkt = blit pkt 10 (be16 (net_checksum16 (take 20 pkt)))"

definition ipv4_output :: "u8 \<Rightarrow> u32 \<Rightarrow> u32 \<Rightarrow> u8 list \<Rightarrow> net \<Rightarrow> net" where
  "ipv4_output proto src dst payload n =
     (let tot = 20 + length payload in
      if tot > 2048 then n
      else n\<lparr>lo := loopback_xmit (ipv4_finish (ipv4_header tot proto src dst @ payload))
               (int tot) (lo n)\<rparr>)"

text \<open>The message of an echo reply: the request with the type changed and the checksum renewed.\<close>

definition icmp_reply :: "u8 list \<Rightarrow> u8 list" where
  "icmp_reply icmp =
     (let body = icmp[0 := ICMP_ECHO_REPLY, 2 := 0, 3 := 0]
      in blit body 2 (be16 (net_checksum16 body)))"

definition icmp_input :: "u8 list \<Rightarrow> nat \<Rightarrow> net \<Rightarrow> net" where
  "icmp_input ip ip_hdr_len n =
     (let iplen = length ip in
      if iplen < ip_hdr_len + 8 then n
      else let icmp = drop ip_hdr_len ip in
        if icmp ! 0 = ICMP_ECHO_REPLY
        then n\<lparr>icmp_echo_reply_rx := icmp_echo_reply_rx n + 1\<rparr>
        else if icmp ! 0 \<noteq> ICMP_ECHO then n
        else let icmp_len = iplen - ip_hdr_len in
          if 576 < 20 + icmp_len then n
          else let out = ipv4_header (20 + icmp_len) IP_PROTO_ICMP (rd_ip4 ip 16) (rd_ip4 ip 12)
                         @ icmp_reply icmp
            in n\<lparr>lo := loopback_xmit (ipv4_finish out) (int (20 + icmp_len)) (lo n)\<rparr>)"

definition icmp_send_echo_request :: "u32 \<Rightarrow> net \<Rightarrow> net" where
  "icmp_send_echo_request dst n =
     (let icmp = [ICMP_ECHO, 0, 0, 0, 0x12, 0x34, 0, 1];
          icmp = blit icmp 2 (be16 (net_checksum16 icmp))
      in ipv4_output IP_PROTO_ICMP dst dst icmp n)"

section \<open>TCP\<close>

definition rd16 :: "u8 list \<Rightarrow> nat \<Rightarrow> u16" where
  "rd16 p i = of_be16 (p ! i) (p ! (i + 1))"

definition tcp_header :: "u16 \<Rightarrow> u16 \<Rightarrow> u32 \<Rightarrow> u32 \<Rightarrow> u8 \<Rightarrow> u8 list" where
  "tcp_header sport dport seq ack flags =
     be16 sport @ be16 dport @ be32 seq @ be32 ack @ [0x50, flags] @ be16 16384 @ be16 0 @ be16 0"

definition tcp_segment :: "u32 \<Rightarrow> u32 \<Rightarrow> u16 \<Rightarrow> u16 \<Rightarrow> u32 \<Rightarrow> u32 \<Rightarrow> u8 \<Rightarrow> u8 list \<Rightarrow> u8 list" where
  "tcp_segment src_ip dst_ip sport dport seq ack flags data =
     (let seg = tcp_header sport dport seq ack flags @ data
      in blit seg 16 (be16 (tcp_cksum src_ip dst_ip seg)))"

definition tcp_send_flags ::
    "u32 \<Rightarrow> u32 \<Rightarrow> u16 \<Rightarrow> u16 \<Rightarrow> u32 \<Rightarrow> u32 \<Rightarrow> u8 \<Rightarrow> u8 list \<Rightarrow> net \<Rightarrow> net" where
  "tcp_send_flags src_ip dst_ip sport dport seq ack flags data n =
     ipv4_output IP_PROTO_TCP src_ip dst_ip
       (tcp_segment src_ip dst_ip sport dport seq ack flags data) n"

definition tcp_init :: "net \<Rightarrow> net" where
  "tcp_init n = n\<lparr>srv := (srv n)\<lparr>tcp_st := ST_LISTEN, local_port := SRV_PORT, rx_len := 0\<rparr>,
                  cli := (cli n)\<lparr>tcp_st := ST_CLOSED, rx_len := 0\<rparr>\<rparr>"

definition bytes_of :: "string \<Rightarrow> u8 list" where
  "bytes_of s = map of_char s"

definition CRLF :: string where "CRLF = [CHR 0x0D, CHR 0x0A]"

definition http_head :: "u8 list" where
  "http_head = bytes_of (''HTTP/1.0 200 OK'' @ CRLF @ ''Content-Type: text/html'' @ CRLF @ CRLF)"

definition http_body :: "u8 list" where
  "http_body = bytes_of (''<html><head><title>BonfireOS</title></head><body><h1>Hello from loopback</h1>''
     @ ''<p>Lynx-style host / HTTP test</p></body></html>'')"

text \<open>What \<open>tcp_ipv4_input\<close> does with a segment, once its fields are read.\<close>

definition tcp_handle ::
    "u32 \<Rightarrow> u32 \<Rightarrow> u16 \<Rightarrow> u16 \<Rightarrow> u32 \<Rightarrow> u32 \<Rightarrow> u8 \<Rightarrow> u8 list \<Rightarrow> net \<Rightarrow> net" where
  "tcp_handle src dst sport dport seq ack fl payload n =
     (let plen = of_nat (length payload) :: u32 in
      if dport = SRV_PORT \<and> tcp_st (srv n) = ST_LISTEN \<and> fl AND TCP_SYN \<noteq> 0 \<and> fl AND TCP_ACK = 0
      then let n = n\<lparr>srv := (srv n)\<lparr>tcp_st := ST_SYN_RCVD, remote_ip := src, remote_port := sport,
                       rcv_nxt := seq + 1, iss := 50000, snd_una := 50000, snd_nxt := 50000 + 1\<rparr>\<rparr>
        in tcp_send_flags dst src SRV_PORT sport (iss (srv n)) (rcv_nxt (srv n)) (TCP_SYN OR TCP_ACK) [] n
      else if dport = SRV_PORT \<and> tcp_st (srv n) = ST_SYN_RCVD \<and> fl AND TCP_ACK \<noteq> 0 \<and> fl AND TCP_SYN = 0
      then (if ack = iss (srv n) + 1
            then n\<lparr>srv := (srv n)\<lparr>tcp_st := ST_ESTABLISHED, rcv_nxt := seq + 1\<rparr>\<rparr> else n)
      else if dport = SRV_PORT \<and> tcp_st (srv n) = ST_ESTABLISHED \<and> fl AND TCP_PSH \<noteq> 0
      then let n = n\<lparr>srv := (srv n)\<lparr>rcv_nxt := seq + plen\<rparr>\<rparr>;
               n = tcp_send_flags dst src SRV_PORT sport (snd_nxt (srv n)) (rcv_nxt (srv n)) TCP_ACK [] n;
               n = tcp_send_flags dst src SRV_PORT sport (snd_nxt (srv n)) (rcv_nxt (srv n))
                     (TCP_ACK OR TCP_PSH) (http_head @ http_body) n
        in n\<lparr>srv := (srv n)\<lparr>snd_nxt := snd_nxt (srv n) + of_nat (length (http_head @ http_body)),
                             tcp_st := ST_CLOSED\<rparr>\<rparr>
      else if dport = CLI_PORT \<and> tcp_st (cli n) = ST_SYN_SENT \<and> fl AND TCP_SYN \<noteq> 0 \<and> fl AND TCP_ACK \<noteq> 0
      then let n = n\<lparr>cli := (cli n)\<lparr>rcv_nxt := seq + 1, snd_nxt := ack\<rparr>\<rparr>;
               n = tcp_send_flags dst src CLI_PORT sport (snd_nxt (cli n)) (rcv_nxt (cli n)) TCP_ACK [] n
        in n\<lparr>cli := (cli n)\<lparr>tcp_st := ST_ESTABLISHED\<rparr>\<rparr>
      else if dport = CLI_PORT \<and> tcp_st (cli n) = ST_ESTABLISHED \<and> fl AND TCP_PSH \<noteq> 0
      then let n = (if length payload + rx_len (cli n) < RX_SIZE
                    then n\<lparr>cli := (cli n)\<lparr>tcp_rx := blit (tcp_rx (cli n)) (rx_len (cli n)) payload,
                                            rx_len := rx_len (cli n) + length payload\<rparr>\<rparr>
                    else n);
               n = n\<lparr>cli := (cli n)\<lparr>rcv_nxt := seq + plen\<rparr>\<rparr>
        in tcp_send_flags dst src CLI_PORT sport (snd_nxt (cli n)) (rcv_nxt (cli n)) TCP_ACK [] n
      else if dport = CLI_PORT \<and> fl AND TCP_FIN \<noteq> 0 \<and> tcp_st (cli n) = ST_ESTABLISHED
      then n\<lparr>cli := (cli n)\<lparr>tcp_st := ST_CLOSED\<rparr>\<rparr>
      else n)"

definition tcp_ipv4_input :: "u8 list \<Rightarrow> u32 \<Rightarrow> u32 \<Rightarrow> net \<Rightarrow> net" where
  "tcp_ipv4_input pkt src dst n =
     (let ihl = unat (pkt ! 0 AND 0x0F) * 4 in
      if length pkt < ihl + 20 then n
      else let th = drop ihl pkt; off = unat (drop_bit 4 (th ! 12)) * 4 in
        if off < 20 \<or> length th < off then n
        else tcp_handle src dst (rd16 th 0) (rd16 th 2) (rd_ip4 th 4) (rd_ip4 th 8) (th ! 13) (drop off th) n)"

definition tcp_reset :: "net \<Rightarrow> net" where
  "tcp_reset n = tcp_init n"

definition tcp_connect_send_get :: "u32 \<Rightarrow> net \<Rightarrow> net" where
  "tcp_connect_send_get ip n =
     (let n = n\<lparr>cli := (cli n)\<lparr>tcp_st := ST_SYN_SENT, local_port := CLI_PORT, remote_ip := ip,
                  remote_port := SRV_PORT, iss := 10000, snd_una := 10000, snd_nxt := 10000 + 1,
                  rx_len := 0\<rparr>,
                srv := (srv n)\<lparr>tcp_st := ST_LISTEN, rx_len := 0\<rparr>\<rparr>
      in tcp_send_flags NET_IPV4_LOOPBACK NET_IPV4_LOOPBACK CLI_PORT SRV_PORT (iss (cli n)) 0 TCP_SYN [] n)"

definition tcp_send_data :: "u8 list \<Rightarrow> net \<Rightarrow> (int \<times> net) option" where
  "tcp_send_data data n =
     (if tcp_st (cli n) \<noteq> ST_ESTABLISHED then Some (- 1, n)
      else if 1280 < 20 + length data then None
      else let n = tcp_send_flags NET_IPV4_LOOPBACK NET_IPV4_LOOPBACK CLI_PORT SRV_PORT
                     (snd_nxt (cli n)) (rcv_nxt (cli n)) (TCP_ACK OR TCP_PSH) data n
        in Some (0, n\<lparr>cli := (cli n)\<lparr>snd_nxt := snd_nxt (cli n) + of_nat (length data)\<rparr>\<rparr>))"

section \<open>Input, polling and the two clients\<close>

definition ipv4_input :: "u8 list \<Rightarrow> net \<Rightarrow> net" where
  "ipv4_input pkt n =
     (if length pkt < 20 then n
      else let ihl = unat (pkt ! 0 AND 0x0F) * 4 in
        if ihl < 20 \<or> length pkt < ihl then n
        else let proto = pkt ! 9; src = rd_ip4 pkt 12; dst = rd_ip4 pkt 16 in
          if proto = IP_PROTO_ICMP then icmp_input pkt ihl n
          else if proto = IP_PROTO_TCP then tcp_ipv4_input pkt src dst n
          else n)"

partial_function (option) net_poll :: "net \<Rightarrow> net option" where
  "net_poll n =
     (let (pkt, lb) = loopback_fetch 2048 (lo n); n = n\<lparr>lo := lb\<rparr>
      in if length pkt > 0 then net_poll (ipv4_input pkt n) else Some n)"

primrec net_polls :: "nat \<Rightarrow> net \<Rightarrow> net option" where
  "net_polls 0 n = Some n"
| "net_polls (Suc k) n = Option.bind (net_poll n) (net_polls k)"

definition net_icmp_clear_reply :: "net \<Rightarrow> net" where
  "net_icmp_clear_reply n = n\<lparr>icmp_echo_reply_rx := 0\<rparr>"

definition net_init :: "net \<Rightarrow> net" where
  "net_init n = tcp_init (net_icmp_clear_reply (n\<lparr>lo := loopback_clear (lo n)\<rparr>))"

definition net_ping :: "u32 \<Rightarrow> net \<Rightarrow> (int \<times> net) option" where
  "net_ping dst n =
     Option.bind (net_polls 8000 (icmp_send_echo_request dst (net_icmp_clear_reply n)))
       (\<lambda>n. Some (if icmp_echo_reply_rx n > 0 then 0 else - 1, n))"

definition http_req :: "u8 list" where
  "http_req = bytes_of (''GET / HTTP/1.0'' @ CRLF @ ''Host: 127.0.0.1'' @ CRLF @ CRLF)"

text \<open>The index after the first blank line, 0 if there is none.\<close>

fun find_body :: "u8 list \<Rightarrow> nat \<Rightarrow> nat" where
  "find_body (a # b # c # d # rx) i =
     (if a = 13 \<and> b = 10 \<and> c = 13 \<and> d = 10 then i + 4 else find_body (b # c # d # rx) (i + 1))"
| "find_body rx i = 0"

text \<open>The result, and the bytes stored from \<open>out[0]\<close> on (the terminating 0 included).\<close>

definition net_http_get_loopback :: "bool \<Rightarrow> u64 \<Rightarrow> net \<Rightarrow> (int \<times> u8 list \<times> net) option" where
  "net_http_get_loopback out_null max_out n =
     (if out_null \<or> max_out < 2 then Some (- 1, [], n)
      else Option.bind (net_polls 8000 (tcp_connect_send_get NET_IPV4_LOOPBACK (tcp_reset n))) (\<lambda>n.
        Option.bind (tcp_send_data http_req n) (\<lambda>(r, n).
          if r \<noteq> 0 then Some (- 1, [0], n)
          else Option.bind (net_polls 8000 n) (\<lambda>n.
            if rx_len (cli n) = 0 then Some (- 1, [0], n)
            else let rx = take (rx_len (cli n)) (tcp_rx (cli n)); body = find_body rx 0;
                     max = ucast max_out :: u32
              in if body < length rx \<and> max = 0x80000000 then None
                 else let out = take (nat (sint max - 1)) (drop body rx)
                   in Some (int (length out), out @ [0], n)))))"

section \<open>Packets\<close>

definition ip_packet :: "u8 \<Rightarrow> u32 \<Rightarrow> u32 \<Rightarrow> u8 list \<Rightarrow> u8 list" where
  "ip_packet proto src dst body = ipv4_finish (ipv4_header (20 + length body) proto src dst @ body)"

definition tcp_packet ::
    "u32 \<Rightarrow> u32 \<Rightarrow> u16 \<Rightarrow> u16 \<Rightarrow> u32 \<Rightarrow> u32 \<Rightarrow> u8 \<Rightarrow> u8 list \<Rightarrow> u8 list" where
  "tcp_packet src dst sport dport seq ack fl data =
     ip_packet IP_PROTO_TCP src dst (tcp_segment src dst sport dport seq ack fl data)"

lemma ipv4_header_eq:
  "ipv4_header tot proto src dst =
     ([0x45, 0] @ be16 (of_nat tot) @ [0, 0, 0, 0, 64, proto]) @ [0, 0] @ (be32 src @ be32 dst)"
  by (simp add: ipv4_header_def)

lemma length_ipv4_header [simp]: "length (ipv4_header tot proto src dst) = 20"
  by (simp add: ipv4_header_def)

lemma ipv4_finish_eq:
  "ipv4_finish (ipv4_header tot proto src dst @ body) =
     ([0x45, 0] @ be16 (of_nat tot) @ [0, 0, 0, 0, 64, proto])
     @ be16 (net_checksum16 (ipv4_header tot proto src dst)) @ (be32 src @ be32 dst) @ body"
  by (simp add: ipv4_finish_def ipv4_header_eq blit_def)

lemma length_ip_packet [simp]: "length (ip_packet proto src dst body) = 20 + length body"
  by (simp add: ip_packet_def ipv4_finish_eq)

lemma ip_packet_fields [simp]:
  "ip_packet proto src dst body ! 0 = 0x45" "ip_packet proto src dst body ! 9 = proto"
  "rd_ip4 (ip_packet proto src dst body) 12 = src" "rd_ip4 (ip_packet proto src dst body) 16 = dst"
  "drop 20 (ip_packet proto src dst body) = body"
  by (simp_all add: ip_packet_def ipv4_finish_eq be16_def be32_def rd_ip4_def)

lemma ihl_45 [simp]: "unat ((0x45 :: u8) AND 0x0F) = 5"
  by simp

lemma tcp_segment_eq:
  "tcp_segment src dst sport dport seq ack fl data =
     (be16 sport @ be16 dport @ be32 seq @ be32 ack @ [0x50, fl] @ be16 16384)
     @ be16 (tcp_cksum src dst ((be16 sport @ be16 dport @ be32 seq @ be32 ack @ [0x50, fl] @ be16 16384)
               @ [0, 0] @ ([0, 0] @ data)))
     @ ([0, 0] @ data)"
  by (simp add: tcp_segment_def tcp_header_def blit_def be16_def be32_def Let_def)

lemma length_tcp_segment [simp]: "length (tcp_segment src dst sport dport seq ack fl data) = 20 + length data"
  by (simp add: tcp_segment_eq)

lemma tcp_segment_fields:
  "rd16 (tcp_segment src dst sport dport seq ack fl data) 0 = sport"
  "rd16 (tcp_segment src dst sport dport seq ack fl data) 2 = dport"
  "rd_ip4 (tcp_segment src dst sport dport seq ack fl data) 4 = seq"
  "rd_ip4 (tcp_segment src dst sport dport seq ack fl data) 8 = ack"
  "tcp_segment src dst sport dport seq ack fl data ! 12 = 0x50"
  "tcp_segment src dst sport dport seq ack fl data ! 13 = fl"
  "drop 20 (tcp_segment src dst sport dport seq ack fl data) = data"
  by (simp_all add: tcp_segment_eq be16_def be32_def rd16_def rd_ip4_def)

text \<open>What was sent is what is handled: parsing inverts building.\<close>

lemma ipv4_input_ip_packet:
  "ipv4_input (ip_packet proto src dst body) n =
     (if proto = IP_PROTO_ICMP then icmp_input (ip_packet proto src dst body) 20 n
      else if proto = IP_PROTO_TCP then tcp_ipv4_input (ip_packet proto src dst body) src dst n else n)"
  by (simp add: ipv4_input_def Let_def)

lemma ipv4_input_tcp_packet:
  "ipv4_input (tcp_packet src dst sport dport seq ack fl data) n =
     tcp_handle src dst sport dport seq ack fl data n"
  by (simp add: tcp_packet_def ipv4_input_ip_packet IP_PROTO_TCP_def IP_PROTO_ICMP_def
      tcp_ipv4_input_def tcp_segment_fields Let_def)

section \<open>The queue of pending datagrams\<close>

abbreviation queue :: "net \<Rightarrow> u8 list list" where
  "queue n \<equiv> lb_items (lo n)"

definition net_ok :: "net \<Rightarrow> bool" where
  "net_ok n \<longleftrightarrow> lb_inv (lo n) \<and> length (tcp_rx (cli n)) = RX_SIZE \<and> rx_len (cli n) < RX_SIZE"

lemma xmit_items:
  assumes "lb_inv lb" and "0 < length d" and "length d \<le> LB_MTU"
  shows "lb_inv (loopback_xmit d (int (length d)) lb)"
    and "lb_items (loopback_xmit d (int (length d)) lb)
      = (if length (lb_items lb) < LB_Q - 1 then lb_items lb @ [d] else lb_items lb)"
  using lb_inv_push [OF assms(1), of d] lb_items_push [OF assms(1), of d] assms(2,3)
  by (simp_all add: lb_push_def lb_dec_def)

lemma ipv4_output_eq:
  assumes "length body \<le> 2028"
  shows "ipv4_output proto src dst body n =
    n\<lparr>lo := loopback_xmit (ip_packet proto src dst body) (int (length (ip_packet proto src dst body))) (lo n)\<rparr>"
  using assms by (simp add: ipv4_output_def Let_def flip: ip_packet_def)

lemma fetch_items:
  assumes "lb_inv lb"
  shows "lb_items lb = [] \<Longrightarrow> loopback_fetch 2048 lb = ([], lb)"
    and "lb_items lb = d # ds \<Longrightarrow>
      \<exists>lb'. loopback_fetch 2048 lb = (d, lb') \<and> lb_inv lb' \<and> lb_items lb' = ds \<and> 0 < length d"
proof -
  have m: "LB_MTU = 2048" by (simp add: LB_MTU_def)
  show "loopback_fetch 2048 lb = ([], lb)" if "lb_items lb = []"
  proof -
    have "lb_count lb = 0" using that by (metis lb_items_def length_0_conv length_ring_items)
    moreover have "lb_head lb < LB_Q" "lb_tail lb < LB_Q" using assms by (auto simp: lb_inv_def lb_shape_def)
    ultimately have "lb_head lb = lb_tail lb" by (simp add: lb_count_def ring_dist_0_iff)
    then show ?thesis by (simp add: loopback_fetch_def)
  qed
  show "\<exists>lb'. loopback_fetch 2048 lb = (d, lb') \<and> lb_inv lb' \<and> lb_items lb' = ds \<and> 0 < length d"
    if d: "lb_items lb = d # ds"
  proof -
    obtain e lb' where f: "loopback_fetch 2048 lb = (e, lb')" by fastforce
    have "0 < length d" using assms d by (simp add: lb_inv_def)
    with lb_pop_eq [OF assms] d f show ?thesis
      by (auto simp: lb_pop_def m split: if_splits)
  qed
qed

lemma net_poll_idle: "lb_inv (lo n) \<Longrightarrow> queue n = [] \<Longrightarrow> net_poll n = Some n"
  by (simp add: net_poll.simps [of n] fetch_items(1))

lemma net_poll_step:
  assumes "lb_inv (lo n)" and "queue n = d # ds"
  obtains lb where "net_poll n = net_poll (ipv4_input d (n\<lparr>lo := lb\<rparr>))" and "lb_inv lb" and "lb_items lb = ds"
proof -
  from fetch_items(2) [OF assms] obtain lb where
    "loopback_fetch 2048 (lo n) = (d, lb)" "lb_inv lb" "lb_items lb = ds" "0 < length d" by blast
  then show ?thesis by (intro that [of lb]) (simp_all add: net_poll.simps [of n] Let_def)
qed

lemma send_effect:
  assumes "lb_inv (lo n)" and "length (queue n) < 15" and "length data \<le> 1260"
  obtains lb where "tcp_send_flags s d sp dp seq ack fl data n = n\<lparr>lo := lb\<rparr>" and "lb_inv lb"
    and "lb_items lb = queue n @ [tcp_packet s d sp dp seq ack fl data]"
proof -
  let ?p = "tcp_packet s d sp dp seq ack fl data"
  let ?lb = "loopback_xmit ?p (int (length ?p)) (lo n)"
  have p: "0 < length ?p" "length ?p \<le> LB_MTU"
    using assms(3) by (simp_all add: tcp_packet_def LB_MTU_def)
  have "tcp_send_flags s d sp dp seq ack fl data n = n\<lparr>lo := ?lb\<rparr>"
    using assms(3) by (simp add: tcp_send_flags_def ipv4_output_eq tcp_packet_def)
  with that xmit_items [OF assms(1) p] assms(2) show ?thesis by (simp add: LB_Q_def)
qed

lemma net_polls_idle: "lb_inv (lo n) \<Longrightarrow> queue n = [] \<Longrightarrow> net_polls k n = Some n"
  by (induction k) (simp_all add: net_poll_idle)

lemma net_polls_settle:
  assumes "net_poll n = Some n'" and "lb_inv (lo n')" and "queue n' = []" and "0 < k"
  shows "net_polls k n = Some n'"
  using assms by (cases k) (simp_all add: net_polls_idle)

section \<open>Polling ends\<close>

text \<open>
  Every handled datagram lowers a potential: what it may still cause to be sent, plus what the
  server and client states may. A pushed segment or an echo request counts 2, all others 1.
\<close>

definition pk_weight :: "u8 list \<Rightarrow> nat" where
  "pk_weight d = (let ihl = unat (d ! 0 AND 0x0F) * 4 in
     if d ! 9 = IP_PROTO_ICMP \<and> d ! ihl = ICMP_ECHO \<or> d ! 9 = IP_PROTO_TCP \<and> d ! (ihl + 13) AND TCP_PSH \<noteq> 0
     then 2 else 1)"

fun srv_weight :: "tcp_state \<Rightarrow> nat" where
  "srv_weight ST_LISTEN = 15" | "srv_weight ST_SYN_RCVD = 10" | "srv_weight ST_ESTABLISHED = 5"
| "srv_weight _ = 0"

fun cli_weight :: "tcp_state \<Rightarrow> nat" where
  "cli_weight ST_SYN_SENT = 3" | "cli_weight _ = 0"

definition q_weight :: "u8 list list \<Rightarrow> nat" where
  "q_weight ds = sum_list (map pk_weight ds)"

definition net_weight :: "net \<Rightarrow> nat" where
  "net_weight n = q_weight (queue n) + srv_weight (tcp_st (srv n)) + cli_weight (tcp_st (cli n))"

lemma pk_weight_bounds: "0 < pk_weight d" "pk_weight d \<le> 2"
  by (simp_all add: pk_weight_def Let_def)

lemma pk_weight_tcp: "pk_weight (tcp_packet s d sp dp seq ack fl data) = (if fl AND TCP_PSH = 0 then 1 else 2)"
proof -
  let ?b = "tcp_segment s d sp dp seq ack fl data"
  have "tcp_packet s d sp dp seq ack fl data ! (20 + 13) = drop 20 (tcp_packet s d sp dp seq ack fl data) ! 13"
    by (rule nth_drop [symmetric]) (simp add: tcp_packet_def)
  then show ?thesis
    by (simp add: pk_weight_def tcp_packet_def tcp_segment_fields IP_PROTO_ICMP_def IP_PROTO_TCP_def Let_def)
qed

text \<open>Sending adds at most one datagram to the queue and changes nothing else.\<close>

lemma output_effect:
  assumes "lb_inv (lo n)" and "length body \<le> 2028"
  obtains lb where "ipv4_output proto src dst body n = n\<lparr>lo := lb\<rparr>" and "lb_inv lb"
    and "q_weight (lb_items lb) \<le> q_weight (queue n) + pk_weight (ip_packet proto src dst body)"
proof -
  let ?p = "ip_packet proto src dst body"
  have "0 < length ?p" "length ?p \<le> LB_MTU" using assms(2) by (simp_all add: LB_MTU_def)
  from that [OF ipv4_output_eq [OF assms(2)]] xmit_items [OF assms(1) this] show ?thesis
    by (simp add: q_weight_def split: if_splits)
qed

lemma send_weight:
  assumes "lb_inv (lo n)" and "length data \<le> 1260"
  obtains lb where "tcp_send_flags s d sp dp seq ack fl data n = n\<lparr>lo := lb\<rparr>" and "lb_inv lb"
    and "q_weight (lb_items lb) \<le> q_weight (queue n) + (if fl AND TCP_PSH = 0 then 1 else 2)"
proof -
  let ?b = "tcp_segment s d sp dp seq ack fl data"
  have "length ?b \<le> 2028" using assms(2) by simp
  from output_effect [OF assms(1) this, of IP_PROTO_TCP s d] obtain lb where
    "ipv4_output IP_PROTO_TCP s d ?b n = n\<lparr>lo := lb\<rparr>" "lb_inv lb"
    "q_weight (lb_items lb) \<le> q_weight (queue n) + pk_weight (ip_packet IP_PROTO_TCP s d ?b)" .
  then show ?thesis
    using that pk_weight_tcp [of s d sp dp seq ack fl data]
    by (simp add: tcp_send_flags_def tcp_packet_def)
qed

lemma length_response: "length (http_head @ http_body) = 169"
  by (simp add: http_head_def http_body_def bytes_of_def CRLF_def)

lemma length_icmp_reply [simp]: "8 \<le> length icmp \<Longrightarrow> length (icmp_reply icmp) = length icmp"
  by (simp add: icmp_reply_def Let_def)

lemma icmp_reply_type: "8 \<le> length icmp \<Longrightarrow> icmp_reply icmp ! 0 = ICMP_ECHO_REPLY"
  unfolding icmp_reply_def Let_def by (cases icmp) (auto simp: nth_blit)

definition answered :: "u8 list \<Rightarrow> nat \<Rightarrow> bool" where
  "answered d h \<longleftrightarrow> h + 8 \<le> length d \<and> drop h d ! 0 = ICMP_ECHO \<and> 20 + (length d - h) \<le> 576"

lemma icmp_input_echo:
  assumes "answered d h"
  shows "icmp_input d h n = n\<lparr>lo :=
    loopback_xmit (ip_packet IP_PROTO_ICMP (rd_ip4 d 16) (rd_ip4 d 12) (icmp_reply (drop h d)))
      (int (20 + (length d - h))) (lo n)\<rparr>"
  using assms
  by (simp add: answered_def icmp_input_def Let_def ip_packet_def ICMP_ECHO_REPLY_def ICMP_ECHO_def
      not_less le_diff_conv2)

lemma icmp_input_other:
  assumes "\<not> answered d h"
  shows "icmp_input d h n = n \<or> icmp_input d h n = n\<lparr>icmp_echo_reply_rx := icmp_echo_reply_rx n + 1\<rparr>"
  using assms by (auto simp: answered_def icmp_input_def Let_def)

lemma icmp_weight:
  assumes "net_ok n"
  shows "net_ok (icmp_input d (unat (d ! 0 AND 0x0F) * 4) n)
    \<and> (d ! 9 = IP_PROTO_ICMP \<longrightarrow>
        net_weight (icmp_input d (unat (d ! 0 AND 0x0F) * 4) n) < net_weight n + pk_weight d)"
proof (cases "answered d (unat (d ! 0 AND 0x0F) * 4)")
  case False
  from icmp_input_other [OF this, of n] show ?thesis
  proof
    assume "icmp_input d (unat (d ! 0 AND 0x0F) * 4) n = n"
    with assms show ?thesis by (simp only: pk_weight_bounds) (simp add: pk_weight_bounds)
  next
    assume "icmp_input d (unat (d ! 0 AND 0x0F) * 4) n = n\<lparr>icmp_echo_reply_rx := icmp_echo_reply_rx n + 1\<rparr>"
    with assms show ?thesis by (simp add: pk_weight_bounds net_ok_def net_weight_def)
  qed
next
  case True
  let ?h = "unat (d ! 0 AND 0x0F) * 4"
  let ?p = "ip_packet IP_PROTO_ICMP (rd_ip4 d 16) (rd_ip4 d 12) (icmp_reply (drop ?h d))"
  from True have b: "8 \<le> length (drop ?h d)" "20 + (length d - ?h) \<le> 576" "drop ?h d ! 0 = ICMP_ECHO" "?h \<le> length d"
    by (auto simp: answered_def)
  have len: "length ?p = 20 + (length d - ?h)" using b(1) by simp
  then have eq: "icmp_input d ?h n = n\<lparr>lo := loopback_xmit ?p (int (length ?p)) (lo n)\<rparr>"
    using icmp_input_echo [OF True] by (simp only:)
  have p: "0 < length ?p" "length ?p \<le> LB_MTU" using b(2) unfolding len LB_MTU_def by linarith+
  have inv: "lb_inv (lo n)" using assms by (simp add: net_ok_def)
  have "?p ! 20 = icmp_reply (drop ?h d) ! 0"
    using nth_drop [of 20 ?p 0] by simp
  then have "?p ! 20 = ICMP_ECHO_REPLY" using icmp_reply_type [OF b(1)] by simp
  then have "pk_weight ?p = 1"
    by (simp add: pk_weight_def Let_def ICMP_ECHO_REPLY_def ICMP_ECHO_def IP_PROTO_ICMP_def IP_PROTO_TCP_def)
  with xmit_items [OF inv p] have "net_weight (icmp_input d ?h n) \<le> net_weight n + 1"
    unfolding eq by (simp add: net_weight_def q_weight_def)
  moreover have "d ! ?h = ICMP_ECHO" using b(3,4) by simp
  then have "pk_weight d = 2" if "d ! 9 = IP_PROTO_ICMP"
    using that by (simp add: pk_weight_def Let_def)
  moreover have "net_ok (icmp_input d ?h n)"
    using assms xmit_items [OF inv p] unfolding eq by (simp add: net_ok_def)
  ultimately show ?thesis by simp
qed

text \<open>One segment: the state machine pays for what it sends.\<close>

lemma send_ok:
  assumes "net_ok n" and "length data \<le> 1260"
  shows "net_ok (tcp_send_flags s d sp dp seq ack fl data n)"
    and "srv (tcp_send_flags s d sp dp seq ack fl data n) = srv n"
    and "cli (tcp_send_flags s d sp dp seq ack fl data n) = cli n"
    and "q_weight (queue (tcp_send_flags s d sp dp seq ack fl data n))
      \<le> q_weight (queue n) + (if fl AND TCP_PSH = 0 then 1 else 2)"
proof -
  have "lb_inv (lo n)" using assms(1) by (simp add: net_ok_def)
  from send_weight [OF this assms(2), of s d sp dp seq ack fl] obtain lb where
    e: "tcp_send_flags s d sp dp seq ack fl data n = n\<lparr>lo := lb\<rparr>" "lb_inv lb"
    "q_weight (lb_items lb) \<le> q_weight (queue n) + (if fl AND TCP_PSH = 0 then 1 else 2)" .
  then show "net_ok (tcp_send_flags s d sp dp seq ack fl data n)"
    and "srv (tcp_send_flags s d sp dp seq ack fl data n) = srv n"
    and "cli (tcp_send_flags s d sp dp seq ack fl data n) = cli n"
    and "q_weight (queue (tcp_send_flags s d sp dp seq ack fl data n))
      \<le> q_weight (queue n) + (if fl AND TCP_PSH = 0 then 1 else 2)"
    using assms(1) by (simp_all add: net_ok_def)
qed

lemma net_ok_srv [simp]: "net_ok (n\<lparr>srv := s\<rparr>) \<longleftrightarrow> net_ok n"
  by (simp add: net_ok_def)

lemma net_ok_cli: "net_ok n \<Longrightarrow> length (tcp_rx c) = RX_SIZE \<Longrightarrow> rx_len c < RX_SIZE \<Longrightarrow> net_ok (n\<lparr>cli := c\<rparr>)"
  by (simp add: net_ok_def)

lemma net_ok_rx: "net_ok n \<Longrightarrow> length (tcp_rx (cli n)) = RX_SIZE \<and> rx_len (cli n) < RX_SIZE"
  by (simp add: net_ok_def)

lemma ack_flags [simp]:
  "TCP_ACK AND TCP_PSH = 0" "(TCP_SYN OR TCP_ACK) AND TCP_PSH = 0"
  "(TCP_ACK OR TCP_PSH) AND TCP_PSH \<noteq> 0" "(TCP_ACK OR TCP_PSH) AND TCP_SYN = 0"
  "(TCP_SYN OR TCP_ACK) AND TCP_SYN \<noteq> 0" "(TCP_SYN OR TCP_ACK) AND TCP_ACK \<noteq> 0"
  "(TCP_ACK OR TCP_PSH) AND TCP_ACK \<noteq> 0" "(TCP_ACK OR TCP_PSH) AND TCP_FIN = 0"
  "TCP_ACK \<noteq> 0" "TCP_ACK AND TCP_SYN = 0" "TCP_ACK AND TCP_FIN = 0"
  "TCP_PSH \<noteq> 0" "TCP_SYN \<noteq> 0" "TCP_SYN AND TCP_ACK = 0"
  "SRV_PORT \<noteq> CLI_PORT" "CLI_PORT \<noteq> SRV_PORT"
  by (simp_all add: TCP_ACK_def TCP_PSH_def TCP_SYN_def TCP_FIN_def SRV_PORT_def CLI_PORT_def)

lemma tcp_request_weight:
  assumes ok: "net_ok n" and here: "dp = SRV_PORT" "tcp_st (srv n) = ST_ESTABLISHED" "fl AND TCP_PSH \<noteq> 0"
  shows "net_ok (tcp_handle src dst sp dp seq ack fl payload n)
    \<and> net_weight (tcp_handle src dst sp dp seq ack fl payload n) < net_weight n + 2"
proof -
  define n0 where "n0 = n\<lparr>srv := (srv n)\<lparr>rcv_nxt := seq + of_nat (length payload)\<rparr>\<rparr>"
  define n1 where "n1 = tcp_send_flags dst src SRV_PORT sp (snd_nxt (srv n0)) (rcv_nxt (srv n0)) TCP_ACK [] n0"
  define n2 where "n2 = tcp_send_flags dst src SRV_PORT sp (snd_nxt (srv n1)) (rcv_nxt (srv n1))
               (TCP_ACK OR TCP_PSH) (http_head @ http_body) n1"
  have n0: "net_ok n0" "cli n0 = cli n" "queue n0 = queue n" using ok by (simp_all add: n0_def)
  from send_ok [OF n0(1), of "[]" dst src SRV_PORT sp "snd_nxt (srv n0)" "rcv_nxt (srv n0)" TCP_ACK]
  have n1: "net_ok n1" "cli n1 = cli n0" "q_weight (queue n1) \<le> q_weight (queue n0) + 1"
    by (simp_all add: n1_def)
  have "length (http_head @ http_body) \<le> 1260" unfolding length_response by simp
  from send_ok [OF n1(1) this, of dst src SRV_PORT sp "snd_nxt (srv n1)" "rcv_nxt (srv n1)" "TCP_ACK OR TCP_PSH"]
  have n2: "net_ok n2" "cli n2 = cli n1" "q_weight (queue n2) \<le> q_weight (queue n1) + 2"
    by (simp_all add: n2_def)
  have "tcp_handle src dst sp dp seq ack fl payload n = n2\<lparr>srv := (srv n2)\<lparr>snd_nxt :=
      snd_nxt (srv n2) + of_nat (length (http_head @ http_body)), tcp_st := ST_CLOSED\<rparr>\<rparr>"
    using here unfolding tcp_handle_def Let_def n2_def n1_def n0_def by simp
  with n0 n1 n2 here show ?thesis by (simp add: net_weight_def)
qed

lemma tcp_data_weight:
  assumes ok: "net_ok n" and here: "dp = CLI_PORT" "tcp_st (cli n) = ST_ESTABLISHED" "fl AND TCP_PSH \<noteq> 0"
  shows "net_ok (tcp_handle src dst sp dp seq ack fl payload n)
    \<and> net_weight (tcp_handle src dst sp dp seq ack fl payload n) < net_weight n + 2"
proof -
  note rx = net_ok_rx [OF ok]
  define n0 where "n0 = (if length payload + rx_len (cli n) < RX_SIZE
    then n\<lparr>cli := (cli n)\<lparr>tcp_rx := blit (tcp_rx (cli n)) (rx_len (cli n)) payload,
                            rx_len := rx_len (cli n) + length payload\<rparr>\<rparr> else n)"
  define n1 where "n1 = n0\<lparr>cli := (cli n0)\<lparr>rcv_nxt := seq + of_nat (length payload)\<rparr>\<rparr>"
  define n2 where "n2 = tcp_send_flags dst src CLI_PORT sp (snd_nxt (cli n1)) (rcv_nxt (cli n1)) TCP_ACK [] n1"
  have n0: "net_ok n0" "queue n0 = queue n" "srv n0 = srv n" "tcp_st (cli n0) = tcp_st (cli n)"
    using ok rx by (auto simp: n0_def intro!: net_ok_cli)
  have n1: "net_ok n1" "queue n1 = queue n0" "srv n1 = srv n0" "tcp_st (cli n1) = tcp_st (cli n0)"
    using net_ok_rx [OF n0(1)] n0(1) by (auto simp: n1_def intro!: net_ok_cli)
  from send_ok [OF n1(1), of "[]" dst src CLI_PORT sp "snd_nxt (cli n1)" "rcv_nxt (cli n1)" TCP_ACK]
  have n2: "net_ok n2" "srv n2 = srv n1" "cli n2 = cli n1" "q_weight (queue n2) \<le> q_weight (queue n1) + 1"
    by (simp_all add: n2_def)
  have "tcp_handle src dst sp dp seq ack fl payload n = n2"
    using here unfolding tcp_handle_def Let_def n2_def n1_def n0_def by simp
  with n0 n1 n2 here show ?thesis by (simp add: net_weight_def)
qed

lemma tcp_handle_weight:
  assumes ok: "net_ok n" and w: "fl AND TCP_PSH \<noteq> 0 \<longrightarrow> w = 2" "0 < w"
  shows "net_ok (tcp_handle src dst sp dp seq ack fl payload n)
    \<and> net_weight (tcp_handle src dst sp dp seq ack fl payload n) < net_weight n + w"
proof -
  note rx = net_ok_rx [OF ok]
  consider
    (syn) "dp = SRV_PORT \<and> tcp_st (srv n) = ST_LISTEN \<and> fl AND TCP_SYN \<noteq> 0 \<and> fl AND TCP_ACK = 0"
  | (estab) "dp = SRV_PORT \<and> tcp_st (srv n) = ST_SYN_RCVD \<and> fl AND TCP_ACK \<noteq> 0 \<and> fl AND TCP_SYN = 0"
  | (request) "dp = SRV_PORT \<and> tcp_st (srv n) = ST_ESTABLISHED \<and> fl AND TCP_PSH \<noteq> 0"
  | (synack) "dp = CLI_PORT \<and> tcp_st (cli n) = ST_SYN_SENT \<and> fl AND TCP_SYN \<noteq> 0 \<and> fl AND TCP_ACK \<noteq> 0"
  | (data) "dp = CLI_PORT \<and> tcp_st (cli n) = ST_ESTABLISHED \<and> fl AND TCP_PSH \<noteq> 0"
  | (other) "\<not> (dp = SRV_PORT \<and> tcp_st (srv n) = ST_LISTEN \<and> fl AND TCP_SYN \<noteq> 0 \<and> fl AND TCP_ACK = 0)"
      "\<not> (dp = SRV_PORT \<and> tcp_st (srv n) = ST_SYN_RCVD \<and> fl AND TCP_ACK \<noteq> 0 \<and> fl AND TCP_SYN = 0)"
      "\<not> (dp = SRV_PORT \<and> tcp_st (srv n) = ST_ESTABLISHED \<and> fl AND TCP_PSH \<noteq> 0)"
      "\<not> (dp = CLI_PORT \<and> tcp_st (cli n) = ST_SYN_SENT \<and> fl AND TCP_SYN \<noteq> 0 \<and> fl AND TCP_ACK \<noteq> 0)"
      "\<not> (dp = CLI_PORT \<and> tcp_st (cli n) = ST_ESTABLISHED \<and> fl AND TCP_PSH \<noteq> 0)"
    by blast
  then show ?thesis
  proof cases
    case syn
    let ?n = "n\<lparr>srv := (srv n)\<lparr>tcp_st := ST_SYN_RCVD, remote_ip := src, remote_port := sp,
                rcv_nxt := seq + 1, iss := 50000, snd_una := 50000, snd_nxt := 50000 + 1\<rparr>\<rparr>"
    have "net_ok ?n" using ok by simp
    note s = send_ok [OF this, of "[]" dst src SRV_PORT sp 50000 "seq + 1" "TCP_SYN OR TCP_ACK"]
    from syn have "tcp_handle src dst sp dp seq ack fl payload n
        = tcp_send_flags dst src SRV_PORT sp 50000 (seq + 1) (TCP_SYN OR TCP_ACK) [] ?n"
      by (simp add: tcp_handle_def Let_def)
    with s syn show ?thesis by (simp add: net_weight_def)
  next
    case estab
    with ok w show ?thesis by (auto simp: tcp_handle_def Let_def net_weight_def)
  next
    case request
    with tcp_request_weight [OF ok] w show ?thesis by auto
  next
    case synack
    let ?n = "n\<lparr>cli := (cli n)\<lparr>rcv_nxt := seq + 1, snd_nxt := ack\<rparr>\<rparr>"
    let ?n1 = "tcp_send_flags dst src CLI_PORT sp ack (seq + 1) TCP_ACK [] ?n"
    have "net_ok ?n" using ok rx by (intro net_ok_cli) simp_all
    note s = send_ok [OF this, of "[]" dst src CLI_PORT sp ack "seq + 1" TCP_ACK]
    have "tcp_handle src dst sp dp seq ack fl payload n = ?n1\<lparr>cli := (cli ?n1)\<lparr>tcp_st := ST_ESTABLISHED\<rparr>\<rparr>"
      using synack by (simp add: tcp_handle_def Let_def)
    moreover have "net_ok (?n1\<lparr>cli := (cli ?n1)\<lparr>tcp_st := ST_ESTABLISHED\<rparr>\<rparr>)"
      using s(1,3) rx by (intro net_ok_cli) simp_all
    ultimately show ?thesis using s synack by (simp add: net_weight_def)
  next
    case data
    with tcp_data_weight [OF ok] w show ?thesis by auto
  next
    case other
    have "tcp_handle src dst sp dp seq ack fl payload n
      = (if dp = CLI_PORT \<and> fl AND TCP_FIN \<noteq> 0 \<and> tcp_st (cli n) = ST_ESTABLISHED
         then n\<lparr>cli := (cli n)\<lparr>tcp_st := ST_CLOSED\<rparr>\<rparr> else n)"
      unfolding tcp_handle_def Let_def by (simp only: other if_False)
    with ok w rx show ?thesis by (auto simp: net_weight_def intro!: net_ok_cli)
  qed
qed

lemma tcp_input_weight:
  assumes "net_ok n"
  shows "net_ok (tcp_ipv4_input d src dst n)
    \<and> (d ! 9 = IP_PROTO_TCP \<longrightarrow> net_weight (tcp_ipv4_input d src dst n) < net_weight n + pk_weight d)"
proof -
  let ?h = "unat (d ! 0 AND 0x0F) * 4"
  let ?off = "unat (drop_bit 4 (drop ?h d ! 12)) * 4"
  show ?thesis
  proof (cases "length d < ?h + 20 \<or> ?off < 20 \<or> length (drop ?h d) < ?off")
    case True
    then have "tcp_ipv4_input d src dst n = n" by (auto simp: tcp_ipv4_input_def Let_def)
    with assms show ?thesis by (simp add: pk_weight_bounds)
  next
    case False
    let ?w = "pk_weight d"
    have eq: "tcp_ipv4_input d src dst n = tcp_handle src dst (rd16 (drop ?h d) 0) (rd16 (drop ?h d) 2)
        (rd_ip4 (drop ?h d) 4) (rd_ip4 (drop ?h d) 8) (drop ?h d ! 13) (drop ?off (drop ?h d)) n"
      using False unfolding tcp_ipv4_input_def Let_def by (simp only: de_Morgan_disj if_False simp_thms)
    show ?thesis
    proof (cases "d ! 9 = IP_PROTO_TCP")
      case True
      have "?h \<le> length d" using False by linarith
      then have "drop ?h d ! 13 = d ! (?h + 13)" by simp
      then have "drop ?h d ! 13 AND TCP_PSH \<noteq> 0 \<longrightarrow> ?w = 2"
        using True by (simp add: pk_weight_def Let_def)
      from tcp_handle_weight [OF assms this pk_weight_bounds(1)] show ?thesis unfolding eq by blast
    next
      case False
      have "drop ?h d ! 13 AND TCP_PSH \<noteq> 0 \<longrightarrow> (2 :: nat) = 2" by simp
      from tcp_handle_weight [OF assms this] False show ?thesis unfolding eq by simp
    qed
  qed
qed

lemma ipv4_input_weight:
  assumes "net_ok n"
  shows "net_ok (ipv4_input d n) \<and> net_weight (ipv4_input d n) < net_weight n + pk_weight d"
proof (cases "length d < 20 \<or> unat (d ! 0 AND 0x0F) * 4 < 20 \<or> length d < unat (d ! 0 AND 0x0F) * 4")
  case True
  then have "ipv4_input d n = n" by (auto simp: ipv4_input_def Let_def)
  with assms show ?thesis by (simp add: pk_weight_bounds)
next
  case False
  then have "ipv4_input d n = (if d ! 9 = IP_PROTO_ICMP then icmp_input d (unat (d ! 0 AND 0x0F) * 4) n
      else if d ! 9 = IP_PROTO_TCP then tcp_ipv4_input d (rd_ip4 d 12) (rd_ip4 d 16) n else n)"
    unfolding ipv4_input_def Let_def by (simp only: de_Morgan_disj if_False simp_thms)
  with icmp_weight [OF assms, of d] tcp_input_weight [OF assms, of d] assms show ?thesis
    by (simp add: pk_weight_bounds)
qed

lemma net_poll_drains:
  assumes "net_ok n"
  shows "\<exists>n'. net_poll n = Some n' \<and> net_ok n' \<and> queue n' = []"
  using assms
proof (induction "net_weight n" arbitrary: n rule: less_induct)
  case less
  have inv: "lb_inv (lo n)" using less.prems by (simp add: net_ok_def)
  show ?case
  proof (cases "queue n")
    case Nil
    with inv less.prems show ?thesis by (simp add: net_poll_idle)
  next
    case (Cons d ds)
    from net_poll_step [OF inv Cons] obtain lb where
      step: "net_poll n = net_poll (ipv4_input d (n\<lparr>lo := lb\<rparr>))" and lb: "lb_inv lb" "lb_items lb = ds" .
    have "net_ok (n\<lparr>lo := lb\<rparr>)" using less.prems lb by (simp add: net_ok_def)
    note w = ipv4_input_weight [OF this, of d]
    have "net_weight (n\<lparr>lo := lb\<rparr>) + pk_weight d = net_weight n"
      using Cons lb by (simp add: net_weight_def q_weight_def)
    with w less.hyps [of "ipv4_input d (n\<lparr>lo := lb\<rparr>)"] step show ?thesis by simp
  qed
qed

lemma net_polls_drain:
  assumes "net_ok n" and "0 < k"
  shows "\<exists>n'. net_polls k n = Some n' \<and> net_ok n' \<and> queue n' = []"
  using net_poll_drains [OF assms(1)] net_polls_settle assms(2) by (metis net_ok_def)

end
