(* ===== verification/Netclient.thy ===== *)
theory Netclient
  imports Netstack
begin

text \<open>
  The two clients of the network stack, \<open>net_ping\<close> and \<open>net_http_get_loopback\<close>, run to their
  end: the packets of the exchange are followed one by one through \<open>net_poll\<close>. Then the
  properties of the network stack.
\<close>

section \<open>Following a connection\<close>

abbreviation N :: "tcb \<Rightarrow> tcb \<Rightarrow> loopback \<Rightarrow> nat \<Rightarrow> net" where
  "N s c b k \<equiv> \<lparr>srv = s, cli = c, lo = b, icmp_echo_reply_rx = k\<rparr>"

lemma net_poll_tcp:
  assumes "lb_inv b" and "lb_items b = tcp_packet sip dip sp dp seq ack fl data # ds"
  obtains b' where "net_poll (N s c b k) = net_poll (tcp_handle sip dip sp dp seq ack fl data (N s c b' k))"
    and "lb_inv b'" and "lb_items b' = ds"
proof -
  have "lb_inv (lo (N s c b k))" "queue (N s c b k) = tcp_packet sip dip sp dp seq ack fl data # ds"
    using assms by simp_all
  from net_poll_step [OF this] obtain b' where
    "net_poll (N s c b k) = net_poll (ipv4_input (tcp_packet sip dip sp dp seq ack fl data) (N s c b k\<lparr>lo := b'\<rparr>))"
    "lb_inv b'" "lb_items b' = ds" .
  then show ?thesis by (intro that [of b']) (simp_all add: ipv4_input_tcp_packet)
qed

lemma send_tcp:
  assumes "lb_inv b" and "length (lb_items b) < 15" and "length data \<le> 1260"
  obtains b' where "\<And>s c k. tcp_send_flags sip dip sp dp seq ack fl data (N s c b k) = N s c b' k"
    and "lb_inv b'" and "lb_items b' = lb_items b @ [tcp_packet sip dip sp dp seq ack fl data]"
proof -
  let ?p = "tcp_packet sip dip sp dp seq ack fl data"
  let ?b = "loopback_xmit ?p (int (length ?p)) b"
  have p: "0 < length ?p" "length ?p \<le> LB_MTU"
    using assms(3) by (simp_all add: tcp_packet_def LB_MTU_def)
  have "tcp_send_flags sip dip sp dp seq ack fl data (N s c b k) = N s c ?b k" for s c k
    using assms(3) by (simp add: tcp_send_flags_def ipv4_output_eq tcp_packet_def)
  with that xmit_items [OF assms(1) p] assms(2) show ?thesis by (simp add: LB_Q_def)
qed

abbreviation LOCALHOST :: u32 where "LOCALHOST \<equiv> NET_IPV4_LOOPBACK"

text \<open>The three-way handshake of the built-in client with the built-in server.\<close>

lemma handshake_poll:
  assumes inv: "lb_inv b"
    and q: "lb_items b = [tcp_packet LOCALHOST LOCALHOST CLI_PORT SRV_PORT 10000 0 TCP_SYN []]"
    and st: "tcp_st s = ST_LISTEN" "tcp_st c = ST_SYN_SENT"
  shows "\<exists>s' b'. net_poll (N s c b k)
      = Some (N s' (c\<lparr>rcv_nxt := 50001, snd_nxt := 10001, tcp_st := ST_ESTABLISHED\<rparr>) b' k)
    \<and> lb_inv b' \<and> lb_items b' = [] \<and> tcp_st s' = ST_ESTABLISHED \<and> snd_nxt s' = 50001"
proof -
  define s1 where "s1 = s\<lparr>tcp_st := ST_SYN_RCVD, remote_ip := LOCALHOST, remote_port := CLI_PORT,
      rcv_nxt := 10001, iss := 50000, snd_una := 50000, snd_nxt := 50001\<rparr>"
  define c1 where "c1 = c\<lparr>rcv_nxt := 50001, snd_nxt := 10001\<rparr>"
  define c2 where "c2 = c1\<lparr>tcp_st := ST_ESTABLISHED\<rparr>"
  define s2 where "s2 = s1\<lparr>tcp_st := ST_ESTABLISHED, rcv_nxt := 10002\<rparr>"
  from net_poll_tcp [OF inv q] obtain b1 where
    p1: "net_poll (N s c b k) = net_poll (tcp_handle LOCALHOST LOCALHOST CLI_PORT SRV_PORT 10000 0 TCP_SYN []
          (N s c b1 k))" and b1: "lb_inv b1" "lb_items b1 = []" .
  have "length (lb_items b1) < 15" using b1 by simp
  from send_tcp [OF b1(1) this, of "[]" LOCALHOST LOCALHOST SRV_PORT CLI_PORT 50000 10001 "TCP_SYN OR TCP_ACK"]
  obtain b2 where send2: "\<And>s c k. tcp_send_flags LOCALHOST LOCALHOST SRV_PORT CLI_PORT 50000 10001
      (TCP_SYN OR TCP_ACK) [] (N s c b1 k) = N s c b2 k" and b2: "lb_inv b2"
    "lb_items b2 = [tcp_packet LOCALHOST LOCALHOST SRV_PORT CLI_PORT 50000 10001 (TCP_SYN OR TCP_ACK) []]"
    using b1 by auto
  have h1: "tcp_handle LOCALHOST LOCALHOST CLI_PORT SRV_PORT 10000 0 TCP_SYN [] (N s c b1 k) = N s1 c b2 k"
    using st by (simp add: tcp_handle_def Let_def s1_def send2)
  from net_poll_tcp [OF b2] obtain b3 where
    p2: "net_poll (N s1 c b2 k) = net_poll (tcp_handle LOCALHOST LOCALHOST SRV_PORT CLI_PORT 50000 10001
          (TCP_SYN OR TCP_ACK) [] (N s1 c b3 k))" and b3: "lb_inv b3" "lb_items b3 = []" .
  have "length (lb_items b3) < 15" using b3 by simp
  from send_tcp [OF b3(1) this, of "[]" LOCALHOST LOCALHOST CLI_PORT SRV_PORT 10001 50001 TCP_ACK]
  obtain b4 where send4: "\<And>s c k. tcp_send_flags LOCALHOST LOCALHOST CLI_PORT SRV_PORT 10001 50001 TCP_ACK []
      (N s c b3 k) = N s c b4 k" and b4: "lb_inv b4"
    "lb_items b4 = [tcp_packet LOCALHOST LOCALHOST CLI_PORT SRV_PORT 10001 50001 TCP_ACK []]"
    using b3 by auto
  have h2: "tcp_handle LOCALHOST LOCALHOST SRV_PORT CLI_PORT 50000 10001 (TCP_SYN OR TCP_ACK) [] (N s1 c b3 k)
      = N s1 c2 b4 k"
    using st by (simp add: tcp_handle_def Let_def c2_def c1_def s1_def send4)
  from net_poll_tcp [OF b4] obtain b5 where
    p3: "net_poll (N s1 c2 b4 k) = net_poll (tcp_handle LOCALHOST LOCALHOST CLI_PORT SRV_PORT 10001 50001 TCP_ACK []
          (N s1 c2 b5 k))" and b5: "lb_inv b5" "lb_items b5 = []" .
  have h3: "tcp_handle LOCALHOST LOCALHOST CLI_PORT SRV_PORT 10001 50001 TCP_ACK [] (N s1 c2 b5 k) = N s2 c2 b5 k"
    by (simp add: tcp_handle_def Let_def s1_def s2_def)
  have "net_poll (N s2 c2 b5 k) = Some (N s2 c2 b5 k)" using b5 by (intro net_poll_idle) simp_all
  then have "net_poll (N s c b k) = Some (N s2 c2 b5 k)" using p1 h1 p2 h2 p3 h3 by simp
  with b5 show ?thesis
    by (intro exI [of _ s2] exI [of _ b5]) (simp add: s2_def s1_def c2_def c1_def)
qed

text \<open>The request and its response over an established connection.\<close>

text \<open>The server acknowledges the request and pushes the page behind the acknowledgement.\<close>

lemma server_answers:
  assumes inv: "lb_inv b"
    and q: "lb_items b = [tcp_packet LOCALHOST LOCALHOST CLI_PORT SRV_PORT seq ack (TCP_ACK OR TCP_PSH) req]"
    and st: "tcp_st s = ST_ESTABLISHED"
  defines "num \<equiv> seq + of_nat (length req)" and "resp \<equiv> http_head @ http_body"
  obtains b' where "net_poll (N s c b k)
      = net_poll (N (s\<lparr>rcv_nxt := num, snd_nxt := snd_nxt s + of_nat (length resp), tcp_st := ST_CLOSED\<rparr>) c b' k)"
    and "lb_inv b'" and "lb_items b' = [tcp_packet LOCALHOST LOCALHOST SRV_PORT CLI_PORT (snd_nxt s) num TCP_ACK [],
      tcp_packet LOCALHOST LOCALHOST SRV_PORT CLI_PORT (snd_nxt s) num (TCP_ACK OR TCP_PSH) resp]"
proof -
  from net_poll_tcp [OF inv q] obtain b1 where
    p1: "net_poll (N s c b k) = net_poll (tcp_handle LOCALHOST LOCALHOST CLI_PORT SRV_PORT seq ack
          (TCP_ACK OR TCP_PSH) req (N s c b1 k))" and b1: "lb_inv b1" "lb_items b1 = []" .
  have "length (lb_items b1) < 15" using b1 by simp
  from send_tcp [OF b1(1) this, of "[]" LOCALHOST LOCALHOST SRV_PORT CLI_PORT "snd_nxt s" num TCP_ACK]
  obtain b2 where send2: "\<And>s' c k. tcp_send_flags LOCALHOST LOCALHOST SRV_PORT CLI_PORT (snd_nxt s) num
      TCP_ACK [] (N s' c b1 k) = N s' c b2 k" and b2: "lb_inv b2"
    "lb_items b2 = [tcp_packet LOCALHOST LOCALHOST SRV_PORT CLI_PORT (snd_nxt s) num TCP_ACK []]"
    using b1 by auto
  have "length (lb_items b2) < 15" "length resp \<le> 1260" using b2 length_response by (simp_all add: resp_def)
  from send_tcp [OF b2(1) this, of LOCALHOST LOCALHOST SRV_PORT CLI_PORT "snd_nxt s" num "TCP_ACK OR TCP_PSH"]
  obtain b3 where send3: "\<And>s' c k. tcp_send_flags LOCALHOST LOCALHOST SRV_PORT CLI_PORT (snd_nxt s) num
      (TCP_ACK OR TCP_PSH) resp (N s' c b2 k) = N s' c b3 k" and b3: "lb_inv b3"
    "lb_items b3 = lb_items b2 @ [tcp_packet LOCALHOST LOCALHOST SRV_PORT CLI_PORT (snd_nxt s) num (TCP_ACK OR TCP_PSH) resp]"
    by auto
  have "tcp_handle LOCALHOST LOCALHOST CLI_PORT SRV_PORT seq ack (TCP_ACK OR TCP_PSH) req (N s c b1 k)
      = N (s\<lparr>rcv_nxt := num, snd_nxt := snd_nxt s + of_nat (length resp), tcp_st := ST_CLOSED\<rparr>) c b3 k"
    using st send2 send3 by (simp add: tcp_handle_def Let_def num_def resp_def)
  with p1 b3 b2 show thesis by (intro that [of b3]) simp_all
qed

text \<open>The client takes the page and acknowledges it, which the closed server ignores.\<close>

lemma client_takes:
  assumes inv: "lb_inv b"
    and q: "lb_items b = [tcp_packet LOCALHOST LOCALHOST SRV_PORT CLI_PORT seq ack (TCP_ACK OR TCP_PSH) page]"
    and len: "length page \<le> 1260"
    and st: "tcp_st s = ST_CLOSED" "tcp_st c = ST_ESTABLISHED" "rx_len c = 0"
  defines "c' \<equiv> c\<lparr>tcp_rx := blit (tcp_rx c) 0 page, rx_len := length page, rcv_nxt := seq + of_nat (length page)\<rparr>"
  obtains b' where "net_poll (N s c b k) = Some (N s c' b' k)" and "lb_inv b'" and "lb_items b' = []"
proof -
  from net_poll_tcp [OF inv q] obtain b1 where
    p1: "net_poll (N s c b k) = net_poll (tcp_handle LOCALHOST LOCALHOST SRV_PORT CLI_PORT seq ack
          (TCP_ACK OR TCP_PSH) page (N s c b1 k))" and b1: "lb_inv b1" "lb_items b1 = []" .
  have "length (lb_items b1) < 15" using b1 by simp
  from send_tcp [OF b1(1) this, of "[]" LOCALHOST LOCALHOST CLI_PORT SRV_PORT "snd_nxt c'" "rcv_nxt c'" TCP_ACK]
  obtain b2 where send2: "\<And>s c k. tcp_send_flags LOCALHOST LOCALHOST CLI_PORT SRV_PORT (snd_nxt c') (rcv_nxt c')
      TCP_ACK [] (N s c b1 k) = N s c b2 k" and b2: "lb_inv b2"
    "lb_items b2 = [tcp_packet LOCALHOST LOCALHOST CLI_PORT SRV_PORT (snd_nxt c') (rcv_nxt c') TCP_ACK []]"
    using b1 by auto
  have "length page < RX_SIZE" using len by (simp add: RX_SIZE_def)
  then have h1: "tcp_handle LOCALHOST LOCALHOST SRV_PORT CLI_PORT seq ack (TCP_ACK OR TCP_PSH) page (N s c b1 k) = N s c' b2 k"
    using st send2 by (simp add: tcp_handle_def Let_def c'_def)
  from net_poll_tcp [OF b2] obtain b3 where
    p2: "net_poll (N s c' b2 k) = net_poll (tcp_handle LOCALHOST LOCALHOST CLI_PORT SRV_PORT (snd_nxt c') (rcv_nxt c')
          TCP_ACK [] (N s c' b3 k))" and b3: "lb_inv b3" "lb_items b3 = []" .
  have "tcp_handle LOCALHOST LOCALHOST CLI_PORT SRV_PORT (snd_nxt c') (rcv_nxt c') TCP_ACK [] (N s c' b3 k) = N s c' b3 k"
    using st by (simp add: tcp_handle_def Let_def)
  moreover have "net_poll (N s c' b3 k) = Some (N s c' b3 k)" using b3 by (intro net_poll_idle) simp_all
  ultimately show thesis using that p1 h1 p2 b3 by simp
qed

lemma exchange_poll:
  assumes inv: "lb_inv b"
    and q: "lb_items b = [tcp_packet LOCALHOST LOCALHOST CLI_PORT SRV_PORT seq ack (TCP_ACK OR TCP_PSH) req]"
    and st: "tcp_st s = ST_ESTABLISHED" "tcp_st c = ST_ESTABLISHED" "rx_len c = 0"
  shows "\<exists>s' c' b'. net_poll (N s c b k) = Some (N s' c' b' k)
    \<and> lb_inv b' \<and> lb_items b' = [] \<and> tcp_st s' = ST_CLOSED
    \<and> rx_len c' = length (http_head @ http_body)
    \<and> tcp_rx c' = blit (tcp_rx c) 0 (http_head @ http_body)"
proof -
  let ?resp = "http_head @ http_body" and ?n = "seq + of_nat (length req) :: u32"
  let ?s = "s\<lparr>rcv_nxt := ?n, snd_nxt := snd_nxt s + of_nat (length ?resp), tcp_st := ST_CLOSED\<rparr>"
  from server_answers [OF inv q st(1)] obtain b1 where
    p1: "net_poll (N s c b k) = net_poll (N ?s c b1 k)" and b1: "lb_inv b1"
    "lb_items b1 = tcp_packet LOCALHOST LOCALHOST SRV_PORT CLI_PORT (snd_nxt s) ?n TCP_ACK []
      # [tcp_packet LOCALHOST LOCALHOST SRV_PORT CLI_PORT (snd_nxt s) ?n (TCP_ACK OR TCP_PSH) ?resp]" .
  from net_poll_tcp [OF b1] obtain b2 where
    p2: "net_poll (N ?s c b1 k) = net_poll (tcp_handle LOCALHOST LOCALHOST SRV_PORT CLI_PORT (snd_nxt s) ?n TCP_ACK []
          (N ?s c b2 k))" and b2: "lb_inv b2"
    "lb_items b2 = [tcp_packet LOCALHOST LOCALHOST SRV_PORT CLI_PORT (snd_nxt s) ?n (TCP_ACK OR TCP_PSH) ?resp]" .
  have "tcp_handle LOCALHOST LOCALHOST SRV_PORT CLI_PORT (snd_nxt s) ?n TCP_ACK [] (N ?s c b2 k) = N ?s c b2 k"
    by (simp add: tcp_handle_def Let_def)
  with p1 p2 have p3: "net_poll (N s c b k) = net_poll (N ?s c b2 k)" by simp
  have len: "length ?resp \<le> 1260" using length_response by simp
  obtain b3 where "net_poll (N ?s c b2 k) = Some (N ?s (c\<lparr>tcp_rx := blit (tcp_rx c) 0 ?resp, rx_len := length ?resp,
        rcv_nxt := snd_nxt s + of_nat (length ?resp)\<rparr>) b3 k)" "lb_inv b3" "lb_items b3 = []"
    by (rule client_takes [OF b2 len _ st(2,3), of ?s k]) simp_all
  with p3 show ?thesis by (intro exI conjI) (simp, simp_all)
qed

section \<open>The HTTP client\<close>

lemma find_body_response: "find_body (http_head @ http_body) 0 = length http_head"
  by (simp add: http_head_def http_body_def bytes_of_def CRLF_def)

lemma length_http_req: "length http_req = 35"
  by (simp add: http_req_def bytes_of_def CRLF_def)

lemma int_of_size:
  assumes "unat (x :: u64) < 2 ^ 31"
  shows "sint (ucast x :: u32) = int (unat x)"
proof -
  have "uint x < 2 ^ 31" using assms by (metis of_nat_less_iff of_nat_numeral of_nat_power uint_nat)
  moreover have "signed_take_bit 31 (uint x) = uint x"
    using calculation by (intro signed_take_bit_int_eq_self) (auto intro: order_trans [OF _ uint_ge_0])
  ultimately show ?thesis
    by (simp add: sint_uint uint_nat [symmetric] unsigned_ucast_eq take_bit_int_eq_self)
qed

lemma http_get_runs:
  assumes ok: "net_ok n" and q: "queue n = []" and "2 \<le> max_out" and max: "unat max_out < 2 ^ 31"
  shows "\<exists>n'. net_http_get_loopback False max_out n
    = Some (int (min (unat max_out - 1) (length http_body)), take (unat max_out - 1) http_body @ [0], n')
    \<and> net_ok n' \<and> queue n' = []"
proof -
  obtain s c b k where n: "n = N s c b k" by (cases n) auto
  have b: "lb_inv b" "length (lb_items b) < 15" and rx: "length (tcp_rx c) = RX_SIZE"
    using ok q unfolding n by (simp_all add: net_ok_def)
  define s1 where "s1 = s\<lparr>tcp_st := ST_LISTEN, local_port := SRV_PORT, rx_len := 0\<rparr>"
  define c1 where "c1 = c\<lparr>tcp_st := ST_SYN_SENT, rx_len := 0, local_port := CLI_PORT, remote_ip := LOCALHOST,
      remote_port := SRV_PORT, iss := 10000, snd_una := 10000, snd_nxt := 10001\<rparr>"
  from send_tcp [OF b, of "[]" LOCALHOST LOCALHOST CLI_PORT SRV_PORT 10000 0 TCP_SYN] obtain b1 where
    send: "\<And>s c k. tcp_send_flags LOCALHOST LOCALHOST CLI_PORT SRV_PORT 10000 0 TCP_SYN [] (N s c b k) = N s c b1 k"
    and b1: "lb_inv b1" "lb_items b1 = [tcp_packet LOCALHOST LOCALHOST CLI_PORT SRV_PORT 10000 0 TCP_SYN []]"
    using q n by auto
  have con: "tcp_connect_send_get LOCALHOST (tcp_reset n) = N s1 c1 b1 k"
    by (simp add: n tcp_connect_send_get_def tcp_reset_def tcp_init_def Let_def send s1_def c1_def)
  have "tcp_st s1 = ST_LISTEN" "tcp_st c1 = ST_SYN_SENT" by (simp_all add: s1_def c1_def)
  from handshake_poll [OF b1 this] obtain s2 b2 where
    hs: "net_poll (N s1 c1 b1 k) = Some (N s2 (c1\<lparr>rcv_nxt := 50001, snd_nxt := 10001, tcp_st := ST_ESTABLISHED\<rparr>) b2 k)"
    and b2: "lb_inv b2" "lb_items b2 = []" and st2: "tcp_st s2 = ST_ESTABLISHED" by blast
  define c2 where "c2 = c1\<lparr>rcv_nxt := 50001, snd_nxt := 10001, tcp_st := ST_ESTABLISHED\<rparr>"
  have poll1: "net_polls 8000 (N s1 c1 b1 k) = Some (N s2 c2 b2 k)"
    using b2 hs by (intro net_polls_settle) (simp_all add: c2_def)
  have "length (lb_items b2) < 15" "length http_req \<le> 1260" using b2 length_http_req by simp_all
  from send_tcp [OF b2(1) this, of LOCALHOST LOCALHOST CLI_PORT SRV_PORT 10001 50001 "TCP_ACK OR TCP_PSH"]
  obtain b3 where send3: "\<And>s c k. tcp_send_flags LOCALHOST LOCALHOST CLI_PORT SRV_PORT 10001 50001 (TCP_ACK OR TCP_PSH)
      http_req (N s c b2 k) = N s c b3 k" and b3: "lb_inv b3"
    "lb_items b3 = [tcp_packet LOCALHOST LOCALHOST CLI_PORT SRV_PORT 10001 50001 (TCP_ACK OR TCP_PSH) http_req]"
    using b2 by auto
  define c3 where "c3 = c2\<lparr>snd_nxt := 10001 + of_nat (length http_req)\<rparr>"
  have sd: "tcp_send_data http_req (N s2 c2 b2 k) = Some (0, N s2 c3 b3 k)"
    using send3 length_http_req by (simp add: tcp_send_data_def Let_def c3_def c2_def)
  have c3: "tcp_st c3 = ST_ESTABLISHED" "rx_len c3 = 0" "tcp_rx c3 = tcp_rx c"
    by (simp_all add: c3_def c2_def c1_def)
  from exchange_poll [OF b3 st2 c3(1,2)] obtain s4 c4 b4 where
    ex: "net_poll (N s2 c3 b3 k) = Some (N s4 c4 b4 k)" and b4: "lb_inv b4" "lb_items b4 = []"
    and c4: "rx_len c4 = length (http_head @ http_body)" "tcp_rx c4 = blit (tcp_rx c) 0 (http_head @ http_body)"
    unfolding c3(3) by blast
  have poll2: "net_polls 8000 (N s2 c3 b3 k) = Some (N s4 c4 b4 k)"
    using b4 ex by (intro net_polls_settle) simp_all
  have rx4: "take (rx_len c4) (tcp_rx c4) = http_head @ http_body" "rx_len c4 \<noteq> 0"
    using blit_0_take [of "http_head @ http_body" "tcp_rx c"] length_response
    unfolding c4 by simp_all
  have ok4: "net_ok (N s4 c4 b4 k)"
    using b4 rx unfolding net_ok_def net.simps c4 length_response by (simp add: RX_SIZE_def length_response [simplified])
  have "nat (sint (ucast max_out :: u32) - 1) = unat max_out - 1"
    unfolding int_of_size [OF max] by linarith
  moreover have no_overflow: "(ucast max_out :: u32) \<noteq> 0x80000000"
  proof
    assume "(ucast max_out :: u32) = 0x80000000"
    then have "sint (ucast max_out :: u32) = - (2 ^ 31)" by simp
    with int_of_size [OF max] uint_ge_0 [of max_out] show False by simp
  qed
  ultimately have "net_http_get_loopback False max_out n
    = Some (int (min (unat max_out - 1) (length http_body)), take (unat max_out - 1) http_body @ [0], N s4 c4 b4 k)"
    using assms(3) rx4 no_overflow by (simp add: net_http_get_loopback_def con poll1 sd poll2 find_body_response Let_def not_less min.commute)
  with ok4 show ?thesis using b4 by auto
qed

section \<open>Ping\<close>

lemma icmp_loop:
  assumes "lb_inv b" and "lb_items b = ip_packet IP_PROTO_ICMP sip dip msg # ds"
  obtains b' where "net_poll (N s c b k) = net_poll (icmp_input (ip_packet IP_PROTO_ICMP sip dip msg) 20 (N s c b' k))"
    and "lb_inv b'" and "lb_items b' = ds"
proof -
  have "lb_inv (lo (N s c b k))" "queue (N s c b k) = ip_packet IP_PROTO_ICMP sip dip msg # ds"
    using assms by simp_all
  from net_poll_step [OF this] obtain b' where
    "net_poll (N s c b k) = net_poll (ipv4_input (ip_packet IP_PROTO_ICMP sip dip msg) (N s c b k\<lparr>lo := b'\<rparr>))"
    "lb_inv b'" "lb_items b' = ds" .
  then show ?thesis by (intro that [of b']) (simp_all add: ipv4_input_ip_packet)
qed

lemma answered_packet:
  "answered (ip_packet proto sip dip msg) 20 \<longleftrightarrow> 8 \<le> length msg \<and> msg ! 0 = ICMP_ECHO \<and> length msg \<le> 556"
  by (auto simp: answered_def)

lemma icmp_input_request:
  assumes "8 \<le> length msg" and "msg ! 0 = ICMP_ECHO" and "length msg \<le> 556"
    and "lb_inv (lo n)" and "length (queue n) < 15"
  obtains lb where "icmp_input (ip_packet IP_PROTO_ICMP sip dip msg) 20 n = n\<lparr>lo := lb\<rparr>" and "lb_inv lb"
    and "lb_items lb = queue n @ [ip_packet IP_PROTO_ICMP dip sip (icmp_reply msg)]"
proof -
  let ?p = "ip_packet IP_PROTO_ICMP dip sip (icmp_reply msg)"
  let ?lb = "loopback_xmit ?p (int (length ?p)) (lo n)"
  have "answered (ip_packet IP_PROTO_ICMP sip dip msg) 20" using assms by (simp add: answered_packet)
  from icmp_input_echo [OF this, of n] assms(1)
  have "icmp_input (ip_packet IP_PROTO_ICMP sip dip msg) 20 n = n\<lparr>lo := ?lb\<rparr>" by simp
  moreover have "0 < length ?p" "length ?p \<le> LB_MTU" using assms by (simp_all add: LB_MTU_def)
  ultimately show ?thesis using that xmit_items [OF assms(4), of ?p] assms(5) by (simp add: LB_Q_def)
qed

lemma ping_runs:
  assumes ok: "net_ok n" and q: "queue n = []"
  shows "\<exists>n'. net_ping dst n = Some (0, n') \<and> icmp_echo_reply_rx n' = 1 \<and> net_ok n' \<and> queue n' = []"
proof -
  obtain s c b k where n: "n = N s c b k" by (cases n) auto
  have b: "lb_inv b" "lb_items b = []" using ok q unfolding n by (simp_all add: net_ok_def)
  define msg where "msg = (let icmp = [ICMP_ECHO, 0, 0, 0, 0x12, 0x34, 0, 1]
      in blit icmp 2 (be16 (net_checksum16 icmp)))"
  have msg: "length msg = 8" "msg ! 0 = ICMP_ECHO" by (simp_all add: msg_def Let_def blit_def)
  let ?p = "ip_packet IP_PROTO_ICMP dst dst msg"
  let ?r = "ip_packet IP_PROTO_ICMP dst dst (icmp_reply msg)"
  define b1 where "b1 = loopback_xmit ?p (int (length ?p)) b"
  have "0 < length ?p" "length ?p \<le> LB_MTU" using msg by (simp_all add: LB_MTU_def)
  from xmit_items [OF b(1) this] have b1: "lb_inv b1" "lb_items b1 = [?p]"
    using b(2) by (simp_all add: b1_def LB_Q_def)
  have start: "icmp_send_echo_request dst (net_icmp_clear_reply n) = N s c b1 0"
    using msg by (simp add: icmp_send_echo_request_def net_icmp_clear_reply_def n Let_def ipv4_output_eq b1_def
        flip: msg_def [unfolded Let_def])
  from icmp_loop [OF b1] obtain b2 where
    p1: "net_poll (N s c b1 0) = net_poll (icmp_input ?p 20 (N s c b2 0))" and b2: "lb_inv b2" "lb_items b2 = []" .
  from icmp_input_request [of msg "N s c b2 0" dst dst] msg b2 obtain b3 where
    i1: "icmp_input ?p 20 (N s c b2 0) = N s c b3 0" and b3: "lb_inv b3" "lb_items b3 = [?r]" by auto
  from icmp_loop [OF b3] obtain b4 where
    p2: "net_poll (N s c b3 0) = net_poll (icmp_input ?r 20 (N s c b4 0))" and b4: "lb_inv b4" "lb_items b4 = []" .
  have "icmp_input ?r 20 (N s c b4 0) = N s c b4 1"
    using msg icmp_reply_type [of msg] by (simp add: icmp_input_def Let_def)
  moreover have "net_poll (N s c b4 1) = Some (N s c b4 1)" using b4 by (intro net_poll_idle) simp_all
  ultimately have "net_poll (N s c b1 0) = Some (N s c b4 1)" using p1 i1 p2 by simp
  then have "net_polls 8000 (N s c b1 0) = Some (N s c b4 1)"
    using b4 by (intro net_polls_settle) simp_all
  then show ?thesis using start b4 ok n by (simp add: net_ping_def net_ok_def)
qed

section \<open>Every state of the stack\<close>

lemma net_ok_lo: "net_ok n \<Longrightarrow> lb_inv lb \<Longrightarrow> net_ok (n\<lparr>lo := lb\<rparr>)"
  by (simp add: net_ok_def)

lemma net_ok_boot: "net_ok net_boot"
  using lb_inv_boot by (simp add: net_ok_def net_boot_def tcb_boot_def RX_SIZE_def)

lemma net_ok_init: "net_ok n \<Longrightarrow> net_ok (net_init n)"
  using lb_inv_clear by (simp add: net_ok_def net_init_def tcp_init_def net_icmp_clear_reply_def RX_SIZE_def)

lemma net_ok_connect: "net_ok n \<Longrightarrow> net_ok (tcp_connect_send_get ip (tcp_reset n))"
  unfolding tcp_connect_send_get_def Let_def
  by (rule send_ok(1)) (simp_all add: net_ok_def tcp_reset_def tcp_init_def RX_SIZE_def)

lemma net_ok_send_data:
  assumes "net_ok n" and "tcp_send_data data n = Some (r, n')"
  shows "net_ok n'"
proof (cases "tcp_st (cli n) = ST_ESTABLISHED")
  case False
  with assms show ?thesis by (simp add: tcp_send_data_def)
next
  case True
  let ?n = "tcp_send_flags LOCALHOST LOCALHOST CLI_PORT SRV_PORT (snd_nxt (cli n)) (rcv_nxt (cli n))
    (TCP_ACK OR TCP_PSH) data n"
  from True assms(2) have "length data \<le> 1260" and
    n': "n' = ?n\<lparr>cli := (cli ?n)\<lparr>snd_nxt := snd_nxt (cli ?n) + of_nat (length data)\<rparr>\<rparr>"
    by (auto simp: tcp_send_data_def Let_def split: if_splits)
  with send_ok(1) [OF assms(1)] have "net_ok ?n" by blast
  from net_ok_rx [OF this] this show ?thesis unfolding n' by (intro net_ok_cli) simp_all
qed

lemma net_ok_ping:
  assumes "net_ok n"
  shows "\<exists>r n'. net_ping dst n = Some (r, n') \<and> net_ok n' \<and> queue n' = []"
proof -
  let ?i = "blit [ICMP_ECHO, 0, 0, 0, 0x12, 0x34, 0, 1] 2
    (be16 (net_checksum16 [ICMP_ECHO, 0, 0, 0, 0x12, 0x34, 0, 1]))"
  let ?c = "net_icmp_clear_reply n"
  have "net_ok ?c" using assms by (simp add: net_ok_def net_icmp_clear_reply_def)
  moreover from this obtain lb where "ipv4_output IP_PROTO_ICMP dst dst ?i ?c = ?c\<lparr>lo := lb\<rparr>" "lb_inv lb"
    using output_effect [of ?c ?i IP_PROTO_ICMP dst dst] by (auto simp: net_ok_def)
  ultimately have "net_ok (icmp_send_echo_request dst ?c)"
    by (simp add: icmp_send_echo_request_def Let_def net_ok_lo)
  from net_polls_drain [OF this, of 8000] show ?thesis by (auto simp: net_ping_def)
qed

lemma net_ok_http:
  assumes "net_ok n"
    and "net_http_get_loopback out_null max_out n = Some (r', out, n')"
  shows "net_ok n'"
proof (cases "out_null \<or> max_out < 2")
  case True
  with assms show ?thesis by (auto simp: net_http_get_loopback_def)
next
  case False
  from net_polls_drain [OF net_ok_connect [OF assms(1)], of 8000 LOCALHOST] obtain n1 where
    p1: "net_polls 8000 (tcp_connect_send_get LOCALHOST (tcp_reset n)) = Some n1" "net_ok n1" by auto
  obtain r n2 where sd: "tcp_send_data http_req n1 = Some (r, n2)"
    by (cases "tcp_st (cli n1) = ST_ESTABLISHED") (auto simp: tcp_send_data_def length_http_req Let_def)
  have "net_ok n2" by (rule net_ok_send_data [OF p1(2) sd])
  moreover from net_polls_drain [OF this, of 8000] obtain n3 where "net_polls 8000 n2 = Some n3" "net_ok n3" by auto
  ultimately show ?thesis using False p1(1) sd assms(2)
    by (cases "r = 0"; cases "rx_len (cli n3) = 0") (auto simp: net_http_get_loopback_def Let_def split: if_splits)
qed

text \<open>
  All the states the stack can be in: initialisation, polling, ping, the HTTP client, data sent on
  the connection, and any datagram whatever put on the loopback interface.
\<close>

inductive net_reach :: "net \<Rightarrow> bool" where
  boot: "net_reach net_boot"
| init: "net_reach n \<Longrightarrow> net_reach (net_init n)"
| poll: "net_reach n \<Longrightarrow> net_poll n = Some n' \<Longrightarrow> net_reach n'"
| ping: "net_reach n \<Longrightarrow> net_ping dst n = Some (r, n') \<Longrightarrow> net_reach n'"
| http: "net_reach n \<Longrightarrow> net_http_get_loopback out_null max_out n = Some (r', out, n') \<Longrightarrow> net_reach n'"
| connect: "net_reach n \<Longrightarrow> net_reach (tcp_connect_send_get ip (tcp_reset n))"
| send: "net_reach n \<Longrightarrow> tcp_send_data data n = Some (r, n') \<Longrightarrow> net_reach n'"
| inject: "net_reach n \<Longrightarrow> net_reach (n\<lparr>lo := loopback_xmit d (int (length d)) (lo n)\<rparr>)"

lemma net_reach_ok: "net_reach n \<Longrightarrow> net_ok n"
proof (induction rule: net_reach.induct)
  case (poll n n')
  with net_poll_drains [of n] show ?case by auto
next
  case (ping n dst r n')
  with net_ok_ping [of n dst] show ?case by auto
next
  case (http n out_null max_out r' out n')
  with net_ok_http [of n out_null max_out r' out n'] show ?case by auto
next
  case (inject n d)
  then have "lb_inv (lb_push d (lo n))" by (simp add: net_ok_def lb_inv_push)
  with inject show ?case by (simp add: net_ok_lo lb_push_def)
qed (simp_all add: net_ok_boot net_ok_init net_ok_connect net_ok_send_data)

section \<open>Properties\<close>

text \<open>
  C4: \<open>net_poll\<close> returns from every reachable state, whatever datagrams were put on the loopback
  interface, and leaves nothing queued: the stack cannot keep itself busy for ever.
\<close>

theorem net_poll_returns:
  assumes "net_reach n"
  shows "\<exists>n'. net_poll n = Some n' \<and> lb_items (lo n') = []"
  using net_poll_drains [OF net_reach_ok [OF assms]] by blast

theorem net_poll_returns_witness:
  "\<exists>n'. net_poll (net_boot\<lparr>lo := loopback_xmit [1, 2, 3] (int (length [1, 2, 3 :: u8])) (lo net_boot)\<rparr>) = Some n'
    \<and> lb_items (lo n') = []"
  by (rule net_poll_returns) (rule net_reach.inject [OF net_reach.boot])

text \<open>
  C16: The HTTP client of the shell works end to end: on an idle stack the handshake, request and
  response run to completion, and \<open>net_http_get_loopback\<close> stores the page served by the built-in
  server, without the response header, cut to the room of the caller, and NUL terminated.
\<close>

theorem http_get_returns_page:
  assumes "net_reach n" and "lb_items (lo n) = []" and "2 \<le> max_out" and "unat max_out < 2 ^ 31"
  shows "\<exists>n'. net_http_get_loopback False max_out n
    = Some (int (min (unat max_out - 1) (length http_body)), take (unat max_out - 1) http_body @ [0], n')"
  using http_get_runs [OF net_reach_ok [OF assms(1)] assms(2-4)] by blast

theorem http_get_returns_page_witness:
  "\<exists>n'. net_http_get_loopback False 9 net_boot = Some (8, [60, 104, 116, 109, 108, 62, 60, 104, 0], n')"
proof -
  have "lb_items (lo net_boot) = []"
    by (simp add: net_boot_def loopback_boot_def lb_items_def lb_count_def ring_dist_def)
  from http_get_returns_page [OF net_reach.boot this, of 9]
  show ?thesis by (simp add: http_body_def bytes_of_def)
qed

text \<open>
  On an idle stack \<open>net_ping\<close> returns 0 after exactly one echo reply, for every destination
  address: the request goes to the loopback interface whatever the address is.
\<close>

theorem ping_succeeds:
  assumes "net_reach n" and "lb_items (lo n) = []"
  shows "\<exists>n'. net_ping dst n = Some (0, n') \<and> icmp_echo_reply_rx n' = 1"
  using ping_runs [OF net_reach_ok [OF assms(1)] assms(2)] by blast

theorem ping_succeeds_witness:
  "\<exists>n'. net_ping 0x08080808 net_boot = Some (0, n') \<and> icmp_echo_reply_rx n' = 1"
  by (rule ping_succeeds [OF net_reach.boot])
    (simp add: net_boot_def loopback_boot_def lb_items_def lb_count_def ring_dist_def)

text \<open>
  An echo request with a message of 8 to 556 bytes is answered by exactly one datagram with
  the addresses exchanged, type 0, and the identifier, sequence number and data of the request.
\<close>

theorem echo_request_answered:
  assumes "lb_inv (lo n)" and "length (lb_items (lo n)) < 15"
    and "8 \<le> length msg" and "length msg \<le> 556" and "msg ! 0 = ICMP_ECHO"
  shows "lb_items (lo (ipv4_input (ip_packet IP_PROTO_ICMP src dst msg) n))
      = lb_items (lo n) @ [ip_packet IP_PROTO_ICMP dst src (icmp_reply msg)]
    \<and> icmp_reply msg ! 0 = ICMP_ECHO_REPLY \<and> drop 4 (icmp_reply msg) = drop 4 msg"
proof -
  let ?x = "msg[0 := ICMP_ECHO_REPLY, 2 := 0, 3 := 0]"
  have "icmp_reply msg = (take 2 ?x @ be16 (net_checksum16 ?x)) @ drop 4 ?x"
    by (simp add: icmp_reply_def Let_def blit_def)
  moreover have "length (take 2 ?x @ be16 (net_checksum16 ?x)) = 4" using assms(3) by simp
  ultimately have "drop 4 (icmp_reply msg) = drop 4 ?x" by (metis append_eq_conv_conj)
  then have d: "drop 4 (icmp_reply msg) = drop 4 msg" by (simp add: drop_update_cancel)
  from icmp_input_request [OF assms(3,5,4,1,2), of src dst] obtain lb where
    "icmp_input (ip_packet IP_PROTO_ICMP src dst msg) 20 n = n\<lparr>lo := lb\<rparr>"
    "lb_items lb = lb_items (lo n) @ [ip_packet IP_PROTO_ICMP dst src (icmp_reply msg)]" .
  with d icmp_reply_type [OF assms(3)] show ?thesis by (simp add: ipv4_input_ip_packet)
qed

theorem echo_request_answered_witness:
  "lb_items (lo (ipv4_input (ip_packet IP_PROTO_ICMP 1 2 [ICMP_ECHO, 0, 0, 0, 7, 7, 0, 1, 42]) net_boot))
     = [ip_packet IP_PROTO_ICMP 2 1 (icmp_reply [ICMP_ECHO, 0, 0, 0, 7, 7, 0, 1, 42])]"
proof -
  have "lb_inv (lo net_boot)" "lb_items (lo net_boot) = []"
    using lb_inv_boot by (simp_all add: net_boot_def loopback_boot_def lb_items_def lb_count_def ring_dist_def)
  with echo_request_answered [of net_boot "[ICMP_ECHO, 0, 0, 0, 7, 7, 0, 1, 42]" 1 2] show ?thesis by simp
qed

text \<open>
  Every TCP segment the stack builds carries a checksum that verifies: recomputing it over
  the finished segment and its pseudo header gives 0, whatever the ports, numbers, flags and data.
\<close>

theorem tcp_segments_verify:
  assumes "length data \<le> 1260"
  shows "tcp_cksum src dst (tcp_segment src dst sport dport seq ack fl data) = 0"
  unfolding tcp_segment_eq using assms by (intro tcp_cksum_field_verifies) simp_all

theorem tcp_segments_verify_witness:
  "tcp_cksum 0x7F000001 0x7F000001 (tcp_segment 0x7F000001 0x7F000001 49152 80 10000 0 2 [72, 105, 33]) = 0"
  by (rule tcp_segments_verify) simp

text \<open>
  The IPv4 header checksum is computed on little endian words but stored high byte first, so
  the header of a packet verifies exactly when both checksum bytes happen to be equal. It would
  verify always if the low byte came first. The echo request to 127.0.0.1 does not verify.
\<close>

theorem ipv4_header_checksum_swapped:
  "(net_checksum16 (take 20 (ip_packet proto src dst body)) = 0
     \<longleftrightarrow> bswap16 (net_checksum16 (ipv4_header (20 + length body) proto src dst))
         = net_checksum16 (ipv4_header (20 + length body) proto src dst))
   \<and> net_checksum16 (blit (take 20 (ip_packet proto src dst body)) 10
       (le16 (net_checksum16 (ipv4_header (20 + length body) proto src dst)))) = 0
   \<and> net_checksum16 (take 20 (ip_packet IP_PROTO_ICMP LOCALHOST LOCALHOST (replicate 8 0))) \<noteq> 0"
proof (intro conjI)
  let ?pre = "[0x45, 0] @ be16 (of_nat (20 + length body)) @ [0, 0, 0, 0, 64, proto]"
  let ?post = "be32 src @ be32 dst"
  let ?c = "net_checksum16 (ipv4_header (20 + length body) proto src dst)"
  have hdr: "ipv4_header (20 + length body) proto src dst = ?pre @ [0, 0] @ ?post" by (rule ipv4_header_eq)
  have len: "length ?pre = 10" "length ?post = 8" by simp_all
  have t: "take 20 (ip_packet proto src dst body) = ?pre @ be16 ?c @ ?post"
    by (simp add: ip_packet_def ipv4_finish_eq)
  have "0 < le_sum ?pre" by (simp add: be16_def)
  then show "net_checksum16 (take 20 (ip_packet proto src dst body)) = 0 \<longleftrightarrow> bswap16 ?c = ?c"
    unfolding t hdr by (intro net_checksum16_swapped_verifies_iff) simp_all
  have "blit (take 20 (ip_packet proto src dst body)) 10 (le16 ?c) = ?pre @ le16 ?c @ ?post"
    unfolding t by (simp add: blit_def be16_def)
  moreover have "net_checksum16 (?pre @ le16 ?c @ ?post) = 0"
    unfolding hdr by (intro net_checksum16_field_verifies) simp_all
  ultimately show "net_checksum16 (blit (take 20 (ip_packet proto src dst body)) 10 (le16 ?c)) = 0" by simp
next
  let ?hdr = "ipv4_header 28 IP_PROTO_ICMP LOCALHOST LOCALHOST"
  have h: "?hdr = [0x45, 0, 0, 28, 0, 0, 0, 0, 64, 1, 0, 0, 127, 0, 0, 1, 127, 0, 0, 1]"
    by (simp add: ipv4_header_def be16_def be32_def IP_PROTO_ICMP_def NET_IPV4_LOOPBACK_def)
  let ?p = "ip_packet IP_PROTO_ICMP LOCALHOST LOCALHOST (replicate 8 0)"
  have c: "unat (net_checksum16 ?hdr) = 57212" unfolding h
    by (simp add: unat_net_checksum16 fold_nat_def)
  have t: "take 20 ?p = take 10 ?hdr @ be16 (net_checksum16 ?hdr) @ drop 12 ?hdr"
    unfolding ip_packet_def length_replicate numeral_plus_numeral semiring_norm ipv4_finish_eq
    by (simp add: ipv4_header_eq)
  have "le_sum (take 20 ?p) = unat (bswap16 (net_checksum16 ?hdr)) + 8323"
    unfolding t h by (simp add: be16_def bswap16_def unat_of_be16)
  then have "unat (net_checksum16 (take 20 ?p)) \<noteq> 0"
    by (simp add: unat_net_checksum16 fold_nat_def unat_bswap16 c)
  then show "net_checksum16 (take 20 ?p) \<noteq> 0" by (metis unat_0)
qed

end
