(* ===== verification/Nettcp.thy ===== *)
theory Nettcp
  imports Netclient "HOL-Library.Sublist"
begin

text \<open>
  The connection automata of \<^verbatim>\<open>src/kernel/net/net_tcp.c\<close>: whatever segments arrive, in whatever order, how far
  server and client have come is how far the sequence goes through the handshake.
\<close>

section \<open>Segments and the automata\<close>

record segment =
  seg_src :: u32
  seg_dst :: u32
  seg_sport :: u16
  seg_dport :: u16
  seg_seq :: u32
  seg_ack :: u32
  seg_fl :: u8
  seg_data :: "u8 list"

definition handle :: "segment \<Rightarrow> net \<Rightarrow> net" where
  "handle g = tcp_handle (seg_src g) (seg_dst g) (seg_sport g) (seg_dport g) (seg_seq g) (seg_ack g) (seg_fl g) (seg_data g)"

definition is_syn :: "segment \<Rightarrow> bool" where
  "is_syn g \<longleftrightarrow> seg_dport g = SRV_PORT \<and> seg_fl g AND TCP_SYN \<noteq> 0 \<and> seg_fl g AND TCP_ACK = 0"

definition has_ack :: "segment \<Rightarrow> bool" where
  "has_ack g \<longleftrightarrow> seg_dport g = SRV_PORT \<and> seg_fl g AND TCP_ACK \<noteq> 0 \<and> seg_fl g AND TCP_SYN = 0"

definition is_ack :: "segment \<Rightarrow> bool" where
  "is_ack g \<longleftrightarrow> has_ack g \<and> seg_ack g = 50001"

definition is_request :: "segment \<Rightarrow> bool" where
  "is_request g \<longleftrightarrow> seg_dport g = SRV_PORT \<and> seg_fl g AND TCP_PSH \<noteq> 0"

definition is_synack :: "segment \<Rightarrow> bool" where
  "is_synack g \<longleftrightarrow> seg_dport g = CLI_PORT \<and> seg_fl g AND TCP_SYN \<noteq> 0 \<and> seg_fl g AND TCP_ACK \<noteq> 0"

definition is_push :: "segment \<Rightarrow> bool" where
  "is_push g \<longleftrightarrow> seg_dport g = CLI_PORT \<and> seg_fl g AND TCP_PSH \<noteq> 0"

definition is_fin :: "segment \<Rightarrow> bool" where
  "is_fin g \<longleftrightarrow> seg_dport g = CLI_PORT \<and> seg_fl g AND TCP_FIN \<noteq> 0 \<and> seg_fl g AND TCP_PSH = 0"

text \<open>A packet as \<open>tcp_ipv4_input\<close> reads it, with the addresses it is given: dropped, or a segment.\<close>

definition seg_of :: "u8 list \<times> u32 \<times> u32 \<Rightarrow> segment option" where
  "seg_of = (\<lambda>(pkt, src, dst).
     let ihl = unat (pkt ! 0 AND 0x0F) * 4; th = drop ihl pkt; off = unat (drop_bit 4 (th ! 12)) * 4 in
     if length pkt < ihl + 20 \<or> off < 20 \<or> length th < off then None
     else Some \<lparr>seg_src = src, seg_dst = dst, seg_sport = rd16 th 0, seg_dport = rd16 th 2,
                seg_seq = rd_ip4 th 4, seg_ack = rd_ip4 th 8, seg_fl = th ! 13, seg_data = drop off th\<rparr>)"

definition segments :: "(u8 list \<times> u32 \<times> u32) list \<Rightarrow> segment list" where
  "segments = List.map_filter seg_of"

definition inputs :: "(u8 list \<times> u32 \<times> u32) list \<Rightarrow> net \<Rightarrow> net" where
  "inputs = fold (\<lambda>(pkt, src, dst). tcp_ipv4_input pkt src dst)"

section \<open>How far a sequence goes through the stages of an automaton\<close>

fun progress :: "('a \<Rightarrow> bool) list \<Rightarrow> 'a list \<Rightarrow> nat" where
  "progress [] gs = 0"
| "progress (p # ps) [] = 0"
| "progress (p # ps) (g # gs) = (if p g then Suc (progress ps gs) else progress (p # ps) gs)"

lemma progress_Nil [simp]: "progress ps [] = 0"
  by (cases ps) simp_all

lemma progress_le: "progress ps gs \<le> length ps"
  by (induction ps gs rule: progress.induct) simp_all

text \<open>A sequence reaches stage \<open>k\<close> when it has \<open>k\<close> elements, in their order, that open one stage each.\<close>

lemma progress_subseq:
  assumes "k \<le> length ps"
  shows "k \<le> progress ps gs \<longleftrightarrow> (\<exists>ys. subseq ys gs \<and> list_all2 (\<lambda>p. p) (take k ps) ys)"
  using assms
proof (induction ps gs arbitrary: k rule: progress.induct)
  case (3 p ps g gs)
  show ?case
  proof (cases k)
    case (Suc j)
    show ?thesis
    proof (cases "p g")
      case True
      have "(\<exists>ys. subseq ys (g # gs) \<and> list_all2 (\<lambda>p. p) (take k (p # ps)) ys)
        \<longleftrightarrow> (\<exists>ys. subseq ys gs \<and> list_all2 (\<lambda>p. p) (take j ps) ys)" (is "?l \<longleftrightarrow> ?r")
      proof
        assume ?l
        then obtain y ys where "subseq (y # ys) (g # gs)" "list_all2 (\<lambda>p. p) (take j ps) ys"
          by (auto simp: Suc list_all2_Cons1)
        then show ?r by (auto dest: subseq_Cons' split: if_splits)
      next
        assume ?r
        then obtain ys where "subseq ys gs" "list_all2 (\<lambda>p. p) (take j ps) ys" by blast
        with True have "subseq (g # ys) (g # gs)" "list_all2 (\<lambda>p. p) (take k (p # ps)) (g # ys)"
          by (simp_all add: Suc)
        then show ?l by blast
      qed
      with 3 True Suc show ?thesis by simp
    next
      case False
      have "subseq ys (g # gs) \<longleftrightarrow> subseq ys gs" if "list_all2 (\<lambda>p. p) (take k (p # ps)) ys" for ys
        using that False by (auto simp: Suc list_all2_Cons1 split: if_splits)
      with 3 False show ?thesis by auto
    qed
  qed auto
qed (auto simp: take_Cons list_all2_Cons1 split: nat.splits)

text \<open>The contract of an automaton driven by the elements of a sequence: in the state of stage \<open>k\<close> it takes the
  step to the next stage exactly when the element opens it.\<close>

locale staged =
  fixes step :: "'g \<Rightarrow> 'c \<Rightarrow> 'c"
    and st :: "'c \<Rightarrow> 's"
    and inv :: "'c \<Rightarrow> bool"
    and path :: "'s list"
    and stages :: "('g \<Rightarrow> bool) list"
  assumes path_stages: "length path = Suc (length stages)"
    and step_inv: "inv c \<Longrightarrow> inv (step g c)"
    and step_stage: "inv c \<Longrightarrow> k < length stages \<Longrightarrow> st c = path ! k
      \<Longrightarrow> st (step g c) = path ! (if (stages ! k) g then Suc k else k)"
    and step_last: "inv c \<Longrightarrow> st c = last path \<Longrightarrow> st (step g c) = last path"
begin

lemma follows:
  assumes "inv c" and "k \<le> length stages" and "st c = path ! k"
  shows "st (fold step gs c) = path ! (k + progress (drop k stages) gs)"
  using assms
proof (induction gs arbitrary: c k)
  case (Cons g gs)
  show ?case
  proof (cases "k < length stages")
    case True
    then have "progress (drop k stages) (g # gs)
        = (if (stages ! k) g then Suc (progress (drop (Suc k) stages) gs) else progress (drop k stages) gs)"
      by (simp add: Cons_nth_drop_Suc [symmetric])
    moreover note IH = Cons.IH [OF step_inv [OF Cons.prems(1)], of _ g]
      and stage = step_stage [OF Cons.prems(1) True Cons.prems(3), of g]
    ultimately show ?thesis using IH [of k] IH [of "Suc k"] stage True by auto
  next
    case False
    with Cons.prems have k: "k = length stages" by simp
    have last: "last path = path ! k" by (subst last_conv_nth) (use path_stages k in auto)
    have "st (step g c) = path ! k" using step_last [OF Cons.prems(1)] Cons.prems(3) last by simp
    from Cons.IH [OF step_inv [OF Cons.prems(1)] _ this] k show ?thesis by simp
  qed
qed simp

end

section \<open>The handler follows the automata\<close>

lemma send_fields [simp]:
  "srv (tcp_send_flags s d sp dp seq ack fl data n) = srv n" "cli (tcp_send_flags s d sp dp seq ack fl data n) = cli n"
  by (simp_all add: tcp_send_flags_def ipv4_output_def Let_def)

text \<open>The server's block after a segment depends on the server's block alone, and the client's on the client's.\<close>

definition srv_after :: "segment \<Rightarrow> tcb \<Rightarrow> tcb" where
  "srv_after g s =
     (if is_syn g \<and> tcp_st s = ST_LISTEN
      then s\<lparr>tcp_st := ST_SYN_RCVD, remote_ip := seg_src g, remote_port := seg_sport g,
             rcv_nxt := seg_seq g + 1, iss := 50000, snd_una := 50000, snd_nxt := 50000 + 1\<rparr>
      else if has_ack g \<and> tcp_st s = ST_SYN_RCVD
      then (if seg_ack g = iss s + 1 then s\<lparr>tcp_st := ST_ESTABLISHED, rcv_nxt := seg_seq g + 1\<rparr> else s)
      else if is_request g \<and> tcp_st s = ST_ESTABLISHED
      then s\<lparr>rcv_nxt := seg_seq g + of_nat (length (seg_data g)),
             snd_nxt := snd_nxt s + of_nat (length (http_head @ http_body)), tcp_st := ST_CLOSED\<rparr>
      else s)"

definition cli_after :: "segment \<Rightarrow> tcb \<Rightarrow> tcb" where
  "cli_after g c =
     (if is_synack g \<and> tcp_st c = ST_SYN_SENT
      then c\<lparr>rcv_nxt := seg_seq g + 1, snd_nxt := seg_ack g, tcp_st := ST_ESTABLISHED\<rparr>
      else if is_push g \<and> tcp_st c = ST_ESTABLISHED
      then (if length (seg_data g) + rx_len c < RX_SIZE
            then c\<lparr>tcp_rx := blit (tcp_rx c) (rx_len c) (seg_data g), rx_len := rx_len c + length (seg_data g)\<rparr>
            else c)\<lparr>rcv_nxt := seg_seq g + of_nat (length (seg_data g))\<rparr>
      else if is_fin g \<and> tcp_st c = ST_ESTABLISHED then c\<lparr>tcp_st := ST_CLOSED\<rparr>
      else c)"

lemma ports_differ: "CLI_PORT \<noteq> SRV_PORT" "SRV_PORT \<noteq> CLI_PORT"
  by (simp_all add: CLI_PORT_def SRV_PORT_def)

lemma handle_srv [simp]: "srv (handle g n) = srv_after g (srv n)"
  unfolding handle_def tcp_handle_def Let_def srv_after_def is_syn_def has_ack_def is_request_def
  by (simp add: if_distrib [of srv] ports_differ del: length_append cong: if_cong)

lemma handle_cli [simp]: "cli (handle g n) = cli_after g (cli n)"
  unfolding handle_def tcp_handle_def Let_def cli_after_def is_synack_def is_push_def is_fin_def
  by (simp add: if_distrib [of cli] ports_differ del: length_append cong: if_cong)

lemma tcp_ipv4_input_seg:
  "tcp_ipv4_input pkt src dst n = (case seg_of (pkt, src, dst) of None \<Rightarrow> n | Some g \<Rightarrow> handle g n)"
  by (simp add: tcp_ipv4_input_def seg_of_def handle_def Let_def)

lemma inputs_blocks:
  "srv (inputs ps n) = fold srv_after (segments ps) (srv n)"
  "cli (inputs ps n) = fold cli_after (segments ps) (cli n)"
  by (induction ps arbitrary: n)
    (simp_all add: inputs_def segments_def tcp_ipv4_input_seg map_filter_simps split: prod.splits option.splits)

section \<open>Server and client as staged automata\<close>

definition SRV_PATH :: "tcp_state list" where
  "SRV_PATH = [ST_LISTEN, ST_SYN_RCVD, ST_ESTABLISHED, ST_CLOSED]"

definition CLI_PATH :: "tcp_state list" where
  "CLI_PATH = [ST_SYN_SENT, ST_ESTABLISHED, ST_CLOSED]"

text \<open>A server that waits for the acknowledgement has sent its \<open>SYN\<close> under the number 50000.\<close>

definition acks_syn :: "tcb \<Rightarrow> bool" where
  "acks_syn s \<longleftrightarrow> (tcp_st s = ST_SYN_RCVD \<longrightarrow> iss s = 50000)"

interpretation tcp_server: staged srv_after tcp_st acks_syn SRV_PATH "[is_syn, is_ack, is_request]"
  by unfold_locales
    (auto simp: SRV_PATH_def srv_after_def acks_syn_def is_ack_def less_Suc_eq split: if_splits)

interpretation tcp_client: staged cli_after tcp_st "\<lambda>_. True" CLI_PATH "[is_synack, is_fin]"
  by unfold_locales
    (auto simp: CLI_PATH_def cli_after_def is_push_def is_fin_def less_Suc_eq split: if_splits)

section \<open>What the client receives\<close>

text \<open>The pushed segments between the one that opens the connection and the one that closes it; each is kept
  whole, or not at all where it would not fit.\<close>

definition client_input :: "segment list \<Rightarrow> segment list" where
  "client_input gs = filter is_push (takeWhile (\<lambda>g. \<not> is_fin g) (tl (dropWhile (\<lambda>g. \<not> is_synack g) gs)))"

definition keep :: "u8 list \<Rightarrow> u8 list \<Rightarrow> u8 list" where
  "keep d got = (if length d + length got < RX_SIZE then got @ d else got)"

definition rx_bytes :: "tcb \<Rightarrow> u8 list" where
  "rx_bytes c = take (rx_len c) (tcp_rx c)"

definition rx_ok :: "tcb \<Rightarrow> bool" where
  "rx_ok c \<longleftrightarrow> length (tcp_rx c) = RX_SIZE \<and> rx_len c < RX_SIZE"

lemma rx_ok_step: "rx_ok c \<Longrightarrow> rx_ok (cli_after g c)"
  by (auto simp: cli_after_def rx_ok_def)

lemma rx_bytes_step:
  "rx_ok c \<Longrightarrow> rx_bytes (cli_after g c)
    = (if is_push g \<and> tcp_st c = ST_ESTABLISHED then keep (seg_data g) (rx_bytes c) else rx_bytes c)"
  by (auto simp: cli_after_def rx_ok_def rx_bytes_def keep_def add.commute [of "length (seg_data g)"])

lemma rx_bytes_closed: "rx_ok c \<Longrightarrow> tcp_st c = ST_CLOSED \<Longrightarrow> rx_bytes (fold cli_after gs c) = rx_bytes c"
proof (induction gs arbitrary: c)
  case (Cons g gs)
  then have "tcp_st (cli_after g c) = ST_CLOSED" by (simp add: cli_after_def)
  with Cons show ?case by (simp add: rx_ok_step rx_bytes_step)
qed simp

lemma rx_bytes_established:
  "rx_ok c \<Longrightarrow> tcp_st c = ST_ESTABLISHED \<Longrightarrow> rx_bytes (fold cli_after gs c)
    = fold keep (map seg_data (filter is_push (takeWhile (\<lambda>g. \<not> is_fin g) gs))) (rx_bytes c)"
proof (induction gs arbitrary: c)
  case (Cons g gs)
  then have "tcp_st (cli_after g c) = (if is_fin g then ST_CLOSED else ST_ESTABLISHED)"
    by (auto simp: cli_after_def is_fin_def is_push_def)
  with Cons show ?case
    by (auto simp: rx_ok_step rx_bytes_step rx_bytes_closed is_push_def is_fin_def)
qed simp

lemma rx_bytes_syn_sent:
  "rx_ok c \<Longrightarrow> tcp_st c = ST_SYN_SENT
    \<Longrightarrow> rx_bytes (fold cli_after gs c) = fold keep (map seg_data (client_input gs)) (rx_bytes c)"
proof (induction gs arbitrary: c)
  case (Cons g gs)
  then have "tcp_st (cli_after g c) = (if is_synack g then ST_ESTABLISHED else ST_SYN_SENT)"
    by (simp add: cli_after_def)
  with Cons show ?case
    by (auto simp: rx_ok_step rx_bytes_step rx_bytes_established client_input_def)
qed (simp add: client_input_def)

section \<open>The connection\<close>

text \<open>The accessors the HTTP client reads the answer through, and the reset segment, which the code never sends.\<close>

definition tcp_client_rx_len :: "net \<Rightarrow> nat" where
  "tcp_client_rx_len n = rx_len (cli n)"

definition tcp_client_rx_buf :: "net \<Rightarrow> u8 list" where
  "tcp_client_rx_buf n = tcp_rx (cli n)"

definition tcp_send_rst :: "u32 \<Rightarrow> u32 \<Rightarrow> u16 \<Rightarrow> u16 \<Rightarrow> u32 \<Rightarrow> u32 \<Rightarrow> net \<Rightarrow> net" where
  "tcp_send_rst src_ip dst_ip sport dport seq ack = tcp_send_flags src_ip dst_ip sport dport seq ack TCP_RST []"

definition tcp_received :: "net \<Rightarrow> u8 list" where
  "tcp_received n = take (tcp_client_rx_len n) (tcp_client_rx_buf n)"

lemma tcp_received_bytes: "tcp_received n = rx_bytes (cli n)"
  by (simp add: tcp_received_def tcp_client_rx_len_def tcp_client_rx_buf_def rx_bytes_def)

text \<open>C17: From the connect on, whatever packets arrive in whatever order: the server has come through listening,
  handshake and established to closed as far as the arriving segments hold, in this order, a \<open>SYN\<close>, an acknowledgement
  of number 50001 and a pushed request; the client has come to established with the first \<open>SYN ACK\<close> and to closed with
  the first later \<open>FIN\<close>; and it has received the payloads pushed to it in between, in the order of their arrival
  (the code checks neither their numbers nor their checksums), without those that would not fit.\<close>

theorem tcp_follows_segments:
  assumes "length (tcp_rx (cli n)) = RX_SIZE"
  shows "tcp_st (srv (inputs ps (tcp_connect_send_get ip n)))
           = SRV_PATH ! progress [is_syn, is_ack, is_request] (segments ps)
    \<and> tcp_st (cli (inputs ps (tcp_connect_send_get ip n))) = CLI_PATH ! progress [is_synack, is_fin] (segments ps)
    \<and> tcp_received (inputs ps (tcp_connect_send_get ip n))
           = fold keep (map seg_data (client_input (segments ps))) []"
proof -
  let ?n = "tcp_connect_send_get ip n"
  have "acks_syn (srv ?n)" "tcp_st (srv ?n) = SRV_PATH ! 0" "tcp_st (cli ?n) = CLI_PATH ! 0"
      "rx_ok (cli ?n)" "rx_bytes (cli ?n) = []" "tcp_st (cli ?n) = ST_SYN_SENT"
    using assms by (simp_all add: tcp_connect_send_get_def Let_def acks_syn_def SRV_PATH_def CLI_PATH_def
        rx_ok_def rx_bytes_def RX_SIZE_def)
  with tcp_server.follows [of "srv ?n" 0 "segments ps"] tcp_client.follows [of 0 "cli ?n" "segments ps"]
    rx_bytes_syn_sent [of "cli ?n" "segments ps"]
  show ?thesis by (simp add: inputs_blocks tcp_received_bytes)
qed

text \<open>A handshake seen from both sides, a packet cut short, two bytes for the client, its close and a late push.\<close>

definition sample_packet :: "u16 \<Rightarrow> u32 \<Rightarrow> u8 \<Rightarrow> u8 list \<Rightarrow> u8 list \<times> u32 \<times> u32" where
  "sample_packet dport ack fl data =
     ([0x45] @ replicate 19 0 @ tcp_header 7 dport 0 ack fl @ data, NET_IPV4_LOOPBACK, NET_IPV4_LOOPBACK)"

definition sample_packets :: "(u8 list \<times> u32 \<times> u32) list" where
  "sample_packets =
     [sample_packet SRV_PORT 0 TCP_SYN [], ([0x45, 0], 0, 0), sample_packet CLI_PORT 10001 (TCP_SYN OR TCP_ACK) [],
      sample_packet SRV_PORT 50000 TCP_ACK [], sample_packet SRV_PORT 50001 TCP_ACK [],
      sample_packet CLI_PORT 0 TCP_PSH [72, 73], sample_packet CLI_PORT 0 TCP_FIN [], sample_packet CLI_PORT 0 TCP_PSH [74]]"

theorem tcp_follows_segments_witness:
  "tcp_st (srv (inputs sample_packets (tcp_connect_send_get NET_IPV4_LOOPBACK net_boot))) = ST_ESTABLISHED
    \<and> tcp_st (cli (inputs sample_packets (tcp_connect_send_get NET_IPV4_LOOPBACK net_boot))) = ST_CLOSED
    \<and> tcp_received (inputs sample_packets (tcp_connect_send_get NET_IPV4_LOOPBACK net_boot)) = [72, 73]"
proof -
  have "progress [is_syn, is_ack, is_request] (segments sample_packets) = 2" by code_simp
  moreover have "progress [is_synack, is_fin] (segments sample_packets) = 2" by code_simp
  moreover have "fold keep (map seg_data (client_input (segments sample_packets))) [] = [72, 73]" by code_simp
  moreover have "length (tcp_rx (cli net_boot)) = RX_SIZE" by (simp add: net_boot_def tcb_boot_def)
  ultimately show ?thesis
    using tcp_follows_segments [of net_boot sample_packets NET_IPV4_LOOPBACK]
    by (simp add: SRV_PATH_def CLI_PATH_def)
qed

end
