(* ===== verification/Store.thy ===== *)
theory Store
  imports Kprelude
begin

text \<open>
  The contract of the components that keep contents under names: the sectors of a drive, the files of
  the in-memory file system, the entries of the FAT, the aliases of the shell. A name leads to a
  place; two names may lead to the same one. Each component interprets the locale on its operations.
\<close>

section \<open>The contract\<close>

locale named_store =
  fixes inv :: "'s \<Rightarrow> bool"
    and place :: "'n \<Rightarrow> 's \<Rightarrow> 'k option"
    and fits :: "'n \<Rightarrow> 'v \<Rightarrow> bool"
    and put :: "'n \<Rightarrow> 'v \<Rightarrow> 's \<Rightarrow> 's option"
    and get :: "'n \<Rightarrow> 's \<Rightarrow> 'r"
    and image :: "'v \<Rightarrow> 'r"
  assumes inv_put: "inv s \<Longrightarrow> fits n v \<Longrightarrow> place n s \<noteq> None \<Longrightarrow> put n v s = Some s' \<Longrightarrow> inv s'"
    and place_put: "inv s \<Longrightarrow> fits n v \<Longrightarrow> place n s \<noteq> None \<Longrightarrow> put n v s = Some s' \<Longrightarrow> place m s' = place m s"
    and get_put: "inv s \<Longrightarrow> fits n v \<Longrightarrow> place n s \<noteq> None \<Longrightarrow> put n v s = Some s' \<Longrightarrow> place m s \<noteq> None \<Longrightarrow>
      get m s' = (if place m s = place n s then image v else get m s)"
begin

text \<open>A sequence of writes, in order, and the content it leaves at a place.\<close>

fun puts :: "('n \<times> 'v) list \<Rightarrow> 's \<Rightarrow> 's option" where
  "puts [] s = Some s"
| "puts ((n, v) # ws) s = Option.bind (put n v s) (puts ws)"

definition may_put :: "('n \<times> 'v) list \<Rightarrow> 's \<Rightarrow> bool" where
  "may_put ws s \<longleftrightarrow> (\<forall>(n, v) \<in> set ws. fits n v \<and> place n s \<noteq> None)"

definition last_put :: "('n \<times> 'v) list \<Rightarrow> 's \<Rightarrow> 'n \<Rightarrow> 'v option" where
  "last_put ws s m = map_of (rev (map (\<lambda>(n, v). (place n s, v)) ws)) (place m s)"

lemma may_put_Nil [simp]: "may_put [] s"
  by (simp add: may_put_def)

lemma may_put_Cons [simp]: "may_put ((n, v) # ws) s \<longleftrightarrow> fits n v \<and> place n s \<noteq> None \<and> may_put ws s"
  by (simp add: may_put_def)

lemma may_put_cong: "(\<And>m. place m s' = place m s) \<Longrightarrow> may_put ws s' = may_put ws s"
  by (simp add: may_put_def)

lemma last_put_Nil [simp]: "last_put [] s m = None"
  by (simp add: last_put_def)

lemma last_put_Cons [simp]:
  "last_put ((n, v) # ws) s m =
     (case last_put ws s m of Some v' \<Rightarrow> Some v' | None \<Rightarrow> if place m s = place n s then Some v else None)"
  by (simp add: last_put_def map_add_def split: option.split)

lemma last_put_cong: "(\<And>m. place m s' = place m s) \<Longrightarrow> last_put ws s' m = last_put ws s m"
  by (simp add: last_put_def)

lemma puts_inv:
  assumes "inv s" and "may_put ws s" and "puts ws s = Some s'"
  shows "inv s' \<and> (\<forall>m. place m s' = place m s)"
  using assms
proof (induction ws s rule: puts.induct)
  case (2 n v ws s)
  then obtain s1 where s1: "put n v s = Some s1" "puts ws s1 = Some s'" by (auto simp: bind_eq_Some_conv)
  have p: "place m s1 = place m s" for m using 2(2,3) s1(1) by (intro place_put) simp_all
  have "inv s1" using 2(2,3) s1(1) by (intro inv_put [of s n v s1]) simp_all
  with 2(1) [OF s1(1) _ _ s1(2)] 2(3) show ?case by (simp add: may_put_cong [of s1 s] p)
qed simp

text \<open>After any sequence of writes a name holds what was last written to its place, else what it held.\<close>

lemma last_put_wins:
  assumes "inv s" and "may_put ws s" and "puts ws s = Some s'" and "place m s \<noteq> None"
  shows "get m s' = (case last_put ws s m of None \<Rightarrow> get m s | Some v \<Rightarrow> image v)"
  using assms
proof (induction ws s rule: puts.induct)
  case (2 n v ws s)
  then obtain s1 where s1: "put n v s = Some s1" "puts ws s1 = Some s'" by (auto simp: bind_eq_Some_conv)
  have nv: "fits n v" "place n s \<noteq> None" "may_put ws s" using 2(3) by simp_all
  note laws = inv_put [OF 2(2) nv(1,2) s1(1)] place_put [OF 2(2) nv(1,2) s1(1)] get_put [OF 2(2) nv(1,2) s1(1) 2(5)]
  have "may_put ws s1" "place m s1 \<noteq> None" using nv(3) 2(5) by (simp_all add: may_put_cong [of s1 s] laws(2))
  from 2(1) [OF s1(1) laws(1) this(1) s1(2) this(2)] show ?case
    by (simp add: laws(2,3) last_put_cong [of s1 s] split: option.split)
qed simp

text \<open>Two writes to different places can be exchanged: every name holds the same afterwards.\<close>

lemma puts_swap:
  assumes "inv s" and "may_put [(a, v), (b, w)] s" and "place a s \<noteq> place b s"
    and "puts [(a, v), (b, w)] s = Some s1" and "puts [(b, w), (a, v)] s = Some s2" and "place m s \<noteq> None"
  shows "get m s1 = get m s2"
proof -
  have "may_put [(b, w), (a, v)] s" using assms(2) by simp
  from last_put_wins [OF assms(1,2,4,6)] last_put_wins [OF assms(1) this assms(5,6)] assms(3)
  show ?thesis by simp
qed

end

text \<open>A store whose writes to existing places always succeed.\<close>

locale total_store = named_store +
  assumes put_total: "inv s \<Longrightarrow> fits n v \<Longrightarrow> place n s \<noteq> None \<Longrightarrow> \<exists>s'. put n v s = Some s'"
begin

lemma puts_total:
  assumes "inv s" and "may_put ws s"
  shows "\<exists>s'. puts ws s = Some s'"
  using assms
proof (induction ws s rule: puts.induct)
  case (2 n v ws s)
  have nv: "fits n v" "place n s \<noteq> None" using 2(3) by simp_all
  from put_total [OF 2(2) this] obtain s1 where s1: "put n v s = Some s1" by blast
  from place_put [OF 2(2) nv s1] have "may_put ws s1" using 2(3) by (simp add: may_put_cong [of s1 s])
  from 2(1) [OF s1 inv_put [OF 2(2) nv s1] this] s1 show ?case by simp
qed simp

text \<open>A sequence of writes is an update of the map from places to contents.\<close>

lemma puts_update:
  assumes "inv s" and "may_put ws s"
  obtains s' where "puts ws s = Some s'" and "inv s'" and "\<And>m. place m s' = place m s"
    and "\<And>m. place m s \<noteq> None \<Longrightarrow> get m s' = (case last_put ws s m of None \<Rightarrow> get m s | Some v \<Rightarrow> image v)"
  using puts_total [OF assms] puts_inv [OF assms] last_put_wins [OF assms] by metis

end

end
