(* ===== verification/Alias.thy ===== *)
theory Alias
  imports Store
begin

text \<open>
  The alias table of the shell (\<^verbatim>\<open>src/kernel/shell/alias.c\<close>). The two arrays of C strings are a
  list of name and value pairs; \<open>alias_count\<close> is its length. Strings that do not fit are cut, as
  the bounded copy loops do.
\<close>

definition ALIAS_NAME_MAX :: nat where "ALIAS_NAME_MAX = 32"
definition ALIAS_VALUE_MAX :: nat where "ALIAS_VALUE_MAX = 128"
definition ALIAS_MAX :: nat where "ALIAS_MAX = 16"

type_synonym alias_table = "(string \<times> string) list"

text \<open>The comparison loop both functions run on a stored name and the one given.\<close>

fun str_same :: "string \<Rightarrow> string \<Rightarrow> bool" where
  "str_same (c # cs) (d # ds) = (c = d \<and> str_same cs ds)"
| "str_same [] [] = True"
| "str_same _ _ = False"

fun alias_replace :: "string \<Rightarrow> string \<Rightarrow> alias_table \<Rightarrow> alias_table option" where
  "alias_replace name v [] = None"
| "alias_replace name v ((n, w) # t) =
     (if str_same n name then Some ((n, v) # t) else map_option ((#) (n, w)) (alias_replace name v t))"

definition alias_set :: "string \<Rightarrow> string \<Rightarrow> alias_table \<Rightarrow> int \<times> alias_table" where
  "alias_set name val t =
     (let i = min (length name) (ALIAS_NAME_MAX - 1) in
      if i = 0 \<or> i \<ge> ALIAS_NAME_MAX then (- 1, t)
      else let j = min (length val) (ALIAS_VALUE_MAX - 1) in
        case alias_replace name (take j val) t of
          Some t' \<Rightarrow> (0, t')
        | None \<Rightarrow> if length t \<ge> ALIAS_MAX then (- 1, t) else (0, t @ [(take i name, take j val)]))"

fun alias_get :: "string \<Rightarrow> alias_table \<Rightarrow> string option" where
  "alias_get name [] = None"
| "alias_get name ((n, v) # t) = (if str_same n name then Some v else alias_get name t)"

text \<open>The string stored in \<open>out\<close>. \<open>out_len - 1\<close> is computed on \<open>size_t\<close> and wraps for 0.\<close>

definition alias_parse_and_expand :: "string \<Rightarrow> u64 \<Rightarrow> alias_table \<Rightarrow> string" where
  "alias_parse_and_expand line out_len t =
     (let lim = unat (out_len - 1); line = dropWhile (\<lambda>c. c = CHR '' '') line in
      if line = [] then []
      else let word = take (ALIAS_NAME_MAX - 1) (takeWhile (\<lambda>c. c \<noteq> CHR '' '') line);
               line = drop (length word) line
        in case alias_get word t of
             Some exp \<Rightarrow>
               let out = take lim exp;
                   line = dropWhile (\<lambda>c. c = CHR '' '') line;
                   out = (if line \<noteq> [] \<and> length out < lim then out @ '' '' else out)
               in out @ take (lim - length out) line
           | None \<Rightarrow> let out = take lim word in out @ take (lim - length out) line)"

section \<open>Lemmas\<close>

lemma str_same_iff [simp]: "str_same a b \<longleftrightarrow> a = b"
  by (induction a b rule: str_same.induct) auto

definition alias_ok :: "alias_table \<Rightarrow> bool" where
  "alias_ok t \<longleftrightarrow> length t \<le> ALIAS_MAX
     \<and> (\<forall>(n, v) \<in> set t. 0 < length n \<and> length n < ALIAS_NAME_MAX \<and> length v < ALIAS_VALUE_MAX)"

lemma alias_get_map_of: "alias_get name t = map_of t name"
  by (induction name t rule: alias_get.induct) auto

lemma alias_replace_None: "alias_replace name v t = None \<longleftrightarrow> map_of t name = None"
  by (induction name v t rule: alias_replace.induct) (auto split: if_splits)

lemma alias_replace_Some:
  assumes "alias_replace name v t = Some t'"
  shows "map_of t' = (map_of t)(name \<mapsto> v)" and "map fst t' = map fst t"
    and "set t' \<subseteq> insert (name, v) (set t)"
proof -
  have "map_of t' = (map_of t)(name \<mapsto> v) \<and> map fst t' = map fst t \<and> set t' \<subseteq> insert (name, v) (set t)"
    using assms
    by (induction name v t arbitrary: t' rule: alias_replace.induct)
      (auto split: if_splits simp: fun_eq_iff)
  then show "map_of t' = (map_of t)(name \<mapsto> v)" and "map fst t' = map fst t"
    and "set t' \<subseteq> insert (name, v) (set t)" by auto
qed

lemma map_of_snoc: "map_of t k = None \<Longrightarrow> map_of (t @ [(k, v)]) = (map_of t)(k \<mapsto> v)"
  by (auto simp: fun_eq_iff map_add_def split: option.splits)

text \<open>The bounded copies as prefixes.\<close>

lemma alias_set_eq:
  "alias_set name v t =
     (if name = [] then (- 1, t)
      else case alias_replace name (take (ALIAS_VALUE_MAX - 1) v) t of
        Some t' \<Rightarrow> (0, t')
      | None \<Rightarrow> if length t \<ge> ALIAS_MAX then (- 1, t)
          else (0, t @ [(take (ALIAS_NAME_MAX - 1) name, take (ALIAS_VALUE_MAX - 1) v)]))"
proof -
  have "take (min (length xs) n) xs = take n xs" for xs :: string and n by (simp add: min_def)
  moreover have "min (length name) (ALIAS_NAME_MAX - 1) = 0 \<longleftrightarrow> name = []"
    by (auto simp: ALIAS_NAME_MAX_def min_def)
  moreover have "\<not> ALIAS_NAME_MAX \<le> min (length name) (ALIAS_NAME_MAX - 1)"
    by (simp add: ALIAS_NAME_MAX_def)
  ultimately show ?thesis by (simp only: alias_set_def Let_def simp_thms)
qed

text \<open>A table is reached from the empty one by calls of \<open>alias_set\<close>.\<close>

inductive alias_reach :: "alias_table \<Rightarrow> bool" where
  empty: "alias_reach []"
| set: "alias_reach t \<Longrightarrow> alias_reach (snd (alias_set name v t))"

lemma alias_set_ok: "alias_ok t \<Longrightarrow> alias_ok (snd (alias_set name v t))"
proof -
  assume ok: "alias_ok t"
  let ?v = "take (ALIAS_VALUE_MAX - 1) v"
  have v: "length ?v < ALIAS_VALUE_MAX" by (simp add: ALIAS_VALUE_MAX_def)
  show ?thesis
  proof (cases "alias_replace name ?v t")
    case None
    have "length (take (ALIAS_NAME_MAX - 1) name) < ALIAS_NAME_MAX" by (simp add: ALIAS_NAME_MAX_def)
    moreover have "take (ALIAS_NAME_MAX - 1) name = [] \<longleftrightarrow> name = []" by (simp add: ALIAS_NAME_MAX_def)
    ultimately show ?thesis using None ok v by (auto simp: alias_set_eq alias_ok_def)
  next
    case (Some t')
    note r = alias_replace_Some [OF Some]
    have "name \<in> fst ` set t"
      using Some alias_replace_None [of name ?v t] by (metis map_of_eq_None_iff option.distinct(1))
    then have n: "0 < length name" "length name < ALIAS_NAME_MAX" using ok by (auto simp: alias_ok_def)
    have "length t' = length t" using r(2) by (metis length_map)
    with ok r(3) n v have "alias_ok t'" unfolding alias_ok_def by fastforce
    with Some ok show ?thesis by (simp add: alias_set_eq)
  qed
qed

lemma alias_reach_ok: "alias_reach t \<Longrightarrow> alias_ok t"
  by (induction rule: alias_reach.induct) (simp_all add: alias_set_ok, simp add: alias_ok_def)

lemma alias_set_lookup:
  assumes "alias_set name v t = (0, t')" and "length name < ALIAS_NAME_MAX"
  shows "alias_get k t' = (if k = name then Some (take (ALIAS_VALUE_MAX - 1) v) else alias_get k t)"
proof -
  have i: "take (ALIAS_NAME_MAX - 1) name = name" using assms(2) by simp
  show ?thesis
  proof (cases "alias_replace name (take (ALIAS_VALUE_MAX - 1) v) t")
    case None
    with assms(1) have "t' = t @ [(name, take (ALIAS_VALUE_MAX - 1) v)]"
      unfolding alias_set_eq i by (simp split: if_splits)
    with None show ?thesis by (simp add: alias_get_map_of alias_replace_None map_of_snoc del: map_of_append)
  next
    case (Some t2)
    with assms have "t' = t2" by (simp add: alias_set_eq split: if_splits)
    with alias_replace_Some(1) [OF Some] show ?thesis by (simp add: alias_get_map_of)
  qed
qed

text \<open>The table is a store of the names that fit.\<close>

definition alias_put :: "string \<Rightarrow> string \<Rightarrow> alias_table \<Rightarrow> alias_table option" where
  "alias_put name v t = (case alias_set name v t of (r, t') \<Rightarrow> if r = 0 then Some t' else None)"

interpretation aliases: named_store alias_reach "\<lambda>name t. Some name"
  "\<lambda>name v. length name < ALIAS_NAME_MAX" alias_put alias_get "\<lambda>v. Some (take (ALIAS_VALUE_MAX - 1) v)"
proof
  fix t t' name v m
  assume t: "alias_reach t" and n: "length name < ALIAS_NAME_MAX" and "alias_put name v t = Some t'"
  then have set: "alias_set name v t = (0, t')" by (auto simp: alias_put_def split: prod.splits if_splits)
  show "alias_reach t'" using alias_reach.set [OF t, of name v] by (simp add: set)
  show "alias_get m t' = (if Some m = Some name then Some (take (ALIAS_VALUE_MAX - 1) v) else alias_get m t)"
    using alias_set_lookup [OF set n] by simp
qed simp

section \<open>Properties\<close>

text \<open>
  The alias table is a bounded dictionary: in every reachable table, setting a name of 1 to
  31 characters either fails, because sixteen other names are taken, and changes nothing, or makes
  the name (and no other) stand for the value cut to 127 characters.
\<close>

theorem alias_set_then_get:
  assumes "alias_reach t" and "0 < length name" and "length name < ALIAS_NAME_MAX"
  shows "(length t = ALIAS_MAX \<and> alias_get name t = None \<and> alias_set name v t = (- 1, t))
    \<or> (\<exists>t'. alias_set name v t = (0, t') \<and> alias_get name t' = Some (take (ALIAS_VALUE_MAX - 1) v)
        \<and> (\<forall>k. k \<noteq> name \<longrightarrow> alias_get k t' = alias_get k t))"
proof (cases "fst (alias_set name v t) = 0")
  case True
  then obtain t' where "alias_set name v t = (0, t')" by (metis prod.collapse)
  with alias_set_lookup [OF this assms(3)] show ?thesis by auto
next
  case False
  have "length t \<le> ALIAS_MAX" using alias_reach_ok [OF assms(1)] by (simp add: alias_ok_def)
  let ?r = "alias_replace name (take (ALIAS_VALUE_MAX - 1) v) t"
  have r: "?r = None" "ALIAS_MAX \<le> length t"
    using False assms(2) by (cases ?r; auto simp: alias_set_eq split: if_splits)+
  have "map_of t name = None" using r(1) alias_replace_None by blast
  with r \<open>length t \<le> ALIAS_MAX\<close> assms(2) show ?thesis
    unfolding alias_get_map_of by (simp add: alias_set_eq)
qed

theorem alias_set_then_get_witness:
  "alias_get ''ll'' (snd (alias_set ''ll'' ''ls'' [])) = Some ''ls''"
  using alias_set_then_get [OF alias_reach.empty, of "''ll''" "''ls''"]
  by (auto simp: ALIAS_NAME_MAX_def ALIAS_VALUE_MAX_def ALIAS_MAX_def)

text \<open>
  A name of 32 or more characters is accepted but can never be found again: the stored copy is
  cut, the comparison is not. Setting it repeatedly uses up the table.
\<close>

theorem alias_long_name_lost:
  assumes "alias_reach t" and "ALIAS_NAME_MAX \<le> length name" and "length t < ALIAS_MAX"
  shows "\<exists>t'. alias_set name v t = (0, t') \<and> length t' = length t + 1 \<and> alias_get name t' = None"
proof -
  have "alias_get name t = None"
  proof (rule ccontr)
    assume "alias_get name t \<noteq> None"
    then have "name \<in> fst ` set t" by (metis alias_get_map_of map_of_eq_None_iff)
    with alias_reach_ok [OF assms(1)] assms(2) show False by (auto simp: alias_ok_def)
  qed
  then have none: "map_of t name = None" by (simp add: alias_get_map_of)
  let ?n = "take (ALIAS_NAME_MAX - 1) name" and ?v = "take (ALIAS_VALUE_MAX - 1) v"
  have "length ?n < length name" using assms(2) by (simp add: ALIAS_NAME_MAX_def)
  then have "name \<noteq> ?n" by (metis less_irrefl)
  with none have "alias_get name (t @ [(?n, ?v)]) = None"
    unfolding alias_get_map_of by (simp add: map_add_def)
  moreover have "name \<noteq> []" using assms(2) by (auto simp: ALIAS_NAME_MAX_def)
  then have "alias_set name v t = (0, t @ [(?n, ?v)])"
    using assms(3) none alias_replace_None [of name ?v t] by (simp add: alias_set_eq)
  ultimately show ?thesis by simp
qed

theorem alias_long_name_lost_witness:
  "\<exists>t'. alias_set (replicate 32 CHR ''a'') ''ls'' [] = (0, t') \<and> length t' = 1
    \<and> alias_get (replicate 32 CHR ''a'') t' = None"
  using alias_long_name_lost [OF alias_reach.empty, of "replicate 32 CHR ''a''" "''ls''"]
  by (simp add: ALIAS_NAME_MAX_def ALIAS_MAX_def)

text \<open>
  Expansion rewrites exactly the first word: leading blanks are dropped; if the word (cut to 31
  characters) is an alias, the result is its value, a blank if arguments follow, and the arguments;
  otherwise it is the line itself. The result never exceeds the room of the caller.
\<close>

theorem alias_expand_first_word:
  assumes "out_len \<noteq> 0" and "line' = dropWhile (\<lambda>c. c = CHR '' '') line"
    and "word = take (ALIAS_NAME_MAX - 1) (takeWhile (\<lambda>c. c \<noteq> CHR '' '') line')"
    and "args = dropWhile (\<lambda>c. c = CHR '' '') (drop (length word) line')"
  shows "alias_parse_and_expand line out_len t = take (unat out_len - 1)
    (if line' = [] then [] else case alias_get word t of None \<Rightarrow> line'
     | Some v \<Rightarrow> if args = [] then v else v @ '' '' @ args)"
proof -
  have lim: "unat (out_len - 1) = unat out_len - 1" using assms(1) by (simp add: unat_minus_one)
  have w: "word @ drop (length word) line' = line'"
  proof -
    have "takeWhile (\<lambda>c. c \<noteq> CHR '' '') line' = take (length (takeWhile (\<lambda>c. c \<noteq> CHR '' '') line')) line'"
      by (rule takeWhile_eq_take)
    then have "word = take (min (ALIAS_NAME_MAX - 1) (length (takeWhile (\<lambda>c. c \<noteq> CHR '' '') line'))) line'"
      unfolding assms(3) by (metis take_take)
    then have "word = take (length word) line'" by (metis append_eq_conv_conj append_take_drop_id)
    then show ?thesis by (metis append_take_drop_id)
  qed
  show ?thesis
  proof (cases "alias_get word t")
    case None
    have "take (unat out_len - 1) line' = take (unat out_len - 1) (word @ drop (length word) line')"
      by (simp only: w)
    with None show ?thesis
      unfolding alias_parse_and_expand_def Let_def lim assms(2) [symmetric] assms(3) [symmetric]
      by (auto simp: min_def)
  next
    case (Some v)
    then show ?thesis
      unfolding alias_parse_and_expand_def Let_def lim assms(2) [symmetric] assms(3) [symmetric] assms(4) [symmetric]
      by (cases "length v < unat out_len - 1") (auto simp: Suc_diff_Suc take_Cons')
  qed
qed

theorem alias_expand_first_word_witness:
  "alias_parse_and_expand ''  ll -a'' 9 [(''ll'', ''list'')] = ''list -a''"
proof -
  have l: "''ll -a'' = dropWhile (\<lambda>c. c = CHR '' '') ''  ll -a''" by simp
  have w: "''ll'' = take (ALIAS_NAME_MAX - 1) (takeWhile (\<lambda>c. c \<noteq> CHR '' '') ''ll -a'')"
    by (simp add: ALIAS_NAME_MAX_def)
  have a: "''-a'' = dropWhile (\<lambda>c. c = CHR '' '') (drop (length ''ll'') ''ll -a'')" by simp
  have "unat (9 :: u64) - 1 = 8" by simp
  then show ?thesis
    using alias_expand_first_word [OF _ l w a, of 9 "[(''ll'', ''list'')]"] by simp
qed

end
