(* ===== verification/Console.thy ===== *)
theory Console
  imports Kprelude
begin

text \<open>
  The VGA text console (\<^verbatim>\<open>src/kernel/drivers/vga.c\<close>): the 80x25 cells of the frame buffer, the
  cursor and the colours. A cell is the attribute in the high byte and the character in the low
  one. \<open>screen\<close> reads the buffer as a list of rows, the specification the operations refine.
\<close>

definition VGA_WIDTH :: nat where "VGA_WIDTH = 80"
definition VGA_HEIGHT :: nat where "VGA_HEIGHT = 25"

record vga =
  vga_buffer :: "u16 list"
  vga_row :: nat
  vga_column :: nat
  vga_fg :: u8
  vga_bg :: u8

definition vga_entry_color :: "u8 \<Rightarrow> u8 \<Rightarrow> u8" where
  "vga_entry_color fg bg = fg OR push_bit 4 bg"

definition vga_entry :: "u8 \<Rightarrow> u8 \<Rightarrow> u16" where
  "vga_entry c color = ucast c OR push_bit 8 (ucast color)"

definition vga_blank :: "vga \<Rightarrow> u16" where
  "vga_blank v = vga_entry 32 (vga_entry_color (vga_fg v) (vga_bg v))"

text \<open>A store loop \<open>for (i = a; i < b; i++) buffer[i] = x\<close>.\<close>

fun fill :: "nat \<Rightarrow> nat \<Rightarrow> u16 \<Rightarrow> u16 list \<Rightarrow> u16 list" where
  "fill a 0 x b = b"
| "fill a (Suc n) x b = fill (Suc a) n x (b[a := x])"

text \<open>The loop \<open>for (i = a; n > 0; i++) buffer[i] = buffer[i + VGA_WIDTH]\<close>.\<close>

fun move_up :: "nat \<Rightarrow> nat \<Rightarrow> u16 list \<Rightarrow> u16 list" where
  "move_up a 0 b = b"
| "move_up a (Suc n) b = move_up (Suc a) n (b[a := b ! (a + VGA_WIDTH)])"

definition vga_clear :: "vga \<Rightarrow> vga" where
  "vga_clear v = v\<lparr>vga_row := 0, vga_column := 0,
     vga_buffer := fill 0 (VGA_WIDTH * VGA_HEIGHT) (vga_blank v) (vga_buffer v)\<rparr>"

definition vga_set_color :: "u8 \<Rightarrow> u8 \<Rightarrow> vga \<Rightarrow> vga" where
  "vga_set_color fg bg v = v\<lparr>vga_fg := fg, vga_bg := bg\<rparr>"

definition vga_scroll :: "vga \<Rightarrow> vga" where
  "vga_scroll v =
     v\<lparr>vga_buffer := fill ((VGA_HEIGHT - 1) * VGA_WIDTH) VGA_WIDTH (vga_blank v)
          (move_up 0 ((VGA_HEIGHT - 1) * VGA_WIDTH) (vga_buffer v)),
       vga_row := VGA_HEIGHT - 1, vga_column := 0\<rparr>"

definition vga_newline :: "vga \<Rightarrow> vga" where
  "vga_newline v =
     (let v = v\<lparr>vga_column := 0, vga_row := vga_row v + 1\<rparr>
      in if vga_row v \<ge> VGA_HEIGHT then vga_scroll v else v)"

definition vga_putchar :: "u8 \<Rightarrow> vga \<Rightarrow> vga" where
  "vga_putchar c v =
     (if c = 10 then vga_newline v
      else if c = 13 then v\<lparr>vga_column := 0\<rparr>
      else let idx = vga_row v * VGA_WIDTH + vga_column v;
               v = v\<lparr>vga_buffer := (vga_buffer v)[idx := vga_entry c (vga_entry_color (vga_fg v) (vga_bg v))],
                     vga_column := vga_column v + 1\<rparr>
        in if vga_column v \<ge> VGA_WIDTH then vga_newline v else v)"

text \<open>A C string as the bytes before its terminator.\<close>

fun vga_puts :: "u8 list \<Rightarrow> vga \<Rightarrow> vga" where
  "vga_puts [] v = v"
| "vga_puts (c # cs) v = vga_puts cs (vga_putchar c v)"

definition hex_digit :: "u32 \<Rightarrow> u8" where
  "hex_digit d = (if d < 10 then 48 + ucast d else 55 + ucast d)"

definition vga_puthex :: "u32 \<Rightarrow> vga \<Rightarrow> vga" where
  "vga_puthex n v = vga_puts (48 # 120 # map (\<lambda>i. hex_digit (drop_bit (i * 4) n AND 0xF)) [7, 6, 5, 4, 3, 2, 1, 0]) v"

text \<open>The digits, least significant first, as the first loop of \<open>vga_putdec\<close> stores them.\<close>

function dec_digits :: "u32 \<Rightarrow> u8 list" where
  "dec_digits n = (if n = 0 then [] else (48 + ucast (n mod 10)) # dec_digits (n div 10))"
  by pat_completeness auto

termination dec_digits
proof (relation "measure unat")
  fix n :: u32 assume "n \<noteq> 0"
  then have "0 < unat n" by (simp add: unat_gt_0)
  then have "unat (n div 10) < unat n" by (simp add: unat_div)
  then show "(n div 10, n) \<in> measure unat" by simp
qed simp

declare dec_digits.simps [simp del]

lemma dec_digits_0 [simp]: "dec_digits 0 = []"
  by (simp add: dec_digits.simps)

definition vga_putdec :: "u32 \<Rightarrow> vga \<Rightarrow> vga" where
  "vga_putdec n v = (if n = 0 then vga_putchar 48 v else vga_puts (rev (dec_digits n)) v)"

section \<open>Cursor and cells\<close>

definition vga_inv :: "vga \<Rightarrow> bool" where
  "vga_inv v \<longleftrightarrow> length (vga_buffer v) = VGA_WIDTH * VGA_HEIGHT \<and> vga_row v < VGA_HEIGHT
     \<and> vga_column v < VGA_WIDTH"

lemma vga_pos [simp]: "0 < VGA_WIDTH" "0 < VGA_HEIGHT"
  by (simp_all add: VGA_WIDTH_def VGA_HEIGHT_def)

lemma length_fill [simp]: "length (fill a n x b) = length b"
  by (induction n arbitrary: a b) auto

lemma length_move_up [simp]: "length (move_up a n b) = length b"
  by (induction n arbitrary: a b) auto

lemma nth_fill: "i < length b \<Longrightarrow> fill a n x b ! i = (if a \<le> i \<and> i < a + n then x else b ! i)"
proof (induction n arbitrary: a b)
  case (Suc n)
  then show ?case using Suc.IH [of "b[a := x]" "Suc a"] by (auto simp: nth_list_update)
qed auto

lemma nth_move_up:
  "i < length b \<Longrightarrow> a + n + VGA_WIDTH \<le> length b \<Longrightarrow>
    move_up a n b ! i = (if a \<le> i \<and> i < a + n then b ! (i + VGA_WIDTH) else b ! i)"
proof (induction n arbitrary: a b)
  case (Suc n)
  have "a + VGA_WIDTH \<noteq> a" by (simp add: VGA_WIDTH_def)
  with Suc.prems Suc.IH [of "b[a := b ! (a + VGA_WIDTH)]" "Suc a"] show ?case
    by (auto simp: nth_list_update)
qed auto

text \<open>The buffer as rows.\<close>

definition screen :: "vga \<Rightarrow> u16 list list" where
  "screen v = map (\<lambda>r. map (\<lambda>c. vga_buffer v ! (r * VGA_WIDTH + c)) [0..<VGA_WIDTH]) [0..<VGA_HEIGHT]"

lemma length_screen [simp]: "length (screen v) = VGA_HEIGHT"
  by (simp add: screen_def)

lemma screen_nth [simp]: "r < VGA_HEIGHT \<Longrightarrow> screen v ! r = map (\<lambda>c. vga_buffer v ! (r * VGA_WIDTH + c)) [0..<VGA_WIDTH]"
  by (simp add: screen_def)

lemma cell_index: "r < VGA_HEIGHT \<Longrightarrow> c < VGA_WIDTH \<Longrightarrow> r * VGA_WIDTH + c < VGA_WIDTH * VGA_HEIGHT"
  using mult_le_mono1 [of "Suc r" VGA_HEIGHT VGA_WIDTH] by (simp add: mult.commute)

lemma cell_index_inj:
  "c < VGA_WIDTH \<Longrightarrow> c' < VGA_WIDTH \<Longrightarrow> r * VGA_WIDTH + c = r' * VGA_WIDTH + c' \<longleftrightarrow> r = r' \<and> c = c'"
  by (metis add.commute div_mult_self3 div_less add.left_neutral mod_mult_self3 mod_less vga_pos(1) not_less_zero)

lemma screen_eqI:
  assumes "\<And>r c. r < VGA_HEIGHT \<Longrightarrow> c < VGA_WIDTH \<Longrightarrow> vga_buffer v ! (r * VGA_WIDTH + c) = rows ! r ! c"
    and "length rows = VGA_HEIGHT" and "\<forall>row \<in> set rows. length row = VGA_WIDTH"
  shows "screen v = rows"
proof (rule nth_equalityI)
  show "length (screen v) = length rows" using assms(2) by simp
next
  fix r assume "r < length (screen v)"
  then have r: "r < VGA_HEIGHT" by simp
  with assms(2,3) have "length (rows ! r) = VGA_WIDTH" by simp
  with assms(1) [OF r] r show "screen v ! r = rows ! r"
    by (auto intro!: nth_equalityI)
qed

text \<open>Scrolling drops the first row and adds a blank one.\<close>

lemma screen_scroll:
  assumes "length (vga_buffer v) = VGA_WIDTH * VGA_HEIGHT"
  shows "screen (vga_scroll v) = tl (screen v) @ [replicate VGA_WIDTH (vga_blank v)]"
proof (rule screen_eqI)
  fix r c assume r: "r < VGA_HEIGHT" and c: "c < VGA_WIDTH"
  let ?i = "r * VGA_WIDTH + c" and ?m = "move_up 0 ((VGA_HEIGHT - 1) * VGA_WIDTH) (vga_buffer v)"
  have i: "?i < length ?m" using cell_index [OF r c] assms by simp
  show "vga_buffer (vga_scroll v) ! ?i = (tl (screen v) @ [replicate VGA_WIDTH (vga_blank v)]) ! r ! c"
  proof (cases "r = VGA_HEIGHT - 1")
    case True
    with c i show ?thesis
      by (simp add: vga_scroll_def nth_fill nth_append)
  next
    case False
    with r have r': "Suc r < VGA_HEIGHT" by simp
    have lt: "?i < (VGA_HEIGHT - 1) * VGA_WIDTH"
    proof -
      have "Suc r \<le> VGA_HEIGHT - 1" using r' by simp
      then have "Suc r * VGA_WIDTH \<le> (VGA_HEIGHT - 1) * VGA_WIDTH" by (rule mult_le_mono1)
      with c show ?thesis by simp
    qed
    have "vga_buffer (vga_scroll v) ! ?i = ?m ! ?i"
      using lt i by (simp add: vga_scroll_def nth_fill)
    also have "\<dots> = vga_buffer v ! (?i + VGA_WIDTH)"
      using lt i assms by (subst nth_move_up) (simp_all add: VGA_WIDTH_def VGA_HEIGHT_def)
    also have "?i + VGA_WIDTH = Suc r * VGA_WIDTH + c" by simp
    finally show ?thesis using r' c by (simp add: nth_append nth_tl less_diff_conv)
  qed
next
  show "length (tl (screen v) @ [replicate VGA_WIDTH (vga_blank v)]) = VGA_HEIGHT" by simp
next
  have "\<forall>row \<in> set (screen v). length row = VGA_WIDTH" by (auto simp: screen_def)
  then show "\<forall>row \<in> set (tl (screen v) @ [replicate VGA_WIDTH (vga_blank v)]). length row = VGA_WIDTH"
    by (auto dest: list.set_sel(2) [rotated])  (metis list.sel(2) list.set_sel(2))
qed

lemma vga_inv_clear: "length (vga_buffer v) = VGA_WIDTH * VGA_HEIGHT \<Longrightarrow> vga_inv (vga_clear v)"
  by (simp add: vga_inv_def vga_clear_def)

lemma vga_inv_newline:
  "length (vga_buffer v) = VGA_WIDTH * VGA_HEIGHT \<Longrightarrow> vga_row v < VGA_HEIGHT \<Longrightarrow> vga_inv (vga_newline v)"
  by (auto simp: vga_inv_def vga_newline_def vga_scroll_def Let_def)

lemma vga_inv_putchar: "vga_inv v \<Longrightarrow> vga_inv (vga_putchar c v)"
  unfolding vga_putchar_def Let_def
  by (auto intro!: vga_inv_newline) (auto simp: vga_inv_def)

lemma vga_inv_puts: "vga_inv v \<Longrightarrow> vga_inv (vga_puts cs v)"
  by (induction cs arbitrary: v) (simp_all add: vga_inv_putchar)

text \<open>A printable character inside a row stores one cell and moves the cursor by one.\<close>

lemma putchar_inside:
  assumes "c \<noteq> 10" and "c \<noteq> 13" and "vga_column v + 1 < VGA_WIDTH"
  shows "vga_putchar c v = v\<lparr>vga_buffer := (vga_buffer v)[vga_row v * VGA_WIDTH + vga_column v :=
      vga_entry c (vga_entry_color (vga_fg v) (vga_bg v))], vga_column := vga_column v + 1\<rparr>"
  using assms by (simp add: vga_putchar_def Let_def)

lemma puts_inside:
  assumes "10 \<notin> set cs" and "13 \<notin> set cs" and "vga_column v + length cs < VGA_WIDTH" and "vga_inv v"
  shows "vga_puts cs v = v\<lparr>vga_buffer := blit (vga_buffer v) (vga_row v * VGA_WIDTH + vga_column v)
      (map (\<lambda>c. vga_entry c (vga_entry_color (vga_fg v) (vga_bg v))) cs),
      vga_column := vga_column v + length cs\<rparr>"
  using assms
proof (induction cs arbitrary: v)
  case Nil
  then show ?case by simp
next
  case (Cons c cs)
  let ?off = "vga_row v * VGA_WIDTH + vga_column v" and ?e = "\<lambda>c. vga_entry c (vga_entry_color (vga_fg v) (vga_bg v))"
  let ?v = "vga_putchar c v"
  have room: "?off + Suc (length cs) \<le> length (vga_buffer v)"
    using cell_index [of "vga_row v" "vga_column v + length cs"] Cons.prems by (simp add: vga_inv_def)
  have v: "?v = v\<lparr>vga_buffer := (vga_buffer v)[?off := ?e c], vga_column := vga_column v + 1\<rparr>"
    using Cons.prems by (intro putchar_inside) auto
  have "vga_inv ?v" using Cons.prems(4) by (rule vga_inv_putchar)
  with Cons.IH [of ?v] Cons.prems have
    "vga_puts cs ?v = v\<lparr>vga_buffer := blit ((vga_buffer v)[?off := ?e c]) (Suc ?off) (map ?e cs),
       vga_column := vga_column v + Suc (length cs)\<rparr>"
    by (simp add: v)
  moreover have "blit ((vga_buffer v)[?off := ?e c]) (Suc ?off) (map ?e cs) = blit (vga_buffer v) ?off (map ?e (c # cs))"
  proof (rule nth_equalityI)
    show "length (blit ((vga_buffer v)[?off := ?e c]) (Suc ?off) (map ?e cs)) = length (blit (vga_buffer v) ?off (map ?e (c # cs)))"
      using room by simp
  next
    fix i assume "i < length (blit ((vga_buffer v)[?off := ?e c]) (Suc ?off) (map ?e cs))"
    then have "i < length (vga_buffer v)" using room by simp
    then show "blit ((vga_buffer v)[?off := ?e c]) (Suc ?off) (map ?e cs) ! i = blit (vga_buffer v) ?off (map ?e (c # cs)) ! i"
      using room by (auto simp: nth_blit nth_list_update nth_Cons')
  qed
  ultimately show ?case by simp
qed

text \<open>Decimal digits denote the number.\<close>

definition dec_value :: "u8 list \<Rightarrow> nat" where
  "dec_value ds = foldl (\<lambda>n d. 10 * n + (unat d - 48)) 0 ds"

lemma unat_digit: "unat (48 + ucast (n mod 10 :: u32) :: u8) = 48 + unat n mod 10"
proof -
  have m: "unat (n mod 10) = unat n mod 10" by (simp add: unat_mod)
  then have "unat (ucast (n mod 10) :: u8) = unat n mod 10"
    by (simp add: unsigned_ucast_eq take_bit_eq_mod)
  then show ?thesis by (simp add: unat_word_ariths)
qed

lemma dec_digits_value: "dec_value (rev (dec_digits n)) = unat n \<and> (\<forall>d \<in> set (dec_digits n). 48 \<le> unat d \<and> unat d < 58)"
proof (induction n rule: dec_digits.induct)
  case (1 n)
  show ?case
  proof (cases "n = 0")
    case True
    then show ?thesis by (simp add: dec_digits.simps [of n] dec_value_def)
  next
    case False
    have "unat (n div 10) = unat n div 10" by (simp add: unat_div)
    with False 1 show ?thesis
      by (simp add: dec_digits.simps [of n] dec_value_def unat_digit)
  qed
qed

lemma dec_digits_length: "unat n < 10 ^ k \<Longrightarrow> length (dec_digits n) \<le> k"
proof (induction k arbitrary: n)
  case 0
  then have "n = 0" by (simp add: unat_eq_0 [symmetric] del: unat_eq_0)
  then show ?case by (simp add: dec_digits.simps [of n])
next
  case (Suc k)
  have "unat (n div 10) = unat n div 10" by (simp add: unat_div)
  with Suc show ?case
    by (cases "n = 0") (simp_all add: dec_digits.simps [of n] less_mult_imp_div_less mult.commute)
qed

section \<open>Properties\<close>

text \<open>
  Whatever bytes are written, in any colours, the cursor stays on the screen and the frame
  buffer keeps its 2000 cells: every store of the driver is inside the buffer.
\<close>

theorem console_stays_on_screen:
  assumes "length (vga_buffer v) = VGA_WIDTH * VGA_HEIGHT"
  shows "vga_inv (vga_puts cs (vga_set_color fg bg (vga_clear v)))"
proof -
  have "vga_inv (vga_set_color fg bg (vga_clear v))"
    using vga_inv_clear [OF assms] by (simp add: vga_inv_def vga_set_color_def)
  then show ?thesis by (rule vga_inv_puts)
qed

theorem console_stays_on_screen_witness:
  "vga_inv (vga_puts [72, 105, 10] (vga_set_color 7 0 (vga_clear
     \<lparr>vga_buffer = replicate 2000 0, vga_row = 0, vga_column = 0, vga_fg = 7, vga_bg = 0\<rparr>)))"
  by (rule console_stays_on_screen) (simp add: VGA_WIDTH_def VGA_HEIGHT_def)

text \<open>
  A newline moves the cursor to the start of the next row; on the last row it scrolls: every
  row moves up by one, the first is lost and the last becomes blank in the current colours.
\<close>

theorem console_newline:
  assumes "vga_inv v"
  shows "vga_column (vga_putchar 10 v) = 0
    \<and> vga_row (vga_putchar 10 v) = min (vga_row v + 1) (VGA_HEIGHT - 1)
    \<and> screen (vga_putchar 10 v) = (if vga_row v + 1 < VGA_HEIGHT then screen v
        else tl (screen v) @ [replicate VGA_WIDTH (vga_blank v)])"
proof (cases "vga_row v + 1 < VGA_HEIGHT")
  case True
  then show ?thesis by (simp add: vga_putchar_def vga_newline_def Let_def screen_def)
next
  case False
  let ?v = "v\<lparr>vga_column := 0, vga_row := vga_row v + 1\<rparr>"
  have "screen ?v = screen v" "vga_blank ?v = vga_blank v" by (simp_all add: screen_def vga_blank_def)
  moreover have "screen (vga_scroll ?v) = tl (screen ?v) @ [replicate VGA_WIDTH (vga_blank ?v)]"
    using assms by (intro screen_scroll) (simp add: vga_inv_def)
  moreover have "vga_putchar 10 v = vga_scroll ?v"
    using False by (simp add: vga_putchar_def vga_newline_def Let_def)
  ultimately show ?thesis using False by (simp add: vga_scroll_def)
qed

theorem console_newline_witness:
  "screen (vga_putchar 10 \<lparr>vga_buffer = replicate 2000 7, vga_row = 24, vga_column = 3, vga_fg = 7, vga_bg = 0\<rparr>)
   = tl (screen \<lparr>vga_buffer = replicate 2000 7, vga_row = 24, vga_column = 3, vga_fg = 7, vga_bg = 0\<rparr>)
     @ [replicate VGA_WIDTH (vga_blank \<lparr>vga_buffer = replicate 2000 7, vga_row = 24, vga_column = 3, vga_fg = 7, vga_bg = 0\<rparr>)]"
  using console_newline [of "\<lparr>vga_buffer = replicate 2000 7, vga_row = 24, vga_column = 3, vga_fg = 7, vga_bg = 0\<rparr>"]
  by (simp add: vga_inv_def VGA_WIDTH_def VGA_HEIGHT_def)

text \<open>
  \<open>vga_putdec\<close> prints a number in decimal: it writes at most ten characters (its buffer holds
  twelve), all of them digits, that denote the number; with room in the row they appear at the
  cursor in the current colours.
\<close>

theorem putdec_prints_number:
  assumes "vga_inv v" and "vga_column v + 10 < VGA_WIDTH"
  shows "\<exists>ds. length ds \<le> 10 \<and> (\<forall>d \<in> set ds. 48 \<le> unat d \<and> unat d < 58) \<and> dec_value ds = unat n
    \<and> vga_putdec n v = v\<lparr>vga_buffer := blit (vga_buffer v) (vga_row v * VGA_WIDTH + vga_column v)
          (map (\<lambda>c. vga_entry c (vga_entry_color (vga_fg v) (vga_bg v))) ds),
        vga_column := vga_column v + length ds\<rparr>"
proof -
  let ?ds = "if n = 0 then [48] else rev (dec_digits n)"
  have "vga_putdec n v = vga_puts ?ds v" by (simp add: vga_putdec_def)
  moreover have digits: "\<forall>d \<in> set ?ds. 48 \<le> unat d \<and> unat d < 58" using dec_digits_value [of n] by simp
  moreover have "dec_value ?ds = unat n" using dec_digits_value [of n] by (simp add: dec_value_def)
  moreover have "unat n < 10 ^ 10" using unat_less_32 [of n] by simp
  then have len: "length ?ds \<le> 10" using dec_digits_length [of n 10] by simp
  moreover have "10 \<notin> set ?ds" "13 \<notin> set ?ds" using digits by force+
  then have "vga_puts ?ds v = v\<lparr>vga_buffer := blit (vga_buffer v) (vga_row v * VGA_WIDTH + vga_column v)
      (map (\<lambda>c. vga_entry c (vga_entry_color (vga_fg v) (vga_bg v))) ?ds), vga_column := vga_column v + length ?ds\<rparr>"
    using assms len by (intro puts_inside) simp_all
  ultimately show ?thesis by (intro exI [of _ ?ds]) simp
qed

theorem putdec_prints_number_witness:
  "\<exists>ds. length ds \<le> 10 \<and> dec_value ds = 1207
    \<and> vga_column (vga_putdec 1207 \<lparr>vga_buffer = replicate 2000 0, vga_row = 3, vga_column = 5, vga_fg = 7, vga_bg = 0\<rparr>)
      = 5 + length ds"
proof -
  let ?v = "\<lparr>vga_buffer = replicate 2000 0, vga_row = 3, vga_column = 5, vga_fg = 7, vga_bg = 0\<rparr>"
  have "vga_inv ?v" "vga_column ?v + 10 < VGA_WIDTH"
    by (simp_all add: vga_inv_def VGA_WIDTH_def VGA_HEIGHT_def)
  from putdec_prints_number [OF this, of 1207] show ?thesis by auto
qed

end
