(* ===== verification/Memfs.thy ===== *)
theory Memfs
  imports Store
begin

text \<open>
  The in-memory file system (\<^verbatim>\<open>src/kernel/fs/fs.c\<close>): path normalisation, the tables of files
  and directories and the operations on them. A path is a C string. The used prefixes of
  the two tables are lists; \<open>nfiles\<close> and \<open>ndirs\<close> are their lengths. \<open>data\<close> is the index of the
  buffer it points to, \<open>(size_t)-1\<close> is \<open>None\<close>. An operation whose C body reads uninitialised
  memory or leaves an array is \<open>None\<close> as a whole; otherwise its value holds the C result.
  \<open>resolve_file_path\<close> hands out a pointer into its own array \<open>norm\<close>, which is dead when \<open>fs_read\<close> follows it:
  C gives that no meaning. What the pointer finds there is \<open>dead_frame\<close>, a parameter of the state that no
  operation changes: \<open>None\<close>, its value at the start, is the undefined behaviour, which makes the read \<open>None\<close>;
  \<open>Some nm'\<close> is a build in which the dead array holds \<open>nm'\<close> where \<open>nm\<close> was. \<open>frame_kept\<close> names the builds that
  leave it alone, and every property of what is read says so.
\<close>

definition FS_NAME_MAX :: nat where "FS_NAME_MAX = 32"
definition FS_PATH_MAX :: nat where "FS_PATH_MAX = 128"
definition FS_MAX_FILES :: nat where "FS_MAX_FILES = 64"
definition FS_MAX_DIRS :: nat where "FS_MAX_DIRS = 32"
definition FS_FILE_BUF :: nat where "FS_FILE_BUF = 4096"

datatype fs_node_type = FS_FILE | FS_DIR

record fs_node =
  fn_type :: fs_node_type
  fn_name :: string
  fn_parent :: nat
  fn_size :: nat
  fn_data :: "nat option"

record fs =
  files :: "fs_node list"
  dirs :: "fs_node list"
  cwd :: nat
  file_bufs :: "u8 list list"
  dead_frame :: "string \<Rightarrow> string option"

section \<open>Paths\<close>

text \<open>\<open>while (j > 0 && out[j-1] != '/') j--; if (j > 0) j--;\<close>\<close>

definition drop_component :: "string \<Rightarrow> string" where
  "drop_component out = butlast (rev (dropWhile (\<lambda>c. c \<noteq> CHR ''/'') (rev out)))"

function norm_loop :: "string \<Rightarrow> nat \<Rightarrow> nat \<Rightarrow> string \<Rightarrow> string" where
  "norm_loop path max_len i out =
     (if cget path i = NUL \<or> length out \<ge> max_len - 1 then out
      else if cget path i = CHR ''.'' \<and> cget path (i + 1) = CHR ''.''
              \<and> (cget path (i + 2) = CHR ''/'' \<or> cget path (i + 2) = NUL)
      then norm_loop path max_len (if cget path (i + 2) = CHR ''/'' then i + 3 else i + 2) (drop_component out)
      else if cget path i = CHR ''.'' \<and> (cget path (i + 1) = CHR ''/'' \<or> cget path (i + 1) = NUL)
      then norm_loop path max_len (if cget path (i + 1) = CHR ''/'' then i + 2 else i + 1) out
      else if cget path i = CHR ''/''
      then norm_loop path max_len (i + 1) (if out \<noteq> [] \<and> last out \<noteq> CHR ''/'' then out @ ''/'' else out)
      else norm_loop path max_len (i + 1) (out @ [cget path i]))"
  by pat_completeness auto

termination norm_loop
  by (relation "measure (\<lambda>(path, max_len, i, out). length path - i)")
    (auto simp: cget_def split: if_splits)

declare norm_loop.simps [simp del]

definition normalize_path :: "string \<Rightarrow> nat \<Rightarrow> string" where
  "normalize_path path max_len =
     (let out = (if cget path 0 = CHR ''/'' then norm_loop path max_len 1 ''/''
                 else norm_loop path max_len 0 [])
      in if length out > 1 \<and> last out = CHR ''/'' then butlast out else out)"

text \<open>\<open>while (*p) { if (*p == '/') last = p + 1; p++; }\<close>, on offsets into the path.\<close>

fun scan_last :: "string \<Rightarrow> nat \<Rightarrow> nat \<Rightarrow> nat" where
  "scan_last [] p l = l"
| "scan_last (c # cs) p l = scan_last cs (p + 1) (if c = CHR ''/'' then p + 1 else l)"

section \<open>Lookup\<close>

fun node_by_name :: "fs_node list \<Rightarrow> nat \<Rightarrow> string \<Rightarrow> nat \<Rightarrow> nat option" where
  "node_by_name [] parent name i = None"
| "node_by_name (n # ns) parent name i =
     (if fn_parent n = parent \<and> fn_name n = name then Some i else node_by_name ns parent name (i + 1))"

definition dir_by_name :: "nat \<Rightarrow> string \<Rightarrow> fs \<Rightarrow> nat option" where
  "dir_by_name parent name s = node_by_name (dirs s) parent name 0"

definition file_by_name :: "nat \<Rightarrow> string \<Rightarrow> fs \<Rightarrow> nat option" where
  "file_by_name parent name s = node_by_name (files s) parent name 0"

text \<open>The component loop: a component longer than 31 characters is looked up in pieces.\<close>

definition next_part :: "string \<Rightarrow> string" where
  "next_part p = take (FS_NAME_MAX - 1) (takeWhile (\<lambda>c. c \<noteq> CHR ''/'') p)"

definition after_part :: "string \<Rightarrow> string" where
  "after_part p = (let p = drop (length (next_part p)) p in if p \<noteq> [] \<and> hd p = CHR ''/'' then tl p else p)"

function walk_path :: "fs \<Rightarrow> nat \<Rightarrow> string \<Rightarrow> nat option" where
  "walk_path s d p =
     (if p = [] \<or> next_part p = [] then Some d
      else case dir_by_name d (next_part p) s of None \<Rightarrow> None | Some d' \<Rightarrow> walk_path s d' (after_part p))"
  by pat_completeness auto

termination walk_path
  by (relation "measure (\<lambda>(s, d, p). length p)") (auto simp: after_part_def Let_def)

declare walk_path.simps [simp del]

definition path_to_dir :: "string \<Rightarrow> fs \<Rightarrow> nat option" where
  "path_to_dir path s =
     (let norm = normalize_path path FS_PATH_MAX in
      if cget norm 0 \<noteq> CHR ''/'' then None else walk_path s 0 (drop 1 norm))"

text \<open>The parent of the component at offset \<open>l\<close>, with the two characters the code cuts.\<close>

definition parent_of :: "string \<Rightarrow> nat \<Rightarrow> fs \<Rightarrow> nat option" where
  "parent_of norm l s =
     (let plen = (if l \<ge> 2 then l - 2 else 0)
      in if plen = 0 then Some 0 else path_to_dir (take plen norm) s)"

text \<open>Offset of the last component: \<open>fs_create\<close>, \<open>fs_write\<close> and \<open>fs_read\<close> skip a leading slash.\<close>

definition last_of :: "string \<Rightarrow> nat" where
  "last_of norm = (let k = (if cget norm 0 = CHR ''/'' then 1 else 0) in scan_last (drop k norm) k k)"

definition node_name :: "string \<Rightarrow> string" where
  "node_name nm = take (FS_NAME_MAX - 1) (takeWhile (\<lambda>c. c \<noteq> CHR ''/'') nm)"

section \<open>Operations\<close>

definition fs_init :: "fs \<Rightarrow> fs" where
  "fs_init s = s\<lparr>files := [], cwd := 0,
     dirs := [\<lparr>fn_type = FS_DIR, fn_name = ''/'', fn_parent = 0, fn_size = 0, fn_data = None\<rparr>]\<rparr>"

definition fs_boot :: fs where
  "fs_boot = \<lparr>files = [], dirs = [], cwd = 0, file_bufs = replicate FS_MAX_FILES (replicate FS_FILE_BUF 0),
     dead_frame = (\<lambda>_. None)\<rparr>"

definition fs_mkdir :: "string \<Rightarrow> fs \<Rightarrow> (int \<times> fs) option" where
  "fs_mkdir path s =
     (let norm = normalize_path path FS_PATH_MAX in
      if length (dirs s) \<ge> FS_MAX_DIRS then Some (- 1, s)
      else if norm = [] then None
      else let l = scan_last (drop 1 norm) 1 0 in
        if drop l norm = [] then Some (- 1, s)
        else case parent_of norm l s of
               None \<Rightarrow> Some (- 1, s)
             | Some parent \<Rightarrow>
                 if dir_by_name parent (drop l norm) s \<noteq> None then Some (- 1, s)
                 else Some (0, s\<lparr>dirs := dirs s @ [\<lparr>fn_type = FS_DIR, fn_name = node_name (drop l norm),
                        fn_parent = parent, fn_size = 0, fn_data = None\<rparr>]\<rparr>))"

definition fs_create :: "string \<Rightarrow> fs \<Rightarrow> int \<times> fs" where
  "fs_create path s =
     (let norm = normalize_path path FS_PATH_MAX in
      if length (files s) \<ge> FS_MAX_FILES then (- 1, s)
      else let l = last_of norm in
        if drop l norm = [] then (- 1, s)
        else case parent_of norm l s of
               None \<Rightarrow> (- 1, s)
             | Some parent \<Rightarrow>
                 if file_by_name parent (drop l norm) s \<noteq> None then (- 1, s)
                 else (0, s\<lparr>files := files s @ [\<lparr>fn_type = FS_FILE, fn_name = node_name (drop l norm),
                        fn_parent = parent, fn_size = 0, fn_data = None\<rparr>]\<rparr>))"

definition fs_write :: "string \<Rightarrow> u8 list \<Rightarrow> fs \<Rightarrow> int \<times> fs" where
  "fs_write path content s =
     (let norm = normalize_path path FS_PATH_MAX; l = last_of norm in
      case parent_of norm l s of
        None \<Rightarrow> (- 1, s)
      | Some parent \<Rightarrow>
          (case file_by_name parent (drop l norm) s of
             None \<Rightarrow> (- 1, s)
           | Some fi \<Rightarrow>
               let len = min (length content) FS_FILE_BUF
               in (0, s\<lparr>file_bufs := (file_bufs s)[fi := blit (file_bufs s ! fi) 0 (take len content)],
                        files := (files s)[fi := (files s ! fi)\<lparr>fn_data := Some fi, fn_size := len\<rparr>]\<rparr>)))"

text \<open>The parent chain of \<open>fs_get_cwd\<close>, root-most first; \<open>None\<close> if it never reaches the root.\<close>

partial_function (option) parent_chain :: "fs \<Rightarrow> nat \<Rightarrow> nat list option" where
  "parent_chain s cur =
     (if cur = 0 then Some []
      else Option.bind (parent_chain s (fn_parent (dirs s ! cur))) (\<lambda>st. Some (st @ [cur])))"

text \<open>\<open>while (name[k] && j < lim) buf[j++] = name[k++]\<close>\<close>

definition put_name :: "nat \<Rightarrow> string \<Rightarrow> string \<Rightarrow> string" where
  "put_name lim name buf = buf @ take (lim - length buf) name"

fun cwd_build :: "fs \<Rightarrow> nat \<Rightarrow> nat list \<Rightarrow> string \<Rightarrow> string" where
  "cwd_build s lim [] buf = buf"
| "cwd_build s lim (i # is) buf =
     (if length buf \<ge> lim then buf
      else let buf = put_name lim (fn_name (dirs s ! i)) buf
        in cwd_build s lim is (if is \<noteq> [] \<and> length buf < lim then buf @ ''/'' else buf))"

definition fs_get_cwd :: "nat \<Rightarrow> fs \<Rightarrow> string option" where
  "fs_get_cwd max_len s =
     (if cwd s = 0 then Some ''/''
      else case parent_chain s (cwd s) of
             None \<Rightarrow> None
           | Some st \<Rightarrow> if length st > FS_MAX_DIRS then None else Some (cwd_build s (max_len - 1) st ''/''))"

text \<open>The parent directory and the name \<open>*out_name\<close> points to while \<open>norm\<close> lives; \<open>Some None\<close> is the result -1.\<close>

definition resolve_file_path :: "string \<Rightarrow> fs \<Rightarrow> (nat \<times> string) option option" where
  "resolve_file_path path s =
     (let norm =
        (if cget path 0 = CHR ''/'' then Some (normalize_path path FS_PATH_MAX)
         else case fs_get_cwd FS_PATH_MAX s of
                None \<Rightarrow> None
              | Some ab \<Rightarrow>
                  let ab = (if ab \<noteq> [] \<and> last ab \<noteq> CHR ''/'' then ab @ ''/'' else ab);
                      ab = put_name (FS_PATH_MAX - 1) path ab
                  in if length ab \<ge> FS_PATH_MAX then None else Some (normalize_path ab FS_PATH_MAX))
      in case norm of
           None \<Rightarrow> None
         | Some norm \<Rightarrow>
             Some (map_option (\<lambda>parent. (parent, drop (last_of norm) norm)) (parent_of norm (last_of norm) s)))"

text \<open>The C result and the bytes stored in \<open>buf\<close>, terminator included. The name is read in the dead frame.\<close>

definition fs_read :: "string \<Rightarrow> u64 \<Rightarrow> fs \<Rightarrow> (int \<times> u8 list) option" where
  "fs_read path max_len s =
     (case resolve_file_path path s of
        None \<Rightarrow> None
      | Some None \<Rightarrow> Some (- 1, [])
      | Some (Some (parent, nm)) \<Rightarrow>
          (case dead_frame s nm of
             None \<Rightarrow> None
           | Some nm \<Rightarrow>
               (case file_by_name parent nm s of
                  None \<Rightarrow> Some (- 1, [])
                | Some fi \<Rightarrow>
                    (case fn_data (files s ! fi) of
                       None \<Rightarrow> Some (0, [0])
                     | Some b \<Rightarrow>
                         let n = of_nat (fn_size (files s ! fi)) :: u64;
                             n = (if n \<ge> max_len then max_len - 1 else n)
                         in if unat n > FS_FILE_BUF then None
                            else Some (int (unat n), take (unat n) (file_bufs s ! b) @ [0])))))"

fun list_dirs :: "nat \<Rightarrow> nat \<Rightarrow> fs_node list \<Rightarrow> string \<Rightarrow> string" where
  "list_dirs lim d [] buf = buf"
| "list_dirs lim d (n # ns) buf =
     (if length buf \<ge> lim then buf
      else list_dirs lim d ns
        (if fn_parent n = d
         then let buf = put_name lim (fn_name n) buf @ ''/'' in (if length buf < lim then buf @ '' '' else buf)
         else buf))"

fun list_files :: "nat \<Rightarrow> nat \<Rightarrow> fs_node list \<Rightarrow> string \<Rightarrow> string" where
  "list_files lim d [] buf = buf"
| "list_files lim d (n # ns) buf =
     (if length buf \<ge> lim then buf
      else list_files lim d ns
        (if fn_parent n = d
         then let buf = put_name lim (fn_name n) buf in (if length buf < lim then buf @ '' '' else buf)
         else buf))"

text \<open>The result and the string in \<open>buf\<close>; a null or empty path is \<open>[]\<close>.\<close>

definition fs_list :: "string \<Rightarrow> u64 \<Rightarrow> fs \<Rightarrow> int \<times> string" where
  "fs_list path max_len s =
     (case (if path \<noteq> [] then path_to_dir path s else Some (cwd s)) of
        None \<Rightarrow> (- 1, [])
      | Some d \<Rightarrow>
          let lim = unat (max_len - 1);
              buf = list_files lim d (files s) (list_dirs lim d (dirs s) [])
          in (0, if buf \<noteq> [] \<and> last buf = CHR '' '' then butlast buf else buf))"

definition fs_chdir :: "string \<Rightarrow> fs \<Rightarrow> int \<times> fs" where
  "fs_chdir path s = (case path_to_dir path s of None \<Rightarrow> (- 1, s) | Some d \<Rightarrow> (0, s\<lparr>cwd := d\<rparr>))"

definition fs_exists :: "string \<Rightarrow> fs \<Rightarrow> int option" where
  "fs_exists path s =
     (if path_to_dir path s \<noteq> None then Some 1
      else let norm = normalize_path path FS_PATH_MAX in
        if norm = [] then None
        else let l = scan_last (drop 1 norm) 1 1; plen = l - 1
          in case path_to_dir (if plen \<noteq> 0 then take plen norm else ''/'') s of
               None \<Rightarrow> Some 0
             | Some d \<Rightarrow> if file_by_name d (drop l norm) s \<noteq> None then Some 1 else Some 0)"

section \<open>Paths: bounds and plain paths\<close>

lemma length_drop_component: "length (drop_component out) \<le> length out"
  using length_dropWhile_le [of "\<lambda>c. c \<noteq> CHR ''/''" "rev out"] by (simp add: drop_component_def)

text \<open>What dropping a component and adding a character keep, normalisation keeps.\<close>

lemma norm_loop_keeps:
  assumes "P out"
    and drop: "\<And>out. P out \<Longrightarrow> P (drop_component out)"
    and add: "\<And>out c. P out \<Longrightarrow> length out < max_len - 1 \<Longrightarrow> c \<noteq> NUL \<Longrightarrow> P (out @ [c])"
  shows "P (norm_loop path max_len i out)"
  using assms
proof (induction path max_len i out rule: norm_loop.induct)
  case (1 path max_len i out)
  note IH = "1.IH" and P = "1.prems"(1) and drop = "1.prems"(2) and add = "1.prems"(3)
  show ?case
  proof (cases "cget path i = NUL \<or> length out \<ge> max_len - 1")
    case True
    with P show ?thesis by (simp only: norm_loop.simps [of path max_len i out] if_True)
  next
    case go: False
    then have add': "c \<noteq> NUL \<Longrightarrow> P (out @ [c])" for c using P add by simp
    let ?dd = "cget path i = CHR ''.'' \<and> cget path (i + 1) = CHR ''.''
      \<and> (cget path (i + 2) = CHR ''/'' \<or> cget path (i + 2) = NUL)"
    let ?d = "cget path i = CHR ''.'' \<and> (cget path (i + 1) = CHR ''/'' \<or> cget path (i + 1) = NUL)"
    note eq = norm_loop.simps [of path max_len i out]
    show ?thesis
    proof (cases ?dd)
      case True
      show ?thesis
        unfolding eq if_not_P [OF go] if_P [OF True]
        by (rule IH(1) [OF go True drop [OF P] drop add])
    next
      case n1: False
      show ?thesis
      proof (cases ?d)
        case True
        show ?thesis
          unfolding eq if_not_P [OF go] if_not_P [OF n1] if_P [OF True]
          by (rule IH(2) [OF go n1 True P drop add])
      next
        case n2: False
        show ?thesis
        proof (cases "cget path i = CHR ''/''")
          case True
          have "P (if out \<noteq> [] \<and> last out \<noteq> CHR ''/'' then out @ ''/'' else out)" using P add' by simp
          then show ?thesis
            unfolding eq if_not_P [OF go] if_not_P [OF n1] if_not_P [OF n2] if_P [OF True]
            by (rule IH(3) [OF go n1 n2 True _ drop add])
        next
          case False
          have "P (out @ [cget path i])" using add' go by simp
          then show ?thesis
            unfolding eq if_not_P [OF go] if_not_P [OF n1] if_not_P [OF n2] if_not_P [OF False]
            by (rule IH(4) [OF go n1 n2 False _ drop add])
        qed
      qed
    qed
  qed
qed

lemma norm_loop_length:
  assumes "length out \<le> max_len - 1"
  shows "length (norm_loop path max_len i out) \<le> max_len - 1"
  by (rule norm_loop_keeps [where P = "\<lambda>out. length out \<le> max_len - 1"])
    (use assms length_drop_component in \<open>auto intro: order_trans\<close>)

lemma normalize_path_length:
  assumes "2 \<le> max_len"
  shows "length (normalize_path path max_len) \<le> max_len - 1"
proof -
  have "length (norm_loop path max_len 1 ''/'') \<le> max_len - 1"
    and "length (norm_loop path max_len 0 []) \<le> max_len - 1"
    using assms by (intro norm_loop_length, simp)+
  then show ?thesis
    by (auto simp: normalize_path_def Let_def intro: le_trans [OF diff_le_self])
qed

lemma norm_loop_no_NUL:
  assumes "NUL \<notin> set out"
  shows "NUL \<notin> set (norm_loop path max_len i out)"
proof (rule norm_loop_keeps [where P = "\<lambda>out. NUL \<notin> set out", OF assms])
  fix out :: string assume "NUL \<notin> set out"
  moreover have "set (drop_component out) \<subseteq> set out"
    unfolding drop_component_def by (auto dest!: in_set_butlastD set_dropWhileD simp del: butlast_rev)
  ultimately show "NUL \<notin> set (drop_component out)" by blast
qed simp

text \<open>A stretch without dots and slashes is copied.\<close>

definition plain :: "string \<Rightarrow> bool" where
  "plain name \<longleftrightarrow> NUL \<notin> set name \<and> CHR ''.'' \<notin> set name \<and> CHR ''/'' \<notin> set name"

lemma norm_loop_plain_pre:
  assumes "plain name" and "length out + length name < max_len"
  shows "norm_loop (pre @ name @ post) max_len (length pre) out
    = norm_loop ((pre @ name) @ post) max_len (length (pre @ name)) (out @ name)"
  using assms
proof (induction name arbitrary: pre out)
  case (Cons c name)
  have c: "cget (pre @ (c # name) @ post) (length pre) = c" by (simp add: cget_def)
  have "c \<noteq> NUL" "c \<noteq> CHR ''.''" "c \<noteq> CHR ''/''" "\<not> length out \<ge> max_len - 1"
    using Cons.prems by (auto simp: plain_def)
  then have "norm_loop (pre @ (c # name) @ post) max_len (length pre) out
      = norm_loop (pre @ (c # name) @ post) max_len (length pre + 1) (out @ [c])"
    unfolding norm_loop.simps [of _ _ "length pre" out] c by simp
  also have "\<dots> = norm_loop ((pre @ [c]) @ name @ post) max_len (length (pre @ [c])) (out @ [c])" by simp
  also have "\<dots> = norm_loop (((pre @ [c]) @ name) @ post) max_len (length ((pre @ [c]) @ name)) ((out @ [c]) @ name)"
    using Cons.prems by (intro Cons.IH) (simp_all add: plain_def)
  finally show ?case by simp
qed simp

lemma norm_loop_end: "length path \<le> i \<Longrightarrow> norm_loop path max_len i out = out"
  by (subst norm_loop.simps) (simp add: cget_def)

lemma norm_loop_plain:
  assumes "plain name" and "length out + length name < max_len"
  shows "norm_loop (pre @ name) max_len (length pre) out = out @ name"
  using norm_loop_plain_pre [OF assms, of pre "[]"] norm_loop_end [of "pre @ name" "length (pre @ name)"] by simp

lemma normalize_top:
  assumes "plain name" and "name \<noteq> []" and "length name < 127"
  shows "normalize_path (''/'' @ name) FS_PATH_MAX = ''/'' @ name"
proof -
  have "norm_loop (''/'' @ name) FS_PATH_MAX (length ''/'') ''/'' = ''/'' @ name"
    using assms by (intro norm_loop_plain) (simp_all add: FS_PATH_MAX_def)
  moreover have "last name \<noteq> CHR ''/''"
    using last_in_set [OF assms(2)] assms(1) unfolding plain_def by metis
  moreover have "cget (''/'' @ name) 0 = CHR ''/''" by (simp add: cget_def)
  ultimately show ?thesis using assms(2) by (simp add: normalize_path_def Let_def)
qed

lemma scan_last_no_slash: "CHR ''/'' \<notin> set s \<Longrightarrow> scan_last s p l = l"
  by (induction s arbitrary: p) auto

lemma last_of_top: "plain name \<Longrightarrow> last_of (''/'' @ name) = 1"
  by (simp add: last_of_def cget_def Let_def scan_last_no_slash plain_def)

section \<open>The invariant of the tables\<close>

lemma node_by_name_Some:
  assumes "node_by_name ns parent name i = Some k"
  shows "i \<le> k \<and> k < i + length ns \<and> fn_parent (ns ! (k - i)) = parent \<and> fn_name (ns ! (k - i)) = name"
  using assms
proof (induction ns arbitrary: i)
  case (Cons n ns)
  show ?case
  proof (cases "fn_parent n = parent \<and> fn_name n = name")
    case False
    with Cons.prems have "node_by_name ns parent name (i + 1) = Some k" by simp
    from Cons.IH [OF this] show ?thesis by (simp add: nth_Cons')
  qed (use Cons.prems in simp)
qed simp

lemma node_by_name_None:
  "node_by_name ns parent name i = None \<longleftrightarrow> (\<forall>n \<in> set ns. \<not> (fn_parent n = parent \<and> fn_name n = name))"
  by (induction ns arbitrary: i) auto

lemma node_by_name_snoc:
  "node_by_name ns parent name i = None \<Longrightarrow>
    node_by_name (ns @ [n]) parent name i
      = (if fn_parent n = parent \<and> fn_name n = name then Some (i + length ns) else None)"
  by (induction ns arbitrary: i) (auto split: if_splits)

lemma node_by_name_upd:
  assumes "fn_parent n = fn_parent (ns ! k)" and "fn_name n = fn_name (ns ! k)"
  shows "node_by_name (ns[k := n]) parent name i = node_by_name ns parent name i"
  using assms
proof (induction ns arbitrary: i k)
  case (Cons m ns)
  then show ?case by (cases k) auto
qed simp

definition dir_ok :: "nat \<Rightarrow> fs_node \<Rightarrow> bool" where
  "dir_ok i n \<longleftrightarrow> length (fn_name n) < FS_NAME_MAX \<and> (fn_parent n < i \<or> i = 0 \<and> fn_parent n = 0)"

definition file_ok :: "nat \<Rightarrow> nat \<Rightarrow> fs_node \<Rightarrow> bool" where
  "file_ok nd i n \<longleftrightarrow> length (fn_name n) < FS_NAME_MAX \<and> fn_parent n < nd
     \<and> fn_size n \<le> FS_FILE_BUF \<and> fn_data n \<in> {None, Some i}"

definition fs_inv :: "fs \<Rightarrow> bool" where
  "fs_inv s \<longleftrightarrow> length (files s) \<le> FS_MAX_FILES \<and> 0 < length (dirs s) \<and> length (dirs s) \<le> FS_MAX_DIRS
     \<and> cwd s < length (dirs s) \<and> map length (file_bufs s) = replicate FS_MAX_FILES FS_FILE_BUF
     \<and> (\<forall>i < length (dirs s). dir_ok i (dirs s ! i))
     \<and> (\<forall>i < length (files s). file_ok (length (dirs s)) i (files s ! i))"

lemma all_snoc: "(\<forall>i < length (xs @ [x]). P i ((xs @ [x]) ! i)) \<longleftrightarrow> (\<forall>i < length xs. P i (xs ! i)) \<and> P (length xs) x"
  by (auto simp: nth_append less_Suc_eq)

lemma file_ok_mono: "file_ok nd i n \<Longrightarrow> nd \<le> nd' \<Longrightarrow> file_ok nd' i n"
  by (auto simp: file_ok_def)

lemma fs_inv_add_dir:
  assumes "fs_inv s" and "length (dirs s) < FS_MAX_DIRS" and "dir_ok (length (dirs s)) n"
  shows "fs_inv (s\<lparr>dirs := dirs s @ [n]\<rparr>)"
proof -
  have "\<forall>i < length (files s). file_ok (length (dirs s @ [n])) i (files s ! i)"
    using assms(1) file_ok_mono [of "length (dirs s)" _ _ "length (dirs s @ [n])"] by (simp add: fs_inv_def)
  moreover have "\<forall>i < length (dirs s @ [n]). dir_ok i ((dirs s @ [n]) ! i)"
    unfolding all_snoc using assms by (simp add: fs_inv_def)
  ultimately show ?thesis using assms(1,2) by (simp add: fs_inv_def)
qed

lemma fs_inv_add_file:
  assumes "fs_inv s" and "length (files s) < FS_MAX_FILES" and "file_ok (length (dirs s)) (length (files s)) n"
  shows "fs_inv (s\<lparr>files := files s @ [n]\<rparr>)"
proof -
  have "\<forall>i < length (files s @ [n]). file_ok (length (dirs s)) i ((files s @ [n]) ! i)"
    unfolding all_snoc using assms by (simp add: fs_inv_def)
  then show ?thesis using assms(1,2) by (simp add: fs_inv_def)
qed

lemma fs_inv_init: "map length (file_bufs s) = replicate FS_MAX_FILES FS_FILE_BUF \<Longrightarrow> fs_inv (fs_init s)"
  by (simp add: fs_inv_def fs_init_def dir_ok_def FS_MAX_DIRS_def FS_NAME_MAX_def)

lemma walk_path_bound:
  "walk_path s d p = Some d' \<Longrightarrow> d < length (dirs s) \<Longrightarrow> d' < length (dirs s)"
proof (induction s d p rule: walk_path.induct)
  case (1 s d p)
  show ?case
  proof (cases "p = [] \<or> next_part p = []")
    case True
    with 1 show ?thesis by (simp add: walk_path.simps [of s d p])
  next
    case False
    with 1(2) obtain e where e: "dir_by_name d (next_part p) s = Some e" "walk_path s e (after_part p) = Some d'"
      by (auto simp: walk_path.simps [of s d p] split: option.splits)
    have "e < length (dirs s)" using node_by_name_Some [OF e(1) [unfolded dir_by_name_def]] by simp
    with 1(1) False e show ?thesis by blast
  qed
qed

lemma path_to_dir_bound: "path_to_dir path s = Some d \<Longrightarrow> fs_inv s \<Longrightarrow> d < length (dirs s)"
  using walk_path_bound by (auto simp: path_to_dir_def Let_def fs_inv_def split: if_splits)

lemma parent_of_bound: "parent_of norm l s = Some d \<Longrightarrow> fs_inv s \<Longrightarrow> d < length (dirs s)"
  using path_to_dir_bound by (auto simp: parent_of_def Let_def fs_inv_def split: if_splits)

lemma node_name_length: "length (node_name nm) < FS_NAME_MAX"
  by (simp add: node_name_def FS_NAME_MAX_def)

lemma fs_inv_mkdir:
  assumes inv: "fs_inv s" and eq: "fs_mkdir path s = Some (r, s')"
  shows "fs_inv s'"
proof -
  define norm where "norm = normalize_path path FS_PATH_MAX"
  define l where "l = scan_last (drop 1 norm) 1 0"
  note eq = eq [unfolded fs_mkdir_def Let_def, folded norm_def, folded l_def]
  show ?thesis
  proof (cases "parent_of norm l s")
    case None
    with eq have "s' = s" by (simp split: if_split_asm)
    with inv show ?thesis by simp
  next
    case (Some parent)
    have "parent < length (dirs s)" using parent_of_bound [OF Some inv] .
    then have "length (dirs s) < FS_MAX_DIRS \<Longrightarrow> fs_inv (s\<lparr>dirs := dirs s @ [\<lparr>fn_type = FS_DIR,
        fn_name = node_name (drop l norm), fn_parent = parent, fn_size = 0, fn_data = None\<rparr>]\<rparr>)"
      using inv by (intro fs_inv_add_dir) (simp_all add: dir_ok_def node_name_length)
    with eq Some inv show ?thesis by (simp split: if_split_asm) 
  qed
qed

lemma fs_inv_create:
  assumes inv: "fs_inv s"
  shows "fs_inv (snd (fs_create path s))"
proof -
  define norm where "norm = normalize_path path FS_PATH_MAX"
  define l where "l = last_of norm"
  note eq = fs_create_def [of path s, unfolded Let_def, folded norm_def, folded l_def]
  show ?thesis
  proof (cases "parent_of norm l s")
    case None
    with eq inv show ?thesis by simp
  next
    case (Some parent)
    have "parent < length (dirs s)" using parent_of_bound [OF Some inv] .
    then have "length (files s) < FS_MAX_FILES \<Longrightarrow> fs_inv (s\<lparr>files := files s @ [\<lparr>fn_type = FS_FILE,
        fn_name = node_name (drop l norm), fn_parent = parent, fn_size = 0, fn_data = None\<rparr>]\<rparr>)"
      using inv by (intro fs_inv_add_file) (simp_all add: file_ok_def node_name_length)
    with eq Some inv show ?thesis by simp
  qed
qed

text \<open>A successful write, in terms of the file it found.\<close>

definition stored :: "nat \<Rightarrow> u8 list \<Rightarrow> fs \<Rightarrow> fs" where
  "stored fi content s = s\<lparr>file_bufs := (file_bufs s)[fi := blit (file_bufs s ! fi) 0 (take FS_FILE_BUF content)],
     files := (files s)[fi := (files s ! fi)\<lparr>fn_data := Some fi, fn_size := min (length content) FS_FILE_BUF\<rparr>]\<rparr>"

lemma fs_write_cases:
  "fs_write path content s = (- 1, s)
   \<or> (\<exists>parent fi. parent_of (normalize_path path FS_PATH_MAX) (last_of (normalize_path path FS_PATH_MAX)) s = Some parent
       \<and> file_by_name parent (drop (last_of (normalize_path path FS_PATH_MAX)) (normalize_path path FS_PATH_MAX)) s = Some fi
       \<and> fs_write path content s = (0, stored fi content s))"
proof -
  have "take (min (length content) FS_FILE_BUF) content = take FS_FILE_BUF content" by (simp add: min_def)
  then show ?thesis
    by (simp add: fs_write_def stored_def Let_def split: option.splits)
qed

lemma fs_inv_bufs:
  assumes "fs_inv s"
  shows "length (file_bufs s) = FS_MAX_FILES"
    and "i < FS_MAX_FILES \<Longrightarrow> length (file_bufs s ! i) = FS_FILE_BUF"
proof -
  have eq: "map length (file_bufs s) = replicate FS_MAX_FILES FS_FILE_BUF" using assms by (simp add: fs_inv_def)
  from arg_cong [OF this, of length] show "length (file_bufs s) = FS_MAX_FILES" by simp
  then show "i < FS_MAX_FILES \<Longrightarrow> length (file_bufs s ! i) = FS_FILE_BUF"
    using arg_cong [OF eq, of "\<lambda>xs. xs ! i"] by simp
qed

lemma fs_inv_stored:
  assumes inv: "fs_inv s" and fi: "fi < length (files s)"
  shows "fs_inv (stored fi content s)"
proof -
  let ?m = "(files s ! fi)\<lparr>fn_data := Some fi, fn_size := min (length content) FS_FILE_BUF\<rparr>"
  let ?b = "blit (file_bufs s ! fi) 0 (take FS_FILE_BUF content)"
  have "length (file_bufs s ! fi) = FS_FILE_BUF" using fs_inv_bufs [OF inv] inv fi by (simp add: fs_inv_def)
  then have "length ?b = length (file_bufs s ! fi)" by simp
  then have "map length ((file_bufs s)[fi := ?b]) = map length (file_bufs s)"
    using inv fi fs_inv_bufs [OF inv] by (simp add: map_update list_update_same_conv fs_inv_def)
  moreover have "file_ok (length (dirs s)) fi ?m"
    using inv fi by (simp add: fs_inv_def file_ok_def)
  then have "\<forall>i < length (files s). file_ok (length (dirs s)) i ((files s)[fi := ?m] ! i)"
    using inv fi by (simp add: fs_inv_def nth_list_update)
  ultimately show ?thesis using inv by (simp add: fs_inv_def stored_def)
qed

lemma fs_inv_write:
  assumes "fs_inv s"
  shows "fs_inv (snd (fs_write path content s))"
  using fs_write_cases [of path content s]
proof (elim disjE exE conjE)
  fix parent fi
  assume "file_by_name parent (drop (last_of (normalize_path path FS_PATH_MAX)) (normalize_path path FS_PATH_MAX)) s = Some fi"
    and eq: "fs_write path content s = (0, stored fi content s)"
  then have "fi < length (files s)" using node_by_name_Some by (fastforce simp: file_by_name_def)
  with assms eq show ?thesis by (simp add: fs_inv_stored)
qed (use assms in simp)

lemma fs_inv_chdir: "fs_inv s \<Longrightarrow> fs_inv (snd (fs_chdir path s))"
  using path_to_dir_bound by (auto simp: fs_chdir_def fs_inv_def split: option.splits)

inductive fs_reach :: "fs \<Rightarrow> bool" where
  init: "fs_reach (fs_init (fs_boot\<lparr>dead_frame := d\<rparr>))"
| newdir: "fs_reach s \<Longrightarrow> fs_mkdir path s = Some (r, s') \<Longrightarrow> fs_reach s'"
| newfile: "fs_reach s \<Longrightarrow> fs_reach (snd (fs_create path s))"
| store: "fs_reach s \<Longrightarrow> fs_reach (snd (fs_write path content s))"
| chdir: "fs_reach s \<Longrightarrow> fs_reach (snd (fs_chdir path s))"

lemma fs_reach_inv: "fs_reach s \<Longrightarrow> fs_inv s"
proof (induction rule: fs_reach.induct)
  case (init d)
  show ?case by (rule fs_inv_init) (simp_all add: fs_boot_def)
qed (simp_all add: fs_inv_mkdir fs_inv_create fs_inv_write fs_inv_chdir)

text \<open>The start of a build whatever its dead frame, and the builds that keep it.\<close>

lemma fs_reach_boot: "fs_reach (fs_init fs_boot)"
proof -
  have "fs_boot\<lparr>dead_frame := \<lambda>_. None\<rparr> = fs_boot" by (simp add: fs_boot_def)
  then show ?thesis using fs_reach.init [of "\<lambda>_. None"] by simp
qed

definition frame_kept :: "fs \<Rightarrow> bool" where
  "frame_kept s \<longleftrightarrow> (\<forall>nm. dead_frame s nm = Some nm)"

definition fs_kept :: fs where
  "fs_kept = fs_boot\<lparr>dead_frame := Some\<rparr>"

lemma fs_kept_boot: "fs_reach (fs_init fs_kept)" "frame_kept (fs_init fs_kept)"
  unfolding fs_kept_def by (rule fs_reach.init) (simp add: frame_kept_def fs_init_def)

lemma frame_keptD [simp]: "frame_kept s \<Longrightarrow> dead_frame s nm = Some nm"
  by (simp add: frame_kept_def)

lemma frame_kept_cong: "dead_frame s' = dead_frame s \<Longrightarrow> frame_kept s' = frame_kept s"
  by (simp add: frame_kept_def)

lemma dead_frame_init [simp]: "dead_frame (fs_init s) = dead_frame s"
  by (simp add: fs_init_def)

lemma dead_frame_create: "fs_create path s = (r, s') \<Longrightarrow> dead_frame s' = dead_frame s"
  by (auto simp: fs_create_def Let_def split: if_splits option.splits)

lemma dead_frame_write: "fs_write path c s = (r, s') \<Longrightarrow> dead_frame s' = dead_frame s"
  by (auto simp: fs_write_def Let_def split: if_splits option.splits)

lemma frame_kept_create: "fs_create path s = (r, s') \<Longrightarrow> frame_kept s' = frame_kept s"
  by (rule frame_kept_cong) (rule dead_frame_create)

lemma frame_kept_write: "fs_write path c s = (r, s') \<Longrightarrow> frame_kept s' = frame_kept s"
  by (rule frame_kept_cong) (rule dead_frame_write)

section \<open>Walks\<close>

lemma walk_path_cong: "dirs s' = dirs s \<Longrightarrow> walk_path s' d p = walk_path s d p"
proof (induction s d p rule: walk_path.induct)
  case (1 s d p)
  show ?case
  proof (cases "p = [] \<or> next_part p = []")
    case True
    then show ?thesis by (simp add: walk_path.simps [of _ d p])
  next
    case False
    with 1 show ?thesis
      by (simp add: walk_path.simps [of _ d p] dir_by_name_def split: option.split)
  qed
qed

lemma parent_of_cong: "dirs s' = dirs s \<Longrightarrow> parent_of norm l s' = parent_of norm l s"
  by (simp add: parent_of_def path_to_dir_def Let_def walk_path_cong [of s' s])

lemma parent_chain_total:
  assumes inv: "fs_inv s" and "cur < length (dirs s)"
  shows "\<exists>st. parent_chain s cur = Some st \<and> length st \<le> cur \<and> (\<forall>i \<in> set st. 0 < i \<and> i \<le> cur)"
  using assms(2)
proof (induction cur rule: less_induct)
  case (less cur)
  show ?case
  proof (cases "cur = 0")
    case True
    then show ?thesis by (simp add: parent_chain.simps [of s 0])
  next
    case False
    let ?p = "fn_parent (dirs s ! cur)"
    from inv less.prems False have "?p < cur" by (auto simp: fs_inv_def dir_ok_def)
    with less.IH [of ?p] less.prems obtain st where
      st: "parent_chain s ?p = Some st" "length st \<le> ?p" "\<forall>i \<in> set st. 0 < i \<and> i \<le> ?p" by auto
    have "parent_chain s cur = Some (st @ [cur])"
      using st(1) False by (simp add: parent_chain.simps [of s cur])
    with st(2,3) \<open>?p < cur\<close> False show ?thesis by fastforce
  qed
qed

lemma cwd_build_length: "length buf \<le> lim \<Longrightarrow> length (cwd_build s lim is buf) \<le> lim"
  by (induction "is" arbitrary: buf) (auto simp: put_name_def Let_def min_def)

lemma parent_chain_cong: "dirs s' = dirs s \<Longrightarrow> fs_inv s \<Longrightarrow> cur < length (dirs s)
  \<Longrightarrow> parent_chain s' cur = parent_chain s cur"
proof (induction cur rule: less_induct)
  case (less cur)
  show ?case
  proof (cases "cur = 0")
    case True
    then show ?thesis by (simp add: parent_chain.simps [of _ 0])
  next
    case False
    from less.prems False have "fn_parent (dirs s ! cur) < cur" by (auto simp: fs_inv_def dir_ok_def)
    with less False show ?thesis by (simp add: parent_chain.simps [of _ cur])
  qed
qed

lemma cwd_build_cong: "dirs s' = dirs s \<Longrightarrow> cwd_build s' lim is buf = cwd_build s lim is buf"
  by (induction "is" arbitrary: buf) (auto simp: Let_def)

lemma fs_get_cwd_cong:
  "dirs s' = dirs s \<Longrightarrow> cwd s' = cwd s \<Longrightarrow> fs_inv s \<Longrightarrow> fs_get_cwd m s' = fs_get_cwd m s"
  using parent_chain_cong [of s' s "cwd s"]
  by (simp add: fs_get_cwd_def fs_inv_def cwd_build_cong [of s' s] split: option.split)

lemma resolve_cong:
  "dirs s' = dirs s \<Longrightarrow> cwd s' = cwd s \<Longrightarrow> fs_inv s \<Longrightarrow> resolve_file_path path s' = resolve_file_path path s"
  by (simp add: resolve_file_path_def Let_def parent_of_cong [of s' s] fs_get_cwd_cong [of s' s]
      split: option.split)

text \<open>In every reachable state the walk up the parent chain of \<open>fs_get_cwd\<close> reaches the root within the
  \<open>FS_MAX_DIRS\<close> entries of its stack, and the path fits the caller's buffer.\<close>

theorem fs_get_cwd_returns:
  assumes "fs_reach s" and "2 \<le> max_len"
  shows "\<exists>path. fs_get_cwd max_len s = Some path \<and> length path \<le> max_len - 1"
proof (cases "cwd s = 0")
  case True
  with assms(2) show ?thesis by (simp add: fs_get_cwd_def)
next
  case False
  have inv: "fs_inv s" by (rule fs_reach_inv [OF assms(1)])
  then have cwd: "cwd s < length (dirs s)" "length (dirs s) \<le> FS_MAX_DIRS" by (simp_all add: fs_inv_def)
  from parent_chain_total [OF inv cwd(1)] obtain st where st: "parent_chain s (cwd s) = Some st" "length st \<le> cwd s"
    by (elim exE conjE) (rule that)
  with False cwd have "fs_get_cwd max_len s = Some (cwd_build s (max_len - 1) st ''/'')"
    by (simp add: fs_get_cwd_def)
  with cwd_build_length [of "''/''" "max_len - 1"] assms(2) show ?thesis by simp
qed

section \<open>Reading what was written\<close>

text \<open>The file a path names to \<open>fs_read\<close>.\<close>

definition file_of :: "string \<Rightarrow> fs \<Rightarrow> nat option" where
  "file_of path s = (case resolve_file_path path s of Some (Some (parent, nm)) \<Rightarrow> file_by_name parent nm s | _ \<Rightarrow> None)"

lemma stored_fields [simp]: "dirs (stored fi c s) = dirs s" "cwd (stored fi c s) = cwd s"
  by (simp_all add: stored_def)

lemma file_by_name_stored [simp]: "file_by_name parent nm (stored fi c s) = file_by_name parent nm s"
  by (simp add: file_by_name_def stored_def node_by_name_upd)

lemma file_of_stored: "fs_inv s \<Longrightarrow> file_of path (stored fi c s) = file_of path s"
  by (simp add: file_of_def resolve_cong [of "stored fi c s" s] split: option.split prod.split)

lemma file_by_name_bound: "file_by_name parent nm s = Some fi \<Longrightarrow> fi < length (files s)"
  using node_by_name_Some [of "files s" parent nm 0 fi] by (simp add: file_by_name_def)

lemma fs_write_stored:
  assumes "fs_write path c s = (0, s')" and "cget path 0 = CHR ''/''"
  obtains fi where "s' = stored fi c s" and "file_of path s = Some fi" and "fi < length (files s)"
proof -
  from fs_write_cases [of path c s] assms(1) obtain parent fi where
    *: "parent_of (normalize_path path FS_PATH_MAX) (last_of (normalize_path path FS_PATH_MAX)) s = Some parent"
      "file_by_name parent (drop (last_of (normalize_path path FS_PATH_MAX)) (normalize_path path FS_PATH_MAX)) s = Some fi"
      "fs_write path c s = (0, stored fi c s)" by auto
  show ?thesis
  proof (rule that)
    show "s' = stored fi c s" using *(3) assms(1) by simp
    show "file_of path s = Some fi" using *(1,2) assms(2) by (simp add: file_of_def resolve_file_path_def)
    show "fi < length (files s)" by (rule file_by_name_bound [OF *(2)])
  qed
qed

lemma fs_read_file:
  assumes "frame_kept s" and "file_of path s = Some fi" and "fn_data (files s ! fi) = Some b"
    and "fn_size (files s ! fi) \<le> FS_FILE_BUF" and "0 < max_len"
  shows "fs_read path max_len s = (let n = min (fn_size (files s ! fi)) (unat max_len - 1)
    in Some (int n, take n (file_bufs s ! b) @ [0]))"
proof -
  let ?n = "of_nat (fn_size (files s ! fi)) :: u64"
  have n: "unat ?n = fn_size (files s ! fi)"
    using assms(4) by (simp add: FS_FILE_BUF_def unat_of_nat take_bit_nat_eq_self)
  have m: "unat (max_len - 1) = unat max_len - 1"
    using assms(5) by (simp add: unat_minus_one word_gt_0)
  have eq: "unat (if ?n \<ge> max_len then max_len - 1 else ?n) = min (fn_size (files s ! fi)) (unat max_len - 1)"
    using n m assms(5) by (auto simp: word_le_nat_alt min_def unat_gt_0 word_gt_0)
  from assms(2) obtain parent nm where r: "resolve_file_path path s = Some (Some (parent, nm))"
    "file_by_name parent nm s = Some fi"
    by (auto simp: file_of_def split: option.splits)
  define n where "n = (if ?n \<ge> max_len then max_len - 1 else ?n)"
  have u: "unat n = min (fn_size (files s ! fi)) (unat max_len - 1)" using eq by (simp add: n_def)
  moreover have "\<not> unat n > FS_FILE_BUF" using u assms(4) by simp
  ultimately show ?thesis
    unfolding fs_read_def r option.case prod.case frame_keptD [OF assms(1)] assms(3) Let_def n_def [symmetric] by simp
qed

lemma fs_read_stored:
  assumes "fs_inv s" and "cget path 0 = CHR ''/''" and "fs_write path c s = (0, s')" and "0 < max_len" and "frame_kept s"
  shows "fs_read path max_len s'
    = (let n = min (min (length c) FS_FILE_BUF) (unat max_len - 1) in Some (int n, take n c @ [0]))"
proof -
  note inv = assms(1)
  obtain fi where fi: "s' = stored fi c s" "file_of path s = Some fi" "fi < length (files s)"
    by (rule fs_write_stored [OF assms(3,2)])
  let ?m = "min (length c) FS_FILE_BUF"
  have f: "files s' ! fi = (files s ! fi)\<lparr>fn_data := Some fi, fn_size := ?m\<rparr>"
    using fi by (simp add: stored_def)
  have "fi < length (file_bufs s)" using inv fi(3) fs_inv_bufs(1) [OF inv] by (simp add: fs_inv_def)
  then have b: "file_bufs s' ! fi = blit (file_bufs s ! fi) 0 (take FS_FILE_BUF c)"
    using fi(1) by (simp add: stored_def)
  have "file_of path s' = Some fi" using file_of_stored [OF inv] fi(1,2) by simp
  from fs_read_file [OF _ this, of fi max_len] f assms(4,5) frame_kept_write [OF assms(3)]
  have "fs_read path max_len s'
      = (let n = min ?m (unat max_len - 1) in Some (int n, take n (file_bufs s' ! fi) @ [0]))" by simp
  moreover have "take (min ?m k) (file_bufs s' ! fi) = take (min ?m k) c" for k
    unfolding b by (simp add: blit_def min_def)
  ultimately show ?thesis by (simp add: Let_def)
qed

lemma fs_read_after_write_undefined:
  assumes "fs_inv s" and "cget path 0 = CHR ''/''" and "fs_write path c s = (0, s')" and "dead_frame s = (\<lambda>_. None)"
  shows "fs_read path max_len s' = None"
proof -
  obtain fi where fi: "s' = stored fi c s" "file_of path s = Some fi" by (rule fs_write_stored [OF assms(3,2)])
  have "file_of path s' = Some fi" using file_of_stored [OF assms(1)] fi by simp
  then obtain parent nm where "resolve_file_path path s' = Some (Some (parent, nm))" by (auto simp: file_of_def split: option.splits)
  then show ?thesis using dead_frame_write [OF assms(3)] assms(4) by (simp add: fs_read_def)
qed

text \<open>What \<open>fs_write\<close> stores under an absolute path \<open>fs_read\<close> returns: the content, cut to the 4096
  bytes of a file and to the reader's buffer less its terminator.\<close>

theorem fs_write_then_read:
  assumes "fs_reach s" and "cget path 0 = CHR ''/''" and "fs_write path c s = (0, s')" and "0 < max_len" and "frame_kept s"
  shows "fs_read path max_len s'
    = (let n = min (min (length c) FS_FILE_BUF) (unat max_len - 1) in Some (int n, take n c @ [0]))"
  by (rule fs_read_stored [OF fs_reach_inv [OF assms(1)] assms(2-5)])

text \<open>Writing one file leaves every read of another as it was.\<close>

theorem fs_write_frame:
  assumes "fs_reach s" and "cget path 0 = CHR ''/''" and "fs_write path c s = (0, s')"
    and "file_of q s \<noteq> file_of path s" and kept: "frame_kept s"
  shows "fs_read q max_len s' = fs_read q max_len s"
proof -
  have inv: "fs_inv s" by (rule fs_reach_inv [OF assms(1)])
  obtain fi where fi: "s' = stored fi c s" "file_of path s = Some fi" "fi < length (files s)"
    by (rule fs_write_stored [OF assms(3,2)])
  have res: "resolve_file_path q s' = resolve_file_path q s" by (rule resolve_cong) (simp_all add: inv fi(1))
  have kept': "frame_kept s'" using kept frame_kept_write [OF assms(3)] by simp
  show ?thesis
  proof (cases "file_of q s")
    case None
    then consider "resolve_file_path q s = None" | "resolve_file_path q s = Some None"
      | parent nm where "resolve_file_path q s = Some (Some (parent, nm))" "file_by_name parent nm s = None"
      by (auto simp: file_of_def split: option.splits prod.splits)
    then show ?thesis using kept kept' by cases (simp_all add: fs_read_def res, simp add: fi(1))
  next
    case (Some k)
    then obtain parent nm where r: "resolve_file_path q s = Some (Some (parent, nm))"
      and k: "file_by_name parent nm s = Some k" by (auto simp: file_of_def split: option.splits)
    have "k \<noteq> fi" using Some assms(4) fi(2) by simp
    then have "files s' ! k = files s ! k" "k \<noteq> fi" by (simp_all add: fi(1) stored_def)
    moreover have "fn_data (files s ! k) \<in> {None, Some k}"
      using inv file_by_name_bound [OF k] by (auto simp: fs_inv_def file_ok_def)
    moreover have "file_bufs s' ! k = file_bufs s ! k" using \<open>k \<noteq> fi\<close> by (simp add: fi(1) stored_def)
    moreover have "file_by_name parent nm s' = Some k" using k fi(1) by simp
    ultimately show ?thesis
      unfolding fs_read_def res r option.case prod.case frame_keptD [OF kept] frame_keptD [OF kept'] k
      by (cases "fn_data (files s ! k)") (auto simp: Let_def)
  qed
qed

section \<open>The files as a store\<close>

text \<open>Writes that succeed, and what every reader of a path gets.\<close>

definition fs_put :: "string \<Rightarrow> u8 list \<Rightarrow> fs \<Rightarrow> fs option" where
  "fs_put path c s = (case fs_write path c s of (r, s') \<Rightarrow> if r = 0 then Some s' else None)"

definition fs_view :: "string \<Rightarrow> fs \<Rightarrow> u64 \<Rightarrow> (int \<times> u8 list) option" where
  "fs_view path s max_len = (if max_len = 0 then None else fs_read path max_len s)"

definition fs_content :: "u8 list \<Rightarrow> u64 \<Rightarrow> (int \<times> u8 list) option" where
  "fs_content c max_len = (if max_len = 0 then None
     else let n = min (min (length c) FS_FILE_BUF) (unat max_len - 1) in Some (int n, take n c @ [0]))"

definition absolute :: "string \<Rightarrow> bool" where
  "absolute path \<longleftrightarrow> cget path 0 = CHR ''/''"

lemma fs_put_Some: "fs_put path c s = Some s' \<longleftrightarrow> fs_write path c s = (0, s')"
  by (auto simp: fs_put_def split: prod.splits)

lemma fs_write_total: "absolute path \<Longrightarrow> file_of path s \<noteq> None \<Longrightarrow> \<exists>s'. fs_write path c s = (0, s')"
  by (auto simp: absolute_def file_of_def resolve_file_path_def fs_write_def Let_def split: option.splits)

lemma fs_view_same_file:
  assumes "file_of q s = file_of path s" and "file_of path s \<noteq> None" and "frame_kept s"
  shows "fs_view q s = fs_view path s"
proof -
  from assms obtain fi where "file_of q s = Some fi" "file_of path s = Some fi" by auto
  then obtain p1 n1 p2 n2 where "resolve_file_path q s = Some (Some (p1, n1))" "file_by_name p1 n1 s = Some fi"
    "resolve_file_path path s = Some (Some (p2, n2))" "file_by_name p2 n2 s = Some fi"
    by (auto simp: file_of_def split: option.splits)
  with assms(3) show ?thesis by (simp add: fs_view_def fs_read_def fun_eq_iff)
qed

text \<open>The reachable states of a build that leaves the dead frame alone.\<close>

definition fs_live :: "fs \<Rightarrow> bool" where
  "fs_live s \<longleftrightarrow> fs_reach s \<and> frame_kept s"

interpretation memfs: total_store fs_live file_of "\<lambda>path c. absolute path" fs_put fs_view fs_content
proof
  fix s path and c :: "u8 list" and s' q
  assume "fs_live s" and p: "absolute path" "file_of path s \<noteq> None"
  then have s: "fs_reach s" "frame_kept s" by (simp_all add: fs_live_def)
  from fs_write_total [OF p] show "\<exists>s'. fs_put path c s = Some s'" by (simp add: fs_put_Some)
  assume "fs_put path c s = Some s'"
  then have wr: "fs_write path c s = (0, s')" by (simp add: fs_put_Some)
  show live: "fs_live s'" using fs_reach.store [OF s(1), of path c] s(2) frame_kept_write [OF wr] by (simp add: wr fs_live_def)
  have abs: "cget path 0 = CHR ''/''" using p(1) by (simp add: absolute_def)
  obtain fi where "s' = stored fi c s" by (rule fs_write_stored [OF wr abs])
  then show place: "file_of q s' = file_of q s" for q using file_of_stored [OF fs_reach_inv [OF s(1)]] by simp
  have own: "fs_view path s' = fs_content c"
    using fs_read_stored [OF fs_reach_inv [OF s(1)] abs wr _ s(2)] by (simp add: fs_view_def fs_content_def fun_eq_iff word_gt_0)
  have same: "file_of q s = file_of path s \<Longrightarrow> fs_view q s' = fs_view path s'"
    using p(2) live by (intro fs_view_same_file) (simp_all add: place fs_live_def)
  have other: "file_of q s \<noteq> file_of path s \<Longrightarrow> fs_view q s' = fs_view q s"
    using fs_write_frame [OF s(1) abs wr _ s(2)] by (simp add: fs_view_def fun_eq_iff)
  show "fs_view q s' = (if file_of q s = file_of path s then fs_content c else fs_view q s)"
    using own same other by simp
qed

text \<open>A sequence of calls of \<open>fs_write\<close> and their results.\<close>

fun fs_writes :: "(string \<times> u8 list) list \<Rightarrow> fs \<Rightarrow> int list \<times> fs" where
  "fs_writes [] s = ([], s)"
| "fs_writes ((path, c) # ws) s =
     (let (r, s) = fs_write path c s; (rs, s) = fs_writes ws s in (r # rs, s))"

lemma fs_writes_puts: "memfs.puts ws s = Some s' \<Longrightarrow> fs_writes ws s = (replicate (length ws) 0, s')"
  by (induction ws s rule: memfs.puts.induct) (auto simp: bind_eq_Some_conv fs_put_Some)

text \<open>What the dangling pointer does to a read: with nothing defined in the dead frame the read is undefined, and
  with the name of another file of the directory there it reads that file.\<close>

theorem fs_read_dangles:
  assumes "fs_inv s" and "resolve_file_path path s = Some (Some (parent, nm))" and "resolve_file_path q s = Some (Some (parent, nm'))"
  shows "fs_read path max_len (s\<lparr>dead_frame := \<lambda>_. None\<rparr>) = None"
    and "fs_read path max_len (s\<lparr>dead_frame := \<lambda>_. Some nm'\<rparr>) = fs_read q max_len (s\<lparr>dead_frame := Some\<rparr>)"
proof -
  have R: "resolve_file_path p (s\<lparr>dead_frame := d\<rparr>) = resolve_file_path p s" for p d
    by (rule resolve_cong [OF _ _ assms(1)]) simp_all
  have F: "file_by_name parent x (s\<lparr>dead_frame := d\<rparr>) = file_by_name parent x s" for x d
    by (simp add: file_by_name_def)
  show "fs_read path max_len (s\<lparr>dead_frame := \<lambda>_. None\<rparr>) = None"
    by (simp add: fs_read_def R assms(2))
  show "fs_read path max_len (s\<lparr>dead_frame := \<lambda>_. Some nm'\<rparr>) = fs_read q max_len (s\<lparr>dead_frame := Some\<rparr>)"
    by (simp add: fs_read_def R F assms(2,3) Let_def split: option.split)
qed

text \<open>C24: The files are a map from places to contents. Any sequence of writes under absolute paths of existing
  files succeeds, in every build. In a build that leaves the dead frame of \<open>resolve_file_path\<close> alone, a path afterwards
  reads as the last content written to the file it names, by whichever path, cut to the 4096 bytes of a
  file and to the reader's buffer less its terminator, and as before if nothing was written to its file.
  By the C standard alone, with nothing defined in that frame, reading it is undefined.\<close>

theorem fs_last_write_wins:
  assumes "fs_reach s" and "\<forall>(path, c) \<in> set ws. absolute path \<and> file_of path s \<noteq> None"
    and "file_of q s \<noteq> None" and "max_len \<noteq> 0" and "frame_kept s"
  shows "\<exists>s'. fs_writes ws s = (replicate (length ws) 0, s') \<and> fs_reach s' \<and> frame_kept s'
    \<and> fs_read q max_len s' =
       (case map_of (rev (map (\<lambda>(path, c). (file_of path s, c)) ws)) (file_of q s) of
          None \<Rightarrow> fs_read q max_len s
        | Some c \<Rightarrow> let n = min (min (length c) FS_FILE_BUF) (unat max_len - 1) in Some (int n, take n c @ [0]))
    \<and> fs_read q max_len (s'\<lparr>dead_frame := \<lambda>_. None\<rparr>) = None"
proof -
  have live: "fs_live s" and may: "memfs.may_put ws s" using assms by (simp_all add: fs_live_def memfs.may_put_def)
  from memfs.puts_update [OF this] obtain s' where s': "memfs.puts ws s = Some s'" "fs_live s'"
    "file_of q s' = file_of q s" "fs_view q s' = (case memfs.last_put ws s q of None \<Rightarrow> fs_view q s | Some c \<Rightarrow> fs_content c)"
    using assms(3) by metis
  from fun_cong [OF s'(4), of max_len] assms(4) have "fs_read q max_len s' =
      (case memfs.last_put ws s q of None \<Rightarrow> fs_read q max_len s
        | Some c \<Rightarrow> let n = min (min (length c) FS_FILE_BUF) (unat max_len - 1) in Some (int n, take n c @ [0]))"
    by (simp add: fs_view_def fs_content_def split: option.splits)
  moreover obtain parent nm where r: "resolve_file_path q s' = Some (Some (parent, nm))"
    using assms(3) s'(3) by (auto simp: file_of_def split: option.splits)
  have "fs_inv s'" using s'(2) fs_reach_inv by (simp add: fs_live_def)
  from fs_read_dangles(1) [OF this r r] have "fs_read q max_len (s'\<lparr>dead_frame := \<lambda>_. None\<rparr>) = None" .
  ultimately show ?thesis
    using fs_writes_puts [OF s'(1)] s'(2) unfolding memfs.last_put_def fs_live_def by blast
qed

section \<open>Files at the top level\<close>

lemma parent_of_top: "parent_of norm 1 s = Some 0"
  by (simp add: parent_of_def)

lemma node_name_plain: "plain name \<Longrightarrow> length name < FS_NAME_MAX \<Longrightarrow> node_name name = name"
proof -
  assume "plain name" and l: "length name < FS_NAME_MAX"
  then have "takeWhile (\<lambda>c. c \<noteq> CHR ''/'') name = name" by (auto simp: plain_def)
  moreover have "take (FS_NAME_MAX - 1) name = name" using l by simp
  ultimately show ?thesis by (simp only: node_name_def)
qed

lemma fs_create_top:
  assumes "plain name" and "name \<noteq> []" and "length name < FS_NAME_MAX"
    and "length (files s) < FS_MAX_FILES" and "file_by_name 0 name s = None"
  shows "fs_create (''/'' @ name) s
    = (0, s\<lparr>files := files s @ [\<lparr>fn_type = FS_FILE, fn_name = name, fn_parent = 0, fn_size = 0, fn_data = None\<rparr>]\<rparr>)"
proof -
  have norm: "normalize_path (''/'' @ name) FS_PATH_MAX = ''/'' @ name"
    using assms by (intro normalize_top) (simp_all add: FS_NAME_MAX_def)
  have d: "drop 1 (''/'' @ name) = name" by simp
  show ?thesis
    unfolding fs_create_def norm Let_def last_of_top [OF assms(1)] d parent_of_top
    using assms by (simp add: node_name_plain)
qed

lemma resolve_top:
  assumes "plain name" and "name \<noteq> []" and "length name < FS_NAME_MAX"
  shows "resolve_file_path (''/'' @ name) s = Some (Some (0, name))"
proof -
  have norm: "normalize_path (''/'' @ name) FS_PATH_MAX = ''/'' @ name"
    using assms by (intro normalize_top) (simp_all add: FS_NAME_MAX_def)
  have a: "cget (''/'' @ name) 0 = CHR ''/''" and d: "drop 1 (''/'' @ name) = name" by (simp_all add: cget_def)
  show ?thesis unfolding resolve_file_path_def norm Let_def if_P [OF a] option.case last_of_top [OF assms(1)] parent_of_top d by simp
qed

lemma fs_read_undefined: "resolve_file_path path s = Some (Some (parent, nm)) \<Longrightarrow> dead_frame s nm = None \<Longrightarrow> fs_read path max_len s = None"
  by (simp add: fs_read_def)

text \<open>Creating \<open>/name\<close> (a plain name of 1 to 31 characters that the root does not hold, with a file slot
  free) and writing to it succeeds in every build.\<close>

lemma fs_create_then_write:
  assumes "fs_reach s" and "plain name" and "name \<noteq> []" and "length name < FS_NAME_MAX"
    and "length (files s) < FS_MAX_FILES" and "file_by_name 0 name s = None"
  obtains s1 s2 where "fs_create (''/'' @ name) s = (0, s1)" and "fs_write (''/'' @ name) c s1 = (0, s2)"
    and "fs_reach s1" and "dead_frame s1 = dead_frame s" and "dead_frame s2 = dead_frame s"
proof -
  let ?p = "''/'' @ name"
  let ?f = "\<lparr>fn_type = FS_FILE, fn_name = name, fn_parent = 0, fn_size = 0, fn_data = None\<rparr>"
  define s1 where "s1 = s\<lparr>files := files s @ [?f]\<rparr>"
  have norm: "normalize_path ?p FS_PATH_MAX = ?p" using assms(2-4) by (intro normalize_top) (simp_all add: FS_NAME_MAX_def)
  have d: "drop 1 ?p = name" by simp
  have cr: "fs_create ?p s = (0, s1)" unfolding s1_def by (rule fs_create_top [OF assms(2-6)])
  have reach: "fs_reach s1" using fs_reach.newfile [OF assms(1), of ?p] cr by simp
  have look: "file_by_name 0 name s1 = Some (length (files s))"
    using assms(6) node_by_name_snoc [of "files s" 0 name 0 ?f] by (simp add: file_by_name_def s1_def)
  obtain s2 where wr: "fs_write ?p c s1 = (0, s2)"
    unfolding fs_write_def norm Let_def last_of_top [OF assms(2)] d parent_of_top option.case look by simp
  show thesis using that [OF cr wr reach] dead_frame_create [OF cr] dead_frame_write [OF wr] by simp
qed

text \<open>In a build that leaves the dead frame alone, reading it back then gives what was written.\<close>

theorem fs_create_write_read:
  assumes "fs_reach s" and "plain name" and "name \<noteq> []" and "length name < FS_NAME_MAX"
    and "length (files s) < FS_MAX_FILES" and "file_by_name 0 name s = None" and "length c < unat max_len"
    and "length c \<le> FS_FILE_BUF" and "frame_kept s"
  shows "\<exists>s1 s2. fs_create (''/'' @ name) s = (0, s1) \<and> fs_write (''/'' @ name) c s1 = (0, s2)
    \<and> fs_read (''/'' @ name) max_len s2 = Some (int (length c), c @ [0])"
proof -
  obtain s1 s2 where c: "fs_create (''/'' @ name) s = (0, s1)" "fs_write (''/'' @ name) c s1 = (0, s2)" "fs_reach s1"
    "dead_frame s1 = dead_frame s" by (rule fs_create_then_write [OF assms(1-6)])
  have max: "0 < max_len" using assms(7) by (simp add: word_gt_0 unat_gt_0 [symmetric])
  have m: "min (min (length c) FS_FILE_BUF) (unat max_len - 1) = length c" using assms(7,8) by simp
  have "frame_kept s1" using frame_kept_cong [OF c(4)] assms(9) by simp
  from fs_read_stored [OF fs_reach_inv [OF c(3)] _ c(2) max this]
  have "fs_read (''/'' @ name) max_len s2 = Some (int (length c), c @ [0])" unfolding m Let_def by (simp add: cget_def)
  with c(1,2) show ?thesis by blast
qed

lemma cget_append: "cget (pre @ xs) (length pre + k) = cget xs k"
  by (simp add: cget_def nth_append)

lemma norm_loop_slash:
  assumes "out = o1 @ [c]" and "c \<noteq> CHR ''/''" and "length out < max_len - 1"
  shows "norm_loop (pre @ ''/'' @ post) max_len (length pre) out
    = norm_loop ((pre @ ''/'') @ post) max_len (length (pre @ ''/'')) (out @ ''/'')"
  using assms by (subst norm_loop.simps) (simp add: cget_def)

lemma norm_loop_dotdot:
  assumes "length (out @ ''/'') < max_len - 1"
  shows "norm_loop (pre @ ''../'' @ post) max_len (length pre) (out @ ''/'')
    = norm_loop ((pre @ ''../'') @ post) max_len (length (pre @ ''../'')) out"
proof -
  let ?p = "pre @ ''../'' @ post"
  have c: "cget ?p (length pre) = CHR ''.''" "cget ?p (length pre + 1) = CHR ''.''"
    "cget ?p (length pre + 2) = CHR ''/''"
    using cget_append [of pre "''../'' @ post" 0] cget_append [of pre "''../'' @ post" 1]
      cget_append [of pre "''../'' @ post" 2] by (simp_all add: cget_def)
  have n: "\<not> length (out @ ''/'') \<ge> max_len - 1" using assms by simp
  have "norm_loop ?p max_len (length pre) (out @ ''/'')
      = norm_loop ?p max_len (length pre + 3) (drop_component (out @ ''/''))"
    unfolding norm_loop.simps [of ?p max_len "length pre" "out @ ''/''"] c using n by simp
  moreover have "drop_component (out @ ''/'') = out" by (simp add: drop_component_def)
  ultimately show ?thesis by (simp add: numeral_3_eq_3)
qed

text \<open>A \<open>..\<close> component does not go up: \<open>normalize_path\<close> only drops the slash before it, so \<open>/a/../b\<close>
  becomes \<open>/ab\<close>, for all plain names \<open>a\<close> and \<open>b\<close>.\<close>

theorem dotdot_joins_names:
  assumes "plain a" and "a \<noteq> []" and "plain b" and "b \<noteq> []" and "length a + length b < 120"
  shows "normalize_path (''/'' @ a @ ''/../'' @ b) FS_PATH_MAX = ''/'' @ a @ b"
proof -
  have ls: "last a \<noteq> CHR ''/''" "last b \<noteq> CHR ''/''"
    using assms last_in_set [of a] last_in_set [of b] unfolding plain_def by metis+
  have ab: "''/'' @ a = (''/'' @ butlast a) @ [last a]" using assms(2) by simp
  have "norm_loop (''/'' @ a @ ''/../'' @ b) FS_PATH_MAX 1 ''/''
      = norm_loop ((''/'' @ a) @ ''/../'' @ b) FS_PATH_MAX (length (''/'' @ a)) (''/'' @ a)"
    using norm_loop_plain_pre [of a "''/''" FS_PATH_MAX "''/''" "''/../'' @ b"] assms
    by (simp add: FS_PATH_MAX_def)
  also have "\<dots> = norm_loop ((''/'' @ a @ ''/'') @ ''../'' @ b) FS_PATH_MAX (length (''/'' @ a @ ''/'')) ((''/'' @ a) @ ''/'')"
    using norm_loop_slash [OF ab ls(1), of FS_PATH_MAX "''/'' @ a" "''../'' @ b"] assms(5)
    by (simp add: FS_PATH_MAX_def)
  also have "\<dots> = norm_loop ((''/'' @ a @ ''/../'') @ b) FS_PATH_MAX (length (''/'' @ a @ ''/../'')) (''/'' @ a)"
    using norm_loop_dotdot [of "''/'' @ a" FS_PATH_MAX "''/'' @ a @ ''/''" b] assms(5)
    by (simp add: FS_PATH_MAX_def)
  also have "\<dots> = (''/'' @ a) @ b"
    using assms by (intro norm_loop_plain) (simp_all add: FS_PATH_MAX_def)
  finally have "norm_loop (''/'' @ a @ ''/../'' @ b) FS_PATH_MAX 1 ''/'' = ''/'' @ a @ b" by simp
  moreover have "cget (''/'' @ a @ ''/../'' @ b) 0 = CHR ''/''" by (simp add: cget_def)
  ultimately show ?thesis using assms(4) ls(2) by (simp add: normalize_path_def Let_def)
qed

lemma node_by_name_append_other:
  "fn_name n \<noteq> name \<Longrightarrow> node_by_name (ns @ [n]) parent name i = node_by_name ns parent name i"
  by (induction ns arbitrary: i) auto

lemma next_part_plain:
  assumes "plain name" and "length name < FS_NAME_MAX"
  shows "next_part name = name" and "after_part name = []"
proof -
  show np: "next_part name = name" using node_name_plain [OF assms] by (simp add: next_part_def node_name_def)
  show "after_part name = []" unfolding after_part_def np by simp
qed

lemma path_to_dir_top:
  assumes "plain name" and "name \<noteq> []" and "length name < FS_NAME_MAX"
  shows "path_to_dir (''/'' @ name) s = dir_by_name 0 name s"
proof -
  have norm: "normalize_path (''/'' @ name) FS_PATH_MAX = ''/'' @ name"
    using assms by (intro normalize_top) (simp_all add: FS_NAME_MAX_def)
  have "walk_path s 0 name = dir_by_name 0 name s"
    using assms(2) by (simp add: walk_path.simps [of s 0 name] next_part_plain [OF assms(1,3)]
        walk_path.simps [of _ _ "[]"] split: option.split)
  then show ?thesis unfolding path_to_dir_def norm by (simp add: cget_def)
qed

lemma path_to_dir_root: "path_to_dir ''/'' f = Some 0"
  by (simp add: path_to_dir_def normalize_path_def norm_loop.simps cget_def FS_PATH_MAX_def walk_path.simps)

text \<open>Making the directory \<open>/name\<close> succeeds but stores an entry with an empty name, so the new
  directory is never found by its path.\<close>

theorem fs_mkdir_top_nameless:
  assumes "plain name" and "name \<noteq> []" and "length name < FS_NAME_MAX"
    and "length (dirs s) < FS_MAX_DIRS" and "dir_by_name 0 (''/'' @ name) s = None"
  shows "\<exists>s'. fs_mkdir (''/'' @ name) s = Some (0, s') \<and> fn_name (last (dirs s')) = []
    \<and> path_to_dir (''/'' @ name) s' = path_to_dir (''/'' @ name) s"
proof -
  let ?n = "\<lparr>fn_type = FS_DIR, fn_name = [], fn_parent = 0, fn_size = 0, fn_data = None\<rparr>"
  have norm: "normalize_path (''/'' @ name) FS_PATH_MAX = ''/'' @ name"
    using assms(1-3) by (intro normalize_top) (simp_all add: FS_NAME_MAX_def)
  have l: "scan_last (drop 1 (''/'' @ name)) 1 0 = 0" using assms(1) by (simp add: scan_last_no_slash plain_def)
  have nm: "node_name (drop 0 (''/'' @ name)) = []" by (simp add: node_name_def)
  have "fs_mkdir (''/'' @ name) s = Some (0, s\<lparr>dirs := dirs s @ [?n]\<rparr>)"
    unfolding fs_mkdir_def norm Let_def l nm using assms(4,5) by (simp add: parent_of_def)
  moreover have "dir_by_name 0 name (s\<lparr>dirs := dirs s @ [?n]\<rparr>) = dir_by_name 0 name s"
    using assms(2) by (simp add: dir_by_name_def node_by_name_append_other)
  ultimately show ?thesis
    unfolding path_to_dir_top [OF assms(1-3)] by simp
qed

theorem fs_mkdir_top_nameless_witness:
  "\<exists>s'. fs_mkdir ''/docs'' (fs_init fs_boot) = Some (0, s') \<and> fn_name (last (dirs s')) = []
    \<and> path_to_dir ''/docs'' s' = path_to_dir ''/docs'' (fs_init fs_boot)"
  using fs_mkdir_top_nameless [of "''docs''" "fs_init fs_boot"]
  by (simp add: plain_def FS_NAME_MAX_def FS_MAX_DIRS_def fs_init_def dir_by_name_def)

theorem dotdot_joins_names_witness: "normalize_path ''/a/../b'' FS_PATH_MAX = ''/ab''"
  using dotdot_joins_names [of "''a''" "''b''"] by (simp add: plain_def)

theorem fs_create_write_read_witness:
  "\<exists>s1 s2. fs_create ''/notes'' (fs_init fs_kept) = (0, s1) \<and> fs_write ''/notes'' [104, 105] s1 = (0, s2)
    \<and> fs_read ''/notes'' 16 s2 = Some (2, [104, 105, 0])"
  using fs_create_write_read [OF fs_kept_boot(1), of "''notes''" "[104, 105]" 16]
  by (simp add: plain_def FS_NAME_MAX_def FS_MAX_FILES_def FS_FILE_BUF_def file_by_name_def fs_kept_boot(2)) (simp add: fs_init_def)

text \<open>A state with the two files \<open>/a\<close> and \<open>/b\<close>.\<close>

definition two_files :: fs where
  "two_files = snd (fs_create ''/b'' (snd (fs_create ''/a'' (fs_init fs_kept))))"

lemma two_files_reach: "fs_reach two_files"
  unfolding two_files_def by (intro fs_reach.newfile fs_kept_boot)

lemma two_files_kept: "frame_kept two_files"
proof -
  obtain r s1 where 1: "fs_create ''/a'' (fs_init fs_kept) = (r, s1)" by fastforce
  obtain r' s2 where 2: "fs_create ''/b'' s1 = (r', s2)" by fastforce
  have "frame_kept s1" using frame_kept_create [OF 1] fs_kept_boot(2) by simp
  then show ?thesis using frame_kept_create [OF 2] by (simp add: two_files_def 1 2)
qed

lemma norm_ab: "normalize_path ''/a'' FS_PATH_MAX = ''/a''" "normalize_path ''/b'' FS_PATH_MAX = ''/b''"
  using normalize_top [of "''a''"] normalize_top [of "''b''"] by (simp_all add: plain_def)

lemma fs_init_fields [simp]: "files (fs_init s) = []" "cwd (fs_init s) = 0"
  by (simp_all add: fs_init_def)

lemma two_files_fields: "cwd two_files = 0"
  "files two_files = [\<lparr>fn_type = FS_FILE, fn_name = ''a'', fn_parent = 0, fn_size = 0, fn_data = None\<rparr>,
     \<lparr>fn_type = FS_FILE, fn_name = ''b'', fn_parent = 0, fn_size = 0, fn_data = None\<rparr>]"
  using fs_create_top [of "''a''" "fs_init fs_kept"] fs_create_top [of "''b''" "snd (fs_create ''/a'' (fs_init fs_kept))"]
  by (simp_all add: two_files_def plain_def FS_NAME_MAX_def FS_MAX_FILES_def file_by_name_def)

lemma two_files_write: "\<exists>s'. fs_write ''/a'' c two_files = (0, s')"
  by (simp add: fs_write_def norm_ab last_of_def cget_def parent_of_def file_by_name_def two_files_fields
      Let_def)

lemma two_files_of: "file_of ''/a'' two_files = Some 0" "file_of ''/b'' two_files = Some 1"
  by (simp_all add: file_of_def resolve_file_path_def norm_ab last_of_def cget_def parent_of_def
      file_by_name_def two_files_fields)

theorem fs_write_then_read_witness:
  "fs_read ''/a'' 3 (snd (fs_write ''/a'' [1, 2, 3, 4] two_files)) = Some (2, [1, 2, 0])"
proof -
  obtain s' where wr: "fs_write ''/a'' [1, 2, 3, 4] two_files = (0, s')" using two_files_write by blast
  have m: "(0 :: u64) < 3" "unat (3 :: u64) = 3" by simp_all
  have n: "min (min (length [1 :: u8, 2, 3, 4]) FS_FILE_BUF) (unat (3 :: u64) - 1) = 2"
    unfolding m by (simp add: FS_FILE_BUF_def)
  have "cget ''/a'' 0 = CHR ''/''" by (simp add: cget_def)
  from fs_write_then_read [OF two_files_reach this wr m(1) two_files_kept]
  have "fs_read ''/a'' 3 s' = Some (2, [1, 2, 0])" unfolding n by (simp add: numeral_2_eq_2)
  with wr show ?thesis by simp
qed

theorem fs_last_write_wins_witness:
  "\<exists>s'. fs_writes [(''/a'', [1, 2]), (''/b'', [3]), (''/a'', [4, 5, 6])] two_files = ([0, 0, 0], s')
    \<and> fs_read ''/a'' 3 s' = Some (2, [4, 5, 0])"
proof -
  let ?ws = "[(''/a'', [1, 2]), (''/b'', [3]), (''/a'', [4, 5, 6 :: u8])]"
  have p: "\<forall>(path, c) \<in> set ?ws. absolute path \<and> file_of path two_files \<noteq> None"
    by (simp add: absolute_def cget_def two_files_of)
  have m: "(let n = min (min (length [4, 5, 6 :: u8]) FS_FILE_BUF) (unat (3 :: u64) - 1)
      in Some (int n, take n [4, 5, 6 :: u8] @ [0])) = Some (2, [4, 5, 0])"
  proof -
    have "min (min (length [4, 5, 6 :: u8]) FS_FILE_BUF) (unat (3 :: u64) - 1) = 2" by (simp add: FS_FILE_BUF_def)
    moreover have "take 2 [4, 5, 6 :: u8] = [4, 5]" by (simp add: numeral_2_eq_2)
    ultimately show ?thesis by simp
  qed
  have l: "map_of (rev (map (\<lambda>(path, c). (file_of path two_files, c)) ?ws)) (file_of ''/a'' two_files) = Some [4, 5, 6]"
    by (simp add: two_files_of)
  have r: "replicate (length ?ws) (0 :: int) = [0, 0, 0]" by simp
  have q: "file_of ''/a'' two_files \<noteq> None" and n: "(3 :: u64) \<noteq> 0" by (simp_all add: two_files_of)
  from fs_last_write_wins [OF two_files_reach p q n two_files_kept] show ?thesis
    unfolding l r option.case m by blast
qed

theorem fs_write_frame_witness:
  "fs_read ''/b'' 8 (snd (fs_write ''/a'' [1, 2] two_files)) = fs_read ''/b'' 8 two_files"
proof -
  obtain s' where wr: "fs_write ''/a'' [1, 2] two_files = (0, s')" using two_files_write by blast
  with fs_write_frame [OF two_files_reach _ wr _ two_files_kept, of "''/b''" 8] show ?thesis by (simp add: cget_def two_files_of)
qed

theorem fs_get_cwd_returns_witness:
  "\<exists>path. fs_get_cwd FS_PATH_MAX two_files = Some path \<and> length path \<le> FS_PATH_MAX - 1"
  using fs_get_cwd_returns [OF two_files_reach, of FS_PATH_MAX] by (simp add: FS_PATH_MAX_def)

end
