(* ===== verification/Ata.thy ===== *)
theory Ata
  imports Store "HOL-Library.Monad_Syntax"
begin

text \<open>
  The ATA PIO driver (\<^verbatim>\<open>src/kernel/drivers/ata.c\<close>). The driver is what it writes to the ports: the
  command block \<open>ata_command\<close> and the transfer loops. The drive behind the ports is state: the
  contents of its sectors and how a transfer of each ends. It decodes the command block as ATA
  defines it: a 28-bit address, and a sector count whose 0 means 256. A transfer ends with the
  data request bit (\<open>Sec_ok\<close>), with the error bit beside it (\<open>Sec_err\<close>), or with the error bit
  alone (\<open>Sec_stuck\<close>). A wait on a status bit that never changes does not return: \<open>None\<close>.
\<close>

definition ATA_SECTOR_SIZE :: nat where "ATA_SECTOR_SIZE = 512"
definition ATA_DRIVE_LBA :: u32 where "ATA_DRIVE_LBA = 0xE0"

datatype sector_status = Sec_ok | Sec_err | Sec_stuck

record drive =
  dr_data :: "u32 \<Rightarrow> u8 list"
  dr_status :: "u32 \<Rightarrow> sector_status"

record ata_regs =
  r_drive :: u8
  r_count :: u8
  r_lba0 :: u8
  r_lba1 :: u8
  r_lba2 :: u8

section \<open>The command block\<close>

definition ata_command :: "u32 \<Rightarrow> u32 \<Rightarrow> ata_regs" where
  "ata_command lba count =
     \<lparr>r_drive = ucast (ATA_DRIVE_LBA OR (drop_bit 24 lba AND 0x0F)), r_count = ucast count,
      r_lba0 = ucast lba, r_lba1 = ucast (drop_bit 8 lba), r_lba2 = ucast (drop_bit 16 lba)\<rparr>"

text \<open>What the drive makes of it.\<close>

definition sel_lba :: "ata_regs \<Rightarrow> u32" where
  "sel_lba r = of_le32 (r_lba0 r) (r_lba1 r) (r_lba2 r) (r_drive r AND 0x0F)"

definition sel_count :: "ata_regs \<Rightarrow> nat" where
  "sel_count r = (if r_count r = 0 then 256 else unat (r_count r))"

section \<open>Transfers\<close>

text \<open>
  The loop over the sectors: \<open>left\<close> sectors remain of the command, \<open>n\<close> of the driver's loop. The
  result is the C result and the bytes stored in the buffer.
\<close>

fun ata_read_loop :: "drive \<Rightarrow> u32 \<Rightarrow> nat \<Rightarrow> nat \<Rightarrow> (int \<times> u8 list) option" where
  "ata_read_loop d l left 0 = Some (0, [])"
| "ata_read_loop d l left (Suc n) =
     (if left = 0 then None
      else case dr_status d l of
        Sec_stuck \<Rightarrow> None
      | Sec_err \<Rightarrow> Some (- 1, [])
      | Sec_ok \<Rightarrow> do {
          (r, bs) \<leftarrow> ata_read_loop d (l + 1) (left - 1) n;
          Some (r, take ATA_SECTOR_SIZE (dr_data d l) @ bs)
        })"

definition ata_read_sectors :: "u32 \<Rightarrow> u32 \<Rightarrow> drive \<Rightarrow> (int \<times> u8 list) option" where
  "ata_read_sectors lba count d =
     (if count = 0 then Some (0, [])
      else let r = ata_command lba count in ata_read_loop d (sel_lba r) (sel_count r) (unat count))"

fun ata_write_loop :: "u32 \<Rightarrow> nat \<Rightarrow> nat \<Rightarrow> u8 list \<Rightarrow> drive \<Rightarrow> (int \<times> drive) option" where
  "ata_write_loop l left 0 buf d = Some (0, d)"
| "ata_write_loop l left (Suc n) buf d =
     (if left = 0 then None
      else case dr_status d l of
        Sec_stuck \<Rightarrow> None
      | Sec_err \<Rightarrow> Some (- 1, d)
      | Sec_ok \<Rightarrow> ata_write_loop (l + 1) (left - 1) n (drop ATA_SECTOR_SIZE buf)
          (d\<lparr>dr_data := (dr_data d)(l := take ATA_SECTOR_SIZE buf)\<rparr>))"

definition ata_write_sectors :: "u32 \<Rightarrow> u32 \<Rightarrow> u8 list \<Rightarrow> drive \<Rightarrow> (int \<times> drive) option" where
  "ata_write_sectors lba count buf d =
     (if count = 0 then Some (0, d)
      else let r = ata_command lba count in ata_write_loop (sel_lba r) (sel_count r) (unat count) buf d)"

section \<open>Addresses\<close>

definition lba28 :: "u32 \<Rightarrow> u32" where
  "lba28 l = take_bit 28 l"

lemma nibble_mask: "(0x0F :: 'a::len word) = mask 4"
  by (simp add: mask_eq_exp_minus_1)

lemma sel_lba_command: "sel_lba (ata_command lba count) = lba28 lba"
proof (rule bit_word_eqI)
  fix n assume "n < LENGTH(32)"
  then consider "n < 8" | "8 \<le> n" "n < 16" | "16 \<le> n" "n < 24" | "24 \<le> n" "n < 28" | "28 \<le> n" "n < 32"
    by fastforce
  moreover have "24 \<le> n \<Longrightarrow> n < 28 \<Longrightarrow> \<not> bit (0xE0 :: u32) (n - 24)"
  proof -
    assume "24 \<le> n" "n < 28"
    then consider "n = 24" | "n = 25" | "n = 26" | "n = 27" by fastforce
    then show ?thesis by cases simp_all
  qed
  ultimately show "bit (sel_lba (ata_command lba count)) n = bit (lba28 lba) n"
    unfolding sel_lba_def ata_command_def of_le32_def lba28_def nibble_mask ATA_DRIVE_LBA_def
    by cases (auto simp: bit_simps)
qed

lemma lba28_idem [simp]: "lba28 (lba28 l) = lba28 l"
  by (simp add: lba28_def)

lemma lba28_id: "unat l < 2 ^ 28 \<Longrightarrow> lba28 l = l"
  unfolding lba28_def word_unat_eq_iff unsigned_take_bit_eq by (simp add: take_bit_eq_mod)

section \<open>One sector\<close>

lemma sel_count_1: "sel_count (ata_command lba 1) = 1"
  by (simp add: sel_count_def ata_command_def)

lemma ata_read_1:
  "ata_read_sectors lba 1 d = (case dr_status d (lba28 lba) of
     Sec_ok \<Rightarrow> Some (0, take ATA_SECTOR_SIZE (dr_data d (lba28 lba))) | Sec_err \<Rightarrow> Some (- 1, []) | Sec_stuck \<Rightarrow> None)"
  by (simp add: ata_read_sectors_def Let_def sel_lba_command sel_count_1 split: sector_status.split)

lemma ata_write_1:
  "ata_write_sectors lba 1 buf d = (case dr_status d (lba28 lba) of
     Sec_ok \<Rightarrow> Some (0, d\<lparr>dr_data := (dr_data d)(lba28 lba := take ATA_SECTOR_SIZE buf)\<rparr>)
   | Sec_err \<Rightarrow> Some (- 1, d) | Sec_stuck \<Rightarrow> None)"
  by (simp add: ata_write_sectors_def Let_def sel_lba_command sel_count_1 split: sector_status.split)

text \<open>A drive without faults.\<close>

definition healthy :: "drive \<Rightarrow> bool" where
  "healthy d \<longleftrightarrow> (\<forall>l. dr_status d l = Sec_ok \<and> length (dr_data d l) = ATA_SECTOR_SIZE)"

lemma healthyD: "healthy d \<Longrightarrow> dr_status d l = Sec_ok" "healthy d \<Longrightarrow> length (dr_data d l) = ATA_SECTOR_SIZE"
  by (simp_all add: healthy_def)

lemma healthy_upd: "healthy d \<Longrightarrow> length b = ATA_SECTOR_SIZE \<Longrightarrow> healthy (d\<lparr>dr_data := (dr_data d)(l := b)\<rparr>)"
  by (simp add: healthy_def)

section \<open>The block interface\<close>

text \<open>
  What a file system relies on: one-sector reads and writes of a working device succeed, a write is
  read back at every address that selects the same sector, and no other sector changes.
\<close>

locale block_device =
  fixes rd :: "u32 \<Rightarrow> 'd \<Rightarrow> u8 list option"
    and wr :: "u32 \<Rightarrow> u8 list \<Rightarrow> 'd \<Rightarrow> 'd option"
    and addr :: "u32 \<Rightarrow> u32"
    and works :: "'d \<Rightarrow> bool"
  assumes rd_works: "works d \<Longrightarrow> \<exists>b. rd l d = Some b \<and> length b = ATA_SECTOR_SIZE"
    and wr_works: "works d \<Longrightarrow> length b = ATA_SECTOR_SIZE \<Longrightarrow> \<exists>d'. wr l b d = Some d' \<and> works d'"
    and rd_wr: "works d \<Longrightarrow> length b = ATA_SECTOR_SIZE \<Longrightarrow> wr l b d = Some d' \<Longrightarrow>
      rd l' d' = (if addr l' = addr l then Some b else rd l' d)"
begin

lemma rd_length: "works d \<Longrightarrow> rd l d = Some b \<Longrightarrow> length b = ATA_SECTOR_SIZE"
  using rd_works [of d l] by auto

end

text \<open>A block device is a store: addresses lead to sectors.\<close>

sublocale block_device \<subseteq> sectors: total_store works "\<lambda>l d. Some (addr l)"
  "\<lambda>l b. length b = ATA_SECTOR_SIZE" wr rd Some
proof
  fix d l and b :: "u8 list" and d' m
  assume d: "works d" and b: "length b = ATA_SECTOR_SIZE"
  from wr_works [OF d b] show "\<exists>d'. wr l b d = Some d'" by blast
  assume w: "wr l b d = Some d'"
  with wr_works [OF d b, of l] show "works d'" by auto
  from rd_wr [OF d b w] show "rd m d' = (if Some (addr m) = Some (addr l) then Some b else rd m d)" by simp
qed simp

text \<open>The driver's one-sector transfers: \<open>None\<close> unless the call returns 0.\<close>

definition ata_rd :: "u32 \<Rightarrow> drive \<Rightarrow> u8 list option" where
  "ata_rd l d = (case ata_read_sectors l 1 d of Some (r, bs) \<Rightarrow> if r = 0 then Some bs else None | None \<Rightarrow> None)"

definition ata_wr :: "u32 \<Rightarrow> u8 list \<Rightarrow> drive \<Rightarrow> drive option" where
  "ata_wr l b d = (case ata_write_sectors l 1 b d of Some (r, d') \<Rightarrow> if r = 0 then Some d' else None | None \<Rightarrow> None)"

interpretation ata: block_device ata_rd ata_wr lba28 healthy
  by unfold_locales
    (auto simp: ata_rd_def ata_wr_def ata_read_1 ata_write_1 healthyD healthy_upd)

section \<open>Runs of sectors\<close>

lemma sel_count_command:
  "sel_count (ata_command lba count) = (if unat count mod 256 = 0 then 256 else unat count mod 256)"
proof -
  have "unat (ucast count :: u8) = unat count mod 256" by (simp add: unsigned_ucast_eq take_bit_eq_mod)
  moreover have "(ucast count :: u8) = 0 \<longleftrightarrow> unat (ucast count :: u8) = 0" by (simp only: unat_eq_0)
  ultimately show ?thesis by (simp only: sel_count_def ata_command_def ata_regs.simps)
qed

text \<open>The driver's loop on a drive that has fewer sectors left than the loop wants: it waits for good.\<close>

lemma ata_read_loop_short: "healthy d \<Longrightarrow> left < n \<Longrightarrow> ata_read_loop d l left n = None"
  by (induction d l left n rule: ata_read_loop.induct) (auto simp: healthyD)

lemma unat_minus_Suc:
  assumes "x \<noteq> (l :: u32)"
  shows "unat (x - l) = Suc (unat (x - (l + 1)))"
proof -
  have "x - l \<noteq> 0" using assms by simp
  then have "unat (x - l - 1) = unat (x - l) - 1" "0 < unat (x - l)"
    by (simp_all add: unat_minus_one unat_gt_0)
  then show ?thesis by (simp add: diff_diff_eq)
qed

lemma unat_minus_Suc_self: "unat (l - (l + 1) :: u32) = 2 ^ 32 - 1"
proof -
  have "l - (l + 1) = (- 1 :: u32)" by simp
  then show ?thesis by (simp only: unsigned_minus_1_eq_mask) (simp add: mask_eq_exp_minus_1)
qed

lemma ata_write_loop_ok:
  assumes "healthy d" and "n \<le> left" and "n < 2 ^ 32" and "length buf = ATA_SECTOR_SIZE * n"
  shows "\<exists>d'. ata_write_loop l left n buf d = Some (0, d') \<and> healthy d'
    \<and> (\<forall>x. dr_data d' x = (let i = unat (x - l) in
          if i < n then take ATA_SECTOR_SIZE (drop (ATA_SECTOR_SIZE * i) buf) else dr_data d x))"
  using assms
proof (induction n arbitrary: l left buf d)
  case (Suc n)
  let ?d = "d\<lparr>dr_data := (dr_data d)(l := take ATA_SECTOR_SIZE buf)\<rparr>"
  have h: "healthy ?d" using Suc.prems by (intro healthy_upd) simp_all
  have "\<exists>d'. ata_write_loop (l + 1) (left - 1) n (drop ATA_SECTOR_SIZE buf) ?d = Some (0, d') \<and> healthy d'
    \<and> (\<forall>x. dr_data d' x = (let i = unat (x - (l + 1)) in
          if i < n then take ATA_SECTOR_SIZE (drop (ATA_SECTOR_SIZE * i) (drop ATA_SECTOR_SIZE buf)) else dr_data ?d x))"
    using Suc.prems by (intro Suc.IH h) auto
  then obtain d' where d': "ata_write_loop (l + 1) (left - 1) n (drop ATA_SECTOR_SIZE buf) ?d = Some (0, d')"
    "healthy d'" and data: "\<And>x. dr_data d' x = (let i = unat (x - (l + 1)) in
          if i < n then take ATA_SECTOR_SIZE (drop (ATA_SECTOR_SIZE * i) (drop ATA_SECTOR_SIZE buf)) else dr_data ?d x)"
    by (elim exE conjE) (rule that, auto)
  have "ata_write_loop l left (Suc n) buf d = Some (0, d')"
    using d'(1) Suc.prems(1,2) by (simp add: healthyD)
  moreover have "dr_data d' x = (let i = unat (x - l) in
      if i < Suc n then take ATA_SECTOR_SIZE (drop (ATA_SECTOR_SIZE * i) buf) else dr_data d x)" for x
  proof (cases "x = l")
    case True
    have "\<not> unat (l - (l + 1)) < n" unfolding unat_minus_Suc_self using Suc.prems(3) by simp
    then show ?thesis unfolding True using data [of l] by (simp add: Let_def)
  next
    case False
    show ?thesis unfolding data [of x] unat_minus_Suc [OF False] using False by (simp add: Let_def add.commute)
  qed
  ultimately show ?case using d'(2) by blast
qed simp

lemma ata_read_loop_ok:
  assumes "healthy d" and "n \<le> left"
  shows "ata_read_loop d l left n = Some (0, concat (map (\<lambda>i. dr_data d (l + of_nat i)) [0..<n]))"
  using assms
proof (induction n arbitrary: l left)
  case (Suc n)
  have u: "[0..<Suc n] = 0 # map Suc [0..<n]" by (simp add: upt_conv_Cons map_Suc_upt del: upt_Suc)
  show ?case unfolding u using Suc by (simp add: healthyD comp_def add.assoc)
qed simp

lemma concat_chunks:
  "length buf = m * n \<Longrightarrow> concat (map (\<lambda>i. take m (drop (m * i) buf)) [0..<n]) = buf"
proof (induction n arbitrary: buf)
  case (Suc n)
  have u: "[0..<Suc n] = 0 # map Suc [0..<n]" by (simp add: upt_conv_Cons map_Suc_upt del: upt_Suc)
  have "concat (map (\<lambda>i. take m (drop (m * i) (drop m buf))) [0..<n]) = drop m buf"
    using Suc.prems by (intro Suc.IH) simp
  then show ?case unfolding u by (simp add: comp_def add.commute)
qed simp

text \<open>C27: On a drive without faults, a write of 1 to 256 sectors succeeds, a read of the same sectors returns
  the bytes written, and no sector outside the run changes.\<close>

theorem ata_write_then_read:
  assumes "healthy d" and "0 < unat count" and "unat count \<le> 256" and "length buf = ATA_SECTOR_SIZE * unat count"
  shows "\<exists>d'. ata_write_sectors lba count buf d = Some (0, d') \<and> ata_read_sectors lba count d' = Some (0, buf)
    \<and> (\<forall>l. unat count \<le> unat (l - lba28 lba) \<longrightarrow> dr_data d' l = dr_data d l)"
proof -
  let ?n = "unat count" and ?l = "lba28 lba"
  have c0: "count \<noteq> 0" using assms(2) by auto
  have left: "sel_count (ata_command lba count) = ?n"
    unfolding sel_count_command using assms(2,3) by (cases "?n = 256") simp_all
  have "\<exists>d'. ata_write_loop ?l ?n ?n buf d = Some (0, d') \<and> healthy d' \<and> (\<forall>x. dr_data d' x = (let i = unat (x - ?l) in
      if i < ?n then take ATA_SECTOR_SIZE (drop (ATA_SECTOR_SIZE * i) buf) else dr_data d x))"
    using assms by (intro ata_write_loop_ok) simp_all
  then obtain d' where d': "ata_write_loop ?l ?n ?n buf d = Some (0, d')" "healthy d'"
    and data: "\<And>x. dr_data d' x = (let i = unat (x - ?l) in
      if i < ?n then take ATA_SECTOR_SIZE (drop (ATA_SECTOR_SIZE * i) buf) else dr_data d x)"
    by (elim exE conjE) (rule that, auto)
  have w: "ata_write_sectors lba count buf d = Some (0, d')"
    unfolding ata_write_sectors_def Let_def sel_lba_command left if_not_P [OF c0] by (rule d'(1))
  have "dr_data d' (?l + of_nat i) = take ATA_SECTOR_SIZE (drop (ATA_SECTOR_SIZE * i) buf)" if "i < ?n" for i
  proof -
    have "unat (of_nat i :: u32) = i" using that assms(3) by (simp add: unat_of_nat take_bit_nat_eq_self)
    then show ?thesis unfolding data by (simp add: that)
  qed
  then have "map (\<lambda>i. dr_data d' (?l + of_nat i)) [0..<?n] = map (\<lambda>i. take ATA_SECTOR_SIZE (drop (ATA_SECTOR_SIZE * i) buf)) [0..<?n]"
    by simp
  then have "ata_read_sectors lba count d' = Some (0, buf)"
    unfolding ata_read_sectors_def Let_def sel_lba_command left if_not_P [OF c0]
      ata_read_loop_ok [OF d'(2) order_refl] by (simp only: concat_chunks [OF assms(4)])
  with w data show ?thesis by (simp add: Let_def)
qed

definition blank_drive :: drive where
  "blank_drive = \<lparr>dr_data = (\<lambda>_. replicate ATA_SECTOR_SIZE 0), dr_status = (\<lambda>_. Sec_ok)\<rparr>"

lemma blank_drive_healthy: "healthy blank_drive"
  by (simp add: blank_drive_def healthy_def)

theorem ata_write_then_read_witness:
  "\<exists>d'. ata_write_sectors 7 2 (replicate 1024 5) blank_drive = Some (0, d')
    \<and> ata_read_sectors 7 2 d' = Some (0, replicate 1024 5)"
proof -
  have n: "unat (2 :: u32) = 2" by simp
  from ata_write_then_read [OF blank_drive_healthy, of 2 "replicate 1024 5" 7]
  show ?thesis unfolding n by (auto simp: ATA_SECTOR_SIZE_def)
qed

text \<open>A read of more than 256 sectors never returns, even from a drive without faults: the count register
  holds the low eight bits, so the drive stops before the loop does.\<close>

theorem ata_long_read_hangs:
  assumes "healthy d" and "256 < unat count"
  shows "ata_read_sectors lba count d = None"
proof -
  have "sel_count (ata_command lba count) < unat count"
    unfolding sel_count_command using assms(2) by (auto intro: le_less_trans [OF mod_less_eq_dividend])
  moreover have "count \<noteq> 0" using assms(2) by auto
  ultimately show ?thesis
    using ata_read_loop_short [OF assms(1)] by (simp add: ata_read_sectors_def Let_def)
qed

theorem ata_long_read_hangs_witness: "ata_read_sectors 0 257 blank_drive = None"
  by (rule ata_long_read_hangs [OF blank_drive_healthy]) simp

end
