(* ===== verification/Fatbase.thy ===== *)
theory Fatbase
  imports Ata
begin

text \<open>
  The lower layer of the FAT driver (\<^verbatim>\<open>src/kernel/fs/fat.c\<close>): its static variables as one record (the
  drive included), little endian fields, directory entries inside a cluster, and the entries of the
  allocation table of FAT12, FAT16 and exFAT, read and written with their copies.

  Every operation is a state transformer with result type \<open>('a \<times> fat) option\<close>: \<open>None\<close> is a call that
  does not return or whose C text has no defined meaning (division by zero, a read or write outside
  a buffer, the use of an uninitialised array). The buffers \<open>sector_buf\<close>, \<open>fat_sector_buf\<close> and
  \<open>fat12_2sect\<close> are part of the state, since calls leave their contents to later ones.
\<close>

datatype fs_kind = FS_NONE | FS_FAT1216 | FS_EXFAT

record fat =
  fs_kind :: fs_kind
  fat_start_lba :: u32
  fat_sectors :: u32
  root_start_lba :: u32
  root_sectors :: u32
  data_start_lba :: u32
  sectors_per_cluster :: u8
  bytes_per_sector :: u16
  is_fat12 :: bool
  fat_total_clusters :: u32
  fat_num_fats :: u8
  exfat_root_cluster :: u32
  exfat_cluster_count :: u32
  exfat_num_fats :: u8
  exfat_bitmap_clu :: u32
  exfat_bitmap_bytes :: u64
  exfat_bitmap_valid :: bool
  exfat_nofatchain :: bool
  sector_buf :: "u8 list"
  fat_sector_buf :: "u8 list"
  fat12_2sect :: "u8 list"
  disk :: drive

definition fat_boot :: "drive \<Rightarrow> fat" where
  "fat_boot d = \<lparr>fs_kind = FS_NONE, fat_start_lba = 0, fat_sectors = 0, root_start_lba = 0, root_sectors = 0,
     data_start_lba = 0, sectors_per_cluster = 0, bytes_per_sector = 0, is_fat12 = False, fat_total_clusters = 0,
     fat_num_fats = 0, exfat_root_cluster = 0, exfat_cluster_count = 0, exfat_num_fats = 0, exfat_bitmap_clu = 0,
     exfat_bitmap_bytes = 0, exfat_bitmap_valid = False, exfat_nofatchain = False,
     sector_buf = replicate 512 0, fat_sector_buf = replicate 512 0, fat12_2sect = replicate 1024 0, disk = d\<rparr>"

definition bps :: "fat \<Rightarrow> u32" where "bps s = ucast (bytes_per_sector s)"
definition spc :: "fat \<Rightarrow> u32" where "spc s = ucast (sectors_per_cluster s)"

section \<open>Bytes\<close>

definition rd16at :: "u8 list \<Rightarrow> nat \<Rightarrow> u16" where
  "rd16at p i = of_le16 (p ! i) (p ! (i + 1))"

definition rd32at :: "u8 list \<Rightarrow> nat \<Rightarrow> u32" where
  "rd32at p i = of_le32 (p ! i) (p ! (i + 1)) (p ! (i + 2)) (p ! (i + 3))"

definition rd64at :: "u8 list \<Rightarrow> nat \<Rightarrow> u64" where
  "rd64at p i = ucast (rd32at p i) OR push_bit 32 (ucast (rd32at p (i + 4)))"

definition wr16at :: "u8 list \<Rightarrow> nat \<Rightarrow> u16 \<Rightarrow> u8 list" where
  "wr16at p i v = blit p i (le16 v)"

definition wr32at :: "u8 list \<Rightarrow> nat \<Rightarrow> u32 \<Rightarrow> u8 list" where
  "wr32at p i v = blit p i (le32 v)"

definition wr64at :: "u8 list \<Rightarrow> nat \<Rightarrow> u64 \<Rightarrow> u8 list" where
  "wr64at p i v = wr32at (wr32at p i (ucast v)) (i + 4) (ucast (drop_bit 32 v))"

definition mem_set :: "u8 list \<Rightarrow> nat \<Rightarrow> u8 \<Rightarrow> nat \<Rightarrow> u8 list" where
  "mem_set p i v n = blit p i (replicate n v)"

definition memcmp_ex :: "u8 list \<Rightarrow> u8 list \<Rightarrow> nat \<Rightarrow> int" where
  "memcmp_ex a b n = (if take n a \<noteq> take n b then 1 else 0)"

text \<open>Checked accesses to a buffer of the driver.\<close>

definition peek :: "u8 list \<Rightarrow> nat \<Rightarrow> nat \<Rightarrow> u8 list option" where
  "peek buf i n = (if i + n \<le> length buf then Some (take n (drop i buf)) else None)"

definition poke :: "u8 list \<Rightarrow> nat \<Rightarrow> u8 list \<Rightarrow> u8 list option" where
  "poke buf i bs = (if i + length bs \<le> length buf then Some (blit buf i bs) else None)"

section \<open>Sectors and clusters\<close>

text \<open>The transfers between the drive and the buffers; the result says whether the call returned 0.\<close>

definition load_sector :: "u32 \<Rightarrow> fat \<Rightarrow> (bool \<times> fat) option" where
  "load_sector lba s = do {
     (r, bs) \<leftarrow> ata_read_sectors lba 1 (disk s);
     Some (r = 0, s\<lparr>sector_buf := blit (sector_buf s) 0 bs\<rparr>)
   }"

definition load_fat :: "u32 \<Rightarrow> fat \<Rightarrow> (bool \<times> fat) option" where
  "load_fat lba s = do {
     (r, bs) \<leftarrow> ata_read_sectors lba 1 (disk s);
     Some (r = 0, s\<lparr>fat_sector_buf := blit (fat_sector_buf s) 0 bs\<rparr>)
   }"

definition load_12 :: "u32 \<Rightarrow> nat \<Rightarrow> fat \<Rightarrow> (bool \<times> fat) option" where
  "load_12 lba i s = do {
     (r, bs) \<leftarrow> ata_read_sectors lba 1 (disk s);
     buf \<leftarrow> poke (fat12_2sect s) i bs;
     Some (r = 0, s\<lparr>fat12_2sect := buf\<rparr>)
   }"

definition store :: "u32 \<Rightarrow> u8 list \<Rightarrow> fat \<Rightarrow> (bool \<times> fat) option" where
  "store lba buf s = do {
     (r, d) \<leftarrow> ata_write_sectors lba 1 buf (disk s);
     Some (r = 0, s\<lparr>disk := d\<rparr>)
   }"

text \<open>\<open>x / bytes_per_sector\<close> and \<open>x % bytes_per_sector\<close>.\<close>

definition split_off :: "fat \<Rightarrow> u32 \<Rightarrow> (u32 \<times> u32) option" where
  "split_off s x = (if bps s = 0 then None else Some (x div bps s, x mod bps s))"

definition cluster_to_lba :: "u32 \<Rightarrow> fat \<Rightarrow> u32" where
  "cluster_to_lba cluster s = data_start_lba s + (cluster - 2) * spc s"

definition exfat_cluster_to_lba :: "u32 \<Rightarrow> fat \<Rightarrow> u32" where
  "exfat_cluster_to_lba cluster s = data_start_lba s + (cluster - 2) * spc s"

text \<open>
  The 32 bytes of an entry. When the second sector of a straddling entry cannot be read, the rest of
  the caller's array stays uninitialised.
\<close>

definition copy_dentry_at :: "u32 \<Rightarrow> u32 \<Rightarrow> fat \<Rightarrow> (u8 list \<times> fat) option" where
  "copy_dentry_at first_lba off s = do {
     (sec, rel) \<leftarrow> split_off s off;
     (ok, s) \<leftarrow> load_sector (first_lba + sec) s;
     if \<not> ok then Some (replicate 32 0, s)
     else if rel + 32 \<le> bps s then do {
       d \<leftarrow> peek (sector_buf s) (unat rel) 32;
       Some (d, s)
     } else do {
       let n1 = unat (bps s - rel);
       d1 \<leftarrow> peek (sector_buf s) (unat rel) n1;
       (ok, s) \<leftarrow> load_sector (first_lba + sec + 1) s;
       if \<not> ok then None
       else do {
         d2 \<leftarrow> peek (sector_buf s) 0 (32 - n1);
         Some (d1 @ d2, s)
       }
     }
   }"

definition write_bytes_at_lba :: "u32 \<Rightarrow> u32 \<Rightarrow> u8 list \<Rightarrow> fat \<Rightarrow> (int \<times> fat) option" where
  "write_bytes_at_lba first_lba off src s = do {
     (sec, rel) \<leftarrow> split_off s off;
     if rel + of_nat (length src) \<le> bps s then do {
       (ok, s) \<leftarrow> load_sector (first_lba + sec) s;
       if \<not> ok then Some (- 1, s)
       else do {
         buf \<leftarrow> poke (sector_buf s) (unat rel) src;
         (ok, s) \<leftarrow> store (first_lba + sec) buf (s\<lparr>sector_buf := buf\<rparr>);
         Some (if ok then 0 else - 1, s)
       }
     } else do {
       let n0 = unat (bps s - rel);
       (ok, s) \<leftarrow> load_sector (first_lba + sec) s;
       if \<not> ok then Some (- 1, s)
       else do {
         buf \<leftarrow> poke (sector_buf s) (unat rel) (take n0 src);
         (ok, s) \<leftarrow> store (first_lba + sec) buf (s\<lparr>sector_buf := buf\<rparr>);
         if \<not> ok then Some (- 1, s)
         else do {
           (ok, s) \<leftarrow> load_sector (first_lba + sec + 1) s;
           if \<not> ok then Some (- 1, s)
           else do {
             buf \<leftarrow> poke (sector_buf s) 0 (drop n0 src);
             (ok, s) \<leftarrow> store (first_lba + sec + 1) buf (s\<lparr>sector_buf := buf\<rparr>);
             Some (if ok then 0 else - 1, s)
           }
         }
       }
     }
   }"

definition write_dentry_at :: "u32 \<Rightarrow> u32 \<Rightarrow> u8 list \<Rightarrow> fat \<Rightarrow> (int \<times> fat) option" where
  "write_dentry_at first_lba off d s = write_bytes_at_lba first_lba off (take 32 d) s"

section \<open>Table entries: writing\<close>

fun sync_copies :: "u32 \<Rightarrow> nat list \<Rightarrow> fat \<Rightarrow> (int \<times> fat) option" where
  "sync_copies idx [] s = Some (0, s)"
| "sync_copies idx (c # cs) s = do {
     (ok, s) \<leftarrow> store (fat_start_lba s + of_nat c * fat_sectors s + idx) (fat_sector_buf s) s;
     if \<not> ok then Some (- 1, s) else sync_copies idx cs s
   }"

definition sync_fat_sector_index :: "u32 \<Rightarrow> fat \<Rightarrow> (int \<times> fat) option" where
  "sync_fat_sector_index idx s =
     (if idx \<ge> fat_sectors s then Some (- 1, s) else sync_copies idx [0..<unat (fat_num_fats s)] s)"

definition fat16_set_entry :: "u32 \<Rightarrow> u16 \<Rightarrow> fat \<Rightarrow> (int \<times> fat) option" where
  "fat16_set_entry cluster val s = do {
     (sec, off) \<leftarrow> split_off s (cluster * 2);
     (ok, s) \<leftarrow> load_fat (fat_start_lba s + sec) s;
     if \<not> ok then Some (- 1, s)
     else do {
       buf \<leftarrow> poke (fat_sector_buf s) (unat off) (le16 val);
       sync_fat_sector_index sec (s\<lparr>fat_sector_buf := buf\<rparr>)
     }
   }"

text \<open>The two bytes that hold an entry of FAT12, with the entry replaced.\<close>

definition fat12_patch :: "u32 \<Rightarrow> u16 \<Rightarrow> u8 list \<Rightarrow> u8 list" where
  "fat12_patch cluster val b =
     (if cluster AND 1 = 0
      then [ucast (val AND 0xFF), (b ! 1 AND 0xF0) OR ucast (drop_bit 8 val AND 0x0F)]
      else [(b ! 0 AND 0x0F) OR ucast (push_bit 4 val AND 0xF0), ucast (drop_bit 4 val AND 0xFF)])"

fun fat12_copies :: "u32 \<Rightarrow> bool \<Rightarrow> nat list \<Rightarrow> fat \<Rightarrow> (int \<times> fat) option" where
  "fat12_copies sec0 span [] s = Some (0, s)"
| "fat12_copies sec0 span (c # cs) s = do {
     let base = fat_start_lba s + of_nat c * fat_sectors s;
     (ok, s) \<leftarrow> store (base + sec0) (fat12_2sect s) s;
     if \<not> ok then Some (- 1, s)
     else do {
       (ok, s) \<leftarrow> (if span then store (base + sec0 + 1) (drop (unat (bps s)) (fat12_2sect s)) s else Some (True, s));
       if \<not> ok then Some (- 1, s) else fat12_copies sec0 span cs s
     }
   }"

definition fat12_set_entry :: "u32 \<Rightarrow> u16 \<Rightarrow> fat \<Rightarrow> (int \<times> fat) option" where
  "fat12_set_entry cluster val s = do {
     let val = val AND 0x0FFF;
     (sec0, rel) \<leftarrow> split_off s (cluster * 3 div 2);
     let span = (rel + 1 \<ge> bps s);
     (ok, s) \<leftarrow> load_12 (fat_start_lba s + sec0) 0 s;
     if \<not> ok then Some (- 1, s)
     else do {
       (ok, s) \<leftarrow> (if span then load_12 (fat_start_lba s + sec0 + 1) (unat (bps s)) s else Some (True, s));
       if \<not> ok then Some (- 1, s)
       else do {
         b \<leftarrow> peek (fat12_2sect s) (unat rel) 2;
         buf \<leftarrow> poke (fat12_2sect s) (unat rel) (fat12_patch cluster val b);
         fat12_copies sec0 span (0 # [1..<unat (fat_num_fats s)]) (s\<lparr>fat12_2sect := buf\<rparr>)
       }
     }
   }"

definition fat_set_entry_fat1216 :: "u32 \<Rightarrow> u16 \<Rightarrow> fat \<Rightarrow> (int \<times> fat) option" where
  "fat_set_entry_fat1216 cluster val s =
     (if is_fat12 s then fat12_set_entry cluster val s else fat16_set_entry cluster val s)"

fun exfat_set_copies :: "u32 \<Rightarrow> u32 \<Rightarrow> u32 \<Rightarrow> nat list \<Rightarrow> fat \<Rightarrow> (int \<times> fat) option" where
  "exfat_set_copies sec off val [] s = Some (0, s)"
| "exfat_set_copies sec off val (fc # fcs) s = do {
     let base = fat_start_lba s + of_nat fc * fat_sectors s + sec;
     if off + 4 \<le> bps s then do {
       (ok, s) \<leftarrow> load_fat base s;
       if \<not> ok then Some (- 1, s)
       else do {
         buf \<leftarrow> poke (fat_sector_buf s) (unat off) (le32 val);
         (ok, s) \<leftarrow> store base buf (s\<lparr>fat_sector_buf := buf\<rparr>);
         if \<not> ok then Some (- 1, s) else exfat_set_copies sec off val fcs s
       }
     } else do {
       let n0 = unat (bps s - off);
       (ok, s) \<leftarrow> load_fat base s;
       if \<not> ok then Some (- 1, s)
       else do {
         (ok, s) \<leftarrow> load_sector (base + 1) s;
         if \<not> ok then Some (- 1, s)
         else do {
           buf \<leftarrow> poke (fat_sector_buf s) (unat off) (take n0 (le32 val));
           buf2 \<leftarrow> poke (sector_buf s) 0 (drop n0 (le32 val));
           (ok, s) \<leftarrow> store base buf (s\<lparr>fat_sector_buf := buf, sector_buf := buf2\<rparr>);
           if \<not> ok then Some (- 1, s)
           else do {
             (ok, s) \<leftarrow> store (base + 1) buf2 s;
             if \<not> ok then Some (- 1, s) else exfat_set_copies sec off val fcs s
           }
         }
       }
     }
   }"

definition exfat_set_fat_entry :: "u32 \<Rightarrow> u32 \<Rightarrow> fat \<Rightarrow> (int \<times> fat) option" where
  "exfat_set_fat_entry cluster val s = do {
     (sec, off) \<leftarrow> split_off s (cluster * 4);
     exfat_set_copies sec off val [0..<unat (exfat_num_fats s)] s
   }"

section \<open>Table entries: reading\<close>

definition get_fat_entry_fat1216 :: "u32 \<Rightarrow> fat \<Rightarrow> (u32 \<times> fat) option" where
  "get_fat_entry_fat1216 cluster s =
     (if is_fat12 s then do {
        (sec, off) \<leftarrow> split_off s (cluster * 3 div 2);
        (ok, s) \<leftarrow> load_fat (fat_start_lba s + sec) s;
        if \<not> ok then Some (0x0FFF, s)
        else do {
          b \<leftarrow> peek (fat_sector_buf s) (unat off) 2;
          let w = rd16at b 0;
          Some (if cluster AND 1 \<noteq> 0 then ucast (drop_bit 4 w) else ucast (w AND 0x0FFF), s)
        }
      } else do {
        (sec, off) \<leftarrow> split_off s (cluster * 2);
        (ok, s) \<leftarrow> load_fat (fat_start_lba s + sec) s;
        if \<not> ok then Some (0xFFFF, s)
        else do {
          b \<leftarrow> peek (fat_sector_buf s) (unat off) 2;
          Some (ucast (rd16at b 0), s)
        }
      })"

definition get_fat_entry_exfat :: "u32 \<Rightarrow> fat \<Rightarrow> (u32 \<times> fat) option" where
  "get_fat_entry_exfat cluster s = do {
     (sec, off) \<leftarrow> split_off s (cluster * 4);
     (ok, s) \<leftarrow> load_fat (fat_start_lba s + sec) s;
     if \<not> ok then Some (0xFFFFFFFF, s)
     else if off + 4 \<le> bps s then do {
       b \<leftarrow> peek (fat_sector_buf s) (unat off) 4;
       Some (rd32at b 0, s)
     } else do {
       let n0 = unat (bps s - off);
       b1 \<leftarrow> peek (fat_sector_buf s) (unat off) n0;
       (ok, s) \<leftarrow> load_fat (fat_start_lba s + sec + 1) s;
       if \<not> ok then Some (0xFFFFFFFF, s)
       else do {
         b2 \<leftarrow> peek (fat_sector_buf s) 0 (4 - n0);
         Some (rd32at (b1 @ b2) 0, s)
       }
     }
   }"

definition get_fat_entry :: "u32 \<Rightarrow> fat \<Rightarrow> (u32 \<times> fat) option" where
  "get_fat_entry cluster s =
     (if fs_kind s = FS_EXFAT then get_fat_entry_exfat cluster s else get_fat_entry_fat1216 cluster s)"

end
