(* ===== verification/Exfat.thy ===== *)
theory Exfat
  imports Fatbase
begin

text \<open>
  The exFAT half of \<^verbatim>\<open>src/kernel/fs/fat.c\<close>: mounting, the allocation bitmap, cluster chains, and
  finding and writing files of the root directory. Names are byte lists; reading a name past its
  terminator, or a buffer left without one, is \<open>None\<close>. Loops over a chain that may not end are
  \<^theory_text>\<open>partial_function (option)\<close>.
\<close>

definition ascii_upper :: "u8 \<Rightarrow> u8" where
  "ascii_upper c = (if 0x61 \<le> c \<and> c \<le> 0x7A then c - 32 else c)"

definition char_at :: "u8 list \<Rightarrow> nat \<Rightarrow> u8 option" where
  "char_at n i = (if i < length n then Some (n ! i) else if i = length n then Some 0 else None)"

section \<open>Names\<close>

fun copy_field :: "nat \<Rightarrow> u8 list \<Rightarrow> nat \<Rightarrow> nat \<Rightarrow> u8 list \<Rightarrow> u8 list option" where
  "copy_field outsz n11 i 0 out = Some out"
| "copy_field outsz n11 i (Suc k) out = do {
     c \<leftarrow> char_at n11 i;
     if c = 0x20 then Some out
     else if length out + 1 \<ge> outsz then None
     else copy_field outsz n11 (i + 1) k (out @ [ascii_upper c])
   }"

fun skip_blanks :: "u8 list \<Rightarrow> nat \<Rightarrow> nat \<Rightarrow> nat option" where
  "skip_blanks n11 i 0 = Some i"
| "skip_blanks n11 i (Suc k) = do {
     c \<leftarrow> char_at n11 i;
     if c = 0x20 then skip_blanks n11 (i + 1) k else Some i
   }"

definition build_expected_from_83 :: "u8 list \<Rightarrow> nat \<Rightarrow> u8 list option" where
  "build_expected_from_83 n11 outsz = do {
     out \<leftarrow> copy_field outsz n11 0 8 [];
     ext_start \<leftarrow> skip_blanks n11 8 3;
     if ext_start < 11 then
       (if length out + 1 \<ge> outsz then None
        else copy_field outsz n11 ext_start (11 - ext_start) (out @ [0x2E]))
     else Some out
   }"

definition bget :: "u8 list \<Rightarrow> nat \<Rightarrow> u8" where
  "bget n i = (if i < length n then n ! i else 0)"

fun name_matches_expected :: "u8 list \<Rightarrow> nat \<Rightarrow> u16 list \<Rightarrow> bool" where
  "name_matches_expected expected ei [] = (bget expected ei = 0)"
| "name_matches_expected expected ei (c # w) =
     (if c = 0 then bget expected ei = 0
      else if c > 127 then False
      else if bget expected ei = 0 then False
      else if ascii_upper (ucast c) \<noteq> bget expected ei then False
      else name_matches_expected expected (ei + 1) w)"

definition exfat_name_utf16_from_83 :: "u8 list \<Rightarrow> u16 list option" where
  "exfat_name_utf16_from_83 name_83 = do {
     ex \<leftarrow> build_expected_from_83 name_83 64;
     Some (take 255 (map ucast (takeWhile (\<lambda>c. c \<noteq> 0) ex)))
   }"

section \<open>Mounting\<close>

partial_function (option) bitmap_scan :: "u32 \<Rightarrow> u32 \<Rightarrow> u32 \<Rightarrow> fat \<Rightarrow> (u8 list option \<times> fat) option" where
  "bitmap_scan lba0 off cb s =
     (if off + 32 \<le> cb then do {
        (d, s) \<leftarrow> copy_dentry_at lba0 off s;
        if d ! 0 = 0 then Some (None, s)
        else if d ! 0 = 0x81 then Some (Some d, s)
        else bitmap_scan lba0 (off + 32) cb s
      } else Some (None, s))"

partial_function (option) locate_loop :: "u32 \<Rightarrow> u32 \<Rightarrow> fat \<Rightarrow> (int \<times> fat) option" where
  "locate_loop dir_clu cb s =
     (if 2 \<le> dir_clu \<and> dir_clu < 0xFFFFFFF8 then do {
        (r, s) \<leftarrow> bitmap_scan (exfat_cluster_to_lba dir_clu s) 0 cb s;
        case r of
          Some d \<Rightarrow>
            let valid = (rd32at d 20 \<ge> 2 \<and> rd64at d 24 > 0)
            in Some (if valid then 0 else - 1,
                 s\<lparr>exfat_bitmap_clu := rd32at d 20, exfat_bitmap_bytes := rd64at d 24, exfat_bitmap_valid := valid\<rparr>)
        | None \<Rightarrow> do {
            (n, s) \<leftarrow> get_fat_entry_exfat dir_clu s;
            locate_loop n cb s
          }
      } else Some (- 1, s))"

definition exfat_locate_bitmap :: "fat \<Rightarrow> (int \<times> fat) option" where
  "exfat_locate_bitmap s = locate_loop (exfat_root_cluster s) (spc s * bps s) s"

definition sig_exfat :: "u8 list" where
  "sig_exfat = [0x45, 0x58, 0x46, 0x41, 0x54, 0x20, 0x20, 0x20]"

definition exfat_mount :: "u8 list \<Rightarrow> fat \<Rightarrow> (int \<times> fat) option" where
  "exfat_mount boot s =
     (let s = s\<lparr>exfat_nofatchain := False, exfat_bitmap_valid := False\<rparr> in
      if memcmp_ex (drop 3 boot) sig_exfat 8 \<noteq> 0 then Some (- 1, s)
      else if rd16at boot 510 \<noteq> 0xAA55 then Some (- 1, s)
      else if boot ! 0x6C < 9 \<or> boot ! 0x6C > 12 then Some (- 1, s)
      else let s = s\<lparr>bytes_per_sector := push_bit (unat (boot ! 0x6C)) 1\<rparr> in
        if bytes_per_sector s \<noteq> 512 then Some (- 1, s)
        else if boot ! 0x6D \<ge> 32 then None
        else let s = s\<lparr>sectors_per_cluster := push_bit (unat (boot ! 0x6D)) 1,
               fat_start_lba := rd32at boot 0x50, fat_sectors := rd32at boot 0x54, data_start_lba := rd32at boot 0x58,
               exfat_cluster_count := rd32at boot 0x5C, exfat_root_cluster := rd32at boot 0x60,
               exfat_num_fats := (if boot ! 0x6E = 0 then 1 else boot ! 0x6E)\<rparr> in
          if exfat_root_cluster s < 2 then Some (- 1, s)
          else if fat_sectors s = 0 \<or> data_start_lba s = 0 then Some (- 1, s)
          else do {
            (_, s) \<leftarrow> exfat_locate_bitmap (s\<lparr>fs_kind := FS_EXFAT\<rparr>);
            Some (0, s)
          })"

section \<open>Finding a file\<close>

record exfat_loc =
  loc_dir_clu :: u32
  loc_off :: u32
  loc_sec_count :: u8

datatype probe = Stop | Skip u32 | Hit u32 u32 u8 bool

text \<open>The name entries of a set; \<open>None\<close> as the value is a set that is not well formed.\<close>

fun read_name :: "u32 \<Rightarrow> u32 \<Rightarrow> nat \<Rightarrow> nat \<Rightarrow> nat \<Rightarrow> u16 list \<Rightarrow> fat \<Rightarrow> (u16 list option \<times> fat) option" where
  "read_name lba0 off name_len ne 0 w s = Some (if length w \<noteq> name_len then None else Some w, s)"
| "read_name lba0 off name_len ne (Suc k) w s = do {
     (dn, s) \<leftarrow> copy_dentry_at lba0 (off + of_nat (2 + ne) * 32) s;
     let in_this = (if k = 0 then name_len - ne * 15 else 15);
     if dn ! 0 \<noteq> 0xC1 then Some (None, s)
     else if length w + in_this > 255 then Some (None, s)
     else read_name lba0 off name_len (ne + 1) k (w @ map (\<lambda>j. rd16at dn (2 + j * 2)) [0..<in_this]) s
   }"

definition probe_entry :: "u8 list \<Rightarrow> u32 \<Rightarrow> u32 \<Rightarrow> u32 \<Rightarrow> fat \<Rightarrow> (probe \<times> fat) option" where
  "probe_entry expected lba0 off cluster_bytes s = do {
     (d0, s) \<leftarrow> copy_dentry_at lba0 off s;
     let sec_count = d0 ! 1;
     let set_bytes = (1 + ucast sec_count) * 32;
     if d0 ! 0 = 0 then Some (Stop, s)
     else if d0 ! 0 \<noteq> 0x85 then Some (Skip (off + 32), s)
     else if rd16at d0 4 AND 0x0010 \<noteq> 0 then Some (Skip (off + set_bytes), s)
     else if off + set_bytes > cluster_bytes then Some (Stop, s)
     else do {
       (ds, s) \<leftarrow> copy_dentry_at lba0 (off + 32) s;
       let name_len = unat (ds ! 3);
       if ds ! 0 \<noteq> 0xC0 then Some (Skip (off + 32), s)
       else if name_len = 0 then Some (Skip (off + set_bytes), s)
       else do {
         (w, s) \<leftarrow> read_name lba0 off name_len 0 ((name_len + 14) div 15) [] s;
         case w of
           None \<Rightarrow> Some (Skip (off + set_bytes), s)
         | Some w \<Rightarrow>
             if name_matches_expected expected 0 w
             then Some (Hit (rd32at ds 20) (ucast (rd64at ds 24)) sec_count (ds ! 1 AND 0x02 \<noteq> 0), s)
             else Some (Skip (off + set_bytes), s)
       }
     }
   }"

partial_function (option) find_scan :: "u8 list \<Rightarrow> u32 \<Rightarrow> u32 \<Rightarrow> u32 \<Rightarrow> fat \<Rightarrow> ((u32 \<times> probe) \<times> fat) option" where
  "find_scan expected lba0 off cb s =
     (if off + 32 \<le> cb then do {
        (p, s) \<leftarrow> probe_entry expected lba0 off cb s;
        case p of Skip off' \<Rightarrow> find_scan expected lba0 off' cb s | _ \<Rightarrow> Some ((off, p), s)
      } else Some ((off, Skip off), s))"

partial_function (option) find_loop ::
  "u8 list \<Rightarrow> u32 \<Rightarrow> u32 \<Rightarrow> fat \<Rightarrow> ((u32 \<times> u32 \<times> exfat_loc) option \<times> fat) option" where
  "find_loop expected dir_clu cb s =
     (if 2 \<le> dir_clu \<and> dir_clu < 0xFFFFFFF8 then do {
        ((off, p), s) \<leftarrow> find_scan expected (exfat_cluster_to_lba dir_clu s) 0 cb s;
        case p of
          Stop \<Rightarrow> Some (None, s)
        | Hit clu fsize sec nofat \<Rightarrow>
            Some (Some (clu, fsize, \<lparr>loc_dir_clu = dir_clu, loc_off = off, loc_sec_count = sec\<rparr>),
              s\<lparr>exfat_nofatchain := nofat\<rparr>)
        | Skip _ \<Rightarrow> do {
            (n, s) \<leftarrow> get_fat_entry_exfat dir_clu s;
            find_loop expected n cb s
          }
      } else Some (None, s))"

definition exfat_find_root :: "u8 list \<Rightarrow> fat \<Rightarrow> ((u32 \<times> u32 \<times> exfat_loc) option \<times> fat) option" where
  "exfat_find_root name_83 s = do {
     expected \<leftarrow> build_expected_from_83 name_83 64;
     find_loop expected (exfat_root_cluster s) (spc s * bps s) (s\<lparr>exfat_nofatchain := False\<rparr>)
   }"

section \<open>The allocation bitmap\<close>

text \<open>The sector and the bit of a cluster; \<open>None\<close> when the bitmap does not reach it.\<close>

definition bitmap_addr :: "u32 \<Rightarrow> fat \<Rightarrow> (u32 \<times> nat \<times> nat) option" where
  "bitmap_addr cluster s =
     (let bitno = ucast cluster - 2 :: u64; byte_off = bitno div 8 in
      if \<not> exfat_bitmap_valid s \<or> cluster < 2 \<or> byte_off \<ge> exfat_bitmap_bytes s then None
      else Some (exfat_cluster_to_lba (exfat_bitmap_clu s) s + ucast (byte_off div ucast (bytes_per_sector s)),
             unat (byte_off mod ucast (bytes_per_sector s)), unat (bitno mod 8)))"

text \<open>The value is \<open>None\<close> for the result -1, otherwise what is stored in \<open>*out\<close>.\<close>

definition exfat_bitmap_is_free :: "u32 \<Rightarrow> fat \<Rightarrow> (bool option \<times> fat) option" where
  "exfat_bitmap_is_free cluster s =
     (case bitmap_addr cluster s of
        None \<Rightarrow> Some (None, s)
      | Some (lba, rel, k) \<Rightarrow>
          if bytes_per_sector s = 0 then None
          else do {
            (ok, s) \<leftarrow> load_sector lba s;
            if \<not> ok then Some (None, s)
            else do {
              b \<leftarrow> peek (sector_buf s) rel 1;
              Some (Some (drop_bit k (b ! 0) AND 1 = 0), s)
            }
          })"

definition exfat_bitmap_modify_bit :: "u32 \<Rightarrow> bool \<Rightarrow> fat \<Rightarrow> (int \<times> fat) option" where
  "exfat_bitmap_modify_bit cluster on s =
     (case bitmap_addr cluster s of
        None \<Rightarrow> Some (- 1, s)
      | Some (lba, rel, k) \<Rightarrow>
          if bytes_per_sector s = 0 then None
          else do {
            (ok, s) \<leftarrow> load_sector lba s;
            if \<not> ok then Some (- 1, s)
            else do {
              b \<leftarrow> peek (sector_buf s) rel 1;
              buf \<leftarrow> poke (sector_buf s) rel
                [if on then b ! 0 OR push_bit k 1 else b ! 0 AND NOT (push_bit k 1)];
              (ok, s) \<leftarrow> store lba buf (s\<lparr>sector_buf := buf\<rparr>);
              Some (if ok then 0 else - 1, s)
            }
          })"

fun grab_loop :: "u32 \<Rightarrow> nat \<Rightarrow> fat \<Rightarrow> (u32 \<times> fat) option" where
  "grab_loop c 0 s = Some (0, s)"
| "grab_loop c (Suc n) s =
     (if \<not> exfat_bitmap_valid s then Some (0, s)
      else do {
        (fr, s) \<leftarrow> exfat_bitmap_is_free c s;
        case fr of
          None \<Rightarrow> Some (0, s)
        | Some fr \<Rightarrow>
            if fr then do {
              (r, s) \<leftarrow> exfat_bitmap_modify_bit c True s;
              Some (if r \<noteq> 0 then 0 else c, s)
            } else grab_loop (c + 1) n s
      })"

definition exfat_grab_cluster :: "fat \<Rightarrow> (u32 \<times> fat) option" where
  "exfat_grab_cluster s = grab_loop 2 (unat (2 + exfat_cluster_count s) - 2) s"

section \<open>Chains\<close>

definition exfat_release_cluster :: "u32 \<Rightarrow> fat \<Rightarrow> fat option" where
  "exfat_release_cluster c s =
     (if c < 2 then Some s
      else do {
        (_, s) \<leftarrow> exfat_set_fat_entry c 0 s;
        (_, s) \<leftarrow> exfat_bitmap_modify_bit c False s;
        Some s
      })"

partial_function (option) exfat_free_chain :: "u32 \<Rightarrow> fat \<Rightarrow> fat option" where
  "exfat_free_chain c s =
     (if 2 \<le> c \<and> c < 0xFFFFFFF8 then do {
        (n, s) \<leftarrow> get_fat_entry_exfat c s;
        s \<leftarrow> exfat_release_cluster c s;
        exfat_free_chain n s
      } else Some s)"

text \<open>\<open>k\<close> clusters are still to come after the first \<open>i\<close>.\<close>

fun exfat_alloc_loop :: "nat \<Rightarrow> nat \<Rightarrow> u32 \<Rightarrow> u32 \<Rightarrow> fat \<Rightarrow> (u32 option \<times> fat) option" where
  "exfat_alloc_loop 0 i prev first s = Some (Some first, s)"
| "exfat_alloc_loop (Suc k) i prev first s = do {
     (c, s) \<leftarrow> exfat_grab_cluster s;
     if c = 0 then do {
       s \<leftarrow> (if i > 0 then exfat_free_chain first s else Some s);
       Some (None, s)
     } else do {
       (_, s) \<leftarrow> (if i > 0 then exfat_set_fat_entry prev c s else Some (0, s));
       (_, s) \<leftarrow> exfat_set_fat_entry c 0xFFFFFFFF s;
       exfat_alloc_loop k (i + 1) c (if i > 0 then first else c) s
     }
   }"

definition exfat_alloc_chain :: "u32 \<Rightarrow> fat \<Rightarrow> (u32 option \<times> fat) option" where
  "exfat_alloc_chain n s = (if n = 0 then Some (Some 0, s) else exfat_alloc_loop (unat n) 0 0 0 s)"

text \<open>
  The sectors of one cluster, from \<open>buf\<close> at \<open>written\<close> on, padded with zeros; the value is the new
  \<open>written\<close>, or \<open>None\<close> when a write failed.
\<close>

fun write_secs :: "u32 \<Rightarrow> nat \<Rightarrow> nat \<Rightarrow> u8 list \<Rightarrow> u32 \<Rightarrow> u32 \<Rightarrow> fat \<Rightarrow> (u32 option \<times> fat) option" where
  "write_secs lba k 0 buf sz written s = Some (Some written, s)"
| "write_secs lba k (Suc n) buf sz written s =
     (if written < sz then do {
        let chunk = (if written + bps s > sz then sz - written else bps s);
        p \<leftarrow> peek buf (unat written) (unat chunk);
        sb \<leftarrow> poke (sector_buf s) 0 (p @ replicate (unat (bps s) - unat chunk) 0);
        (ok, s) \<leftarrow> store (lba + of_nat k) sb (s\<lparr>sector_buf := sb\<rparr>);
        if \<not> ok then Some (None, s) else write_secs lba (k + 1) n buf sz (written + chunk) s
      } else Some (Some written, s))"

partial_function (option) exfat_write_loop :: "u32 \<Rightarrow> u8 list \<Rightarrow> u32 \<Rightarrow> u32 \<Rightarrow> fat \<Rightarrow> (int \<times> fat) option" where
  "exfat_write_loop cluster buf sz written s =
     (if written < sz \<and> 2 \<le> cluster \<and> cluster < 0xFFFFFFF8 then do {
        (w, s) \<leftarrow> write_secs (exfat_cluster_to_lba cluster s) 0 (unat (sectors_per_cluster s)) buf sz written s;
        case w of
          None \<Rightarrow> Some (- 1, s)
        | Some w \<Rightarrow> do {
            (n, s) \<leftarrow> get_fat_entry_exfat cluster s;
            exfat_write_loop n buf sz w s
          }
      } else Some (if written = sz then 0 else - 1, s))"

definition exfat_write_chain :: "u32 \<Rightarrow> u8 list \<Rightarrow> u32 \<Rightarrow> fat \<Rightarrow> (int \<times> fat) option" where
  "exfat_write_chain first_clu buf sz s = exfat_write_loop first_clu buf sz 0 s"

section \<open>Writing a file of the root\<close>

text \<open>\<open>typ\<close> is \<open>CS_DIR_ENTRY\<close> when true: bytes 2 and 3 are left out. The sum is kept to 16 bits.\<close>

fun chksum_loop :: "bool \<Rightarrow> nat \<Rightarrow> u16 \<Rightarrow> u8 list \<Rightarrow> u16" where
  "chksum_loop dir i sm [] = sm"
| "chksum_loop dir i sm (b # bs) =
     (if dir \<and> (i = 2 \<or> i = 3) then chksum_loop dir (i + 1) sm bs
      else chksum_loop dir (i + 1) ((push_bit 15 sm OR drop_bit 1 sm) + ucast b) bs)"

definition exfat_chksum16_buf :: "u8 list \<Rightarrow> u16 \<Rightarrow> bool \<Rightarrow> u16" where
  "exfat_chksum16_buf data sm dir = chksum_loop dir 0 sm data"

text \<open>Entry \<open>ni\<close> of the name: 15 characters, the last one what is left.\<close>

definition name_entry :: "u16 list \<Rightarrow> nat \<Rightarrow> u8 list" where
  "name_entry w ni = (let cs = take 15 (drop (ni * 15) w) in
     [0xC1, 0] @ concat (map le16 cs) @ replicate (30 - 2 * length cs) 0)"

definition entry_set :: "u16 list \<Rightarrow> u8 \<Rightarrow> u32 \<Rightarrow> u32 \<Rightarrow> u8 list" where
  "entry_set w sec_count first sz =
     (let name_len = length w;
          name_hash = exfat_chksum16_buf (concat (map le16 w)) 0 False;
          p = replicate (32 * 24) 0;
          p = wr16at (p[0 := 0x85, 1 := sec_count]) 4 0x0020;
          p = p[32 := 0xC0, 33 := 0x01, 35 := of_nat name_len];
          p = wr16at p 36 name_hash;
          p = wr64at p 40 (ucast sz);
          p = wr32at p 48 0;
          p = wr32at p 52 first;
          p = wr64at p 56 (ucast sz);
          p = blit p 64 (concat (map (name_entry w) [0..<(name_len + 14) div 15]));
          dcs = exfat_chksum16_buf (take 32 p) 0 True;
          dcs = foldl (\<lambda>d i. exfat_chksum16_buf (take 32 (drop (i * 32) p)) d False) dcs [1..<unat sec_count + 1]
      in wr16at p 2 dcs)"

partial_function (option) insert_scan :: "u32 \<Rightarrow> u32 \<Rightarrow> u32 \<Rightarrow> u32 \<Rightarrow> fat \<Rightarrow> (u32 option \<times> fat) option" where
  "insert_scan need_bytes lba0 off cb s =
     (if off + 32 \<le> cb then do {
        (d, s) \<leftarrow> copy_dentry_at lba0 off s;
        if d ! 0 = 0 then Some (if off + need_bytes + 32 \<le> cb then Some off else None, s)
        else insert_scan need_bytes lba0 (off + 32) cb s
      } else Some (None, s))"

partial_function (option) insert_loop :: "u32 \<Rightarrow> u32 \<Rightarrow> u32 \<Rightarrow> fat \<Rightarrow> ((u32 \<times> u32) option \<times> fat) option" where
  "insert_loop need_bytes dir_clu cb s =
     (if 2 \<le> dir_clu \<and> dir_clu < 0xFFFFFFF8 then do {
        (r, s) \<leftarrow> insert_scan need_bytes (exfat_cluster_to_lba dir_clu s) 0 cb s;
        case r of
          Some off \<Rightarrow> Some (Some (dir_clu, off), s)
        | None \<Rightarrow> do {
            (n, s) \<leftarrow> get_fat_entry_exfat dir_clu s;
            insert_loop need_bytes n cb s
          }
      } else Some (None, s))"

definition exfat_find_insert :: "u32 \<Rightarrow> fat \<Rightarrow> ((u32 \<times> u32) option \<times> fat) option" where
  "exfat_find_insert need_bytes s = insert_loop need_bytes (exfat_root_cluster s) (spc s * bps s) s"

text \<open>The entries of a set, one after the other, the terminator included for a new one.\<close>

fun write_entries :: "u32 \<Rightarrow> u32 \<Rightarrow> u8 list list \<Rightarrow> fat \<Rightarrow> (int \<times> fat) option" where
  "write_entries lba0 off [] s = Some (0, s)"
| "write_entries lba0 off (d # ds) s = do {
     (r, s) \<leftarrow> write_dentry_at lba0 off d s;
     if r \<noteq> 0 then Some (- 1, s) else write_entries lba0 (off + 32) ds s
   }"

definition exfat_write_root :: "u8 list \<Rightarrow> u8 list \<Rightarrow> u32 \<Rightarrow> fat \<Rightarrow> (int \<times> fat) option" where
  "exfat_write_root name_83 buf sz s =
     (if \<not> exfat_bitmap_valid s then Some (- 1, s)
      else do {
        w \<leftarrow> exfat_name_utf16_from_83 name_83;
        let name_len = length w;
        if name_len = 0 \<or> name_len > 255 then Some (- 1, s)
        else do {
          let sec_count = (of_nat (1 + (name_len + 14) div 15) :: u8);
          let nent = 1 + unat sec_count;
          let need = of_nat nent * 32;
          (old, s) \<leftarrow> exfat_find_root name_83 s;
          s \<leftarrow> (case old of Some (old_c, _, _) \<Rightarrow> exfat_free_chain old_c s | None \<Rightarrow> Some s);
          let cbytes = spc s * bps s;
          if sz > 0 \<and> cbytes = 0 then None
          else do {
            let ncl = (if sz > 0 then (sz + cbytes - 1) div cbytes else 0);
            (first, s) \<leftarrow> exfat_alloc_chain ncl s;
            case first of
              None \<Rightarrow> Some (- 1, s)
            | Some first \<Rightarrow> do {
                (r, s) \<leftarrow> (if sz > 0 then exfat_write_chain first buf sz s else Some (0, s));
                if r \<noteq> 0 then do { s \<leftarrow> exfat_free_chain first s; Some (- 1, s) }
                else if nent > 24 then do { s \<leftarrow> exfat_free_chain first s; Some (- 1, s) }
                else do {
                  let set = entry_set w sec_count first sz;
                  (place, s) \<leftarrow> (case old of
                      Some (_, _, loc) \<Rightarrow>
                        Some (if sec_count \<noteq> loc_sec_count loc then None else Some (loc_dir_clu loc, loc_off loc), s)
                    | None \<Rightarrow> exfat_find_insert need s);
                  case place of
                    None \<Rightarrow> do { s \<leftarrow> exfat_free_chain first s; Some (- 1, s) }
                  | Some (wclu, woff) \<Rightarrow> do {
                      (r, s) \<leftarrow> write_entries (exfat_cluster_to_lba wclu s) woff
                        (map (\<lambda>i. take 32 (drop (i * 32) set)) [0..<nent] @ (if old = None then [replicate 32 0] else [])) s;
                      if r \<noteq> 0 then do { s \<leftarrow> exfat_free_chain first s; Some (- 1, s) }
                      else Some (0, s\<lparr>exfat_nofatchain := False\<rparr>)
                    }
                }
              }
          }
        }
      })"

end
