(* ===== verification/Fatfs.thy ===== *)
theory Fatfs
  imports Exfat
begin

text \<open>
  The FAT12/16 half of \<^verbatim>\<open>src/kernel/fs/fat.c\<close> and the four operations of \<^verbatim>\<open>include/kernel/fat.h\<close>: mounting,
  finding a file of the root directory, reading a file along its chain, and writing a file of the root.

  A directory entry is what \<^verbatim>\<open>struct fat_dir_entry\<close> declares: packed, with ten reserved bytes and two more
  time stamps than an entry on disk has, it is 38 bytes long, so its \<open>first_cluster_lo\<close> is at offset
  32 and its \<open>size\<close> at 34. Pointer arithmetic on entries goes in steps of 38.
\<close>

definition FAT_ROOT_ENTRY_SIZE :: u32 where "FAT_ROOT_ENTRY_SIZE = 32"
definition FAT_ATTR_VOLUME_ID :: u8 where "FAT_ATTR_VOLUME_ID = 0x08"
definition FAT_ATTR_DIR :: u8 where "FAT_ATTR_DIR = 0x10"
definition FAT_ATTR_ARCHIVE :: u8 where "FAT_ATTR_ARCHIVE = 0x20"

definition SIZEOF_DIRENT :: nat where "SIZEOF_DIRENT = 38"
definition DE_ATTR :: nat where "DE_ATTR = 11"
definition DE_CLUSTER_HI :: nat where "DE_CLUSTER_HI = 26"
definition DE_CLUSTER_LO :: nat where "DE_CLUSTER_LO = 32"
definition DE_SIZE :: nat where "DE_SIZE = 34"

section \<open>Mounting\<close>

definition fat1216_mount :: "u8 list \<Rightarrow> fat \<Rightarrow> (int \<times> fat) option" where
  "fat1216_mount p s =
     (if rd16at p 11 \<noteq> 512 then Some (- 1, s)
      else
        let bytes = 512 :: u32; root_entries = ucast (rd16at p 17) :: u32;
            s = s\<lparr>bytes_per_sector := 512, sectors_per_cluster := p ! 13,
                 root_sectors := (root_entries * FAT_ROOT_ENTRY_SIZE + bytes - 1) div bytes,
                 fat_sectors := ucast (rd16at p 22)\<rparr>
        in if fat_sectors s = 0 then Some (- 1, s)
        else
          let num_fats = ucast (p ! 16) :: u32; reserved = ucast (rd16at p 14) :: u32;
              s = s\<lparr>fat_num_fats := (if p ! 16 = 0 then 1 else p ! 16), fat_start_lba := reserved,
                   root_start_lba := reserved + num_fats * fat_sectors s,
                   data_start_lba := reserved + num_fats * fat_sectors s + root_sectors s\<rparr>;
              total16 = ucast (rd16at p 19) :: u32;
              sectors = (if total16 \<noteq> 0 then total16 else rd32at p 32);
              data_sectors = sectors - (reserved + num_fats * fat_sectors s + root_sectors s)
          in if sectors_per_cluster s = 0 then None
          else
            let clusters = data_sectors div spc s
            in Some (0, s\<lparr>fat_total_clusters := clusters, is_fat12 := clusters < 4085, fs_kind := FS_FAT1216\<rparr>))"

definition fat_mount :: "fat \<Rightarrow> (int \<times> fat) option" where
  "fat_mount s = do {
     (ok, s) \<leftarrow> load_sector 0 (s\<lparr>fs_kind := FS_NONE\<rparr>);
     if \<not> ok then Some (- 1, s)
     else do {
       (r, s) \<leftarrow> exfat_mount (sector_buf s) s;
       if r = 0 then Some (0, s) else fat1216_mount (sector_buf s) s
     }
   }"

section \<open>Finding a file\<close>

datatype scan = S_end | S_more | S_hit u32 u32

text \<open>The comparison stops, successfully, at the terminator of the name.\<close>

fun name_prefix :: "u8 list \<Rightarrow> u8 list \<Rightarrow> nat \<Rightarrow> nat \<Rightarrow> nat \<Rightarrow> bool option" where
  "name_prefix name buf i k 0 = Some True"
| "name_prefix name buf i k (Suc n) = do {
     c \<leftarrow> char_at name k;
     if c = 0 then Some True
     else do {
       b \<leftarrow> peek buf (i + k) 1;
       if b ! 0 \<noteq> c then Some False else name_prefix name buf i (k + 1) n
     }
   }"

fun find_in_sector :: "u8 list \<Rightarrow> u8 list \<Rightarrow> nat \<Rightarrow> nat \<Rightarrow> scan option" where
  "find_in_sector name buf i 0 = Some S_more"
| "find_in_sector name buf i (Suc n) = do {
     n0 \<leftarrow> peek buf (i * SIZEOF_DIRENT) 1;
     if n0 ! 0 = 0 then Some S_end
     else if n0 ! 0 = 0xE5 then find_in_sector name buf (i + 1) n
     else do {
       a \<leftarrow> peek buf (i * SIZEOF_DIRENT + DE_ATTR) 1;
       if a ! 0 AND FAT_ATTR_VOLUME_ID \<noteq> 0 \<or> a ! 0 AND FAT_ATTR_DIR \<noteq> 0 then find_in_sector name buf (i + 1) n
       else do {
         m \<leftarrow> name_prefix name buf (i * SIZEOF_DIRENT) 0 11;
         if m then do {
           e \<leftarrow> peek buf (i * SIZEOF_DIRENT) SIZEOF_DIRENT;
           Some (S_hit (ucast (rd16at e DE_CLUSTER_LO) OR push_bit 16 (ucast (rd16at e DE_CLUSTER_HI)))
             (rd32at e DE_SIZE))
         } else find_in_sector name buf (i + 1) n
       }
     }
   }"

fun find_sectors :: "u8 list \<Rightarrow> nat \<Rightarrow> nat \<Rightarrow> fat \<Rightarrow> ((u32 \<times> u32) option \<times> fat) option" where
  "find_sectors name k 0 s = Some (None, s)"
| "find_sectors name k (Suc n) s = do {
     (ok, s) \<leftarrow> load_sector (root_start_lba s + of_nat k) s;
     if \<not> ok then Some (None, s)
     else do {
       r \<leftarrow> find_in_sector name (sector_buf s) 0 (unat (bps s div FAT_ROOT_ENTRY_SIZE));
       case r of
         S_end \<Rightarrow> Some (None, s)
       | S_hit clu fsize \<Rightarrow> Some (Some (clu, fsize), s)
       | S_more \<Rightarrow> find_sectors name (k + 1) n s
     }
   }"

text \<open>The cluster and size of the file; \<open>None\<close> as the value is the result -1.\<close>

definition fat_find_root :: "u8 list \<Rightarrow> fat \<Rightarrow> ((u32 \<times> u32) option \<times> fat) option" where
  "fat_find_root name_8_3 s =
     (if fs_kind s = FS_EXFAT then do {
        (r, s) \<leftarrow> exfat_find_root name_8_3 s;
        Some (map_option (\<lambda>(clu, fsize, _). (clu, fsize)) r, s)
      } else find_sectors name_8_3 0 (unat (root_sectors s)) s)"

section \<open>Reading a file\<close>

text \<open>
  The sectors of a cluster; \<open>acc\<close> is what is in the caller's buffer. The value tells whether every
  read succeeded. A chunk that goes past the size, as when \<open>read + chunk\<close> wraps, leaves the buffer.
\<close>

fun read_secs :: "u32 \<Rightarrow> nat \<Rightarrow> nat \<Rightarrow> u32 \<Rightarrow> u8 list \<Rightarrow> fat \<Rightarrow> ((bool \<times> u8 list) \<times> fat) option" where
  "read_secs lba k 0 sz acc s = Some ((True, acc), s)"
| "read_secs lba k (Suc n) sz acc s =
     (let rd = of_nat (length acc) :: u32 in
      if rd < sz then do {
        (ok, s) \<leftarrow> load_sector (lba + of_nat k) s;
        if \<not> ok then Some ((False, acc), s)
        else do {
          let chunk = (if rd + bps s > sz then sz - rd else bps s);
          if chunk > sz - rd then None
          else do {
            p \<leftarrow> peek (sector_buf s) 0 (unat chunk);
            read_secs lba (k + 1) n sz (acc @ p) s
          }
        }
      } else Some ((True, acc), s))"

partial_function (option) exfat_read_loop :: "u32 \<Rightarrow> u32 \<Rightarrow> u8 list \<Rightarrow> fat \<Rightarrow> (u8 list \<times> fat) option" where
  "exfat_read_loop cluster sz acc s =
     (if (of_nat (length acc) :: u32) < sz \<and> 2 \<le> cluster \<and> cluster < 0xFFFFFFF8 then do {
        ((ok, acc), s) \<leftarrow> read_secs (exfat_cluster_to_lba cluster s) 0 (unat (sectors_per_cluster s)) sz acc s;
        if \<not> ok then Some (acc, s)
        else do {
          (n, s) \<leftarrow> (if exfat_nofatchain s then Some (cluster + 1, s) else get_fat_entry_exfat cluster s);
          exfat_read_loop n sz acc s
        }
      } else Some (acc, s))"

definition eoc_min :: "fat \<Rightarrow> u32" where
  "eoc_min s = (if is_fat12 s then 0x0FF8 else 0xFFF8)"

partial_function (option) fat1216_read_loop :: "u32 \<Rightarrow> u32 \<Rightarrow> u8 list \<Rightarrow> fat \<Rightarrow> (u8 list \<times> fat) option" where
  "fat1216_read_loop cluster sz acc s =
     (if (of_nat (length acc) :: u32) < sz \<and> 2 \<le> cluster \<and> cluster < eoc_min s then do {
        ((ok, acc), s) \<leftarrow> read_secs (cluster_to_lba cluster s) 0 (unat (sectors_per_cluster s)) sz acc s;
        if \<not> ok then Some (acc, s)
        else do {
          (n, s) \<leftarrow> get_fat_entry_fat1216 cluster s;
          fat1216_read_loop n sz acc s
        }
      } else Some (acc, s))"

text \<open>The result, and the bytes stored in \<open>buf\<close>.\<close>

definition fat_read_file :: "u32 \<Rightarrow> u32 \<Rightarrow> fat \<Rightarrow> ((int \<times> u8 list) \<times> fat) option" where
  "fat_read_file start_cluster sz s = do {
     (acc, s) \<leftarrow> (if fs_kind s = FS_EXFAT then exfat_read_loop start_cluster sz [] s
                  else fat1216_read_loop start_cluster sz [] s);
     Some ((sint (of_nat (length acc) :: u32), acc), s)
   }"

section \<open>Chains\<close>

fun free_cluster_loop :: "u32 \<Rightarrow> nat \<Rightarrow> fat \<Rightarrow> (u32 \<times> fat) option" where
  "free_cluster_loop c 0 s = Some (0, s)"
| "free_cluster_loop c (Suc n) s = do {
     (e, s) \<leftarrow> get_fat_entry_fat1216 c s;
     let e16 = (ucast e :: u16);
     if e16 = (if is_fat12 s then 0x0FF7 else 0xFFF7) then free_cluster_loop (c + 1) n s
     else if e16 = 0 then Some (c, s)
     else free_cluster_loop (c + 1) n s
   }"

definition fat1216_find_free_cluster :: "fat \<Rightarrow> (u32 \<times> fat) option" where
  "fat1216_find_free_cluster s = free_cluster_loop 2 (unat (2 + fat_total_clusters s) - 2) s"

partial_function (option) fat1216_free_chain :: "u32 \<Rightarrow> fat \<Rightarrow> fat option" where
  "fat1216_free_chain c s =
     (if 2 \<le> c \<and> c < eoc_min s then do {
        (n, s) \<leftarrow> get_fat_entry_fat1216 c s;
        (_, s) \<leftarrow> fat_set_entry_fat1216 c 0 s;
        fat1216_free_chain n s
      } else Some s)"

fun fat1216_alloc_loop :: "nat \<Rightarrow> nat \<Rightarrow> u32 \<Rightarrow> u32 \<Rightarrow> fat \<Rightarrow> (u32 option \<times> fat) option" where
  "fat1216_alloc_loop 0 i prev first s = Some (Some first, s)"
| "fat1216_alloc_loop (Suc k) i prev first s = do {
     (c, s) \<leftarrow> fat1216_find_free_cluster s;
     if c = 0 then do {
       s \<leftarrow> (if i > 0 then fat1216_free_chain first s else Some s);
       Some (None, s)
     } else do {
       (_, s) \<leftarrow> (if i > 0 then fat_set_entry_fat1216 prev (ucast c) s else Some (0, s));
       (_, s) \<leftarrow> fat_set_entry_fat1216 c (ucast (eoc_min s)) s;
       fat1216_alloc_loop k (i + 1) c (if i > 0 then first else c) s
     }
   }"

definition fat1216_alloc_chain :: "u32 \<Rightarrow> fat \<Rightarrow> (u32 option \<times> fat) option" where
  "fat1216_alloc_chain n s = (if n = 0 then Some (Some 0, s) else fat1216_alloc_loop (unat n) 0 0 0 s)"

partial_function (option) fat1216_write_loop :: "u32 \<Rightarrow> u8 list \<Rightarrow> u32 \<Rightarrow> u32 \<Rightarrow> fat \<Rightarrow> (int \<times> fat) option" where
  "fat1216_write_loop cluster buf sz written s =
     (if written < sz \<and> 2 \<le> cluster \<and> cluster < eoc_min s then do {
        (w, s) \<leftarrow> write_secs (cluster_to_lba cluster s) 0 (unat (sectors_per_cluster s)) buf sz written s;
        case w of
          None \<Rightarrow> Some (- 1, s)
        | Some w \<Rightarrow> do {
            (n, s) \<leftarrow> get_fat_entry_fat1216 cluster s;
            fat1216_write_loop n buf sz w s
          }
      } else Some (if written = sz then 0 else - 1, s))"

definition fat1216_write_bytes :: "u32 \<Rightarrow> u8 list \<Rightarrow> u32 \<Rightarrow> fat \<Rightarrow> (int \<times> fat) option" where
  "fat1216_write_bytes first_clu buf sz s = fat1216_write_loop first_clu buf sz 0 s"

section \<open>Writing a file of the root\<close>

fun normalize_loop :: "u8 list \<Rightarrow> nat \<Rightarrow> nat \<Rightarrow> u8 list option" where
  "normalize_loop name i 0 = Some []"
| "normalize_loop name i (Suc n) = do {
     c \<leftarrow> char_at name i;
     cs \<leftarrow> normalize_loop name (i + 1) n;
     Some (ascii_upper c # cs)
   }"

definition normalize_83 :: "u8 list \<Rightarrow> u8 list option" where
  "normalize_83 name = normalize_loop name 0 11"

text \<open>A slot is a sector and an index; \<open>e5\<close> is the first deleted entry seen so far.\<close>

datatype slot_scan = Sl_more "(u32 \<times> nat) option" | Sl_end "(u32 \<times> nat) option" nat | Sl_found nat

fun slot_entries :: "u8 list \<Rightarrow> u8 list \<Rightarrow> u32 \<Rightarrow> nat \<Rightarrow> nat \<Rightarrow> (u32 \<times> nat) option \<Rightarrow> slot_scan option" where
  "slot_entries name11 buf lba i 0 e5 = Some (Sl_more e5)"
| "slot_entries name11 buf lba i (Suc n) e5 = do {
     n0 \<leftarrow> peek buf (i * SIZEOF_DIRENT) 1;
     if n0 ! 0 = 0 then Some (Sl_end e5 i)
     else do {
       let e5 = (if n0 ! 0 = 0xE5 \<and> e5 = None then Some (lba, i) else e5);
       nm \<leftarrow> peek buf (i * SIZEOF_DIRENT) 11;
       if nm = name11 then Some (Sl_found i) else slot_entries name11 buf lba (i + 1) n e5
     }
   }"

text \<open>Whether the name was found, the sector and the index; \<open>None\<close> as the value is the result -1.\<close>

fun slot_sectors :: "u8 list \<Rightarrow> nat \<Rightarrow> nat \<Rightarrow> (u32 \<times> nat) option \<Rightarrow> fat \<Rightarrow> ((bool \<times> u32 \<times> nat) option \<times> fat) option" where
  "slot_sectors name11 k 0 e5 s = Some (map_option (\<lambda>(lba, i). (False, lba, i)) e5, s)"
| "slot_sectors name11 k (Suc n) e5 s = do {
     let lba = root_start_lba s + of_nat k;
     (ok, s) \<leftarrow> load_sector lba s;
     if \<not> ok then Some (None, s)
     else do {
       r \<leftarrow> slot_entries name11 (sector_buf s) lba 0 (unat (bps s div FAT_ROOT_ENTRY_SIZE)) e5;
       case r of
         Sl_found i \<Rightarrow> Some (Some (True, lba, i), s)
       | Sl_end e5 i \<Rightarrow> Some (Some (case e5 of Some (l, j) \<Rightarrow> (False, l, j) | None \<Rightarrow> (False, lba, i)), s)
       | Sl_more e5 \<Rightarrow> slot_sectors name11 (k + 1) n e5 s
     }
   }"

definition fat1216_find_slot :: "u8 list \<Rightarrow> fat \<Rightarrow> ((bool \<times> u32 \<times> nat) option \<times> fat) option" where
  "fat1216_find_slot name11 s = slot_sectors name11 0 (unat (root_sectors s)) None s"

text \<open>The entry the driver builds, with every field it does not set cleared.\<close>

definition new_dirent :: "u8 list \<Rightarrow> u32 \<Rightarrow> u32 \<Rightarrow> u8 list" where
  "new_dirent up first sz =
     (let e = blit (replicate SIZEOF_DIRENT 0) 0 up;
          e = e[DE_ATTR := FAT_ATTR_ARCHIVE];
          e = wr32at e DE_SIZE sz;
          e = wr16at e DE_CLUSTER_LO (ucast (first AND 0xFFFF))
      in wr16at e DE_CLUSTER_HI (ucast (drop_bit 16 first AND 0xFFFF)))"

definition put_dirent :: "u8 list \<Rightarrow> u32 \<Rightarrow> u32 \<Rightarrow> bool \<Rightarrow> u32 \<Rightarrow> nat \<Rightarrow> fat \<Rightarrow> (int \<times> fat) option" where
  "put_dirent up first sz found ep_lba ep_idx s = do {
     (ok, s) \<leftarrow> load_sector ep_lba s;
     if \<not> ok then Some (- 1, s)
     else do {
       buf \<leftarrow> poke (sector_buf s) (ep_idx * 32) (new_dirent up first sz);
       (ok, s) \<leftarrow> store ep_lba buf (s\<lparr>sector_buf := buf\<rparr>);
       if \<not> ok then Some (- 1, s)
       else if \<not> found \<and> ep_idx + 1 < unat (bps s div FAT_ROOT_ENTRY_SIZE) then do {
         (ok, s) \<leftarrow> load_sector ep_lba s;
         if \<not> ok then Some (- 1, s)
         else do {
           b \<leftarrow> peek (sector_buf s) ((ep_idx + 1) * 32) 1;
           if b ! 0 \<noteq> 0 then do {
             buf \<leftarrow> poke (sector_buf s) ((ep_idx + 1) * 32) (replicate SIZEOF_DIRENT 0);
             (ok, s) \<leftarrow> store ep_lba buf (s\<lparr>sector_buf := buf\<rparr>);
             Some (if ok then 0 else - 1, s)
           } else Some (0, s)
         }
       } else Some (0, s)
     }
   }"

definition fat1216_write_root :: "u8 list \<Rightarrow> u8 list \<Rightarrow> u32 \<Rightarrow> fat \<Rightarrow> (int \<times> fat) option" where
  "fat1216_write_root name_83 buf sz s = do {
     up \<leftarrow> normalize_83 name_83;
     (slot, s) \<leftarrow> fat1216_find_slot up s;
     case slot of
       None \<Rightarrow> Some (- 1, s)
     | Some (found, ep_lba, ep_idx) \<Rightarrow> do {
         s \<leftarrow> (if found then do {
                (old, s) \<leftarrow> fat_find_root name_83 s;
                (case old of Some (old_c, _) \<Rightarrow> fat1216_free_chain old_c s | None \<Rightarrow> Some s)
              } else Some s);
         let cbytes = spc s * bps s;
         if sz > 0 \<and> cbytes = 0 then None
         else do {
           let ncl = (if sz > 0 then (sz + cbytes - 1) div cbytes else 0);
           (first, s) \<leftarrow> fat1216_alloc_chain ncl s;
           case first of
             None \<Rightarrow> Some (- 1, s)
           | Some first \<Rightarrow> do {
               (r, s) \<leftarrow> (if sz > 0 then fat1216_write_bytes first buf sz s else Some (0, s));
               if r \<noteq> 0 then do { s \<leftarrow> fat1216_free_chain first s; Some (- 1, s) }
               else put_dirent up first sz found ep_lba ep_idx s
             }
         }
       }
   }"

definition fat_write_root :: "u8 list \<Rightarrow> u8 list \<Rightarrow> u32 \<Rightarrow> fat \<Rightarrow> (int \<times> fat) option" where
  "fat_write_root name_8_3 buf sz s =
     (if fs_kind s = FS_NONE then Some (- 1, s)
      else if fs_kind s = FS_EXFAT then exfat_write_root name_8_3 buf sz s
      else fat1216_write_root name_8_3 buf sz s)"

end
