(* ===== verification/Fattable.thy ===== *)
theory Fattable
  imports Fatfs
begin

text \<open>
  The allocation table of FAT12 and FAT16 as a map from clusters to entries: setting an entry changes
  that entry of the table and no other, on every copy, and reading a file follows the chain.
  The table is seen through \<open>fat_byte\<close>, the bytes of its first copy.
\<close>

named_theorems fatio \<open>transfers on a working drive\<close>

section \<open>A mounted volume on a working drive\<close>

definition fat_ok :: "fat \<Rightarrow> bool" where
  "fat_ok s \<longleftrightarrow> healthy (disk s) \<and> bytes_per_sector s = 512 \<and> length (sector_buf s) = 512
     \<and> length (fat_sector_buf s) = 512 \<and> length (fat12_2sect s) = 1024"

text \<open>The copies of the table lie within the 28-bit addresses.\<close>

definition fat_geom :: "fat \<Rightarrow> bool" where
  "fat_geom s \<longleftrightarrow> 1 \<le> unat (fat_num_fats s)
     \<and> unat (fat_start_lba s) + unat (fat_num_fats s) * unat (fat_sectors s) \<le> 2 ^ 28"

definition sec_at :: "fat \<Rightarrow> u32 \<Rightarrow> u8 list" where
  "sec_at s l = dr_data (disk s) (lba28 l)"

definition set_sec :: "u32 \<Rightarrow> u8 list \<Rightarrow> fat \<Rightarrow> fat" where
  "set_sec l b s = s\<lparr>disk := (disk s)\<lparr>dr_data := (dr_data (disk s))(lba28 l := b)\<rparr>\<rparr>"

lemma fat_okD:
  assumes "fat_ok s"
  shows "healthy (disk s)" "bytes_per_sector s = 512" "length (sector_buf s) = 512"
    "length (fat_sector_buf s) = 512" "length (fat12_2sect s) = 1024"
  using assms by (simp_all add: fat_ok_def)

lemma sec_at_length [fatio]: "fat_ok s \<Longrightarrow> length (sec_at s l) = 512"
  using healthyD(2) [OF fat_okD(1)] by (simp add: sec_at_def ATA_SECTOR_SIZE_def)

lemma read_1_ok: "fat_ok s \<Longrightarrow> ata_read_sectors l 1 (disk s) = Some (0, sec_at s l)"
  using healthyD [OF fat_okD(1), of s "lba28 l"] by (simp add: ata_read_1 sec_at_def)

lemma load_sector_ok [fatio]: "fat_ok s \<Longrightarrow> load_sector l s = Some (True, s\<lparr>sector_buf := sec_at s l\<rparr>)"
  using sec_at_length [of s l] fat_okD(3) [of s] by (simp add: load_sector_def read_1_ok blit_def)

lemma load_fat_ok [fatio]: "fat_ok s \<Longrightarrow> load_fat l s = Some (True, s\<lparr>fat_sector_buf := sec_at s l\<rparr>)"
  using sec_at_length [of s l] fat_okD(4) [of s] by (simp add: load_fat_def read_1_ok blit_def)

lemma load_12_ok [fatio]:
  "fat_ok s \<Longrightarrow> i + 512 \<le> 1024 \<Longrightarrow> load_12 l i s = Some (True, s\<lparr>fat12_2sect := blit (fat12_2sect s) i (sec_at s l)\<rparr>)"
  using sec_at_length [of s l] fat_okD(5) [of s] by (simp add: load_12_def read_1_ok poke_def)

lemma store_ok [fatio]: "fat_ok s \<Longrightarrow> store l b s = Some (True, set_sec l (take 512 b) s)"
  using healthyD [OF fat_okD(1), of s "lba28 l"]
  by (simp add: store_def ata_write_1 set_sec_def ATA_SECTOR_SIZE_def)

lemma bps_ok [fatio]: "fat_ok s \<Longrightarrow> bps s = 512"
  by (simp add: bps_def fat_okD)

lemma split_off_ok [fatio]: "fat_ok s \<Longrightarrow> split_off s x = Some (x div 512, x mod 512)"
  by (simp add: split_off_def bps_ok)

lemma sec_at_set_sec [simp]: "sec_at (set_sec l b s) l' = (if lba28 l' = lba28 l then b else sec_at s l')"
  by (simp add: sec_at_def set_sec_def)

lemma sec_at_bufs [simp]:
  "sec_at (s\<lparr>sector_buf := a\<rparr>) l = sec_at s l" "sec_at (s\<lparr>fat_sector_buf := a\<rparr>) l = sec_at s l"
  "sec_at (s\<lparr>fat12_2sect := a\<rparr>) l = sec_at s l"
  by (simp_all add: sec_at_def)

lemma fat_ok_set_sec [simp]: "fat_ok s \<Longrightarrow> length b = 512 \<Longrightarrow> fat_ok (set_sec l b s)"
  using healthy_upd [of "disk s" b "lba28 l"] by (simp add: fat_ok_def set_sec_def ATA_SECTOR_SIZE_def)

lemma fat_ok_bufs [simp]:
  "fat_ok s \<Longrightarrow> length a = 512 \<Longrightarrow> fat_ok (s\<lparr>sector_buf := a\<rparr>)"
  "fat_ok s \<Longrightarrow> length a = 512 \<Longrightarrow> fat_ok (s\<lparr>fat_sector_buf := a\<rparr>)"
  "fat_ok s \<Longrightarrow> length b = 1024 \<Longrightarrow> fat_ok (s\<lparr>fat12_2sect := b\<rparr>)"
  by (simp_all add: fat_ok_def)

lemma set_sec_fields [simp]:
  "fs_kind (set_sec l b s) = fs_kind s" "fat_start_lba (set_sec l b s) = fat_start_lba s"
  "fat_sectors (set_sec l b s) = fat_sectors s" "fat_num_fats (set_sec l b s) = fat_num_fats s"
  "is_fat12 (set_sec l b s) = is_fat12 s" "root_start_lba (set_sec l b s) = root_start_lba s"
  "root_sectors (set_sec l b s) = root_sectors s" "data_start_lba (set_sec l b s) = data_start_lba s"
  "sectors_per_cluster (set_sec l b s) = sectors_per_cluster s"
  "bytes_per_sector (set_sec l b s) = bytes_per_sector s" "fat_total_clusters (set_sec l b s) = fat_total_clusters s"
  "sector_buf (set_sec l b s) = sector_buf s" "fat_sector_buf (set_sec l b s) = fat_sector_buf s"
  "fat12_2sect (set_sec l b s) = fat12_2sect s"
  by (simp_all add: set_sec_def)

section \<open>The bytes of the table\<close>

definition fat_byte :: "fat \<Rightarrow> nat \<Rightarrow> u8" where
  "fat_byte s k = sec_at s (fat_start_lba s + of_nat (k div 512)) ! (k mod 512)"

lemma unat_div_512: "unat (x div 512 :: u32) = unat x div 512" "unat (x mod 512 :: u32) = unat x mod 512"
  by (simp_all only: unat_div unat_mod) simp_all

lemma unat_of_nat_32: "k < 2 ^ 32 \<Longrightarrow> unat (of_nat k :: u32) = k"
  by (simp add: unat_of_nat take_bit_nat_eq_self)

lemma word_div_512: "(x :: u32) div 512 = of_nat (unat x div 512)"
proof -
  have "unat x div 512 < 2 ^ 32" by (rule le_less_trans [OF div_le_dividend]) (simp add: unat_less_32)
  then have "unat (of_nat (unat x div 512) :: u32) = unat x div 512" by (rule unat_of_nat_32)
  then show ?thesis by (simp only: word_unat_eq_iff unat_div_512)
qed

lemma even_512:
  "2 * m mod 512 = 2 * (m mod 256)" "2 * m div 512 = m div 256"
  "(2 * m + 1) div 512 = m div (256 :: nat)" "(2 * m + 1) mod 512 = 2 * (m mod 256) + 1"
  using div_mult2_eq [of "2 * m" 2 256] mod_mult2_eq [of "2 * m" 2 256]
    div_mult2_eq [of "2 * m + 1" 2 256] mod_mult2_eq [of "2 * m + 1" 2 256] by simp_all

lemma take_drop_2: "i + 1 < length xs \<Longrightarrow> take 2 (drop i xs) = [xs ! i, xs ! (i + 1)]"
  by (simp add: numeral_2_eq_2 take_Suc_conv_app_nth)

lemma get_fat16:
  assumes "fat_ok s" and "\<not> is_fat12 s" and "unat c < 2 ^ 31"
  shows "get_fat_entry_fat1216 c s = Some (ucast (of_le16 (fat_byte s (2 * unat c)) (fat_byte s (2 * unat c + 1))),
    s\<lparr>fat_sector_buf := sec_at s (fat_start_lba s + of_nat (2 * unat c div 512))\<rparr>)"
proof -
  have u: "unat (c * 2) = 2 * unat c" using assms(3) by (simp add: unat_word_ariths)
  define l where "l = fat_start_lba s + of_nat (unat c div 256)"
  have o: "2 * (unat c mod 256) + 1 < length (sec_at s l)"
    unfolding sec_at_length [OF assms(1)] using mod_less_divisor [of 256 "unat c"] by linarith
  then have "peek (sec_at s l) (2 * (unat c mod 256)) 2
      = Some [sec_at s l ! (2 * (unat c mod 256)), sec_at s l ! (2 * (unat c mod 256) + 1)]"
    by (simp add: peek_def take_drop_2)
  then show ?thesis
    unfolding get_fat_entry_fat1216_def split_off_ok [OF assms(1)] word_div_512 [of "c * 2"] u fat_byte_def even_512
      l_def [symmetric] using assms(1,2)
    by (simp add: unat_div_512 u even_512 load_fat_ok rd16at_def l_def [symmetric])
qed

section \<open>The copies of the table\<close>

definition fat_lba :: "fat \<Rightarrow> nat \<Rightarrow> nat \<Rightarrow> u32" where
  "fat_lba s i k = fat_start_lba s + of_nat i * fat_sectors s + of_nat k"

lemma fat_lba_0: "fat_lba s 0 k = fat_start_lba s + of_nat k"
  by (simp add: fat_lba_def)

lemma unat_fat_lba:
  assumes "fat_geom s" and "i < unat (fat_num_fats s)" and "k < unat (fat_sectors s)"
  shows "unat (fat_lba s i k) = unat (fat_start_lba s) + i * unat (fat_sectors s) + k"
    and "unat (fat_start_lba s) + i * unat (fat_sectors s) + k < 2 ^ 28"
proof -
  have "Suc i * unat (fat_sectors s) \<le> unat (fat_num_fats s) * unat (fat_sectors s)"
    using assms(2) by (intro mult_le_mono) simp_all
  with assms show b: "unat (fat_start_lba s) + i * unat (fat_sectors s) + k < 2 ^ 28"
    by (simp add: fat_geom_def)
  then have i: "i * unat (fat_sectors s) < 2 ^ 28" "k < 2 ^ 28" by linarith+
  have "i < 256" using assms(2) unat_less_8 [of "fat_num_fats s"] by simp
  then have "unat (of_nat i :: u32) = i" "unat (of_nat k :: u32) = k" using i by (simp_all add: unat_of_nat_32)
  with b i show "unat (fat_lba s i k) = unat (fat_start_lba s) + i * unat (fat_sectors s) + k"
    by (simp add: fat_lba_def unat_word_ariths)
qed

lemma lba28_fat_lba:
  "fat_geom s \<Longrightarrow> i < unat (fat_num_fats s) \<Longrightarrow> k < unat (fat_sectors s) \<Longrightarrow> lba28 (fat_lba s i k) = fat_lba s i k"
  using unat_fat_lba [of s i k] by (intro lba28_id) simp

lemma fat_lba_inj:
  assumes "fat_geom s" and "i < unat (fat_num_fats s)" and "k < unat (fat_sectors s)"
    and "j < unat (fat_num_fats s)" and "m < unat (fat_sectors s)"
  shows "fat_lba s i k = fat_lba s j m \<longleftrightarrow> i = j \<and> k = m"
proof
  let ?n = "unat (fat_sectors s)"
  assume "fat_lba s i k = fat_lba s j m"
  then have eq: "i * ?n + k = j * ?n + m"
    using unat_fat_lba(1) [OF assms(1-3)] unat_fat_lba(1) [OF assms(1,4,5)] by simp
  have "(i * ?n + k) div ?n = i" "(j * ?n + m) div ?n = j" using assms(3,5) by simp_all
  with eq show "i = j \<and> k = m" by auto
qed simp

lemma sync_copies_ok:
  assumes "fat_ok s" and "idx = of_nat k"
  shows "\<exists>d. sync_copies idx cs s = Some (0, s\<lparr>disk := d\<rparr>) \<and> fat_ok (s\<lparr>disk := d\<rparr>)
    \<and> (\<forall>l. sec_at (s\<lparr>disk := d\<rparr>) l = (if \<exists>c \<in> set cs. lba28 l = lba28 (fat_lba s c k) then fat_sector_buf s else sec_at s l))"
  using assms(1)
proof (induction cs arbitrary: s)
  case Nil
  have "s\<lparr>disk := disk s\<rparr> = s" by simp
  with Nil show ?case by (intro exI [of _ "disk s"]) simp
next
  case (Cons c cs)
  let ?l = "fat_lba s c k"
  let ?s = "set_sec ?l (fat_sector_buf s) s"
  have len: "length (fat_sector_buf s) = 512" by (rule fat_okD(4) [OF Cons.prems])
  have st: "store (fat_start_lba s + of_nat c * fat_sectors s + idx) (fat_sector_buf s) s = Some (True, ?s)"
    using store_ok [OF Cons.prems, of _ "fat_sector_buf s"] len by (simp add: fat_lba_def assms(2))
  have ok: "fat_ok ?s" using Cons.prems len by simp
  from Cons.IH [OF ok] obtain d where "sync_copies idx cs ?s = Some (0, ?s\<lparr>disk := d\<rparr>) \<and> fat_ok (?s\<lparr>disk := d\<rparr>)
    \<and> (\<forall>l. sec_at (?s\<lparr>disk := d\<rparr>) l
      = (if \<exists>c \<in> set cs. lba28 l = lba28 (fat_lba ?s c k) then fat_sector_buf ?s else sec_at ?s l))"
    by (elim exE) (rule that)
  then have d: "sync_copies idx cs ?s = Some (0, ?s\<lparr>disk := d\<rparr>)" "fat_ok (?s\<lparr>disk := d\<rparr>)"
    and data: "\<And>l. sec_at (?s\<lparr>disk := d\<rparr>) l
      = (if \<exists>c \<in> set cs. lba28 l = lba28 (fat_lba ?s c k) then fat_sector_buf ?s else sec_at ?s l)"
    by blast+
  have s': "?s\<lparr>disk := d\<rparr> = s\<lparr>disk := d\<rparr>" by (simp add: set_sec_def)
  have "sync_copies idx (c # cs) s = Some (0, s\<lparr>disk := d\<rparr>)" using d(1) st by (simp add: s')
  moreover have "fat_lba ?s e k = fat_lba s e k" for e by (simp add: fat_lba_def)
  then have "sec_at (s\<lparr>disk := d\<rparr>) l = (if \<exists>c \<in> set (c # cs). lba28 l = lba28 (fat_lba s c k) then fat_sector_buf s else sec_at s l)"
    for l using data [of l] unfolding s' by (auto split: if_splits)
  ultimately show ?case using d(2) unfolding s' by blast
qed

text \<open>The copies agree.\<close>

definition mirrored :: "fat \<Rightarrow> bool" where
  "mirrored s \<longleftrightarrow> (\<forall>i < unat (fat_num_fats s). \<forall>k < unat (fat_sectors s). sec_at s (fat_lba s i k) = sec_at s (fat_lba s 0 k))"

definition in_fat :: "fat \<Rightarrow> u32 \<Rightarrow> bool" where
  "in_fat s l \<longleftrightarrow> (\<exists>i < unat (fat_num_fats s). \<exists>k < unat (fat_sectors s). lba28 l = fat_lba s i k)"

text \<open>The parameters of the volume.\<close>

definition same_params :: "fat \<Rightarrow> fat \<Rightarrow> bool" where
  "same_params s s' \<longleftrightarrow> fs_kind s' = fs_kind s \<and> is_fat12 s' = is_fat12 s \<and> fat_start_lba s' = fat_start_lba s
     \<and> fat_sectors s' = fat_sectors s \<and> fat_num_fats s' = fat_num_fats s \<and> data_start_lba s' = data_start_lba s
     \<and> sectors_per_cluster s' = sectors_per_cluster s \<and> root_start_lba s' = root_start_lba s
     \<and> root_sectors s' = root_sectors s \<and> fat_total_clusters s' = fat_total_clusters s"

text \<open>The table of \<open>s'\<close> is the table of \<open>s\<close> with the bytes of \<open>B\<close>, on all copies; nothing else of the drive differs.\<close>

definition fat_updated :: "fat \<Rightarrow> (nat \<Rightarrow> u8) \<Rightarrow> fat \<Rightarrow> bool" where
  "fat_updated s B s' \<longleftrightarrow> fat_ok s' \<and> fat_geom s'
     \<and> (\<forall>k < 512 * unat (fat_sectors s). fat_byte s' k = B k)
     \<and> (mirrored s \<longrightarrow> mirrored s') \<and> (\<forall>l. \<not> in_fat s l \<longrightarrow> sec_at s' l = sec_at s l)
     \<and> same_params s s'"

lemma fat_lba_cong: "same_params s s' \<Longrightarrow> fat_lba s' i k = fat_lba s i k"
  by (simp add: fat_lba_def same_params_def)

text \<open>Writing sector \<open>k\<close> of every copy with \<open>F k\<close>, where it is given.\<close>

lemma fat_updatedI:
  assumes ok: "fat_ok s'" and geom: "fat_geom s" and same: "same_params s s'"
    and secs: "\<And>i k. i < unat (fat_num_fats s) \<Longrightarrow> k < unat (fat_sectors s) \<Longrightarrow>
      sec_at s' (fat_lba s i k) = (case F k of Some b \<Rightarrow> b | None \<Rightarrow> sec_at s (fat_lba s i k))"
    and other: "\<And>l. \<not> in_fat s l \<Longrightarrow> sec_at s' l = sec_at s l"
    and B: "\<And>k. k < 512 * unat (fat_sectors s) \<Longrightarrow>
      B k = (case F (k div 512) of Some b \<Rightarrow> b ! (k mod 512) | None \<Rightarrow> fat_byte s k)"
  shows "fat_updated s B s'"
proof -
  have n: "0 < unat (fat_num_fats s)" using geom by (simp add: fat_geom_def)
  have bytes: "fat_byte s' k = B k" if k: "k < 512 * unat (fat_sectors s)" for k
  proof -
    have "k div 512 < unat (fat_sectors s)" using k by (simp add: less_mult_imp_div_less mult.commute)
    from secs [OF n this] B [OF k] same show ?thesis
      by (simp add: fat_byte_def fat_lba_0 same_params_def split: option.split)
  qed
  have mir: "mirrored s'" if m: "mirrored s"
    unfolding mirrored_def
  proof (intro allI impI)
    fix i k assume "i < unat (fat_num_fats s')" "k < unat (fat_sectors s')"
    then have i: "i < unat (fat_num_fats s)" "k < unat (fat_sectors s)" using same by (simp_all add: same_params_def)
    then have "sec_at s (fat_lba s i k) = sec_at s (fat_lba s 0 k)" using m unfolding mirrored_def by blast
    with secs [OF i] secs [OF n i(2)] show "sec_at s' (fat_lba s' i k) = sec_at s' (fat_lba s' 0 k)"
      by (simp add: fat_lba_cong [OF same] split: option.split)
  qed
  have geo: "fat_geom s'" using geom same by (simp add: fat_geom_def same_params_def)
  show ?thesis
    unfolding fat_updated_def
    by (intro conjI allI impI) (rule ok, rule geo, erule bytes, erule mir, erule other, rule same)
qed

lemma fat16_patch_bytes:
  assumes "length b = 512" and b: "b = sec_at s (fat_start_lba s + of_nat (c div 256))"
  shows "((fat_byte s)(2 * c := ucast (v :: u16), 2 * c + 1 := ucast (drop_bit 8 v))) m
    = (if m div 512 = c div 256 then blit b (2 * (c mod 256)) (le16 v) ! (m mod 512) else fat_byte s m)"
proof (cases "m div 512 = c div 256")
  case True
  define r where "r = 2 * (c mod 256)"
  have r: "r + 2 \<le> 512" unfolding r_def using mod_less_divisor [of 256 c] by linarith
  have "2 * c = 512 * (c div 256) + r" "m = 512 * (c div 256) + m mod 512"
    unfolding r_def using mult_div_mod_eq [of 256 c] mult_div_mod_eq [of 512 m] True by linarith+
  then have "(m = 2 * c) = (m mod 512 = r)" "(m = 2 * c + 1) = (m mod 512 = r + 1)" by linarith+
  moreover have "blit b r (le16 v) ! (m mod 512) = ((\<lambda>i. b ! i)(r := ucast v, r + 1 := ucast (drop_bit 8 v))) (m mod 512)"
    using r assms(1) by (auto simp: nth_blit le16_def nth_Cons' less_Suc_eq)
  ultimately show ?thesis using True by (simp add: fat_byte_def b r_def [symmetric])
next
  case False
  moreover have "2 * c div 512 = c div 256" "(2 * c + 1) div 512 = c div 256" unfolding even_512 by simp_all
  ultimately have "m \<noteq> 2 * c" "m \<noteq> 2 * c + 1" by auto
  with False show ?thesis by simp
qed

lemma fat16_set_ok:
  assumes ok: "fat_ok s" and geom: "fat_geom s" and c: "unat c < 2 ^ 31" "unat c div 256 < unat (fat_sectors s)"
  shows "\<exists>s'. fat16_set_entry c v s = Some (0, s')
    \<and> fat_updated s ((fat_byte s)(2 * unat c := ucast v, 2 * unat c + 1 := ucast (drop_bit 8 v))) s'"
proof -
  have u: "unat (c * 2) = 2 * unat c" using c(1) by (simp add: unat_word_ariths)
  define k where "k = unat c div 256"
  define r where "r = 2 * (unat c mod 256)"
  have r: "r + 2 \<le> 512" unfolding r_def using mod_less_divisor [of 256 "unat c"] by linarith
  define b where "b = sec_at s (fat_start_lba s + of_nat k)"
  define buf where "buf = blit b r (le16 v)"
  have lb: "length b = 512" and lbuf: "length buf = 512" unfolding buf_def b_def using r sec_at_length [OF ok] by simp_all
  define s1 where "s1 = s\<lparr>fat_sector_buf := buf\<rparr>"
  have ok1: "fat_ok s1" unfolding s1_def using ok lbuf by simp
  have k: "k < unat (fat_sectors s)" using c(2) by (simp add: k_def)
  have kw: "\<not> (of_nat k :: u32) \<ge> fat_sectors s"
    using k unat_less_32 [of "fat_sectors s"] by (simp add: word_le_nat_alt unat_of_nat_32)
  have fat_lba1: "fat_lba s1 i m = fat_lba s i m" for i m by (simp add: fat_lba_def s1_def)
  let ?cs = "[0..<unat (fat_num_fats s)]"
  obtain d where "sync_copies (of_nat k) ?cs s1 = Some (0, s1\<lparr>disk := d\<rparr>) \<and> fat_ok (s1\<lparr>disk := d\<rparr>)
    \<and> (\<forall>l. sec_at (s1\<lparr>disk := d\<rparr>) l = (if \<exists>c \<in> set ?cs. lba28 l = lba28 (fat_lba s1 c k) then fat_sector_buf s1 else sec_at s1 l))"
    using sync_copies_ok [OF ok1 refl, of k ?cs] by (elim exE) (rule that)
  then have d: "sync_copies (of_nat k) ?cs s1 = Some (0, s1\<lparr>disk := d\<rparr>)" "fat_ok (s1\<lparr>disk := d\<rparr>)"
    and data: "\<And>l. sec_at (s1\<lparr>disk := d\<rparr>) l = (if \<exists>c \<in> set ?cs. lba28 l = lba28 (fat_lba s1 c k) then fat_sector_buf s1 else sec_at s1 l)"
    by blast+
  have "fat16_set_entry c v s = Some (0, s1\<lparr>disk := d\<rparr>)"
    unfolding fat16_set_entry_def split_off_ok [OF ok] word_div_512 [of "c * 2"] u even_512 k_def [symmetric]
    using ok d(1) r kw lb
    by (simp add: load_fat_ok unat_div_512 u even_512 r_def [symmetric] b_def [symmetric] poke_def
        buf_def [symmetric] sync_fat_sector_index_def s1_def [symmetric])
  moreover have "fat_updated s ((fat_byte s)(2 * unat c := ucast v, 2 * unat c + 1 := ucast (drop_bit 8 v))) (s1\<lparr>disk := d\<rparr>)"
  proof (rule fat_updatedI [OF d(2) geom, where F = "[k \<mapsto> buf]"])
    fix i m assume im: "i < unat (fat_num_fats s)" "m < unat (fat_sectors s)"
    have "(\<exists>c \<in> set ?cs. lba28 (fat_lba s i m) = lba28 (fat_lba s1 c k)) \<longleftrightarrow> m = k"
      using fat_lba_inj [OF geom im _ k] im lba28_fat_lba [OF geom im] lba28_fat_lba [OF geom _ k]
      by (auto simp: fat_lba1)
    then show "sec_at (s1\<lparr>disk := d\<rparr>) (fat_lba s i m) = (case [k \<mapsto> buf] m of Some b \<Rightarrow> b | None \<Rightarrow> sec_at s (fat_lba s i m))"
      unfolding data by (simp add: s1_def)
  next
    fix l assume "\<not> in_fat s l"
    then have "\<not> (\<exists>c \<in> set ?cs. lba28 l = lba28 (fat_lba s1 c k))"
      using k lba28_fat_lba [OF geom _ k] by (auto simp: in_fat_def fat_lba1)
    then show "sec_at (s1\<lparr>disk := d\<rparr>) l = sec_at s l" unfolding data by (simp add: s1_def)
  next
    fix m assume "m < 512 * unat (fat_sectors s)"
    show "((fat_byte s)(2 * unat c := ucast v, 2 * unat c + 1 := ucast (drop_bit 8 v))) m
        = (case [k \<mapsto> buf] (m div 512) of Some b \<Rightarrow> b ! (m mod 512) | None \<Rightarrow> fat_byte s m)"
      using fat16_patch_bytes [OF lb b_def [unfolded k_def], of v m] by (simp add: buf_def r_def k_def)
  qed (simp add: s1_def same_params_def)
  ultimately show ?thesis by blast
qed

section \<open>FAT16\<close>

definition fat_entry :: "fat \<Rightarrow> u32 \<Rightarrow> u32 option" where
  "fat_entry s c = map_option fst (get_fat_entry_fat1216 c s)"

definition in_table16 :: "fat \<Rightarrow> u32 \<Rightarrow> bool" where
  "in_table16 s c \<longleftrightarrow> unat c < 2 ^ 31 \<and> unat c div 256 < unat (fat_sectors s)"

lemma fat_updatedD:
  assumes "fat_updated s B s'"
  shows "fat_ok s'" "fat_geom s'" "k < 512 * unat (fat_sectors s) \<Longrightarrow> fat_byte s' k = B k"
    "mirrored s \<Longrightarrow> mirrored s'" "\<not> in_fat s l \<Longrightarrow> sec_at s' l = sec_at s l" "same_params s s'"
  using assms by (simp_all add: fat_updated_def)

lemma fat_entry16:
  "fat_ok s \<Longrightarrow> \<not> is_fat12 s \<Longrightarrow> in_table16 s c \<Longrightarrow>
    fat_entry s c = Some (ucast (of_le16 (fat_byte s (2 * unat c)) (fat_byte s (2 * unat c + 1))))"
  by (simp add: fat_entry_def get_fat16 in_table16_def)

lemma fat16_entry_updated:
  assumes s: "fat_ok s" "\<not> is_fat12 s" and c: "in_table16 s c'"
    and up: "fat_updated s ((fat_byte s)(2 * unat c := ucast (v :: u16), 2 * unat c + 1 := ucast (drop_bit 8 v))) s'"
  shows "fat_entry s' c' = (if c' = c then Some (ucast v) else fat_entry s c')"
proof -
  have same: "\<not> is_fat12 s'" "in_table16 s' c'"
    using fat_updatedD(6) [OF up] s c by (simp_all add: same_params_def in_table16_def)
  have "2 * unat c' + 1 < 512 * unat (fat_sectors s)" using c by (auto simp: in_table16_def div_less_iff_less_mult)
  then have b: "fat_byte s' (2 * unat c') = ((fat_byte s)(2 * unat c := ucast v, 2 * unat c + 1 := ucast (drop_bit 8 v))) (2 * unat c')"
    "fat_byte s' (2 * unat c' + 1) = ((fat_byte s)(2 * unat c := ucast v, 2 * unat c + 1 := ucast (drop_bit 8 v))) (2 * unat c' + 1)"
    using fat_updatedD(3) [OF up] by simp_all
  show ?thesis
  proof (cases "c' = c")
    case True
    with b show ?thesis unfolding fat_entry16 [OF fat_updatedD(1) [OF up] same] by simp
  next
    case False
    then have "unat c' \<noteq> unat c" by (simp add: word_unat_eq_iff)
    then have "2 * unat c' + 1 \<noteq> 2 * unat c" "2 * unat c' \<noteq> 2 * unat c + 1" by presburger+
    with \<open>unat c' \<noteq> unat c\<close> b False show ?thesis
      unfolding fat_entry16 [OF fat_updatedD(1) [OF up] same] fat_entry16 [OF s c] by simp
  qed
qed

text \<open>On a working drive, setting an entry of a FAT16 table returns 0; afterwards that entry reads back as
  the value, every other entry reads as before, copies that agreed still agree, and no sector outside
  the table has changed.\<close>

theorem fat16_set_then_get:
  assumes "fat_ok s" and "fat_geom s" and "\<not> is_fat12 s" and "in_table16 s c"
  shows "\<exists>s'. fat_set_entry_fat1216 c v s = Some (0, s') \<and> fat_ok s' \<and> (mirrored s \<longrightarrow> mirrored s')
    \<and> (\<forall>c'. in_table16 s c' \<longrightarrow> fat_entry s' c' = (if c' = c then Some (ucast v) else fat_entry s c'))
    \<and> (\<forall>l. \<not> in_fat s l \<longrightarrow> sec_at s' l = sec_at s l)"
proof -
  have "unat c < 2 ^ 31" "unat c div 256 < unat (fat_sectors s)" using assms(4) by (simp_all add: in_table16_def)
  from fat16_set_ok [OF assms(1,2) this, of v] obtain s' where s': "fat16_set_entry c v s = Some (0, s')"
    and up: "fat_updated s ((fat_byte s)(2 * unat c := ucast v, 2 * unat c + 1 := ucast (drop_bit 8 v))) s'"
    by (elim exE conjE) (rule that)
  have "fat_set_entry_fat1216 c v s = Some (0, s')" using s' assms(3) by (simp add: fat_set_entry_fat1216_def)
  with fat_updatedD [OF up] fat16_entry_updated [OF assms(1,3) _ up] show ?thesis by blast
qed

section \<open>FAT12\<close>

lemma fat_masks: "(0xFF :: 'a::len word) = mask 8" "(0x0FFF :: 'a word) = mask 12" "(0xF0 :: u8) = push_bit 4 (mask 4)" "(0x0F::'a word) = mask 4"
  "(0xF0 :: u16) = push_bit 4 (mask 4)"
  by (simp_all add: mask_eq_exp_minus_1 push_bit_eq_mult)

lemma odd32: "(c :: u32) AND 1 = 0 \<longleftrightarrow> even (unat c)"
proof -
  have "c AND 1 = take_bit 1 c" by (simp add: take_bit_eq_mask mask_eq_exp_minus_1)
  then have "unat (c AND 1) = unat c mod 2" by (simp only: unsigned_take_bit_eq) (simp add: take_bit_eq_mod)
  moreover have "c AND 1 = 0 \<longleftrightarrow> unat (c AND 1) = 0" by (simp only: unat_eq_0)
  ultimately show ?thesis by (simp add: even_iff_mod_2_eq_zero)
qed

lemma patch_even: "even (unat c) \<Longrightarrow> fat12_patch c (v AND 0x0FFF) [b0, b1] = [x, y] \<Longrightarrow> of_le16 x y AND 0x0FFF = v AND 0x0FFF"
  unfolding fat12_patch_def odd32 of_le16_def fat_masks
  by (rule bit_word_eqI) (auto simp: bit_simps)

lemma patch_odd: "odd (unat c) \<Longrightarrow> fat12_patch c (v AND 0x0FFF) [b0, b1] = [x, y] \<Longrightarrow> drop_bit 4 (of_le16 x y) = v AND 0x0FFF"
  unfolding fat12_patch_def odd32 of_le16_def fat_masks
  by (rule bit_word_eqI) (auto simp: bit_simps)

lemma bit8_high: "\<not> n < 4 \<Longrightarrow> \<not> bit (b :: u8) (4 + n)"
  using bit_imp_le_length [of b "4 + n"] by auto

lemma patch_even_next: "even (unat c) \<Longrightarrow> fat12_patch c v [b0, b1] = [x, y] \<Longrightarrow> drop_bit 4 (of_le16 y z) = drop_bit 4 (of_le16 b1 z)"
  unfolding fat12_patch_def odd32 of_le16_def fat_masks
  by (rule bit_word_eqI) (auto simp: bit_simps bit8_high)

lemma patch_odd_prev: "odd (unat c) \<Longrightarrow> fat12_patch c v [b0, b1] = [x, y] \<Longrightarrow> of_le16 z x AND 0x0FFF = of_le16 z b0 AND 0x0FFF"
  unfolding fat12_patch_def odd32 of_le16_def fat_masks
  by (rule bit_word_eqI) (auto simp: bit_simps)

definition fat12_off :: "u32 \<Rightarrow> nat" where
  "fat12_off c = 3 * unat c div 2"

lemma word_fat12_off:
  assumes "unat c < 2 ^ 28"
  shows "unat (c * 3 div 2) = fat12_off c"
proof -
  have "unat (c * 3) = 3 * unat c" using assms by (simp add: unat_word_ariths)
  then show ?thesis unfolding fat12_off_def by (simp only: unat_div) simp
qed

lemma get_fat12:
  assumes "fat_ok s" and "is_fat12 s" and "unat c < 2 ^ 28" and nospan: "fat12_off c mod 512 \<noteq> 511"
  shows "fat_entry s c = (let w = of_le16 (fat_byte s (fat12_off c)) (fat_byte s (fat12_off c + 1))
    in Some (if even (unat c) then ucast (w AND 0x0FFF) else ucast (drop_bit 4 w)))"
proof -
  define k r where "k = fat12_off c div 512" and "r = fat12_off c mod 512"
  define l where "l = fat_start_lba s + of_nat k"
  have r: "r + 1 < 512" using nospan mod_less_divisor [of 512 "fat12_off c"] unfolding r_def by linarith
  have kr: "fat12_off c = 512 * k + r" by (simp add: k_def r_def)
  have d: "(fat12_off c + 1) div 512 = k" "(fat12_off c + 1) mod 512 = r + 1"
    unfolding kr using r by simp_all
  have "peek (sec_at s l) r 2 = Some [sec_at s l ! r, sec_at s l ! (r + 1)]"
    using r sec_at_length [OF assms(1), of l] by (simp add: peek_def take_drop_2)
  moreover have "unat (c * 3 div 2) = fat12_off c" by (rule word_fat12_off [OF assms(3)])
  ultimately show ?thesis
    unfolding fat_entry_def get_fat_entry_fat1216_def split_off_ok [OF assms(1)] word_div_512 [of "c * 3 div 2"]
      fat_byte_def d k_def [symmetric] r_def [symmetric] l_def [symmetric] odd32
    using assms(1,2)
    by (simp add: unat_div_512 load_fat_ok rd16at_def l_def [symmetric] k_def [symmetric] r_def [symmetric] odd32 Let_def)
qed

lemma get_fat12_span:
  assumes "fat_ok s" and "is_fat12 s" and "unat c < 2 ^ 28" and "fat12_off c mod 512 = 511"
  shows "fat_entry s c = None"
  using assms word_fat12_off [OF assms(3)] sec_at_length [OF assms(1)]
  by (simp add: fat_entry_def get_fat_entry_fat1216_def split_off_ok unat_div_512 load_fat_ok peek_def)

definition patch_secs :: "nat \<Rightarrow> bool \<Rightarrow> u8 list \<Rightarrow> nat \<Rightarrow> u8 list option" where
  "patch_secs k span b = (if span then [k \<mapsto> take 512 b, Suc k \<mapsto> take 512 (drop 512 b)] else [k \<mapsto> take 512 b])"

lemma fat12_one_copy:
  assumes "fat_ok s" and "fat_geom s" and "length b = 1024"
    and c: "c < unat (fat_num_fats s)" and k: "k < unat (fat_sectors s)" "span \<longrightarrow> Suc k < unat (fat_sectors s)"
    and s1: "s1 = set_sec (fat_lba s c k) (take 512 b) s"
    and s2: "s2 = (if span then set_sec (fat_lba s c (Suc k)) (take 512 (drop 512 b)) s1 else s1)"
  shows "fat_ok s2" and "same_params s s2"
    and "i < unat (fat_num_fats s) \<Longrightarrow> m < unat (fat_sectors s) \<Longrightarrow> sec_at s2 (fat_lba s i m)
      = (if i = c then (case patch_secs k span b m of Some x \<Rightarrow> x | None \<Rightarrow> sec_at s (fat_lba s i m)) else sec_at s (fat_lba s i m))"
    and "\<not> in_fat s l \<Longrightarrow> sec_at s2 l = sec_at s l" and "fat12_2sect s2 = fat12_2sect s"
    and "s2 = s\<lparr>disk := disk s2\<rparr>"
proof -
  show "fat_ok s2" unfolding s2 s1 using assms(1,3) by simp
  show "same_params s s2" "fat12_2sect s2 = fat12_2sect s" "s2 = s\<lparr>disk := disk s2\<rparr>"
    unfolding s2 s1 by (simp_all add: same_params_def set_sec_def)
  show "sec_at s2 l = sec_at s l" if "\<not> in_fat s l"
  proof -
    have "lba28 l \<noteq> fat_lba s c k" "span \<Longrightarrow> lba28 l \<noteq> fat_lba s c (Suc k)"
      using that c k by (auto simp: in_fat_def)
    then show ?thesis unfolding s2 s1 using k c by (simp add: lba28_fat_lba [OF assms(2)])
  qed
  show "sec_at s2 (fat_lba s i m) = (if i = c then (case patch_secs k span b m of Some x \<Rightarrow> x | None \<Rightarrow> sec_at s (fat_lba s i m)) else sec_at s (fat_lba s i m))"
    if "i < unat (fat_num_fats s)" "m < unat (fat_sectors s)"
    unfolding s2 s1 patch_secs_def using that k c
    by (simp add: lba28_fat_lba [OF assms(2)] fat_lba_inj [OF assms(2)])
qed

lemma fat12_copies_ok:
  assumes "fat_ok s" and "fat_geom s" and "fat12_2sect s = b"
    and "set cs \<subseteq> {..<unat (fat_num_fats s)}" and k: "k < unat (fat_sectors s)" "span \<longrightarrow> Suc k < unat (fat_sectors s)"
  shows "\<exists>s'. fat12_copies (of_nat k) span cs s = Some (0, s') \<and> fat_ok s' \<and> same_params s s'
    \<and> (\<forall>i m. i < unat (fat_num_fats s) \<longrightarrow> m < unat (fat_sectors s) \<longrightarrow> sec_at s' (fat_lba s i m)
        = (if i \<in> set cs then (case patch_secs k span b m of Some x \<Rightarrow> x | None \<Rightarrow> sec_at s (fat_lba s i m)) else sec_at s (fat_lba s i m)))
    \<and> (\<forall>l. \<not> in_fat s l \<longrightarrow> sec_at s' l = sec_at s l)"
  using assms
proof (induction cs arbitrary: s)
  case Nil
  then show ?case by (simp add: same_params_def)
next
  case (Cons c cs)
  have len: "length b = 1024" using fat_okD(5) [OF Cons.prems(1)] Cons.prems(3) by simp
  have c: "c < unat (fat_num_fats s)" using Cons.prems(4) by simp
  define s1 where "s1 = set_sec (fat_lba s c k) (take 512 b) s"
  define s2 where "s2 = (if span then set_sec (fat_lba s c (Suc k)) (take 512 (drop 512 b)) s1 else s1)"
  note one = fat12_one_copy [OF Cons.prems(1,2) len c Cons.prems(5,6) s1_def s2_def]
  have ok1: "fat_ok s1" unfolding s1_def using Cons.prems(1) len by simp
  have p: "fat_lba s2 i m = fat_lba s i m" for i m by (rule fat_lba_cong [OF one(2)])
  have par: "fat_num_fats s2 = fat_num_fats s" "fat_sectors s2 = fat_sectors s"
    using one(2) by (simp_all add: same_params_def)
  have geom2: "fat_geom s2" using Cons.prems(2) one(2) by (simp add: fat_geom_def same_params_def)
  have inf: "in_fat s2 l = in_fat s l" for l by (simp add: in_fat_def par p)
  have st1: "store (fat_start_lba s + of_nat c * fat_sectors s + of_nat k) (fat12_2sect s) s = Some (True, s1)"
    using store_ok [OF Cons.prems(1)] Cons.prems(3) by (simp add: s1_def fat_lba_def)
  have st2: "store (fat_start_lba s + of_nat c * fat_sectors s + of_nat k + 1) (drop (unat (bps s1)) (fat12_2sect s1)) s1 = Some (True, s2)" if span
  proof -
    have "fat_start_lba s + of_nat c * fat_sectors s + of_nat k + 1 = fat_lba s c (Suc k)"
      by (simp add: fat_lba_def)
    moreover have "fat12_2sect s1 = b" using Cons.prems(3) by (simp add: s1_def)
    ultimately show ?thesis using store_ok [OF ok1] that by (simp only: bps_ok [OF ok1] s2_def if_True) simp
  qed
  have "fat12_copies (of_nat k) span (c # cs) s = fat12_copies (of_nat k) span cs s2"
    using st1 st2 by (cases span) (simp_all add: Let_def s2_def)
  moreover have "\<exists>s'. fat12_copies (of_nat k) span cs s2 = Some (0, s') \<and> fat_ok s' \<and> same_params s2 s'
    \<and> (\<forall>i m. i < unat (fat_num_fats s2) \<longrightarrow> m < unat (fat_sectors s2) \<longrightarrow> sec_at s' (fat_lba s2 i m)
        = (if i \<in> set cs then (case patch_secs k span b m of Some x \<Rightarrow> x | None \<Rightarrow> sec_at s2 (fat_lba s2 i m)) else sec_at s2 (fat_lba s2 i m)))
    \<and> (\<forall>l. \<not> in_fat s2 l \<longrightarrow> sec_at s' l = sec_at s2 l)"
    using Cons.prems one(5) by (intro Cons.IH one(1) geom2) (simp_all add: par)
  then obtain s' where s': "fat12_copies (of_nat k) span cs s2 = Some (0, s')" "fat_ok s'" "same_params s2 s'"
    and dat: "\<forall>i m. i < unat (fat_num_fats s) \<longrightarrow> m < unat (fat_sectors s) \<longrightarrow> sec_at s' (fat_lba s i m)
        = (if i \<in> set cs then (case patch_secs k span b m of Some x \<Rightarrow> x | None \<Rightarrow> sec_at s2 (fat_lba s i m)) else sec_at s2 (fat_lba s i m))"
    and oth: "\<forall>l. \<not> in_fat s l \<longrightarrow> sec_at s' l = sec_at s2 l"
    unfolding par p inf by (elim exE conjE) (rule that)
  moreover have "same_params s s'" using one(2) s'(3) by (simp add: same_params_def)
  moreover have "sec_at s' (fat_lba s i m)
        = (if i \<in> set (c # cs) then (case patch_secs k span b m of Some x \<Rightarrow> x | None \<Rightarrow> sec_at s (fat_lba s i m)) else sec_at s (fat_lba s i m))"
    if "i < unat (fat_num_fats s)" "m < unat (fat_sectors s)" for i m
    using dat [rule_format, OF that] one(3) [OF that] by (cases "patch_secs k span b m"; cases "i = c"; simp)
  moreover have "sec_at s' l = sec_at s l" if "\<not> in_fat s l" for l
    using oth that one(4) [OF that] by simp
  ultimately show ?case by (intro exI [of _ s']) simp
qed

definition in_table12 :: "fat \<Rightarrow> u32 \<Rightarrow> bool" where
  "in_table12 s c \<longleftrightarrow> unat c < 2 ^ 28 \<and> fat12_off c + 1 < 512 * unat (fat_sectors s)"

lemma fat12_patch_length: "length (fat12_patch c v b) = 2"
  by (simp add: fat12_patch_def)

definition patched :: "fat \<Rightarrow> u32 \<Rightarrow> u16 \<Rightarrow> nat \<Rightarrow> u8" where
  "patched s c v = (let k = fat12_off c; b = fat12_patch c (v AND 0x0FFF) [fat_byte s k, fat_byte s (k + 1)]
     in (fat_byte s)(k := b ! 0, k + 1 := b ! 1))"

text \<open>The one or two sectors the driver reads into its buffer, from sector \<open>k\<close> on.\<close>

definition fat12_window :: "fat \<Rightarrow> nat \<Rightarrow> bool \<Rightarrow> u8 list" where
  "fat12_window s k span = (let t = blit (fat12_2sect s) 0 (sec_at s (fat_lba s 0 k))
     in if span then blit t 512 (sec_at s (fat_lba s 0 (Suc k))) else t)"

definition win_len :: "bool \<Rightarrow> nat" where
  "win_len span = (if span then 1024 else 512)"

lemma fat_byte_sector: "i < 512 \<Longrightarrow> fat_byte s (512 * k + i) = sec_at s (fat_lba s 0 k) ! i"
  by (simp add: fat_byte_def fat_lba_0)

lemma fat12_window_length: "fat_ok s \<Longrightarrow> length (fat12_window s k span) = 1024"
  by (simp add: fat12_window_def Let_def fat_okD sec_at_length)

lemma fat12_window_nth:
  assumes "fat_ok s" and "i < win_len span"
  shows "fat12_window s k span ! i = fat_byte s (512 * k + i)"
proof (cases "i < 512")
  case True
  then show ?thesis
    by (simp add: fat_byte_sector fat12_window_def Let_def nth_blit fat_okD [OF assms(1)] sec_at_length [OF assms(1)])
next
  case False
  then obtain j where j: "i = 512 + j" by (metis le_iff_add not_less)
  then have "span" "j < 512" using assms(2) by (simp_all add: win_len_def split: if_splits)
  moreover have "512 * k + i = 512 * Suc k + j" by (simp add: j)
  then have "fat_byte s (512 * k + i) = fat_byte s (512 * Suc k + j)" by (rule arg_cong)
  ultimately show ?thesis
    by (simp add: fat_byte_sector [of j s "Suc k"] j fat12_window_def Let_def nth_blit fat_okD [OF assms(1)] sec_at_length [OF assms(1)]
        del: mult_Suc_right)
qed

lemma fat12_window_load:
  assumes "fat_ok s"
  obtains s0 where "load_12 (fat_start_lba s + of_nat k) 0 s = Some (True, s0)"
    and "(if span then load_12 (fat_start_lba s0 + of_nat k + 1) (unat (bps s0)) s0 else Some (True, s0))
      = Some (True, s\<lparr>fat12_2sect := fat12_window s k span\<rparr>)"
proof -
  define t where "t = blit (fat12_2sect s) 0 (sec_at s (fat_lba s 0 k))"
  define s0 where "s0 = s\<lparr>fat12_2sect := t\<rparr>"
  have ok0: "fat_ok s0" unfolding s0_def using assms by (simp add: t_def fat_okD sec_at_length)
  have a1: "fat_start_lba s + of_nat k + 1 = fat_lba s 0 (Suc k)" by (simp add: fat_lba_def)
  show ?thesis
  proof (rule that)
    show "load_12 (fat_start_lba s + of_nat k) 0 s = Some (True, s0)"
      using load_12_ok [OF assms, of 0] by (simp add: s0_def t_def fat_lba_0)
    have "load_12 (fat_lba s 0 (Suc k)) 512 s0 = Some (True, s\<lparr>fat12_2sect := blit t 512 (sec_at s (fat_lba s 0 (Suc k)))\<rparr>)"
      using load_12_ok [OF ok0, of 512] by (simp add: s0_def)
    then show "(if span then load_12 (fat_start_lba s0 + of_nat k + 1) (unat (bps s0)) s0 else Some (True, s0))
      = Some (True, s\<lparr>fat12_2sect := fat12_window s k span\<rparr>)"
      using a1 by (simp add: bps_ok [OF ok0] fat12_window_def t_def [symmetric]) (simp add: s0_def)
  qed
qed

text \<open>The bytes of the table when the buffer is written back.\<close>

lemma patch_secs_bytes:
  assumes "length b = 1024"
  shows "(case patch_secs k span b (m div 512) of Some x \<Rightarrow> x ! (m mod 512) | None \<Rightarrow> y)
    = (if 512 * k \<le> m \<and> m < 512 * k + win_len span then b ! (m - 512 * k) else y)"
proof -
  define i where "i = m mod 512"
  have i: "i < 512" by (simp add: i_def)
  have m: "m = 512 * (m div 512) + i" by (simp add: i_def)
  consider (first) "m div 512 = k" | (second) "m div 512 = Suc k" | (other) "m div 512 < k \<or> Suc k < m div 512"
    by linarith
  then show ?thesis
  proof cases
    case first
    with m have "m = 512 * k + i" by simp
    with first i assms show ?thesis unfolding i_def [symmetric] by (simp add: patch_secs_def win_len_def)
  next
    case second
    with m have "m = 512 * k + (512 + i)" by simp
    with second i assms show ?thesis unfolding i_def [symmetric] by (simp add: patch_secs_def win_len_def)
  next
    case other
    then have "\<not> (512 * k \<le> m \<and> m < 512 * k + 1024)" using m i by linarith
    with other show ?thesis by (auto simp: patch_secs_def win_len_def)
  qed
qed

text \<open>The two bytes of the entry as the code sees them, in the window of one or two sectors it patches.\<close>

definition patched_window :: "fat \<Rightarrow> u32 \<Rightarrow> u16 \<Rightarrow> u8 list" where
  "patched_window s c v =
     (let k = fat12_off c div 512; r = fat12_off c mod 512
      in blit (fat12_window s k (r = 511)) r
           (fat12_patch c (v AND 0x0FFF) [fat_byte s (fat12_off c), fat_byte s (fat12_off c + 1)]))"

lemma fat12_set_run:
  fixes v :: u16
  assumes ok: "fat_ok s" and c28: "unat c < 2 ^ 28"
  defines "k \<equiv> fat12_off c div 512" and "r \<equiv> fat12_off c mod 512"
  defines "b \<equiv> patched_window s c v" and "span \<equiv> r = 511"
  assumes copies: "fat12_copies (of_nat k) span (0 # [1..<unat (fat_num_fats s)]) (s\<lparr>fat12_2sect := b\<rparr>) = Some (0, s')"
  shows "fat12_set_entry c v s = Some (0, s')"
proof -
  define w where "w = fat12_window s k span"
  define p where "p = fat12_patch c (v AND 0x0FFF) [fat_byte s (fat12_off c), fat_byte s (fat12_off c + 1)]"
  have lp: "length p = 2" by (simp add: p_def fat12_patch_length)
  have r: "r < 512" by (simp add: r_def)
  then have win: "r + 1 < win_len span" by (simp add: win_len_def span_def)
  have kr: "fat12_off c = 512 * k + r" by (simp add: k_def r_def)
  have lw: "length w = 1024" unfolding w_def by (rule fat12_window_length [OF ok])
  have wn: "w ! i = fat_byte s (512 * k + i)" if "i < win_len span" for i
    unfolding w_def by (rule fat12_window_nth [OF ok that])
  have b_def: "b = blit w r p"
    by (simp add: assms(5) patched_window_def Let_def w_def p_def k_def r_def span_def)
  define R where "R = (c * 3 div 2) mod 512"
  have uR: "unat R = r" unfolding R_def unat_div_512 word_fat12_off [OF c28] r_def ..
  have "unat (R + 1) = r + 1" using uR r by (simp add: unat_word_ariths)
  then have sp: "(R + 1 \<ge> 512) = span" using r by (auto simp: word_le_nat_alt span_def)
  have split: "split_off s (c * 3 div 2) = Some (of_nat k, R)"
    unfolding split_off_ok [OF ok] word_div_512 word_fat12_off [OF c28] k_def R_def ..
  obtain s0 where ld1: "load_12 (fat_start_lba s + of_nat k) 0 s = Some (True, s0)"
    and ld2: "(if span then load_12 (fat_start_lba s0 + of_nat k + 1) (unat (bps s0)) s0 else Some (True, s0))
      = Some (True, s\<lparr>fat12_2sect := w\<rparr>)"
    unfolding w_def by (rule fat12_window_load [OF ok])
  have pk: "peek w r 2 = Some [fat_byte s (fat12_off c), fat_byte s (fat12_off c + 1)]"
    using r lw win wn [of r] wn [of "r + 1"] by (simp add: peek_def take_drop_2 kr)
  have po: "poke w r p = Some b" using r lw lp by (simp add: poke_def b_def)
  show ?thesis
    unfolding fat12_set_entry_def Let_def split Option.bind.bind_lunit prod.case bps_ok [OF ok] sp ld1 simp_thms if_False ld2
    using pk po copies by (simp add: uR p_def)
qed

lemma patched_window_bytes:
  fixes c :: u32 and v :: u16
  assumes ok: "fat_ok s"
  defines "k \<equiv> fat12_off c div 512" and "r \<equiv> fat12_off c mod 512"
  shows "length (patched_window s c v) = 1024"
    and "patched s c v m = (case patch_secs k (r = 511) (patched_window s c v) (m div 512) of
      Some x \<Rightarrow> x ! (m mod 512) | None \<Rightarrow> fat_byte s m)"
proof -
  define span where "span = (r = 511)"
  define w where "w = fat12_window s k span"
  define p where "p = fat12_patch c (v AND 0x0FFF) [fat_byte s (fat12_off c), fat_byte s (fat12_off c + 1)]"
  have kr: "fat12_off c = 512 * k + r" and r: "r < 512" by (simp_all add: k_def r_def)
  then have win: "r + 1 < win_len span" by (simp add: win_len_def span_def)
  have lw: "length w = 1024" unfolding w_def by (rule fat12_window_length [OF ok])
  have lp: "length p = 2" by (simp add: p_def fat12_patch_length)
  have b: "patched_window s c v = blit w r p"
    by (simp add: patched_window_def Let_def w_def p_def k_def r_def span_def)
  show lb: "length (patched_window s c v) = 1024" unfolding b using lw lp r by simp
  have wn: "w ! i = fat_byte s (512 * k + i)" if "i < win_len span" for i
    unfolding w_def by (rule fat12_window_nth [OF ok that])
  have pt: "patched s c v m = (if m = fat12_off c then p ! 0 else if m = fat12_off c + 1 then p ! 1 else fat_byte s m)"
    by (simp add: patched_def Let_def p_def)
  have bi: "patched_window s c v ! i = (if i = r then p ! 0 else if i = r + 1 then p ! 1 else w ! i)" if "i < 1024" for i
    using that lw lp r by (auto simp: b nth_blit)
  have "win_len span \<le> 1024" by (simp add: win_len_def)
  then show "patched s c v m = (case patch_secs k (r = 511) (patched_window s c v) (m div 512) of
      Some x \<Rightarrow> x ! (m mod 512) | None \<Rightarrow> fat_byte s m)"
    unfolding span_def [symmetric] patch_secs_bytes [OF lb] pt kr
    using bi [of "m - 512 * k"] wn [of "m - 512 * k"] win by auto
qed

lemma fat12_set_ok:
  assumes ok: "fat_ok s" and geom: "fat_geom s" and c: "in_table12 s c"
  shows "\<exists>s'. fat12_set_entry c v s = Some (0, s') \<and> fat_updated s (patched s c v) s'"
proof -
  define k r where "k = fat12_off c div 512" and "r = fat12_off c mod 512"
  have kr: "fat12_off c = 512 * k + r" and r: "r < 512" by (simp_all add: k_def r_def)
  define span where "span = (r = 511)"
  have c28: "unat c < 2 ^ 28" using c by (simp add: in_table12_def)
  have k: "k < unat (fat_sectors s)" and k1: "span \<longrightarrow> Suc k < unat (fat_sectors s)"
    using c kr unfolding in_table12_def span_def by auto
  define b where "b = patched_window s c v"
  have lb: "length b = 1024" unfolding b_def by (rule patched_window_bytes(1) [OF ok])
  define s1 where "s1 = s\<lparr>fat12_2sect := b\<rparr>"
  have ok1: "fat_ok s1" and same1: "same_params s s1" unfolding s1_def using ok lb by (simp_all add: same_params_def)
  have geom1: "fat_geom s1" using geom by (simp add: s1_def fat_geom_def)
  have lba1: "fat_lba s1 i m = fat_lba s i m" for i m by (simp add: fat_lba_def s1_def)
  have inf: "in_fat s1 l = in_fat s l" for l unfolding in_fat_def lba1 by (simp add: s1_def)
  have par1: "fat_num_fats s1 = fat_num_fats s" "fat_sectors s1 = fat_sectors s" by (simp_all add: s1_def)
  define cs where "cs = 0 # [1..<unat (fat_num_fats s)]"
  have cs: "set cs = {..<unat (fat_num_fats s)}" using geom by (auto simp: cs_def fat_geom_def)
  have sect: "fat12_2sect s1 = b" by (simp add: s1_def)
  have in1: "set cs \<subseteq> {..<unat (fat_num_fats s1)}" using cs by (simp add: par1)
  obtain s' where s': "fat12_copies (of_nat k) span cs s1 = Some (0, s')" "fat_ok s'" "same_params s1 s'"
    and dat: "\<forall>i m. i < unat (fat_num_fats s1) \<longrightarrow> m < unat (fat_sectors s1) \<longrightarrow> sec_at s' (fat_lba s1 i m)
        = (if i \<in> set cs then (case patch_secs k span b m of Some x \<Rightarrow> x | None \<Rightarrow> sec_at s1 (fat_lba s1 i m)) else sec_at s1 (fat_lba s1 i m))"
    and oth: "\<forall>l. \<not> in_fat s1 l \<longrightarrow> sec_at s' l = sec_at s1 l"
    using fat12_copies_ok [OF ok1 geom1 sect in1 k [folded par1(2)] k1 [folded par1(2)]]
    by (elim exE conjE) (rule that)
  have "fat_updated s (patched s c v) s'"
  proof (rule fat_updatedI [OF s'(2) geom, where F = "patch_secs k span b"])
    show "same_params s s'" using same1 s'(3) by (simp add: same_params_def)
    show "sec_at s' (fat_lba s i m) = (case patch_secs k span b m of Some x \<Rightarrow> x | None \<Rightarrow> sec_at s (fat_lba s i m))"
      if "i < unat (fat_num_fats s)" "m < unat (fat_sectors s)" for i m
      using dat that cs unfolding lba1 par1 by (simp add: s1_def split: option.split)
    show "sec_at s' l = sec_at s l" if "\<not> in_fat s l" for l
      using oth that unfolding inf by (simp add: s1_def)
    show "patched s c v m = (case patch_secs k span b (m div 512) of Some x \<Rightarrow> x ! (m mod 512) | None \<Rightarrow> fat_byte s m)" for m
      unfolding b_def k_def span_def r_def by (rule patched_window_bytes(2) [OF ok])
  qed
  moreover have "fat12_set_entry c v s = Some (0, s')"
    using s'(1) unfolding b_def cs_def s1_def k_def span_def r_def by (rule fat12_set_run [OF ok c28])
  ultimately show ?thesis by blast
qed

lemma fat12_off_parity:
  "even (n :: nat) \<Longrightarrow> 3 * n div 2 = 3 * (n div 2)" "odd n \<Longrightarrow> 3 * n div 2 = 3 * (n div 2) + 1"
  by (presburger, presburger)

text \<open>The two bytes of an entry after a neighbour is set: they keep the entry.\<close>

lemma patched_entry:
  assumes "unat c' \<noteq> unat c"
  shows "(if even (unat c')
      then of_le16 (patched s c v (fat12_off c')) (patched s c v (fat12_off c' + 1)) AND 0x0FFF
      else drop_bit 4 (of_le16 (patched s c v (fat12_off c')) (patched s c v (fat12_off c' + 1))))
    = (if even (unat c')
      then of_le16 (fat_byte s (fat12_off c')) (fat_byte s (fat12_off c' + 1)) AND 0x0FFF
      else drop_bit 4 (of_le16 (fat_byte s (fat12_off c')) (fat_byte s (fat12_off c' + 1))))"
proof -
  let ?k = "fat12_off c" and ?k' = "fat12_off c'"
  define p where "p = fat12_patch c (v AND 0x0FFF) [fat_byte s ?k, fat_byte s (?k + 1)]"
  have p2: "p = [p ! 0, p ! 1]"
    using fat12_patch_length [of c "v AND 0x0FFF"] by (auto simp: p_def list_eq_iff_nth_eq less_Suc_eq numeral_2_eq_2)
  have pe: "fat12_patch c (v AND 0x0FFF) [fat_byte s ?k, fat_byte s (?k + 1)] = [p ! 0, p ! 1]"
    using p2 by (simp add: p_def)
  have pt: "patched s c v m = (if m = ?k then p ! 0 else if m = ?k + 1 then p ! 1 else fat_byte s m)" for m
    by (simp add: patched_def Let_def p_def)
  consider "even (unat c)" "odd (unat c')" "?k' = ?k + 1" | "odd (unat c)" "even (unat c')" "?k' + 1 = ?k"
    | "?k' \<noteq> ?k" "?k' \<noteq> ?k + 1" "?k' + 1 \<noteq> ?k" "?k' + 1 \<noteq> ?k + 1"
    using assms unfolding fat12_off_def by (cases "even (unat c)"; cases "even (unat c')") (auto simp: fat12_off_parity elim!: evenE oddE; presburger)+
  then show ?thesis
  proof cases
    case 1
    have "patched s c v (?k + 1) = p ! 1" "patched s c v (?k + 1 + 1) = fat_byte s (?k + 1 + 1)"
      unfolding pt by simp_all
    with 1(2) show ?thesis unfolding 1(3) using patch_even_next [OF 1(1) pe, of "fat_byte s (?k + 1 + 1)"] by simp
  next
    case 2
    have "patched s c v ?k' = fat_byte s ?k'" "patched s c v (?k' + 1) = p ! 0"
      unfolding pt using 2(3) by simp_all
    with 2(2) show ?thesis using patch_odd_prev [OF 2(1) pe, of "fat_byte s ?k'"] unfolding 2(3) by simp
  next
    case 3
    then show ?thesis unfolding pt by simp
  qed
qed

lemma patched_self:
  "(if even (unat c)
      then of_le16 (patched s c v (fat12_off c)) (patched s c v (fat12_off c + 1)) AND 0x0FFF
      else drop_bit 4 (of_le16 (patched s c v (fat12_off c)) (patched s c v (fat12_off c + 1)))) = v AND 0x0FFF"
proof -
  define p where "p = fat12_patch c (v AND 0x0FFF) [fat_byte s (fat12_off c), fat_byte s (fat12_off c + 1)]"
  have "p = [p ! 0, p ! 1]"
    using fat12_patch_length [of c "v AND 0x0FFF"] by (auto simp: p_def list_eq_iff_nth_eq less_Suc_eq numeral_2_eq_2)
  then have pe: "fat12_patch c (v AND 0x0FFF) [fat_byte s (fat12_off c), fat_byte s (fat12_off c + 1)] = [p ! 0, p ! 1]"
    by (simp add: p_def)
  have "patched s c v (fat12_off c) = p ! 0" "patched s c v (fat12_off c + 1) = p ! 1"
    by (simp_all add: patched_def Let_def p_def)
  then show ?thesis using patch_even [OF _ pe] patch_odd [OF _ pe] by simp
qed

lemma fat12_entry_updated:
  assumes s: "fat_ok s" "is_fat12 s" and c': "in_table12 s c'" and up: "fat_updated s (patched s c v) s'"
  shows "fat_entry s' c' = (if c' = c \<and> fat_entry s c' \<noteq> None then Some (ucast (v AND 0x0FFF)) else fat_entry s c')"
proof -
  have same: "is_fat12 s'" using fat_updatedD(6) [OF up] s by (simp add: same_params_def)
  have c28: "unat c' < 2 ^ 28" and r: "fat12_off c' + 1 < 512 * unat (fat_sectors s)" using c' by (simp_all add: in_table12_def)
  show ?thesis
  proof (cases "fat12_off c' mod 512 = 511")
    case True
    then show ?thesis
      using get_fat12_span [OF s c28] get_fat12_span [OF fat_updatedD(1) [OF up] same c28] by simp
  next
    case False
    have b: "fat_byte s' (fat12_off c') = patched s c v (fat12_off c')" "fat_byte s' (fat12_off c' + 1) = patched s c v (fat12_off c' + 1)"
      using fat_updatedD(3) [OF up] r by simp_all
    note g = get_fat12 [OF s c28 False] get_fat12 [OF fat_updatedD(1) [OF up] same c28 False]
    show ?thesis
    proof (cases "c' = c")
      case True
      show ?thesis
        unfolding g b Let_def using patched_self [of c s v] True by (auto split: if_splits)
    next
      case False
      then have "unat c' \<noteq> unat c" by (simp add: word_unat_eq_iff)
      from patched_entry [OF this, of s v] False show ?thesis
        unfolding g b Let_def by (auto split: if_splits)
    qed
  qed
qed

text \<open>C8: The same for a FAT12 table, where two entries share a byte and an entry may straddle two sectors:
  setting an entry changes no other. An entry that straddles is the exception to reading back: the
  driver reads it with one sector, past the end of its buffer, so such a read has no meaning (\<open>None\<close>)
  before and after.\<close>

theorem fat12_set_then_get:
  assumes "fat_ok s" and "fat_geom s" and "is_fat12 s" and "in_table12 s c"
  shows "\<exists>s'. fat_set_entry_fat1216 c v s = Some (0, s') \<and> fat_ok s' \<and> (mirrored s \<longrightarrow> mirrored s')
    \<and> (\<forall>c'. in_table12 s c' \<longrightarrow> fat_entry s' c'
        = (if c' = c \<and> fat_entry s c \<noteq> None then Some (ucast (v AND 0x0FFF)) else fat_entry s c'))
    \<and> (\<forall>c'. in_table12 s c' \<longrightarrow> (fat_entry s c' = None) = (fat12_off c' mod 512 = 511))
    \<and> (\<forall>l. \<not> in_fat s l \<longrightarrow> sec_at s' l = sec_at s l)"
proof -
  from fat12_set_ok [OF assms(1,2,4), of v] obtain s' where s': "fat12_set_entry c v s = Some (0, s')"
    and up: "fat_updated s (patched s c v) s'"
    by (elim exE conjE) (rule that)
  have "fat_set_entry_fat1216 c v s = Some (0, s')" using s' assms(3) by (simp add: fat_set_entry_fat1216_def)
  moreover have "(fat_entry s c' = None) = (fat12_off c' mod 512 = 511)" if "in_table12 s c'" for c'
    using that get_fat12 [OF assms(1,3), of c'] get_fat12_span [OF assms(1,3), of c']
    by (cases "fat12_off c' mod 512 = 511") (simp_all add: in_table12_def Let_def)
  moreover have "fat_entry s' c' = (if c' = c \<and> fat_entry s c \<noteq> None then Some (ucast (v AND 0x0FFF)) else fat_entry s c')"
    if "in_table12 s c'" for c'
    using fat12_entry_updated [OF assms(1,3) that up] by auto
  ultimately show ?thesis using fat_updatedD(1,4,5) [OF up] by (intro exI [of _ s']) simp
qed

section \<open>A small volume\<close>

text \<open>One sector of table in two copies, one sector of root directory, 200 clusters of one sector, all zero.\<close>

definition sample16 :: fat where
  "sample16 = (fat_boot blank_drive)\<lparr>fs_kind := FS_FAT1216, fat_start_lba := 1, fat_sectors := 1, root_start_lba := 3,
     root_sectors := 1, data_start_lba := 4, sectors_per_cluster := 1, bytes_per_sector := 512, fat_num_fats := 2,
     fat_total_clusters := 200\<rparr>"

definition sample12 :: fat where
  "sample12 = sample16\<lparr>is_fat12 := True\<rparr>"

lemma sample_ok: "fat_ok sample16" "fat_geom sample16" "\<not> is_fat12 sample16" "fat_ok sample12" "fat_geom sample12" "is_fat12 sample12"
  by (simp_all add: sample16_def sample12_def fat_boot_def fat_ok_def fat_geom_def blank_drive_healthy)

lemma sec_at_sample: "sec_at sample16 l = replicate 512 0" "sec_at sample12 l = replicate 512 0"
  by (simp_all add: sec_at_def sample16_def sample12_def fat_boot_def blank_drive_def ATA_SECTOR_SIZE_def)

lemma fat_byte_sample: "fat_byte sample16 k = 0" "fat_byte sample12 k = 0"
  by (simp_all add: fat_byte_def sec_at_sample)

theorem fat16_set_then_get_witness:
  "\<exists>s'. fat_set_entry_fat1216 5 7 sample16 = Some (0, s') \<and> fat_entry s' 5 = Some 7 \<and> fat_entry s' 6 = fat_entry sample16 6"
proof -
  have t: "in_table16 sample16 5" "in_table16 sample16 6" by (simp_all add: in_table16_def sample16_def fat_boot_def)
  from fat16_set_then_get [OF sample_ok(1-3) t(1), of 7] obtain s' where
    "fat_set_entry_fat1216 5 7 sample16 = Some (0, s')"
    "\<forall>c'. in_table16 sample16 c' \<longrightarrow> fat_entry s' c' = (if c' = 5 then Some (ucast (7 :: u16)) else fat_entry sample16 c')"
    by (elim exE conjE) (rule that)
  with t show ?thesis by auto
qed

theorem fat12_set_then_get_witness:
  "\<exists>s'. fat_set_entry_fat1216 5 7 sample12 = Some (0, s') \<and> fat_entry s' 5 = Some 7 \<and> fat_entry s' 6 = fat_entry sample12 6"
proof -
  have t: "in_table12 sample12 5" "in_table12 sample12 6"
    by (simp_all add: in_table12_def fat12_off_def sample12_def sample16_def fat_boot_def)
  from fat12_set_then_get [OF sample_ok(4-6) t(1), of 7] obtain s' where
    s': "fat_set_entry_fat1216 5 7 sample12 = Some (0, s')"
    "\<forall>c'. in_table12 sample12 c' \<longrightarrow> fat_entry s' c'
      = (if c' = 5 \<and> fat_entry sample12 5 \<noteq> None then Some (ucast ((7 :: u16) AND 0x0FFF)) else fat_entry sample12 c')"
    "\<forall>c'. in_table12 sample12 c' \<longrightarrow> (fat_entry sample12 c' = None) = (fat12_off c' mod 512 = 511)"
    by (elim exE conjE) (rule that)
  have "fat_entry sample12 5 \<noteq> None" using s'(3) t(1) by (simp add: fat12_off_def)
  with s'(1,2) t show ?thesis by auto
qed

end
