(* ===== verification/Fatfile.thy ===== *)
theory Fatfile
  imports Fattable
begin

text \<open>
  Files of a FAT12/16 volume: reading along a cluster chain, the slot a new directory entry goes to,
  and what the 38-byte entry of the driver makes of a directory.
\<close>

section \<open>Reading leaves the volume alone\<close>

definition with_bufs :: "u8 list \<Rightarrow> u8 list \<Rightarrow> fat \<Rightarrow> fat" where
  "with_bufs a b s = s\<lparr>sector_buf := a, fat_sector_buf := b\<rparr>"

definition buffered :: "fat \<Rightarrow> fat \<Rightarrow> bool" where
  "buffered s s' \<longleftrightarrow> (\<exists>a b. length a = 512 \<and> length b = 512 \<and> s' = with_bufs a b s)"

lemma bufferedI: "length a = 512 \<Longrightarrow> length b = 512 \<Longrightarrow> buffered s (with_bufs a b s)"
  unfolding buffered_def by blast

lemma buffered_refl: "fat_ok s \<Longrightarrow> buffered s s"
  using bufferedI [of "sector_buf s" "fat_sector_buf s" s] by (simp add: fat_okD with_bufs_def)

lemma buffered_trans: "buffered s s1 \<Longrightarrow> buffered s1 s2 \<Longrightarrow> buffered s s2"
  unfolding buffered_def with_bufs_def by (elim exE conjE) (intro exI conjI, auto)

lemma buffered_sector: "fat_ok s \<Longrightarrow> length a = 512 \<Longrightarrow> buffered s (s\<lparr>sector_buf := a\<rparr>)"
  using bufferedI [of a "fat_sector_buf s" s] by (simp add: fat_okD with_bufs_def)

lemma buffered_fat: "fat_ok s \<Longrightarrow> length a = 512 \<Longrightarrow> buffered s (s\<lparr>fat_sector_buf := a\<rparr>)"
  using bufferedI [of "sector_buf s" a s] by (simp add: fat_okD with_bufs_def)

lemma buffered_simps:
  assumes "buffered s s'"
  shows "fat_ok s \<Longrightarrow> fat_ok s'" "disk s' = disk s" "sec_at s' l = sec_at s l" "is_fat12 s' = is_fat12 s"
    "fs_kind s' = fs_kind s" "eoc_min s' = eoc_min s" "cluster_to_lba c s' = cluster_to_lba c s"
    "sectors_per_cluster s' = sectors_per_cluster s" "fat_start_lba s' = fat_start_lba s" "root_start_lba s' = root_start_lba s"
    "root_sectors s' = root_sectors s"
  using assms unfolding buffered_def with_bufs_def
  by (auto simp: fat_ok_def sec_at_def eoc_min_def cluster_to_lba_def spc_def)

lemma get_fat_entry_buffered:
  "fat_ok s \<Longrightarrow> get_fat_entry_fat1216 c s = Some (n, s') \<Longrightarrow> buffered s s'"
  using buffered_fat [of s] sec_at_length [of s]
  by (auto simp: get_fat_entry_fat1216_def split_off_ok load_fat_ok Let_def bind_eq_Some_conv split: if_splits)

lemma fat_entry_buffered:
  assumes "fat_ok s" and "buffered s s'"
  shows "fat_entry s' c = fat_entry s c"
proof -
  have ok: "fat_ok s'" by (rule buffered_simps(1) [OF assms(2,1)])
  note b = buffered_simps [OF assms(2)]
  show ?thesis
    unfolding fat_entry_def get_fat_entry_fat1216_def
    by (simp add: split_off_ok [OF assms(1)] split_off_ok [OF ok] load_fat_ok [OF assms(1)] load_fat_ok [OF ok] b Let_def
        peek_def split: if_split)
qed

section \<open>Chains\<close>

fun chain :: "fat \<Rightarrow> u32 \<Rightarrow> u32 list \<Rightarrow> bool" where
  "chain s c [] = (c < 2 \<or> eoc_min s \<le> c)"
| "chain s c (x # xs) = (x = c \<and> 2 \<le> c \<and> c < eoc_min s \<and> (case fat_entry s c of None \<Rightarrow> False | Some n \<Rightarrow> chain s n xs))"

lemma chain_buffered: "fat_ok s \<Longrightarrow> buffered s s' \<Longrightarrow> chain s' c cs = chain s c cs"
proof (induction cs arbitrary: c)
  case (Cons x xs)
  then show ?case
    by (simp add: fat_entry_buffered [OF Cons.prems] buffered_simps(6) [OF Cons.prems(2)] split: option.split)
qed (simp add: buffered_simps(6))

definition cluster_data :: "fat \<Rightarrow> u32 \<Rightarrow> u8 list" where
  "cluster_data s c = concat (map (\<lambda>k. sec_at s (cluster_to_lba c s + of_nat k)) [0..<unat (sectors_per_cluster s)])"

lemma cluster_data_buffered: "buffered s s' \<Longrightarrow> cluster_data s' c = cluster_data s c"
  by (simp add: cluster_data_def buffered_simps)

lemma read_secs_ok:
  assumes "fat_ok s" and "length acc \<le> unat sz" and "unat sz + 512 < 2 ^ 32"
  shows "\<exists>s'. read_secs lba k n sz acc s
      = Some ((True, take (unat sz) (acc @ concat (map (\<lambda>i. sec_at s (lba + of_nat i)) [k..<k + n]))), s')
    \<and> buffered s s'"
  using assms
proof (induction n arbitrary: k acc s)
  case 0
  then show ?case using buffered_refl by simp
next
  case (Suc n)
  define rd where "rd = (of_nat (length acc) :: u32)"
  have rd: "unat rd = length acc" using Suc.prems(2,3) by (simp add: rd_def unat_of_nat_32)
  show ?case
  proof (cases "rd < sz")
    case False
    then have "length acc = unat sz" using Suc.prems(2) rd by (simp add: word_less_nat_alt)
    with False show ?thesis using buffered_refl [OF Suc.prems(1)] by (simp add: rd_def)
  next
    case True
    then have lt: "length acc < unat sz" using rd by (simp add: word_less_nat_alt)
    define b where "b = sec_at s (lba + of_nat k)"
    have lb: "length b = 512" unfolding b_def by (rule sec_at_length [OF Suc.prems(1)])
    define s1 where "s1 = s\<lparr>sector_buf := b\<rparr>"
    have bu: "buffered s s1" and ok1: "fat_ok s1"
      unfolding s1_def using buffered_sector [OF Suc.prems(1)] Suc.prems(1) lb by simp_all
    define ch where "ch = (if rd + bps s1 > sz then sz - rd else bps s1)"
    have "unat (rd + 512) = length acc + 512" using Suc.prems(2,3) rd by (simp add: unat_word_ariths)
    moreover have sub: "unat (sz - rd) = unat sz - length acc" using True rd by (simp add: unat_sub less_imp_le)
    ultimately have ch: "unat ch = min 512 (unat sz - length acc)" and nle: "\<not> ch > sz - rd"
      unfolding ch_def bps_ok [OF ok1] by (auto simp: word_less_nat_alt min_def)
    have pk: "peek (sector_buf s1) 0 (unat ch) = Some (take (unat ch) b)"
      using ch lb by (simp add: peek_def s1_def)
    have "read_secs lba k (Suc n) sz acc s = read_secs lba (k + 1) n sz (acc @ take (unat ch) b) s1"
      using True nle pk by (simp add: rd_def [symmetric] Let_def load_sector_ok [OF Suc.prems(1)] b_def [symmetric]
          s1_def [symmetric] ch_def [symmetric])
    moreover have "length (acc @ take (unat ch) b) \<le> unat sz" using ch lb lt by simp
    from Suc.IH [OF ok1 this Suc.prems(3), of "k + 1"] obtain s' where
      "read_secs lba (k + 1) n sz (acc @ take (unat ch) b) s1
        = Some ((True, take (unat sz) ((acc @ take (unat ch) b) @ concat (map (\<lambda>i. sec_at s (lba + of_nat i)) [k + 1..<k + 1 + n]))), s')"
      "buffered s1 s'"
      unfolding buffered_simps(3) [OF bu] by (elim exE conjE) (rule that)
    moreover have "[k..<k + Suc n] = k # [k + 1..<k + 1 + n]" by (simp add: upt_conv_Cons)
    moreover have "take (unat sz) ((acc @ take (unat ch) b) @ r) = take (unat sz) (acc @ b @ r)" for r
      using ch lb lt by (cases "512 \<le> unat sz - length acc") (simp_all add: min_def)
    ultimately show ?thesis using buffered_trans [OF bu] by (simp add: b_def [symmetric] del: upt_Suc)
  qed
qed

lemma read_loop_ok:
  assumes "fat_ok s" and "chain s c cs" and "length acc \<le> unat sz" and "unat sz + 512 < 2 ^ 32"
  shows "\<exists>s'. fat1216_read_loop c sz acc s
      = Some (take (unat sz) (acc @ concat (map (cluster_data s) cs)), s') \<and> buffered s s'"
  using assms
proof (induction cs arbitrary: c acc s)
  case Nil
  then have "\<not> (2 \<le> c \<and> c < eoc_min s)" by auto
  then have "fat1216_read_loop c sz acc s = Some (acc, s)" by (subst fat1216_read_loop.simps) auto
  with Nil show ?case using buffered_refl by simp
next
  case (Cons x xs)
  have rd: "unat (of_nat (length acc) :: u32) = length acc" using Cons.prems(3,4) by (simp add: unat_of_nat_32)
  from Cons.prems(2) obtain n where x: "x = c" "2 \<le> c" "c < eoc_min s" and n: "fat_entry s c = Some n" "chain s n xs"
    by (auto split: option.splits)
  show ?case
  proof (cases "(of_nat (length acc) :: u32) < sz")
    case False
    then have "length acc = unat sz" using Cons.prems(3) rd by (simp add: word_less_nat_alt)
    moreover have "fat1216_read_loop c sz acc s = Some (acc, s)" using False by (subst fat1216_read_loop.simps) simp
    ultimately show ?thesis using buffered_refl [OF Cons.prems(1)] by simp
  next
    case True
    obtain s1 where s1: "read_secs (cluster_to_lba c s) 0 (unat (sectors_per_cluster s)) sz acc s
        = Some ((True, take (unat sz) (acc @ cluster_data s c)), s1)" "buffered s s1"
      using read_secs_ok [OF Cons.prems(1,3,4), of "cluster_to_lba c s" 0 "unat (sectors_per_cluster s)"]
      by (elim exE conjE) (rule that, simp_all add: cluster_data_def)
    have ok1: "fat_ok s1" using buffered_simps(1) [OF s1(2)] Cons.prems(1) .
    have "fat_entry s1 c = Some n" using fat_entry_buffered [OF Cons.prems(1) s1(2)] n(1) by simp
    then obtain s2 where s2: "get_fat_entry_fat1216 c s1 = Some (n, s2)" by (auto simp: fat_entry_def)
    have b2: "buffered s1 s2" by (rule get_fat_entry_buffered [OF ok1 s2])
    have bu: "buffered s s2" by (rule buffered_trans [OF s1(2) b2])
    have ok2: "fat_ok s2" using buffered_simps(1) [OF bu] Cons.prems(1) .
    have ch2: "chain s2 n xs" using chain_buffered [OF Cons.prems(1) bu] n(2) by simp
    have le: "length (take (unat sz) (acc @ cluster_data s c)) \<le> unat sz" by simp
    from Cons.IH [OF ok2 ch2 le Cons.prems(4)]
    obtain s' where s': "fat1216_read_loop n sz (take (unat sz) (acc @ cluster_data s c)) s2
        = Some (take (unat sz) (take (unat sz) (acc @ cluster_data s c) @ concat (map (cluster_data s) xs)), s')" "buffered s2 s'"
      unfolding cluster_data_buffered [OF bu] by (elim exE conjE) (rule that)
    have tt: "take m (take m u @ v) = take m (u @ v)" for m and u v :: "u8 list"
      by (cases "length u \<le> m") simp_all
    have "fat1216_read_loop c sz acc s = fat1216_read_loop n sz (take (unat sz) (acc @ cluster_data s c)) s2"
      using True x(2,3) s1(1) s2 by (subst fat1216_read_loop.simps) simp
    then have "fat1216_read_loop c sz acc s = Some (take (unat sz) (acc @ concat (map (cluster_data s) (x # xs))), s')"
      unfolding s'(1) tt x(1) by (simp only: list.map concat.simps append_assoc)
    then show ?thesis using buffered_trans [OF bu s'(2)] by blast
  qed
qed

lemma sint_of_nat_32: "k < 2 ^ 31 \<Longrightarrow> sint (of_nat k :: u32) = int k"
  by (simp add: signed_of_nat signed_take_bit_int_eq_self)

text \<open>C26: Reading a file of a FAT12/16 volume on a working drive returns: the first \<open>size\<close> bytes of the clusters
  of its chain, or all of them when the chain is shorter, whatever the chain is as long as it ends. The
  drive is unchanged.\<close>

theorem fat_read_file_follows_chain:
  assumes "fat_ok s" and "fs_kind s \<noteq> FS_EXFAT" and "chain s c cs" and "unat sz < 2 ^ 31"
  shows "\<exists>s'. fat_read_file c sz s = (let dat = take (unat sz) (concat (map (cluster_data s) cs))
      in Some ((int (length dat), dat), s')) \<and> disk s' = disk s"
proof -
  have "unat sz + 512 < 2 ^ 32" using assms(4) by simp
  from read_loop_ok [OF assms(1,3) _ this, of "[]"] obtain s' where
    s': "fat1216_read_loop c sz [] s = Some (take (unat sz) (concat (map (cluster_data s) cs)), s')" "buffered s s'"
    by auto
  define dat where "dat = take (unat sz) (concat (map (cluster_data s) cs))"
  have "length dat < 2 ^ 31" using assms(4) by (simp add: dat_def)
  then have "sint (of_nat (length dat) :: u32) = int (length dat)" by (rule sint_of_nat_32)
  with s' assms(2) buffered_simps(2) [OF s'(2)] show ?thesis
    by (simp add: fat_read_file_def dat_def [symmetric] Let_def)
qed

lemma sample_entry: "c = 2 \<or> c = 3 \<Longrightarrow> fat_entry sample16 c = Some 0"
  using fat_entry16 [OF sample_ok(1,3), of c]
  by (auto simp: in_table16_def sample16_def [THEN arg_cong [of _ _ fat_sectors]] fat_byte_sample of_le16_def)

lemma sample_chain: "chain sample16 2 [2]"
  by (simp add: sample_entry eoc_min_def sample_ok)

theorem fat_read_file_follows_chain_witness: "\<exists>s'. fat_read_file 2 4 sample16 = Some ((4, [0, 0, 0, 0]), s')"
proof -
  have k: "fs_kind sample16 \<noteq> FS_EXFAT" by (simp add: sample16_def)
  have d: "cluster_data sample16 2 = replicate 512 0"
    by (simp add: cluster_data_def sec_at_sample) (simp add: sample16_def)
  have n: "unat (4 :: u32) = 4" by simp
  have t: "replicate 4 (0 :: u8) = [0, 0, 0, 0]" by (simp add: eval_nat_numeral)
  from fat_read_file_follows_chain [OF sample_ok(1) k sample_chain, of 4]
  show ?thesis unfolding n by (auto simp: d t)
qed

end
