(* ===== verification/Fatalloc.thy ===== *)
theory Fatalloc
  imports Fatfile Store
begin

text \<open>
  Allocating and freeing cluster chains of a FAT16 volume: the table seen as a map from clusters to
  entries, with the chains in it.
\<close>

section \<open>Chains are lists without repetition\<close>

lemma chain_unique: "chain s c xs \<Longrightarrow> chain s c ys \<Longrightarrow> xs = ys"
proof (induction xs arbitrary: c ys)
  case Nil
  then show ?case by (cases ys) auto
next
  case (Cons x xs)
  then show ?case by (cases ys) (auto split: option.splits)
qed

lemma chain_suffix: "chain s c (xs @ y # ys) \<Longrightarrow> chain s y (y # ys)"
proof (induction xs arbitrary: c)
  case (Cons x xs)
  from Cons.prems obtain n where "chain s n (xs @ y # ys)" by (auto split: option.splits)
  then show ?case by (rule Cons.IH)
qed auto

lemma chain_distinct: "chain s c xs \<Longrightarrow> distinct xs"
proof (induction xs arbitrary: c)
  case (Cons x xs)
  have "x \<notin> set xs"
  proof
    assume "x \<in> set xs"
    then obtain us vs where xs: "xs = us @ x # vs" by (meson split_list)
    have "x = c" using Cons.prems by simp
    have "chain s c (x # vs)" using chain_suffix [of s c "x # us" x vs] Cons.prems xs \<open>x = c\<close> by simp
    from chain_unique [OF this Cons.prems] xs show False by simp
  qed
  moreover have "distinct xs" using Cons by (auto split: option.splits)
  ultimately show ?case by simp
qed simp

lemma chain_range: "chain s c xs \<Longrightarrow> x \<in> set xs \<Longrightarrow> 2 \<le> x \<and> x < eoc_min s"
  by (induction xs arbitrary: c) (auto split: option.splits)

text \<open>A chain depends on the entries of its clusters only.\<close>

lemma fat_chain_cong:
  "chain s c xs \<Longrightarrow> eoc_min s' = eoc_min s \<Longrightarrow> (\<And>x. x \<in> set xs \<Longrightarrow> fat_entry s' x = fat_entry s x) \<Longrightarrow> chain s' c xs"
  by (induction xs arbitrary: c) (auto split: option.splits)

section \<open>FAT16 volumes\<close>

definition vol16 :: "fat \<Rightarrow> bool" where
  "vol16 s \<longleftrightarrow> fat_ok s \<and> fat_geom s \<and> \<not> is_fat12 s \<and> unat (fat_total_clusters s) + 2 \<le> 0xFFF7
     \<and> unat (fat_total_clusters s) + 1 < 256 * unat (fat_sectors s)"

definition cluster_of :: "fat \<Rightarrow> u32 \<Rightarrow> bool" where
  "cluster_of s c \<longleftrightarrow> 2 \<le> c \<and> unat c < unat (fat_total_clusters s) + 2"

lemma vol16D:
  assumes "vol16 s"
  shows "fat_ok s" "fat_geom s" "\<not> is_fat12 s" "eoc_min s = 0xFFF8"
    "cluster_of s c \<Longrightarrow> in_table16 s c" "cluster_of s c \<Longrightarrow> c < eoc_min s" "cluster_of s c \<Longrightarrow> unat c < 2 ^ 16"
  using assms by (auto simp: vol16_def eoc_min_def cluster_of_def in_table16_def word_less_nat_alt div_less_iff_less_mult)

lemma cluster_of_cong: "same_params s s' \<Longrightarrow> cluster_of s' c = cluster_of s c"
  by (simp add: cluster_of_def same_params_def)

text \<open>One entry set: what the callers of \<open>fat_set_entry_fat1216\<close> use.\<close>

lemma set_entry16:
  assumes v: "vol16 s" and c: "cluster_of s c"
  obtains s' where "fat_set_entry_fat1216 c v s = Some (0, s')" "vol16 s'" "same_params s s'"
    "\<And>c'. cluster_of s c' \<Longrightarrow> fat_entry s' c' = (if c' = c then Some (ucast v) else fat_entry s c')"
    "\<And>l. \<not> in_fat s l \<Longrightarrow> sec_at s' l = sec_at s l"
proof -
  have "unat c < 2 ^ 31" "unat c div 256 < unat (fat_sectors s)" using vol16D(5) [OF v c] by (simp_all add: in_table16_def)
  from fat16_set_ok [OF vol16D(1,2) [OF v] this, of v] obtain s' where s': "fat16_set_entry c v s = Some (0, s')"
    and up: "fat_updated s ((fat_byte s)(2 * unat c := ucast v, 2 * unat c + 1 := ucast (drop_bit 8 v))) s'"
    by (elim exE conjE) (rule that)
  note D = fat_updatedD [OF up]
  show ?thesis
  proof (rule that)
    show "fat_set_entry_fat1216 c v s = Some (0, s')" using s' vol16D(3) [OF v] by (simp add: fat_set_entry_fat1216_def)
    show "same_params s s'" by (rule D(6))
    then show "vol16 s'" using v D(1,2) by (simp add: vol16_def same_params_def)
    show "fat_entry s' c' = (if c' = c then Some (ucast v) else fat_entry s c')" if "cluster_of s c'" for c'
      by (rule fat16_entry_updated [OF vol16D(1,3) [OF v] vol16D(5) [OF v that] up])
  qed (rule D(5))
qed

text \<open>The table is a store: clusters lead to entries. Parameters and all sectors outside the table stay those
  of \<open>s0\<close>.\<close>

definition table_of :: "fat \<Rightarrow> fat \<Rightarrow> bool" where
  "table_of s0 s \<longleftrightarrow> vol16 s \<and> same_params s0 s \<and> (\<forall>l. \<not> in_fat s0 l \<longrightarrow> sec_at s l = sec_at s0 l)"

lemma table_of_refl: "vol16 s \<Longrightarrow> table_of s s"
  by (simp add: table_of_def same_params_def)

lemma in_fat_cong: "same_params s s' \<Longrightarrow> in_fat s' l = in_fat s l"
  by (simp add: in_fat_def fat_lba_cong) (simp add: same_params_def)

lemma table_of_trans: "table_of s0 s \<Longrightarrow> table_of s s' \<Longrightarrow> table_of s0 s'"
  using in_fat_cong [of s0 s] by (simp add: table_of_def same_params_def)

lemma table_ofD:
  assumes "table_of s0 s"
  shows "vol16 s" "same_params s0 s" "\<not> in_fat s0 l \<Longrightarrow> sec_at s l = sec_at s0 l" "cluster_of s c = cluster_of s0 c"
  using assms cluster_of_cong [of s0 s] by (simp_all add: table_of_def)

definition fat_put :: "u32 \<Rightarrow> u16 \<Rightarrow> fat \<Rightarrow> fat option" where
  "fat_put c v s = (case fat_set_entry_fat1216 c v s of Some (r, s') \<Rightarrow> if r = 0 then Some s' else None | None \<Rightarrow> None)"

lemma fat_put_Some: "fat_put c v s = Some s' \<longleftrightarrow> fat_set_entry_fat1216 c v s = Some (0, s')"
  by (auto simp: fat_put_def split: option.split)

interpretation fat16: total_store "table_of s0" "\<lambda>c s. if cluster_of s c then Some c else None"
  "\<lambda>c v. True" fat_put "\<lambda>c s. fat_entry s c" "\<lambda>v. Some (ucast v)" for s0
proof
  fix s c v s' m
  assume s: "table_of s0 s" and "(if cluster_of s c then Some c else None) \<noteq> None"
  then have c: "cluster_of s c" by (simp split: if_splits)
  obtain s1 where s1: "fat_set_entry_fat1216 c v s = Some (0, s1)" "vol16 s1" "same_params s s1"
    "\<And>c'. cluster_of s c' \<Longrightarrow> fat_entry s1 c' = (if c' = c then Some (ucast v) else fat_entry s c')"
    and out: "\<And>l. \<not> in_fat s l \<Longrightarrow> sec_at s1 l = sec_at s l"
    using set_entry16 [OF table_ofD(1) [OF s] c, of v] by blast
  then show "\<exists>s'. fat_put c v s = Some s'" by (simp add: fat_put_Some)
  assume "fat_put c v s = Some s'"
  then have [simp]: "s' = s1" using s1(1) by (simp add: fat_put_Some)
  show "table_of s0 s'" using table_of_trans [OF s, of s1] s1(2,3) out by (simp add: table_of_def)
  show "(if cluster_of s' m then Some m else None) = (if cluster_of s m then Some m else None)"
    using cluster_of_cong [OF s1(3)] by simp
  assume "(if cluster_of s m then Some m else None) \<noteq> None"
  with c s1(4) [of m] show "fat_entry s' m = (if (if cluster_of s m then Some m else None) = (if cluster_of s c then Some c else None)
      then Some (ucast v) else fat_entry s m)" by (simp split: if_splits)
qed

text \<open>Setting entries one after the other.\<close>

lemma puts_entries16:
  assumes "vol16 s" and "\<forall>(c, v) \<in> set ws. cluster_of s c"
  obtains s' where "fat16.puts ws s = Some s'" "table_of s s'"
    "\<And>c. cluster_of s c \<Longrightarrow> fat_entry s' c = (case map_of (rev ws) c of None \<Rightarrow> fat_entry s c | Some v \<Rightarrow> Some (ucast v))"
proof -
  have may: "fat16.may_put ws s" using assms(2) by (auto simp: fat16.may_put_def)
  obtain s' where s': "fat16.puts ws s = Some s'" "table_of s s'"
    "\<And>c. (if cluster_of s c then Some c else None) \<noteq> None \<Longrightarrow> fat_entry s' c
      = (case fat16.last_put ws s c of None \<Rightarrow> fat_entry s c | Some v \<Rightarrow> Some (ucast v))"
    by (rule fat16.puts_update [OF table_of_refl [OF assms(1)] may], rule that)
  have last: "fat16.last_put ws s c = map_of (rev ws) c" if "cluster_of s c" for c
    using assms(2) that by (induction ws) (auto simp: map_add_def split: option.splits)
  show ?thesis by (rule that [OF s'(1,2)]) (use s'(3) last in simp)
qed

lemma buffered_params: "buffered s s' \<Longrightarrow> same_params s s'"
  by (auto simp: buffered_def with_bufs_def same_params_def)

lemma buffered_vol16: "buffered s s' \<Longrightarrow> vol16 s \<Longrightarrow> vol16 s'"
  using buffered_params [of s s'] buffered_simps(1) [of s s']
  by (simp add: vol16_def fat_geom_def same_params_def)

lemma buffered_table: "buffered s s' \<Longrightarrow> vol16 s \<Longrightarrow> table_of s s'"
  using buffered_vol16 buffered_params buffered_simps(3) by (simp add: table_of_def)

lemma get_entry16:
  assumes v: "vol16 s" and c: "cluster_of s c"
  obtains n s' where "get_fat_entry_fat1216 c s = Some (n, s')" "fat_entry s c = Some n" "buffered s s'"
    "unat n < 2 ^ 16"
proof -
  from get_fat16 [OF vol16D(1,3) [OF v], of c] vol16D(5) [OF v c] obtain w s' where
    g: "get_fat_entry_fat1216 c s = Some (ucast (w :: u16), s')" by (auto simp: in_table16_def)
  show ?thesis
    by (rule that [OF g _ get_fat_entry_buffered [OF vol16D(1) [OF v] g]])
      (simp_all add: fat_entry_def g unat_less_16)
qed

section \<open>Freeing\<close>

lemma free_chain16:
  assumes "vol16 s" and "chain s c cs" and "\<And>x. x \<in> set cs \<Longrightarrow> cluster_of s x"
  shows "\<exists>s'. fat1216_free_chain c s = Some s' \<and> vol16 s' \<and> same_params s s'
    \<and> (\<forall>c'. cluster_of s c' \<longrightarrow> fat_entry s' c' = (if c' \<in> set cs then Some 0 else fat_entry s c'))"
  using assms
proof (induction cs arbitrary: c s)
  case Nil
  then have "\<not> (2 \<le> c \<and> c < eoc_min s)" by auto
  then have "fat1216_free_chain c s = Some s" by (subst fat1216_free_chain.simps) auto
  with Nil show ?case by (simp add: same_params_def)
next
  case (Cons x xs)
  from Cons.prems(2) obtain n where x: "x = c" "2 \<le> c" "c < eoc_min s" and n: "fat_entry s c = Some n" "chain s n xs"
    by (auto split: option.splits)
  have cc: "cluster_of s c" using Cons.prems(3) x(1) by simp
  from get_entry16 [OF Cons.prems(1) cc] n(1) obtain s1 where
    s1: "get_fat_entry_fat1216 c s = Some (n, s1)" "buffered s s1" by (metis option.inject)
  have v1: "vol16 s1" by (rule buffered_vol16 [OF s1(2) Cons.prems(1)])
  have par1: "same_params s s1" by (rule buffered_params [OF s1(2)])
  have e1: "fat_entry s1 k = fat_entry s k" for k by (rule fat_entry_buffered [OF vol16D(1) [OF Cons.prems(1)] s1(2)])
  obtain s2 where s2: "fat_set_entry_fat1216 c 0 s1 = Some (0, s2)" "vol16 s2" "same_params s1 s2"
    and e2: "\<And>k. cluster_of s1 k \<Longrightarrow> fat_entry s2 k = (if k = c then Some (ucast (0 :: u16)) else fat_entry s1 k)"
    using set_entry16 [OF v1, of c 0] cc cluster_of_cong [OF par1] by metis
  have par: "same_params s s2" using par1 s2(3) by (simp add: same_params_def)
  have e: "fat_entry s2 k = (if k = c then Some 0 else fat_entry s k)" if "cluster_of s k" for k
    using e2 [of k] that cluster_of_cong [OF par1] e1 by simp
  have dist: "c \<notin> set xs" using chain_distinct [OF Cons.prems(2)] x(1) by simp
  have "chain s2 n xs"
  proof (rule fat_chain_cong [OF n(2)])
    show "eoc_min s2 = eoc_min s" using par by (simp add: eoc_min_def same_params_def)
    show "fat_entry s2 k = fat_entry s k" if "k \<in> set xs" for k
      using e [of k] Cons.prems(3) [of k] that dist by auto
  qed
  moreover have "\<And>k. k \<in> set xs \<Longrightarrow> cluster_of s2 k" using Cons.prems(3) cluster_of_cong [OF par] by simp
  ultimately obtain s' where s': "fat1216_free_chain n s2 = Some s'" "vol16 s'" "same_params s2 s'"
    and e': "\<forall>k. cluster_of s2 k \<longrightarrow> fat_entry s' k = (if k \<in> set xs then Some 0 else fat_entry s2 k)"
    using Cons.IH [OF s2(2)] by metis
  have "fat1216_free_chain c s = Some s'"
    using x(2,3) s1(1) s2(1) s'(1) by (subst fat1216_free_chain.simps) simp
  moreover have "same_params s s'" using par s'(3) by (simp add: same_params_def)
  moreover have "fat_entry s' k = (if k \<in> set (x # xs) then Some 0 else fat_entry s k)" if "cluster_of s k" for k
    using e' e [OF that] that cluster_of_cong [OF par] x(1) by auto
  ultimately show ?case using s'(2) by blast
qed

text \<open>Freeing a chain of a FAT16 volume returns, clears the entry of each of its clusters and leaves every
  other entry as it was.\<close>

theorem fat_free_chain_clears:
  assumes "vol16 s" and "chain s c cs" and "\<forall>x \<in> set cs. cluster_of s x"
  shows "\<exists>s'. fat1216_free_chain c s = Some s' \<and> vol16 s'
    \<and> (\<forall>c'. cluster_of s c' \<longrightarrow> fat_entry s' c' = (if c' \<in> set cs then Some 0 else fat_entry s c'))"
proof -
  from free_chain16 [OF assms(1,2)] assms(3) show ?thesis by blast
qed

section \<open>Allocating\<close>

lemma ucast16_0: "unat (e :: u32) < 2 ^ 16 \<Longrightarrow> (ucast e :: u16) = 0 \<longleftrightarrow> e = 0"
proof -
  assume "unat e < 2 ^ 16"
  then have "unat (ucast e :: u16) = unat e" by simp
  then show ?thesis by (metis unat_eq_0)
qed

text \<open>No cluster from \<open>lo\<close> to below \<open>hi\<close> is free; the first free cluster.\<close>

definition none_free :: "fat \<Rightarrow> nat \<Rightarrow> nat \<Rightarrow> bool" where
  "none_free s lo hi \<longleftrightarrow> (\<forall>k. cluster_of s k \<longrightarrow> lo \<le> unat k \<longrightarrow> unat k < hi \<longrightarrow> fat_entry s k \<noteq> Some 0)"

definition first_free :: "fat \<Rightarrow> nat \<Rightarrow> u32 \<Rightarrow> bool" where
  "first_free s lo c \<longleftrightarrow> cluster_of s c \<and> fat_entry s c = Some 0 \<and> lo \<le> unat c \<and> none_free s lo (unat c)"

lemma first_free_unique: "first_free s lo c \<Longrightarrow> first_free s lo d \<Longrightarrow> c = d"
  unfolding first_free_def none_free_def by (metis linorder_neqE_nat word_unat_eq_iff)

lemma none_free_step:
  assumes "fat_entry s c \<noteq> Some 0" and "none_free s (Suc (unat c)) hi"
  shows "none_free s (unat c) hi"
  unfolding none_free_def
proof (intro allI impI)
  fix k assume k: "cluster_of s k" "unat c \<le> unat k" "unat k < hi"
  show "fat_entry s k \<noteq> Some 0"
  proof (cases "k = c")
    case False
    then have "unat k \<noteq> unat c" by (simp add: word_unat_eq_iff)
    with assms(2) k show ?thesis by (simp add: none_free_def)
  qed (use assms(1) in simp)
qed

lemma free_cluster_loop16:
  assumes "vol16 s" and "2 \<le> unat c" and "unat c + n = unat (fat_total_clusters s) + 2"
  shows "\<exists>r s'. free_cluster_loop c n s = Some (r, s') \<and> buffered s s'
    \<and> (r = 0 \<and> none_free s (unat c) (unat c + n) \<or> first_free s (unat c) r)"
  using assms
proof (induction n arbitrary: c s)
  case 0
  then have "buffered s s" using buffered_refl vol16D(1) by blast
  with 0 show ?case by (auto simp: none_free_def)
next
  case (Suc n)
  have cc: "cluster_of s c" using Suc.prems(2,3) by (simp add: cluster_of_def word_le_nat_alt)
  obtain e s1 where g: "get_fat_entry_fat1216 c s = Some (e, s1)" "fat_entry s c = Some e" "buffered s s1" "unat e < 2 ^ 16"
    by (rule get_entry16 [OF Suc.prems(1) cc])
  have v1: "vol16 s1" by (rule buffered_vol16 [OF g(3) Suc.prems(1)])
  have par: "same_params s s1" by (rule buffered_params [OF g(3)])
  have n12: "\<not> is_fat12 s1" by (rule vol16D(3) [OF v1])
  have e1: "fat_entry s1 k = fat_entry s k" for k by (rule fat_entry_buffered [OF vol16D(1) [OF Suc.prems(1)] g(3)])
  have u: "unat (c + 1) = Suc (unat c)"
    using vol16D(7) [OF Suc.prems(1) cc] by (simp add: unat_word_ariths)
  show ?case
  proof (cases "e = 0")
    case True
    then have "free_cluster_loop c (Suc n) s = Some (c, s1)" using g(1) n12 by (simp add: Let_def)
    moreover have "first_free s (unat c) c" using g(2) True cc by (simp add: first_free_def none_free_def)
    ultimately show ?thesis using g(3) by blast
  next
    case False
    then have "(ucast e :: u16) \<noteq> 0" using ucast16_0 [OF g(4)] by simp
    then have step: "free_cluster_loop c (Suc n) s = free_cluster_loop (c + 1) n s1" using g(1) n12 by (simp add: Let_def)
    have "unat (c + 1) + n = unat (fat_total_clusters s1) + 2" "2 \<le> unat (c + 1)"
      using Suc.prems(2,3) u par by (simp_all add: same_params_def)
    from Suc.IH [OF v1 this(2,1)] obtain r s' where r: "free_cluster_loop (c + 1) n s1 = Some (r, s')" "buffered s1 s'"
      and "r = 0 \<and> none_free s1 (unat (c + 1)) (unat (c + 1) + n) \<or> first_free s1 (unat (c + 1)) r"
      by (elim exE conjE) (rule that)
    then have "r = 0 \<and> none_free s (Suc (unat c)) (unat c + Suc n) \<or> first_free s (Suc (unat c)) r"
      by (simp add: none_free_def first_free_def e1 u cluster_of_cong [OF par])
    moreover have "fat_entry s c \<noteq> Some 0" using g(2) False by simp
    ultimately have "r = 0 \<and> none_free s (unat c) (unat c + Suc n) \<or> first_free s (unat c) r"
      using none_free_step [of s c] by (auto simp: first_free_def)
    with step r buffered_trans [OF g(3) r(2)] show ?thesis by auto
  qed
qed

lemma find_free16:
  assumes "vol16 s"
  obtains r s' where "fat1216_find_free_cluster s = Some (r, s')" "buffered s s'"
    "r = 0 \<and> (\<forall>k. cluster_of s k \<longrightarrow> fat_entry s k \<noteq> Some 0) \<or> first_free s 2 r"
proof -
  have "unat (2 + fat_total_clusters s) = unat (fat_total_clusters s) + 2"
    using assms by (simp add: vol16_def unat_word_ariths)
  then have n: "unat (2 :: u32) + (unat (2 + fat_total_clusters s) - 2) = unat (fat_total_clusters s) + 2" by simp
  from free_cluster_loop16 [OF assms _ n] obtain r s' where
    "free_cluster_loop 2 (unat (2 + fat_total_clusters s) - 2) s = Some (r, s')" "buffered s s'"
    "r = 0 \<and> none_free s 2 (unat (fat_total_clusters s) + 2) \<or> first_free s 2 r"
    unfolding n by auto
  then show ?thesis
    by (intro that) (auto simp: fat1216_find_free_cluster_def cluster_of_def none_free_def word_le_nat_alt)
qed

text \<open>What the allocation loop keeps: the clusters taken so far are a chain, they were free before, and no
  other entry has changed.\<close>

definition grown :: "fat \<Rightarrow> fat \<Rightarrow> u32 list \<Rightarrow> bool" where
  "grown s0 s cs \<longleftrightarrow> table_of s0 s \<and> (cs \<noteq> [] \<longrightarrow> chain s (hd cs) cs)
     \<and> (\<forall>x \<in> set cs. cluster_of s0 x \<and> fat_entry s0 x = Some 0 \<and> fat_entry s x \<noteq> Some 0)
     \<and> (\<forall>k. cluster_of s0 k \<longrightarrow> k \<notin> set cs \<longrightarrow> fat_entry s k = fat_entry s0 k)"

lemma chain_snoc:
  assumes "chain s c (xs @ [p])" and "eoc_min s' = eoc_min s"
    and "\<And>x. x \<in> set xs \<Longrightarrow> fat_entry s' x = fat_entry s x"
    and "fat_entry s' p = Some q" and "fat_entry s' q = Some e" and "2 \<le> q" "q < eoc_min s" and "eoc_min s \<le> e"
  shows "chain s' c (xs @ [p, q])"
  using assms(1,3)
proof (induction xs arbitrary: c)
  case Nil
  with assms show ?case by (auto split: option.splits)
next
  case (Cons x xs)
  from Cons.prems(1) obtain n where n: "fat_entry s c = Some n" "chain s n (xs @ [p])" "x = c" "2 \<le> c" "c < eoc_min s"
    by (auto split: option.splits)
  have "chain s' n (xs @ [p, q])" by (rule Cons.IH [OF n(2)]) (simp add: Cons.prems(2))
  moreover have "fat_entry s' c = Some n" using Cons.prems(2) [of x] n(1,3) by simp
  ultimately show ?case using n(3-5) assms(2) by simp
qed

text \<open>The entries the loop sets when it takes \<open>c\<close>: the last cluster so far is linked to it, and it ends the chain.\<close>

definition linked :: "u32 list \<Rightarrow> u32 \<Rightarrow> (u32 \<times> u16) list" where
  "linked cs c = (if cs = [] then [(c, 0xFFF8)] else [(last cs, ucast c), (c, 0xFFF8)])"

lemma grownD:
  assumes "grown s0 s cs"
  shows "vol16 s" "table_of s0 s" "cs \<noteq> [] \<Longrightarrow> chain s (hd cs) cs"
    "x \<in> set cs \<Longrightarrow> cluster_of s0 x" "x \<in> set cs \<Longrightarrow> fat_entry s0 x = Some 0" "x \<in> set cs \<Longrightarrow> fat_entry s x \<noteq> Some 0"
    "cluster_of s0 k \<Longrightarrow> k \<notin> set cs \<Longrightarrow> fat_entry s k = fat_entry s0 k"
    "cluster_of s c = cluster_of s0 c"
  using assms table_ofD [of s0 s] by (simp_all add: grown_def)

lemma grown_linked:
  assumes g: "grown s0 s cs" and c: "cluster_of s c" "fat_entry s c = Some 0"
    and s3: "table_of s s3"
    and e: "\<And>k. cluster_of s k \<Longrightarrow> fat_entry s3 k = (if k = c then Some 0xFFF8 else if cs \<noteq> [] \<and> k = last cs then Some c else fat_entry s k)"
  shows "grown s0 s3 (cs @ [c])"
proof -
  note G = grownD [OF g]
  have new: "c \<notin> set cs" using G(6) c(2) by auto
  have e3: "fat_entry s3 k = (if k = c then Some 0xFFF8 else if cs \<noteq> [] \<and> k = last cs then Some c else fat_entry s k)"
    if "cluster_of s0 k" for k using e that G(8) by simp
  have c0: "cluster_of s0 c" "fat_entry s0 c = Some 0" using c G(7) [OF _ new] G(8) by simp_all
  have eoc: "eoc_min s3 = eoc_min s" "eoc_min s = 0xFFF8" using vol16D(4) G(1) table_ofD(1) [OF s3] by simp_all
  have c2: "2 \<le> c" "c < 0xFFF8" using c(1) vol16D(6) [OF G(1) c(1)] eoc by (simp_all add: cluster_of_def)
  have "chain s3 (hd (cs @ [c])) (cs @ [c])"
  proof (cases cs rule: rev_cases)
    case Nil
    with c2 e3 [OF c0(1)] eoc show ?thesis by simp
  next
    case (snoc us p)
    have ch: "chain s (hd cs) (us @ [p])" using G(3) snoc by simp
    have "chain s3 (hd cs) (us @ [p, c])"
    proof (rule chain_snoc [OF ch eoc(1)])
      show "fat_entry s3 x = fat_entry s x" if "x \<in> set us" for x
        using that e3 [OF G(4), of x] new chain_distinct [OF ch] snoc by auto
      show "fat_entry s3 p = Some c" using e3 [OF G(4), of p] new snoc by auto
      show "fat_entry s3 c = Some 0xFFF8" using e3 [OF c0(1)] by simp
    qed (use c2 eoc in simp_all)
    then show ?thesis using snoc by (cases us) simp_all
  qed
  moreover have "fat_entry s3 k = fat_entry s0 k" if "cluster_of s0 k" "k \<notin> set (cs @ [c])" for k
    using e3 [OF that(1)] G(7) [OF that(1)] that(2) last_in_set [of cs] by auto
  moreover have "cluster_of s0 x \<and> fat_entry s0 x = Some 0 \<and> fat_entry s3 x \<noteq> Some 0" if "x \<in> set (cs @ [c])" for x
  proof (cases "x = c")
    case True
    then show ?thesis using c0 e3 [OF c0(1)] by simp
  next
    case False
    then have "x \<in> set cs" "c \<noteq> 0" using that c2 by auto
    then show ?thesis using G(4-6) [of x] e3 [OF G(4), of x] False by auto
  qed
  ultimately show ?thesis using table_of_trans [OF G(2) s3] by (simp add: grown_def)
qed

lemma grown_step:
  assumes g: "grown s0 s cs" and s1: "buffered s s1" and c: "cluster_of s c" "fat_entry s c = Some 0"
  obtains s3 where "fat16.puts (linked cs c) s1 = Some s3" "grown s0 s3 (cs @ [c])"
proof -
  note G = grownD [OF g]
  have e1: "fat_entry s1 k = fat_entry s k" for k by (rule fat_entry_buffered [OF vol16D(1) [OF G(1)] s1])
  have cof: "cluster_of s1 k = cluster_of s k" for k by (rule cluster_of_cong [OF buffered_params [OF s1]])
  have new: "c \<notin> set cs" using G(6) c(2) by auto
  have uc: "(ucast (ucast c :: u16) :: u32) = c" using vol16D(7) [OF G(1) c(1)] by (simp add: word_unat_eq_iff)
  have in1: "\<forall>(k, v) \<in> set (linked cs c). cluster_of s1 k"
    using c(1) G(4,8) by (auto simp: linked_def cof)
  obtain s3 where
    s3: "fat16.puts (linked cs c) s1 = Some s3" "table_of s1 s3"
    and e3: "\<And>k. cluster_of s1 k \<Longrightarrow> fat_entry s3 k
      = (case map_of (rev (linked cs c)) k of None \<Rightarrow> fat_entry s1 k | Some v \<Rightarrow> Some (ucast v))"
    by (rule puts_entries16 [OF buffered_vol16 [OF s1 G(1)] in1], rule that)
  have "fat_entry s3 k = (if k = c then Some 0xFFF8 else if cs \<noteq> [] \<and> k = last cs then Some c else fat_entry s k)"
    if "cluster_of s k" for k
    using e3 [of k] that by (simp add: cof e1 linked_def uc split: if_split)
  with grown_linked [OF g c table_of_trans [OF buffered_table [OF s1 G(1)] s3(2)]] that s3(1) show ?thesis by blast
qed

text \<open>The end of the loop when nothing is free.\<close>

lemma alloc_fails:
  assumes g: "grown s0 s cs" and f: "fat1216_find_free_cluster s = Some (0, s1)" "buffered s s1"
    and i: "i = length cs" "cs \<noteq> [] \<Longrightarrow> first = hd cs"
  obtains s' where "fat1216_alloc_loop (Suc k) i prev first s = Some (None, s')" "vol16 s'"
    "\<forall>c. cluster_of s0 c \<longrightarrow> fat_entry s' c = fat_entry s0 c"
proof -
  note G = grownD [OF g]
  have v1: "vol16 s1" by (rule buffered_vol16 [OF f(2) G(1)])
  have e1: "fat_entry s1 k = fat_entry s k" for k by (rule fat_entry_buffered [OF vol16D(1) [OF G(1)] f(2)])
  have cof: "cluster_of s1 k = cluster_of s0 k" for k
    using cluster_of_cong [OF buffered_params [OF f(2)]] G(8) by simp
  show ?thesis
  proof (cases "cs = []")
    case True
    then have "fat1216_alloc_loop (Suc k) i prev first s = Some (None, s1)" using f(1) i by simp
    with that v1 G(7) e1 True show ?thesis by simp
  next
    case False
    have "chain s1 (hd cs) cs" using G(3) False chain_buffered [OF vol16D(1) [OF G(1)] f(2)] by simp
    with free_chain16 [OF v1] G(4) cof obtain s' where s': "fat1216_free_chain (hd cs) s1 = Some s'" "vol16 s'"
      and e': "\<forall>x. cluster_of s1 x \<longrightarrow> fat_entry s' x = (if x \<in> set cs then Some 0 else fat_entry s1 x)" by metis
    have "fat1216_alloc_loop (Suc k) i prev first s = Some (None, s')" using f(1) False i s'(1) by simp
    moreover have "fat_entry s' x = fat_entry s0 x" if "cluster_of s0 x" for x
      using G(5,7) [of x] e' e1 cof that by simp
    ultimately show ?thesis using that s'(2) by blast
  qed
qed

text \<open>One turn of the loop.\<close>

lemma alloc_turn:
  assumes f: "fat1216_find_free_cluster s = Some (c, s1)" "c \<noteq> 0" and v1: "vol16 s1"
    and prev: "cs \<noteq> [] \<Longrightarrow> prev = last cs \<and> cluster_of s1 prev"
    and s3: "fat16.puts (linked cs c) s1 = Some s3" and i: "i = length cs"
  shows "fat1216_alloc_loop (Suc k) i prev first s = fat1216_alloc_loop k (i + 1) c (if i > 0 then first else c) s3"
proof (cases "cs = []")
  case True
  with s3 have "fat_set_entry_fat1216 c 0xFFF8 s1 = Some (0, s3)" by (auto simp: linked_def bind_eq_Some_conv fat_put_Some)
  with f i True vol16D(4) [OF v1] show ?thesis by simp
next
  case False
  with s3 obtain s2 where s2: "fat_put (last cs) (ucast c) s1 = Some s2" "fat_put c 0xFFF8 s2 = Some s3"
    by (auto simp: linked_def bind_eq_Some_conv)
  have "(if cluster_of s1 (last cs) then Some (last cs) else None) \<noteq> None" using prev [OF False] by auto
  from fat16.inv_put [OF table_of_refl [OF v1] _ this s2(1)] have "vol16 s2" by (simp add: table_ofD(1))
  from vol16D(4) [OF this] f i s2 False prev show ?thesis by (simp add: fat_put_Some)
qed

lemma alloc_loop16:
  assumes v0: "vol16 s0" and "grown s0 s cs" and "i = length cs"
    and "cs \<noteq> [] \<Longrightarrow> prev = last cs \<and> first = hd cs" and "0 < k + i"
  shows "\<exists>r s'. fat1216_alloc_loop k i prev first s = Some (r, s') \<and> vol16 s'
    \<and> (case r of
         None \<Rightarrow> \<forall>c. cluster_of s0 c \<longrightarrow> fat_entry s' c = fat_entry s0 c
       | Some f \<Rightarrow> \<exists>cs'. length cs' = k + i \<and> grown s0 s' cs' \<and> hd cs' = f)"
  using assms(2-)
proof (induction k arbitrary: s cs i prev first)
  case 0
  then have "vol16 s" "cs \<noteq> []" by (auto simp: grown_def table_of_def)
  with 0 show ?case by auto
next
  case (Suc k)
  note G = grownD [OF Suc.prems(1)]
  obtain c s1 where f: "fat1216_find_free_cluster s = Some (c, s1)" "buffered s s1"
    and c: "c = 0 \<and> (\<forall>k. cluster_of s k \<longrightarrow> fat_entry s k \<noteq> Some 0) \<or> first_free s 2 c"
    by (rule find_free16 [OF G(1)])
  have v1: "vol16 s1" by (rule buffered_vol16 [OF f(2) G(1)])
  show ?case
  proof (cases "c = 0")
    case True
    from Suc.prems(3) obtain s' where "fat1216_alloc_loop (Suc k) i prev first s = Some (None, s')" "vol16 s'"
      "\<forall>c. cluster_of s0 c \<longrightarrow> fat_entry s' c = fat_entry s0 c"
      by (rule alloc_fails [OF Suc.prems(1) f(1) [unfolded True] f(2) Suc.prems(2) conjunct2])
    then show ?thesis by (simp del: fat1216_alloc_loop.simps)
  next
    case False
    then have c': "cluster_of s c" "fat_entry s c = Some 0" using c by (auto simp: first_free_def)
    obtain s3 where s3: "fat16.puts (linked cs c) s1 = Some s3" "grown s0 s3 (cs @ [c])"
      by (rule grown_step [OF Suc.prems(1) f(2) c'])
    have step: "fat1216_alloc_loop (Suc k) i prev first s
        = fat1216_alloc_loop k (i + 1) c (if i > 0 then first else c) s3"
      by (rule alloc_turn [OF f(1) False v1 _ s3(1) Suc.prems(2)])
        (use Suc.prems(3) G(4,8) cluster_of_cong [OF buffered_params [OF f(2)]] in simp_all)
    have "c = last (cs @ [c]) \<and> (if i > 0 then first else c) = hd (cs @ [c])" using Suc.prems(2,3) by (cases "cs = []") simp_all
    moreover have "i + 1 = length (cs @ [c])" "0 < k + (i + 1)" using Suc.prems(2) by simp_all
    ultimately show ?thesis
      using Suc.IH [OF s3(2), of "i + 1" c "if i > 0 then first else c"] unfolding step Suc_eq_plus1 [symmetric] add_Suc_right add_Suc by simp
  qed
qed

text \<open>One cluster: the first free one.\<close>

lemma alloc_one:
  assumes "vol16 s" and "first_free s 2 c"
  obtains s' where "fat1216_alloc_chain 1 s = Some (Some c, s')" "table_of s s'" "chain s' c [c]"
proof -
  have c: "cluster_of s c" "fat_entry s c = Some 0" "2 \<le> unat c" using assms(2) by (simp_all add: first_free_def)
  obtain r s1 where f: "fat1216_find_free_cluster s = Some (r, s1)" "buffered s s1"
    and "r = 0 \<and> (\<forall>k. cluster_of s k \<longrightarrow> fat_entry s k \<noteq> Some 0) \<or> first_free s 2 r"
    by (rule find_free16 [OF assms(1)])
  with c first_free_unique [OF assms(2)] have r: "r = c" by auto
  have "grown s s []" using table_of_refl [OF assms(1)] by (simp add: grown_def)
  from grown_step [OF this f(2) c(1,2)] obtain s3 where s3: "fat16.puts (linked [] c) s1 = Some s3" "grown s s3 [c]" by auto
  have "c \<noteq> 0" using c(3) by auto
  from alloc_turn [OF f(1) [unfolded r] this buffered_vol16 [OF f(2) assms(1)] _ s3(1), of 0 0 0 0]
  have "fat1216_alloc_chain 1 s = Some (Some c, s3)" by (simp add: fat1216_alloc_chain_def)
  with that grownD(2,3) [OF s3(2)] show ?thesis by simp
qed

text \<open>C11: Allocating \<open>n > 0\<close> clusters on a FAT16 volume returns. Either it gives the first of a chain of \<open>n\<close>
  different clusters that were all free, with every other entry as it was, or it gives nothing and the table
  is as before the call.\<close>

theorem fat_alloc_chain_spec:
  assumes "vol16 s" and "n \<noteq> 0"
  shows "\<exists>r s'. fat1216_alloc_chain n s = Some (r, s') \<and> vol16 s'
    \<and> (case r of
         None \<Rightarrow> \<forall>c. cluster_of s c \<longrightarrow> fat_entry s' c = fat_entry s c
       | Some f \<Rightarrow> \<exists>cs. length cs = unat n \<and> distinct cs \<and> chain s' f cs
           \<and> (\<forall>x \<in> set cs. cluster_of s x \<and> fat_entry s x = Some 0)
           \<and> (\<forall>c. cluster_of s c \<longrightarrow> c \<notin> set cs \<longrightarrow> fat_entry s' c = fat_entry s c))"
proof -
  have g: "grown s s []" using table_of_refl [OF assms(1)] by (simp add: grown_def)
  have n: "0 < unat n" using assms(2) by (simp add: unat_gt_0)
  have "\<exists>r s'. fat1216_alloc_loop (unat n) 0 0 0 s = Some (r, s') \<and> vol16 s'
    \<and> (case r of
         None \<Rightarrow> \<forall>c. cluster_of s c \<longrightarrow> fat_entry s' c = fat_entry s c
       | Some f \<Rightarrow> \<exists>cs'. length cs' = unat n + 0 \<and> grown s s' cs' \<and> hd cs' = f)"
    using n by (intro alloc_loop16 [OF assms(1) g]) simp_all
  then obtain r s' where
    run: "fat1216_alloc_loop (unat n) 0 0 0 s = Some (r, s')" "vol16 s'"
    and res: "case r of None \<Rightarrow> \<forall>c. cluster_of s c \<longrightarrow> fat_entry s' c = fat_entry s c
       | Some f \<Rightarrow> \<exists>cs'. length cs' = unat n \<and> grown s s' cs' \<and> hd cs' = f"
    unfolding add_0_right by (elim exE conjE) (rule that)
  have "fat1216_alloc_chain n s = Some (r, s')" using run(1) assms(2) by (simp add: fat1216_alloc_chain_def)
  moreover have "\<exists>cs. length cs = unat n \<and> distinct cs \<and> chain s' f cs
      \<and> (\<forall>x \<in> set cs. cluster_of s x \<and> fat_entry s x = Some 0)
      \<and> (\<forall>c. cluster_of s c \<longrightarrow> c \<notin> set cs \<longrightarrow> fat_entry s' c = fat_entry s c)" if "r = Some f" for f
  proof -
    from res that obtain cs where cs: "length cs = unat n" "grown s s' cs" "hd cs = f" by auto
    have ch: "chain s' f cs" using cs n by (auto simp: grown_def)
    with cs chain_distinct [OF ch] show ?thesis by (intro exI [of _ cs]) (auto simp: grown_def)
  qed
  ultimately show ?thesis using run(2) res by (cases r) auto
qed

lemma sample_vol16: "vol16 sample16"
  by (simp add: vol16_def sample_ok) (simp add: sample16_def)

lemma sample_cluster: "cluster_of sample16 2"
  by (simp add: cluster_of_def sample16_def)

theorem fat_free_chain_clears_witness: "\<exists>s'. fat1216_free_chain 2 sample16 = Some s' \<and> fat_entry s' 2 = Some 0"
  using fat_free_chain_clears [OF sample_vol16 sample_chain] sample_cluster by auto

theorem fat_alloc_chain_spec_witness: "\<exists>r s'. fat1216_alloc_chain 2 sample16 = Some (r, s') \<and> vol16 s'"
  using fat_alloc_chain_spec [OF sample_vol16, of 2] by auto

end
