(* ===== verification/Fatdir.thy ===== *)
theory Fatdir
  imports Fatalloc
begin

text \<open>
  Root directory entries of FAT12/16 as the driver lays them out: where a found file's cluster and size
  are read, and what a newly written entry holds afterwards.
\<close>

lemma name_prefix_match:
  assumes nm: "\<And>j. j < length name \<Longrightarrow> buf ! (i + j) = name ! j" and nz: "0 \<notin> set name"
    and "k + n \<le> length name" and "i + length name \<le> length buf"
  shows "name_prefix name buf i k n = Some True"
  using assms(3)
proof (induction n arbitrary: k)
  case (Suc n)
  have k: "k < length name" using Suc.prems by simp
  have "peek buf (i + k) 1 = Some [buf ! (i + k)]"
    using k assms(4) by (simp add: peek_def take_Suc_conv_app_nth)
  then have "peek buf (i + k) 1 = Some [name ! k]" unfolding nm [OF k] .
  moreover have "name ! k \<noteq> 0" using nz nth_mem [OF k] by metis
  moreover have "char_at name k = Some (name ! k)" using k by (simp add: char_at_def)
  ultimately show ?case using Suc.IH [of "k + 1"] Suc.prems by simp
qed simp

text \<open>The first entry of a sector, when it is in use and its name matches.\<close>

lemma find_first:
  assumes "length buf = 512" and "length name = 11" and "take 11 buf = name" and "0 \<notin> set name"
    and e5: "buf ! 0 \<noteq> 0xE5" and at: "buf ! 11 AND FAT_ATTR_VOLUME_ID = 0" "buf ! 11 AND FAT_ATTR_DIR = 0"
  shows "find_in_sector name buf 0 (Suc n) = Some (S_hit
    (ucast (of_le16 (buf ! 32) (buf ! 33)) OR push_bit 16 (ucast (of_le16 (buf ! 26) (buf ! 27))))
    (of_le32 (buf ! 34) (buf ! 35) (buf ! 36) (buf ! 37)))"
proof -
  have nm: "buf ! (0 + j) = name ! j" if "j < length name" for j
    using that assms(2) unfolding assms(3) [symmetric] by simp
  have p0: "peek buf (0 * SIZEOF_DIRENT) 1 = Some [buf ! 0]" and p11: "peek buf (0 * SIZEOF_DIRENT + DE_ATTR) 1 = Some [buf ! 11]"
    using assms(1) by (simp_all add: peek_def DE_ATTR_def take_Suc_conv_app_nth)
  have pe: "peek buf (0 * SIZEOF_DIRENT) SIZEOF_DIRENT = Some (take SIZEOF_DIRENT buf)"
    using assms(1) by (simp add: peek_def SIZEOF_DIRENT_def)
  have np: "name_prefix name buf (0 * SIZEOF_DIRENT) 0 11 = Some True"
    unfolding mult_0 using assms(1,2) by (intro name_prefix_match [OF nm assms(4)]) simp_all
  have "buf ! 0 \<in> set name" using nm [of 0] assms(2) by simp
  then have "buf ! 0 \<noteq> 0" using assms(4) by metis
  then show ?thesis
    unfolding find_in_sector.simps p0 p11 pe np Option.bind.bind_lunit nth_Cons_0 using e5 at
    by (simp add: rd16at_def rd32at_def SIZEOF_DIRENT_def DE_CLUSTER_LO_def DE_CLUSTER_HI_def DE_SIZE_def)
qed

lemma find_sectors_first:
  assumes "fat_ok s" and "length name = 11" and "take 11 (sec_at s (root_start_lba s)) = name" and "0 \<notin> set name"
    and "sec_at s (root_start_lba s) ! 0 \<noteq> 0xE5"
    and "sec_at s (root_start_lba s) ! 11 AND FAT_ATTR_VOLUME_ID = 0" and "sec_at s (root_start_lba s) ! 11 AND FAT_ATTR_DIR = 0"
  shows "find_sectors name 0 (Suc m) s = Some (Some
    (let d = sec_at s (root_start_lba s) in
      (ucast (of_le16 (d ! 32) (d ! 33)) OR push_bit 16 (ucast (of_le16 (d ! 26) (d ! 27))),
       of_le32 (d ! 34) (d ! 35) (d ! 36) (d ! 37))), s\<lparr>sector_buf := sec_at s (root_start_lba s)\<rparr>)"
proof -
  define d where "d = sec_at s (root_start_lba s)"
  have ld: "length d = 512" unfolding d_def by (rule sec_at_length [OF assms(1)])
  have ok: "fat_ok (s\<lparr>sector_buf := d\<rparr>)" using assms(1) ld by simp
  have n: "unat (bps (s\<lparr>sector_buf := d\<rparr>) div FAT_ROOT_ENTRY_SIZE) = Suc 15"
    unfolding bps_ok [OF ok] FAT_ROOT_ENTRY_SIZE_def by simp
  have ld0: "load_sector (root_start_lba s + of_nat 0) s = Some (True, s\<lparr>sector_buf := d\<rparr>)"
    using load_sector_ok [OF assms(1), of "root_start_lba s"] by (simp add: d_def)
  have sb: "sector_buf (s\<lparr>sector_buf := d\<rparr>) = d" by simp
  show ?thesis
    unfolding find_sectors.simps ld0 Option.bind.bind_lunit prod.case n sb
      find_first [OF ld assms(2) assms(3-7) [folded d_def], of 15] d_def [symmetric]
    by (simp add: Let_def)
qed

text \<open>\<open>fat_find_root\<close> on a root directory whose first entry is the file asked for: it returns the cluster
  from bytes 26, 27, 32 and 33 of the sector and the size from bytes 34 to 37. On a disk an entry
  is 32 bytes long, with the cluster at 26 and the size at 28, so all but the two bytes at 26 are
  bytes of the name of the next entry.\<close>

theorem fat_find_root_first_entry:
  assumes "fat_ok s" and "fs_kind s \<noteq> FS_EXFAT" and "root_sectors s \<noteq> 0"
    and "length name = 11" and "0 \<notin> set name" and "take 11 (sec_at s (root_start_lba s)) = name"
    and "sec_at s (root_start_lba s) ! 0 \<noteq> 0xE5"
    and "sec_at s (root_start_lba s) ! 11 AND FAT_ATTR_VOLUME_ID = 0" and "sec_at s (root_start_lba s) ! 11 AND FAT_ATTR_DIR = 0"
  shows "\<exists>s'. fat_find_root name s = Some (Some
    (let d = sec_at s (root_start_lba s) in
      (ucast (of_le16 (d ! 32) (d ! 33)) OR push_bit 16 (ucast (of_le16 (d ! 26) (d ! 27))),
       of_le32 (d ! 34) (d ! 35) (d ! 36) (d ! 37))), s')"
proof -
  obtain m where m: "unat (root_sectors s) = Suc m" using assms(3) by (cases "unat (root_sectors s)") (simp_all add: unat_eq_0)
  show ?thesis
    unfolding fat_find_root_def if_not_P [OF assms(2)] m find_sectors_first [OF assms(1,4,6,5,7-9)] by blast
qed

section \<open>Writing an entry\<close>

lemma new_dirent_bytes:
  assumes "length up = 11" and "unat first < 2 ^ 16"
  shows "length (new_dirent up first sz) = 38" and "take 11 (new_dirent up first sz) = up"
    and "new_dirent up first sz ! 11 = FAT_ATTR_ARCHIVE" and "new_dirent up first sz ! 26 = 0" and "new_dirent up first sz ! 27 = 0"
    and "new_dirent up first sz ! 32 = ucast first" and "new_dirent up first sz ! 33 = ucast (drop_bit 8 first)"
    and "[new_dirent up first sz ! 34, new_dirent up first sz ! 35, new_dirent up first sz ! 36, new_dirent up first sz ! 37] = le32 sz"
proof -
  have lo: "(ucast (ucast (first AND 0xFFFF) :: u16) :: u8) = ucast first"
  proof -
    have m: "(0xFFFF :: u32) = mask 16" by (simp add: mask_eq_exp_minus_1)
    show ?thesis unfolding m by (rule bit_word_eqI) (auto simp: bit_simps)
  qed
  have lo': "(ucast (drop_bit 8 (ucast (first AND 0xFFFF) :: u16)) :: u8) = ucast (drop_bit 8 first)"
  proof -
    have m: "(0xFFFF :: u32) = mask 16" by (simp add: mask_eq_exp_minus_1)
    show ?thesis unfolding m by (rule bit_word_eqI) (auto simp: bit_simps)
  qed
  have "unat (drop_bit 16 first) = 0" using assms(2) by simp
  then have hi: "drop_bit 16 first = 0" by (simp only: unat_eq_0)
  let ?e = "new_dirent up first sz"
  show len: "length ?e = 38"
    using assms(1) by (simp add: new_dirent_def Let_def wr16at_def wr32at_def SIZEOF_DIRENT_def DE_SIZE_def DE_CLUSTER_LO_def DE_CLUSTER_HI_def)
  have low: "?e ! i = up ! i" if "i < 11" for i
    using that assms(1)
    by (simp add: new_dirent_def Let_def wr16at_def wr32at_def SIZEOF_DIRENT_def DE_SIZE_def DE_CLUSTER_LO_def DE_CLUSTER_HI_def DE_ATTR_def nth_blit)
  show "take 11 ?e = up"
    using len low assms(1) by (intro nth_equalityI) simp_all
  show "?e ! 11 = FAT_ATTR_ARCHIVE" "?e ! 26 = 0" "?e ! 27 = 0" "?e ! 32 = ucast first" "?e ! 33 = ucast (drop_bit 8 first)"
    "[?e ! 34, ?e ! 35, ?e ! 36, ?e ! 37] = le32 sz"
    using assms(1) hi lo lo'
    by (simp_all add: new_dirent_def Let_def wr16at_def wr32at_def SIZEOF_DIRENT_def DE_SIZE_def DE_CLUSTER_LO_def DE_CLUSTER_HI_def
        DE_ATTR_def nth_blit le16_def le32_def)
qed

text \<open>The sector of a new entry at index \<open>i\<close> after \<open>put_dirent\<close>: the entry reaches into the next slot. When that
  makes the slot look used, which is when the low byte of the first cluster is not 0, it is cleared.\<close>

definition entry_sector :: "u8 list \<Rightarrow> nat \<Rightarrow> u8 list \<Rightarrow> u32 \<Rightarrow> u32 \<Rightarrow> u8 list" where
  "entry_sector d i up first sz =
     (let b = blit d (i * 32) (new_dirent up first sz)
      in if (ucast first :: u8) \<noteq> 0 then blit b ((i + 1) * 32) (replicate SIZEOF_DIRENT 0) else b)"

lemma entry_sector_length:
  "length d = 512 \<Longrightarrow> length up = 11 \<Longrightarrow> unat first < 2 ^ 16 \<Longrightarrow> i \<le> 13 \<Longrightarrow> length (entry_sector d i up first sz) = 512"
  using new_dirent_bytes(1) [of up first sz] by (simp add: entry_sector_def Let_def SIZEOF_DIRENT_def)

lemma put_dirent_new:
  assumes ok: "fat_ok s" and "length up = 11" and "unat first < 2 ^ 16" and i: "i \<le> 13"
  shows "\<exists>s'. put_dirent up first sz False l i s = Some (0, s') \<and> fat_ok s' \<and> same_params s s'
    \<and> (\<forall>l'. sec_at s' l' = (if lba28 l' = lba28 l then entry_sector (sec_at s l) i up first sz else sec_at s l'))"
proof -
  define d where "d = sec_at s l"
  define e where "e = new_dirent up first sz"
  define b1 where "b1 = blit d (i * 32) e"
  define b2 where "b2 = blit b1 ((i + 1) * 32) (replicate SIZEOF_DIRENT 0)"
  have ld: "length d = 512" unfolding d_def by (rule sec_at_length [OF ok])
  have le: "length e = 38" unfolding e_def by (rule new_dirent_bytes(1) [OF assms(2,3)])
  have l1: "length b1 = 512" unfolding b1_def using ld le i by simp
  have l2: "length b2 = 512" unfolding b2_def using l1 i by (simp add: SIZEOF_DIRENT_def)
  define s1 where "s1 = set_sec l b1 (s\<lparr>sector_buf := b1\<rparr>)"
  define s2 where "s2 = set_sec l b2 (s1\<lparr>sector_buf := b2\<rparr>)"
  have ok0: "fat_ok (s\<lparr>sector_buf := b1\<rparr>)" using ok l1 by simp
  have ok1: "fat_ok s1" unfolding s1_def using ok0 l1 by simp
  have okb: "fat_ok (s1\<lparr>sector_buf := b2\<rparr>)" using ok1 l2 by simp
  have ok2: "fat_ok s2" unfolding s2_def using okb l2 by simp
  have sb: "s1\<lparr>sector_buf := b1\<rparr> = s1" by (simp add: s1_def set_sec_def)
  have p1: "poke d (i * 32) e = Some b1" using ld le i by (simp add: poke_def b1_def)
  have st1: "store l b1 (s\<lparr>sector_buf := b1\<rparr>) = Some (True, s1)" using store_ok [OF ok0, of l b1] l1 by (simp add: s1_def)
  have ld1: "load_sector l s1 = Some (True, s1)"
    using load_sector_ok [OF ok1, of l] sb by (simp add: s1_def)
  have b32: "b1 ! ((i + 1) * 32) = ucast first"
    unfolding b1_def using ld le i new_dirent_bytes(6) [OF assms(2,3), of sz] by (simp add: nth_blit e_def)
  have pk: "peek b1 ((i + 1) * 32) 1 = Some [b1 ! ((i + 1) * 32)]"
    using l1 i by (simp add: peek_def take_Suc_conv_app_nth)
  have p2: "poke b1 ((i + 1) * 32) (replicate SIZEOF_DIRENT 0) = Some b2"
    using l1 i by (simp add: poke_def b2_def SIZEOF_DIRENT_def)
  have st2: "store l b2 (s1\<lparr>sector_buf := b2\<rparr>) = Some (True, s2)" using store_ok [OF okb, of l b2] l2 by (simp add: s2_def)
  have n: "unat (bps s1 div FAT_ROOT_ENTRY_SIZE) = 16"
    unfolding bps_ok [OF ok1] FAT_ROOT_ENTRY_SIZE_def by simp
  have sb1: "sector_buf s1 = b1" by (simp add: s1_def)
  have ld0: "load_sector l s = Some (True, s\<lparr>sector_buf := d\<rparr>)" using load_sector_ok [OF ok, of l] by (simp add: d_def)
  have cond: "\<not> False \<and> i + 1 < (16 :: nat)" using i by simp
  have es: "entry_sector d i up first sz = (if (ucast first :: u8) \<noteq> 0 then b2 else b1)"
    by (simp add: entry_sector_def Let_def b1_def b2_def e_def)
  have run: "put_dirent up first sz False l i s = Some (0, if (ucast first :: u8) \<noteq> 0 then s2 else s1)"
    unfolding put_dirent_def ld0 e_def [symmetric]
    using p1 st1 ld1 pk b32 p2 st2 n cond by (simp add: sb1)
  moreover have "same_params s s1" "same_params s s2" by (simp_all add: s2_def s1_def same_params_def)
  moreover have "sec_at (if (ucast first :: u8) \<noteq> 0 then s2 else s1) l'
      = (if lba28 l' = lba28 l then entry_sector d i up first sz else sec_at s l')" for l'
    unfolding es by (simp add: s1_def s2_def)
  ultimately show ?thesis using ok1 ok2 unfolding d_def by (cases "(ucast first :: u8) \<noteq> 0") simp_all
qed

text \<open>What the driver then reads from the first slot.\<close>

definition entry_read :: "u32 \<Rightarrow> u32 \<Rightarrow> u32 \<times> u32" where
  "entry_read first sz = (if (ucast first :: u8) \<noteq> 0 then (0, 0) else (first, sz))"

lemma first_cluster_bytes:
  assumes "unat (first :: u32) < 2 ^ 16"
  shows "ucast (of_le16 (ucast first) (ucast (drop_bit 8 first))) = first"
proof (rule bit_word_eqI)
  fix n assume "n < LENGTH(32)"
  have lt: "n < 16" if "bit first n"
    using assms that by (metis bit_take_bit_iff take_bit_nat_eq_self_iff unsigned_take_bit_eq word_unat_eq_iff)
  have "bit first n \<Longrightarrow> n - 8 < 8" using lt by simp
  with lt show "bit (ucast (of_le16 (ucast first) (ucast (drop_bit 8 first))) :: u32) n = bit first n"
    by (auto simp: of_le16_def bit_simps)
qed

lemma new_entry_lookup:
  assumes "fat_ok s" and "fs_kind s \<noteq> FS_EXFAT" and "root_sectors s \<noteq> 0" and "length d = 512"
    and "length up = 11" and "0 \<notin> set up" and "up ! 0 \<noteq> 0xE5" and first: "unat first < 2 ^ 16"
    and sec: "sec_at s (root_start_lba s) = entry_sector d 0 up first sz"
  shows "fat_find_root up s = Some (Some (entry_read first sz), s\<lparr>sector_buf := entry_sector d 0 up first sz\<rparr>)"
proof -
  let ?e = "new_dirent up first sz" and ?d = "entry_sector d 0 up first sz"
  note nd = new_dirent_bytes [OF assms(5) first, of sz]
  have low: "?d ! i = ?e ! i" if "i < 32" for i
    using that assms(4) nd(1) by (simp add: entry_sector_def Let_def nth_blit SIZEOF_DIRENT_def)
  have high: "?d ! i = (if (ucast first :: u8) \<noteq> 0 then 0 else ?e ! i)" if "32 \<le> i" "i < 38" for i
    using that assms(4) nd(1) by (simp add: entry_sector_def Let_def nth_blit SIZEOF_DIRENT_def)
  have ld: "length ?d = 512" by (rule entry_sector_length [OF assms(4,5) first]) simp
  have "take 11 ?d = take 11 ?e" using low nd(1) ld by (intro nth_equalityI) simp_all
  then have tk: "take 11 ?d = up" using nd(2) by simp
  then have e5: "?d ! 0 \<noteq> 0xE5" using assms(7) nth_take [of 0 11 ?d] by simp
  have at: "?d ! 11 = FAT_ATTR_ARCHIVE" using low [of 11] nd(3) by simp
  have attr: "?d ! 11 AND FAT_ATTR_VOLUME_ID = 0" "?d ! 11 AND FAT_ATTR_DIR = 0"
    unfolding at by (simp_all add: FAT_ATTR_ARCHIVE_def FAT_ATTR_VOLUME_ID_def FAT_ATTR_DIR_def)
  obtain m where m: "unat (root_sectors s) = Suc m"
    using assms(3) by (cases "unat (root_sectors s)") (simp_all add: unat_eq_0)
  have sz: "of_le32 (?e ! 34) (?e ! 35) (?e ! 36) (?e ! 37) = sz" using nd(8) by (simp add: le32_def)
  have "(ucast (of_le16 (?d ! 32) (?d ! 33)) OR push_bit 16 (ucast (of_le16 (?d ! 26) (?d ! 27))),
      of_le32 (?d ! 34) (?d ! 35) (?d ! 36) (?d ! 37)) = entry_read first sz"
  proof (cases "(ucast first :: u8) = 0")
    case True
    with nd(6,7) first_cluster_bytes [OF first] have "ucast (of_le16 (?e ! 32) (?e ! 33)) = first" by simp
    with True low [of 26] low [of 27] nd(4,5) sz show ?thesis by (simp add: high entry_read_def of_le16_def)
  next
    case False
    with low [of 26] low [of 27] nd(4,5) show ?thesis by (simp add: high entry_read_def of_le16_def of_le32_def)
  qed
  with find_sectors_first [OF assms(1,5), unfolded sec, OF tk assms(6) e5 attr, of m] show ?thesis
    unfolding fat_find_root_def if_not_P [OF assms(2)] m by (simp add: Let_def)
qed

text \<open>A new file loses its contents: writing its entry succeeds, but the entry is 38 bytes long while entries
  are 32 bytes apart, so its cluster and size lie in the next slot, which the driver finds in use and
  clears: looking the file up gives cluster 0 and size 0, unless the low byte of the first cluster is 0.\<close>

theorem fat_new_file_is_empty:
  assumes "fat_ok s" and "fs_kind s \<noteq> FS_EXFAT" and "root_sectors s \<noteq> 0"
    and "length up = 11" and "0 \<notin> set up" and "up ! 0 \<noteq> 0xE5" and "unat first < 2 ^ 16"
  shows "\<exists>s' s''. put_dirent up first sz False (root_start_lba s) 0 s = Some (0, s')
    \<and> fat_find_root up s' = Some (Some (if (ucast first :: u8) \<noteq> 0 then (0, 0) else (first, sz)), s'')"
proof -
  have i: "(0 :: nat) \<le> 13" by simp
  obtain s' where s': "put_dirent up first sz False (root_start_lba s) 0 s = Some (0, s')" "fat_ok s'" "same_params s s'"
    and sec: "\<And>l'. sec_at s' l' = (if lba28 l' = lba28 (root_start_lba s)
      then entry_sector (sec_at s (root_start_lba s)) 0 up first sz else sec_at s l')"
    using put_dirent_new [OF assms(1,4,7) i, of sz "root_start_lba s"] by (elim exE conjE) (rule that, auto)
  have par: "root_start_lba s' = root_start_lba s" "root_sectors s' \<noteq> 0" "fs_kind s' \<noteq> FS_EXFAT"
    using s'(3) assms(2,3) by (simp_all add: same_params_def)
  have "sec_at s' (root_start_lba s') = entry_sector (sec_at s (root_start_lba s)) 0 up first sz" using sec par(1) by simp
  from new_entry_lookup [OF s'(2) par(3,2) sec_at_length [OF assms(1)] assms(4-7) this] s'(1)
  show ?thesis by (simp add: entry_read_def)
qed

text \<open>A name of eleven letters A, and a volume whose first root entry has it.\<close>

definition name_a :: "u8 list" where
  "name_a = replicate 11 0x41"

lemma name_a_ok: "length name_a = 11" "0 \<notin> set name_a" "name_a ! 0 \<noteq> 0xE5"
  by (simp_all add: name_a_def)

definition sample_dir :: fat where
  "sample_dir = set_sec 3 (name_a @ 0x20 # replicate 500 7) sample16"

lemma sample_dir_sec: "sec_at sample_dir (root_start_lba sample_dir) = name_a @ 0x20 # replicate 500 7"
  by (simp add: sample_dir_def) (simp add: sample16_def)

theorem fat_find_root_first_entry_witness:
  "\<exists>s'. fat_find_root name_a sample_dir = Some (Some (0x07070707, 0x07070707), s')"
proof -
  have ok: "fat_ok sample_dir" by (simp add: sample_dir_def sample_ok name_a_def)
  have par: "fs_kind sample_dir \<noteq> FS_EXFAT" "root_sectors sample_dir \<noteq> 0"
    by (simp_all add: sample_dir_def sample16_def set_sec_def)
  have l: "length name_a = 11" by (rule name_a_ok)
  have d: "take 11 (sec_at sample_dir (root_start_lba sample_dir)) = name_a"
    "sec_at sample_dir (root_start_lba sample_dir) ! 0 \<noteq> 0xE5"
    "sec_at sample_dir (root_start_lba sample_dir) ! 11 AND FAT_ATTR_VOLUME_ID = 0"
    "sec_at sample_dir (root_start_lba sample_dir) ! 11 AND FAT_ATTR_DIR = 0"
    unfolding sample_dir_sec using l name_a_ok(3) by (simp_all add: nth_append FAT_ATTR_VOLUME_ID_def FAT_ATTR_DIR_def)
  from fat_find_root_first_entry [OF ok par name_a_ok(1,2) d]
  show ?thesis unfolding sample_dir_sec using l by (simp add: nth_append of_le16_def of_le32_def)
qed

theorem fat_new_file_is_empty_witness:
  "\<exists>s' s''. put_dirent name_a 5 300 False 3 0 sample16 = Some (0, s') \<and> fat_find_root name_a s' = Some (Some (0, 0), s'')"
proof -
  have par: "fs_kind sample16 \<noteq> FS_EXFAT" "root_sectors sample16 \<noteq> 0" "root_start_lba sample16 = 3"
    by (simp_all add: sample16_def)
  from fat_new_file_is_empty [OF sample_ok(1) par(1,2) name_a_ok, of 5 300] show ?thesis unfolding par(3) by simp
qed

end
