(* ===== verification/Fatwrite.thy ===== *)
theory Fatwrite
  imports Fatdir
begin

text \<open>
  Writing a file's clusters and reading them back: on a FAT16 volume whose data area lies behind the
  table and within the 28-bit addresses, the sectors of different clusters are different sectors.
\<close>

section \<open>The data area\<close>

definition data_geom :: "fat \<Rightarrow> bool" where
  "data_geom s \<longleftrightarrow> unat (fat_start_lba s) + unat (fat_num_fats s) * unat (fat_sectors s) \<le> unat (data_start_lba s)
     \<and> unat (data_start_lba s) + unat (fat_total_clusters s) * unat (sectors_per_cluster s) \<le> 2 ^ 28"

definition base_of :: "fat \<Rightarrow> u32 \<Rightarrow> nat" where
  "base_of s c = unat (data_start_lba s) + (unat c - 2) * unat (sectors_per_cluster s)"

definition cluster_sec :: "fat \<Rightarrow> u32 \<Rightarrow> u32 \<Rightarrow> bool" where
  "cluster_sec s c l \<longleftrightarrow> base_of s c \<le> unat (lba28 l) \<and> unat (lba28 l) < base_of s c + unat (sectors_per_cluster s)"

lemma same_params_geom: "same_params s s' \<Longrightarrow> data_geom s' = data_geom s" "same_params s s' \<Longrightarrow> base_of s' c = base_of s c"
  "same_params s s' \<Longrightarrow> cluster_sec s' c l = cluster_sec s c l" "same_params s s' \<Longrightarrow> cluster_to_lba c s' = cluster_to_lba c s"
  by (simp_all add: same_params_def data_geom_def base_of_def cluster_sec_def cluster_to_lba_def spc_def)

lemma base_of_bound:
  assumes "data_geom s" and "cluster_of s c"
  shows "base_of s c + unat (sectors_per_cluster s) \<le> 2 ^ 28"
proof -
  have "2 \<le> unat c \<and> unat c < unat (fat_total_clusters s) + 2"
    using assms(2) by (simp add: cluster_of_def word_le_nat_alt)
  then have "unat c - 2 + 1 \<le> unat (fat_total_clusters s)" by arith
  then have "(unat c - 2 + 1) * unat (sectors_per_cluster s) \<le> unat (fat_total_clusters s) * unat (sectors_per_cluster s)"
    by (rule mult_le_mono1)
  then show ?thesis using assms(1) by (simp add: base_of_def data_geom_def)
qed

lemma unat_cluster_to_lba:
  assumes "data_geom s" and "cluster_of s c"
  shows "unat (cluster_to_lba c s) = base_of s c"
proof -
  have "2 \<le> c" using assms(2) by (simp add: cluster_of_def)
  then have u: "unat (c - 2) = unat c - 2" by (simp add: unat_sub)
  have b: "base_of s c \<le> 2 ^ 28" using base_of_bound [OF assms] by simp
  have sp: "unat (spc s) = unat (sectors_per_cluster s)" by (simp add: spc_def)
  have m: "(unat c - 2) * unat (sectors_per_cluster s) < 2 ^ 32" using b by (simp add: base_of_def)
  then have "unat ((c - 2) * spc s) = (unat c - 2) * unat (sectors_per_cluster s)"
    by (simp add: unat_word_ariths u sp)
  with b show ?thesis by (simp add: cluster_to_lba_def base_of_def unat_word_ariths)
qed

lemma cluster_sec_disjoint:
  assumes "cluster_of s c" and "cluster_of s d" and "c \<noteq> d"
  shows "\<not> (cluster_sec s c l \<and> cluster_sec s d l)"
proof -
  have "unat c \<noteq> unat d" "2 \<le> unat c" "2 \<le> unat d"
    using assms by (simp_all add: word_unat_eq_iff cluster_of_def word_le_nat_alt)
  then consider "unat c - 2 + 1 \<le> unat d - 2" | "unat d - 2 + 1 \<le> unat c - 2" by linarith
  then show ?thesis
  proof cases
    case 1
    then have "(unat c - 2 + 1) * unat (sectors_per_cluster s) \<le> (unat d - 2) * unat (sectors_per_cluster s)" by (rule mult_le_mono1)
    then show ?thesis by (auto simp: cluster_sec_def base_of_def)
  next
    case 2
    then have "(unat d - 2 + 1) * unat (sectors_per_cluster s) \<le> (unat c - 2) * unat (sectors_per_cluster s)" by (rule mult_le_mono1)
    then show ?thesis by (auto simp: cluster_sec_def base_of_def)
  qed
qed

text \<open>Volumes with the same sectors of the table have the same entries.\<close>

lemma fat_entry_table:
  assumes v: "vol16 s" and ok': "fat_ok s'" and same: "same_params s s'"
    and secs: "\<And>l. in_fat s l \<Longrightarrow> sec_at s' l = sec_at s l" and c: "cluster_of s c"
  shows "fat_entry s' c = fat_entry s c"
proof -
  have geom: "fat_geom s" by (rule vol16D(2) [OF v])
  have tab: "in_table16 s c" by (rule vol16D(5) [OF v c])
  have tab': "in_table16 s' c" using tab same by (simp add: in_table16_def same_params_def)
  have n12: "\<not> is_fat12 s'" using vol16D(3) [OF v] same by (simp add: same_params_def)
  have n: "0 < unat (fat_num_fats s)" using geom by (simp add: fat_geom_def)
  have byte: "fat_byte s' k = fat_byte s k" if "k < 512 * unat (fat_sectors s)" for k
  proof -
    have k: "k div 512 < unat (fat_sectors s)" using that by (simp add: less_mult_imp_div_less mult.commute)
    then have "in_fat s (fat_lba s 0 (k div 512))" using n lba28_fat_lba [OF geom n k] by (auto simp: in_fat_def)
    from secs [OF this] same show ?thesis by (simp add: fat_byte_def fat_lba_0 same_params_def)
  qed
  have "2 * unat c + 1 < 512 * unat (fat_sectors s)" using tab by (auto simp: in_table16_def div_less_iff_less_mult)
  then show ?thesis
    unfolding fat_entry16 [OF ok' n12 tab'] fat_entry16 [OF vol16D(1,3) [OF v] tab] by (simp add: byte)
qed

lemma in_fat_before:
  assumes "fat_geom s" and "unat (fat_start_lba s) + unat (fat_num_fats s) * unat (fat_sectors s) \<le> n" and "in_fat s l"
  shows "unat (lba28 l) < n"
proof -
  obtain i k where i: "i < unat (fat_num_fats s)" "k < unat (fat_sectors s)" "lba28 l = fat_lba s i k"
    using assms(3) by (auto simp: in_fat_def)
  have "Suc i * unat (fat_sectors s) \<le> unat (fat_num_fats s) * unat (fat_sectors s)" using i(1) by (intro mult_le_mono1) simp
  then show ?thesis using unat_fat_lba(1) [OF assms(1) i(1,2)] i(2,3) assms(2) by simp
qed

section \<open>One cluster\<close>

text \<open>Blocks of a buffer written one after the other: \<open>b\<close> holds the part from \<open>w\<close> to \<open>w1\<close>, \<open>r\<close> the rest.\<close>

lemma take_blocks:
  assumes "length b = L" and "take (w1 - w) b = take (w1 - w) (drop w buf)"
    and "take (w' - w1) r = take (w' - w1) (drop w1 buf)"
    and "w \<le> w1" "w1 \<le> w'" "w1 = w + L \<or> w1 \<le> w + L \<and> w' = w1"
  shows "take (w' - w) (b @ r) = take (w' - w) (drop w buf)"
  using assms(6)
proof
  assume w1: "w1 = w + L"
  then have b: "b = take L (drop w buf)" using assms(1,2) by simp
  have "take (w' - w) (b @ r) = take L (drop w buf) @ take (w' - w1) (drop L (drop w buf))"
  proof -
    have "take (w' - w) (b @ r) = take (w' - w) b @ take (w' - w1) r" using assms(1) w1 by simp
    moreover have "take (w' - w) b = b" using assms(1,5) w1 by simp
    ultimately show ?thesis using assms(3) w1 b by (simp add: add.commute)
  qed
  also have "\<dots> = take (L + (w' - w1)) (drop w buf)" by (simp add: take_add)
  finally show ?thesis using assms(5) w1 by simp
qed (use assms(1,2) in simp)

text \<open>One turn of the loop: a padded sector goes to its place.\<close>

lemma write_secs_step:
  assumes ok: "fat_ok s" and w: "w < sz" and buf: "unat sz \<le> length buf" and sz: "unat sz + 512 < 2 ^ 32"
  obtains b w1 where "write_secs lba k (Suc n) buf sz w s
      = write_secs lba (k + 1) n buf sz w1 (set_sec (lba + of_nat k) b (s\<lparr>sector_buf := b\<rparr>))"
    and "length b = 512" and "unat w1 = min (unat sz) (unat w + 512)"
    and "take (unat w1 - unat w) b = take (unat w1 - unat w) (drop (unat w) buf)"
proof -
  have lt: "unat w < unat sz" using w by (simp add: word_less_nat_alt)
  define ch where "ch = (if w + bps s > sz then sz - w else bps s)"
  have "unat (w + 512) = unat w + 512" using lt sz by (simp add: unat_word_ariths)
  moreover have "unat (sz - w) = unat sz - unat w" using w by (simp add: unat_sub less_imp_le)
  ultimately have ch: "unat ch = min 512 (unat sz - unat w)"
    unfolding ch_def bps_ok [OF ok] by (auto simp: word_less_nat_alt min_def)
  define p where "p = take (unat ch) (drop (unat w) buf)"
  have lp: "length p = unat ch" using ch lt buf by (simp add: p_def)
  define b where "b = p @ replicate (512 - unat ch) 0"
  have lb: "length b = 512" using lp ch by (simp add: b_def)
  have okb: "fat_ok (s\<lparr>sector_buf := b\<rparr>)" using ok lb by simp
  have pk: "peek buf (unat w) (unat ch) = Some p" using ch lt buf by (simp add: peek_def p_def)
  have bs: "unat (bps s) = 512" using bps_ok [OF ok] by simp
  have pb: "poke (sector_buf s) 0 (p @ replicate (unat (bps s) - unat ch) 0) = Some b"
    using fat_okD(3) [OF ok] lb unfolding bs b_def [symmetric] by (simp add: poke_def blit_def)
  have st: "store (lba + of_nat k) b (s\<lparr>sector_buf := b\<rparr>) = Some (True, set_sec (lba + of_nat k) b (s\<lparr>sector_buf := b\<rparr>))"
    using store_ok [OF okb, of "lba + of_nat k" b] lb by simp
  have uw: "unat (w + ch) = min (unat sz) (unat w + 512)" using ch lt sz by (auto simp: unat_word_ariths min_def)
  show ?thesis
  proof (rule that [OF _ lb uw])
    show "write_secs lba k (Suc n) buf sz w s
        = write_secs lba (k + 1) n buf sz (w + ch) (set_sec (lba + of_nat k) b (s\<lparr>sector_buf := b\<rparr>))"
      using w pk pb st by (simp add: ch_def [symmetric] Let_def)
    have "unat (w + ch) - unat w = unat ch" using uw ch by auto
    then show "take (unat (w + ch) - unat w) b = take (unat (w + ch) - unat w) (drop (unat w) buf)"
      using lp by (simp add: b_def p_def)
  qed
qed

lemma write_secs_ok:
  assumes "fat_ok s" and "unat lba + k + n \<le> 2 ^ 28" and "unat w \<le> unat sz" and "unat sz \<le> length buf"
    and "unat sz + 512 < 2 ^ 32"
  shows "\<exists>s' w'. write_secs lba k n buf sz w s = Some (Some w', s') \<and> fat_ok s' \<and> same_params s s'
    \<and> unat w' = min (unat sz) (unat w + 512 * n)
    \<and> take (unat w' - unat w) (concat (map (\<lambda>i. sec_at s' (lba + of_nat i)) [k..<k + n])) = take (unat w' - unat w) (drop (unat w) buf)
    \<and> (\<forall>l. unat (lba28 l) < unat lba + k \<or> unat lba + k + n \<le> unat (lba28 l) \<longrightarrow> sec_at s' l = sec_at s l)"
  using assms(1-3)
proof (induction n arbitrary: k w s)
  case 0
  then show ?case by (simp add: same_params_def)
next
  case (Suc n)
  show ?case
  proof (cases "w < sz")
    case False
    then have "unat w = unat sz" using Suc.prems(3) by (simp add: word_less_nat_alt)
    with False Suc.prems(1) show ?thesis by (simp add: same_params_def)
  next
    case True
    define l0 where "l0 = lba + of_nat k"
    obtain b w1 where step: "write_secs lba k (Suc n) buf sz w s
        = write_secs lba (k + 1) n buf sz w1 (set_sec l0 b (s\<lparr>sector_buf := b\<rparr>))"
      and lb: "length b = 512" and w1: "unat w1 = min (unat sz) (unat w + 512)"
      and b: "take (unat w1 - unat w) b = take (unat w1 - unat w) (drop (unat w) buf)"
      unfolding l0_def by (rule write_secs_step [OF Suc.prems(1) True assms(4,5)])
    define s1 where "s1 = set_sec l0 b (s\<lparr>sector_buf := b\<rparr>)"
    have ok1: "fat_ok s1" and par: "same_params s s1"
      using Suc.prems(1) lb by (simp_all add: s1_def same_params_def)
    have "k < 2 ^ 32" "unat lba + k < 2 ^ 28" using Suc.prems(2) by simp_all
    then have l0: "unat l0 = unat lba + k" by (simp add: l0_def unat_word_ariths unat_of_nat_32)
    have l28: "lba28 l0 = l0" using l0 \<open>unat lba + k < 2 ^ 28\<close> by (intro lba28_id) simp
    have "unat lba + (k + 1) + n \<le> 2 ^ 28" "unat w1 \<le> unat sz" using Suc.prems(2) w1 by simp_all
    from Suc.IH [OF ok1 this] obtain s' w' where s': "write_secs lba (k + 1) n buf sz w1 s1 = Some (Some w', s')" "fat_ok s'" "same_params s1 s'"
      and w': "unat w' = min (unat sz) (unat w1 + 512 * n)"
      and rest: "take (unat w' - unat w1) (concat (map (\<lambda>i. sec_at s' (lba + of_nat i)) [k + 1..<k + 1 + n]))
        = take (unat w' - unat w1) (drop (unat w1) buf)"
      and oth: "\<forall>l. unat (lba28 l) < unat lba + (k + 1) \<or> unat lba + (k + 1) + n \<le> unat (lba28 l) \<longrightarrow> sec_at s' l = sec_at s1 l"
      by (elim exE conjE) (rule that)
    have b0: "sec_at s' (lba + of_nat k) = b" using oth l0 l28 by (simp add: s1_def l0_def [symmetric])
    have up: "[k..<k + Suc n] = k # [k + 1..<k + 1 + n]" by (simp add: upt_conv_Cons)
    have dat: "take (unat w' - unat w) (concat (map (\<lambda>i. sec_at s' (lba + of_nat i)) [k..<k + Suc n]))
        = take (unat w' - unat w) (drop (unat w) buf)"
      unfolding up list.map concat.simps b0
      by (rule take_blocks [OF lb b rest]) (use w1 w' Suc.prems(3) in \<open>auto simp: min_def split: if_splits\<close>)
    have out: "sec_at s' l = sec_at s l" if "unat (lba28 l) < unat lba + k \<or> unat lba + k + Suc n \<le> unat (lba28 l)" for l
      using oth that l0 l28 by (auto simp: s1_def)
    have "write_secs lba k (Suc n) buf sz w s = Some (Some w', s')" using step s'(1) by (simp only: s1_def)
    moreover have "same_params s s'" using par s'(3) by (simp add: same_params_def)
    moreover have "unat w' = min (unat sz) (unat w + 512 * Suc n)" using w' w1 by simp
    ultimately show ?thesis using s'(2) dat out by blast
  qed
qed

section \<open>A chain\<close>

definition full_vol :: "fat \<Rightarrow> bool" where
  "full_vol s \<longleftrightarrow> vol16 s \<and> data_geom s"

lemma write_cluster_ok:
  assumes v: "full_vol s" and c: "cluster_of s c" and w: "unat w \<le> unat sz" and buf: "unat sz \<le> length buf"
    and sz: "unat sz + 512 < 2 ^ 32"
  shows "\<exists>s' w'. write_secs (cluster_to_lba c s) 0 (unat (sectors_per_cluster s)) buf sz w s = Some (Some w', s')
    \<and> full_vol s' \<and> same_params s s' \<and> unat w' = min (unat sz) (unat w + 512 * unat (sectors_per_cluster s))
    \<and> take (unat w' - unat w) (cluster_data s' c) = take (unat w' - unat w) (drop (unat w) buf)
    \<and> (\<forall>l. \<not> cluster_sec s c l \<longrightarrow> sec_at s' l = sec_at s l)
    \<and> (\<forall>x. cluster_of s x \<longrightarrow> fat_entry s' x = fat_entry s x)"
proof -
  have v16: "vol16 s" and g: "data_geom s" using v by (simp_all add: full_vol_def)
  have lba: "unat (cluster_to_lba c s) = base_of s c" by (rule unat_cluster_to_lba [OF g c])
  have "unat (cluster_to_lba c s) + 0 + unat (sectors_per_cluster s) \<le> 2 ^ 28" using base_of_bound [OF g c] lba by simp
  from write_secs_ok [OF vol16D(1) [OF v16] this w buf sz] obtain s' w' where
    run: "write_secs (cluster_to_lba c s) 0 (unat (sectors_per_cluster s)) buf sz w s = Some (Some w', s')" "fat_ok s'" "same_params s s'"
    and w': "unat w' = min (unat sz) (unat w + 512 * unat (sectors_per_cluster s))"
    and dat: "take (unat w' - unat w) (concat (map (\<lambda>i. sec_at s' (cluster_to_lba c s + of_nat i)) [0..<0 + unat (sectors_per_cluster s)]))
      = take (unat w' - unat w) (drop (unat w) buf)"
    and oth: "\<forall>l. unat (lba28 l) < unat (cluster_to_lba c s) + 0 \<or> unat (cluster_to_lba c s) + 0 + unat (sectors_per_cluster s) \<le> unat (lba28 l)
      \<longrightarrow> sec_at s' l = sec_at s l"
    by (elim exE conjE) (rule that)
  have par: "sectors_per_cluster s' = sectors_per_cluster s" using run(3) by (simp add: same_params_def)
  have cd: "take (unat w' - unat w) (cluster_data s' c) = take (unat w' - unat w) (drop (unat w) buf)"
    using dat unfolding cluster_data_def par same_params_geom(4) [OF run(3)] add_0 .
  have out: "\<forall>l. \<not> cluster_sec s c l \<longrightarrow> sec_at s' l = sec_at s l"
    using oth lba by (auto simp: cluster_sec_def not_le)
  have tab: "sec_at s' l = sec_at s l" if "in_fat s l" for l
    using out in_fat_before [OF vol16D(2) [OF v16] conjunct1 [OF g [unfolded data_geom_def]] that]
    by (simp add: cluster_sec_def base_of_def)
  have ent: "\<forall>x. cluster_of s x \<longrightarrow> fat_entry s' x = fat_entry s x"
    using fat_entry_table [OF v16 run(2,3) tab] by blast
  have "full_vol s'" using v16 g run(2,3) same_params_geom(1) [OF run(3)]
    by (simp add: full_vol_def vol16_def same_params_def fat_geom_def)
  with run w' cd out ent show ?thesis by blast
qed

text \<open>A cluster other than the written one keeps its data.\<close>

lemma cluster_data_keep:
  assumes "full_vol s" and "cluster_of s c" and "same_params s s1" and "same_params s s2"
    and "\<And>l. cluster_sec s c l \<Longrightarrow> sec_at s2 l = sec_at s1 l"
  shows "cluster_data s2 c = cluster_data s1 c"
proof -
  have g: "data_geom s" using assms(1) by (simp add: full_vol_def)
  have sec: "sec_at s2 (cluster_to_lba c s + of_nat i) = sec_at s1 (cluster_to_lba c s + of_nat i)"
    if "i < unat (sectors_per_cluster s)" for i
  proof (rule assms(5))
    have b: "base_of s c + i < 2 ^ 28" using base_of_bound [OF g assms(2)] that by simp
    then have u: "unat (cluster_to_lba c s + of_nat i) = base_of s c + i"
      using unat_cluster_to_lba [OF g assms(2)] by (simp add: unat_word_ariths unat_of_nat_32)
    then have "lba28 (cluster_to_lba c s + of_nat i) = cluster_to_lba c s + of_nat i" using b by (intro lba28_id) simp
    with u that show "cluster_sec s c (cluster_to_lba c s + of_nat i)" by (simp add: cluster_sec_def)
  qed
  have "sectors_per_cluster s1 = sectors_per_cluster s" "sectors_per_cluster s2 = sectors_per_cluster s"
    using assms(3,4) by (simp_all add: same_params_def)
  then show ?thesis
    unfolding cluster_data_def same_params_geom(4) [OF assms(3)] same_params_geom(4) [OF assms(4)]
    using sec by (intro arg_cong [of _ _ concat]) simp
qed

lemma length_cluster_data: "full_vol s \<Longrightarrow> length (cluster_data s c) = 512 * unat (sectors_per_cluster s)"
  using vol16D(1) [of s] by (simp add: full_vol_def cluster_data_def length_concat comp_def sec_at_length sum_list_triv)

lemma full_vol_buffered: "buffered s s' \<Longrightarrow> full_vol s \<Longrightarrow> full_vol s'"
  using buffered_vol16 same_params_geom(1) [OF buffered_params] by (simp add: full_vol_def)

lemma write_loop_done:
  "unat w = unat sz \<Longrightarrow> fat1216_write_loop c buf sz w s = Some (0, s)"
  by (subst fat1216_write_loop.simps) (simp add: word_unat_eq_iff word_less_nat_alt)

lemma write_loop_ok:
  assumes "full_vol s" and "chain s c cs" and "\<forall>x \<in> set cs. cluster_of s x" and "unat w \<le> unat sz"
    and "unat sz \<le> length buf" and "unat sz + 512 < 2 ^ 32" and "unat sz \<le> unat w + 512 * unat (sectors_per_cluster s) * length cs"
  shows "\<exists>s'. fat1216_write_loop c buf sz w s = Some (0, s') \<and> full_vol s' \<and> same_params s s'
    \<and> take (unat sz - unat w) (concat (map (cluster_data s') cs)) = take (unat sz - unat w) (drop (unat w) buf)
    \<and> (\<forall>l. (\<forall>x \<in> set cs. \<not> cluster_sec s x l) \<longrightarrow> sec_at s' l = sec_at s l)
    \<and> (\<forall>x. cluster_of s x \<longrightarrow> fat_entry s' x = fat_entry s x)"
  using assms(1-4,7)
proof (induction cs arbitrary: c w s)
  case Nil
  then have "unat w = unat sz" by simp
  with Nil.prems(1) show ?case by (simp add: same_params_def write_loop_done)
next
  case (Cons x xs)
  have v16: "vol16 s" using Cons.prems(1) by (simp add: full_vol_def)
  from Cons.prems(2) obtain n where x: "x = c" "2 \<le> c" "c < eoc_min s" and n: "fat_entry s c = Some n" "chain s n xs"
    by (auto split: option.splits)
  have cc: "cluster_of s c" using Cons.prems(3) x(1) by simp
  let ?m = "unat (sectors_per_cluster s)"
  show ?case
  proof (cases "w < sz")
    case False
    then have "unat w = unat sz" using Cons.prems(4) by (simp add: word_less_nat_alt)
    with Cons.prems(1) show ?thesis by (simp add: same_params_def write_loop_done)
  next
    case True
    from write_cluster_ok [OF Cons.prems(1) cc Cons.prems(4) assms(5,6)] obtain s1 w1 where
      s1: "write_secs (cluster_to_lba c s) 0 ?m buf sz w s = Some (Some w1, s1)" "full_vol s1" "same_params s s1"
      and w1: "unat w1 = min (unat sz) (unat w + 512 * ?m)"
      and d1: "take (unat w1 - unat w) (cluster_data s1 c) = take (unat w1 - unat w) (drop (unat w) buf)"
      and o1: "\<forall>l. \<not> cluster_sec s c l \<longrightarrow> sec_at s1 l = sec_at s l"
      and e1: "\<forall>y. cluster_of s y \<longrightarrow> fat_entry s1 y = fat_entry s y"
      by (elim exE conjE) (rule that)
    have ok1: "fat_ok s1" using s1(2) vol16D(1) by (simp add: full_vol_def)
    have "fat_entry s1 c = Some n" using e1 cc n(1) by simp
    then obtain s2 where s2: "get_fat_entry_fat1216 c s1 = Some (n, s2)" by (auto simp: fat_entry_def)
    have bu: "buffered s1 s2" by (rule get_fat_entry_buffered [OF ok1 s2])
    have p2: "same_params s s2" using s1(3) buffered_params [OF bu] by (simp add: same_params_def)
    have v2: "full_vol s2" by (rule full_vol_buffered [OF bu s1(2)])
    have e2: "fat_entry s2 y = fat_entry s1 y" for y by (rule fat_entry_buffered [OF ok1 bu])
    have inx: "\<forall>y \<in> set xs. cluster_of s2 y" using Cons.prems(3) cluster_of_cong [OF p2] by simp
    have ch2: "chain s2 n xs"
      by (rule fat_chain_cong [OF n(2)]) (use p2 e1 e2 Cons.prems(3) in \<open>simp_all add: eoc_min_def same_params_def\<close>)
    have le1: "unat w1 \<le> unat sz" using w1 by simp
    have sz1: "unat sz \<le> unat w1 + 512 * unat (sectors_per_cluster s2) * length xs"
      using Cons.prems(5) w1 p2 by (auto simp: same_params_def algebra_simps)
    obtain s' where s': "fat1216_write_loop n buf sz w1 s2 = Some (0, s')" "full_vol s'" "same_params s2 s'"
      and d': "take (unat sz - unat w1) (concat (map (cluster_data s') xs)) = take (unat sz - unat w1) (drop (unat w1) buf)"
      and o': "\<forall>l. (\<forall>y \<in> set xs. \<not> cluster_sec s2 y l) \<longrightarrow> sec_at s' l = sec_at s2 l"
      and e': "\<forall>y. cluster_of s2 y \<longrightarrow> fat_entry s' y = fat_entry s2 y"
      using Cons.IH [OF v2 ch2 inx le1 sz1] by (elim exE conjE) (rule that)
    have run: "fat1216_write_loop c buf sz w s = Some (0, s')"
      using True x(2,3) s1(1) s2 s'(1) by (subst fat1216_write_loop.simps) simp
    have par: "same_params s s'" using p2 s'(3) by (simp add: same_params_def)
    have sec2: "sec_at s2 l = sec_at s1 l" for l by (rule buffered_simps(3) [OF bu])
    have "cluster_data s' c = cluster_data s1 c"
    proof (rule cluster_data_keep [OF Cons.prems(1) cc s1(3) par])
      fix l assume l: "cluster_sec s c l"
      have "c \<notin> set xs" using chain_distinct [OF Cons.prems(2)] x(1) by simp
      then have "\<not> cluster_sec s2 y l" if "y \<in> set xs" for y
        using cluster_sec_disjoint [OF cc, of y l] Cons.prems(3) that l same_params_geom(3) [OF p2] by auto
      then show "sec_at s' l = sec_at s1 l" using o' sec2 by simp
    qed
    with d1 have dc: "take (unat w1 - unat w) (cluster_data s' c) = take (unat w1 - unat w) (drop (unat w) buf)" by simp
    have lc: "length (cluster_data s' c) = 512 * ?m" using length_cluster_data [OF s'(2)] par by (simp add: same_params_def)
    have dat: "take (unat sz - unat w) (concat (map (cluster_data s') (x # xs))) = take (unat sz - unat w) (drop (unat w) buf)"
      unfolding x(1) list.map concat.simps
      by (rule take_blocks [OF lc dc d']) (use w1 Cons.prems(4) in \<open>auto simp: min_def split: if_splits\<close>)
    have out: "\<forall>l. (\<forall>y \<in> set (x # xs). \<not> cluster_sec s y l) \<longrightarrow> sec_at s' l = sec_at s l"
      using o1 o' sec2 x(1) same_params_geom(3) [OF p2] by simp
    have ent: "\<forall>y. cluster_of s y \<longrightarrow> fat_entry s' y = fat_entry s y"
      using e1 e2 e' cluster_of_cong [OF p2] by simp
    show ?thesis by (intro exI conjI) (rule run, rule s'(2), rule par, rule dat, rule out, rule ent)
  qed
qed

text \<open>C12: On a FAT16 volume and a working drive, writing \<open>size\<close> bytes to a chain with room for them returns 0, and
  reading the file of that chain afterwards gives exactly those bytes back; the table is unchanged.\<close>

theorem fat_write_then_read:
  assumes "full_vol s" and "fs_kind s \<noteq> FS_EXFAT" and "chain s c cs" and "\<forall>x \<in> set cs. cluster_of s x"
    and "length buf = unat sz" and "unat sz < 2 ^ 31" and "unat sz \<le> 512 * unat (sectors_per_cluster s) * length cs"
  shows "\<exists>s' s''. fat1216_write_bytes c buf sz s = Some (0, s') \<and> fat_read_file c sz s' = Some ((int (unat sz), buf), s'')
    \<and> (\<forall>x. cluster_of s x \<longrightarrow> fat_entry s' x = fat_entry s x)"
proof -
  have b: "unat sz + 512 < 2 ^ 32" and w0: "unat (0 :: u32) \<le> unat sz"
    and room: "unat sz \<le> unat (0 :: u32) + 512 * unat (sectors_per_cluster s) * length cs" using assms(6,7) by simp_all
  have "unat sz \<le> length buf" using assms(5) by simp
  from write_loop_ok [OF assms(1,3,4) w0 this b room] obtain s' where
    run: "fat1216_write_loop c buf sz 0 s = Some (0, s')" "full_vol s'" "same_params s s'"
    and dat: "take (unat sz - unat (0 :: u32)) (concat (map (cluster_data s') cs)) = take (unat sz - unat (0 :: u32)) (drop (unat (0 :: u32)) buf)"
    and ent: "\<forall>x. cluster_of s x \<longrightarrow> fat_entry s' x = fat_entry s x"
    by (elim exE conjE) (rule that)
  have ch: "chain s' c cs"
    by (rule fat_chain_cong [OF assms(3)]) (use ent assms(4) run(3) in \<open>auto simp: eoc_min_def same_params_def\<close>)
  have ok: "fat_ok s'" using run(2) vol16D(1) by (simp add: full_vol_def)
  from read_loop_ok [OF ok ch _ b, of "[]"] dat assms(5) obtain s'' where
    rd: "fat1216_read_loop c sz [] s' = Some (buf, s'')" by auto
  have "sint (of_nat (unat sz) :: u32) = int (unat sz)"
    by (rule sint_of_nat_32 [OF assms(6)])
  then have "fat_read_file c sz s' = Some ((int (unat sz), buf), s'')"
    using rd assms(2,5) run(3) by (simp add: fat_read_file_def same_params_def)
  moreover have "fat1216_write_bytes c buf sz s = Some (0, s')" using run(1) by (simp add: fat1216_write_bytes_def)
  ultimately show ?thesis using ent by blast
qed

lemma sample_full: "full_vol sample16"
  by (simp add: full_vol_def sample_vol16 data_geom_def) (simp add: sample16_def)

theorem fat_write_then_read_witness:
  "\<exists>s' s''. fat1216_write_bytes 2 [1, 2, 3] 3 sample16 = Some (0, s') \<and> fat_read_file 2 3 s' = Some ((3, [1, 2, 3]), s'')"
proof -
  have k: "fs_kind sample16 \<noteq> FS_EXFAT" "sectors_per_cluster sample16 = 1" by (simp_all add: sample16_def)
  have n: "unat (3 :: u32) = 3" by simp
  from fat_write_then_read [OF sample_full k(1) sample_chain, of "[1, 2, 3]" 3]
  show ?thesis unfolding n k(2) using sample_cluster by auto
qed

end
