(* ===== verification/Exfatprops.thy ===== *)
theory Exfatprops
  imports Fattable
begin

text \<open>
  The exFAT allocation bitmap as a set of clusters, the exFAT table entry, and names: the comparison
  with an 8.3 name is equality up to case.
\<close>

section \<open>The bitmap\<close>

definition in_bitmap :: "fat \<Rightarrow> u32 \<Rightarrow> bool" where
  "in_bitmap s c \<longleftrightarrow> exfat_bitmap_valid s \<and> 2 \<le> c \<and> (unat c - 2) div 8 < unat (exfat_bitmap_bytes s)"

definition bitmap_base :: "fat \<Rightarrow> u32" where
  "bitmap_base s = exfat_cluster_to_lba (exfat_bitmap_clu s) s"

text \<open>The bitmap's sectors lie within the 28-bit addresses.\<close>

definition bitmap_geom :: "fat \<Rightarrow> bool" where
  "bitmap_geom s \<longleftrightarrow> unat (bitmap_base s) + unat (exfat_bitmap_bytes s) div 512 < 2 ^ 28"

definition bm_lba :: "fat \<Rightarrow> u32 \<Rightarrow> u32" where
  "bm_lba s c = bitmap_base s + of_nat ((unat c - 2) div 8 div 512)"

lemma unat_div_64: "unat (x div 8 :: u64) = unat x div 8" "unat (x div 512 :: u64) = unat x div 512"
  "unat (x mod 8 :: u64) = unat x mod 8" "unat (x mod 512 :: u64) = unat x mod 512"
  by (simp_all only: unat_div unat_mod) simp_all

lemma bitmap_addr_in:
  assumes "fat_ok s" and "in_bitmap s c"
  shows "bitmap_addr c s = Some (bm_lba s c, (unat c - 2) div 8 mod 512, (unat c - 2) mod 8)"
proof -
  define b where "b = (ucast c - 2 :: u64)"
  have "2 \<le> unat c" using assms(2) by (simp add: in_bitmap_def word_le_nat_alt)
  then have "(2 :: u64) \<le> ucast c" by (simp add: word_le_nat_alt)
  then have b: "unat b = unat c - 2" by (simp add: b_def unat_sub)
  have "unat (b div 8 div 512) < 2 ^ 32"
  proof -
    have "unat b div 8 div 512 \<le> unat b" using div_le_dividend le_trans by blast
    then show ?thesis unfolding unat_div_64 b using unat_less_32 [of c] by simp
  qed
  then have u: "(ucast (b div 8 div 512) :: u32) = of_nat ((unat c - 2) div 8 div 512)"
    by (simp add: word_unat_eq_iff unsigned_ucast_eq take_bit_nat_eq_self unat_of_nat unat_div_64 b)
  have bp: "ucast (bytes_per_sector s) = (512 :: u64)" using fat_okD(2) [OF assms(1)] by simp
  have "\<not> (\<not> exfat_bitmap_valid s \<or> c < 2 \<or> b div 8 \<ge> exfat_bitmap_bytes s)"
    using assms(2) by (simp add: in_bitmap_def word_le_nat_alt word_less_nat_alt unat_div_64 b)
  then show ?thesis
    unfolding bitmap_addr_def Let_def b_def [symmetric] bp bm_lba_def bitmap_base_def
    by (simp add: u unat_div_64 b)
qed

definition is_free :: "fat \<Rightarrow> u32 \<Rightarrow> bool option" where
  "is_free s c = (case exfat_bitmap_is_free c s of Some (r, _) \<Rightarrow> r | None \<Rightarrow> None)"

lemma and_one_bit: "(drop_bit k (b :: u8) AND 1 = 0) = (\<not> bit b k)"
  by (auto simp: and_one_eq bit_iff_odd_drop_bit even_iff_mod_2_eq_zero)

lemma is_free_bit:
  assumes "fat_ok s" and "in_bitmap s c"
  shows "is_free s c = Some (\<not> bit (sec_at s (bm_lba s c) ! ((unat c - 2) div 8 mod 512)) ((unat c - 2) mod 8))"
proof -
  let ?r = "(unat c - 2) div 8 mod 512"
  have "?r < length (sec_at s (bm_lba s c))" by (simp add: sec_at_length [OF assms(1)])
  then have "peek (sec_at s (bm_lba s c)) ?r 1 = Some [sec_at s (bm_lba s c) ! ?r]"
    by (simp add: peek_def take_Suc_conv_app_nth)
  moreover have "bytes_per_sector s \<noteq> 0" using fat_okD(2) [OF assms(1)] by simp
  ultimately show ?thesis
    by (simp add: is_free_def exfat_bitmap_is_free_def bitmap_addr_in [OF assms] load_sector_ok [OF assms(1)] and_one_bit)
qed

lemma bit_patch:
  assumes "k < 8"
  shows "bit (if on then b OR push_bit k 1 else b AND NOT (push_bit k 1) :: u8) j = (if j = k then on else bit b j)"
  using assms bit_imp_le_length [of b j] by (cases on) (auto simp: bit_simps)

lemma bm_lba_inj:
  assumes "bitmap_geom s" and "in_bitmap s c" and "in_bitmap s d"
  shows "lba28 (bm_lba s c) = bm_lba s c" and "bm_lba s c = bm_lba s d \<longleftrightarrow> (unat c - 2) div 8 div 512 = (unat d - 2) div 8 div 512"
proof -
  have u: "unat (bm_lba s x) = unat (bitmap_base s) + (unat x - 2) div 8 div 512"
    "unat (bitmap_base s) + (unat x - 2) div 8 div 512 < 2 ^ 28" if "in_bitmap s x" for x
  proof -
    have "(unat x - 2) div 8 div 512 \<le> unat (exfat_bitmap_bytes s) div 512"
      using that by (intro div_le_mono) (simp add: in_bitmap_def)
    then show b: "unat (bitmap_base s) + (unat x - 2) div 8 div 512 < 2 ^ 28"
      using assms(1) by (simp add: bitmap_geom_def)
    then show "unat (bm_lba s x) = unat (bitmap_base s) + (unat x - 2) div 8 div 512"
      by (simp add: bm_lba_def unat_word_ariths unat_of_nat_32)
  qed
  show "lba28 (bm_lba s c) = bm_lba s c" using u [OF assms(2)] by (intro lba28_id) simp
  show "bm_lba s c = bm_lba s d \<longleftrightarrow> (unat c - 2) div 8 div 512 = (unat d - 2) div 8 div 512"
    using u(1) [OF assms(2)] u(1) [OF assms(3)] by (simp add: word_unat_eq_iff)
qed

text \<open>The bitmap with the bit of \<open>c\<close> set to \<open>on\<close>: its byte, its sector, the disk.\<close>

definition marked_sec :: "fat \<Rightarrow> u32 \<Rightarrow> bool \<Rightarrow> u8 list" where
  "marked_sec s c on =
     (let d = sec_at s (bm_lba s c); r = (unat c - 2) div 8 mod 512; m = push_bit ((unat c - 2) mod 8) 1
      in d[r := (if on then d ! r OR m else d ! r AND NOT m)])"

definition marked :: "fat \<Rightarrow> u32 \<Rightarrow> bool \<Rightarrow> fat" where
  "marked s c on = set_sec (bm_lba s c) (marked_sec s c on) (s\<lparr>sector_buf := marked_sec s c on\<rparr>)"

lemma length_marked_sec: "fat_ok s \<Longrightarrow> length (marked_sec s c on) = 512"
  by (simp add: marked_sec_def Let_def sec_at_length)

lemma marked_sec_bit:
  assumes "fat_ok s" and "r' < 512" and "k' < 8"
  shows "bit (marked_sec s c on ! r') k' = (if r' = (unat c - 2) div 8 mod 512 \<and> k' = (unat c - 2) mod 8 then on
    else bit (sec_at s (bm_lba s c) ! r') k')"
proof (cases "r' = (unat c - 2) div 8 mod 512")
  case True
  have k: "(unat c - 2) mod 8 < 8" by simp
  have "marked_sec s c on ! r' = (let d = sec_at s (bm_lba s c); m = push_bit ((unat c - 2) mod 8) 1
      in if on then d ! r' OR m else d ! r' AND NOT m)"
    unfolding marked_sec_def Let_def True using sec_at_length [OF assms(1)] by simp
  then show ?thesis unfolding Let_def using True by (simp only: bit_patch [OF k]) simp
qed (simp add: marked_sec_def Let_def)

lemma exfat_bitmap_marked:
  assumes "fat_ok s" and "in_bitmap s c"
  shows "exfat_bitmap_modify_bit c on s = Some (0, marked s c on)" and "fat_ok (marked s c on)"
proof -
  define l r k d where "l = bm_lba s c" and "r = (unat c - 2) div 8 mod 512" and "k = (unat c - 2) mod 8" and "d = sec_at s l"
  let ?b = "marked_sec s c on"
  have ld: "length d = 512" unfolding d_def by (rule sec_at_length [OF assms(1)])
  have lb: "length ?b = 512" by (rule length_marked_sec [OF assms(1)])
  have r: "r < 512" by (simp add: r_def)
  have b: "?b = d[r := (if on then d ! r OR push_bit k 1 else d ! r AND NOT (push_bit k 1))]"
    by (simp add: marked_sec_def Let_def d_def l_def r_def k_def)
  have okb: "fat_ok (s\<lparr>sector_buf := ?b\<rparr>)" using assms(1) lb by simp
  show "fat_ok (marked s c on)" using okb lb by (simp add: marked_def)
  have pk: "peek d r 1 = Some [d ! r]" using r ld by (simp add: peek_def take_Suc_conv_app_nth)
  have po: "poke d r [if on then d ! r OR push_bit k 1 else d ! r AND NOT (push_bit k 1)] = Some ?b"
    using r ld by (simp add: poke_def b blit_def upd_conv_take_nth_drop)
  have st: "store l ?b (s\<lparr>sector_buf := ?b\<rparr>) = Some (True, marked s c on)"
    using store_ok [OF okb, of l ?b] lb by (simp add: marked_def l_def)
  have ld0: "load_sector l s = Some (True, s\<lparr>sector_buf := d\<rparr>)" using load_sector_ok [OF assms(1), of l] by (simp add: d_def)
  have nz: "\<not> bytes_per_sector s = 0" using fat_okD(2) [OF assms(1)] by simp
  show "exfat_bitmap_modify_bit c on s = Some (0, marked s c on)"
    unfolding exfat_bitmap_modify_bit_def bitmap_addr_in [OF assms] l_def [symmetric] r_def [symmetric] k_def [symmetric]
      option.case prod.case if_not_P [OF nz] ld0
    using pk po st by (cases on) simp_all
qed

lemma marked_bits:
  assumes "fat_ok s" and "bitmap_geom s" and "in_bitmap s c" and "in_bitmap s d"
  shows "bit (sec_at (marked s c on) (bm_lba s d) ! ((unat d - 2) div 8 mod 512)) ((unat d - 2) mod 8)
    = (if d = c then on else bit (sec_at s (bm_lba s d) ! ((unat d - 2) div 8 mod 512)) ((unat d - 2) mod 8))"
proof -
  let ?x = "\<lambda>c. unat c - 2"
  note inj = bm_lba_inj [OF assms(2,4,3)]
  have sec: "sec_at (marked s c on) (bm_lba s d) = (if bm_lba s d = bm_lba s c then marked_sec s c on else sec_at s (bm_lba s d))"
    unfolding marked_def using inj(1) bm_lba_inj(1) [OF assms(2,3,3)] by simp
  have "d = c" if "bm_lba s d = bm_lba s c" "?x d div 8 mod 512 = ?x c div 8 mod 512" "?x d mod 8 = ?x c mod 8"
  proof -
    have "?x d div 8 = ?x c div 8" using that(1,2) inj(2) by (metis div_mult_mod_eq)
    then have "?x d = ?x c" using that(3) by (metis div_mult_mod_eq)
    then show "d = c" using assms(3,4) by (auto simp: in_bitmap_def word_le_nat_alt word_unat_eq_iff)
  qed
  then show ?thesis unfolding sec by (auto simp: marked_sec_bit [OF assms(1)])
qed

text \<open>On a working drive, marking a cluster in the exFAT bitmap (used when \<open>on\<close>, free otherwise) returns 0,
  and afterwards exactly that cluster's bit has that value: every other cluster is free or used as
  before.\<close>

theorem exfat_bitmap_modify_then_read:
  assumes "fat_ok s" and "bitmap_geom s" and "in_bitmap s c"
  shows "\<exists>s'. exfat_bitmap_modify_bit c on s = Some (0, s')
    \<and> (\<forall>d. in_bitmap s d \<longrightarrow> is_free s' d = (if d = c then Some (\<not> on) else is_free s d))"
proof -
  note M = exfat_bitmap_marked [OF assms(1,3), of on]
  have "is_free (marked s c on) d = (if d = c then Some (\<not> on) else is_free s d)" if d: "in_bitmap s d" for d
  proof -
    have "in_bitmap (marked s c on) d" using d by (simp add: in_bitmap_def marked_def set_sec_def)
    moreover have "bm_lba (marked s c on) d = bm_lba s d"
      by (simp add: bm_lba_def bitmap_base_def marked_def exfat_cluster_to_lba_def spc_def set_sec_def)
    ultimately show ?thesis
      using is_free_bit [OF M(2)] is_free_bit [OF assms(1) d] marked_bits [OF assms d, of on] by simp
  qed
  with M(1) show ?thesis by blast
qed

section \<open>Names\<close>


text \<open>The characters of a directory name up to its terminator.\<close>

definition utf_name :: "u16 list \<Rightarrow> u16 list" where
  "utf_name w = takeWhile (\<lambda>c. c \<noteq> 0) w"

lemma name_matches_suffix:
  assumes "0 \<notin> set expected" and "ei \<le> length expected"
  shows "name_matches_expected expected ei w
    \<longleftrightarrow> (\<forall>c \<in> set (utf_name w). c \<le> 127) \<and> map (\<lambda>c. ascii_upper (ucast c)) (utf_name w) = drop ei expected"
  using assms(2)
proof (induction w arbitrary: ei)
  case Nil
  have "ei < length expected \<Longrightarrow> expected ! ei \<noteq> 0" using assms(1) nth_mem by metis
  with Nil show ?case by (auto simp: bget_def utf_name_def)
next
  case (Cons c w)
  show ?case
  proof (cases "ei < length expected")
    case True
    have "expected ! ei \<noteq> 0" using assms(1) nth_mem [OF True] by metis
    with True have nz: "bget expected ei \<noteq> 0" and g: "bget expected ei = expected ! ei" by (simp_all add: bget_def)
    have d: "drop ei expected = expected ! ei # drop (Suc ei) expected" using True by (simp add: Cons_nth_drop_Suc)
    show ?thesis
      using Cons.IH [of "Suc ei"] True nz g unfolding d by (auto simp: utf_name_def not_le)
  next
    case False
    then have "bget expected ei = 0" "drop ei expected = []" by (simp_all add: bget_def)
    then show ?thesis by (auto simp: utf_name_def)
  qed
qed

text \<open>The driver's name comparison is equality up to case: a name from an exFAT directory matches the expected
  one exactly when all its characters are ASCII and, in upper case, they spell it.\<close>

theorem exfat_name_match_is_equality:
  assumes "0 \<notin> set expected"
  shows "name_matches_expected expected 0 w
    \<longleftrightarrow> (\<forall>c \<in> set (utf_name w). c \<le> 127) \<and> map (\<lambda>c. ascii_upper (ucast c)) (utf_name w) = expected"
  using name_matches_suffix [OF assms, of 0 w] by simp

definition sample_exfat :: fat where
  "sample_exfat = sample16\<lparr>exfat_bitmap_valid := True, exfat_bitmap_clu := 2, exfat_bitmap_bytes := 25\<rparr>"

theorem exfat_bitmap_modify_then_read_witness:
  "\<exists>s'. exfat_bitmap_modify_bit 9 True sample_exfat = Some (0, s') \<and> is_free s' 9 = Some False
    \<and> is_free s' 10 = is_free sample_exfat 10"
proof -
  have ok: "fat_ok sample_exfat" using sample_ok(1) by (simp add: sample_exfat_def fat_ok_def)
  have g: "bitmap_geom sample_exfat"
    by (simp add: bitmap_geom_def bitmap_base_def exfat_cluster_to_lba_def spc_def sample_exfat_def sample16_def)
  have i: "in_bitmap sample_exfat 9" "in_bitmap sample_exfat 10" by (simp_all add: in_bitmap_def sample_exfat_def)
  from exfat_bitmap_modify_then_read [OF ok g i(1), of True] i show ?thesis by auto
qed

theorem exfat_name_match_is_equality_witness: "name_matches_expected [0x41, 0x2E, 0x42] 0 [0x61, 0x2E, 0x62]"
  by (subst exfat_name_match_is_equality) (simp_all add: utf_name_def ascii_upper_def)

end
