(* ===== verification/Posixfd.thy ===== *)
theory Posixfd
  imports Memfs Keyboard Console "HOL-Library.Monad_Syntax"
begin

text \<open>
  The POSIX layer (\<^verbatim>\<open>src/kernel/posix/posix.c\<close>): the descriptor table over the in-memory file system,
  the keyboard and the console. The state holds those three components. A result is the C result;
  \<open>None\<close> is a call whose C text has no defined meaning, as in the file system.
\<close>

definition OPEN_MAX :: nat where "OPEN_MAX = 16"
definition STDERR_FILENO :: nat where "STDERR_FILENO = 2"
definition SEEK_SET :: int where "SEEK_SET = 0"
definition SEEK_CUR :: int where "SEEK_CUR = 1"
definition S_IFREG :: u32 where "S_IFREG = 0x8000"

datatype fd_type = FD_NONE | FD_CONSOLE_IN | FD_CONSOLE_OUT | FD_IMEM

record fd_entry =
  fd_kind :: fd_type
  fd_path :: string
  fd_offset :: u64

record posix =
  fd_table :: "fd_entry list"
  fd_init :: bool
  errno :: int
  px_fs :: fs
  px_kbd :: kbd
  px_vga :: vga

definition posix_boot :: "fs \<Rightarrow> kbd \<Rightarrow> vga \<Rightarrow> posix" where
  "posix_boot f k v = \<lparr>fd_table = replicate OPEN_MAX \<lparr>fd_kind = FD_NONE, fd_path = [], fd_offset = 0\<rparr>,
     fd_init = False, errno = 0, px_fs = f, px_kbd = k, px_vga = v\<rparr>"

definition fd_set :: "nat \<Rightarrow> (fd_entry \<Rightarrow> fd_entry) \<Rightarrow> posix \<Rightarrow> posix" where
  "fd_set i f p = p\<lparr>fd_table := (fd_table p)[i := f (fd_table p ! i)]\<rparr>"

definition fail_with :: "int \<Rightarrow> posix \<Rightarrow> (int \<times> posix) option" where
  "fail_with e p = Some (- 1, p\<lparr>errno := e\<rparr>)"

section \<open>The table\<close>

definition fd_table_init :: "posix \<Rightarrow> posix" where
  "fd_table_init p =
     (if fd_init p then p
      else let t = map (\<lambda>e. e\<lparr>fd_kind := FD_NONE\<rparr>) (fd_table p);
               t = t[0 := (t ! 0)\<lparr>fd_kind := FD_CONSOLE_IN\<rparr>];
               t = t[1 := (t ! 1)\<lparr>fd_kind := FD_CONSOLE_OUT\<rparr>];
               t = t[2 := (t ! 2)\<lparr>fd_kind := FD_CONSOLE_OUT\<rparr>]
        in p\<lparr>fd_init := True, fd_table := t\<rparr>)"

fun alloc_loop :: "fd_entry list \<Rightarrow> nat \<Rightarrow> nat option" where
  "alloc_loop [] i = None"
| "alloc_loop (e # es) i = (if fd_kind e = FD_NONE then Some i else alloc_loop es (i + 1))"

definition alloc_fd :: "posix \<Rightarrow> nat option" where
  "alloc_fd p = alloc_loop (drop (STDERR_FILENO + 1) (fd_table p)) (STDERR_FILENO + 1)"

text \<open>The test at the head of \<open>read\<close> and \<open>write\<close>, and the kind of a descriptor that passes it.\<close>

definition fd_of :: "int \<Rightarrow> posix \<Rightarrow> fd_type" where
  "fd_of fd p = (if fd < 0 \<or> fd \<ge> int OPEN_MAX then FD_NONE else fd_kind (fd_table p ! nat fd))"

section \<open>Operations\<close>

definition posix_open :: "string \<Rightarrow> posix \<Rightarrow> (int \<times> posix) option" where
  "posix_open path p =
     (let p = fd_table_init p in
      case alloc_fd p of
        None \<Rightarrow> fail_with (- 24) p
      | Some fd \<Rightarrow>
          let p = fd_set fd (\<lambda>e. e\<lparr>fd_path := take (FS_PATH_MAX - 1) path, fd_kind := FD_IMEM, fd_offset := 0\<rparr>) p
          in do {
            ex \<leftarrow> fs_exists path (px_fs p);
            if ex = 0 then
              (let (r, f) = fs_create path (px_fs p); p = p\<lparr>px_fs := f\<rparr>
               in if r \<noteq> 0 then fail_with (- 2) (fd_set fd (\<lambda>e. e\<lparr>fd_kind := FD_NONE\<rparr>) p)
                  else Some (int fd, p))
            else Some (int fd, p)
          })"

text \<open>Characters from the keyboard until there is none, or \<open>count\<close>.\<close>

fun console_read :: "nat \<Rightarrow> kbd \<Rightarrow> u8 list \<times> kbd" where
  "console_read 0 k = ([], k)"
| "console_read (Suc n) k =
     (let (c, k) = keyboard_getchar k
      in if c = 0 then ([], k) else let (cs, k) = console_read n k in (c # cs, k))"

text \<open>The C result and the bytes stored in the caller's buffer.\<close>

definition posix_read :: "int \<Rightarrow> u64 \<Rightarrow> posix \<Rightarrow> ((int \<times> u8 list) \<times> posix) option" where
  "posix_read fd count p =
     (let p = fd_table_init p in
      case fd_of fd p of
        FD_CONSOLE_IN \<Rightarrow>
          (let (cs, k) = console_read (unat count) (px_kbd p) in Some ((int (length cs), cs), p\<lparr>px_kbd := k\<rparr>))
      | FD_IMEM \<Rightarrow> do {
          (r, bs) \<leftarrow> fs_read (fd_path (fd_table p ! nat fd)) count (px_fs p);
          if r < 0 then Some ((- 1, bs), p\<lparr>errno := - 2\<rparr>)
          else Some ((r, bs), fd_set (nat fd) (\<lambda>e. e\<lparr>fd_offset := fd_offset e + of_int r\<rparr>) p)
        }
      | _ \<Rightarrow> Some ((- 1, []), p\<lparr>errno := - 9\<rparr>))"

definition posix_write :: "int \<Rightarrow> u8 list \<Rightarrow> posix \<Rightarrow> int \<times> posix" where
  "posix_write fd buf p =
     (let p = fd_table_init p; count = length buf in
      case fd_of fd p of
        FD_CONSOLE_OUT \<Rightarrow> (int count, p\<lparr>px_vga := fold vga_putchar buf (px_vga p)\<rparr>)
      | FD_IMEM \<Rightarrow>
          (let (r, f) = fs_write (fd_path (fd_table p ! nat fd)) buf (px_fs p); p = p\<lparr>px_fs := f\<rparr>
           in if r \<noteq> 0 then (- 1, p\<lparr>errno := - 2\<rparr>)
              else (int count, fd_set (nat fd) (\<lambda>e. e\<lparr>fd_offset := fd_offset e + of_nat count\<rparr>) p))
      | _ \<Rightarrow> (- 1, p\<lparr>errno := - 9\<rparr>))"

definition posix_close :: "int \<Rightarrow> posix \<Rightarrow> int \<times> posix" where
  "posix_close fd p =
     (let p = fd_table_init p in
      if fd < 0 \<or> fd \<ge> int OPEN_MAX then (- 1, p\<lparr>errno := - 9\<rparr>)
      else if fd \<le> int STDERR_FILENO then (0, p)
      else (0, fd_set (nat fd) (\<lambda>e. e\<lparr>fd_kind := FD_NONE\<rparr>) p))"

definition posix_lseek :: "int \<Rightarrow> u64 \<Rightarrow> int \<Rightarrow> posix \<Rightarrow> int \<times> posix" where
  "posix_lseek fd offset whence p =
     (let p = fd_table_init p in
      if fd_of fd p \<noteq> FD_IMEM then (- 1, p\<lparr>errno := - 9\<rparr>)
      else if whence = SEEK_SET then
        (sint offset, fd_set (nat fd) (\<lambda>e. e\<lparr>fd_offset := offset\<rparr>) p)
      else if whence = SEEK_CUR then
        (sint (fd_offset (fd_table p ! nat fd) + offset), fd_set (nat fd) (\<lambda>e. e\<lparr>fd_offset := fd_offset e + offset\<rparr>) p)
      else (- 1, p\<lparr>errno := - 22\<rparr>))"

definition posix_getcwd :: "nat \<Rightarrow> posix \<Rightarrow> string option" where
  "posix_getcwd sz p = fs_get_cwd sz (px_fs p)"

definition posix_chdir :: "string \<Rightarrow> posix \<Rightarrow> int \<times> posix" where
  "posix_chdir path p =
     (let (r, f) = fs_chdir path (px_fs p); p = p\<lparr>px_fs := f\<rparr> in if r = 0 then (0, p) else (- 1, p\<lparr>errno := - 2\<rparr>))"

definition posix_mkdir :: "string \<Rightarrow> posix \<Rightarrow> (int \<times> posix) option" where
  "posix_mkdir path p = do {
     (r, f) \<leftarrow> fs_mkdir path (px_fs p);
     let p = p\<lparr>px_fs := f\<rparr>;
     Some (if r = 0 then (0, p) else (- 1, p\<lparr>errno := - 2\<rparr>))
   }"

text \<open>\<open>st\<close> tells whether the pointer is not null; the value is the mode and the size.\<close>

definition posix_stat :: "string \<Rightarrow> bool \<Rightarrow> posix \<Rightarrow> ((int \<times> (u32 \<times> u32) option) \<times> posix) option" where
  "posix_stat path st p =
     (if \<not> st then Some ((- 1, None), p\<lparr>errno := - 14\<rparr>)
      else do {
        ex \<leftarrow> fs_exists path (px_fs p);
        n \<leftarrow> (if ex \<noteq> 0 then do { (n, _) \<leftarrow> fs_read path (of_nat FS_FILE_BUF) (px_fs p); Some n } else Some (- 1));
        Some ((0, Some (S_IFREG, if n \<ge> 0 then of_int n else 0)), p)
      })"

section \<open>The table stays well formed\<close>

definition fd_inv :: "posix \<Rightarrow> bool" where
  "fd_inv p \<longleftrightarrow> length (fd_table p) = OPEN_MAX \<and> (\<forall>e \<in> set (fd_table p). length (fd_path e) < FS_PATH_MAX)
     \<and> (fd_init p \<longrightarrow> fd_kind (fd_table p ! 0) = FD_CONSOLE_IN \<and> fd_kind (fd_table p ! 1) = FD_CONSOLE_OUT
        \<and> fd_kind (fd_table p ! 2) = FD_CONSOLE_OUT \<and> (\<forall>i \<in> {3..<OPEN_MAX}. fd_kind (fd_table p ! i) \<in> {FD_NONE, FD_IMEM}))"

lemma fd_inv_fields [simp]:
  "fd_inv (p\<lparr>errno := e\<rparr>) = fd_inv p" "fd_inv (p\<lparr>px_fs := f\<rparr>) = fd_inv p"
  "fd_inv (p\<lparr>px_kbd := k\<rparr>) = fd_inv p" "fd_inv (p\<lparr>px_vga := v\<rparr>) = fd_inv p"
  by (simp_all add: fd_inv_def)

lemma fd_table_init_inv:
  assumes "fd_inv p"
  shows "fd_inv (fd_table_init p)" and "fd_init (fd_table_init p)"
proof -
  show "fd_init (fd_table_init p)" by (simp add: fd_table_init_def Let_def)
  have l: "length (fd_table p) = 16" using assms by (simp add: fd_inv_def OPEN_MAX_def)
  have "\<forall>e \<in> set (fd_table (fd_table_init p)). length (fd_path e) < FS_PATH_MAX"
  proof
    fix e assume "e \<in> set (fd_table (fd_table_init p))"
    then obtain i where i: "i < 16" "fd_table (fd_table_init p) ! i = e"
      using l by (auto simp: in_set_conv_nth fd_table_init_def Let_def split: if_splits)
    then have "fd_path e = fd_path (fd_table p ! i)"
      using l by (auto simp: fd_table_init_def Let_def nth_list_update split: if_splits)
    moreover have "fd_table p ! i \<in> set (fd_table p)" using i l by simp
    ultimately show "length (fd_path e) < FS_PATH_MAX" using assms by (simp add: fd_inv_def)
  qed
  then show "fd_inv (fd_table_init p)"
    using assms l by (auto simp: fd_inv_def fd_table_init_def Let_def OPEN_MAX_def)
qed

lemma fd_set_inv:
  assumes "fd_inv p" and "fd_init p" and "3 \<le> i" and "i < OPEN_MAX"
    and "\<And>e. length (fd_path e) < FS_PATH_MAX \<Longrightarrow> length (fd_path (f e)) < FS_PATH_MAX"
    and "\<And>e. fd_kind e \<in> {FD_NONE, FD_IMEM} \<Longrightarrow> fd_kind (f e) \<in> {FD_NONE, FD_IMEM}"
  shows "fd_inv (fd_set i f p)" and "fd_init (fd_set i f p)"
proof -
  have l: "length (fd_table p) = OPEN_MAX" using assms(1) by (simp add: fd_inv_def)
  have "fd_kind (fd_table p ! i) \<in> {FD_NONE, FD_IMEM}" using assms(1-4) by (simp add: fd_inv_def)
  then have k: "fd_kind (f (fd_table p ! i)) \<in> {FD_NONE, FD_IMEM}" by (rule assms(6))
  have "length (fd_path (f (fd_table p ! i))) < FS_PATH_MAX"
    using assms(1,4) l by (intro assms(5)) (simp add: fd_inv_def)
  then have paths: "\<forall>e \<in> set ((fd_table p)[i := f (fd_table p ! i)]). length (fd_path e) < FS_PATH_MAX"
    using assms(1) set_update_subset_insert [of "fd_table p" i] by (auto simp: fd_inv_def)
  show "fd_init (fd_set i f p)" using assms(2) by (simp add: fd_set_def)
  show "fd_inv (fd_set i f p)"
    using assms(1-4) l k paths by (auto simp: fd_inv_def fd_set_def nth_list_update)
qed

lemma alloc_loop_Some:
  "alloc_loop es i = Some k \<Longrightarrow> i \<le> k \<and> k < i + length es \<and> fd_kind (es ! (k - i)) = FD_NONE"
proof (induction es arbitrary: i)
  case (Cons e es)
  show ?case
  proof (cases "fd_kind e = FD_NONE")
    case False
    with Cons.prems have "alloc_loop es (i + 1) = Some k" by simp
    from Cons.IH [OF this] show ?thesis by (simp add: nth_Cons')
  qed (use Cons.prems in simp)
qed simp

lemma alloc_fd_Some:
  assumes "fd_inv p" and "alloc_fd p = Some fd"
  shows "3 \<le> fd" and "fd < OPEN_MAX" and "fd_kind (fd_table p ! fd) = FD_NONE"
proof -
  have l: "length (fd_table p) = 16" using assms(1) by (simp add: fd_inv_def OPEN_MAX_def)
  note A = alloc_loop_Some [OF assms(2) [unfolded alloc_fd_def STDERR_FILENO_def], simplified l]
  show 3: "3 \<le> fd" and lt: "fd < OPEN_MAX" using A l by (simp_all add: OPEN_MAX_def)
  have "drop 3 (fd_table p) ! (fd - 3) = fd_table p ! fd" using 3 l by simp
  then show "fd_kind (fd_table p ! fd) = FD_NONE" using A by (simp add: numeral_3_eq_3)
qed

lemma fd_of_IMEM:
  assumes "fd_inv p" and "fd_init p" and "fd_of fd p = FD_IMEM"
  shows "3 \<le> nat fd" and "nat fd < OPEN_MAX" and "0 \<le> fd" and "fd_kind (fd_table p ! nat fd) = FD_IMEM"
proof -
  show r: "0 \<le> fd" "nat fd < OPEN_MAX" and k: "fd_kind (fd_table p ! nat fd) = FD_IMEM"
    using assms(3) by (auto simp: fd_of_def split: if_splits)
  show "3 \<le> nat fd"
  proof (rule ccontr)
    assume "\<not> 3 \<le> nat fd"
    then consider "nat fd = 0" | "nat fd = 1" | "nat fd = 2" by linarith
    then show False using assms(1,2) k by cases (simp_all add: fd_inv_def)
  qed
qed

inductive posix_reach :: "posix \<Rightarrow> bool" where
  boot: "fs_reach f \<Longrightarrow> posix_reach (posix_boot f k v)"
| opened: "posix_reach p \<Longrightarrow> posix_open path p = Some (r, p') \<Longrightarrow> posix_reach p'"
| was_read: "posix_reach p \<Longrightarrow> posix_read fd count p = Some (r, p') \<Longrightarrow> posix_reach p'"
| written: "posix_reach p \<Longrightarrow> posix_reach (snd (posix_write fd buf p))"
| closed: "posix_reach p \<Longrightarrow> posix_reach (snd (posix_close fd p))"
| seeked: "posix_reach p \<Longrightarrow> posix_reach (snd (posix_lseek fd offset whence p))"
| moved: "posix_reach p \<Longrightarrow> posix_reach (snd (posix_chdir path p))"
| made: "posix_reach p \<Longrightarrow> posix_mkdir path p = Some (r, p') \<Longrightarrow> posix_reach p'"

lemma fd_inv_boot: "fd_inv (posix_boot f k v)"
  by (simp add: fd_inv_def posix_boot_def FS_PATH_MAX_def)

lemma fd_inv_open:
  assumes "fd_inv p" and "posix_open path p = Some (r, p')"
  shows "fd_inv p'"
proof -
  let ?p = "fd_table_init p"
  note I = fd_table_init_inv [OF assms(1)]
  show ?thesis
  proof (cases "alloc_fd ?p")
    case None
    with assms(2) I show ?thesis by (auto simp: posix_open_def fail_with_def)
  next
    case (Some fd)
    note A = alloc_fd_Some [OF I(1) Some]
    define q where "q = fd_set fd (\<lambda>e. e\<lparr>fd_path := take (FS_PATH_MAX - 1) path, fd_kind := FD_IMEM, fd_offset := 0\<rparr>) ?p"
    have q: "fd_inv q" "fd_init q" unfolding q_def
      by (rule fd_set_inv [OF I A(1,2)]; simp add: FS_PATH_MAX_def)+
    have free: "fd_inv (fd_set fd (\<lambda>e. e\<lparr>fd_kind := FD_NONE\<rparr>) (q\<lparr>px_fs := f\<rparr>))" for f
      using q by (intro fd_set_inv A(1,2)) simp_all
    have "posix_open path p = Option.bind (fs_exists path (px_fs q)) (\<lambda>ex.
        if ex = 0 then
          (let (r, f) = fs_create path (px_fs q)
           in if r \<noteq> 0 then fail_with (- 2) (fd_set fd (\<lambda>e. e\<lparr>fd_kind := FD_NONE\<rparr>) (q\<lparr>px_fs := f\<rparr>))
              else Some (int fd, q\<lparr>px_fs := f\<rparr>))
        else Some (int fd, q))"
      by (simp add: posix_open_def Let_def Some q_def cong: if_cong)
    with assms(2) q free show ?thesis
      by (auto simp: fail_with_def bind_eq_Some_conv Let_def split: if_splits prod.splits)
  qed
qed

lemma fd_inv_set_offset:
  assumes "fd_inv p" and "fd_of fd (fd_table_init p) = FD_IMEM"
  shows "fd_inv (fd_set (nat fd) (\<lambda>e. e\<lparr>fd_offset := g e\<rparr>) ((fd_table_init p)\<lparr>px_fs := f\<rparr>))"
    and "fd_inv (fd_set (nat fd) (\<lambda>e. e\<lparr>fd_offset := g e\<rparr>) (fd_table_init p))"
proof -
  note I = fd_table_init_inv [OF assms(1)]
  note M = fd_of_IMEM [OF I assms(2)]
  show "fd_inv (fd_set (nat fd) (\<lambda>e. e\<lparr>fd_offset := g e\<rparr>) ((fd_table_init p)\<lparr>px_fs := f\<rparr>))"
    using I by (intro fd_set_inv M(1,2)) simp_all
  show "fd_inv (fd_set (nat fd) (\<lambda>e. e\<lparr>fd_offset := g e\<rparr>) (fd_table_init p))"
    using I by (intro fd_set_inv M(1,2)) simp_all
qed

lemma fd_inv_read:
  assumes "fd_inv p" and "posix_read fd count p = Some (r, p')"
  shows "fd_inv p'"
proof (cases "fd_of fd (fd_table_init p)")
  case FD_IMEM
  note S = fd_inv_set_offset(2) [OF assms(1) FD_IMEM]
  from assms(2) FD_IMEM fd_table_init_inv(1) [OF assms(1)] S show ?thesis
    by (auto simp: posix_read_def Let_def bind_eq_Some_conv split: if_splits)
qed (use assms fd_table_init_inv(1) [OF assms(1)] in \<open>auto simp: posix_read_def Let_def split: prod.splits\<close>)

lemma fd_inv_write:
  assumes "fd_inv p"
  shows "fd_inv (snd (posix_write fd buf p))"
proof (cases "fd_of fd (fd_table_init p)")
  case FD_IMEM
  note S = fd_inv_set_offset(1) [OF assms FD_IMEM]
  from FD_IMEM fd_table_init_inv(1) [OF assms] S show ?thesis
    by (simp add: posix_write_def Let_def split: prod.split)
qed (use fd_table_init_inv(1) [OF assms] in \<open>simp_all add: posix_write_def Let_def\<close>)

lemma fd_inv_close:
  assumes "fd_inv p"
  shows "fd_inv (snd (posix_close fd p))"
proof -
  note I = fd_table_init_inv [OF assms]
  have "fd_inv (fd_set (nat fd) (\<lambda>e. e\<lparr>fd_kind := FD_NONE\<rparr>) (fd_table_init p))"
    if "2 < fd" "fd < int OPEN_MAX"
    using that by (intro fd_set_inv I) simp_all
  then show ?thesis using I(1) by (simp add: posix_close_def Let_def STDERR_FILENO_def)
qed

lemma fd_inv_lseek:
  assumes "fd_inv p"
  shows "fd_inv (snd (posix_lseek fd offset whence p))"
proof (cases "fd_of fd (fd_table_init p) = FD_IMEM")
  case True
  note S = fd_inv_set_offset(2) [OF assms True]
  show ?thesis using S fd_table_init_inv(1) [OF assms] True by (simp add: posix_lseek_def Let_def)
qed (use fd_table_init_inv(1) [OF assms] in \<open>simp add: posix_lseek_def Let_def\<close>)

lemma posix_reach_inv: "posix_reach p \<Longrightarrow> fd_inv p"
proof (induction rule: posix_reach.induct)
  case (boot f k v)
  show ?case by (rule fd_inv_boot)
next
  case (opened p path r p')
  show ?case by (rule fd_inv_open [OF opened.IH opened.hyps(2)])
next
  case (was_read p fd count r p')
  show ?case by (rule fd_inv_read [OF was_read.IH was_read.hyps(2)])
next
  case (moved p path)
  then show ?case by (simp add: posix_chdir_def Let_def split: prod.split)
next
  case (made p path r p')
  from made.hyps(2) made.IH show ?case
    by (auto simp: posix_mkdir_def Let_def bind_eq_Some_conv split: if_splits)
qed (simp_all add: fd_inv_write fd_inv_close fd_inv_lseek)

text \<open>C30: In every reachable state the table has its 16 entries, every path fits its array, and once the
  table is set up descriptors 0, 1 and 2 are the console and every other one is free or a file.\<close>

theorem posix_table_well_typed:
  assumes "posix_reach p"
  shows "length (fd_table p) = 16 \<and> (\<forall>e \<in> set (fd_table p). length (fd_path e) < 128)
    \<and> (fd_init p \<longrightarrow> fd_kind (fd_table p ! 0) = FD_CONSOLE_IN \<and> fd_kind (fd_table p ! 1) = FD_CONSOLE_OUT
        \<and> fd_kind (fd_table p ! 2) = FD_CONSOLE_OUT \<and> (\<forall>i \<in> {3..<16}. fd_kind (fd_table p ! i) \<in> {FD_NONE, FD_IMEM}))"
  using posix_reach_inv [OF assms] by (simp add: fd_inv_def OPEN_MAX_def FS_PATH_MAX_def)

section \<open>What a file descriptor delivers\<close>

lemma fd_set_fields [simp]: "px_fs (fd_set i f p) = px_fs p" "fd_init (fd_set i f p) = fd_init p"
  by (simp_all add: fd_set_def)

lemma fd_of_fields [simp]:
  "fd_of fd (p\<lparr>errno := e\<rparr>) = fd_of fd p" "fd_of fd (p\<lparr>px_fs := f\<rparr>) = fd_of fd p"
  by (simp_all add: fd_of_def)

lemma fd_table_init_fields [simp]: "px_fs (fd_table_init p) = px_fs p" "fd_init p \<Longrightarrow> fd_table_init p = p"
  by (simp_all add: fd_table_init_def Let_def)

text \<open>Two states a file descriptor cannot tell apart: the same files, path and kind.\<close>

definition fd_same :: "int \<Rightarrow> posix \<Rightarrow> posix \<Rightarrow> bool" where
  "fd_same fd p q \<longleftrightarrow> fd_init p \<and> fd_init q \<and> px_fs p = px_fs q \<and> fd_of fd p = fd_of fd q
     \<and> fd_path (fd_table p ! nat fd) = fd_path (fd_table q ! nat fd)"

lemma fd_same_set:
  assumes "fd_inv p" and "fd_init p" and "fd_of fd p = FD_IMEM"
  shows "fd_same fd p (fd_set (nat fd) (\<lambda>e. e\<lparr>fd_offset := g e\<rparr>) p)"
proof -
  note M = fd_of_IMEM [OF assms]
  have l: "nat fd < length (fd_table p)" using M(2) assms(1) by (simp add: fd_inv_def)
  then show ?thesis using assms M by (simp add: fd_same_def fd_set_def fd_of_def)
qed

lemma fd_same_lseek:
  assumes "fd_inv p" and "fd_init p" and "fd_of fd p = FD_IMEM"
  shows "fd_same fd p (snd (posix_lseek fd offset whence p))"
proof -
  have "fd_same fd p (p\<lparr>errno := - 22\<rparr>)" using assms by (simp add: fd_same_def)
  then show ?thesis using assms fd_same_set [OF assms] by (simp add: posix_lseek_def Let_def)
qed

lemma fd_same_read:
  assumes "fd_same fd p q" and "fd_of fd p = FD_IMEM"
  shows "map_option fst (posix_read fd count q) = map_option fst (posix_read fd count p)"
  using assms
  by (cases "fs_read (fd_path (fd_table p ! nat fd)) count (px_fs p)") (auto simp: fd_same_def posix_read_def Let_def)

lemma fs_reach_open:
  assumes "posix_open path p = Some (r, p')" and "fs_reach (px_fs p)"
  shows "fs_reach (px_fs p')"
proof -
  have "fs_reach f" if "fs_create path (px_fs p) = (x, f)" for x f
    using fs_reach.newfile [OF assms(2), of path] that by simp
  with assms show ?thesis
    by (auto simp: posix_open_def Let_def fail_with_def bind_eq_Some_conv split: option.splits if_splits prod.splits)
qed

lemma posix_reach_fs: "posix_reach p \<Longrightarrow> fs_reach (px_fs p)"
proof (induction rule: posix_reach.induct)
  case (boot f k v)
  then show ?case by (simp add: posix_boot_def)
next
  case (opened p path r p')
  show ?case by (rule fs_reach_open [OF opened.hyps(2) opened.IH])
next
  case (was_read p fd count r p')
  from was_read.hyps(2) was_read.IH show ?case
    by (auto simp: posix_read_def Let_def bind_eq_Some_conv split: fd_type.splits if_splits prod.splits)
next
  case (written p fd buf)
  have "fs_reach f" if "fs_write nm buf (px_fs p) = (x, f)" for nm x f
    using fs_reach.store [OF written.IH, of nm buf] that by simp
  with written.IH show ?case by (simp add: posix_write_def Let_def split: fd_type.split prod.split)
next
  case (closed p fd)
  then show ?case by (simp add: posix_close_def Let_def)
next
  case (seeked p fd offset whence)
  then show ?case by (simp add: posix_lseek_def Let_def)
next
  case (moved p path)
  have "fs_reach f" if "fs_chdir path (px_fs p) = (x, f)" for x f
    using fs_reach.chdir [OF moved.IH, of path] that by simp
  with moved.IH show ?case by (simp add: posix_chdir_def Let_def split: prod.split)
next
  case (made p path r p')
  have "fs_reach f" if "fs_mkdir path (px_fs p) = Some (x, f)" for x f
    using fs_reach.newdir [OF made.IH that] by simp
  with made.hyps(2) show ?case by (auto simp: posix_mkdir_def Let_def bind_eq_Some_conv split: if_splits)
qed

lemma posix_write_file:
  assumes "fd_init p" and "fd_of fd p = FD_IMEM" and "posix_write fd buf p = (r, p')" and "r \<noteq> - 1"
  obtains f where "fs_write (fd_path (fd_table p ! nat fd)) buf (px_fs p) = (0, f)" and "r = int (length buf)"
    and "p' = fd_set (nat fd) (\<lambda>e. e\<lparr>fd_offset := fd_offset e + of_nat (length buf)\<rparr>) (p\<lparr>px_fs := f\<rparr>)"
  using assms by (auto simp: posix_write_def Let_def split: prod.splits if_splits)

text \<open>C29: What \<open>write\<close> stores through a descriptor of an absolute path, \<open>read\<close> returns, in a build that leaves the
  dead frame of \<open>resolve_file_path\<close> alone: the content from its start, cut to the 4096 bytes of a file and to \<open>count - 1\<close> bytes, with a terminator after it. \<open>write\<close> reports
  the whole length all the same, and no \<open>lseek\<close> in between changes what is read: the offset is kept but not used.
  By the C standard, which defines nothing in that frame, the read is undefined.\<close>

theorem posix_write_then_read:
  assumes "posix_reach p" and "fd_init p" and "fd_of fd p = FD_IMEM" and "cget (fd_path (fd_table p ! nat fd)) 0 = CHR ''/''"
    and "posix_write fd buf p = (r, p')" and "r \<noteq> - 1" and "0 < count"
  shows "r = int (length buf)
    \<and> (frame_kept (px_fs p) \<longrightarrow> map_option fst (posix_read fd count (snd (posix_lseek fd offset whence p')))
         = (let n = min (min (length buf) 4096) (unat count - 1) in Some (int n, take n buf @ [0])))
    \<and> (dead_frame (px_fs p) = (\<lambda>_. None) \<longrightarrow> posix_read fd count (snd (posix_lseek fd offset whence p')) = None)"
proof -
  let ?path = "fd_path (fd_table p ! nat fd)"
  have inv: "fd_inv p" by (rule posix_reach_inv [OF assms(1)])
  have fsi: "fs_inv (px_fs p)" by (rule fs_reach_inv [OF posix_reach_fs [OF assms(1)]])
  obtain f where f: "fs_write ?path buf (px_fs p) = (0, f)" "r = int (length buf)"
    and p': "p' = fd_set (nat fd) (\<lambda>e. e\<lparr>fd_offset := fd_offset e + of_nat (length buf)\<rparr>) (p\<lparr>px_fs := f\<rparr>)"
    by (rule posix_write_file [OF assms(2,3,5,6)])
  let ?q = "p\<lparr>px_fs := f\<rparr>"
  have q: "fd_inv ?q" "fd_init ?q" "fd_of fd ?q = FD_IMEM" using inv assms(2,3) by simp_all
  have s: "fd_same fd ?q p'" unfolding p' by (rule fd_same_set [OF q])
  have i': "fd_inv p'" using fd_inv_write [OF inv, of fd buf] assms(5) by simp
  have p'M: "fd_init p'" "fd_of fd p' = FD_IMEM" using s q(3) by (simp_all add: fd_same_def)
  have same: "map_option fst (posix_read fd count (snd (posix_lseek fd offset whence p')))
      = map_option fst (posix_read fd count ?q)"
    using fd_same_read [OF fd_same_lseek [OF i' p'M] p'M(2)] fd_same_read [OF s q(3)] by simp
  have "map_option fst (posix_read fd count ?q) = (let n = min (min (length buf) 4096) (unat count - 1) in Some (int n, take n buf @ [0]))"
    if kept: "frame_kept (px_fs p)"
    using q fs_read_stored [OF fsi assms(4) f(1) assms(7) kept] by (simp add: posix_read_def Let_def FS_FILE_BUF_def)
  moreover have "posix_read fd count ?q = None" if none: "dead_frame (px_fs p) = (\<lambda>_. None)"
    using q fs_read_after_write_undefined [OF fsi assms(4) f(1) none] by (simp add: posix_read_def Let_def)
  ultimately show ?thesis using f(2) same by auto
qed

section \<open>An open file\<close>

definition px_boot :: posix where
  "px_boot = posix_boot (fs_init fs_kept) kbd_boot
     \<lparr>vga_buffer = replicate 2000 0, vga_row = 0, vga_column = 0, vga_fg = 7, vga_bg = 0\<rparr>"

lemma px_boot_reach: "posix_reach px_boot"
  unfolding px_boot_def by (intro posix_reach.boot fs_kept_boot)

lemma fs_init_no_a: "fs_exists ''/a'' (fs_init s) = Some 0"
proof -
  have "path_to_dir ''/a'' (fs_init s) = None"
    using path_to_dir_top [of "''a''" "fs_init s"]
    by (simp add: plain_def FS_NAME_MAX_def dir_by_name_def fs_init_def)
  then show ?thesis
    by (simp add: fs_exists_def norm_ab path_to_dir_root file_by_name_def)
qed

text \<open>Opening \<open>/a\<close> over a root directory without it takes the first free descriptor.\<close>

lemma posix_open_a:
  assumes "fs_create ''/a'' (fs_init fs_kept) = (0, f)"
  shows "\<exists>p. posix_open ''/a'' (posix_boot (fs_init fs_kept) k v) = Some (3, p) \<and> fd_init p \<and> fd_of 3 p = FD_IMEM
    \<and> fd_path (fd_table p ! 3) = ''/a'' \<and> px_fs p = f"
  using assms
  by (simp add: posix_boot_def posix_open_def fs_init_no_a alloc_fd_def fd_table_init_def
        fd_set_def fd_of_def OPEN_MAX_def STDERR_FILENO_def FS_PATH_MAX_def Let_def numeral_eq_Suc cong: if_cong)

lemma fs_create_a: "\<exists>f. fs_create ''/a'' (fs_init fs_kept) = (0, f) \<and> (\<exists>g. fs_write ''/a'' c f = (0, g))"
proof -
  note C = fs_create_top [of "''a''" "fs_init fs_kept"]
  from C show ?thesis
    by (simp add: plain_def FS_NAME_MAX_def FS_MAX_FILES_def file_by_name_def fs_write_def norm_ab last_of_def
        cget_def parent_of_def Let_def)
qed

theorem posix_table_well_typed_witness:
  "\<exists>p. posix_open ''/a'' px_boot = Some (3, p) \<and> length (fd_table p) = 16 \<and> fd_kind (fd_table p ! 1) = FD_CONSOLE_OUT"
proof -
  obtain f where f: "fs_create ''/a'' (fs_init fs_kept) = (0, f)" using fs_create_a by blast
  obtain p where o: "posix_open ''/a'' px_boot = Some (3, p)" "fd_init p"
    using posix_open_a [OF f] unfolding px_boot_def by blast
  have "posix_reach p" by (rule posix_reach.opened [OF px_boot_reach o(1)])
  from posix_table_well_typed [OF this] o show ?thesis by simp
qed

theorem posix_write_then_read_witness:
  "\<exists>p r p'. posix_open ''/a'' px_boot = Some (3, p) \<and> posix_write 3 [7, 8, 9] p = (r, p') \<and> r = 3
    \<and> map_option fst (posix_read 3 3 (snd (posix_lseek 3 2 SEEK_SET p'))) = Some (2, [7, 8, 0])"
proof -
  obtain f g where f: "fs_create ''/a'' (fs_init fs_kept) = (0, f)" "fs_write ''/a'' [7, 8, 9] f = (0, g)"
    using fs_create_a by blast
  obtain p where o: "posix_open ''/a'' px_boot = Some (3, p)" "fd_init p" "fd_of 3 p = FD_IMEM"
    "fd_path (fd_table p ! 3) = ''/a''" "px_fs p = f"
    using posix_open_a [OF f(1)] unfolding px_boot_def by blast
  have R: "posix_reach p" by (rule posix_reach.opened [OF px_boot_reach o(1)])
  obtain r p' where w: "posix_write 3 [7, 8, 9] p = (r, p')" by (metis prod.exhaust)
  have r: "r \<noteq> - 1" using w o f by (auto simp: posix_write_def Let_def)
  have a: "cget (fd_path (fd_table p ! nat 3)) 0 = CHR ''/''" using o by (simp add: cget_def)
  have n: "min (min (length [7 :: u8, 8, 9]) 4096) (unat (3 :: u64) - 1) = 2" by simp
  have pos: "(0 :: u64) < 3" by simp
  have kept: "frame_kept (px_fs p)" using frame_kept_create [OF f(1)] fs_kept_boot(2) o(5) by simp
  from posix_write_then_read [OF R o(2,3) a w r pos, of 2 SEEK_SET] kept
  have "r = 3 \<and> map_option fst (posix_read 3 3 (snd (posix_lseek 3 2 SEEK_SET p'))) = Some (2, [7, 8, 0])"
    unfolding n by (simp add: Let_def)
  with o(1) w show ?thesis by blast
qed

end
