(* ===== verification/Guidraw.thy ===== *)
theory Guidraw
  imports Kprelude "HOL-Library.Monad_Syntax" "HOL-Library.Signed_Division"
begin

text \<open>
  The drawing primitives of the desktop (\<^verbatim>\<open>src/kernel/gui/gui_draw.c\<close>). The frame buffer is the list of
  its bytes; coordinates are C integers far from their bounds. A store outside the buffer has no
  meaning: the whole drawing is then \<open>None\<close>. A drawing is a partial state transformer on the buffer,
  and \<open>for_each\<close> is a counting loop over such steps. \<open>draws\<close> says that a drawing stays inside the buffer.
\<close>

named_theorems draws_intros \<open>drawings that stay inside the frame buffer\<close>

type_synonym fb = "u8 list"

definition GUI_FB_W :: int where "GUI_FB_W = 320"
definition GUI_FB_H :: int where "GUI_FB_H = 200"

definition GUI_C_BLACK :: u8 where "GUI_C_BLACK = 0"
definition GUI_C_BLUE :: u8 where "GUI_C_BLUE = 1"
definition GUI_C_GREEN :: u8 where "GUI_C_GREEN = 2"
definition GUI_C_CYAN :: u8 where "GUI_C_CYAN = 3"
definition GUI_C_RED :: u8 where "GUI_C_RED = 4"
definition GUI_C_MAGENTA :: u8 where "GUI_C_MAGENTA = 5"
definition GUI_C_BROWN :: u8 where "GUI_C_BROWN = 6"
definition GUI_C_LTGRAY :: u8 where "GUI_C_LTGRAY = 7"
definition GUI_C_DKGRAY :: u8 where "GUI_C_DKGRAY = 8"
definition GUI_C_BR_BLUE :: u8 where "GUI_C_BR_BLUE = 9"
definition GUI_C_BR_GREEN :: u8 where "GUI_C_BR_GREEN = 10"
definition GUI_C_BR_CYAN :: u8 where "GUI_C_BR_CYAN = 11"
definition GUI_C_BR_RED :: u8 where "GUI_C_BR_RED = 12"
definition GUI_C_BR_MAGENTA :: u8 where "GUI_C_BR_MAGENTA = 13"
definition GUI_C_YELLOW :: u8 where "GUI_C_YELLOW = 14"
definition GUI_C_WHITE :: u8 where "GUI_C_WHITE = 15"

lemmas gui_colors = GUI_C_BLACK_def GUI_C_BLUE_def GUI_C_GREEN_def GUI_C_CYAN_def GUI_C_RED_def GUI_C_MAGENTA_def GUI_C_BROWN_def GUI_C_LTGRAY_def GUI_C_DKGRAY_def GUI_C_BR_BLUE_def GUI_C_BR_GREEN_def GUI_C_BR_CYAN_def GUI_C_BR_RED_def GUI_C_BR_MAGENTA_def GUI_C_YELLOW_def GUI_C_WHITE_def

definition gui_palette :: "u8 list" where
  "gui_palette = [0, 0, 0, 0, 0, 42, 0, 42, 0, 0, 42, 42, 42, 0, 0, 42, 0, 42, 42, 21, 0, 42, 42, 42, 21, 21, 21, 21, 21, 63, 21, 63, 21, 21, 63, 63, 63, 21, 21, 63, 21, 63, 63, 63, 21, 63, 63, 63]"

definition FONT_ASCII :: "u8 list list" where
  "FONT_ASCII =
    [[0x00, 0x00, 0x00, 0x00, 0x00, 0x00, 0x00, 0x00],
     [0x18, 0x18, 0x18, 0x18, 0x18, 0x00, 0x18, 0x00],
     [0x36, 0x36, 0x36, 0x00, 0x00, 0x00, 0x00, 0x00],
     [0x36, 0x36, 0x7F, 0x36, 0x7F, 0x36, 0x36, 0x00],
     [0x0C, 0x3E, 0x03, 0x1E, 0x30, 0x1F, 0x0C, 0x00],
     [0x00, 0x63, 0x33, 0x18, 0x0C, 0x66, 0x63, 0x00],
     [0x1C, 0x36, 0x1C, 0x6E, 0x3B, 0x33, 0x6E, 0x00],
     [0x18, 0x18, 0x18, 0x00, 0x00, 0x00, 0x00, 0x00],
     [0x0E, 0x1C, 0x18, 0x18, 0x18, 0x1C, 0x0E, 0x00],
     [0x70, 0x38, 0x18, 0x18, 0x18, 0x38, 0x70, 0x00],
     [0x00, 0x66, 0x3C, 0xFF, 0x3C, 0x66, 0x00, 0x00],
     [0x00, 0x18, 0x18, 0x7E, 0x18, 0x18, 0x00, 0x00],
     [0x00, 0x00, 0x00, 0x00, 0x18, 0x18, 0x30, 0x00],
     [0x00, 0x00, 0x00, 0x7E, 0x00, 0x00, 0x00, 0x00],
     [0x00, 0x00, 0x00, 0x00, 0x00, 0x18, 0x18, 0x00],
     [0x00, 0x03, 0x06, 0x0C, 0x18, 0x30, 0x60, 0x00],
     [0x3C, 0x66, 0x6E, 0x76, 0x66, 0x66, 0x3C, 0x00],
     [0x18, 0x38, 0x18, 0x18, 0x18, 0x18, 0x7E, 0x00],
     [0x3C, 0x66, 0x06, 0x0C, 0x30, 0x60, 0x7E, 0x00],
     [0x3C, 0x66, 0x06, 0x1C, 0x06, 0x66, 0x3C, 0x00],
     [0x1C, 0x3C, 0x6C, 0xCC, 0xFE, 0x0C, 0x1E, 0x00],
     [0x7E, 0x60, 0x7C, 0x06, 0x06, 0x66, 0x3C, 0x00],
     [0x1C, 0x30, 0x60, 0x7C, 0x66, 0x66, 0x3C, 0x00],
     [0x7E, 0x06, 0x0C, 0x18, 0x30, 0x30, 0x30, 0x00],
     [0x3C, 0x66, 0x66, 0x3C, 0x66, 0x66, 0x3C, 0x00],
     [0x3C, 0x66, 0x66, 0x3E, 0x06, 0x0C, 0x38, 0x00],
     [0x00, 0x18, 0x18, 0x00, 0x00, 0x18, 0x18, 0x00],
     [0x00, 0x18, 0x18, 0x00, 0x00, 0x18, 0x18, 0x30],
     [0x00, 0x06, 0x0C, 0x18, 0x30, 0x18, 0x0C, 0x00],
     [0x00, 0x00, 0x7E, 0x00, 0x00, 0x7E, 0x00, 0x00],
     [0x00, 0x60, 0x30, 0x18, 0x0C, 0x18, 0x30, 0x00],
     [0x3C, 0x66, 0x06, 0x0C, 0x18, 0x00, 0x18, 0x00],
     [0x3C, 0x66, 0x6E, 0x6E, 0x60, 0x62, 0x3C, 0x00],
     [0x18, 0x3C, 0x66, 0x66, 0x7E, 0x66, 0x66, 0x00],
     [0x7E, 0x66, 0x66, 0x7E, 0x66, 0x66, 0x7E, 0x00],
     [0x3C, 0x66, 0x60, 0x60, 0x60, 0x66, 0x3C, 0x00],
     [0x7C, 0x66, 0x66, 0x66, 0x66, 0x66, 0x7C, 0x00],
     [0x7E, 0x60, 0x60, 0x7C, 0x60, 0x60, 0x7E, 0x00],
     [0x7E, 0x60, 0x60, 0x7C, 0x60, 0x60, 0x60, 0x00],
     [0x3C, 0x66, 0x60, 0x6E, 0x66, 0x66, 0x3C, 0x00],
     [0x66, 0x66, 0x66, 0x7E, 0x66, 0x66, 0x66, 0x00],
     [0x3C, 0x18, 0x18, 0x18, 0x18, 0x18, 0x3C, 0x00],
     [0x1E, 0x0C, 0x0C, 0x0C, 0x0C, 0x6C, 0x38, 0x00],
     [0x66, 0x6C, 0x78, 0x70, 0x78, 0x6C, 0x66, 0x00],
     [0x60, 0x60, 0x60, 0x60, 0x60, 0x60, 0x7E, 0x00],
     [0x63, 0x77, 0x7F, 0x6B, 0x63, 0x63, 0x63, 0x00],
     [0x66, 0x76, 0x7E, 0x7E, 0x6E, 0x66, 0x66, 0x00],
     [0x3C, 0x66, 0x66, 0x66, 0x66, 0x66, 0x3C, 0x00],
     [0x7C, 0x66, 0x66, 0x7C, 0x60, 0x60, 0x60, 0x00],
     [0x3C, 0x66, 0x66, 0x66, 0x66, 0x3C, 0x0E, 0x00],
     [0x7C, 0x66, 0x66, 0x7C, 0x78, 0x6C, 0x66, 0x00],
     [0x3C, 0x66, 0x60, 0x3C, 0x06, 0x66, 0x3C, 0x00],
     [0x7E, 0x18, 0x18, 0x18, 0x18, 0x18, 0x18, 0x00],
     [0x66, 0x66, 0x66, 0x66, 0x66, 0x66, 0x3C, 0x00],
     [0x66, 0x66, 0x66, 0x66, 0x66, 0x3C, 0x18, 0x00],
     [0x63, 0x63, 0x63, 0x6B, 0x7F, 0x77, 0x63, 0x00],
     [0x66, 0x66, 0x3C, 0x18, 0x3C, 0x66, 0x66, 0x00],
     [0x66, 0x66, 0x66, 0x3C, 0x18, 0x18, 0x18, 0x00],
     [0x7E, 0x06, 0x0C, 0x18, 0x30, 0x60, 0x7E, 0x00],
     [0x3C, 0x30, 0x30, 0x30, 0x30, 0x30, 0x3C, 0x00],
     [0x00, 0x60, 0x30, 0x18, 0x0C, 0x06, 0x00, 0x00],
     [0x3C, 0x0C, 0x0C, 0x0C, 0x0C, 0x0C, 0x3C, 0x00],
     [0x10, 0x38, 0x6C, 0xC6, 0x00, 0x00, 0x00, 0x00],
     [0x00, 0x00, 0x00, 0x00, 0x00, 0x00, 0x00, 0xFF],
     [0x30, 0x18, 0x0C, 0x00, 0x00, 0x00, 0x00, 0x00],
     [0x00, 0x00, 0x3C, 0x06, 0x3E, 0x66, 0x3E, 0x00],
     [0x60, 0x60, 0x7C, 0x66, 0x66, 0x66, 0x7C, 0x00],
     [0x00, 0x00, 0x3C, 0x60, 0x60, 0x60, 0x3C, 0x00],
     [0x06, 0x06, 0x3E, 0x66, 0x66, 0x66, 0x3E, 0x00],
     [0x00, 0x00, 0x3C, 0x66, 0x7E, 0x60, 0x3C, 0x00],
     [0x0C, 0x12, 0x10, 0x7C, 0x10, 0x10, 0x10, 0x00],
     [0x00, 0x00, 0x3E, 0x66, 0x66, 0x3E, 0x06, 0x7C],
     [0x60, 0x60, 0x7C, 0x66, 0x66, 0x66, 0x66, 0x00],
     [0x18, 0x00, 0x18, 0x18, 0x18, 0x18, 0x18, 0x00],
     [0x0C, 0x00, 0x1C, 0x0C, 0x0C, 0x0C, 0x38, 0x00],
     [0x60, 0x60, 0x66, 0x6C, 0x78, 0x6C, 0x66, 0x00],
     [0x18, 0x18, 0x18, 0x18, 0x18, 0x18, 0x18, 0x00],
     [0x00, 0x00, 0x66, 0x7F, 0x7F, 0x6B, 0x63, 0x00],
     [0x00, 0x00, 0x7C, 0x66, 0x66, 0x66, 0x66, 0x00],
     [0x00, 0x00, 0x3C, 0x66, 0x66, 0x66, 0x3C, 0x00],
     [0x00, 0x00, 0x7C, 0x66, 0x66, 0x7C, 0x60, 0x60],
     [0x00, 0x00, 0x3E, 0x66, 0x66, 0x3E, 0x06, 0x06],
     [0x00, 0x00, 0x7C, 0x66, 0x60, 0x60, 0x60, 0x00],
     [0x00, 0x00, 0x3E, 0x60, 0x3C, 0x06, 0x7C, 0x00],
     [0x10, 0x10, 0x7C, 0x10, 0x10, 0x12, 0x0C, 0x00],
     [0x00, 0x00, 0x66, 0x66, 0x66, 0x66, 0x3E, 0x00],
     [0x00, 0x00, 0x66, 0x66, 0x66, 0x3C, 0x18, 0x00],
     [0x00, 0x00, 0x63, 0x6B, 0x7F, 0x3E, 0x36, 0x00],
     [0x00, 0x00, 0x66, 0x3C, 0x18, 0x3C, 0x66, 0x00],
     [0x00, 0x00, 0x66, 0x66, 0x66, 0x3E, 0x0C, 0x78],
     [0x00, 0x00, 0x7E, 0x0C, 0x18, 0x30, 0x7E, 0x00],
     [0x0E, 0x18, 0x18, 0x70, 0x18, 0x18, 0x0E, 0x00],
     [0x18, 0x18, 0x18, 0x18, 0x18, 0x18, 0x18, 0x00],
     [0x70, 0x18, 0x18, 0x0E, 0x18, 0x18, 0x70, 0x00],
     [0x66, 0x3C, 0x00, 0x00, 0x00, 0x00, 0x00, 0x00]]"

section \<open>Steps and loops\<close>

definition fb_put :: "int \<Rightarrow> u8 \<Rightarrow> fb \<Rightarrow> fb option" where
  "fb_put i c fb = (if 0 \<le> i \<and> i < int (length fb) then Some (fb[nat i := c]) else None)"

fun for_each :: "'a list \<Rightarrow> ('a \<Rightarrow> 's \<Rightarrow> 's option) \<Rightarrow> 's \<Rightarrow> 's option" where
  "for_each [] f s = Some s"
| "for_each (i # is) f s = do { s \<leftarrow> f i s; for_each is f s }"

section \<open>Primitives\<close>

text \<open>The whole table of 256 colours: the sixteen of the desktop, then black.\<close>

definition gui_draw_apply_palette :: "u8 list" where
  "gui_draw_apply_palette = blit (replicate (256 * 3) 0) 0 (take (16 * 3) gui_palette)"

definition gui_draw_fill_rect :: "int \<Rightarrow> int \<Rightarrow> int \<Rightarrow> int \<Rightarrow> u8 \<Rightarrow> fb \<Rightarrow> fb option" where
  "gui_draw_fill_rect x0 y0 w h color fb =
     (let (w, x0) = (if x0 < 0 then (w + x0, 0) else (w, x0));
          (h, y0) = (if y0 < 0 then (h + y0, 0) else (h, y0));
          w = (if x0 + w > GUI_FB_W then GUI_FB_W - x0 else w);
          h = (if y0 + h > GUI_FB_H then GUI_FB_H - y0 else h)
      in if w \<le> 0 \<or> h \<le> 0 then Some fb
         else for_each [0..h - 1] (\<lambda>y.
                let row = (y0 + y) * GUI_FB_W + x0
                in for_each [0..w - 1] (\<lambda>x. fb_put (row + x) color)) fb)"

definition glyph :: "char \<Rightarrow> u8 list" where
  "glyph c = (let u = of_char c :: u8 in if u \<ge> 32 \<and> u \<le> 126 then FONT_ASCII ! (unat u - 32) else FONT_ASCII ! 0)"

fun char_row :: "int \<Rightarrow> int \<Rightarrow> u8 \<Rightarrow> u8 \<Rightarrow> u8 \<Rightarrow> int \<Rightarrow> nat \<Rightarrow> fb \<Rightarrow> fb option" where
  "char_row x py bits fg bg col 0 fb = Some fb"
| "char_row x py bits fg bg col (Suc n) fb = do {
     let color = (if bits AND 0x80 \<noteq> 0 then fg else bg);
     let px = x + col;
     fb \<leftarrow> (if px \<ge> 0 \<and> px < GUI_FB_W \<and> py \<ge> 0 \<and> py < GUI_FB_H then fb_put (py * GUI_FB_W + px) color fb else Some fb);
     char_row x py (push_bit 1 bits) fg bg (col + 1) n fb
   }"

definition gui_draw_char :: "int \<Rightarrow> int \<Rightarrow> char \<Rightarrow> u8 \<Rightarrow> u8 \<Rightarrow> fb \<Rightarrow> fb option" where
  "gui_draw_char x y c fg bg = for_each [0..7] (\<lambda>row. char_row x (y + row) (glyph c ! nat row) fg bg 0 8)"

fun gui_draw_text :: "int \<Rightarrow> int \<Rightarrow> string \<Rightarrow> u8 \<Rightarrow> u8 \<Rightarrow> fb \<Rightarrow> fb option" where
  "gui_draw_text x y [] fg bg fb = Some fb"
| "gui_draw_text x y (c # s) fg bg fb =
     (if c = NUL then Some fb
      else do { fb \<leftarrow> gui_draw_char x y c fg bg fb; gui_draw_text (x + 8) y s fg bg fb })"

text \<open>\<open>for (i = 0; i < len && s[i]; i++)\<close>\<close>

definition gui_draw_text_len :: "int \<Rightarrow> int \<Rightarrow> string \<Rightarrow> int \<Rightarrow> u8 \<Rightarrow> u8 \<Rightarrow> fb \<Rightarrow> fb option" where
  "gui_draw_text_len x y s len = gui_draw_text x y (take (nat len) s)"

definition gui_draw_window :: "int \<Rightarrow> int \<Rightarrow> int \<Rightarrow> int \<Rightarrow> string \<Rightarrow> bool \<Rightarrow> fb \<Rightarrow> fb option" where
  "gui_draw_window x y w h title active fb = do {
     let frame_hi = (if active then GUI_C_WHITE else GUI_C_LTGRAY);
     let frame_lo = GUI_C_DKGRAY;
     let title_bg = (if active then GUI_C_BR_BLUE else GUI_C_DKGRAY);
     let title_fg = GUI_C_WHITE;
     fb \<leftarrow> gui_draw_fill_rect (x + 2) (y + 2) w h GUI_C_BLACK fb;
     fb \<leftarrow> gui_draw_fill_rect x y w h GUI_C_LTGRAY fb;
     fb \<leftarrow> gui_draw_fill_rect x y w 2 frame_hi fb;
     fb \<leftarrow> gui_draw_fill_rect x y 2 h frame_hi fb;
     fb \<leftarrow> gui_draw_fill_rect x (y + h - 2) w 2 frame_lo fb;
     fb \<leftarrow> gui_draw_fill_rect (x + w - 2) y 2 h frame_lo fb;
     fb \<leftarrow> gui_draw_fill_rect (x + 2) (y + 2) (w - 4) 12 title_bg fb;
     fb \<leftarrow> gui_draw_text (x + 4) (y + 3) title title_fg title_bg fb;
     gui_draw_fill_rect (x + 2) (y + 14) (w - 4) (h - 16) GUI_C_LTGRAY fb
   }"

definition gui_draw_button :: "int \<Rightarrow> int \<Rightarrow> int \<Rightarrow> int \<Rightarrow> string \<Rightarrow> bool \<Rightarrow> bool \<Rightarrow> fb \<Rightarrow> fb option" where
  "gui_draw_button x y w h label pressed highlight fb = do {
     let hi = (if pressed then GUI_C_DKGRAY else GUI_C_WHITE);
     let lo = (if pressed then GUI_C_WHITE else GUI_C_DKGRAY);
     let face = (if highlight then GUI_C_BR_CYAN else GUI_C_LTGRAY);
     fb \<leftarrow> gui_draw_fill_rect x y w h face fb;
     fb \<leftarrow> gui_draw_fill_rect x y w 1 hi fb;
     fb \<leftarrow> gui_draw_fill_rect x y 1 h hi fb;
     fb \<leftarrow> gui_draw_fill_rect x (y + h - 1) w 1 lo fb;
     fb \<leftarrow> gui_draw_fill_rect (x + w - 1) y 1 h lo fb;
     let lx = x + (w - int (length label) * 8) sdiv 2;
     let ly = y + (h - 8) sdiv 2;
     gui_draw_text lx ly label GUI_C_BLACK face fb
   }"

definition gui_draw_hit :: "int \<Rightarrow> int \<Rightarrow> int \<Rightarrow> int \<Rightarrow> int \<Rightarrow> int \<Rightarrow> bool" where
  "gui_draw_hit px py x y w h \<longleftrightarrow> px \<ge> x \<and> px < x + w \<and> py \<ge> y \<and> py < y + h"

section \<open>Loops\<close>

text \<open>The rule of a counting loop: an invariant on the counter and the state.\<close>

lemma for_each_upto:
  assumes "P a s" and "a \<le> b + 1"
    and "\<And>i s. a \<le> i \<Longrightarrow> i \<le> b \<Longrightarrow> P i s \<Longrightarrow> \<exists>s'. f i s = Some s' \<and> P (i + 1) s'"
  shows "\<exists>s'. for_each [a..b] f s = Some s' \<and> P (b + 1) s'"
  using assms
proof (induction "nat (b + 1 - a)" arbitrary: a s)
  case 0
  then show ?case by auto
next
  case (Suc n)
  from Suc.hyps(2) have ab: "a \<le> b" by simp
  from Suc.prems(3) [OF order_refl ab Suc.prems(1)] obtain s1 where s1: "f a s = Some s1" "P (a + 1) s1" by blast
  have "\<exists>s'. for_each [a + 1..b] f s1 = Some s' \<and> P (b + 1) s'"
    by (rule Suc.hyps(1)) (use Suc.hyps(2) s1 ab Suc.prems(3) in auto)
  with s1 ab show ?case by (simp add: upto_rec1)
qed

definition draws :: "(fb \<Rightarrow> fb option) \<Rightarrow> bool" where
  "draws f \<longleftrightarrow> (\<forall>fb. length fb = 64000 \<longrightarrow> (\<exists>fb'. f fb = Some fb' \<and> length fb' = 64000))"

lemma drawsI: "(\<And>fb. length fb = 64000 \<Longrightarrow> \<exists>fb'. f fb = Some fb' \<and> length fb' = 64000) \<Longrightarrow> draws f"
  by (simp add: draws_def)

lemma drawsD: "draws f \<Longrightarrow> length fb = 64000 \<Longrightarrow> \<exists>fb'. f fb = Some fb' \<and> length fb' = 64000"
  by (simp add: draws_def)

lemma draws_Some [draws_intros]: "draws Some" "draws (\<lambda>fb. Some fb)"
  by (simp_all add: draws_def)

lemma draws_bind [draws_intros]:
  assumes "draws f" and "draws g"
  shows "draws (\<lambda>fb. f fb \<bind> g)"
proof (rule drawsI)
  fix fb :: fb assume "length fb = 64000"
  from drawsD [OF assms(1) this] obtain fb1 where "f fb = Some fb1" "length fb1 = 64000" by blast
  with drawsD [OF assms(2)] show "\<exists>fb'. f fb \<bind> g = Some fb' \<and> length fb' = 64000" by simp
qed

lemma draws_if [draws_intros]:
  "(b \<Longrightarrow> draws f) \<Longrightarrow> (\<not> b \<Longrightarrow> draws g) \<Longrightarrow> draws (\<lambda>fb. if b then f fb else g fb)"
  "(b \<Longrightarrow> draws f) \<Longrightarrow> (\<not> b \<Longrightarrow> draws g) \<Longrightarrow> draws (if b then f else g)"
  by (cases b; simp)+

lemma draws_for_each [draws_intros]: "(\<And>i. i \<in> set is \<Longrightarrow> draws (f i)) \<Longrightarrow> draws (for_each is f)"
proof (induction "is")
  case (Cons i "is")
  have "draws (\<lambda>fb. f i fb \<bind> for_each is f)" by (rule draws_bind) (use Cons in auto)
  then show ?case by (simp add: draws_def)
qed (simp add: draws_def)

lemma draws_put [draws_intros]: "0 \<le> i \<Longrightarrow> i < 64000 \<Longrightarrow> draws (fb_put i c)"
  by (simp add: draws_def fb_put_def)

section \<open>Filling a rectangle\<close>

definition on_screen :: "int \<Rightarrow> int \<Rightarrow> bool" where
  "on_screen x y \<longleftrightarrow> 0 \<le> x \<and> x < 320 \<and> 0 \<le> y \<and> y < 200"

definition pixel :: "fb \<Rightarrow> int \<Rightarrow> int \<Rightarrow> u8" where
  "pixel fb x y = fb ! nat (y * 320 + x)"

lemma on_screen_index:
  assumes "on_screen x y"
  shows "0 \<le> y * 320 + x" and "y * 320 + x < 64000" and "nat (y * 320 + x) < 64000"
  using assms unfolding on_screen_def by linarith+

lemma pixel_index_inj:
  assumes "on_screen x y" and "on_screen x' y'"
  shows "nat (y * 320 + x) = nat (y' * 320 + x') \<longleftrightarrow> x = x' \<and> y = y'"
proof
  assume "nat (y * 320 + x) = nat (y' * 320 + x')"
  then have eq: "y * 320 + x = y' * 320 + x'"
    using on_screen_index(1) [OF assms(1)] on_screen_index(1) [OF assms(2)] by simp
  have d: "(b * 320 + a) div 320 = b" if "on_screen a b" for a b using that by (simp add: on_screen_def)
  have "y = y'" using d [OF assms(1)] d [OF assms(2)] eq by simp
  with eq show "x = x' \<and> y = y'" by simp
qed simp

lemma pixel_put:
  assumes "on_screen x y" and "on_screen x' y'" and "length fb = 64000"
  shows "fb_put (y * 320 + x) c fb = Some (fb[nat (y * 320 + x) := c])"
    and "pixel (fb[nat (y * 320 + x) := c]) x' y' = (if x' = x \<and> y' = y then c else pixel fb x' y')"
proof -
  note i = on_screen_index [OF assms(1)]
  show "fb_put (y * 320 + x) c fb = Some (fb[nat (y * 320 + x) := c])"
    using i(1,2) assms(3) by (simp add: fb_put_def)
  show "pixel (fb[nat (y * 320 + x) := c]) x' y' = (if x' = x \<and> y' = y then c else pixel fb x' y')"
    unfolding pixel_def using i(3) assms(3) pixel_index_inj [OF assms(1,2)]
    by (cases "nat (y * 320 + x) = nat (y' * 320 + x')") auto
qed

text \<open>The part of a buffer a drawing has coloured.\<close>

definition painted :: "(int \<Rightarrow> int \<Rightarrow> bool) \<Rightarrow> u8 \<Rightarrow> fb \<Rightarrow> fb \<Rightarrow> bool" where
  "painted A c fb fb' \<longleftrightarrow> length fb' = 64000
     \<and> (\<forall>x y. on_screen x y \<longrightarrow> pixel fb' x y = (if A x y then c else pixel fb x y))"

lemma painted_refl: "length fb = 64000 \<Longrightarrow> (\<And>x y. \<not> A x y) \<Longrightarrow> painted A c fb fb"
  by (simp add: painted_def)

lemma painted_put:
  assumes "painted A c fb fb1" and "on_screen x y" and "\<And>x' y'. B x' y' \<longleftrightarrow> A x' y' \<or> x' = x \<and> y' = y"
  shows "\<exists>fb2. fb_put (y * 320 + x) c fb1 = Some fb2 \<and> painted B c fb fb2"
proof -
  have l: "length fb1 = 64000" using assms(1) by (simp add: painted_def)
  have p: "pixel (fb1[nat (y * 320 + x) := c]) x' y' = (if B x' y' then c else pixel fb x' y')" if "on_screen x' y'" for x' y'
    unfolding pixel_put(2) [OF assms(2) that l] using assms(1,3) that by (auto simp: painted_def)
  have "painted B c fb (fb1[nat (y * 320 + x) := c])" using p l by (simp add: painted_def)
  then show ?thesis using pixel_put(1) [OF assms(2,2) l] by blast
qed

text \<open>The two loops over a rectangle inside the screen.\<close>

lemma fill_loops:
  assumes "length fb = 64000" and "0 \<le> x1" and "0 \<le> y1" and "0 < w1" and "0 < h1" and "x1 + w1 \<le> 320" and "y1 + h1 \<le> 200"
  shows "\<exists>fb'. for_each [0..h1 - 1] (\<lambda>y. for_each [0..w1 - 1] (\<lambda>x. fb_put ((y1 + y) * 320 + x1 + x) color)) fb = Some fb'
    \<and> painted (\<lambda>x y. x1 \<le> x \<and> x < x1 + w1 \<and> y1 \<le> y \<and> y < y1 + h1) color fb fb'"
proof -
  let ?A = "\<lambda>j i x y. y1 \<le> y \<and> (y < y1 + j \<and> x1 \<le> x \<and> x < x1 + w1 \<or> y = y1 + j \<and> x1 \<le> x \<and> x < x1 + i)"
    have row: "\<exists>s'. for_each [0..w1 - 1] (\<lambda>x. fb_put ((y1 + j) * 320 + x1 + x) color) s = Some s'
        \<and> painted (?A (j + 1) 0) color fb s'" if "0 \<le> j" "j \<le> h1 - 1" and "painted (?A j 0) color fb s" for j s
    proof -
      have "\<exists>s'. for_each [0..w1 - 1] (\<lambda>x. fb_put ((y1 + j) * 320 + x1 + x) color) s = Some s'
          \<and> painted (?A j (w1 - 1 + 1)) color fb s'"
      proof (rule for_each_upto [where P = "\<lambda>i. painted (?A j i) color fb"])
        fix i s assume i: "0 \<le> i" "i \<le> w1 - 1" and P: "painted (?A j i) color fb s"
        have "on_screen (x1 + i) (y1 + j)"
          using that(1,2) i assms by (auto simp: on_screen_def)
        moreover have "?A j (i + 1) x y \<longleftrightarrow> ?A j i x y \<or> x = x1 + i \<and> y = y1 + j" for x y
          using that(1) i by auto
        ultimately have "\<exists>s'. fb_put ((y1 + j) * 320 + (x1 + i)) color s = Some s' \<and> painted (?A j (i + 1)) color fb s'"
          by (rule painted_put [OF P])
        then show "\<exists>s'. fb_put ((y1 + j) * 320 + x1 + i) color s = Some s' \<and> painted (?A j (i + 1)) color fb s'"
          by (simp only: add.assoc)
      qed (use that assms in auto)
      moreover have "painted (?A j (w1 - 1 + 1)) color fb s' = painted (?A (j + 1) 0) color fb s'" for s'
        by (rule arg_cong [where f = "\<lambda>A. painted A color fb s'"]) (auto simp: fun_eq_iff)
      ultimately show ?thesis by simp
    qed
    have "\<exists>s'. for_each [0..h1 - 1] (\<lambda>y. for_each [0..w1 - 1] (\<lambda>x. fb_put ((y1 + y) * 320 + x1 + x) color)) fb = Some s'
        \<and> painted (?A (h1 - 1 + 1) 0) color fb s'"
      by (rule for_each_upto [where P = "\<lambda>j. painted (?A j 0) color fb"]) (use row assms in \<open>auto intro: painted_refl\<close>)
    moreover have "painted (?A (h1 - 1 + 1) 0) color fb s'
        = painted (\<lambda>x y. x1 \<le> x \<and> x < x1 + w1 \<and> y1 \<le> y \<and> y < y1 + h1) color fb s'" for s'
      by (rule arg_cong [where f = "\<lambda>A. painted A color fb s'"]) (auto simp: fun_eq_iff)
    ultimately show ?thesis by simp
qed

lemma fill_rect_eq:
  fixes x0 y0 w h :: int
  defines "x1 \<equiv> max x0 0" and "y1 \<equiv> max y0 0" and "w1 \<equiv> min (x0 + w) 320 - max x0 0" and "h1 \<equiv> min (y0 + h) 200 - max y0 0"
  shows "gui_draw_fill_rect x0 y0 w h color fb = (if w1 \<le> 0 \<or> h1 \<le> 0 then Some fb
      else for_each [0..h1 - 1] (\<lambda>y. for_each [0..w1 - 1] (\<lambda>x. fb_put ((y1 + y) * 320 + x1 + x) color)) fb)"
proof -
  define X Y where "X = (if x0 < 0 then (w + x0, 0) else (w, x0))" and "Y = (if y0 < 0 then (h + y0, 0) else (h, y0))"
  have X: "snd X = x1" "(if x1 + fst X > 320 then 320 - x1 else fst X) = w1"
    by (auto simp: X_def x1_def w1_def)
  have Y: "snd Y = y1" "(if y1 + fst Y > 200 then 200 - y1 else fst Y) = h1"
    by (auto simp: Y_def y1_def h1_def)
  show ?thesis
    unfolding gui_draw_fill_rect_def GUI_FB_W_def GUI_FB_H_def X_def [symmetric] Y_def [symmetric]
      Let_def split_beta X Y ..
qed

lemma fill_rect_painted:
  assumes "length fb = 64000"
  shows "\<exists>fb'. gui_draw_fill_rect x0 y0 w h color fb = Some fb'
    \<and> painted (\<lambda>x y. x0 \<le> x \<and> x < x0 + w \<and> y0 \<le> y \<and> y < y0 + h) color fb fb'"
proof -
  define x1 y1 where "x1 = max x0 0" and "y1 = max y0 0"
  define w1 h1 where "w1 = min (x0 + w) 320 - x1" and "h1 = min (y0 + h) 200 - y1"
  note eq = fill_rect_eq [of x0 y0 w h color fb, folded x1_def y1_def, folded w1_def h1_def]
  have "\<exists>fb'. gui_draw_fill_rect x0 y0 w h color fb = Some fb'
    \<and> painted (\<lambda>x y. x1 \<le> x \<and> x < x1 + w1 \<and> y1 \<le> y \<and> y < y1 + h1) color fb fb'"
  proof (cases "w1 \<le> 0 \<or> h1 \<le> 0")
    case True
    then show ?thesis unfolding eq using assms by (auto simp: painted_def)
  next
    case False
    then show ?thesis
      unfolding eq if_not_P [OF False] by (intro fill_loops assms) (auto simp: x1_def y1_def w1_def h1_def)
  qed
  then obtain fb' where fb': "gui_draw_fill_rect x0 y0 w h color fb = Some fb'"
    "painted (\<lambda>x y. x1 \<le> x \<and> x < x1 + w1 \<and> y1 \<le> y \<and> y < y1 + h1) color fb fb'" by blast
  have "x1 \<le> x \<and> x < x1 + w1 \<and> y1 \<le> y \<and> y < y1 + h1 \<longleftrightarrow> x0 \<le> x \<and> x < x0 + w \<and> y0 \<le> y \<and> y < y0 + h"
    if "on_screen x y" for x y
    using that by (auto simp: on_screen_def x1_def y1_def w1_def h1_def)
  with fb' show ?thesis by (auto simp: painted_def)
qed

text \<open>\<open>gui_draw_fill_rect\<close> never leaves the frame buffer, whatever the rectangle, and colours exactly the
  pixels of the screen inside it.\<close>

theorem fill_rect_clips:
  assumes "length fb = 64000"
  shows "\<exists>fb'. gui_draw_fill_rect x0 y0 w h color fb = Some fb' \<and> length fb' = 64000
    \<and> (\<forall>x y. on_screen x y \<longrightarrow> pixel fb' x y
         = (if x0 \<le> x \<and> x < x0 + w \<and> y0 \<le> y \<and> y < y0 + h then color else pixel fb x y))"
  using fill_rect_painted [OF assms, of x0 y0 w h color] by (simp add: painted_def)

theorem fill_rect_clips_witness:
  "\<exists>fb'. gui_draw_fill_rect (- 5) 190 20 30 GUI_C_RED (replicate 64000 0) = Some fb'
    \<and> pixel fb' 3 195 = GUI_C_RED \<and> pixel fb' 15 195 = pixel (replicate 64000 0) 15 195"
  using fill_rect_clips [of "replicate 64000 0" "- 5" 190 20 30 GUI_C_RED] by (auto simp: on_screen_def)

section \<open>Every drawing stays inside the buffer\<close>

lemma draws_fill_rect [draws_intros]: "draws (gui_draw_fill_rect x0 y0 w h color)"
proof (rule drawsI)
  fix fb :: fb assume "length fb = 64000"
  from fill_rect_painted [OF this, of x0 y0 w h color]
  show "\<exists>fb'. gui_draw_fill_rect x0 y0 w h color fb = Some fb' \<and> length fb' = 64000" by (auto simp: painted_def)
qed

lemma draws_char_row: "draws (char_row x py bits fg bg col n)"
proof (induction n arbitrary: bits col)
  case (Suc n)
  have "draws (\<lambda>fb. (if x + col \<ge> 0 \<and> x + col < GUI_FB_W \<and> py \<ge> 0 \<and> py < GUI_FB_H
      then fb_put (py * GUI_FB_W + (x + col)) (if bits AND 0x80 \<noteq> 0 then fg else bg) fb else Some fb)
    \<bind> char_row x py (push_bit 1 bits) fg bg (col + 1) n)"
    by (intro draws_bind Suc.IH draws_if draws_put draws_Some) (simp_all add: GUI_FB_W_def GUI_FB_H_def)
  then show ?case by (simp add: draws_def Let_def)
qed (simp add: draws_def)

lemma draws_char [draws_intros]: "draws (gui_draw_char x y c fg bg)"
  unfolding gui_draw_char_def by (intro draws_for_each draws_char_row)

lemma draws_text [draws_intros]: "draws (gui_draw_text x y s fg bg)"
proof (induction s arbitrary: x)
  case (Cons c s)
  have "draws (\<lambda>fb. if c = NUL then Some fb else gui_draw_char x y c fg bg fb \<bind> gui_draw_text (x + 8) y s fg bg)"
    by (intro draws_intros Cons.IH)
  then show ?case by (simp add: draws_def)
qed (simp add: draws_def)

lemma draws_text_len [draws_intros]: "draws (gui_draw_text_len x y s len fg bg)"
  by (simp add: gui_draw_text_len_def draws_text)

lemma draws_window [draws_intros]: "draws (gui_draw_window x y w h title active)"
  unfolding gui_draw_window_def Let_def by (intro draws_intros)

lemma draws_button [draws_intros]: "draws (gui_draw_button x y w h label pressed highlight)"
  unfolding gui_draw_button_def Let_def by (intro draws_intros)

end
