(* ===== verification/Paint.thy ===== *)
theory Paint
  imports Guidraw
begin

text \<open>
  The canvas of the Paint application (\<^verbatim>\<open>src/kernel/gui/gui.c\<close>): clearing, plotting and the line
  drawing loop, which is Bresenham's. The loop has no bound of its own, so it is a partial function;
  \<open>paint_line_correct\<close> shows that it returns for every pair of points.
\<close>

definition PAINT_CW :: int where "PAINT_CW = 200"
definition PAINT_CH :: int where "PAINT_CH = 88"
definition PAINT_TOOLBAR_H :: int where "PAINT_TOOLBAR_H = 16"

record paint =
  paint_canvas :: "u8 list"
  paint_color :: u8
  paint_tool :: int
  paint_lx :: int
  paint_ly :: int
  paint_stroke :: bool

definition paint_clear_canvas :: "paint \<Rightarrow> paint" where
  "paint_clear_canvas p = p\<lparr>paint_canvas := replicate (nat (PAINT_CW * PAINT_CH)) GUI_C_WHITE\<rparr>"

definition paint_init :: "paint \<Rightarrow> paint" where
  "paint_init p = (paint_clear_canvas p)\<lparr>paint_color := GUI_C_BLACK, paint_tool := 0, paint_stroke := False\<rparr>"

definition paint_plot :: "int \<Rightarrow> int \<Rightarrow> u8 \<Rightarrow> u8 list \<Rightarrow> u8 list" where
  "paint_plot x y c cv =
     (if x < 0 \<or> y < 0 \<or> x \<ge> PAINT_CW \<or> y \<ge> PAINT_CH then cv else cv[nat (y * PAINT_CW + x) := c])"

definition paint_iabs :: "int \<Rightarrow> int" where
  "paint_iabs x = (if x < 0 then - x else x)"

partial_function (option) paint_loop ::
  "int \<Rightarrow> int \<Rightarrow> int \<Rightarrow> int \<Rightarrow> int \<Rightarrow> int \<Rightarrow> u8 \<Rightarrow> int \<Rightarrow> int \<Rightarrow> int \<Rightarrow> u8 list \<Rightarrow> u8 list option" where
  "paint_loop x1 y1 dx sx dy sy c x0 y0 err cv =
     (let cv = paint_plot x0 y0 c cv in
      if x0 = x1 \<and> y0 = y1 then Some cv
      else let e2 = 2 * err;
               (err, x0) = (if e2 > - dy then (err - dy, x0 + sx) else (err, x0));
               (err, y0) = (if e2 < dx then (err + dx, y0 + sy) else (err, y0))
           in paint_loop x1 y1 dx sx dy sy c x0 y0 err cv)"

definition paint_line :: "int \<Rightarrow> int \<Rightarrow> int \<Rightarrow> int \<Rightarrow> u8 \<Rightarrow> u8 list \<Rightarrow> u8 list option" where
  "paint_line x0 y0 x1 y1 c cv =
     (let dx = paint_iabs (x1 - x0); sx = (if x0 < x1 then 1 else - 1);
          dy = paint_iabs (y1 - y0); sy = (if y0 < y1 then 1 else - 1)
      in paint_loop x1 y1 dx sx dy sy c x0 y0 (dx - dy) cv)"

section \<open>The line\<close>

text \<open>
  After \<open>i\<close> steps in \<open>x\<close> and \<open>j\<close> steps in \<open>y\<close> the error term is \<open>dx - dy - (i * dy - j * dx)\<close>. One round
  from there: \<open>step_x\<close> and \<open>step_y\<close> tell which of the two coordinates moves.
\<close>

definition step_x :: "int \<Rightarrow> int \<Rightarrow> int \<Rightarrow> int \<Rightarrow> bool" where
  "step_x dx dy i j \<longleftrightarrow> 2 * (i * dy - j * dx) < 2 * dx - dy"

definition step_y :: "int \<Rightarrow> int \<Rightarrow> int \<Rightarrow> int \<Rightarrow> bool" where
  "step_y dx dy i j \<longleftrightarrow> 2 * (i * dy - j * dx) > dx - 2 * dy"

lemma step_inside:
  assumes "0 \<le> i" and "i \<le> dx" and "0 \<le> j" and "j \<le> dy" and "i \<noteq> dx \<or> j \<noteq> dy"
  shows "step_x dx dy i j \<Longrightarrow> i < dx" and "step_y dx dy i j \<Longrightarrow> j < dy" and "step_x dx dy i j \<or> step_y dx dy i j"
proof -
  show "i < dx" if x: "step_x dx dy i j"
  proof (rule ccontr)
    assume "\<not> i < dx"
    then have i: "i = dx" and j: "j < dy" using assms by auto
    have "dx * 1 \<le> dx * (dy - j)" using assms j by (intro mult_left_mono) auto
    with x i j assms show False by (simp add: step_x_def algebra_simps)
  qed
  show "j < dy" if y: "step_y dx dy i j"
  proof (rule ccontr)
    assume "\<not> j < dy"
    then have j: "j = dy" and i: "i < dx" using assms by auto
    have "dy * 1 \<le> dy * (dx - i)" using assms i by (intro mult_left_mono) auto
    with y i j assms show False by (simp add: step_y_def algebra_simps)
  qed
  show "step_x dx dy i j \<or> step_y dx dy i j"
    using assms unfolding step_x_def step_y_def by linarith
qed

definition near_line :: "int \<Rightarrow> int \<Rightarrow> int \<Rightarrow> int \<Rightarrow> bool" where
  "near_line dx dy i j \<longleftrightarrow> 2 * \<bar>i * dy - j * dx\<bar> \<le> max dx dy"

lemma near_line_step:
  assumes "near_line dx dy i j" and "0 \<le> dx" and "0 \<le> dy"
    and "i' = (if step_x dx dy i j then i + 1 else i)" and "j' = (if step_y dx dy i j then j + 1 else j)"
  shows "near_line dx dy i' j'"
proof -
  define D where "D = i * dy - j * dx"
  have "i' * dy - j' * dx = D + (if step_x dx dy i j then dy else 0) - (if step_y dx dy i j then dx else 0)"
    by (simp add: assms(4,5) D_def algebra_simps)
  then show ?thesis
    using assms(1-3) unfolding near_line_def step_x_def step_y_def D_def [symmetric] by (auto simp: max_def abs_if split: if_splits)
qed

text \<open>Plotting a list of points one after the other.\<close>

fun plot_all :: "u8 \<Rightarrow> (int \<times> int) list \<Rightarrow> u8 list \<Rightarrow> u8 list" where
  "plot_all c [] cv = cv"
| "plot_all c ((x, y) # ps) cv = plot_all c ps (paint_plot x y c cv)"

text \<open>Consecutive points touch, diagonally at most.\<close>

fun connected :: "(int \<times> int) list \<Rightarrow> bool" where
  "connected (p # q # ps) \<longleftrightarrow> \<bar>fst p - fst q\<bar> \<le> 1 \<and> \<bar>snd p - snd q\<bar> \<le> 1 \<and> p \<noteq> q \<and> connected (q # ps)"
| "connected _ \<longleftrightarrow> True"

lemma paint_loop_round:
  fixes dx dy i j sx sy x0 y0 :: int
  defines "x \<equiv> x0 + sx * i" and "y \<equiv> y0 + sy * j" and "i' \<equiv> if step_x dx dy i j then i + 1 else i"
    and "j' \<equiv> if step_y dx dy i j then j + 1 else j"
  assumes "\<not> (x = x1 \<and> y = y1)"
  shows "paint_loop x1 y1 dx sx dy sy c x y (dx - dy - (i * dy - j * dx)) cv
    = paint_loop x1 y1 dx sx dy sy c (x0 + sx * i') (y0 + sy * j') (dx - dy - (i' * dy - j' * dx)) (paint_plot x y c cv)"
proof -
  define e where "e = dx - dy - (i * dy - j * dx)"
  have tx: "2 * e > - dy \<longleftrightarrow> step_x dx dy i j" and ty: "2 * e < dx \<longleftrightarrow> step_y dx dy i j"
    by (auto simp: e_def step_x_def step_y_def)
  have e: "dx - dy - (i' * dy - j' * dx)
      = (if step_y dx dy i j then (if step_x dx dy i j then e - dy else e) + dx else (if step_x dx dy i j then e - dy else e))"
    by (simp add: i'_def j'_def e_def algebra_simps)
  have xy: "x0 + sx * i' = (if step_x dx dy i j then x + sx else x)" "y0 + sy * j' = (if step_y dx dy i j then y + sy else y)"
    by (simp_all add: x_def y_def i'_def j'_def algebra_simps)
  show ?thesis
    unfolding e xy e_def [symmetric]
    by (subst paint_loop.simps, unfold Let_def if_not_P [OF assms(5)])
      (cases "step_x dx dy i j"; cases "step_y dx dy i j"; simp add: tx ty)
qed

lemma paint_loop_runs:
  assumes "sx = 1 \<or> sx = - 1" and "sy = 1 \<or> sy = - 1" and "0 \<le> i" and "i \<le> dx" and "0 \<le> j" and "j \<le> dy"
    and "near_line dx dy i j"
  shows "\<exists>ps. paint_loop (x0 + sx * dx) (y0 + sy * dy) dx sx dy sy c (x0 + sx * i) (y0 + sy * j)
        (dx - dy - (i * dy - j * dx)) cv = Some (plot_all c ps cv)
    \<and> ps \<noteq> [] \<and> hd ps = (x0 + sx * i, y0 + sy * j) \<and> last ps = (x0 + sx * dx, y0 + sy * dy) \<and> connected ps
    \<and> (\<forall>p \<in> set ps. \<exists>i j. p = (x0 + sx * i, y0 + sy * j) \<and> 0 \<le> i \<and> i \<le> dx \<and> 0 \<le> j \<and> j \<le> dy \<and> near_line dx dy i j)"
  using assms(3-)
proof (induction "nat ((dx - i) + (dy - j))" arbitrary: i j cv rule: less_induct)
  case less
  let ?p = "(x0 + sx * i, y0 + sy * j)"
  show ?case
  proof (cases "i = dx \<and> j = dy")
    case True
    then show ?thesis
      using less.prems by (intro exI [of _ "[?p]"]) (auto simp: paint_loop.simps Let_def)
  next
    case False
    define i' j' where "i' = (if step_x dx dy i j then i + 1 else i)" and "j' = (if step_y dx dy i j then j + 1 else j)"
    note inside = step_inside [OF less.prems(1-4)]
    have moved: "i' + j' > i + j" and range: "0 \<le> i'" "i' \<le> dx" "0 \<le> j'" "j' \<le> dy"
      using inside False less.prems by (auto simp: i'_def j'_def)
    have near: "near_line dx dy i' j'"
      by (rule near_line_step [OF less.prems(5) _ _ i'_def j'_def]) (use less.prems in auto)
    have end': "\<not> (x0 + sx * i = x0 + sx * dx \<and> y0 + sy * j = y0 + sy * dy)" using False assms(1,2) by auto
    note round = paint_loop_round [OF end', where dx = dx and dy = dy and c = c and cv = cv, folded i'_def j'_def]
    have "nat ((dx - i') + (dy - j')) < nat ((dx - i) + (dy - j))" using moved range by simp
    from less.hyps [OF this range near, of "paint_plot (x0 + sx * i) (y0 + sy * j) c cv"] obtain ps where
      ps: "paint_loop (x0 + sx * dx) (y0 + sy * dy) dx sx dy sy c (x0 + sx * i') (y0 + sy * j')
          (dx - dy - (i' * dy - j' * dx)) (paint_plot (x0 + sx * i) (y0 + sy * j) c cv)
        = Some (plot_all c ps (paint_plot (x0 + sx * i) (y0 + sy * j) c cv))"
      "ps \<noteq> []" "hd ps = (x0 + sx * i', y0 + sy * j')" "last ps = (x0 + sx * dx, y0 + sy * dy)" "connected ps"
      "\<forall>p \<in> set ps. \<exists>i j. p = (x0 + sx * i, y0 + sy * j) \<and> 0 \<le> i \<and> i \<le> dx \<and> 0 \<le> j \<and> j \<le> dy \<and> near_line dx dy i j"
      by blast
    have "connected (?p # ps)"
    proof (cases ps)
      case (Cons q qs)
      have "\<bar>sx * i - sx * i'\<bar> \<le> 1" "\<bar>sy * j - sy * j'\<bar> \<le> 1" "sx * i \<noteq> sx * i' \<or> sy * j \<noteq> sy * j'"
        using assms(1,2) moved by (auto simp: i'_def j'_def split: if_splits)
      with ps(3,5) Cons show ?thesis by auto
    qed simp
    with ps less.prems round show ?thesis by (intro exI [of _ "?p # ps"]) auto
  qed
qed

text \<open>C13: \<open>paint_line\<close> returns for every pair of points and plots a line between them: it starts at the first
  point and ends at the second, consecutive points touch and differ, no point leaves the rectangle of
  the two ends, and none is more than half a pixel off the ideal line in the direction of the longer
  side.\<close>

theorem paint_line_correct:
  "\<exists>ps. paint_line x0 y0 x1 y1 c cv = Some (plot_all c ps cv)
    \<and> ps \<noteq> [] \<and> hd ps = (x0, y0) \<and> last ps = (x1, y1) \<and> connected ps
    \<and> (\<forall>(x, y) \<in> set ps. min x0 x1 \<le> x \<and> x \<le> max x0 x1 \<and> min y0 y1 \<le> y \<and> y \<le> max y0 y1
        \<and> 2 * \<bar>(x - x0) * (y1 - y0) - (y - y0) * (x1 - x0)\<bar> \<le> max \<bar>x1 - x0\<bar> \<bar>y1 - y0\<bar>)"
proof -
  define dx sx dy sy where "dx = paint_iabs (x1 - x0)" and "sx = (if x0 < x1 then 1 else - 1 :: int)"
    and "dy = paint_iabs (y1 - y0)" and "sy = (if y0 < y1 then 1 else - 1 :: int)"
  have s: "sx = 1 \<or> sx = - 1" "sy = 1 \<or> sy = - 1" by (simp_all add: sx_def sy_def)
  have ends: "x0 + sx * dx = x1" "y0 + sy * dy = y1" and d: "0 \<le> dx" "0 \<le> dy" "dx = \<bar>x1 - x0\<bar>" "dy = \<bar>y1 - y0\<bar>"
    by (auto simp: sx_def dx_def sy_def dy_def paint_iabs_def)
  have "near_line dx dy 0 0" using d by (simp add: near_line_def max_def)
  from paint_loop_runs [OF s order_refl d(1) order_refl d(2) this, of x0 y0 c cv] obtain ps where
    ps: "paint_line x0 y0 x1 y1 c cv = Some (plot_all c ps cv)" "ps \<noteq> []" "hd ps = (x0, y0)" "last ps = (x1, y1)" "connected ps"
    and pts: "\<forall>p \<in> set ps. \<exists>i j. p = (x0 + sx * i, y0 + sy * j) \<and> 0 \<le> i \<and> i \<le> dx \<and> 0 \<le> j \<and> j \<le> dy \<and> near_line dx dy i j"
    unfolding ends by (auto simp: paint_line_def Let_def dx_def [symmetric] dy_def [symmetric] sx_def [symmetric] sy_def [symmetric])
  have "min x0 x1 \<le> x \<and> x \<le> max x0 x1 \<and> min y0 y1 \<le> y \<and> y \<le> max y0 y1
        \<and> 2 * \<bar>(x - x0) * (y1 - y0) - (y - y0) * (x1 - x0)\<bar> \<le> max \<bar>x1 - x0\<bar> \<bar>y1 - y0\<bar>"
    if "(x, y) \<in> set ps" for x y
  proof -
    from pts that obtain i j where ij: "x = x0 + sx * i" "y = y0 + sy * j" "0 \<le> i" "i \<le> dx" "0 \<le> j" "j \<le> dy" "near_line dx dy i j"
      by blast
    have "x1 - x0 = sx * dx" "y1 - y0 = sy * dy" using ends by simp_all
    then have "\<bar>(x - x0) * (y1 - y0) - (y - y0) * (x1 - x0)\<bar> = \<bar>i * dy - j * dx\<bar>"
      using s ij(1,2) by (auto simp: algebra_simps)
    moreover have "min x0 x1 \<le> x \<and> x \<le> max x0 x1" "min y0 y1 \<le> y \<and> y \<le> max y0 y1"
      using s ij ends by auto
    ultimately show ?thesis using ij(7) d by (simp add: near_line_def)
  qed
  with ps show ?thesis by blast
qed

theorem paint_line_correct_witness:
  "\<exists>ps. paint_line 2 3 5 4 7 (replicate 17600 15) = Some (plot_all 7 ps (replicate 17600 15))
    \<and> hd ps = (2, 3) \<and> last ps = (5, 4)"
  using paint_line_correct [of 2 3 5 4 7 "replicate 17600 15"] by blast

lemma length_paint_plot [simp]: "length (paint_plot x y c cv) = length cv"
  by (simp add: paint_plot_def)

lemma length_plot_all [simp]: "length (plot_all c ps cv) = length cv"
  by (induction c ps cv rule: plot_all.induct) simp_all

end
