(* ===== verification/Notepad.thy ===== *)
theory Notepad
  imports Memfs "HOL-Library.Monad_Syntax"
begin

text \<open>
  The editor of the desktop (\<^verbatim>\<open>src/kernel/gui/gui.c\<close>): the Notepad branch of \<open>handle_key\<close>, loading a file
  and saving it. The buffer is an array of 4096 bytes with a length and a cursor; the specification
  is a pair of lists, the text before the cursor and the text after it.
\<close>

definition NOTE_BUF :: nat where "NOTE_BUF = 4096"
definition NOTE_COLS :: nat where "NOTE_COLS = 32"
definition NOTE_ROWS :: nat where "NOTE_ROWS = 10"

record note_st =
  note_buf :: "u8 list"
  note_len :: nat
  note_cursor :: nat
  note_path :: string

definition note_boot :: note_st where
  "note_boot = \<lparr>note_buf = replicate NOTE_BUF 0, note_len = 0, note_cursor = 0, note_path = []\<rparr>"

section \<open>Operations\<close>

text \<open>\<open>for (i = a; i < a + n; i++) buf[i] = buf[i + 1]\<close>, and \<open>for (i = a + n; i > a; i--) buf[i] = buf[i - 1]\<close>.\<close>

fun shift_down :: "nat \<Rightarrow> nat \<Rightarrow> u8 list \<Rightarrow> u8 list" where
  "shift_down a 0 b = b"
| "shift_down a (Suc n) b = shift_down (a + 1) n (b[a := b ! (a + 1)])"

fun shift_up :: "nat \<Rightarrow> nat \<Rightarrow> u8 list \<Rightarrow> u8 list" where
  "shift_up a 0 b = b"
| "shift_up a (Suc n) b = shift_up a n (b[a + Suc n := b ! (a + n)])"

definition note_backspace :: "note_st \<Rightarrow> note_st" where
  "note_backspace n =
     (if note_cursor n > 0 \<and> note_len n > 0 then
        let b = shift_down (note_cursor n - 1) (note_len n - (note_cursor n - 1)) (note_buf n);
            len = note_len n - 1
        in n\<lparr>note_buf := b[len := 0], note_len := len, note_cursor := note_cursor n - 1\<rparr>
      else n)"

definition note_newline :: "note_st \<Rightarrow> note_st" where
  "note_newline n =
     (if note_len n + 1 < NOTE_BUF then
        let b = shift_up (note_cursor n) (note_len n - note_cursor n) (note_buf n)
        in n\<lparr>note_buf := b[note_cursor n := 10], note_len := note_len n + 1, note_cursor := note_cursor n + 1\<rparr>
      else n)"

definition note_insert :: "u8 \<Rightarrow> note_st \<Rightarrow> note_st" where
  "note_insert c n =
     (if note_len n + 1 < NOTE_BUF then
        let b = shift_up (note_cursor n) (note_len n - note_cursor n) (note_buf n);
            len = note_len n + 1
        in n\<lparr>note_buf := (b[note_cursor n := c])[len := 0], note_len := len, note_cursor := note_cursor n + 1\<rparr>
      else n)"

text \<open>\<open>fs_exists\<close>, \<open>fs_create\<close> and \<open>fs_write\<close>; the results of the last two are not looked at.\<close>

definition note_save :: "note_st \<Rightarrow> fs \<Rightarrow> fs option" where
  "note_save n f =
     (if note_path n \<noteq> [] then do {
        ex \<leftarrow> fs_exists (note_path n) f;
        let f = (if ex = 0 then snd (fs_create (note_path n) f) else f);
        Some (snd (fs_write (note_path n) (take (note_len n) (note_buf n)) f))
      } else Some f)"

definition note_key :: "u8 \<Rightarrow> note_st \<Rightarrow> fs \<Rightarrow> (note_st \<times> fs) option" where
  "note_key c n f =
     (if c = 19 then do { f \<leftarrow> note_save n f; Some (n, f) }
      else if c = 8 then Some (note_backspace n, f)
      else if c = 10 \<or> c = 13 then Some (note_newline n, f)
      else if c \<ge> 32 \<and> c < 127 \<and> note_len n + 1 < NOTE_BUF then Some (note_insert c n, f)
      else Some (n, f))"

text \<open>The file branch of \<open>fm_open_sel\<close>.\<close>

definition note_open :: "string \<Rightarrow> note_st \<Rightarrow> fs \<Rightarrow> note_st option" where
  "note_open path n f = do {
     (r, bs) \<leftarrow> fs_read path (of_nat (NOTE_BUF - 1)) f;
     let r = (if r < 0 then 0 else nat r);
     Some (n\<lparr>note_buf := (blit (note_buf n) 0 bs)[r := 0], note_len := r, note_cursor := 0,
       note_path := take (FS_PATH_MAX - 1) path\<rparr>)
   }"

text \<open>\<open>note_index_to_rc\<close>: the row and column of an index of the text.\<close>

fun rc_scan :: "u8 list \<Rightarrow> nat \<Rightarrow> nat \<Rightarrow> nat \<times> nat" where
  "rc_scan [] r c = (r, c)"
| "rc_scan (ch # cs) r c =
     (if ch = 10 then rc_scan cs (r + 1) 0
      else if c + 1 \<ge> NOTE_COLS then rc_scan cs (r + 1) 0 else rc_scan cs r (c + 1))"

definition note_index_to_rc :: "nat \<Rightarrow> note_st \<Rightarrow> nat \<times> nat" where
  "note_index_to_rc index n = rc_scan (take (min index (note_len n)) (note_buf n)) 0 0"

section \<open>The text around the cursor\<close>

definition note_inv :: "note_st \<Rightarrow> bool" where
  "note_inv n \<longleftrightarrow> length (note_buf n) = NOTE_BUF \<and> note_cursor n \<le> note_len n \<and> note_len n < NOTE_BUF
     \<and> length (note_path n) < FS_PATH_MAX"

definition note_text :: "note_st \<Rightarrow> u8 list \<times> u8 list" where
  "note_text n = (take (note_cursor n) (note_buf n), drop (note_cursor n) (take (note_len n) (note_buf n)))"

text \<open>What a key does to the text.\<close>

definition edit :: "u8 \<Rightarrow> u8 list \<times> u8 list \<Rightarrow> u8 list \<times> u8 list" where
  "edit c = (\<lambda>(l, r).
     if c = 8 then (butlast l, r)
     else if length l + length r \<ge> 4095 then (l, r)
     else if c = 10 \<or> c = 13 then (l @ [10], r)
     else if 32 \<le> c \<and> c < 127 then (l @ [c], r)
     else (l, r))"

lemma length_shift [simp]: "length (shift_down a n b) = length b" "length (shift_up a n b) = length b"
proof -
  show "length (shift_down a n b) = length b" by (induction a n b rule: shift_down.induct) simp_all
  show "length (shift_up a n b) = length b" by (induction a n b rule: shift_up.induct) simp_all
qed

lemma nth_shift_down:
  "a + n < length b \<Longrightarrow> shift_down a n b ! k = (if a \<le> k \<and> k < a + n then b ! (k + 1) else b ! k)"
proof (induction a n b arbitrary: k rule: shift_down.induct)
  case (2 a n b)
  then show ?case by (auto simp: nth_list_update)
qed auto

lemma nth_shift_up:
  "a + n < length b \<Longrightarrow> k \<noteq> a \<Longrightarrow> shift_up a n b ! k = (if a < k \<and> k \<le> a + n then b ! (k - 1) else b ! k)"
proof (induction a n b arbitrary: k rule: shift_up.induct)
  case (2 a n b)
  then show ?case by (auto simp: nth_list_update)
qed auto

lemma shift_up_split:
  assumes "c \<le> len" and "len < length b"
  shows "take c ((shift_up c (len - c) b)[c := x]) = take c b"
    and "drop c (take (Suc len) ((shift_up c (len - c) b)[c := x])) = x # drop c (take len b)"
proof -
  have n: "c + (len - c) < length b" using assms by simp
  show "take c ((shift_up c (len - c) b)[c := x]) = take c b"
    using assms by (intro nth_equalityI) (auto simp: nth_shift_up [OF n])
  show "drop c (take (Suc len) ((shift_up c (len - c) b)[c := x])) = x # drop c (take len b)"
    using assms by (intro nth_equalityI) (auto simp: nth_shift_up [OF n] nth_list_update nth_Cons' Suc_diff_le)
qed

lemma shift_down_split:
  assumes "0 < c" and "c \<le> len" and "len < length b"
  shows "take (c - 1) (shift_down (c - 1) (len - (c - 1)) b) = take (c - 1) b"
    and "drop (c - 1) (take (len - 1) (shift_down (c - 1) (len - (c - 1)) b)) = drop c (take len b)"
proof -
  obtain a where c: "c = Suc a" using assms(1) by (cases c) auto
  obtain m where len: "len = Suc a + m" using assms(2) c by (metis le_Suc_ex)
  have n: "a + Suc m < length b" using assms(3) len by simp
  have S: "shift_down a (Suc m) b ! k = (if a \<le> k \<and> k < a + Suc m then b ! (k + 1) else b ! k)" for k
    by (rule nth_shift_down [OF n])
  have m: "len - a = Suc m" "c - 1 = a" "len - 1 = a + m" using c len by simp_all
  show "take (c - 1) (shift_down (c - 1) (len - (c - 1)) b) = take (c - 1) b"
    unfolding m by (rule nth_equalityI) (use n in \<open>simp_all add: S del: shift_down.simps\<close>)
  show "drop (c - 1) (take (len - 1) (shift_down (c - 1) (len - (c - 1)) b)) = drop c (take len b)"
    unfolding m unfolding c len by (rule nth_equalityI) (use n in \<open>simp_all add: S del: shift_down.simps\<close>)
qed

lemma note_backspace_text:
  assumes "note_inv n"
  shows "note_inv (note_backspace n)" and "note_text (note_backspace n) = edit 8 (note_text n)"
proof -
  show "note_inv (note_backspace n)" using assms by (auto simp: note_inv_def note_backspace_def Let_def)
  show "note_text (note_backspace n) = edit 8 (note_text n)"
  proof (cases "note_cursor n > 0 \<and> note_len n > 0")
    case True
    with assms have "0 < note_cursor n" "note_cursor n \<le> note_len n" "note_len n < length (note_buf n)" by (auto simp: note_inv_def)
    note S = shift_down_split [OF this]
    have "note_cursor n - 1 \<le> note_len n - 1" using True assms by (simp add: note_inv_def diff_le_mono)
    with True assms S show ?thesis
      by (simp add: note_text_def edit_def note_backspace_def Let_def note_inv_def butlast_take)
  next
    case False
    with assms show ?thesis by (auto simp: note_text_def edit_def note_backspace_def note_inv_def)
  qed
qed

lemma note_room: "note_inv n \<Longrightarrow> length (fst (note_text n)) + length (snd (note_text n)) = note_len n"
  by (simp add: note_text_def note_inv_def)

lemma note_insert_text:
  assumes "note_inv n" and "note_len n + 1 < NOTE_BUF"
  shows "note_inv (note_insert c n)" and "note_inv (note_newline n)"
    and "note_text (note_insert c n) = (fst (note_text n) @ [c], snd (note_text n))"
    and "note_text (note_newline n) = (fst (note_text n) @ [10], snd (note_text n))"
proof -
  have "note_cursor n \<le> note_len n" "note_len n < length (note_buf n)" using assms by (auto simp: note_inv_def)
  note S = shift_up_split [OF this]
  have l: "length (note_buf n) = NOTE_BUF" "note_cursor n < NOTE_BUF" using assms by (simp_all add: note_inv_def)
  have cur: "take (Suc (note_cursor n)) (b[note_cursor n := x]) = take (note_cursor n) (b[note_cursor n := x]) @ [x]"
    "drop (Suc (note_cursor n)) ys = tl (drop (note_cursor n) ys)" if "length b = NOTE_BUF" for b ys :: "u8 list" and x
    using that l by (simp_all add: take_Suc_conv_app_nth drop_Suc tl_drop)
  show "note_inv (note_insert c n)" "note_inv (note_newline n)"
    using assms by (auto simp: note_inv_def note_insert_def note_newline_def Let_def)
  show "note_text (note_newline n) = (fst (note_text n) @ [10], snd (note_text n))"
    using assms(2) S l by (simp add: note_text_def note_newline_def Let_def cur)
  show "note_text (note_insert c n) = (fst (note_text n) @ [c], snd (note_text n))"
    using assms S l by (simp add: note_text_def note_insert_def Let_def cur note_inv_def)
qed

text \<open>C22: Every key but Ctrl-S edits the text as the specification says: the buffer with its length and cursor
  is the text before and after the cursor; a printable character or a newline goes in at the cursor
  while the text has fewer than 4095 characters, backspace takes the character before the cursor.\<close>

theorem notepad_edits_text:
  assumes "note_inv n" and "c \<noteq> 19"
  shows "\<exists>n'. note_key c n f = Some (n', f) \<and> note_inv n' \<and> note_text n' = edit c (note_text n)"
proof (cases "note_len n + 1 < NOTE_BUF")
  case True
  note I = note_insert_text [OF assms(1) True]
  have r: "length (fst (note_text n)) + length (snd (note_text n)) < 4095"
    using note_room [OF assms(1)] True by (simp add: NOTE_BUF_def)
  then have e: "edit c (note_text n) = (if c = 8 then edit 8 (note_text n)
      else if c = 10 \<or> c = 13 then (fst (note_text n) @ [10], snd (note_text n))
      else if 32 \<le> c \<and> c < 127 then (fst (note_text n) @ [c], snd (note_text n)) else note_text n)"
    by (auto simp: edit_def split: prod.split)
  show ?thesis
    unfolding e using I(1) [of c] I(2) I(3) [of c] I(4) note_backspace_text [OF assms(1)] assms True
    by (simp add: note_key_def)
next
  case False
  have r: "length (fst (note_text n)) + length (snd (note_text n)) \<ge> 4095"
    using note_room [OF assms(1)] False by (simp add: NOTE_BUF_def)
  then have e: "edit c (note_text n) = (if c = 8 then edit 8 (note_text n) else note_text n)"
    by (auto simp: edit_def split: prod.split)
  show ?thesis
    unfolding e using note_backspace_text [OF assms(1)] assms False by (simp add: note_key_def note_newline_def)
qed

section \<open>Saving and opening\<close>

lemma fs_read_bounds:
  assumes "fs_read path max_len f = Some (r, bs)" and "0 < max_len"
  shows "nat r < unat max_len" and "length bs \<le> nat r + 1"
proof -
  define k :: "u64 \<Rightarrow> u64" where "k n = (if n \<ge> max_len then max_len - 1 else n)" for n
  have k: "unat (k n) < unat max_len" for n
    using assms(2) by (auto simp: k_def word_le_nat_alt unat_minus_one word_gt_0 unat_gt_0)
  from assms(1) consider "r = - 1" "bs = []" | "r = 0" "bs = [0]"
    | n b where "r = int (unat (k n))" "bs = take (unat (k n)) (file_bufs f ! b) @ [0]"
    by (auto simp: fs_read_def Let_def k_def [symmetric] split: option.splits if_splits prod.splits)
  then have "nat r < unat max_len \<and> length bs \<le> nat r + 1"
    using assms(2) k by cases (simp_all add: unat_gt_0 word_gt_0)
  then show "nat r < unat max_len" and "length bs \<le> nat r + 1" by auto
qed

lemma fs_write_found:
  assumes "file_of path f \<noteq> None" and "cget path 0 = CHR ''/''"
  shows "fst (fs_write path c f) = 0"
  using assms by (auto simp: file_of_def resolve_file_path_def fs_write_def Let_def split: option.splits)

lemma note_open_inv:
  assumes "note_inv n" and "note_open path n f = Some n'"
  shows "note_inv n'"
proof -
  obtain r bs where r: "fs_read path (of_nat (NOTE_BUF - 1)) f = Some (r, bs)"
    using assms(2) by (auto simp: note_open_def bind_eq_Some_conv)
  have u: "unat (of_nat (NOTE_BUF - 1) :: u64) = 4095" by (simp add: NOTE_BUF_def)
  have "(0 :: u64) < of_nat (NOTE_BUF - 1)" by (simp add: NOTE_BUF_def)
  from fs_read_bounds [OF r this] have "nat r < 4095" "length bs \<le> nat r + 1" unfolding u by auto
  moreover from this have "length (blit (note_buf n) 0 bs) = NOTE_BUF"
    using assms(1) by (simp add: note_inv_def NOTE_BUF_def)
  ultimately show ?thesis
    using assms r by (auto simp: note_open_def note_inv_def Let_def NOTE_BUF_def FS_PATH_MAX_def)
qed

text \<open>C31: Saving and opening again: Ctrl-S on a file that exists under an absolute path stores the text, and in a
  build that leaves the dead frame of \<open>resolve_file_path\<close> alone opening the path afterwards gives it back with
  the cursor at its start, except that a text of the full 4095 characters loses its last one. By the C standard, which defines nothing
  in that frame, opening is undefined.\<close>

theorem notepad_save_then_open:
  assumes "fs_reach f" and "note_inv n" and "cget (note_path n) 0 = CHR ''/''"
    and "fs_exists (note_path n) f = Some 1" and "file_of (note_path n) f \<noteq> None" and "note_inv m"
  shows "\<exists>f'. note_key 19 n f = Some (n, f')
    \<and> (frame_kept f \<longrightarrow> (\<exists>m'. note_open (note_path n) m f' = Some m' \<and> note_inv m'
         \<and> note_text m' = ([], take 4094 (fst (note_text n) @ snd (note_text n))) \<and> note_path m' = note_path n))
    \<and> (dead_frame f = (\<lambda>_. None) \<longrightarrow> note_open (note_path n) m f' = None)"
proof -
  let ?path = "note_path n" and ?t = "take (note_len n) (note_buf n)"
  have t: "fst (note_text n) @ snd (note_text n) = ?t" "length ?t = note_len n" "note_len n \<le> 4095"
    using assms(2) by (simp_all add: note_text_def note_inv_def NOTE_BUF_def)
      (metis append_take_drop_id min.absorb1 take_take)
  from assms(5) obtain fi where "file_of ?path f = Some fi" by auto
  have w: "fst (fs_write ?path ?t f) = 0" by (rule fs_write_found [OF assms(5,3)])
  then obtain f' where f': "fs_write ?path ?t f = (0, f')" by (metis prod.collapse)
  have ne: "?path \<noteq> []" using assms(3) by auto
  have save: "note_key 19 n f = Some (n, f')" using ne assms(4) f' by (simp add: note_key_def note_save_def)
  have u: "unat (of_nat (NOTE_BUF - 1) :: u64) = 4095" "(0 :: u64) < of_nat (NOTE_BUF - 1)" by (simp_all add: NOTE_BUF_def)
  let ?k = "min (note_len n) 4094"
  have opened: "\<exists>m'. note_open ?path m f' = Some m' \<and> note_inv m' \<and> note_text m' = ([], take 4094 ?t) \<and> note_path m' = ?path"
    if kept: "frame_kept f"
  proof -
    from fs_read_stored [OF fs_reach_inv [OF assms(1)] assms(3) f' u(2) kept]
    have rd: "fs_read ?path (of_nat (NOTE_BUF - 1)) f' = Some (int ?k, take ?k ?t @ [0])"
      using t u by (simp add: Let_def FS_FILE_BUF_def min_def)
    obtain m' where m': "note_open ?path m f' = Some m'" "m' = m\<lparr>note_buf := (blit (note_buf m) 0 (take ?k ?t @ [0]))[?k := 0],
        note_len := ?k, note_cursor := 0, note_path := take (FS_PATH_MAX - 1) ?path\<rparr>"
      using rd by (simp add: note_open_def Let_def)
    have "take ?k (blit (note_buf m) 0 (take ?k ?t @ [0])) = take ?k ?t"
      using t(2) by (simp add: blit_def)
    then have "note_text m' = ([], take 4094 ?t)"
      using m'(2) t by (simp add: note_text_def min_def)
    moreover have "note_path m' = ?path" using m'(2) assms(2) by (simp add: note_inv_def FS_PATH_MAX_def)
    ultimately show ?thesis using m'(1) note_open_inv [OF assms(6) m'(1)] by blast
  qed
  have "note_open ?path m f' = None" if none: "dead_frame f = (\<lambda>_. None)"
    using fs_read_after_write_undefined [OF fs_reach_inv [OF assms(1)] assms(3) f' none] by (simp add: note_open_def Let_def)
  then show ?thesis using save opened t(1) by auto
qed

section \<open>Concrete states\<close>

lemma note_boot_inv: "note_inv note_boot"
  by (simp add: note_inv_def note_boot_def NOTE_BUF_def FS_PATH_MAX_def)

theorem notepad_edits_text_witness:
  "\<exists>n'. note_key 65 note_boot (fs_init fs_boot) = Some (n', fs_init fs_boot) \<and> note_text n' = ([65], [])"
  using notepad_edits_text [OF note_boot_inv, of 65 "fs_init fs_boot"]
  by (auto simp: edit_def note_text_def note_boot_def)

lemma two_files_dirs: "dirs two_files = dirs (fs_init fs_kept)"
  using fs_create_top [of "''a''" "fs_init fs_kept"] fs_create_top [of "''b''" "snd (fs_create ''/a'' (fs_init fs_kept))"]
  by (simp add: two_files_def plain_def FS_NAME_MAX_def FS_MAX_FILES_def file_by_name_def)

lemma two_files_exists: "fs_exists ''/a'' two_files = Some 1"
proof -
  have "path_to_dir ''/a'' two_files = None"
    using path_to_dir_top [of "''a''" two_files]
    by (simp add: plain_def FS_NAME_MAX_def dir_by_name_def two_files_dirs fs_init_def)
  then show ?thesis
    by (simp add: fs_exists_def norm_ab path_to_dir_root file_by_name_def two_files_fields)
qed

theorem notepad_save_then_open_witness:
  "\<exists>f' m'. note_key 19 (note_boot\<lparr>note_path := ''/a'', note_len := 2\<rparr>) two_files
      = Some (note_boot\<lparr>note_path := ''/a'', note_len := 2\<rparr>, f')
    \<and> note_open ''/a'' note_boot f' = Some m' \<and> note_text m' = ([], [0, 0])"
proof -
  let ?n = "note_boot\<lparr>note_path := ''/a'', note_len := 2\<rparr>"
  have n: "note_inv ?n" using note_boot_inv by (simp add: note_inv_def note_boot_def NOTE_BUF_def FS_PATH_MAX_def)
  have p: "cget (note_path ?n) 0 = CHR ''/''" "fs_exists (note_path ?n) two_files = Some 1" "file_of (note_path ?n) two_files \<noteq> None"
    using two_files_exists two_files_of(1) by (simp_all add: cget_def)
  have t: "take 4094 (fst (note_text ?n) @ snd (note_text ?n)) = [0, 0]"
    by (simp add: note_text_def note_boot_def NOTE_BUF_def eval_nat_numeral)
  from notepad_save_then_open [OF two_files_reach n p note_boot_inv] two_files_kept show ?thesis
    unfolding t by auto
qed

end
