(* ===== verification/Calc.thy ===== *)
theory Calc
  imports Kprelude "HOL-Library.Monad_Syntax" "HOL-Library.Signed_Division"
begin

text \<open>
  The calculator of the desktop (\<^verbatim>\<open>src/kernel/gui/gui.c\<close>): its display, accumulator and pending
  operator, and what a key does to them. \<open>long long\<close> is an integer in its range: an operation whose
  result leaves it has no meaning in C, and the key is then \<open>None\<close>. A text is a C string, a key a byte.
\<close>

definition CALC_MAX :: nat where "CALC_MAX = 24"

record calc =
  calc_disp :: string
  calc_entry :: string
  calc_op :: u8
  calc_acc :: int
  calc_have_acc :: bool

definition ll :: "int \<Rightarrow> int option" where
  "ll v = (if - (2 ^ 63) \<le> v \<and> v < 2 ^ 63 then Some v else None)"

definition calc_reset :: "calc \<Rightarrow> calc" where
  "calc_reset s = s\<lparr>calc_disp := ''0'', calc_entry := [], calc_op := 0, calc_acc := 0, calc_have_acc := False\<rparr>"

definition digit_char :: "nat \<Rightarrow> char" where
  "digit_char d = char_of (48 + d)"

definition is_digit :: "char \<Rightarrow> bool" where
  "is_digit c \<longleftrightarrow> 48 \<le> (of_char c :: nat) \<and> (of_char c :: nat) \<le> 57"

definition digit_of :: "char \<Rightarrow> int" where
  "digit_of c = int (of_char c) - 48"

fun parse_digits :: "int \<Rightarrow> string \<Rightarrow> int option" where
  "parse_digits v [] = Some v"
| "parse_digits v (c # cs) =
     (if is_digit c then do { v \<leftarrow> ll (v * 10); v \<leftarrow> ll (v + digit_of c); parse_digits v cs } else Some v)"

definition calc_parse_int :: "calc \<Rightarrow> int option" where
  "calc_parse_int s =
     (let neg = (cget (calc_disp s) 0 = CHR ''-'')
      in do { v \<leftarrow> parse_digits 0 (if neg then drop 1 (calc_disp s) else calc_disp s); Some (if neg then - v else v) })"

fun tmp_digits :: "nat \<Rightarrow> string" where
  "tmp_digits u = (if u = 0 then [] else digit_char (u mod 10) # tmp_digits (u div 10))"

declare tmp_digits.simps [simp del]

definition calc_fmt_ll :: "int \<Rightarrow> calc \<Rightarrow> calc option" where
  "calc_fmt_ll v s =
     (if v = 0 then Some (s\<lparr>calc_disp := ''0''\<rparr>)
      else do {
        let neg = v < 0;
        u \<leftarrow> (if neg then ll (- v) else Some v);
        Some (s\<lparr>calc_disp := (if neg then ''-'' else []) @ rev (tmp_digits (nat u))\<rparr>)
      })"

definition calc_apply :: "calc \<Rightarrow> calc option" where
  "calc_apply s = do {
     v \<leftarrow> calc_parse_int s;
     if \<not> calc_have_acc s then Some (s\<lparr>calc_acc := v, calc_have_acc := True\<rparr>)
     else if calc_op s = 0 then calc_fmt_ll v (s\<lparr>calc_acc := v\<rparr>)
     else do {
       acc \<leftarrow> (if calc_op s = 43 then ll (calc_acc s + v)
              else if calc_op s = 45 then ll (calc_acc s - v)
              else if calc_op s = 42 then ll (calc_acc s * v)
              else if calc_op s = 47 then (if v \<noteq> 0 then ll (calc_acc s sdiv v) else Some (calc_acc s))
              else Some (calc_acc s));
       calc_fmt_ll acc (s\<lparr>calc_acc := acc\<rparr>)
     }
   }"

definition calc_key_char :: "u8 \<Rightarrow> calc \<Rightarrow> calc option" where
  "calc_key_char key s =
     (if key \<ge> 48 \<and> key \<le> 57 then
        Some (let n = length (calc_disp s) in
          if n + 1 < CALC_MAX then
            (if n = 1 \<and> cget (calc_disp s) 0 = CHR ''0'' then s\<lparr>calc_disp := [byte_char key]\<rparr>
             else s\<lparr>calc_disp := calc_disp s @ [byte_char key]\<rparr>)
          else s)
      else if key = 46 then Some s
      else if key = 99 \<or> key = 67 then Some (calc_reset s)
      else if key = 43 \<or> key = 45 \<or> key = 42 \<or> key = 47 then do {
        s \<leftarrow> calc_apply s;
        Some (s\<lparr>calc_op := key, calc_disp := ''0''\<rparr>)
      }
      else if key = 61 \<or> key = 10 then do { s \<leftarrow> calc_apply s; Some (s\<lparr>calc_op := 0\<rparr>) }
      else Some s)"

section \<open>Numbers and their digits\<close>

lemma of_digit_char: "d < 10 \<Longrightarrow> (of_char (digit_char d) :: nat) = 48 + d"
  by (simp add: digit_char_def)

lemma digit_of_char [simp]: "d < 10 \<Longrightarrow> digit_of (digit_char d) = int d"
  by (simp add: digit_of_def of_digit_char)

lemma is_digit_char [simp]: "d < 10 \<Longrightarrow> is_digit (digit_char d)"
  using of_digit_char [of d] by (simp add: is_digit_def)

text \<open>The value of a text of digits.\<close>

fun num :: "int \<Rightarrow> string \<Rightarrow> int" where
  "num v [] = v"
| "num v (c # cs) = num (v * 10 + digit_of c) cs"

lemma num_append: "num v (xs @ ys) = num (num v xs) ys"
  by (induction v xs rule: num.induct) simp_all

lemma digit_of_range: "is_digit c \<Longrightarrow> 0 \<le> digit_of c \<and> digit_of c \<le> 9"
  by (simp add: is_digit_def digit_of_def)

lemma num_mono: "list_all is_digit cs \<Longrightarrow> 0 \<le> v \<Longrightarrow> v \<le> num v cs"
proof (induction v cs rule: num.induct)
  case (2 v c cs)
  then show ?case using digit_of_range [of c] by fastforce
qed simp

lemma parse_digits_num:
  "list_all is_digit cs \<Longrightarrow> 0 \<le> v \<Longrightarrow> num v cs < 2 ^ 63 \<Longrightarrow> parse_digits v cs = Some (num v cs)"
proof (induction v cs rule: num.induct)
  case (2 v c cs)
  have d: "0 \<le> digit_of c \<and> digit_of c \<le> 9" using 2 digit_of_range by simp
  have "v * 10 + digit_of c \<le> num v (c # cs)" using num_mono [of cs "v * 10 + digit_of c"] 2 d by simp
  with 2 d show ?case by (simp add: ll_def)
qed simp

lemma tmp_digits_num: "list_all is_digit (tmp_digits u) \<and> num 0 (rev (tmp_digits u)) = int u"
proof (induction u rule: tmp_digits.induct)
  case (1 u)
  show ?case
  proof (cases "u = 0")
    case False
    have "int (u div 10) * 10 + int (u mod 10) = int u" by presburger
    with False 1 show ?thesis by (simp add: tmp_digits.simps [of u] num_append)
  qed (simp add: tmp_digits.simps)
qed

text \<open>What the display shows for a number.\<close>

definition shown :: "int \<Rightarrow> string" where
  "shown v = (if v = 0 then ''0'' else (if v < 0 then ''-'' else []) @ rev (tmp_digits (nat \<bar>v\<bar>)))"

lemma calc_fmt_shown: "\<bar>v\<bar> < 2 ^ 63 \<Longrightarrow> calc_fmt_ll v s = Some (s\<lparr>calc_disp := shown v\<rparr>)"
  by (auto simp: calc_fmt_ll_def shown_def ll_def Let_def)

lemma is_digit_not_minus: "is_digit c \<Longrightarrow> c \<noteq> CHR ''-''"
  by (auto simp: is_digit_def)

lemma shown_digits:
  assumes "v \<noteq> 0"
  shows "list_all is_digit (rev (tmp_digits (nat \<bar>v\<bar>)))" and "num 0 (rev (tmp_digits (nat \<bar>v\<bar>))) = \<bar>v\<bar>"
    and "rev (tmp_digits (nat \<bar>v\<bar>)) \<noteq> []"
  using tmp_digits_num [of "nat \<bar>v\<bar>"] assms by (auto simp: list_all_iff tmp_digits.simps [of "nat \<bar>v\<bar>"])

lemma calc_parse_cong: "calc_disp s = calc_disp t \<Longrightarrow> calc_parse_int s = calc_parse_int t"
  by (simp add: calc_parse_int_def Let_def cong: if_cong)

lemma calc_parse_digits:
  assumes "list_all is_digit ds" and "num 0 ds < 2 ^ 63"
  shows "calc_disp s = ds \<Longrightarrow> calc_parse_int s = Some (num 0 ds)"
    and "calc_disp s = ''-'' @ ds \<Longrightarrow> calc_parse_int s = Some (- num 0 ds)"
proof -
  note P = parse_digits_num [OF assms(1) order_refl assms(2)]
  have "cget ds 0 \<noteq> CHR ''-''" using assms(1) is_digit_not_minus by (cases ds) (auto simp: cget_def)
  with P show "calc_disp s = ds \<Longrightarrow> calc_parse_int s = Some (num 0 ds)"
    by (simp add: calc_parse_int_def)
  show "calc_disp s = ''-'' @ ds \<Longrightarrow> calc_parse_int s = Some (- num 0 ds)"
    using P by (simp add: calc_parse_int_def cget_def)
qed

lemma calc_parse_shown:
  assumes "\<bar>v\<bar> < 2 ^ 63"
  shows "calc_disp s = shown v \<Longrightarrow> calc_parse_int s = Some v"
proof -
  assume disp: "calc_disp s = shown v"
  show ?thesis
proof (cases "v = 0")
  case True
  then show ?thesis using disp by (simp add: shown_def calc_parse_int_def cget_def is_digit_def digit_of_def ll_def)
next
  case False
  note S = shown_digits [OF False]
  have b: "num 0 (rev (tmp_digits (nat \<bar>v\<bar>))) < 2 ^ 63" unfolding S(2) by (rule assms)
  note P = calc_parse_digits [OF S(1) b, of s, unfolded S(2)]
  show ?thesis
  proof (cases "v < 0")
    case True
    then have "shown v = ''-'' @ rev (tmp_digits (nat \<bar>v\<bar>))" by (simp add: shown_def)
    with P(2) True disp show ?thesis by simp
  next
    case n: False
    then have "shown v = rev (tmp_digits (nat \<bar>v\<bar>))" using False by (simp add: shown_def)
    with P(1) n disp show ?thesis by simp
  qed
qed
qed

lemma tmp_digits_length: "u < 10 ^ k \<Longrightarrow> length (tmp_digits u) \<le> k"
proof (induction k arbitrary: u)
  case (Suc k)
  then have "u div 10 < 10 ^ k" by (simp add: less_mult_imp_div_less mult.commute)
  from Suc.IH [OF this] show ?case by (subst tmp_digits.simps) simp
qed (simp add: tmp_digits.simps)

lemma shown_length:
  assumes "\<bar>v\<bar> < 2 ^ 63"
  shows "length (shown v) < CALC_MAX"
proof -
  have "nat \<bar>v\<bar> < 10 ^ 19" using assms by simp
  from tmp_digits_length [OF this] show ?thesis
    by (cases "v < 0") (simp_all add: shown_def CALC_MAX_def)
qed

text \<open>The display round trip: every number but the smallest \<open>long long\<close> is written to the display within its
  24 characters and read back as itself.\<close>

theorem calc_display_roundtrip:
  assumes "\<bar>v\<bar> < 2 ^ 63"
  shows "\<exists>s'. calc_fmt_ll v s = Some s' \<and> calc_parse_int s' = Some v \<and> length (calc_disp s') < CALC_MAX"
proof -
  have f: "calc_fmt_ll v s = Some (s\<lparr>calc_disp := shown v\<rparr>)" by (rule calc_fmt_shown [OF assms])
  have "calc_parse_int (s\<lparr>calc_disp := shown v\<rparr>) = Some v" by (rule calc_parse_shown [OF assms]) simp
  with f shown_length [OF assms] show ?thesis by simp
qed

definition calc_boot :: calc where
  "calc_boot = \<lparr>calc_disp = [], calc_entry = [], calc_op = 0, calc_acc = 0, calc_have_acc = False\<rparr>"

theorem calc_display_roundtrip_witness:
  "\<exists>s'. calc_fmt_ll (- 705) calc_boot = Some s' \<and> calc_parse_int s' = Some (- 705)"
  using calc_display_roundtrip [of "- 705" calc_boot] by auto

section \<open>Calculating\<close>

fun calc_keys :: "u8 list \<Rightarrow> calc \<Rightarrow> calc option" where
  "calc_keys [] s = Some s"
| "calc_keys (k # ks) s = do { s \<leftarrow> calc_key_char k s; calc_keys ks s }"

lemma calc_keys_append: "calc_keys (xs @ ys) s = calc_keys xs s \<bind> calc_keys ys"
  by (induction xs s rule: calc_keys.induct) (auto split: Option.bind_splits)

text \<open>The operators, and the value of a chain of them from the left; \<open>None\<close> when a result leaves the numbers
  with both signs.\<close>

definition op_val :: "u8 \<Rightarrow> int \<Rightarrow> int \<Rightarrow> int" where
  "op_val op a b = (if op = 43 then a + b else if op = 45 then a - b else if op = 42 then a * b
     else if b = 0 then a else a sdiv b)"

fun chain_val :: "int \<Rightarrow> (u8 \<times> string) list \<Rightarrow> int option" where
  "chain_val a [] = Some a"
| "chain_val a ((op, ds) # r) =
     (let v = op_val op a (num 0 ds) in if \<bar>v\<bar> < 2 ^ 63 then chain_val v r else None)"

definition number :: "string \<Rightarrow> bool" where
  "number ds \<longleftrightarrow> ds \<noteq> [] \<and> list_all is_digit ds \<and> length ds \<le> 18 \<and> (length ds > 1 \<longrightarrow> hd ds \<noteq> CHR ''0'')"

definition typed :: "string \<Rightarrow> u8 list" where
  "typed ds = map of_char ds"

lemma of_char_byte: "unat (of_char c :: u8) = of_char c" "byte_char (of_char c) = c"
proof -
  have "(of_char c :: nat) mod 256 = of_char c" by simp
  then have lt: "(of_char c :: nat) < 256" by (metis mod_less_divisor zero_less_numeral)
  have "(of_char c :: u8) = of_nat (of_char c)" by (rule of_nat_of_char [symmetric])
  then show u: "unat (of_char c :: u8) = of_char c" using lt by (simp add: unat_of_nat take_bit_nat_eq_self)
  show "byte_char (of_char c) = c" unfolding byte_char_def u by simp
qed

lemma digit_key: "is_digit c \<Longrightarrow> (of_char c :: u8) \<ge> 48 \<and> (of_char c :: u8) \<le> 57"
  by (simp add: word_le_nat_alt of_char_byte is_digit_def)

lemma type_digits:
  assumes "list_all is_digit ds" and "length (calc_disp s) + length ds < CALC_MAX" and "calc_disp s \<noteq> []"
    and "calc_disp s \<noteq> ''0''"
  shows "calc_keys (typed ds) s = Some (s\<lparr>calc_disp := calc_disp s @ ds\<rparr>)"
  using assms
proof (induction ds arbitrary: s)
  case (Cons c ds)
  let ?s = "s\<lparr>calc_disp := calc_disp s @ [c]\<rparr>"
  have "\<not> (length (calc_disp s) = 1 \<and> cget (calc_disp s) 0 = CHR ''0'')"
    using Cons.prems(4) by (auto simp: cget_def length_Suc_conv)
  then have k: "calc_key_char (of_char c) s = Some ?s"
    using digit_key [of c] Cons.prems(1,2) by (auto simp: calc_key_char_def Let_def of_char_byte)
  have "calc_keys (typed ds) ?s = Some (?s\<lparr>calc_disp := calc_disp ?s @ ds\<rparr>)"
    by (rule Cons.IH) (use Cons.prems in auto)
  with k show ?case by (simp add: typed_def)
qed (simp add: typed_def)

text \<open>A number typed over the display's zero.\<close>

lemma type_number:
  assumes "number ds" and "calc_disp s = ''0''"
  shows "calc_keys (typed ds) s = Some (s\<lparr>calc_disp := ds\<rparr>)"
proof -
  obtain c r where ds: "ds = c # r" and d: "is_digit c" "list_all is_digit r" and len: "length r < 18"
    and z: "r \<noteq> [] \<Longrightarrow> c \<noteq> CHR ''0''"
    using assms(1) by (cases ds) (auto simp: number_def)
  have k: "calc_key_char (of_char c) s = Some (s\<lparr>calc_disp := [c]\<rparr>)"
    using digit_key [OF d(1)] assms(2) by (simp add: calc_key_char_def Let_def of_char_byte cget_def CALC_MAX_def)
  have "calc_keys (typed r) (s\<lparr>calc_disp := [c]\<rparr>) = Some (s\<lparr>calc_disp := c # r\<rparr>)"
  proof (cases "r = []")
    case False
    with type_digits [of r "s\<lparr>calc_disp := [c]\<rparr>"] d len z show ?thesis by (simp add: CALC_MAX_def)
  qed (simp add: typed_def)
  with k show ?thesis by (simp add: ds typed_def)
qed

lemma number_value:
  assumes "number ds"
  shows "0 \<le> num 0 ds" and "num 0 ds < 2 ^ 63"
proof -
  have "num v ds < (v + 1) * 10 ^ length ds" if "list_all is_digit ds" "0 \<le> v" for v ds
    using that
  proof (induction v ds rule: num.induct)
    case (2 v c cs)
    have d: "0 \<le> digit_of c \<and> digit_of c \<le> 9" using 2 digit_of_range by simp
    have "num (v * 10 + digit_of c) cs < (v * 10 + digit_of c + 1) * 10 ^ length cs" using 2 d by simp
    also have "\<dots> \<le> (v * 10 + 10) * 10 ^ length cs" using d by (intro mult_right_mono) auto
    finally show ?case by (simp add: algebra_simps)
  qed simp
  from this [of ds 0] have "num 0 ds < 10 ^ length ds" using assms by (simp add: number_def)
  also have "\<dots> \<le> (10 :: int) ^ 18" using assms by (intro power_increasing) (simp_all add: number_def)
  finally show "num 0 ds < 2 ^ 63" by simp
  show "0 \<le> num 0 ds" using num_mono [of ds 0] assms by (simp add: number_def)
qed

lemma calc_parse_number: "number ds \<Longrightarrow> calc_disp s = ds \<Longrightarrow> calc_parse_int s = Some (num 0 ds)"
  using calc_parse_digits(1) [of ds s] number_value by (simp add: number_def)

text \<open>A state whose next operator gives \<open>v\<close>.\<close>

definition calc_pending :: "calc \<Rightarrow> int \<Rightarrow> bool" where
  "calc_pending s v \<longleftrightarrow> (\<exists>s1. calc_apply s = Some s1 \<and> calc_acc s1 = v \<and> calc_have_acc s1 \<and> calc_parse_int s1 = Some v)"

lemma pending_first:
  assumes "number ds" and "\<not> calc_have_acc s"
  shows "calc_pending (s\<lparr>calc_disp := ds\<rparr>) (num 0 ds)"
  using calc_parse_number [OF assms(1)] assms(2) by (simp add: calc_pending_def calc_apply_def)

lemma pending_op:
  assumes "number ds" and "calc_have_acc s" and "calc_op s \<in> {43, 45, 42, 47}" and "\<bar>op_val (calc_op s) (calc_acc s) (num 0 ds)\<bar> < 2 ^ 63"
    and "\<bar>calc_acc s\<bar> < 2 ^ 63"
  shows "calc_pending (s\<lparr>calc_disp := ds\<rparr>) (op_val (calc_op s) (calc_acc s) (num 0 ds))"
proof -
  let ?v = "op_val (calc_op s) (calc_acc s) (num 0 ds)"
  have p: "calc_parse_int (s\<lparr>calc_disp := ds\<rparr>) = Some (num 0 ds)" by (rule calc_parse_number [OF assms(1)]) simp
  have "ll ?v = Some ?v" using assms(4) by (auto simp: ll_def)
  then have "calc_apply (s\<lparr>calc_disp := ds\<rparr>) = calc_fmt_ll ?v (s\<lparr>calc_disp := ds, calc_acc := ?v\<rparr>)"
    using p assms(2,3) by (auto simp: calc_apply_def op_val_def)
  also have "\<dots> = Some (s\<lparr>calc_disp := shown ?v, calc_acc := ?v\<rparr>)"
    by (subst calc_fmt_shown [OF assms(4)]) simp
  finally show ?thesis
    using calc_parse_shown [OF assms(4), of "s\<lparr>calc_disp := shown ?v, calc_acc := ?v\<rparr>"] assms(2) by (simp add: calc_pending_def)
qed

lemma calc_chain:
  assumes "calc_pending s a" and "\<bar>a\<bar> < 2 ^ 63" and "\<forall>(op, ds) \<in> set r. op \<in> {43, 45, 42, 47} \<and> number ds" and "chain_val a r = Some v"
  shows "\<exists>s'. calc_keys (concat (map (\<lambda>(op, ds). op # typed ds) r) @ [61]) s = Some s' \<and> calc_acc s' = v \<and> calc_parse_int s' = Some v"
  using assms
proof (induction r arbitrary: s a)
  case Nil
  then show ?case
    using calc_parse_cong [of "s1\<lparr>calc_op := 0\<rparr>" s1 for s1] by (auto simp: calc_pending_def calc_key_char_def)
next
  case (Cons od r)
  obtain op ds where od: "od = (op, ds)" by (cases od)
  from Cons.prems(3) od have op: "op \<in> {43, 45, 42, 47}" and ds: "number ds" by auto
  let ?v = "op_val op a (num 0 ds)"
  from Cons.prems(4) od have v: "\<bar>?v\<bar> < 2 ^ 63" "chain_val ?v r = Some v" by (auto simp: Let_def split: if_splits)
  from Cons.prems(1) obtain s1 where s1: "calc_apply s = Some s1" "calc_acc s1 = a" "calc_have_acc s1" by (auto simp: calc_pending_def)
  let ?s2 = "s1\<lparr>calc_op := op, calc_disp := ''0''\<rparr>"
  have k: "calc_key_char op s = Some ?s2" using op s1(1) by (auto simp: calc_key_char_def)
  have t: "calc_keys (typed ds) ?s2 = Some (?s2\<lparr>calc_disp := ds\<rparr>)" by (rule type_number [OF ds]) simp
  have "calc_pending (?s2\<lparr>calc_disp := ds\<rparr>) ?v"
    using pending_op [OF ds, of ?s2] s1 op v(1) Cons.prems(2) by simp
  from Cons.IH [OF this v(1) _ v(2)] Cons.prems(3) obtain s' where
    "calc_keys (concat (map (\<lambda>(op, ds). op # typed ds) r) @ [61]) (?s2\<lparr>calc_disp := ds\<rparr>) = Some s'"
    "calc_acc s' = v" "calc_parse_int s' = Some v" by auto
  with k t show ?case by (simp add: od calc_keys_append)
qed

text \<open>C33: After a reset, typing numbers of up to 18 digits with operators between them and \<open>=\<close> gives the value
  from left to right, without precedence, as long as every result is a number with both signs: it is in
  the accumulator and on the display. A division by zero leaves the value as it is.\<close>

theorem calculator_left_to_right:
  assumes "number d" and "\<forall>(op, ds) \<in> set r. op \<in> {43, 45, 42, 47} \<and> number ds" and "chain_val (num 0 d) r = Some v"
  shows "\<exists>s'. calc_keys (typed d @ concat (map (\<lambda>(op, ds). op # typed ds) r) @ [61]) (calc_reset s) = Some s'
    \<and> calc_acc s' = v \<and> calc_parse_int s' = Some v"
proof -
  let ?s = "(calc_reset s)\<lparr>calc_disp := d\<rparr>"
  have t: "calc_keys (typed d) (calc_reset s) = Some ?s"
    by (rule type_number [OF assms(1)]) (simp add: calc_reset_def)
  have "calc_pending ?s (num 0 d)" by (rule pending_first [OF assms(1)]) (simp add: calc_reset_def)
  from calc_chain [OF this _ assms(2,3)] number_value [OF assms(1)] obtain s' where
    "calc_keys (concat (map (\<lambda>(op, ds). op # typed ds) r) @ [61]) ?s = Some s'" "calc_acc s' = v" "calc_parse_int s' = Some v"
    by auto
  with t show ?thesis by (simp add: calc_keys_append)
qed

text \<open>12 + 3 * 2 =\<close>

theorem calculator_left_to_right_witness:
  "\<exists>s'. calc_keys (typed ''12'' @ (43 # typed ''3'') @ (42 # typed ''2'') @ [61]) (calc_reset calc_boot) = Some s' \<and> calc_acc s' = 30"
proof -
  have n: "number ''12''" "\<forall>(op, ds) \<in> set [(43, ''3''), (42, ''2'')]. op \<in> {43, 45, 42, 47} \<and> number ds"
    by (simp_all add: number_def is_digit_def)
  have v: "chain_val (num 0 ''12'') [(43, ''3''), (42, ''2'')] = Some 30"
    by (simp add: op_val_def digit_of_def)
  from calculator_left_to_right [OF n v, of calc_boot] show ?thesis by auto
qed

end
