(* ===== verification/Snake.thy ===== *)
theory Snake
  imports Kprelude
begin

text \<open>
  The snake game of the desktop (\<^verbatim>\<open>src/kernel/gui/gui.c\<close>). The body is kept in two arrays of coordinates;
  the specification is the list of its cells. The clock is an argument: \<open>now\<close> is the value of
  \<open>timer_get_ms\<close>, compared with the wrapping difference the code uses.
\<close>

definition SNAKE_MAX :: nat where "SNAKE_MAX = 64"
definition GRID_W :: int where "GRID_W = 20"
definition GRID_H :: int where "GRID_H = 12"

record snake =
  snake_x :: "int list"
  snake_y :: "int list"
  snake_len :: nat
  snake_dir :: int
  snake_fx :: int
  snake_fy :: int
  snake_next_tick :: u32
  snake_alive :: bool

definition snake_boot :: snake where
  "snake_boot = \<lparr>snake_x = replicate SNAKE_MAX 0, snake_y = replicate SNAKE_MAX 0, snake_len = 0, snake_dir = 0,
     snake_fx = 0, snake_fy = 0, snake_next_tick = 0, snake_alive = False\<rparr>"

section \<open>Operations\<close>

definition snake_reset :: "u32 \<Rightarrow> snake \<Rightarrow> snake" where
  "snake_reset now s = s\<lparr>snake_len := 3,
     snake_x := (snake_x s)[0 := 8, 1 := 7, 2 := 6], snake_y := (snake_y s)[0 := 6, 1 := 6, 2 := 6],
     snake_dir := 1, snake_fx := 12, snake_fy := 6, snake_next_tick := now + 220, snake_alive := True\<rparr>"

text \<open>\<open>for (i = 0; i < n; i++) if (x[i] == nx && y[i] == ny)\<close>, and \<open>for (i = n; i > 0; i--) a[i] = a[i - 1]\<close>.\<close>

definition snake_hits :: "int \<Rightarrow> int \<Rightarrow> snake \<Rightarrow> bool" where
  "snake_hits nx ny s = list_ex (\<lambda>i. snake_x s ! i = nx \<and> snake_y s ! i = ny) [0..<snake_len s]"

fun shift_body :: "nat \<Rightarrow> int list \<Rightarrow> int list" where
  "shift_body 0 a = a"
| "shift_body (Suc n) a = shift_body n (a[Suc n := a ! n])"

definition snake_tick :: "u32 \<Rightarrow> snake \<Rightarrow> snake" where
  "snake_tick now s =
     (if \<not> snake_alive s then s
      else if sint (now - snake_next_tick s) < 0 then s
      else
        let s = s\<lparr>snake_next_tick := now + 220\<rparr>;
            dy = (if snake_dir s = 0 then - 1 else if snake_dir s = 2 then 1 else 0);
            dx = (if snake_dir s = 1 then 1 else if snake_dir s = 3 then - 1 else 0);
            nx = snake_x s ! 0 + dx; ny = snake_y s ! 0 + dy
        in if nx < 0 \<or> nx \<ge> GRID_W \<or> ny < 0 \<or> ny \<ge> GRID_H then s\<lparr>snake_alive := False\<rparr>
           else if snake_hits nx ny s then s\<lparr>snake_alive := False\<rparr>
           else
             let s = s\<lparr>snake_x := (shift_body (snake_len s) (snake_x s))[0 := nx],
                       snake_y := (shift_body (snake_len s) (snake_y s))[0 := ny]\<rparr>
             in if nx = snake_fx s \<and> ny = snake_fy s then
                  s\<lparr>snake_len := (if snake_len s < SNAKE_MAX - 1 then snake_len s + 1 else snake_len s),
                    snake_fx := (snake_fx s + 7) mod GRID_W, snake_fy := (snake_fy s + 3) mod GRID_H\<rparr>
                else s)"

text \<open>The keys of the game: restart and the four directions.\<close>

definition snake_key :: "u8 \<Rightarrow> u32 \<Rightarrow> snake \<Rightarrow> snake" where
  "snake_key c now s =
     (if c = 114 \<or> c = 82 then snake_reset now s
      else if c = 119 \<or> c = 87 then s\<lparr>snake_dir := 0\<rparr>
      else if c = 100 \<or> c = 68 then s\<lparr>snake_dir := 1\<rparr>
      else if c = 115 \<or> c = 83 then s\<lparr>snake_dir := 2\<rparr>
      else if c = 97 \<or> c = 65 then s\<lparr>snake_dir := 3\<rparr>
      else s)"

section \<open>The body as a list of cells\<close>

definition body :: "snake \<Rightarrow> (int \<times> int) list" where
  "body s = map (\<lambda>i. (snake_x s ! i, snake_y s ! i)) [0..<snake_len s]"

definition on_grid :: "int \<times> int \<Rightarrow> bool" where
  "on_grid c \<longleftrightarrow> 0 \<le> fst c \<and> fst c < 20 \<and> 0 \<le> snd c \<and> snd c < 12"

definition ahead :: "int \<Rightarrow> int \<times> int \<Rightarrow> int \<times> int" where
  "ahead d c = (if d = 0 then (fst c, snd c - 1) else if d = 1 then (fst c + 1, snd c)
     else if d = 2 then (fst c, snd c + 1) else if d = 3 then (fst c - 1, snd c) else c)"

text \<open>Cells that follow each other on the grid.\<close>

fun joined :: "(int \<times> int) list \<Rightarrow> bool" where
  "joined (a # b # cs) \<longleftrightarrow> \<bar>fst a - fst b\<bar> + \<bar>snd a - snd b\<bar> = 1 \<and> joined (b # cs)"
| "joined _ \<longleftrightarrow> True"

definition snake_inv :: "snake \<Rightarrow> bool" where
  "snake_inv s \<longleftrightarrow> length (snake_x s) = SNAKE_MAX \<and> length (snake_y s) = SNAKE_MAX \<and> 3 \<le> snake_len s \<and> snake_len s < SNAKE_MAX
     \<and> distinct (body s) \<and> joined (body s) \<and> (\<forall>c \<in> set (body s). on_grid c) \<and> on_grid (snake_fx s, snake_fy s)
     \<and> snake_dir s \<in> {0, 1, 2, 3}"

lemma length_shift_body [simp]: "length (shift_body n a) = length a"
  by (induction n a rule: shift_body.induct) simp_all

lemma nth_shift_body: "n < length a \<Longrightarrow> shift_body n a ! i = (if 0 < i \<and> i \<le> n then a ! (i - 1) else a ! i)"
proof (induction n a arbitrary: i rule: shift_body.induct)
  case (2 n a)
  then show ?case by (auto simp: nth_list_update le_Suc_eq)
qed auto

lemma body_moved:
  assumes "snake_len s < length (snake_x s)" and "snake_len s < length (snake_y s)" and "k \<le> snake_len s + 1" and "0 < k"
  shows "map (\<lambda>i. ((shift_body (snake_len s) (snake_x s))[0 := nx] ! i, (shift_body (snake_len s) (snake_y s))[0 := ny] ! i)) [0..<k]
    = take k ((nx, ny) # body s)"
proof (rule nth_equalityI)
  fix i assume "i < length (map (\<lambda>i. ((shift_body (snake_len s) (snake_x s))[0 := nx] ! i,
      (shift_body (snake_len s) (snake_y s))[0 := ny] ! i)) [0..<k])"
  then have i: "i < k" by simp
  show "map (\<lambda>i. ((shift_body (snake_len s) (snake_x s))[0 := nx] ! i, (shift_body (snake_len s) (snake_y s))[0 := ny] ! i)) [0..<k] ! i
    = take k ((nx, ny) # body s) ! i"
  proof (cases i)
    case 0
    have "snake_x s \<noteq> []" "snake_y s \<noteq> []"
      using assms(1,2) by (auto simp flip: length_greater_0_conv)
    with 0 assms i show ?thesis by simp
  next
    case (Suc j)
    with assms i show ?thesis by (simp add: body_def nth_shift_body)
  qed
qed (use assms in \<open>simp add: body_def\<close>)

lemma snake_hits_body: "snake_hits nx ny s \<longleftrightarrow> (nx, ny) \<in> set (body s)"
  by (auto simp: snake_hits_def body_def list_ex_iff)

section \<open>A move\<close>

text \<open>The game as a step on the list of cells, the food and whether the snake is alive.\<close>

definition move :: "int \<Rightarrow> (int \<times> int) list \<times> (int \<times> int) \<times> bool \<Rightarrow> (int \<times> int) list \<times> (int \<times> int) \<times> bool" where
  "move d = (\<lambda>(b, food, alive).
     let h = ahead d (hd b) in
     if \<not> on_grid h \<or> h \<in> set b then (b, food, False)
     else if h = food then
       (if length b < 63 then h # b else butlast (h # b), ((fst food + 7) mod 20, (snd food + 3) mod 12), True)
     else (butlast (h # b), food, True))"

definition game :: "snake \<Rightarrow> (int \<times> int) list \<times> (int \<times> int) \<times> bool" where
  "game s = (body s, (snake_fx s, snake_fy s), snake_alive s)"

lemma length_body [simp]: "length (body s) = snake_len s"
  by (simp add: body_def)

lemma hd_body:
  assumes "snake_inv s"
  shows "hd (body s) = (snake_x s ! 0, snake_y s ! 0)" and "body s \<noteq> []"
proof -
  have l: "0 < snake_len s" using assms by (simp add: snake_inv_def)
  show ne: "body s \<noteq> []" using l length_body [of s] by (metis length_greater_0_conv)
  show "hd (body s) = (snake_x s ! 0, snake_y s ! 0)" using l by (simp add: hd_conv_nth [OF ne]) (simp add: body_def)
qed

text \<open>The state after a due tick of a live snake, in terms of the new head.\<close>

definition head_to :: "u32 \<Rightarrow> int \<Rightarrow> int \<Rightarrow> snake \<Rightarrow> snake" where
  "head_to now nx ny s = s\<lparr>snake_next_tick := now + 220, snake_x := (shift_body (snake_len s) (snake_x s))[0 := nx],
     snake_y := (shift_body (snake_len s) (snake_y s))[0 := ny]\<rparr>"

lemma snake_tick_eq:
  assumes "snake_inv s" and "snake_alive s" and "0 \<le> sint (now - snake_next_tick s)"
    and "ahead (snake_dir s) (hd (body s)) = (nx, ny)"
  shows "snake_tick now s =
    (if \<not> on_grid (nx, ny) \<or> (nx, ny) \<in> set (body s) then s\<lparr>snake_next_tick := now + 220, snake_alive := False\<rparr>
     else if (nx, ny) = (snake_fx s, snake_fy s) then
       (head_to now nx ny s)\<lparr>snake_len := (if snake_len s < 63 then snake_len s + 1 else snake_len s),
         snake_fx := (snake_fx s + 7) mod 20, snake_fy := (snake_fy s + 3) mod 12\<rparr>
     else head_to now nx ny s)"
proof -
  have d: "snake_dir s \<in> {0, 1, 2, 3}" using assms(1) by (simp add: snake_inv_def)
  have h: "snake_hits x y (s\<lparr>snake_next_tick := now + 220\<rparr>) \<longleftrightarrow> (x, y) \<in> set (body s)" for x y
    using snake_hits_body [of x y "s\<lparr>snake_next_tick := now + 220\<rparr>"] by (simp add: body_def)
  have g: "\<not> on_grid (nx, ny) \<longleftrightarrow> nx < 0 \<or> nx \<ge> GRID_W \<or> ny < 0 \<or> ny \<ge> GRID_H"
    by (auto simp: on_grid_def GRID_W_def GRID_H_def)
  have live: "\<not> \<not> snake_alive s" "\<not> sint (now - snake_next_tick s) < 0" using assms(2,3) by simp_all
  have eq: "snake_tick now s = (let s1 = s\<lparr>snake_next_tick := now + 220\<rparr> in
      if nx < 0 \<or> nx \<ge> GRID_W \<or> ny < 0 \<or> ny \<ge> GRID_H then s1\<lparr>snake_alive := False\<rparr>
      else if snake_hits nx ny s1 then s1\<lparr>snake_alive := False\<rparr>
      else let s2 = s1\<lparr>snake_x := (shift_body (snake_len s) (snake_x s))[0 := nx],
                       snake_y := (shift_body (snake_len s) (snake_y s))[0 := ny]\<rparr>
           in if nx = snake_fx s \<and> ny = snake_fy s then
                s2\<lparr>snake_len := (if snake_len s < SNAKE_MAX - 1 then snake_len s + 1 else snake_len s),
                   snake_fx := (snake_fx s + 7) mod GRID_W, snake_fy := (snake_fy s + 3) mod GRID_H\<rparr>
              else s2)"
    unfolding snake_tick_def if_not_P [OF live(1)] if_not_P [OF live(2)]
    using d assms(4) unfolding hd_body(1) [OF assms(1)] by (elim insertE emptyE) (auto simp: ahead_def Let_def)
  show ?thesis unfolding eq g by (simp add: Let_def h head_to_def SNAKE_MAX_def GRID_W_def GRID_H_def)
qed

lemma body_head_to:
  assumes "snake_inv s" and "0 < k" and "k \<le> snake_len s + 1"
  shows "body ((head_to now nx ny s)\<lparr>snake_len := k\<rparr>) = take k ((nx, ny) # body s)"
proof -
  have "snake_len s < length (snake_x s)" "snake_len s < length (snake_y s)" using assms(1) by (simp_all add: snake_inv_def)
  from body_moved [OF this assms(3,2)] show ?thesis by (simp add: body_def head_to_def)
qed

lemma body_fields [simp]:
  "body (s\<lparr>snake_fx := a\<rparr>) = body s" "body (s\<lparr>snake_fy := a\<rparr>) = body s" "body (s\<lparr>snake_dir := d\<rparr>) = body s"
  "body (s\<lparr>snake_alive := b\<rparr>) = body s" "body (s\<lparr>snake_next_tick := t\<rparr>) = body s"
  by (simp_all add: body_def)

lemma head_to_fields [simp]:
  "snake_fx (head_to now nx ny s) = snake_fx s" "snake_fy (head_to now nx ny s) = snake_fy s"
  "snake_len (head_to now nx ny s) = snake_len s" "snake_alive (head_to now nx ny s) = snake_alive s"
  "snake_dir (head_to now nx ny s) = snake_dir s" "(head_to now nx ny s)\<lparr>snake_len := snake_len s\<rparr> = head_to now nx ny s"
  by (simp_all add: head_to_def)

lemma butlast_take_Cons: "length b = n \<Longrightarrow> take n (h # b) = butlast (h # b)"
  by (simp add: butlast_conv_take)

lemma body_head:
  assumes "snake_inv s"
  shows "body ((head_to now nx ny s)\<lparr>snake_len := snake_len s + 1\<rparr>) = (nx, ny) # body s"
    and "body (head_to now nx ny s) = butlast ((nx, ny) # body s)"
proof -
  show "body ((head_to now nx ny s)\<lparr>snake_len := snake_len s + 1\<rparr>) = (nx, ny) # body s"
    by (subst body_head_to [OF assms]) simp_all
  have "0 < snake_len s" using assms by (simp add: snake_inv_def)
  from body_head_to [OF assms this, of now nx ny] butlast_take_Cons [of "body s" "snake_len s" "(nx, ny)"]
  show "body (head_to now nx ny s) = butlast ((nx, ny) # body s)" by (simp del: butlast.simps)
qed

text \<open>C25: A tick that is due moves the snake as the specification on the list of its cells says: one cell ahead,
  with the tail following unless it has reached the food; it dies on the border and on itself. A tick
  that is not due, or of a dead snake, changes nothing.\<close>

theorem snake_tick_moves:
  assumes "snake_inv s"
  shows "game (snake_tick now s)
    = (if snake_alive s \<and> 0 \<le> sint (now - snake_next_tick s) then move (snake_dir s) (game s) else game s)"
proof (cases "snake_alive s \<and> 0 \<le> sint (now - snake_next_tick s)")
  case True
  obtain nx ny where h: "ahead (snake_dir s) (hd (body s)) = (nx, ny)" by (cases "ahead (snake_dir s) (hd (body s))")
  note T = snake_tick_eq [OF assms conjunct1 [OF True] conjunct2 [OF True] h]
  show ?thesis
    using True h body_head [OF assms]
    unfolding T by (simp add: game_def move_def Let_def del: butlast.simps)
qed (auto simp: snake_tick_def)

text \<open>What a move keeps.\<close>

lemma joined_butlast: "joined cs \<Longrightarrow> joined (butlast cs)"
proof (induction cs rule: joined.induct)
  case (1 a b cs)
  then show ?case by (cases cs) simp_all
qed simp_all

lemma joined_Cons: "cs \<noteq> [] \<Longrightarrow> joined (c # cs) \<longleftrightarrow> \<bar>fst c - fst (hd cs)\<bar> + \<bar>snd c - snd (hd cs)\<bar> = 1 \<and> joined cs"
  by (cases cs) simp_all

lemma snake_inv_tick:
  assumes "snake_inv s"
  shows "snake_inv (snake_tick now s)"
proof (cases "snake_alive s \<and> 0 \<le> sint (now - snake_next_tick s)")
  case True
  obtain nx ny where h: "ahead (snake_dir s) (hd (body s)) = (nx, ny)" by (cases "ahead (snake_dir s) (hd (body s))")
  note T = snake_tick_eq [OF assms conjunct1 [OF True] conjunct2 [OF True] h]
  note B = body_head [OF assms, of now nx ny]
  have j: "joined ((nx, ny) # body s)"
    using assms h hd_body(2) [OF assms] by (auto simp: joined_Cons snake_inv_def ahead_def)
  have l: "length (snake_x (head_to now nx ny s)) = SNAKE_MAX" "length (snake_y (head_to now nx ny s)) = SNAKE_MAX"
    using assms by (simp_all add: head_to_def snake_inv_def)
  show ?thesis
  proof (cases "\<not> on_grid (nx, ny) \<or> (nx, ny) \<in> set (body s)")
    case True
    then show ?thesis unfolding T using assms by (simp add: snake_inv_def)
  next
    case free: False
    then have d: "distinct ((nx, ny) # body s)" and g: "\<forall>c \<in> set ((nx, ny) # body s). on_grid c"
      using assms by (auto simp: snake_inv_def)
    have bl: "distinct (butlast ((nx, ny) # body s))" "joined (butlast ((nx, ny) # body s))" "\<forall>c \<in> set (butlast ((nx, ny) # body s)). on_grid c"
      by (rule distinct_butlast [OF d], rule joined_butlast [OF j], use g in \<open>blast dest: in_set_butlastD\<close>)
    have f: "on_grid ((snake_fx s + 7) mod 20, (snake_fy s + 3) mod 12)" by (simp add: on_grid_def)
    have dir: "snake_dir s \<in> {0, 1, 2, 3}" and len: "3 \<le> snake_len s" "snake_len s < 64" and food: "on_grid (snake_fx s, snake_fy s)"
      using assms by (simp_all add: snake_inv_def SNAKE_MAX_def)
    have still: "snake_inv (head_to now nx ny s)"
      unfolding snake_inv_def B(2) using l bl dir len food by (simp add: SNAKE_MAX_def del: butlast.simps)
    have grown: "snake_inv ((head_to now nx ny s)\<lparr>snake_len := snake_len s + 1\<rparr>)" if "snake_len s < 63"
      unfolding snake_inv_def B(1) using l d j g dir len food that by (simp add: SNAKE_MAX_def del: joined.simps)
    have fed: "snake_inv (q\<lparr>snake_fx := (snake_fx s + 7) mod 20, snake_fy := (snake_fy s + 3) mod 12\<rparr>)" if "snake_inv q" for q
      using that f by (simp add: snake_inv_def)
    have same: "(head_to now nx ny s)\<lparr>snake_len := snake_len s\<rparr> = head_to now nx ny s" by simp
    show ?thesis
    proof (cases "(nx, ny) = (snake_fx s, snake_fy s)")
      case True
      show ?thesis
        unfolding T if_not_P [OF free] if_P [OF True] using fed [OF still] fed [OF grown]
        by (cases "snake_len s < 63") simp_all
    qed (simp only: T if_not_P [OF free] if_False still)
  qed
next
  case False
  then have "snake_tick now s = s" by (auto simp: snake_tick_def)
  with assms show ?thesis by simp
qed

lemma snake_inv_reset:
  assumes "length (snake_x s) = SNAKE_MAX" and "length (snake_y s) = SNAKE_MAX"
  shows "snake_inv (snake_reset now s)"
proof -
  have n: "snake_x s \<noteq> []" "snake_y s \<noteq> []" "1 < length (snake_x s)" "1 < length (snake_y s)" "2 < length (snake_x s)" "2 < length (snake_y s)"
    using assms by (auto simp: SNAKE_MAX_def)
  have "body (snake_reset now s) = [(8, 6), (7, 6), (6, 6)]"
    using n by (simp add: body_def snake_reset_def numeral_3_eq_3 nth_list_update)
  then show ?thesis using assms by (simp add: snake_inv_def on_grid_def) (simp add: snake_reset_def SNAKE_MAX_def)
qed

inductive snake_reach :: "snake \<Rightarrow> bool" where
  start: "snake_reach (snake_reset now snake_boot)"
| key: "snake_reach s \<Longrightarrow> snake_reach (snake_key c now s)"
| tick: "snake_reach s \<Longrightarrow> snake_reach (snake_tick now s)"

lemma snake_reach_inv: "snake_reach s \<Longrightarrow> snake_inv s"
proof (induction rule: snake_reach.induct)
  case (start now)
  show ?case by (rule snake_inv_reset) (simp_all add: snake_boot_def)
next
  case (key s c now)
  have "snake_inv (s\<lparr>snake_dir := d\<rparr>)" if "d \<in> {0, 1, 2, 3}" for d using key.IH that by (simp add: snake_inv_def)
  moreover have "snake_inv (snake_reset now s)" using key.IH by (intro snake_inv_reset) (simp_all add: snake_inv_def)
  ultimately show ?case using key.IH by (simp add: snake_key_def)
next
  case (tick s now)
  show ?case by (rule snake_inv_tick [OF tick.IH])
qed

text \<open>At every moment of a game the snake is 3 to 63 cells long, its cells are different, follow each other
  on the grid and lie inside it, and so does the food; the arrays are never left.\<close>

theorem snake_stays_whole:
  assumes "snake_reach s"
  shows "3 \<le> snake_len s \<and> snake_len s \<le> 63 \<and> length (snake_x s) = 64 \<and> length (snake_y s) = 64
    \<and> distinct (body s) \<and> joined (body s) \<and> (\<forall>c \<in> set (body s). on_grid c) \<and> on_grid (snake_fx s, snake_fy s)"
  using snake_reach_inv [OF assms] by (simp add: snake_inv_def SNAKE_MAX_def)

theorem snake_stays_whole_witness:
  "distinct (body (snake_tick 500 (snake_key 119 300 (snake_reset 0 snake_boot))))"
  using snake_stays_whole [OF snake_reach.tick [OF snake_reach.key [OF snake_reach.start [of 0], of 119 300], of 500]] by simp

theorem snake_tick_moves_witness:
  "game (snake_tick 500 (snake_reset 0 snake_boot)) = ([(9, 6), (8, 6), (7, 6)], (12, 6), True)"
proof -
  have i: "snake_inv (snake_reset 0 snake_boot)" by (rule snake_inv_reset) (simp_all add: snake_boot_def)
  have g: "game (snake_reset 0 snake_boot) = ([(8, 6), (7, 6), (6, 6)], (12, 6), True)"
    by (simp add: game_def body_def snake_reset_def snake_boot_def SNAKE_MAX_def numeral_3_eq_3 nth_list_update)
  have d: "snake_dir (snake_reset 0 snake_boot) = 1" "snake_alive (snake_reset 0 snake_boot)"
    "sint (500 - snake_next_tick (snake_reset 0 snake_boot)) = 280"
    by (simp_all add: snake_reset_def)
  show ?thesis
    unfolding snake_tick_moves [OF i] g d by (simp add: move_def ahead_def on_grid_def d)
qed

end
