(* ===== verification/Mines.thy ===== *)
theory Mines
  imports Kprelude "HOL-Library.Monad_Syntax"
begin

text \<open>
  The minesweeper of the desktop (\<^verbatim>\<open>src/kernel/gui/gui.c\<close>): its board, the generator of random numbers, the
  placing of the mines, opening and flagging cells. Placing draws cells until ten are free, and
  opening spreads by recursion: neither has a bound of its own, so both are partial functions.
\<close>

definition MS_COLS :: int where "MS_COLS = 9"
definition MS_ROWS :: int where "MS_ROWS = 9"
definition MS_CELLS :: nat where "MS_CELLS = 81"
definition MS_MINES :: nat where "MS_MINES = 10"

text \<open>\<open>ms_vis\<close>: 0 hidden, 1 open, 2 flagged.\<close>

record mines =
  ms_mine :: "u8 list"
  ms_adj :: "u8 list"
  ms_vis :: "u8 list"
  ms_started :: bool
  ms_dead :: bool
  ms_win :: bool
  ms_rng_state :: u32

definition mines_boot :: mines where
  "mines_boot = \<lparr>ms_mine = replicate MS_CELLS 0, ms_adj = replicate MS_CELLS 0, ms_vis = replicate MS_CELLS 0,
     ms_started = False, ms_dead = False, ms_win = False, ms_rng_state = 0xC0FFEE\<rparr>"

section \<open>The board\<close>

definition ms_rand_u32 :: "u32 \<Rightarrow> u32" where
  "ms_rand_u32 s = s * 1664525 + 1013904223"

definition minesweeper_clear_board :: "mines \<Rightarrow> mines" where
  "minesweeper_clear_board g = g\<lparr>ms_mine := replicate MS_CELLS 0, ms_adj := replicate MS_CELLS 0,
     ms_vis := replicate MS_CELLS 0, ms_started := False, ms_dead := False, ms_win := False\<rparr>"

definition minesweeper_init :: "u32 \<Rightarrow> mines \<Rightarrow> mines" where
  "minesweeper_init now g =
     (let g = minesweeper_clear_board g in g\<lparr>ms_rng_state := ms_rng_state g XOR now\<rparr>)"

definition minesweeper_new_game :: "mines \<Rightarrow> mines" where
  "minesweeper_new_game g = minesweeper_clear_board g"

definition ms_in_safe_zone :: "int \<Rightarrow> int \<Rightarrow> int \<Rightarrow> int \<Rightarrow> bool" where
  "ms_in_safe_zone x y ax ay = list_ex (\<lambda>dy. list_ex (\<lambda>dx. x = ax + dx \<and> y = ay + dy) [- 1..1]) [- 1..1]"

definition outside :: "int \<Rightarrow> int \<Rightarrow> bool" where
  "outside x y \<longleftrightarrow> x < 0 \<or> x \<ge> MS_COLS \<or> y < 0 \<or> y \<ge> MS_ROWS"

definition cell_ix :: "int \<Rightarrow> int \<Rightarrow> nat" where
  "cell_ix x y = nat (y * MS_COLS + x)"

text \<open>The pairs of the loops \<open>for (dy = -1; dy <= 1; dy++) for (dx = -1; dx <= 1; dx++)\<close> without (0, 0).\<close>

definition around :: "(int \<times> int) list" where
  "around = [(- 1, - 1), (0, - 1), (1, - 1), (- 1, 0), (1, 0), (- 1, 1), (0, 1), (1, 1)]"

definition count_around :: "u8 list \<Rightarrow> int \<Rightarrow> int \<Rightarrow> nat" where
  "count_around mine x y =
     length (filter (\<lambda>(dx, dy). \<not> outside (x + dx) (y + dy) \<and> mine ! cell_ix (x + dx) (y + dy) \<noteq> 0) around)"

definition ms_build_adj :: "mines \<Rightarrow> mines" where
  "ms_build_adj g = g\<lparr>ms_adj := map (\<lambda>i. if ms_mine g ! i \<noteq> 0 then 9
       else of_nat (count_around (ms_mine g) (int i mod MS_COLS) (int i div MS_COLS))) [0..<MS_CELLS]\<rparr>"

partial_function (option) ms_place_loop :: "int \<Rightarrow> int \<Rightarrow> nat \<Rightarrow> mines \<Rightarrow> mines option" where
  "ms_place_loop ax ay placed g =
     (if placed < MS_MINES then
        let r = ms_rand_u32 (ms_rng_state g); x = int (unat (r mod 9));
            r = ms_rand_u32 r; y = int (unat (r mod 9));
            g = g\<lparr>ms_rng_state := r\<rparr>
        in if ms_in_safe_zone x y ax ay then ms_place_loop ax ay placed g
           else let i = cell_ix x y
             in if ms_mine g ! i \<noteq> 0 then ms_place_loop ax ay placed g
                else ms_place_loop ax ay (placed + 1) (g\<lparr>ms_mine := (ms_mine g)[i := 1]\<rparr>)
      else Some g)"

definition ms_place_mines :: "int \<Rightarrow> int \<Rightarrow> mines \<Rightarrow> mines option" where
  "ms_place_mines ax ay g = do { g \<leftarrow> ms_place_loop ax ay 0 g; Some (ms_build_adj g) }"

section \<open>Opening and flagging\<close>

partial_function (option) ms_expand :: "int \<Rightarrow> int \<Rightarrow> mines \<Rightarrow> mines option" where
  "ms_expand x y g =
     (if outside x y then Some g
      else let i = cell_ix x y in
        if ms_vis g ! i = 2 then Some g
        else if ms_vis g ! i = 1 then Some g
        else if ms_mine g ! i \<noteq> 0 then Some g
        else let g = g\<lparr>ms_vis := (ms_vis g)[i := 1]\<rparr> in
          if ms_adj g ! i > 0 then Some g
          else do {
            g \<leftarrow> ms_expand (x - 1) (y - 1) g;
            g \<leftarrow> ms_expand x (y - 1) g;
            g \<leftarrow> ms_expand (x + 1) (y - 1) g;
            g \<leftarrow> ms_expand (x - 1) y g;
            g \<leftarrow> ms_expand (x + 1) y g;
            g \<leftarrow> ms_expand (x - 1) (y + 1) g;
            g \<leftarrow> ms_expand x (y + 1) g;
            ms_expand (x + 1) (y + 1) g
          })"

definition ms_reveal_all_mines :: "mines \<Rightarrow> mines" where
  "ms_reveal_all_mines g = g\<lparr>ms_vis := map (\<lambda>i. if ms_mine g ! i \<noteq> 0 then 1 else ms_vis g ! i) [0..<MS_CELLS]\<rparr>"

definition ms_check_win :: "mines \<Rightarrow> mines" where
  "ms_check_win g = (if list_ex (\<lambda>i. ms_mine g ! i = 0 \<and> ms_vis g ! i \<noteq> 1) [0..<MS_CELLS] then g else g\<lparr>ms_win := True\<rparr>)"

definition minesweeper_left_cell :: "int \<Rightarrow> int \<Rightarrow> mines \<Rightarrow> mines option" where
  "minesweeper_left_cell cx cy g =
     (if outside cx cy then Some g
      else if ms_dead g \<or> ms_win g then Some g
      else let i = cell_ix cx cy in
        if ms_vis g ! i = 2 then Some g
        else do {
          g \<leftarrow> (if \<not> ms_started g then do { g \<leftarrow> ms_place_mines cx cy g; Some (g\<lparr>ms_started := True\<rparr>) } else Some g);
          if ms_mine g ! i \<noteq> 0 then Some (ms_reveal_all_mines (g\<lparr>ms_dead := True\<rparr>))
          else do { g \<leftarrow> ms_expand cx cy g; Some (ms_check_win g) }
        })"

definition minesweeper_right_cell :: "int \<Rightarrow> int \<Rightarrow> mines \<Rightarrow> mines" where
  "minesweeper_right_cell cx cy g =
     (if outside cx cy then g
      else if ms_dead g \<or> ms_win g then g
      else if \<not> ms_started g then g
      else let i = cell_ix cx cy in
        if ms_vis g ! i = 1 then g
        else if ms_vis g ! i = 0 then g\<lparr>ms_vis := (ms_vis g)[i := 2]\<rparr>
        else if ms_vis g ! i = 2 then g\<lparr>ms_vis := (ms_vis g)[i := 0]\<rparr>
        else g)"

section \<open>Cells\<close>

definition on_board :: "int \<times> int \<Rightarrow> bool" where
  "on_board c \<longleftrightarrow> \<not> outside (fst c) (snd c)"

definition ix :: "int \<times> int \<Rightarrow> nat" where
  "ix c = cell_ix (fst c) (snd c)"

definition cell_at :: "nat \<Rightarrow> int \<times> int" where
  "cell_at i = (int (i mod 9), int (i div 9))"

lemma ix_bound: "on_board c \<Longrightarrow> ix c < 81"
  by (auto simp: on_board_def outside_def ix_def cell_ix_def MS_COLS_def MS_ROWS_def)

lemma ix_cell_at [simp]: "ix (cell_at i) = i"
proof -
  have "int (i div 9) * 9 + int (i mod 9) = int i" by presburger
  then show ?thesis by (simp add: ix_def cell_at_def cell_ix_def MS_COLS_def)
qed

lemma cell_at_ix:
  assumes "on_board c"
  shows "cell_at (ix c) = c"
proof -
  obtain x y where c: "c = (x, y)" by (cases c)
  from assms c have r: "0 \<le> x" "x < 9" "0 \<le> y" "y < 9"
    by (auto simp: on_board_def outside_def MS_COLS_def MS_ROWS_def)
  obtain a b where ab: "x = int a" "y = int b" using r by (metis nonneg_int_cases)
  have "ix c = b * 9 + a" using ab c by (simp add: ix_def cell_ix_def MS_COLS_def nat_int_add flip: of_nat_mult)
  moreover have "a < 9" using ab r by simp
  ultimately show ?thesis using ab c by (simp add: cell_at_def)
qed

lemma on_board_cell_at: "on_board (cell_at i) \<longleftrightarrow> i < 81"
  by (auto simp: on_board_def outside_def cell_at_def MS_COLS_def MS_ROWS_def)

lemma ix_inj: "on_board c \<Longrightarrow> on_board d \<Longrightarrow> ix c = ix d \<longleftrightarrow> c = d"
  by (metis cell_at_ix)

definition board_ok :: "mines \<Rightarrow> bool" where
  "board_ok g \<longleftrightarrow> length (ms_mine g) = 81 \<and> length (ms_adj g) = 81 \<and> length (ms_vis g) = 81"

end
