(* ===== verification/Minesflood.thy ===== *)
theory Minesflood
  imports Mines
begin

text \<open>
  Opening a cell of the minesweeper board. The recursion of \<open>ms_expand\<close> marks the cells it opens in the
  board itself; the specification is a set: the region of a cell, reached through hidden cells without
  mines whose neighbours have none either.
\<close>

definition hidden :: "mines \<Rightarrow> int \<times> int \<Rightarrow> bool" where
  "hidden g c \<longleftrightarrow> on_board c \<and> ms_vis g ! ix c \<noteq> 2 \<and> ms_vis g ! ix c \<noteq> 1 \<and> ms_mine g ! ix c = 0"

definition blank :: "mines \<Rightarrow> int \<times> int \<Rightarrow> bool" where
  "blank g c \<longleftrightarrow> ms_adj g ! ix c = 0"

definition nbrs :: "int \<times> int \<Rightarrow> (int \<times> int) list" where
  "nbrs c = map (\<lambda>(dx, dy). (fst c + dx, snd c + dy)) around"

inductive_set region :: "mines \<Rightarrow> int \<times> int \<Rightarrow> (int \<times> int) set" for g c where
  self: "hidden g c \<Longrightarrow> c \<in> region g c"
| step: "d \<in> region g c \<Longrightarrow> blank g d \<Longrightarrow> e \<in> set (nbrs d) \<Longrightarrow> hidden g e \<Longrightarrow> e \<in> region g c"

definition reveal :: "(int \<times> int) set \<Rightarrow> mines \<Rightarrow> mines" where
  "reveal S g = g\<lparr>ms_vis := map (\<lambda>i. if cell_at i \<in> S then 1 else ms_vis g ! i) [0..<81]\<rparr>"

section \<open>Revealing sets of cells\<close>

lemma reveal_fields [simp]:
  "ms_mine (reveal S g) = ms_mine g" "ms_adj (reveal S g) = ms_adj g" "blank (reveal S g) = blank g"
  "ms_started (reveal S g) = ms_started g" "ms_dead (reveal S g) = ms_dead g" "ms_win (reveal S g) = ms_win g"
  "board_ok (reveal S g) = (length (ms_mine g) = 81 \<and> length (ms_adj g) = 81)"
  by (simp_all add: reveal_def fun_eq_iff blank_def board_ok_def)

lemma reveal_vis: "on_board c \<Longrightarrow> ms_vis (reveal S g) ! ix c = (if c \<in> S then 1 else ms_vis g ! ix c)"
  using ix_bound [of c] by (simp add: reveal_def cell_at_ix)

lemma reveal_reveal [simp]: "reveal S (reveal T g) = reveal (S \<union> T) g"
  by (simp add: reveal_def)

lemma reveal_empty: "board_ok g \<Longrightarrow> reveal {} g = g"
  using map_nth [of "ms_vis g"] by (simp add: reveal_def board_ok_def)

lemma reveal_one:
  assumes "board_ok g" and "on_board c"
  shows "g\<lparr>ms_vis := (ms_vis g)[ix c := 1]\<rparr> = reveal {c} g"
proof -
  have "(ms_vis g)[ix c := 1] = map (\<lambda>i. if cell_at i \<in> {c} then 1 else ms_vis g ! i) [0..<81]"
  proof (rule nth_equalityI)
    fix i assume "i < length ((ms_vis g)[ix c := 1])"
    then have i: "i < 81" using assms(1) by (simp add: board_ok_def)
    have "cell_at i = c \<longleftrightarrow> i = ix c" using cell_at_ix [OF assms(2)] by auto
    with i assms(1) show "(ms_vis g)[ix c := 1] ! i = map (\<lambda>i. if cell_at i \<in> {c} then 1 else ms_vis g ! i) [0..<81] ! i"
      by (simp add: board_ok_def nth_list_update)
  qed (use assms in \<open>simp add: board_ok_def\<close>)
  then show ?thesis by (simp add: reveal_def)
qed

lemma hidden_reveal: "hidden (reveal S g) c \<longleftrightarrow> hidden g c \<and> c \<notin> S"
  by (cases "c \<in> S") (auto simp: hidden_def reveal_vis)

section \<open>Regions\<close>

lemma region_hidden: "d \<in> region g c \<Longrightarrow> hidden g d"
  by (induction rule: region.induct) auto

lemma region_none: "\<not> hidden g c \<Longrightarrow> region g c = {}"
proof -
  have "d \<in> region g c \<Longrightarrow> hidden g c" for d by (induction rule: region.induct) auto
  then show "\<not> hidden g c \<Longrightarrow> region g c = {}" by blast
qed

lemma region_reveal_subset: "region (reveal S g) c \<subseteq> region g c"
proof
  fix d assume "d \<in> region (reveal S g) c"
  then show "d \<in> region g c"
    by (induction rule: region.induct) (auto simp: hidden_reveal intro: region.intros)
qed

lemma region_after: "region g c \<union> region (reveal (region g c) g) d = region g c \<union> region g d"
proof
  show "region g c \<union> region (reveal (region g c) g) d \<subseteq> region g c \<union> region g d"
    using region_reveal_subset [of "region g c" g d] by blast
  have "e \<in> region g c \<or> e \<in> region (reveal (region g c) g) d" if "e \<in> region g d" for e
    using that
  proof (induction rule: region.induct)
    case self
    then show ?case by (auto simp: hidden_reveal intro: region.self)
  next
    case (step a e)
    then show ?case by (auto simp: hidden_reveal intro: region.step)
  qed
  then show "region g c \<union> region g d \<subseteq> region g c \<union> region (reveal (region g c) g) d" by blast
qed

lemma region_blank:
  assumes "hidden g c" and "blank g c"
  shows "region g c = {c} \<union> (\<Union>d \<in> set (nbrs c). region (reveal {c} g) d)"
proof
  have "e \<in> {c} \<union> (\<Union>d \<in> set (nbrs c). region (reveal {c} g) d)" if "e \<in> region g c" for e
    using that
  proof (induction rule: region.induct)
    case (step a e)
    show ?case
    proof (cases "e = c")
      case False
      with step have h: "hidden (reveal {c} g) e" by (simp add: hidden_reveal)
      from step.IH show ?thesis
      proof
        assume "a \<in> {c}"
        with step.hyps(3) h show ?thesis by (auto intro: region.self)
      next
        assume "a \<in> (\<Union>d \<in> set (nbrs c). region (reveal {c} g) d)"
        then obtain d where d: "d \<in> set (nbrs c)" "a \<in> region (reveal {c} g) d" by blast
        have "e \<in> region (reveal {c} g) d" by (rule region.step [OF d(2) _ step.hyps(3) h]) (simp add: step.hyps(2))
        with d(1) show ?thesis by blast
      qed
    qed simp
  qed simp
  then show "region g c \<subseteq> {c} \<union> (\<Union>d \<in> set (nbrs c). region (reveal {c} g) d)" by blast
  have "e \<in> region g c" if "d \<in> set (nbrs c)" and "e \<in> region (reveal {c} g) d" for d e
    using that(2)
  proof (induction rule: region.induct)
    case self
    with that(1) assms show ?case by (auto simp: hidden_reveal intro: region.self region.step)
  next
    case (step a e)
    then show ?case by (auto simp: hidden_reveal intro: region.step)
  qed
  with assms(1) show "{c} \<union> (\<Union>d \<in> set (nbrs c). region (reveal {c} g) d) \<subseteq> region g c" by (auto intro: region.self)
qed

lemma region_not_blank: "hidden g c \<Longrightarrow> \<not> blank g c \<Longrightarrow> region g c = {c}"
proof -
  assume h: "hidden g c" and b: "\<not> blank g c"
  have "e = c" if "e \<in> region g c" for e
    using that by (induction rule: region.induct) (use b in auto)
  with h show "region g c = {c}" by (auto intro: region.self)
qed

section \<open>The recursion\<close>

fun expand_all :: "(int \<times> int) list \<Rightarrow> mines \<Rightarrow> mines option" where
  "expand_all [] g = Some g"
| "expand_all (d # ds) g = do { g \<leftarrow> ms_expand (fst d) (snd d) g; expand_all ds g }"

lemma expand_all_fun:
  "expand_all [] = Some" "expand_all (d # ds) = (\<lambda>g. ms_expand (fst d) (snd d) g \<bind> expand_all ds)"
  by (simp_all add: fun_eq_iff)

definition hidden_cells :: "mines \<Rightarrow> (int \<times> int) set" where
  "hidden_cells g = {c. hidden g c}"

lemma finite_hidden: "finite (hidden_cells g)"
proof -
  have "hidden_cells g \<subseteq> cell_at ` {..<81}"
    using cell_at_ix ix_bound by (force simp: hidden_cells_def hidden_def image_iff)
  then show ?thesis by (rule finite_subset) simp
qed

lemma hidden_cells_reveal: "hidden_cells (reveal S g) = hidden_cells g - S"
  by (auto simp: hidden_cells_def hidden_reveal)

lemma expand_all_region:
  assumes "board_ok g" and "card (hidden_cells g) < n"
    and "\<And>g x y. board_ok g \<Longrightarrow> card (hidden_cells g) < n \<Longrightarrow> ms_expand x y g = Some (reveal (region g (x, y)) g)"
  shows "expand_all ds g = Some (reveal (\<Union>d \<in> set ds. region g d) g)"
  using assms(1,2)
proof (induction ds arbitrary: g)
  case (Cons d ds)
  let ?g = "reveal (region g d) g"
  have "card (hidden_cells ?g) \<le> card (hidden_cells g)"
    unfolding hidden_cells_reveal by (rule card_mono [OF finite_hidden]) blast
  then have ok: "board_ok ?g" "card (hidden_cells ?g) < n" using Cons.prems by (auto simp: board_ok_def reveal_def)
  have "ms_expand (fst d) (snd d) g = Some ?g" using assms(3) [OF Cons.prems, of "fst d" "snd d"] by simp
  moreover have "(\<Union>e \<in> set ds. region ?g e) \<union> region g d = (\<Union>e \<in> set (d # ds). region g e)"
    using region_after [of g d] by auto
  ultimately show ?case using Cons.IH [OF ok] by simp
qed (simp add: reveal_empty)

lemma ms_expand_eq:
  assumes "board_ok g"
  shows "ms_expand x y g = (if \<not> hidden g (x, y) then Some g
    else if \<not> blank g (x, y) then Some (reveal {(x, y)} g) else expand_all (nbrs (x, y)) (reveal {(x, y)} g))"
proof (cases "hidden g (x, y)")
  case True
  then have o: "\<not> outside x y" "on_board (x, y)" by (simp_all add: hidden_def on_board_def)
  have r: "g\<lparr>ms_vis := (ms_vis g)[cell_ix x y := 1]\<rparr> = reveal {(x, y)} g"
    using reveal_one [OF assms o(2)] by (simp add: ix_def)
  have h: "ms_vis g ! cell_ix x y \<noteq> 2" "ms_vis g ! cell_ix x y \<noteq> 1" "\<not> ms_mine g ! cell_ix x y \<noteq> 0"
    using True by (simp_all add: hidden_def ix_def)
  have b: "ms_adj g ! cell_ix x y > 0 \<longleftrightarrow> \<not> blank g (x, y)"
    by (simp add: blank_def ix_def word_gt_0)
  have e: "expand_all (nbrs (x, y)) k = do {
            g \<leftarrow> ms_expand (x - 1) (y - 1) k;
            g \<leftarrow> ms_expand x (y - 1) g;
            g \<leftarrow> ms_expand (x + 1) (y - 1) g;
            g \<leftarrow> ms_expand (x - 1) y g;
            g \<leftarrow> ms_expand (x + 1) y g;
            g \<leftarrow> ms_expand (x - 1) (y + 1) g;
            g \<leftarrow> ms_expand x (y + 1) g;
            ms_expand (x + 1) (y + 1) g
          }" for k
    by (simp add: nbrs_def around_def expand_all_fun)
  show ?thesis
    by (subst ms_expand.simps) (simp add: Let_def o h r b e True)
next
  case False
  then show ?thesis
    by (subst ms_expand.simps) (auto simp: Let_def hidden_def on_board_def ix_def)
qed

lemma ms_expand_region:
  assumes "board_ok g"
  shows "ms_expand x y g = Some (reveal (region g (x, y)) g)"
  using assms
proof (induction "card (hidden_cells g)" arbitrary: g x y rule: less_induct)
  case less
  show ?case
  proof (cases "hidden g (x, y)")
    case h: True
    show ?thesis
    proof (cases "blank g (x, y)")
      case True
      let ?g = "reveal {(x, y)} g"
      have "(x, y) \<in> hidden_cells g" using h by (simp add: hidden_cells_def)
      then have "card (hidden_cells ?g) < card (hidden_cells g)"
        unfolding hidden_cells_reveal by (intro psubset_card_mono finite_hidden) blast
      moreover have "board_ok ?g" using less.prems by (auto simp: board_ok_def reveal_def)
      ultimately have "expand_all (nbrs (x, y)) ?g = Some (reveal (\<Union>d \<in> set (nbrs (x, y)). region ?g d) ?g)"
        by (intro expand_all_region less.hyps)
      then show ?thesis
        using ms_expand_eq [OF less.prems, of x y] h True by (simp add: region_blank [OF h True])
    next
      case False
      then show ?thesis
        using ms_expand_eq [OF less.prems, of x y] h by (simp add: region_not_blank)
    qed
  next
    case False
    then show ?thesis
      using ms_expand_eq [OF less.prems, of x y] by (simp add: region_none reveal_empty less.prems)
  qed
qed

text \<open>C7: Opening a cell of a board returns, and opens exactly the region of the cell: the cell itself, and from
  each cell without neighbouring mines its eight neighbours, as long as they are hidden, without flag
  and without mine. Nothing else on the board changes.\<close>

theorem ms_expand_opens_region:
  assumes "board_ok g"
  shows "\<exists>g'. ms_expand x y g = Some g' \<and> g' = g\<lparr>ms_vis := ms_vis g'\<rparr> \<and> length (ms_vis g') = 81
    \<and> (\<forall>c. on_board c \<longrightarrow> ms_vis g' ! ix c = (if c \<in> region g (x, y) then 1 else ms_vis g ! ix c))"
  unfolding ms_expand_region [OF assms] by (auto simp: reveal_vis) (simp_all add: reveal_def)

theorem ms_expand_opens_region_witness:
  "\<exists>g'. ms_expand 0 0 mines_boot = Some g' \<and> ms_vis g' ! ix (0, 0) = 1"
proof -
  have ok: "board_ok mines_boot" by (simp add: board_ok_def mines_boot_def MS_CELLS_def)
  have h: "hidden mines_boot (0, 0)"
    by (simp add: hidden_def on_board_def outside_def mines_boot_def MS_CELLS_def MS_COLS_def MS_ROWS_def ix_def cell_ix_def)
  from ms_expand_opens_region [OF ok, of 0 0] region.self [OF h] show ?thesis
    using h by (auto simp: hidden_def)
qed

end
