(* ===== verification/Minesplace.thy ===== *)
theory Minesplace
  imports Mines
begin

text \<open>
  Placing the mines of minesweeper. The loop draws cells with a linear congruential generator until ten
  of them were free, so that it ends is a property of the generator: its step is a single cycle through
  all 32-bit states (\<open>rand_reaches\<close>), so it draws every cell of the board from every seed, and more
  cells than the safe zone and the mines placed so far exclude.
\<close>

section \<open>The generator\<close>

definition lcg :: "int \<Rightarrow> int" where
  "lcg z = z * 1664525 + 1013904223"

lemma rand_lcg: "ms_rand_u32 (word_of_int z) = word_of_int (lcg z)"
  by (simp add: ms_rand_u32_def lcg_def)

lemma rand_lcg_power: "(ms_rand_u32 ^^ n) (word_of_int z) = word_of_int ((lcg ^^ n) z)"
  by (induction n) (simp_all add: rand_lcg)

text \<open>After \<open>2 ^ k\<close> steps the generator is the linear map with a factor of one and an odd multiple of
  \<open>2 ^ k\<close> to add, up to higher powers of two.\<close>

lemma lcg_doubling: "\<exists>u v. \<forall>z. (lcg ^^ (2 ^ k)) z = (1 + 2 ^ (k + 2) * u) * z + 2 ^ k * (1 + 2 * v)"
proof (induction k)
  case 0
  show ?case by (intro exI [of _ 416131] exI [of _ 506952111]) (simp add: lcg_def algebra_simps)
next
  case (Suc k)
  then obtain u v where uv: "\<And>z. (lcg ^^ (2 ^ k)) z = (1 + 2 ^ (k + 2) * u) * z + 2 ^ k * (1 + 2 * v)" by blast
  have two: "(lcg ^^ (2 ^ Suc k)) z = (lcg ^^ (2 ^ k)) ((lcg ^^ (2 ^ k)) z)" for z
    by (simp add: mult_2 funpow_add)
  let ?p = "2 ^ k :: int"
  have "(lcg ^^ (2 ^ Suc k)) z = (1 + 2 ^ (Suc k + 2) * (u + 2 * ?p * u * u)) * z + 2 ^ Suc k * (1 + 2 * (v + ?p * u * (1 + 2 * v)))" for z
    unfolding two uv by (simp add: algebra_simps power2_eq_square)
  then show ?case by blast
qed

lemma rand_step_bit:
  assumes "k < 32"
  shows "uint ((ms_rand_u32 ^^ (2 ^ k)) s) mod 2 ^ Suc k = (uint s + 2 ^ k) mod 2 ^ Suc k"
proof -
  obtain u v where uv: "(lcg ^^ (2 ^ k)) (uint s) = (1 + 2 ^ (k + 2) * u) * uint s + 2 ^ k * (1 + 2 * v)"
    using lcg_doubling by blast
  have "(ms_rand_u32 ^^ (2 ^ k)) s = word_of_int ((lcg ^^ (2 ^ k)) (uint s))"
    using rand_lcg_power [of "2 ^ k" "uint s"] by simp
  then have "uint ((ms_rand_u32 ^^ (2 ^ k)) s) = (lcg ^^ (2 ^ k)) (uint s) mod 2 ^ 32"
    by (simp add: uint_word_of_int)
  then have "uint ((ms_rand_u32 ^^ (2 ^ k)) s) mod 2 ^ Suc k = (lcg ^^ (2 ^ k)) (uint s) mod 2 ^ Suc k"
    using mod_mod_cancel [OF le_imp_power_dvd, of "Suc k" 32] assms by (metis Suc_leI)
  also have "(lcg ^^ (2 ^ k)) (uint s) = uint s + 2 ^ k + 2 ^ Suc k * (2 * u * uint s + v)"
    unfolding uv by (simp add: algebra_simps)
  also have "\<dots> mod 2 ^ Suc k = (uint s + 2 ^ k) mod 2 ^ Suc k" by simp
  finally show ?thesis .
qed

lemma mod_double: "(a :: int) mod 2 ^ k = b mod 2 ^ k \<Longrightarrow> a mod 2 ^ Suc k = b mod 2 ^ Suc k \<or> (a + 2 ^ k) mod 2 ^ Suc k = b mod 2 ^ Suc k"
proof -
  assume "a mod 2 ^ k = b mod 2 ^ k"
  then obtain q where q: "b = a + 2 ^ k * q" by (metis mod_eqE)
  show ?thesis
  proof (cases "even q")
    case True
    then obtain r where "q = 2 * r" by (elim evenE)
    then have "b = a + 2 ^ Suc k * r" using q by simp
    then show ?thesis by simp
  next
    case False
    then obtain r where "q = 2 * r + 1" by (elim oddE)
    then have "b = a + 2 ^ k + 2 ^ Suc k * r" using q by (simp add: algebra_simps)
    then show ?thesis by simp
  qed
qed

lemma rand_agrees: "k \<le> 32 \<Longrightarrow> \<exists>n. uint ((ms_rand_u32 ^^ n) s) mod 2 ^ k = uint t mod 2 ^ k"
proof (induction k)
  case (Suc k)
  then obtain n where n: "uint ((ms_rand_u32 ^^ n) s) mod 2 ^ k = uint t mod 2 ^ k" by auto
  from mod_double [OF n] show ?case
  proof
    assume "(uint ((ms_rand_u32 ^^ n) s) + 2 ^ k) mod 2 ^ Suc k = uint t mod 2 ^ Suc k"
    moreover have "uint ((ms_rand_u32 ^^ (2 ^ k + n)) s) mod 2 ^ Suc k = (uint ((ms_rand_u32 ^^ n) s) + 2 ^ k) mod 2 ^ Suc k"
      using rand_step_bit [of k "(ms_rand_u32 ^^ n) s"] Suc.prems by (simp add: funpow_add)
    ultimately show ?case by metis
  qed blast
qed simp

text \<open>Every state follows from every other.\<close>

lemma rand_reaches: "\<exists>n. (ms_rand_u32 ^^ n) s = t"
proof -
  obtain n where "uint ((ms_rand_u32 ^^ n) s) mod 2 ^ 32 = uint t mod 2 ^ 32" using rand_agrees [of 32 s t] by auto
  moreover have "uint w mod 2 ^ 32 = uint w" for w :: u32 by (rule mod_pos_pos_trivial) (simp_all add: uint_lt2p [where ?'a = 32, simplified])
  ultimately have "uint ((ms_rand_u32 ^^ n) s) = uint t" by simp
  then show ?thesis by (metis word_uint_eqI)
qed

section \<open>Drawing cells\<close>

text \<open>One draw takes two steps; the parity of the state is the same before and after.\<close>

definition draw :: "u32 \<Rightarrow> int \<times> int" where
  "draw s = (int (unat (ms_rand_u32 s mod 9)), int (unat (ms_rand_u32 (ms_rand_u32 s) mod 9)))"

lemma draw_on_board: "on_board (draw s)"
proof -
  have r: "\<not> 9 \<le> uint (w mod 9 :: u32)" for w by (simp add: uint_mod not_le)
  show ?thesis
    using r [of "ms_rand_u32 s"] r [of "ms_rand_u32 (ms_rand_u32 s)"]
    by (simp add: on_board_def outside_def draw_def MS_COLS_def MS_ROWS_def)
qed

lemma rand_parity: "uint ((ms_rand_u32 ^^ n) s) mod 2 = (uint s + int n) mod 2"
proof (induction n)
  case (Suc n)
  have "uint ((ms_rand_u32 ^^ Suc n) s) mod 2 = (uint ((ms_rand_u32 ^^ n) s) + 1) mod 2"
    using rand_step_bit [of 0 "(ms_rand_u32 ^^ n) s"] by simp
  also have "\<dots> = (uint s + int (Suc n)) mod 2" using Suc.IH by presburger
  finally show ?case .
qed simp

lemma draw_reaches:
  assumes "uint t mod 2 = uint s mod 2"
  obtains m where "(ms_rand_u32 ^^ (2 * m)) s = t"
proof -
  obtain n where n: "(ms_rand_u32 ^^ n) s = t" using rand_reaches by blast
  then have "(uint s + int n) mod 2 = uint s mod 2" using rand_parity [of n s] assms by simp
  then have "even n" by presburger
  then show ?thesis using n that by (elim evenE) blast
qed

lemma many_draws:
  obtains T where "length T = 19" and "distinct (map draw T)" and "\<forall>t \<in> set T. uint t mod 2 = uint (s :: u32) mod 2"
proof (cases "uint s mod 2 = 0")
  case True
  show ?thesis
    by (rule that [of "[0, 2, 4, 6, 8, 10, 12, 14, 16, 18, 20, 22, 24, 26, 28, 30, 32, 34, 36]"]) (simp_all add: True draw_def ms_rand_u32_def)
next
  case False
  then have p: "uint s mod 2 = 1" by simp
  show ?thesis
    by (rule that [of "[1, 3, 5, 7, 9, 11, 13, 15, 17, 19, 21, 23, 25, 27, 29, 31, 33, 35, 37]"]) (simp_all add: p draw_def ms_rand_u32_def)
qed

lemma some_draw_free:
  assumes "finite X" and "card X \<le> 18"
  obtains m where "draw ((ms_rand_u32 ^^ (2 * m)) s) \<notin> X"
proof -
  obtain T where T: "length T = 19" "distinct (map draw T)" "\<forall>t \<in> set T. uint t mod 2 = uint s mod 2"
    by (rule many_draws)
  have "card (set (map draw T)) = 19" using distinct_card [OF T(2)] T(1) by simp
  then have "\<not> set (map draw T) \<subseteq> X" using card_mono [OF assms(1), of "set (map draw T)"] assms(2) by linarith
  then obtain c where "c \<in> set (map draw T)" "c \<notin> X" by blast
  then obtain t where t: "t \<in> set T" "draw t \<notin> X" by (metis (no_types) imageE set_map)
  with T(3) obtain m where "(ms_rand_u32 ^^ (2 * m)) s = t" using draw_reaches by blast
  with t(2) that show ?thesis by blast
qed

section \<open>The loop\<close>

definition safe_zone :: "int \<Rightarrow> int \<Rightarrow> (int \<times> int) set" where
  "safe_zone ax ay = {c. ms_in_safe_zone (fst c) (snd c) ax ay}"

definition mine_cells :: "mines \<Rightarrow> (int \<times> int) set" where
  "mine_cells g = {c. on_board c \<and> ms_mine g ! ix c \<noteq> 0}"

lemma safe_zone_eq: "safe_zone ax ay = {ax - 1..ax + 1} \<times> {ay - 1..ay + 1}"
proof -
  have "(\<exists>d \<in> {- 1..1}. x = a + d) \<longleftrightarrow> a - 1 \<le> x \<and> x \<le> a + 1" for x a :: int
    by (auto intro: bexI [of _ "x - a"])
  moreover have "ms_in_safe_zone x y ax ay \<longleftrightarrow> (\<exists>d \<in> {- 1..1}. x = ax + d) \<and> (\<exists>d \<in> {- 1..1}. y = ay + d)" for x y
    by (auto simp: ms_in_safe_zone_def list_ex_iff)
  ultimately show ?thesis by (auto simp: safe_zone_def)
qed

lemma safe_zone_card: "finite (safe_zone ax ay)" "card (safe_zone ax ay) = 9"
  by (simp_all add: safe_zone_eq)

lemma finite_mine_cells: "finite (mine_cells g)"
proof -
  have "mine_cells g \<subseteq> cell_at ` {..<81}"
    using cell_at_ix ix_bound by (force simp: mine_cells_def image_iff)
  then show ?thesis by (rule finite_subset) simp
qed

definition place :: "int \<times> int \<Rightarrow> u32 \<Rightarrow> mines \<Rightarrow> mines" where
  "place c r g = g\<lparr>ms_rng_state := r, ms_mine := (ms_mine g)[ix c := 1]\<rparr>"

lemma place_loop_step:
  assumes "placed < MS_MINES"
  shows "ms_place_loop ax ay placed g =
    (let c = draw (ms_rng_state g); r = (ms_rand_u32 ^^ 2) (ms_rng_state g)
     in if c \<in> safe_zone ax ay \<union> mine_cells g then ms_place_loop ax ay placed (g\<lparr>ms_rng_state := r\<rparr>)
        else ms_place_loop ax ay (placed + 1) (place c r g))"
proof -
  let ?c = "draw (ms_rng_state g)"
  have m: "?c \<in> mine_cells g \<longleftrightarrow> ms_mine g ! ix ?c \<noteq> 0" by (simp add: mine_cells_def draw_on_board)
  have z: "?c \<in> safe_zone ax ay \<longleftrightarrow> ms_in_safe_zone (fst ?c) (snd ?c) ax ay" by (simp add: safe_zone_def)
  show ?thesis
    unfolding Let_def Un_iff m z
    by (subst ms_place_loop.simps) (simp add: assms Let_def draw_def place_def ix_def numeral_2_eq_2)
qed

lemma place_loop_next:
  assumes "placed < MS_MINES" and "draw ((ms_rand_u32 ^^ (2 * m)) (ms_rng_state g)) \<notin> safe_zone ax ay \<union> mine_cells g"
  shows "\<exists>c r. on_board c \<and> c \<notin> safe_zone ax ay \<union> mine_cells g
    \<and> ms_place_loop ax ay placed g = ms_place_loop ax ay (placed + 1) (place c r g)"
  using assms(2)
proof (induction m arbitrary: g)
  case 0
  then show ?case
    using place_loop_step [OF assms(1), of ax ay g] draw_on_board [of "ms_rng_state g"]
    by (intro exI [of _ "draw (ms_rng_state g)"] exI [of _ "(ms_rand_u32 ^^ 2) (ms_rng_state g)"]) (simp add: Let_def)
next
  case (Suc m)
  let ?g = "g\<lparr>ms_rng_state := (ms_rand_u32 ^^ 2) (ms_rng_state g)\<rparr>"
  show ?case
  proof (cases "draw (ms_rng_state g) \<in> safe_zone ax ay \<union> mine_cells g")
    case True
    have mc: "mine_cells ?g = mine_cells g" by (simp add: mine_cells_def)
    have "(ms_rand_u32 ^^ (2 * m)) (ms_rng_state ?g) = (ms_rand_u32 ^^ (2 * Suc m)) (ms_rng_state g)"
      using funpow_add [of "2 * m" 2 ms_rand_u32] by simp
    from Suc.IH [of ?g, unfolded this mc, OF Suc.prems] obtain c r where
      "on_board c" "c \<notin> safe_zone ax ay \<union> mine_cells g"
      "ms_place_loop ax ay placed ?g = ms_place_loop ax ay (placed + 1) (place c r ?g)" by blast
    moreover have "place c r ?g = place c r g" by (simp add: place_def)
    ultimately show ?thesis
      using place_loop_step [OF assms(1), of ax ay g] True
      by (intro exI [of _ c] exI [of _ r]) (simp add: Let_def)
  next
    case False
    then show ?thesis
      using place_loop_step [OF assms(1), of ax ay g] draw_on_board [of "ms_rng_state g"]
    by (intro exI [of _ "draw (ms_rng_state g)"] exI [of _ "(ms_rand_u32 ^^ 2) (ms_rng_state g)"]) (simp add: Let_def)
  qed
qed

lemma mine_cells_place:
  assumes "length (ms_mine g) = 81" and "on_board c"
  shows "mine_cells (place c r g) = insert c (mine_cells g)"
proof (rule set_eqI)
  fix d
  show "d \<in> mine_cells (place c r g) \<longleftrightarrow> d \<in> insert c (mine_cells g)"
    using assms ix_bound [of c] ix_inj [of d c]
    by (cases "d = c") (auto simp: mine_cells_def place_def nth_list_update)
qed

text \<open>Boards that differ in their mines and the generator only.\<close>

definition same_board :: "mines \<Rightarrow> mines \<Rightarrow> bool" where
  "same_board g g' \<longleftrightarrow> g' = g\<lparr>ms_mine := ms_mine g', ms_rng_state := ms_rng_state g'\<rparr> \<and> length (ms_mine g') = length (ms_mine g)"

lemma place_loop_returns:
  assumes "length (ms_mine g) = 81" and "card (mine_cells g) = placed" and "placed \<le> MS_MINES" and "mine_cells g \<inter> safe_zone ax ay = {}"
  shows "\<exists>g'. ms_place_loop ax ay placed g = Some g' \<and> same_board g g' \<and> card (mine_cells g') = MS_MINES
    \<and> mine_cells g' \<inter> safe_zone ax ay = {}"
  using assms
proof (induction "MS_MINES - placed" arbitrary: placed g)
  case 0
  then show ?case
    by (subst ms_place_loop.simps) (simp add: same_board_def)
next
  case (Suc n)
  then have lt: "placed < MS_MINES" by simp
  let ?X = "safe_zone ax ay \<union> mine_cells g"
  have "card ?X \<le> 18"
    using card_Un_le [of "safe_zone ax ay" "mine_cells g"] safe_zone_card(2) [of ax ay] Suc.prems(2) lt by (simp add: MS_MINES_def)
  then obtain m where "draw ((ms_rand_u32 ^^ (2 * m)) (ms_rng_state g)) \<notin> ?X"
    using some_draw_free [of ?X] safe_zone_card(1) finite_mine_cells by blast
  from place_loop_next [OF lt this] obtain c r where
    c: "on_board c" "c \<notin> ?X" and eq: "ms_place_loop ax ay placed g = ms_place_loop ax ay (placed + 1) (place c r g)" by blast
  have mc: "mine_cells (place c r g) = insert c (mine_cells g)" by (rule mine_cells_place [OF Suc.prems(1) c(1)])
  have "\<exists>g'. ms_place_loop ax ay (placed + 1) (place c r g) = Some g' \<and> same_board (place c r g) g' \<and> card (mine_cells g') = MS_MINES
      \<and> mine_cells g' \<inter> safe_zone ax ay = {}"
  proof (rule Suc.hyps(1))
    show "n = MS_MINES - (placed + 1)" using Suc.hyps(2) by simp
    show "length (ms_mine (place c r g)) = 81" using Suc.prems(1) by (simp add: place_def)
    show "card (mine_cells (place c r g)) = placed + 1" using mc c(2) Suc.prems(2) finite_mine_cells by simp
    show "mine_cells (place c r g) \<inter> safe_zone ax ay = {}" using mc c(2) Suc.prems(4) by auto
  qed (use lt in simp)
  moreover have "same_board g g'" if "same_board (place c r g) g'" for g'
    using that by (simp add: same_board_def place_def)
  ultimately show ?case unfolding eq by blast
qed

lemma ms_place_mines_spec:
  assumes "length (ms_mine g) = 81" and "mine_cells g = {}"
  shows "\<exists>g'. ms_place_mines ax ay g = Some g' \<and> card (mine_cells g') = 10 \<and> mine_cells g' \<inter> safe_zone ax ay = {}
    \<and> g' = ms_build_adj (g\<lparr>ms_mine := ms_mine g', ms_rng_state := ms_rng_state g'\<rparr>) \<and> length (ms_mine g') = 81"
proof -
  have "\<exists>g'. ms_place_loop ax ay 0 g = Some g' \<and> same_board g g' \<and> card (mine_cells g') = MS_MINES
      \<and> mine_cells g' \<inter> safe_zone ax ay = {}"
    by (rule place_loop_returns) (simp_all add: assms)
  then obtain g1 where g1: "ms_place_loop ax ay 0 g = Some g1" "same_board g g1" "card (mine_cells g1) = 10"
    "mine_cells g1 \<inter> safe_zone ax ay = {}" by (auto simp: MS_MINES_def)
  have m: "mine_cells (ms_build_adj g1) = mine_cells g1" by (simp add: mine_cells_def ms_build_adj_def)
  have "ms_build_adj g1 = ms_build_adj (g\<lparr>ms_mine := ms_mine (ms_build_adj g1), ms_rng_state := ms_rng_state (ms_build_adj g1)\<rparr>)"
    using g1(2) by (simp add: same_board_def ms_build_adj_def)
  moreover have "length (ms_mine (ms_build_adj g1)) = 81" using g1(2) assms(1) by (simp add: same_board_def ms_build_adj_def)
  ultimately show ?thesis
    using g1 m by (intro exI [of _ "ms_build_adj g1"]) (simp add: ms_place_mines_def)
qed

text \<open>C10: Placing the mines returns for every seed and every cell of the first click: ten cells get a mine, none
  of them the clicked cell or a neighbour, the numbers are those of the neighbouring mines, and nothing
  else on the board changes.\<close>

theorem ms_place_mines_returns:
  assumes "length (ms_mine g) = 81" and "mine_cells g = {}"
  shows "\<exists>g'. ms_place_mines ax ay g = Some g' \<and> card (mine_cells g') = 10 \<and> mine_cells g' \<inter> safe_zone ax ay = {}
    \<and> g' = ms_build_adj (g\<lparr>ms_mine := ms_mine g', ms_rng_state := ms_rng_state g'\<rparr>) \<and> length (ms_mine g') = 81"
  by (rule ms_place_mines_spec [OF assms])

theorem ms_place_mines_returns_witness:
  "\<exists>g'. ms_place_mines 4 4 mines_boot = Some g' \<and> card (mine_cells g') = 10"
proof -
  have "ms_mine mines_boot ! ix c = 0" if "on_board c" for c
    using ix_bound [OF that] by (simp add: mines_boot_def MS_CELLS_def)
  then have "length (ms_mine mines_boot) = 81" "mine_cells mines_boot = {}"
    by (auto simp: mine_cells_def) (simp add: mines_boot_def MS_CELLS_def)
  from ms_place_mines_returns [OF this, of 4 4] show ?thesis by blast
qed

end
