(* ===== verification/Minesgame.thy ===== *)
theory Minesgame
  imports Minesflood Minesplace
begin

text \<open>
  A game of minesweeper: the clicks of the player as steps, what every reachable board satisfies, and
  the first click.
\<close>

section \<open>Boards of a game\<close>

definition opened :: "mines \<Rightarrow> int \<times> int \<Rightarrow> bool" where
  "opened g c \<longleftrightarrow> on_board c \<and> ms_vis g ! ix c = 1"

definition all_safe_open :: "mines \<Rightarrow> bool" where
  "all_safe_open g \<longleftrightarrow> (\<forall>c. on_board c \<longrightarrow> c \<notin> mine_cells g \<longrightarrow> opened g c)"

definition numbers :: "u8 list \<Rightarrow> u8 list" where
  "numbers mine = map (\<lambda>i. if mine ! i \<noteq> 0 then 9 else of_nat (count_around mine (int i mod MS_COLS) (int i div MS_COLS))) [0..<81]"

lemma length_numbers [simp]: "length (numbers mine) = 81"
  by (simp add: numbers_def)

lemma build_adj_numbers: "ms_build_adj g = g\<lparr>ms_adj := numbers (ms_mine g)\<rparr>"
  by (simp add: ms_build_adj_def numbers_def MS_CELLS_def)

definition mines_inv :: "mines \<Rightarrow> bool" where
  "mines_inv g \<longleftrightarrow> board_ok g
     \<and> (\<not> ms_started g \<longrightarrow> mine_cells g = {} \<and> (\<forall>c. on_board c \<longrightarrow> ms_vis g ! ix c = 0) \<and> \<not> ms_dead g \<and> \<not> ms_win g)
     \<and> (ms_started g \<longrightarrow> card (mine_cells g) = 10 \<and> ms_adj g = numbers (ms_mine g))
     \<and> (\<not> ms_dead g \<longrightarrow> (\<forall>c \<in> mine_cells g. \<not> opened g c))
     \<and> (ms_dead g \<longrightarrow> (\<forall>c \<in> mine_cells g. opened g c) \<and> \<not> ms_win g)
     \<and> (ms_started g \<longrightarrow> \<not> ms_dead g \<longrightarrow> ms_win g = all_safe_open g)"

inductive mines_reach :: "mines \<Rightarrow> bool" where
  start: "mines_reach (minesweeper_init now mines_boot)"
| again: "mines_reach g \<Longrightarrow> mines_reach (minesweeper_init now g)"
| fresh: "mines_reach g \<Longrightarrow> mines_reach (minesweeper_new_game g)"
| left: "mines_reach g \<Longrightarrow> minesweeper_left_cell cx cy g = Some g' \<Longrightarrow> mines_reach g'"
| right: "mines_reach g \<Longrightarrow> mines_reach (minesweeper_right_cell cx cy g)"

lemma clear_board_inv: "mines_inv (minesweeper_clear_board g)"
proof -
  let ?g = "minesweeper_clear_board g"
  have z: "ms_mine ?g ! ix c = 0" "ms_vis ?g ! ix c = 0" if "on_board c" for c
    using ix_bound [OF that] by (simp_all add: minesweeper_clear_board_def MS_CELLS_def)
  then have "mine_cells ?g = {}" by (auto simp: mine_cells_def)
  moreover have "board_ok ?g" "\<not> ms_started ?g" "\<not> ms_dead ?g" "\<not> ms_win ?g"
    by (simp_all add: minesweeper_clear_board_def board_ok_def MS_CELLS_def)
  ultimately show ?thesis using z by (simp add: mines_inv_def)
qed

lemma rng_inv: "mines_inv (g\<lparr>ms_rng_state := r\<rparr>) = mines_inv g"
proof -
  have "mine_cells (g\<lparr>ms_rng_state := r\<rparr>) = mine_cells g" "opened (g\<lparr>ms_rng_state := r\<rparr>) = opened g"
    by (simp_all add: mine_cells_def opened_def fun_eq_iff)
  then show ?thesis by (simp add: mines_inv_def board_ok_def all_safe_open_def)
qed

section \<open>Left clicks\<close>

text \<open>A board with its mines placed, before a cell is opened.\<close>

definition in_play :: "mines \<Rightarrow> bool" where
  "in_play g \<longleftrightarrow> board_ok g \<and> ms_started g \<and> \<not> ms_dead g \<and> \<not> ms_win g \<and> card (mine_cells g) = 10 \<and> ms_adj g = numbers (ms_mine g)
     \<and> (\<forall>c \<in> mine_cells g. \<not> opened g c)"

lemma placed_in_play:
  assumes "mines_inv g" and "\<not> ms_started g"
  obtains g1 where "ms_place_mines cx cy g = Some g1" and "in_play (g1\<lparr>ms_started := True\<rparr>)"
    and "mine_cells g1 \<inter> safe_zone cx cy = {}" and "ms_vis g1 = ms_vis g"
proof -
  have "length (ms_mine g) = 81" "mine_cells g = {}" using assms by (simp_all add: mines_inv_def board_ok_def)
  from ms_place_mines_spec [OF this, of cx cy] obtain g1 where g1: "ms_place_mines cx cy g = Some g1" "card (mine_cells g1) = 10"
    "mine_cells g1 \<inter> safe_zone cx cy = {}" "length (ms_mine g1) = 81"
    "g1 = ms_build_adj (g\<lparr>ms_mine := ms_mine g1, ms_rng_state := ms_rng_state g1\<rparr>)"
    by (elim exE conjE) (rule that)
  have f: "ms_vis g1 = ms_vis g" "ms_dead g1 = ms_dead g" "ms_win g1 = ms_win g" "length (ms_adj g1) = 81"
    by (subst g1(5), simp add: ms_build_adj_def MS_CELLS_def)+
  have a: "ms_adj g1 = numbers (ms_mine g1)"
    by (subst g1(5)) (simp add: build_adj_numbers)
  have "in_play (g1\<lparr>ms_started := True\<rparr>)"
    using assms g1(2,4) f a unfolding in_play_def
    by (auto simp: mines_inv_def board_ok_def mine_cells_def opened_def)
  with g1(1,3) f(1) that show ?thesis by blast
qed

lemma reveal_play_fields [simp]:
  "mine_cells (reveal S g) = mine_cells g" "opened (reveal S g) c \<longleftrightarrow> opened g c \<or> on_board c \<and> c \<in> S"
  by (auto simp: mine_cells_def opened_def reveal_vis)

lemma check_win_iff: "ms_check_win g = (if all_safe_open g then g\<lparr>ms_win := True\<rparr> else g)"
proof -
  have "list_ex (\<lambda>i. ms_mine g ! i = 0 \<and> ms_vis g ! i \<noteq> 1) [0..<MS_CELLS]
      \<longleftrightarrow> (\<exists>c. on_board c \<and> ms_mine g ! ix c = 0 \<and> ms_vis g ! ix c \<noteq> 1)"
    unfolding list_ex_iff MS_CELLS_def
    by (metis atLeastLessThan_iff ix_bound ix_cell_at on_board_cell_at set_upt zero_le)
  then show ?thesis by (auto simp: ms_check_win_def all_safe_open_def mine_cells_def opened_def)
qed

lemma win_field [simp]:
  "mine_cells (g\<lparr>ms_win := w\<rparr>) = mine_cells g" "opened (g\<lparr>ms_win := w\<rparr>) = opened g"
  "all_safe_open (g\<lparr>ms_win := w\<rparr>) = all_safe_open g"
  by (simp_all add: mine_cells_def opened_def fun_eq_iff all_safe_open_def)

text \<open>Opening a cell of a board in play.\<close>

lemma open_cell:
  assumes "in_play g" and "on_board (cx, cy)" and "(cx, cy) \<notin> mine_cells g"
  shows "ms_expand cx cy g = Some (reveal (region g (cx, cy)) g)" and "mines_inv (ms_check_win (reveal (region g (cx, cy)) g))"
proof -
  let ?g = "reveal (region g (cx, cy)) g"
  show "ms_expand cx cy g = Some ?g" by (rule ms_expand_region) (use assms in \<open>simp add: in_play_def\<close>)
  have "c \<notin> region g (cx, cy)" if "c \<in> mine_cells g" for c
    using region_hidden [of c g "(cx, cy)"] that by (auto simp: hidden_def mine_cells_def)
  then have m: "\<forall>c \<in> mine_cells g. \<not> opened ?g c" using assms(1) by (auto simp: in_play_def)
  have b: "board_ok ?g" using assms(1) by (auto simp: in_play_def board_ok_def reveal_def)
  show "mines_inv (ms_check_win ?g)"
    unfolding check_win_iff using assms(1) m b
    by (simp add: mines_inv_def in_play_def board_ok_def)
qed

lemma explode:
  assumes "in_play g"
  shows "mines_inv (ms_reveal_all_mines (g\<lparr>ms_dead := True\<rparr>))"
proof -
  let ?g = "ms_reveal_all_mines (g\<lparr>ms_dead := True\<rparr>)"
  have m: "mine_cells ?g = mine_cells g" by (simp add: mine_cells_def ms_reveal_all_mines_def)
  have "opened ?g c" if "c \<in> mine_cells g" for c
    using that ix_bound [of c] by (simp add: opened_def mine_cells_def ms_reveal_all_mines_def MS_CELLS_def)
  moreover have "ms_adj ?g = numbers (ms_mine ?g)" using assms by (simp add: in_play_def ms_reveal_all_mines_def)
  moreover have "board_ok ?g" "ms_started ?g" "ms_dead ?g" "\<not> ms_win ?g"
    using assms by (simp_all add: in_play_def board_ok_def ms_reveal_all_mines_def MS_CELLS_def)
  ultimately show ?thesis using assms m by (simp add: mines_inv_def in_play_def)
qed

lemma left_cell_inv:
  assumes "mines_inv g"
  shows "\<exists>g'. minesweeper_left_cell cx cy g = Some g' \<and> mines_inv g'"
proof (cases "outside cx cy \<or> ms_dead g \<or> ms_win g \<or> ms_vis g ! cell_ix cx cy = 2")
  case True
  then show ?thesis using assms by (auto simp: minesweeper_left_cell_def Let_def)
next
  case False
  then have o: "on_board (cx, cy)" by (simp add: on_board_def)
  have "\<exists>g1. (if \<not> ms_started g then do { g \<leftarrow> ms_place_mines cx cy g; Some (g\<lparr>ms_started := True\<rparr>) } else Some g) = Some g1 \<and> in_play g1"
  proof (cases "ms_started g")
    case True
    then show ?thesis using assms False by (auto simp: mines_inv_def in_play_def)
  next
    case n: False
    from placed_in_play [OF assms n, of cx cy] show ?thesis using n by (metis bind.bind_lunit)
  qed
  then obtain g1 where g1: "(if \<not> ms_started g then do { g \<leftarrow> ms_place_mines cx cy g; Some (g\<lparr>ms_started := True\<rparr>) } else Some g) = Some g1"
    and p: "in_play g1" by blast
  have eq: "minesweeper_left_cell cx cy g = (if ms_mine g1 ! cell_ix cx cy \<noteq> 0 then Some (ms_reveal_all_mines (g1\<lparr>ms_dead := True\<rparr>))
      else do { g \<leftarrow> ms_expand cx cy g1; Some (ms_check_win g) })"
    using False g1 by (simp add: minesweeper_left_cell_def Let_def)
  show ?thesis
  proof (cases "ms_mine g1 ! cell_ix cx cy \<noteq> 0")
    case True
    then show ?thesis unfolding eq using explode [OF p] by simp
  next
    case safe: False
    then have "(cx, cy) \<notin> mine_cells g1" by (simp add: mine_cells_def ix_def)
    from open_cell [OF p o this] safe show ?thesis unfolding eq by simp
  qed
qed

section \<open>Flags\<close>

definition set_vis :: "int \<times> int \<Rightarrow> u8 \<Rightarrow> mines \<Rightarrow> mines" where
  "set_vis c v g = g\<lparr>ms_vis := (ms_vis g)[ix c := v]\<rparr>"

lemma set_vis_inv:
  assumes "mines_inv g" and "ms_started g" and "\<not> ms_dead g" and "on_board c" and "\<not> opened g c" and "v \<noteq> 1"
  shows "mines_inv (set_vis c v g)"
proof -
  have l: "length (ms_vis g) = 81" using assms(1) by (simp add: mines_inv_def board_ok_def)
  have "opened (set_vis c v g) d = opened g d" for d
    using assms(4-6) l ix_bound [of c] ix_inj [of d c]
    by (cases "d = c") (auto simp: opened_def set_vis_def nth_list_update)
  moreover have "mine_cells (set_vis c v g) = mine_cells g" by (simp add: mine_cells_def set_vis_def)
  ultimately show ?thesis
    using assms(1-3) by (simp add: mines_inv_def all_safe_open_def) (simp add: set_vis_def board_ok_def)
qed

lemma right_cell_inv:
  assumes "mines_inv g"
  shows "mines_inv (minesweeper_right_cell cx cy g)"
proof (cases "outside cx cy \<or> ms_dead g \<or> ms_win g \<or> \<not> ms_started g")
  case False
  then have c: "on_board (cx, cy)" by (simp add: on_board_def)
  from False set_vis_inv [OF assms _ _ c] assms show ?thesis
    by (auto simp: minesweeper_right_cell_def Let_def opened_def set_vis_def ix_def)
qed (use assms in \<open>auto simp: minesweeper_right_cell_def\<close>)

lemma mines_reach_inv: "mines_reach g \<Longrightarrow> mines_inv g"
proof (induction rule: mines_reach.induct)
  case (left g cx cy g')
  from left_cell_inv [OF left.IH, of cx cy] left.hyps(2) show ?case by simp
qed (simp_all add: minesweeper_init_def minesweeper_new_game_def Let_def rng_inv clear_board_inv right_cell_inv)

section \<open>The game\<close>

text \<open>C14: In every board of a game a click returns; once started the board has ten mines and the right numbers;
  a mine is open only on a lost board, and then all are; and the game counts as won exactly when it is
  started, not lost, and every cell without a mine is open.\<close>

theorem minesweeper_is_fair:
  assumes "mines_reach g"
  shows "(\<exists>g'. minesweeper_left_cell cx cy g = Some g' \<and> mines_reach g')
    \<and> (ms_started g \<longrightarrow> card (mine_cells g) = 10 \<and> ms_build_adj g = g)
    \<and> (\<forall>c \<in> mine_cells g. opened g c \<longleftrightarrow> ms_dead g)
    \<and> (ms_win g \<longleftrightarrow> ms_started g \<and> \<not> ms_dead g \<and> all_safe_open g)"
proof -
  have inv: "mines_inv g" by (rule mines_reach_inv [OF assms])
  have "\<exists>g'. minesweeper_left_cell cx cy g = Some g' \<and> mines_reach g'"
    using left_cell_inv [OF inv, of cx cy] mines_reach.left [OF assms, of cx cy] by blast
  moreover have "ms_build_adj g = g" if "ms_started g" using inv that by (simp add: mines_inv_def build_adj_numbers)
  moreover have "ms_win g \<longleftrightarrow> ms_started g \<and> \<not> ms_dead g \<and> all_safe_open g" using inv by (auto simp: mines_inv_def)
  moreover have "\<forall>c \<in> mine_cells g. opened g c \<longleftrightarrow> ms_dead g" using inv by (cases "ms_dead g") (auto simp: mines_inv_def)
  ultimately show ?thesis using inv by (simp add: mines_inv_def)
qed

lemma safe_zone_nbrs: "(cx, cy) \<in> safe_zone cx cy" "d \<in> set (nbrs (cx, cy)) \<Longrightarrow> d \<in> safe_zone cx cy"
  by (auto simp: safe_zone_eq nbrs_def around_def)

lemma blank_no_mines:
  assumes "on_board c" and "ms_adj g = numbers (ms_mine g)" and "\<And>d. d \<in> insert c (set (nbrs c)) \<Longrightarrow> d \<notin> mine_cells g"
  shows "blank g c"
proof -
  obtain x y where c: "c = (x, y)" by (cases c)
  have "cell_at (ix c) = c" by (rule cell_at_ix [OF assms(1)])
  then have xy: "int (ix c) mod 9 = x" "int (ix c) div 9 = y" by (simp_all add: cell_at_def c zmod_int zdiv_int)
  have "ms_mine g ! ix c = 0" using assms(1,3) by (auto simp: mine_cells_def)
  moreover have "count_around (ms_mine g) x y = 0"
    unfolding count_around_def length_0_conv filter_empty_conv
  proof (clarify)
    fix dx dy assume d: "(dx, dy) \<in> set around" "\<not> outside (x + dx) (y + dy)" "ms_mine g ! cell_ix (x + dx) (y + dy) \<noteq> 0"
    then have "(x + dx, y + dy) \<in> set (nbrs c)" by (force simp: nbrs_def c)
    then have "(x + dx, y + dy) \<notin> mine_cells g" by (intro assms(3)) simp
    with d(2,3) show False by (simp add: mine_cells_def on_board_def ix_def)
  qed
  ultimately show ?thesis
    using ix_bound [OF assms(1)] by (simp add: blank_def assms(2) numbers_def xy MS_COLS_def)
qed

text \<open>C32: The first click of a game never loses: it opens the cell and every neighbour of it on the board, as none
  of them has a mine.\<close>

theorem first_click_is_safe:
  assumes "mines_reach g" and "\<not> ms_started g" and "on_board (cx, cy)"
  shows "\<exists>g'. minesweeper_left_cell cx cy g = Some g' \<and> ms_started g' \<and> \<not> ms_dead g' \<and> opened g' (cx, cy)
    \<and> (\<forall>d \<in> set (nbrs (cx, cy)). on_board d \<longrightarrow> opened g' d)"
proof -
  have inv: "mines_inv g" by (rule mines_reach_inv [OF assms(1)])
  let ?c = "(cx, cy)"
  from placed_in_play [OF inv assms(2), of cx cy] obtain g1 where g1: "ms_place_mines cx cy g = Some g1"
    "in_play (g1\<lparr>ms_started := True\<rparr>)" "mine_cells g1 \<inter> safe_zone cx cy = {}" "ms_vis g1 = ms_vis g" by blast
  let ?g = "g1\<lparr>ms_started := True\<rparr>"
  have m: "mine_cells ?g = mine_cells g1" by (simp add: mine_cells_def)
  have safe: "d \<notin> mine_cells ?g" if "d \<in> safe_zone cx cy" for d using g1(3) that m by auto
  have v: "ms_vis g ! ix d = 0" if "on_board d" for d using inv assms(2) that by (cases d) (simp add: mines_inv_def)
  have hid: "hidden ?g d" if "d \<in> safe_zone cx cy" "on_board d" for d
    using safe [OF that(1)] that(2) v [OF that(2)] g1(4) by (simp add: hidden_def mine_cells_def)
  have c: "?c \<in> safe_zone cx cy" by (rule safe_zone_nbrs)
  have b: "blank ?g ?c"
  proof (rule blank_no_mines [OF assms(3)])
    show "ms_adj ?g = numbers (ms_mine ?g)" using g1(2) by (simp add: in_play_def)
    show "d \<notin> mine_cells ?g" if "d \<in> insert ?c (set (nbrs ?c))" for d
      using that safe [OF c] safe [OF safe_zone_nbrs(2)] by blast
  qed
  have reg: "?c \<in> region ?g ?c" "\<And>d. d \<in> set (nbrs ?c) \<Longrightarrow> on_board d \<Longrightarrow> d \<in> region ?g ?c"
    using region.self [OF hid [OF c assms(3)]] region.step [OF _ b] hid safe_zone_nbrs(2) by blast+
  note O = open_cell [OF g1(2) assms(3) safe [OF c]]
  have "ms_vis g ! cell_ix cx cy = 0" "\<not> ms_dead g" "\<not> ms_win g"
    using inv assms(2,3) by (auto simp: mines_inv_def ix_def)
  then have "minesweeper_left_cell cx cy g = Some (ms_check_win (reveal (region ?g ?c) ?g))"
    using assms(2,3) g1(1) O(1) safe [OF c] by (simp add: minesweeper_left_cell_def Let_def on_board_def mine_cells_def ix_def)
  moreover have "\<not> ms_dead ?g" using g1(2) by (simp add: in_play_def)
  ultimately show ?thesis using reg assms(3) by (auto simp: check_win_iff)
qed

theorem minesweeper_is_fair_witness:
  "\<exists>g'. minesweeper_left_cell 4 4 (minesweeper_init 7 mines_boot) = Some g' \<and> mines_reach g'"
  using minesweeper_is_fair [OF mines_reach.start [of 7], of 4 4] by blast

theorem first_click_is_safe_witness:
  "\<exists>g'. minesweeper_left_cell 4 4 (minesweeper_init 7 mines_boot) = Some g' \<and> opened g' (4, 4)"
proof -
  have s: "\<not> ms_started (minesweeper_init 7 mines_boot)" "on_board (4, 4)"
    by (simp_all add: minesweeper_init_def minesweeper_clear_board_def Let_def on_board_def outside_def MS_COLS_def MS_ROWS_def)
  from first_click_is_safe [OF mines_reach.start s] show ?thesis by blast
qed

end
