(* ===== verification/Mouse.thy ===== *)
theory Mouse
  imports Kprelude
begin

text \<open>
  The PS/2 mouse driver (\<^verbatim>\<open>src/kernel/drivers/mouse.c\<close>). The controller is the bytes waiting in its
  output buffer: the status bit the driver polls says whether there is one, and reading the data
  port takes it. \<open>mouse_init\<close> is the list of its port writes, given the configuration byte the
  controller answers with; the waits before them are bounded and have no effect.
\<close>

record mouse =
  mouse_dx :: int
  mouse_dy :: int
  mouse_buttons :: u8
  mouse_buf :: "u8 list"
  mouse_phase :: nat
  mouse_ok :: bool

definition mouse_boot :: mouse where
  "mouse_boot = \<lparr>mouse_dx = 0, mouse_dy = 0, mouse_buttons = 0, mouse_buf = [0, 0, 0], mouse_phase = 0, mouse_ok = False\<rparr>"

definition MOUSE_DATA :: u16 where "MOUSE_DATA = 0x60"
definition MOUSE_CMD :: u16 where "MOUSE_CMD = 0x64"
definition CMD_AUX_ENABLE :: u8 where "CMD_AUX_ENABLE = 0xA8"
definition CMD_READ_CFG :: u8 where "CMD_READ_CFG = 0x20"
definition CMD_WRITE_CFG :: u8 where "CMD_WRITE_CFG = 0x60"
definition CMD_AUX_WRITE :: u8 where "CMD_AUX_WRITE = 0xD4"
definition CFG_AUX_IRQ :: u8 where "CFG_AUX_IRQ = 0x02"
definition CFG_AUX_CLK :: u8 where "CFG_AUX_CLK = 0x20"

definition mouse_write :: "u8 \<Rightarrow> (u16 \<times> u8) list" where
  "mouse_write val = [(MOUSE_CMD, CMD_AUX_WRITE), (MOUSE_DATA, val)]"

definition mouse_init :: "u8 \<Rightarrow> mouse \<Rightarrow> (u16 \<times> u8) list \<times> mouse" where
  "mouse_init cfg m =
     (let m = m\<lparr>mouse_ok := False, mouse_phase := 0, mouse_dx := 0, mouse_dy := 0, mouse_buttons := 0\<rparr>;
          cfg = cfg OR CFG_AUX_CLK;
          cfg = cfg AND NOT CFG_AUX_IRQ
      in ([(MOUSE_CMD, CMD_AUX_ENABLE), (MOUSE_CMD, CMD_READ_CFG), (MOUSE_CMD, CMD_WRITE_CFG), (MOUSE_DATA, cfg)]
            @ mouse_write 0xF6 @ mouse_write 0xF4,
          m\<lparr>mouse_ok := True\<rparr>))"

text \<open>The body of the loop in \<open>mouse_poll\<close>.\<close>

definition mouse_byte :: "u8 \<Rightarrow> mouse \<Rightarrow> mouse" where
  "mouse_byte b m =
     (if mouse_phase m = 0 then
        (if b AND 0x08 = 0 then m else m\<lparr>mouse_buf := (mouse_buf m)[0 := b], mouse_phase := 1\<rparr>)
      else if mouse_phase m = 1 then m\<lparr>mouse_buf := (mouse_buf m)[1 := b], mouse_phase := 2\<rparr>
      else
        let m = m\<lparr>mouse_buf := (mouse_buf m)[2 := b], mouse_phase := 0\<rparr>
        in m\<lparr>mouse_buttons := mouse_buf m ! 0 AND 0x07, mouse_dx := mouse_dx m + sint (mouse_buf m ! 1),
             mouse_dy := mouse_dy m - sint (mouse_buf m ! 2)\<rparr>)"

fun mouse_drain :: "u8 list \<Rightarrow> mouse \<Rightarrow> mouse" where
  "mouse_drain [] m = m"
| "mouse_drain (b # bs) m = mouse_drain bs (mouse_byte b m)"

text \<open>The values of \<open>*dx\<close>, \<open>*dy\<close> and \<open>*buttons\<close>; the buffer is empty afterwards.\<close>

definition mouse_poll :: "u8 list \<Rightarrow> mouse \<Rightarrow> (int \<times> int \<times> u8) \<times> mouse" where
  "mouse_poll pending m =
     (let m = mouse_drain pending m
      in ((mouse_dx m, mouse_dy m, mouse_buttons m), m\<lparr>mouse_dx := 0, mouse_dy := 0\<rparr>))"

definition mouse_clear :: "mouse \<Rightarrow> mouse" where
  "mouse_clear m = m\<lparr>mouse_dx := 0, mouse_dy := 0, mouse_buttons := 0, mouse_phase := 0\<rparr>"

section \<open>Packets\<close>

type_synonym packet = "u8 \<times> u8 \<times> u8"

definition packet_bytes :: "packet list \<Rightarrow> u8 list" where
  "packet_bytes ps = concat (map (\<lambda>(f, x, y). [f, x, y]) ps)"

definition moved_by :: "packet list \<Rightarrow> int \<times> int" where
  "moved_by ps = (sum_list (map (\<lambda>(f, x, y). sint x) ps), - sum_list (map (\<lambda>(f, x, y). sint y) ps))"

definition last_buttons :: "u8 \<Rightarrow> packet list \<Rightarrow> u8" where
  "last_buttons b ps = (if ps = [] then b else fst (last ps) AND 0x07)"

lemma mouse_drain_append: "mouse_drain (xs @ ys) m = mouse_drain ys (mouse_drain xs m)"
  by (induction xs m rule: mouse_drain.induct) simp_all

text \<open>The displacement only accumulates: what was there before is added to the result.\<close>

definition shift_mouse :: "int \<Rightarrow> int \<Rightarrow> mouse \<Rightarrow> mouse" where
  "shift_mouse a b m = m\<lparr>mouse_dx := mouse_dx m + a, mouse_dy := mouse_dy m + b\<rparr>"

lemma mouse_byte_shift: "mouse_byte c (shift_mouse a b m) = shift_mouse a b (mouse_byte c m)"
  by (simp add: mouse_byte_def shift_mouse_def Let_def)

lemma mouse_drain_shift: "mouse_drain bs (shift_mouse a b m) = shift_mouse a b (mouse_drain bs m)"
  by (induction bs arbitrary: m) (simp_all add: mouse_byte_shift)

lemma mouse_packet:
  assumes "mouse_phase m = 0" and "length (mouse_buf m) = 3" and "f AND 0x08 \<noteq> 0"
  shows "mouse_drain [f, x, y] m = m\<lparr>mouse_buf := [f, x, y], mouse_buttons := f AND 0x07,
    mouse_dx := mouse_dx m + sint x, mouse_dy := mouse_dy m - sint y\<rparr>"
proof -
  obtain a b c where "mouse_buf m = [a, b, c]" using assms(2) by (auto simp: numeral_3_eq_3 length_Suc_conv)
  then show ?thesis using assms(1,3) by (simp add: mouse_byte_def Let_def)
qed

lemma mouse_packets:
  assumes "mouse_phase m = 0" and "length (mouse_buf m) = 3" and "\<forall>p \<in> set ps. fst p AND 0x08 \<noteq> 0"
  shows "let m' = mouse_drain (packet_bytes ps) m in mouse_phase m' = 0 \<and> length (mouse_buf m') = 3
    \<and> (mouse_dx m', mouse_dy m') = (mouse_dx m + fst (moved_by ps), mouse_dy m + snd (moved_by ps))
    \<and> mouse_buttons m' = last_buttons (mouse_buttons m) ps"
  using assms
proof (induction ps arbitrary: m)
  case (Cons p ps)
  obtain f x y where p: "p = (f, x, y)" by (cases p)
  let ?m = "m\<lparr>mouse_buf := [f, x, y], mouse_buttons := f AND 0x07, mouse_dx := mouse_dx m + sint x, mouse_dy := mouse_dy m - sint y\<rparr>"
  have "mouse_drain (packet_bytes (p # ps)) m = mouse_drain (packet_bytes ps) ?m"
    using mouse_packet [OF Cons.prems(1,2), of f x y] Cons.prems(3) p
    by (simp add: packet_bytes_def mouse_drain_append del: mouse_drain.simps) (simp add: mouse_drain_append [of "[f, x, y]", simplified])
  with Cons.IH [of ?m] Cons.prems show ?case
    by (auto simp: p Let_def moved_by_def last_buttons_def)
qed (simp add: packet_bytes_def moved_by_def last_buttons_def)

text \<open>However the bytes of whole packets are split over two polls, the two displacements add up to the sum of
  the packets' (up is negative), and after the second poll the buttons are those of the last packet.\<close>

theorem mouse_polls_add_up:
  assumes "mouse_phase m = 0" and "length (mouse_buf m) = 3" and "mouse_dx m = 0" and "mouse_dy m = 0"
    and "\<forall>p \<in> set ps. fst p AND 0x08 \<noteq> 0" and "xs @ ys = packet_bytes ps"
  shows "\<exists>dx1 dy1 b1 m1 dx2 dy2 m2. mouse_poll xs m = ((dx1, dy1, b1), m1)
    \<and> mouse_poll ys m1 = ((dx2, dy2, last_buttons (mouse_buttons m) ps), m2)
    \<and> (dx1 + dx2, dy1 + dy2) = moved_by ps"
proof -
  let ?m1 = "mouse_drain xs m"
  have "?m1\<lparr>mouse_dx := 0, mouse_dy := 0\<rparr> = shift_mouse (- mouse_dx ?m1) (- mouse_dy ?m1) ?m1" by (simp add: shift_mouse_def)
  then have "mouse_drain ys (?m1\<lparr>mouse_dx := 0, mouse_dy := 0\<rparr>) = shift_mouse (- mouse_dx ?m1) (- mouse_dy ?m1) (mouse_drain (packet_bytes ps) m)"
    using assms(6) [symmetric] by (simp add: mouse_drain_shift mouse_drain_append)
  with mouse_packets [OF assms(1,2,5)] assms(3,4) show ?thesis
    by (simp add: mouse_poll_def Let_def shift_mouse_def prod_eq_iff)
qed

theorem mouse_polls_add_up_witness:
  "\<exists>dx1 dy1 b1 m1 dx2 dy2 m2. mouse_poll [0x09, 5] mouse_boot = ((dx1, dy1, b1), m1)
    \<and> mouse_poll [0xFE] m1 = ((dx2, dy2, 1), m2) \<and> (dx1 + dx2, dy1 + dy2) = (5, 2)"
  using mouse_polls_add_up [of mouse_boot "[(0x09, 5, 0xFE)]" "[0x09, 5]" "[0xFE]"]
  by (simp add: mouse_boot_def packet_bytes_def last_buttons_def moved_by_def)

end
