(* ===== verification/Desktop.thy ===== *)
theory Desktop
  imports Guidraw Paint Notepad Calc Snake Minesgame Mouse Keyboard
begin

text \<open>
  The desktop (\<^verbatim>\<open>src/kernel/gui/gui.c\<close>): the stack of windows, the Program Manager, the File Manager, the
  clock, and the dispatch of keys and mouse clicks to the applications. The static variables and the
  struct \<open>G\<close> are one record, with a record for each application and the file system, the keyboard and
  the mouse driver beside them. The array \<open>stack\<close> is the list of its first \<open>stack_n\<close> elements, and so
  are the names of the File Manager and the digits of the clock. \<open>now\<close> is what \<open>timer_get_ms\<close> returns
  during the call.
\<close>

datatype app_id = APP_NONE | APP_PROGRAM_MANAGER | APP_FILE_MANAGER | APP_CALCULATOR | APP_NOTEPAD | APP_CLOCK
  | APP_SNAKE | APP_PAINT | APP_MINESWEEPER

definition MAX_STACK :: nat where "MAX_STACK = 8"
definition FM_MAX_NAMES :: nat where "FM_MAX_NAMES = 32"
definition MS_CSZ :: int where "MS_CSZ = 14"
definition CELL :: int where "CELL = 6"
definition MOUSE_BTN_LEFT :: u8 where "MOUSE_BTN_LEFT = 1"
definition MOUSE_BTN_RIGHT :: u8 where "MOUSE_BTN_RIGHT = 2"

record clock =
  clk_mode :: int
  clk_sw_start :: u32
  clk_sw_acc :: u32
  clk_sw_running :: bool
  clk_timer_deadline :: u32
  clk_timer_active :: bool
  clk_digits :: string
  clk_alarm_at :: u32
  clk_alarm_armed :: bool

record gui =
  g_stack :: "app_id list"
  g_mx :: int
  g_my :: int
  g_prev_btn :: u8
  pm_sel :: int
  fm_cwd :: string
  fm_names :: "string list"
  fm_sel :: nat
  g_calc :: calc
  g_note :: note_st
  g_clk :: clock
  g_snake :: snake
  g_paint :: paint
  g_ms :: mines
  g_fs :: fs
  g_kbd :: kbd
  g_mouse :: mouse

section \<open>The window stack\<close>

definition stack_push :: "app_id \<Rightarrow> gui \<Rightarrow> gui" where
  "stack_push a g = (if length (g_stack g) < MAX_STACK then g\<lparr>g_stack := g_stack g @ [a]\<rparr> else g)"

definition stack_pop :: "gui \<Rightarrow> gui" where
  "stack_pop g = g\<lparr>g_stack := butlast (g_stack g)\<rparr>"

definition stack_top :: "gui \<Rightarrow> app_id" where
  "stack_top g = (if g_stack g = [] then APP_NONE else last (g_stack g))"

section \<open>The File Manager\<close>

text \<open>The joined path; \<open>None\<close> when its terminator is stored behind the array.\<close>

definition path_join :: "string \<Rightarrow> string \<Rightarrow> bool \<Rightarrow> string option" where
  "path_join c name strip_slash =
     (let out = take (FS_PATH_MAX - 1) c;
          out = (if out = [] \<or> last out \<noteq> CHR ''/'' then out @ ''/'' else out);
          out = out @ take (FS_PATH_MAX - 1 - length out) (if strip_slash then takeWhile (\<lambda>ch. ch \<noteq> CHR ''/'') name else name);
          out = (if strip_slash \<and> out \<noteq> [] \<and> last out = CHR ''/'' then butlast out else out)
      in if length out < FS_PATH_MAX then Some out else None)"

text \<open>The loop that splits the listing at spaces, with room for \<open>n\<close> names of up to 35 characters.\<close>

fun fm_split :: "nat \<Rightarrow> string \<Rightarrow> string list" where
  "fm_split 0 p = []"
| "fm_split (Suc n) p =
     (let p = dropWhile (\<lambda>c. c = CHR '' '') p
      in if p = [] then []
         else let name = take (FS_NAME_MAX + 4 - 1) (takeWhile (\<lambda>c. c \<noteq> CHR '' '') p)
           in name # fm_split n (drop (length name) p))"

definition fm_refresh :: "gui \<Rightarrow> gui option" where
  "fm_refresh g = do {
     c \<leftarrow> fs_get_cwd FS_PATH_MAX (g_fs g);
     let g = g\<lparr>fm_cwd := c\<rparr>;
     let (r, listbuf) = fs_list [] 512 (g_fs g);
     Some (if r \<noteq> 0 then g\<lparr>fm_names := []\<rparr> else g\<lparr>fm_names := fm_split FM_MAX_NAMES listbuf\<rparr>)
   }"

definition fm_parent :: "gui \<Rightarrow> gui option" where
  "fm_parent g =
     (if length (fm_cwd g) \<le> 1 then Some g
      else
        let up = rev (dropWhile (\<lambda>c. c \<noteq> CHR ''/'') (rev (fm_cwd g)));
            up = (if up = [] then take 1 (fm_cwd g) else up);
            g = g\<lparr>fm_cwd := up, g_fs := snd (fs_chdir up (g_fs g))\<rparr>
        in do { g \<leftarrow> fm_refresh g; Some (g\<lparr>fm_sel := 0\<rparr>) })"

definition fm_open_sel :: "gui \<Rightarrow> gui option" where
  "fm_open_sel g =
     (if fm_sel g \<ge> length (fm_names g) then Some g
      else let name = fm_names g ! fm_sel g in
        if name \<noteq> [] \<and> last name = CHR ''/'' then do {
          path \<leftarrow> path_join (fm_cwd g) name True;
          let (r, f) = fs_chdir path (g_fs g);
          let g = g\<lparr>g_fs := f\<rparr>;
          (if r = 0 then do { g \<leftarrow> fm_refresh g; Some (g\<lparr>fm_sel := 0\<rparr>) } else Some g)
        } else do {
          path \<leftarrow> path_join (fm_cwd g) name False;
          n \<leftarrow> note_open path (g_note g) (g_fs g);
          Some (stack_push APP_NOTEPAD (g\<lparr>g_note := n\<rparr>))
        })"

definition fm_key :: "u8 \<Rightarrow> gui \<Rightarrow> gui option" where
  "fm_key c g =
     (if c = 9 then Some (if length (fm_names g) > 0 then g\<lparr>fm_sel := (fm_sel g + 1) mod length (fm_names g)\<rparr> else g)
      else if c = 117 \<or> c = 85 then fm_parent g
      else if c = 10 \<or> c = 13 then fm_open_sel g
      else Some g)"

section \<open>The clock\<close>

definition clk_digits_append :: "u8 \<Rightarrow> clock \<Rightarrow> clock" where
  "clk_digits_append d k = (if length (clk_digits k) < 8 - 1 then k\<lparr>clk_digits := clk_digits k @ [byte_char d]\<rparr> else k)"

fun clk_seconds :: "u32 \<Rightarrow> string \<Rightarrow> u32" where
  "clk_seconds sec [] = sec"
| "clk_seconds sec (c # cs) = clk_seconds (sec * 10 + (of_char c - 48)) cs"

text \<open>The part of the modes 2 and 3 that types a number.\<close>

definition clk_type :: "u8 \<Rightarrow> clock \<Rightarrow> clock" where
  "clk_type c k =
     (let k = (if c \<ge> 48 \<and> c \<le> 57 then clk_digits_append c k else k)
      in if c = 8 \<and> length (clk_digits k) > 0 then k\<lparr>clk_digits := butlast (clk_digits k)\<rparr> else k)"

definition clk_key :: "u8 \<Rightarrow> u32 \<Rightarrow> clock \<Rightarrow> clock" where
  "clk_key c now k =
     (if c = 49 then k\<lparr>clk_mode := 0\<rparr>
      else if c = 50 then k\<lparr>clk_mode := 1\<rparr>
      else if c = 51 then k\<lparr>clk_mode := 2, clk_timer_active := False, clk_digits := []\<rparr>
      else if c = 52 then k\<lparr>clk_mode := 3, clk_alarm_armed := False, clk_digits := []\<rparr>
      else if clk_mode k = 1 then
        (let k = (if c = 115 \<or> c = 83 then
                    (if clk_sw_running k then k\<lparr>clk_sw_acc := clk_sw_acc k + (now - clk_sw_start k), clk_sw_running := False\<rparr>
                     else k\<lparr>clk_sw_start := now, clk_sw_running := True\<rparr>)
                  else k)
         in if c = 114 \<or> c = 82 then k\<lparr>clk_sw_acc := 0, clk_sw_running := False\<rparr> else k)
      else if clk_mode k = 2 then
        (let k = clk_type c k
         in if c = 10 \<or> c = 13 then
              k\<lparr>clk_timer_deadline := now + clk_seconds 0 (clk_digits k) * 1000, clk_timer_active := True\<rparr> else k)
      else if clk_mode k = 3 then
        (let k = clk_type c k
         in if c = 10 \<or> c = 13 then
              k\<lparr>clk_alarm_at := now + clk_seconds 0 (clk_digits k) * 1000, clk_alarm_armed := True\<rparr> else k)
      else k)"

section \<open>The Program Manager\<close>

definition launch_from_pm :: "int \<Rightarrow> u32 \<Rightarrow> gui \<Rightarrow> gui option" where
  "launch_from_pm row now g =
     (if row < 0 \<or> row > 6 then Some g
      else let g = g\<lparr>pm_sel := row\<rparr> in
        if row = 0 then do { g \<leftarrow> fm_refresh g; Some (stack_push APP_FILE_MANAGER g) }
        else if row = 1 then Some (stack_push APP_CALCULATOR (g\<lparr>g_calc := calc_reset (g_calc g)\<rparr>))
        else if row = 2 then
          Some (stack_push APP_NOTEPAD
            (if note_path (g_note g) = [] then
               g\<lparr>g_note := (g_note g)\<lparr>note_buf := (note_buf (g_note g))[0 := 0], note_len := 0, note_cursor := 0,
                   note_path := take (FS_PATH_MAX - 1) ''/NOTE.TXT''\<rparr>\<rparr>
             else g))
        else if row = 3 then Some (stack_push APP_CLOCK (g\<lparr>g_clk := (g_clk g)\<lparr>clk_mode := 0, clk_digits := []\<rparr>\<rparr>))
        else if row = 4 then Some (stack_push APP_SNAKE (g\<lparr>g_snake := snake_reset now (g_snake g)\<rparr>))
        else if row = 5 then Some (stack_push APP_PAINT (g\<lparr>g_paint := paint_init (g_paint g)\<rparr>))
        else Some (stack_push APP_MINESWEEPER (g\<lparr>g_ms := minesweeper_init now (g_ms g)\<rparr>)))"

section \<open>Keys\<close>

text \<open>The result is whether the desktop ends, and the state.\<close>

definition handle_key :: "u8 \<Rightarrow> u32 \<Rightarrow> gui \<Rightarrow> (bool \<times> gui) option" where
  "handle_key c now g =
     (if c = 27 then Some (if length (g_stack g) \<le> 1 then (True, g) else (False, stack_pop g))
      else if c = 96 then Some (False, (stack_push APP_PROGRAM_MANAGER (g\<lparr>g_stack := []\<rparr>))\<lparr>pm_sel := 0\<rparr>)
      else case stack_top g of
        APP_FILE_MANAGER \<Rightarrow> do { g \<leftarrow> fm_key c g; Some (False, g) }
      | APP_CALCULATOR \<Rightarrow> do { k \<leftarrow> calc_key_char c (g_calc g); Some (False, g\<lparr>g_calc := k\<rparr>) }
      | APP_NOTEPAD \<Rightarrow> do { (n, f) \<leftarrow> note_key c (g_note g) (g_fs g); Some (False, g\<lparr>g_note := n, g_fs := f\<rparr>) }
      | APP_CLOCK \<Rightarrow> Some (False, g\<lparr>g_clk := clk_key c now (g_clk g)\<rparr>)
      | APP_SNAKE \<Rightarrow> Some (False, g\<lparr>g_snake := snake_key c now (g_snake g)\<rparr>)
      | APP_PAINT \<Rightarrow> Some (False, if c = 99 \<or> c = 67 then g\<lparr>g_paint := paint_clear_canvas (g_paint g)\<rparr> else g)
      | APP_MINESWEEPER \<Rightarrow> Some (False, if c = 114 \<or> c = 82 then g\<lparr>g_ms := minesweeper_new_game (g_ms g)\<rparr> else g)
      | APP_PROGRAM_MANAGER \<Rightarrow>
          (if c \<ge> 49 \<and> c \<le> 55 then do { g \<leftarrow> launch_from_pm (int (unat (c - 49))) now g; Some (False, g) }
           else Some (False, g))
      | APP_NONE \<Rightarrow> Some (False, g))"

section \<open>The mouse\<close>

definition win_offset :: "int \<Rightarrow> int \<times> int" where
  "win_offset z = (12 + z * 10, 16 + z * 8)"

definition paint_handle_mouse :: "int \<Rightarrow> int \<Rightarrow> u8 \<Rightarrow> u8 \<Rightarrow> gui \<Rightarrow> gui option" where
  "paint_handle_mouse mx my btn prev_btn g =
     (if stack_top g \<noteq> APP_PAINT then Some g
      else
        let z = int (length (g_stack g)) - 1; wx = 12 + z * 10; wy = 16 + z * 8; ww = 280; wh = 168; p = g_paint g
        in if \<not> gui_draw_hit mx my wx wy ww wh then
             Some (if btn AND MOUSE_BTN_LEFT = 0 then g\<lparr>g_paint := p\<lparr>paint_stroke := False\<rparr>\<rparr> else g)
           else
             let cx0 = wx + 8; cy0 = wy + 18 + PAINT_TOOLBAR_H; pal_y = cy0 + PAINT_CH + 4
             in if btn AND MOUSE_BTN_LEFT \<noteq> 0 then
                  if gui_draw_hit mx my (wx + 8) (wy + 18) 44 14 then Some (g\<lparr>g_paint := paint_clear_canvas p\<rparr>)
                  else if gui_draw_hit mx my (wx + 56) (wy + 18) 44 14 then Some (g\<lparr>g_paint := p\<lparr>paint_tool := 0\<rparr>\<rparr>)
                  else if gui_draw_hit mx my (wx + 104) (wy + 18) 44 14 then Some (g\<lparr>g_paint := p\<lparr>paint_tool := 1\<rparr>\<rparr>)
                  else case find (\<lambda>i. gui_draw_hit mx my (wx + 8 + i * 16) pal_y 14 14) [0..15] of
                    Some i \<Rightarrow> Some (g\<lparr>g_paint := p\<lparr>paint_color := of_int i\<rparr>\<rparr>)
                  | None \<Rightarrow>
                      if gui_draw_hit mx my cx0 cy0 PAINT_CW PAINT_CH then
                        let cx = mx - cx0; cy = my - cy0; col = (if paint_tool p \<noteq> 0 then GUI_C_WHITE else paint_color p)
                        in do {
                          cv \<leftarrow> (if prev_btn AND MOUSE_BTN_LEFT \<noteq> 0 \<and> paint_stroke p
                                then paint_line (paint_lx p) (paint_ly p) cx cy col (paint_canvas p)
                                else Some (paint_plot cx cy col (paint_canvas p)));
                          Some (g\<lparr>g_paint := p\<lparr>paint_canvas := cv, paint_lx := cx, paint_ly := cy, paint_stroke := True\<rparr>\<rparr>)
                        }
                      else Some g
                else Some (g\<lparr>g_paint := p\<lparr>paint_stroke := False\<rparr>\<rparr>))"

text \<open>The cell of the minesweeper grid below a point of its window, if the point is on the grid.\<close>

definition ms_cell_under :: "int \<Rightarrow> int \<Rightarrow> int \<Rightarrow> int \<Rightarrow> (int \<times> int) option" where
  "ms_cell_under px py wx wy =
     (let gx = wx + 8; gy = wy + 34
      in if gui_draw_hit px py gx gy (MS_COLS * MS_CSZ) (MS_ROWS * MS_CSZ)
         then Some ((px - gx) sdiv MS_CSZ, (py - gy) sdiv MS_CSZ) else None)"

definition calc_button_under :: "int \<Rightarrow> int \<Rightarrow> int \<Rightarrow> int \<Rightarrow> u8 option" where
  "calc_button_under px py wx wy =
     (case find (\<lambda>(r, c). gui_draw_hit px py (wx + 8 + c * 46) (wy + 36 + r * 16) 36 14) (List.product [0..3] [0..3]) of
        Some (r, c) \<Rightarrow> Some (of_char (''789/456*123-0.=+'' ! nat (r * 4 + c)))
      | None \<Rightarrow> if gui_draw_hit px py (wx + 8) (wy + 36 + 4 * 16) 80 14 then Some (of_char (CHR ''C'')) else None)"

definition handle_mouse_click :: "int \<Rightarrow> int \<Rightarrow> u32 \<Rightarrow> gui \<Rightarrow> gui option" where
  "handle_mouse_click px py now g =
     (let z = int (length (g_stack g)) - 1
      in if z < 0 then Some g
         else let (wx, wy) = win_offset z in
           case last (g_stack g) of
             APP_PROGRAM_MANAGER \<Rightarrow>
               (let ww = 220; wh = 170
                in if \<not> gui_draw_hit px py wx wy ww wh then Some g
                   else if \<not> gui_draw_hit px py (wx + 8) (wy + 18) (ww - 16) 150 then Some g
                   else let rel = py - (wy + 18)
                     in if rel < 0 then Some g
                        else let row = rel sdiv 20
                          in if row < 0 \<or> row \<ge> 7 then Some g else launch_from_pm row now g)
           | APP_MINESWEEPER \<Rightarrow>
               (let ww = 8 + MS_COLS * MS_CSZ + 8; wh = 34 + MS_ROWS * MS_CSZ + 22
                in if \<not> gui_draw_hit px py wx wy ww wh then Some g
                   else if gui_draw_hit px py (wx + 8) (wy + 18) 52 14 then Some (g\<lparr>g_ms := minesweeper_new_game (g_ms g)\<rparr>)
                   else case ms_cell_under px py wx wy of
                     Some (cx, cy) \<Rightarrow> do { m \<leftarrow> minesweeper_left_cell cx cy (g_ms g); Some (g\<lparr>g_ms := m\<rparr>) }
                   | None \<Rightarrow> Some g)
           | APP_CALCULATOR \<Rightarrow>
               (case calc_button_under px py wx wy of
                  Some k \<Rightarrow> do { c \<leftarrow> calc_key_char k (g_calc g); Some (g\<lparr>g_calc := c\<rparr>) }
                | None \<Rightarrow> Some g)
           | _ \<Rightarrow> Some g)"

definition handle_mouse_right_click :: "int \<Rightarrow> int \<Rightarrow> gui \<Rightarrow> gui" where
  "handle_mouse_right_click px py g =
     (let z = int (length (g_stack g)) - 1
      in if z < 0 then g
         else let (wx, wy) = win_offset z in
           if last (g_stack g) \<noteq> APP_MINESWEEPER then g
           else let ww = 8 + MS_COLS * MS_CSZ + 8; wh = 34 + MS_ROWS * MS_CSZ + 22
             in if \<not> gui_draw_hit px py wx wy ww wh then g
                else case ms_cell_under px py wx wy of
                  Some (cx, cy) \<Rightarrow> g\<lparr>g_ms := minesweeper_right_cell cx cy (g_ms g)\<rparr>
                | None \<Rightarrow> g)"

section \<open>One round of \<open>gui_run\<close>\<close>

definition gui_start :: "u8 \<Rightarrow> u32 \<Rightarrow> gui \<Rightarrow> gui option" where
  "gui_start cfg now g = do {
     let g = g\<lparr>g_mouse := snd (mouse_init cfg (g_mouse g)), g_mx := 160, g_my := 100, g_prev_btn := 0\<rparr>;
     let g = (stack_push APP_PROGRAM_MANAGER (g\<lparr>g_stack := []\<rparr>))\<lparr>pm_sel := 0\<rparr>;
     g \<leftarrow> fm_refresh g;
     Some (g\<lparr>g_calc := calc_reset (g_calc g),
       g_note := (g_note g)\<lparr>note_buf := (note_buf (g_note g))[0 := 0], note_len := 0, note_cursor := 0, note_path := []\<rparr>,
       g_clk := (g_clk g)\<lparr>clk_mode := 0, clk_sw_running := False, clk_sw_acc := 0, clk_timer_active := False,
         clk_digits := [], clk_alarm_armed := False\<rparr>,
       g_snake := snake_reset now (g_snake g), g_paint := paint_init (g_paint g), g_ms := minesweeper_init now (g_ms g)\<rparr>)
   }"

partial_function (option) gui_keys :: "u32 \<Rightarrow> gui \<Rightarrow> (bool \<times> gui) option" where
  "gui_keys now g =
     (let (key, k) = keyboard_getchar (g_kbd g); g = g\<lparr>g_kbd := k\<rparr>
      in if key = 0 then Some (False, g)
         else do {
           (quit, g) \<leftarrow> handle_key key now g;
           if quit then Some (True, g) else gui_keys now g
         })"

definition gui_round :: "u8 list \<Rightarrow> u32 \<Rightarrow> gui \<Rightarrow> (bool \<times> gui) option" where
  "gui_round pending now g = do {
     let g = (if stack_top g = APP_SNAKE then g\<lparr>g_snake := snake_tick now (g_snake g)\<rparr> else g);
     let ((dx, dy, btn), m) = mouse_poll pending (g_mouse g);
     let mx = g_mx g + dx;
     let my = g_my g + dy;
     let mx = (if mx < 0 then 0 else mx);
     let mx = (if mx \<ge> GUI_FB_W then GUI_FB_W - 1 else mx);
     let my = (if my < 0 then 0 else my);
     let my = (if my \<ge> GUI_FB_H then GUI_FB_H - 1 else my);
     (quit, g) \<leftarrow> gui_keys now (g\<lparr>g_mouse := m, g_mx := mx, g_my := my\<rparr>);
     if quit then Some (True, g)
     else do {
       g \<leftarrow> paint_handle_mouse mx my btn (g_prev_btn g) g;
       g \<leftarrow> (if btn AND MOUSE_BTN_LEFT \<noteq> 0 \<and> g_prev_btn g AND MOUSE_BTN_LEFT = 0 then handle_mouse_click mx my now g else Some g);
       let g = (if btn AND MOUSE_BTN_RIGHT \<noteq> 0 \<and> g_prev_btn g AND MOUSE_BTN_RIGHT = 0 then handle_mouse_right_click mx my g else g);
       Some (False, g\<lparr>g_prev_btn := btn\<rparr>)
     }
   }"

end
