(* ===== verification/Deskinv.thy ===== *)
theory Deskinv
  imports Desktop
begin

text \<open>
  What every state of the desktop satisfies, whatever keys are pressed and wherever the mouse is moved
  and clicked: \<open>gui_inv\<close>, the conjunction of the invariants of the applications and of the bounds of
  the window stack and the arrays of the File Manager and the clock.
\<close>

definition paint_inv :: "paint \<Rightarrow> bool" where
  "paint_inv p \<longleftrightarrow> length (paint_canvas p) = 17600"

definition clk_inv :: "clock \<Rightarrow> bool" where
  "clk_inv k \<longleftrightarrow> length (clk_digits k) < 8 \<and> clk_mode k \<in> {0, 1, 2, 3}"

definition calc_inv :: "calc \<Rightarrow> bool" where
  "calc_inv s \<longleftrightarrow> length (calc_disp s) < CALC_MAX \<and> - (2 ^ 63) \<le> calc_acc s \<and> calc_acc s < 2 ^ 63"

definition mouse_inv :: "mouse \<Rightarrow> bool" where
  "mouse_inv m \<longleftrightarrow> length (mouse_buf m) = 3 \<and> mouse_phase m \<le> 2"

definition fm_inv :: "gui \<Rightarrow> bool" where
  "fm_inv g \<longleftrightarrow> length (fm_cwd g) < FS_PATH_MAX \<and> length (fm_names g) \<le> FM_MAX_NAMES
     \<and> (\<forall>n \<in> set (fm_names g). length n < FS_NAME_MAX + 4)"

definition stack_inv :: "gui \<Rightarrow> bool" where
  "stack_inv g \<longleftrightarrow> length (g_stack g) \<le> MAX_STACK \<and> g_stack g \<noteq> [] \<and> hd (g_stack g) = APP_PROGRAM_MANAGER"

definition apps_inv :: "gui \<Rightarrow> bool" where
  "apps_inv g \<longleftrightarrow> calc_inv (g_calc g) \<and> note_inv (g_note g) \<and> clk_inv (g_clk g) \<and> snake_inv (g_snake g)
     \<and> paint_inv (g_paint g) \<and> mines_inv (g_ms g) \<and> mouse_inv (g_mouse g) \<and> fs_reach (g_fs g)
     \<and> kbd_inv (g_kbd g)"

definition gui_inv :: "gui \<Rightarrow> bool" where
  "gui_inv g \<longleftrightarrow> stack_inv g \<and> fm_inv g \<and> apps_inv g \<and> on_screen (g_mx g) (g_my g)"

lemma gui_inv_fields [simp]:
  "gui_inv (g\<lparr>pm_sel := s\<rparr>) = gui_inv g" "gui_inv (g\<lparr>fm_sel := i\<rparr>) = gui_inv g"
  "gui_inv (g\<lparr>g_prev_btn := b\<rparr>) = gui_inv g"
  by (simp_all add: gui_inv_def stack_inv_def fm_inv_def apps_inv_def)

lemma gui_inv_app [simp]:
  assumes "gui_inv g"
  shows "gui_inv (g\<lparr>g_calc := c\<rparr>) = calc_inv c" "gui_inv (g\<lparr>g_note := n\<rparr>) = note_inv n"
    "gui_inv (g\<lparr>g_clk := k\<rparr>) = clk_inv k" "gui_inv (g\<lparr>g_snake := s\<rparr>) = snake_inv s"
    "gui_inv (g\<lparr>g_paint := p\<rparr>) = paint_inv p" "gui_inv (g\<lparr>g_ms := m\<rparr>) = mines_inv m"
    "gui_inv (g\<lparr>g_mouse := ms\<rparr>) = mouse_inv ms" "gui_inv (g\<lparr>g_fs := f\<rparr>) = fs_reach f"
    "gui_inv (g\<lparr>g_kbd := kb\<rparr>) = kbd_inv kb"
  using assms by (auto simp: gui_inv_def stack_inv_def fm_inv_def apps_inv_def)

lemma gui_inv_apps: "gui_inv g \<Longrightarrow> apps_inv g"
  by (simp add: gui_inv_def)

section \<open>The window stack\<close>

lemma gui_inv_push: "gui_inv g \<Longrightarrow> gui_inv (stack_push a g)"
  by (auto simp: stack_push_def gui_inv_def stack_inv_def fm_inv_def apps_inv_def)

lemma gui_inv_pop: "gui_inv g \<Longrightarrow> length (g_stack g) > 1 \<Longrightarrow> gui_inv (stack_pop g)"
  by (cases "g_stack g" rule: list.exhaust)
     (auto simp: stack_pop_def gui_inv_def stack_inv_def fm_inv_def apps_inv_def)

lemma gui_inv_restart: "gui_inv g \<Longrightarrow> gui_inv ((stack_push APP_PROGRAM_MANAGER (g\<lparr>g_stack := []\<rparr>))\<lparr>pm_sel := 0\<rparr>)"
  by (simp add: stack_push_def MAX_STACK_def gui_inv_def stack_inv_def fm_inv_def apps_inv_def)

section \<open>The File Manager\<close>

lemma fm_split_bounds: "length (fm_split n p) \<le> n \<and> (\<forall>w \<in> set (fm_split n p). length w < FS_NAME_MAX + 4)"
  by (induction n p rule: fm_split.induct) (auto simp: Let_def FS_NAME_MAX_def)

lemma fs_get_cwd_length:
  assumes "fs_get_cwd FS_PATH_MAX f = Some c"
  shows "length c < FS_PATH_MAX"
proof -
  have "length (cwd_build f 127 st ''/'') \<le> 127" for st
    by (rule cwd_build_length) simp
  then have "length (cwd_build f 127 st ''/'') < 128" for st
    by (rule le_less_trans) simp
  then show ?thesis
    using assms by (auto simp: fs_get_cwd_def FS_PATH_MAX_def split: if_splits option.splits)
qed

lemma gui_inv_refresh:
  assumes "gui_inv g" and "fm_refresh g = Some g'"
  shows "gui_inv g'"
proof -
  obtain c where c: "fs_get_cwd FS_PATH_MAX (g_fs g) = Some c" using assms(2) by (auto simp: fm_refresh_def bind_eq_Some_conv)
  have "gui_inv (g\<lparr>fm_cwd := c, fm_names := ns\<rparr>)" if "length ns \<le> FM_MAX_NAMES" "\<forall>n \<in> set ns. length n < FS_NAME_MAX + 4" for ns
    using assms(1) fs_get_cwd_length [OF c] that by (simp add: gui_inv_def stack_inv_def fm_inv_def apps_inv_def)
  from this [of "[]"] this [OF conjunct1 conjunct2, OF fm_split_bounds fm_split_bounds] assms(2) c show ?thesis
    by (auto simp: fm_refresh_def Let_def split: prod.splits if_splits)
qed

lemma fs_reach_chdir: "fs_reach f \<Longrightarrow> fs_reach (snd (fs_chdir p f))"
  by (rule fs_reach.chdir)

lemma fm_parent_eq:
  assumes "\<not> length (fm_cwd g) \<le> 1"
  shows "\<exists>u. length u \<le> length (fm_cwd g)
    \<and> fm_parent g = fm_refresh (g\<lparr>fm_cwd := u, g_fs := snd (fs_chdir u (g_fs g))\<rparr>) \<bind> (\<lambda>g. Some (g\<lparr>fm_sel := 0\<rparr>))"
proof -
  define up where "up = rev (dropWhile (\<lambda>c. c \<noteq> CHR ''/'') (rev (fm_cwd g)))"
  define u where "u = (if up = [] then take 1 (fm_cwd g) else up)"
  have "length u \<le> length (fm_cwd g)"
    using length_dropWhile_le [of "\<lambda>c. c \<noteq> CHR ''/''" "rev (fm_cwd g)"] by (simp add: u_def up_def)
  moreover have "fm_parent g = fm_refresh (g\<lparr>fm_cwd := u, g_fs := snd (fs_chdir u (g_fs g))\<rparr>) \<bind> (\<lambda>g. Some (g\<lparr>fm_sel := 0\<rparr>))"
    unfolding fm_parent_def if_not_P [OF assms] Let_def up_def [symmetric] u_def [symmetric] by (rule refl)
  ultimately show ?thesis by blast
qed

lemma gui_inv_parent:
  assumes "gui_inv g" and "fm_parent g = Some g'"
  shows "gui_inv g'"
proof (cases "length (fm_cwd g) \<le> 1")
  case True
  with assms show ?thesis by (simp add: fm_parent_def)
next
  case False
  then obtain u where u: "length u \<le> length (fm_cwd g)"
    and e: "fm_parent g = fm_refresh (g\<lparr>fm_cwd := u, g_fs := snd (fs_chdir u (g_fs g))\<rparr>) \<bind> (\<lambda>g. Some (g\<lparr>fm_sel := 0\<rparr>))"
    using fm_parent_eq by blast
  have "gui_inv (g\<lparr>fm_cwd := u, g_fs := snd (fs_chdir u (g_fs g))\<rparr>)"
    using assms(1) u by (simp add: gui_inv_def stack_inv_def fm_inv_def apps_inv_def fs_reach_chdir)
  with assms(2) e gui_inv_refresh show ?thesis by (auto simp: bind_eq_Some_conv)
qed

lemma gui_inv_open:
  assumes "gui_inv g" and "fm_open_sel g = Some g'"
  shows "gui_inv g'"
proof (cases "fm_sel g \<ge> length (fm_names g)")
  case True
  with assms show ?thesis by (simp add: fm_open_sel_def)
next
  case False
  have n: "note_inv (g_note g)" "fs_reach (g_fs g)" using assms(1) by (simp_all add: gui_inv_def apps_inv_def)
  define name where "name = fm_names g ! fm_sel g"
  note eq = assms(2) [unfolded fm_open_sel_def if_not_P [OF False] Let_def name_def [symmetric]]
  show ?thesis
  proof (cases "name \<noteq> [] \<and> last name = CHR ''/''")
    case True
    obtain p where P: "path_join (fm_cwd g) name True = Some p" using eq [unfolded if_P [OF True]] by (auto simp: bind_eq_Some_conv)
    obtain r f where p: "fs_chdir p (g_fs g) = (r, f)" by fastforce
    have q: "(if r = 0 then do { g \<leftarrow> fm_refresh (g\<lparr>g_fs := f\<rparr>); Some (g\<lparr>fm_sel := 0\<rparr>) } else Some (g\<lparr>g_fs := f\<rparr>)) = Some g'"
      using eq [unfolded if_P [OF True] P] by (simp add: p)
    have "gui_inv (g\<lparr>g_fs := f\<rparr>)" using assms(1) fs_reach_chdir [OF n(2), of p] p by simp
    with q gui_inv_refresh [of "g\<lparr>g_fs := f\<rparr>"] show ?thesis
      by (auto simp: bind_eq_Some_conv split: if_splits simp del: gui_inv_app)
  next
    case False
    obtain p k where k: "note_open p (g_note g) (g_fs g) = Some k" and g': "g' = stack_push APP_NOTEPAD (g\<lparr>g_note := k\<rparr>)"
      using eq [unfolded if_not_P [OF False]] by (auto simp: bind_eq_Some_conv)
    show ?thesis unfolding g' by (rule gui_inv_push) (use assms(1) note_open_inv [OF n(1) k] in simp)
  qed
qed

lemma if_eqE: "(if b then x else y) = z \<Longrightarrow> (b \<Longrightarrow> x = z \<Longrightarrow> R) \<Longrightarrow> (\<not> b \<Longrightarrow> y = z \<Longrightarrow> R) \<Longrightarrow> R"
  by (cases b) simp_all

lemma gui_inv_fm_key:
  assumes "gui_inv g" and "fm_key c g = Some g'"
  shows "gui_inv g'"
proof -
  have P: "gui_inv g'" if "fm_parent g = Some g'" by (rule gui_inv_parent [OF assms(1) that])
  have O: "gui_inv g'" if "fm_open_sel g = Some g'" by (rule gui_inv_open [OF assms(1) that])
  have S: "gui_inv g'" if "Some (if b then g\<lparr>fm_sel := i\<rparr> else g) = Some g'" for b i
    using that assms(1) by (cases b) auto
  have I: "gui_inv g'" if "Some g = Some g'" using that assms(1) by simp
  show ?thesis
    using assms(2) unfolding fm_key_def by (elim if_eqE) (rule S P O I, assumption)+
qed

section \<open>The applications\<close>

lemma parse_digits_range: "parse_digits v cs = Some w \<Longrightarrow> 0 \<le> v \<Longrightarrow> v < 2 ^ 63 \<Longrightarrow> 0 \<le> w \<and> w < 2 ^ 63"
proof (induction v cs rule: parse_digits.induct)
  case (2 v c cs)
  show ?case
  proof (cases "is_digit c")
    case True
    with 2 digit_of_range [OF True] show ?thesis by (auto simp: bind_eq_Some_conv ll_def split: if_splits)
  qed (use 2 in simp)
qed simp

lemma calc_parse_range:
  assumes "calc_parse_int s = Some v"
  shows "- (2 ^ 63) \<le> v \<and> v < 2 ^ 63"
proof -
  obtain cs w where "parse_digits 0 cs = Some w" "v = w \<or> v = - w"
    using assms by (auto simp: calc_parse_int_def Let_def bind_eq_Some_conv split: if_splits)
  with parse_digits_range [of 0 cs w] show ?thesis by auto
qed

lemma calc_fmt_inv:
  assumes "calc_fmt_ll v s = Some s'" and "- (2 ^ 63) \<le> v" and "v < 2 ^ 63" and "calc_acc s = v"
  shows "calc_inv s'"
proof -
  have v: "\<bar>v\<bar> < 2 ^ 63" using assms(1-3) by (auto simp: calc_fmt_ll_def ll_def Let_def bind_eq_Some_conv split: if_splits)
  with assms calc_fmt_shown [OF v, of s] shown_length [OF v] show ?thesis by (auto simp: calc_inv_def)
qed

lemma ll_range: "ll v = Some w \<Longrightarrow> - (2 ^ 63) \<le> w \<and> w < 2 ^ 63"
  by (auto simp: ll_def split: if_splits)

lemma calc_inv_apply:
  assumes "calc_inv s" and "calc_apply s = Some s'"
  shows "calc_inv s'"
proof -
  obtain v where p: "calc_parse_int s = Some v" using assms(2) by (auto simp: calc_apply_def bind_eq_Some_conv)
  note v = calc_parse_range [OF p]
  have a: "- (2 ^ 63) \<le> calc_acc s" "calc_acc s < 2 ^ 63" using assms(1) by (simp_all add: calc_inv_def)
  consider "\<not> calc_have_acc s" | "calc_have_acc s" "calc_op s = 0" | "calc_have_acc s" "calc_op s \<noteq> 0" by blast
  then show ?thesis
  proof cases
    case 1
    with assms p v show ?thesis by (auto simp: calc_apply_def calc_inv_def)
  next
    case 2
    with assms(2) p calc_fmt_inv [of v "s\<lparr>calc_acc := v\<rparr>" s'] v show ?thesis by (simp add: calc_apply_def)
  next
    case 3
    obtain acc where q: "calc_fmt_ll acc (s\<lparr>calc_acc := acc\<rparr>) = Some s'"
      and r: "(\<exists>w. ll w = Some acc) \<or> acc = calc_acc s"
    proof -
      obtain acc where e: "(if calc_op s = 43 then ll (calc_acc s + v) else if calc_op s = 45 then ll (calc_acc s - v)
          else if calc_op s = 42 then ll (calc_acc s * v)
          else if calc_op s = 47 then (if v \<noteq> 0 then ll (calc_acc s sdiv v) else Some (calc_acc s)) else Some (calc_acc s)) = Some acc"
        and q: "calc_fmt_ll acc (s\<lparr>calc_acc := acc\<rparr>) = Some s'"
        using assms(2) p 3 by (auto simp: calc_apply_def bind_eq_Some_conv)
      show thesis by (rule that [OF q]) (use e in \<open>auto split: if_splits\<close>)
    qed
    have "- (2 ^ 63) \<le> acc \<and> acc < 2 ^ 63" using r ll_range a by blast
    with calc_fmt_inv [OF q] show ?thesis by simp
  qed
qed

lemma calc_inv_key:
  assumes "calc_inv s" and "calc_key_char c s = Some s'"
  shows "calc_inv s'"
proof -
  have f: "calc_inv (t\<lparr>calc_op := k, calc_disp := ''0''\<rparr>)" "calc_inv (t\<lparr>calc_op := k\<rparr>)" if "calc_inv t" for t k
    using that by (simp_all add: calc_inv_def CALC_MAX_def)
  have r: "calc_inv (calc_reset s)" by (simp add: calc_inv_def calc_reset_def CALC_MAX_def)
  have d: "calc_inv (s\<lparr>calc_disp := [x]\<rparr>)" "length (calc_disp s) + 1 < CALC_MAX \<Longrightarrow> calc_inv (s\<lparr>calc_disp := calc_disp s @ [x]\<rparr>)" for x
    using assms(1) by (auto simp: calc_inv_def CALC_MAX_def)
  have a: "calc_inv t" if "calc_apply s = Some t" for t by (rule calc_inv_apply [OF assms(1) that])
  show ?thesis
    using assms unfolding calc_key_char_def Let_def
    by (elim if_eqE) (auto simp: bind_eq_Some_conv f a r d split: if_splits)
qed

lemma note_inv_key:
  assumes "note_inv n" and "fs_reach f" and "note_key c n f = Some (n', f')"
  shows "note_inv n' \<and> fs_reach f'"
proof -
  have s: "fs_reach f'" if "note_save n f = Some f'" for f'
    using that assms(2) fs_reach.store [OF assms(2)] fs_reach.store [OF fs_reach.newfile [OF assms(2)]]
    by (auto simp: note_save_def Let_def bind_eq_Some_conv split: if_splits)
  have l: "note_inv (note_newline n)"
    using note_insert_text(2) [OF assms(1)] assms(1) by (cases "note_len n + 1 < NOTE_BUF") (simp_all add: note_newline_def)
  show ?thesis
    using assms(3,1,2) unfolding note_key_def
    by (elim if_eqE) (auto simp: bind_eq_Some_conv s l note_backspace_text(1) note_insert_text(1))
qed

lemma clk_inv_fields [simp]:
  "clk_inv (k\<lparr>clk_sw_acc := a\<rparr>) = clk_inv k" "clk_inv (k\<lparr>clk_sw_running := r\<rparr>) = clk_inv k"
  "clk_inv (k\<lparr>clk_sw_start := w\<rparr>) = clk_inv k" "clk_inv (k\<lparr>clk_timer_deadline := w\<rparr>) = clk_inv k"
  "clk_inv (k\<lparr>clk_timer_active := r\<rparr>) = clk_inv k" "clk_inv (k\<lparr>clk_alarm_at := w\<rparr>) = clk_inv k"
  "clk_inv (k\<lparr>clk_alarm_armed := r\<rparr>) = clk_inv k"
  by (simp_all add: clk_inv_def)

lemma clk_inv_mode:
  assumes "clk_inv k" and "m \<in> {0, 1, 2, 3}"
  shows "clk_inv (k\<lparr>clk_mode := m\<rparr>)" "clk_inv (k\<lparr>clk_mode := m, clk_digits := []\<rparr>)"
  using assms by (simp_all add: clk_inv_def)

lemma clk_inv_type:
  assumes "clk_inv k"
  shows "clk_inv (clk_type c k)"
proof -
  have "clk_inv (clk_digits_append c k)" using assms by (simp add: clk_digits_append_def clk_inv_def)
  moreover have "clk_inv (k\<lparr>clk_digits := butlast (clk_digits k)\<rparr>)" if "clk_inv k" for k using that by (auto simp: clk_inv_def)
  ultimately show ?thesis using assms by (simp add: clk_type_def Let_def)
qed

lemma clk_inv_key:
  assumes "clk_inv k"
  shows "clk_inv (clk_key c now k)"
proof -
  have m: "clk_inv (k\<lparr>clk_mode := 2, clk_timer_active := False, clk_digits := []\<rparr>)"
    "clk_inv (k\<lparr>clk_mode := 3, clk_alarm_armed := False, clk_digits := []\<rparr>)"
    using assms by (simp_all add: clk_inv_def)
  show ?thesis
    using assms clk_inv_type [OF assms] clk_inv_mode(1) [OF assms] m unfolding clk_key_def Let_def
    by (simp split del: if_split cong: if_cong) (simp split: if_split)
qed

lemma snake_inv_key: "snake_inv s \<Longrightarrow> snake_inv (snake_key c now s)"
  by (auto simp: snake_key_def snake_inv_reset snake_inv_def [of s] intro!: snake_inv_reset)
     (simp_all add: snake_inv_def)

lemma paint_inv_clear: "paint_inv (paint_clear_canvas p)" "paint_inv (paint_init p)"
  by (simp_all add: paint_inv_def paint_init_def paint_clear_canvas_def PAINT_CW_def PAINT_CH_def)

lemma paint_loop_length: "paint_loop x1 y1 dx sx dy sy c x0 y0 err cv = Some cv' \<Longrightarrow> length cv' = length cv"
proof (induction rule: paint_loop.raw_induct [rotated, consumes 1])
  case (1 r x1 y1 dx sx dy sy c x0 y0 err cv cv')
  then show ?case by (fastforce simp: Let_def split: if_splits prod.splits)
qed

lemma mines_inv_new: "mines_inv (minesweeper_new_game g)" "mines_inv (minesweeper_init now g)"
  by (simp_all add: minesweeper_init_def minesweeper_new_game_def Let_def rng_inv clear_board_inv)

lemma mouse_inv_byte: "mouse_inv m \<Longrightarrow> mouse_inv (mouse_byte b m)"
  by (auto simp: mouse_byte_def mouse_inv_def Let_def)

lemma mouse_inv_drain: "mouse_inv m \<Longrightarrow> mouse_inv (mouse_drain bs m)"
  by (induction bs arbitrary: m) (simp_all add: mouse_inv_byte)

lemma paint_inv_line: "length cv = 17600 \<Longrightarrow> paint_line x0 y0 x1 y1 c cv = Some cv' \<Longrightarrow> length cv' = 17600"
  by (auto simp: paint_line_def Let_def dest: paint_loop_length)

lemma paint_inv_fields [simp]:
  "paint_inv (p\<lparr>paint_color := c\<rparr>) = paint_inv p" "paint_inv (p\<lparr>paint_tool := i\<rparr>) = paint_inv p"
  "paint_inv (p\<lparr>paint_stroke := b\<rparr>) = paint_inv p" "paint_inv (p\<lparr>paint_lx := i\<rparr>) = paint_inv p"
  "paint_inv (p\<lparr>paint_ly := i\<rparr>) = paint_inv p"
  by (simp_all add: paint_inv_def)

section \<open>Keys\<close>

lemma gui_inv_launch:
  assumes "gui_inv g" and "launch_from_pm row now g = Some g'"
  shows "gui_inv g'"
proof -
  define h where "h = g\<lparr>pm_sel := row\<rparr>"
  have h: "gui_inv h" using assms(1) by (simp add: h_def)
  have p: "gui_inv x" if "Some (stack_push a y) = Some x" and "gui_inv y" for a x y
    using gui_inv_push [OF that(2), of a] that(1) by simp
  have a: "calc_inv (calc_reset (g_calc h))" "clk_inv ((g_clk h)\<lparr>clk_mode := 0, clk_digits := []\<rparr>)"
    "snake_inv (snake_reset now (g_snake h))"
    "note_inv ((g_note h)\<lparr>note_buf := (note_buf (g_note h))[0 := 0], note_len := 0, note_cursor := 0,
       note_path := take (FS_PATH_MAX - 1) ''/NOTE.TXT''\<rparr>)"
    using gui_inv_apps [OF h]
    by (auto simp: apps_inv_def calc_inv_def calc_reset_def CALC_MAX_def clk_inv_def note_inv_def NOTE_BUF_def
        FS_PATH_MAX_def snake_inv_def [of "g_snake h"] intro: snake_inv_reset)
  have i: "gui_inv x" if "Some g = Some x" for x using that assms(1) by simp
  have r: "gui_inv x" if "do { g \<leftarrow> fm_refresh h; Some (stack_push APP_FILE_MANAGER g) } = Some x" for x
    using that gui_inv_refresh [OF h] p by (auto simp: bind_eq_Some_conv)
  note eq = assms(2) [unfolded launch_from_pm_def Let_def, folded h_def]
  show ?thesis
    using eq
    by (elim if_eqE) (erule i, erule r, (erule p, simp add: h a paint_inv_clear mines_inv_new del: One_nat_def)+)
qed

lemma gui_inv_handle_key:
  assumes "gui_inv g" and "handle_key c now g = Some (q, g')"
  shows "gui_inv g'"
proof -
  have A: "apps_inv g" by (rule gui_inv_apps [OF assms(1)])
  consider (esc) "c = 27" | (home) "c \<noteq> 27" "c = 96" | (app) "c \<noteq> 27" "c \<noteq> 96" by blast
  then show ?thesis
  proof cases
    case esc
    with assms gui_inv_pop [OF assms(1)] show ?thesis by (auto simp: handle_key_def split: if_splits)
  next
    case home
    with assms(2) gui_inv_restart [OF assms(1)] show ?thesis by (auto simp: handle_key_def)
  next
    case app
    note eq = assms(2) [unfolded handle_key_def if_not_P [OF app(1)] if_not_P [OF app(2)]]
    show ?thesis
    proof (cases "stack_top g")
      case APP_PROGRAM_MANAGER
      with eq assms(1) gui_inv_launch [OF assms(1)] show ?thesis by (auto simp: bind_eq_Some_conv split: if_splits)
    next
      case APP_FILE_MANAGER
      with eq gui_inv_fm_key [OF assms(1)] show ?thesis by (auto simp: bind_eq_Some_conv)
    next
      case APP_CALCULATOR
      with eq assms(1) A calc_inv_key show ?thesis by (auto simp: bind_eq_Some_conv apps_inv_def)
    next
      case APP_NOTEPAD
      then obtain n f where k: "note_key c (g_note g) (g_fs g) = Some (n, f)" and g': "g' = g\<lparr>g_note := n, g_fs := f\<rparr>"
        using eq by (auto simp: bind_eq_Some_conv)
      have "note_inv n \<and> fs_reach f" by (rule note_inv_key [OF _ _ k]) (use A in \<open>simp_all add: apps_inv_def\<close>)
      with assms(1) show ?thesis unfolding g' by simp
    next
      case APP_CLOCK
      with eq assms(1) A clk_inv_key show ?thesis by (auto simp: apps_inv_def)
    next
      case APP_SNAKE
      with eq assms(1) A snake_inv_key show ?thesis by (auto simp: apps_inv_def)
    next
      case APP_PAINT
      with eq assms(1) paint_inv_clear show ?thesis by (auto split: if_splits)
    next
      case APP_MINESWEEPER
      with eq assms(1) mines_inv_new show ?thesis by (auto split: if_splits)
    next
      case APP_NONE
      with eq assms(1) show ?thesis by simp
    qed
  qed
qed

section \<open>The mouse\<close>

lemma gui_inv_paint_mouse:
  assumes "gui_inv g" and "paint_handle_mouse mx my btn pb g = Some g'"
  shows "gui_inv g'"
proof -
  have P: "paint_inv (g_paint g)" using gui_inv_apps [OF assms(1)] by (simp add: apps_inv_def)
  have k: "gui_inv x" if "Some (g\<lparr>g_paint := p\<rparr>) = Some x" and "paint_inv p" for p x using that assms(1) by auto
  have i: "gui_inv x" if "Some g = Some x" for x using that assms(1) by simp
  have c: "gui_inv x" if "Some (if b then g\<lparr>g_paint := p\<rparr> else g) = Some x" and "paint_inv p" for b p x
    using that assms(1) by (cases b) auto
  have l: "gui_inv x"
    if "do { cv \<leftarrow> (if b then paint_line x0 y0 x1 y1 col (paint_canvas (g_paint g)) else Some (paint_plot x1 y1 col (paint_canvas (g_paint g))));
             Some (g\<lparr>g_paint := (g_paint g)\<lparr>paint_canvas := cv, paint_lx := x1, paint_ly := y1, paint_stroke := True\<rparr>\<rparr>) } = Some x"
    for b x0 y0 x1 y1 col x
    using that assms(1) P paint_inv_line by (cases b) (auto simp: bind_eq_Some_conv paint_inv_def)
  have f: "R" if "(case z of Some i \<Rightarrow> Some (g\<lparr>g_paint := (g_paint g)\<lparr>paint_color := of_int i\<rparr>\<rparr>) | None \<Rightarrow> y) = Some x"
    and "gui_inv x \<Longrightarrow> R" and "y = Some x \<Longrightarrow> R" for z y x R
    using that k P by (cases z) auto
  show ?thesis
    using assms(2) unfolding paint_handle_mouse_def Let_def
    by (elim if_eqE f) (assumption | erule i | erule l | (erule k c, simp add: P paint_inv_clear))+
qed

lemma mines_inv_left: "gui_inv g \<Longrightarrow> minesweeper_left_cell cx cy (g_ms g) = Some m \<Longrightarrow> mines_inv m"
  using left_cell_inv [of "g_ms g" cx cy] gui_inv_apps [of g] by (auto simp: apps_inv_def)

lemma gui_inv_click:
  assumes "gui_inv g" and "handle_mouse_click px py now g = Some g'"
  shows "gui_inv g'"
proof -
  have i: "gui_inv x" if "Some g = Some x" for x using that assms(1) by simp
  have C: "calc_inv (g_calc g)" using gui_inv_apps [OF assms(1)] by (simp add: apps_inv_def)
  show ?thesis
  proof (cases "g_stack g = []")
    case True
    with assms show ?thesis by (simp add: handle_mouse_click_def)
  next
    case False
    then have z: "\<not> int (length (g_stack g)) - 1 < 0" by (cases "g_stack g") auto
    note eq = assms(2) [unfolded handle_mouse_click_def Let_def if_not_P [OF z] win_offset_def prod.case]
    show ?thesis
    proof (cases "last (g_stack g)")
      case APP_PROGRAM_MANAGER
      with eq show ?thesis
        by simp (elim if_eqE, (erule i | erule gui_inv_launch [OF assms(1)])+)
    next
      case APP_MINESWEEPER
      with eq assms(1) show ?thesis
        by (auto simp: bind_eq_Some_conv mines_inv_new mines_inv_left split: if_splits option.splits)
    next
      case APP_CALCULATOR
      with eq assms(1) show ?thesis
        by (auto simp: bind_eq_Some_conv calc_inv_key [OF C] split: option.splits)
    qed (use eq i in simp_all)
  qed
qed

lemma gui_inv_right_click:
  assumes "gui_inv g"
  shows "gui_inv (handle_mouse_right_click px py g)"
proof -
  have "mines_inv (g_ms g)" using gui_inv_apps [OF assms] by (simp add: apps_inv_def)
  then have "gui_inv (g\<lparr>g_ms := minesweeper_right_cell cx cy (g_ms g)\<rparr>)" for cx cy
    using assms right_cell_inv by simp
  then show ?thesis
    using assms unfolding handle_mouse_right_click_def Let_def by (simp split: prod.split option.split)
qed

section \<open>Rounds\<close>

lemma getchar_inv:
  assumes "kbd_inv k"
  shows "kbd_inv (snd (keyboard_getchar k))"
proof -
  have "scev_inv (snd (keyboard_getchar k))" using assms by (simp add: kbd_inv_def scev_inv_def keyboard_getchar_def)
  moreover have "keybuf_inv (snd (keyboard_getchar k))"
    using char_pop_eq(3) [of k] assms by (simp add: kbd_inv_def char_pop_def split: prod.splits)
  ultimately show ?thesis by (simp add: kbd_inv_def)
qed

lemma gui_inv_keys: "gui_keys now g = Some r \<Longrightarrow> gui_inv g \<Longrightarrow> gui_inv (snd r)"
proof (induction rule: gui_keys.raw_induct [rotated, consumes 1])
  case (1 rec now g r)
  obtain key k where k: "keyboard_getchar (g_kbd g) = (key, k)" by fastforce
  have g: "gui_inv (g\<lparr>g_kbd := k\<rparr>)"
    using 1(3) getchar_inv [of "g_kbd g"] k gui_inv_apps [OF 1(3)] by (simp add: apps_inv_def)
  show ?case
  proof (cases "key = 0")
    case True
    with 1(2) k g show ?thesis by auto
  next
    case False
    with 1(2) k obtain q h where h: "handle_key key now (g\<lparr>g_kbd := k\<rparr>) = Some (q, h)"
      and r: "(if q then Some (True, h) else rec now h) = Some r"
      by (auto simp: bind_eq_Some_conv)
    show ?thesis using r 1(1) [of now h r] gui_inv_handle_key [OF g h] by (auto split: if_splits)
  qed
qed

lemma gui_inv_round:
  assumes "gui_inv g" and "gui_round pending now g = Some (q, g')"
  shows "gui_inv g'"
proof -
  define g1 where "g1 = (if stack_top g = APP_SNAKE then g\<lparr>g_snake := snake_tick now (g_snake g)\<rparr> else g)"
  obtain dx dy btn m where m: "mouse_poll pending (g_mouse g1) = ((dx, dy, btn), m)" by (metis surj_pair)
  define mx where "mx = (if (if g_mx g1 + dx < 0 then 0 else g_mx g1 + dx) \<ge> GUI_FB_W then GUI_FB_W - 1
    else if g_mx g1 + dx < 0 then 0 else g_mx g1 + dx)"
  define my where "my = (if (if g_my g1 + dy < 0 then 0 else g_my g1 + dy) \<ge> GUI_FB_H then GUI_FB_H - 1
    else if g_my g1 + dy < 0 then 0 else g_my g1 + dy)"
  have g1: "gui_inv g1" using assms(1) gui_inv_apps [OF assms(1)] snake_inv_tick by (simp add: g1_def apps_inv_def)
  have "mouse_inv m"
    using m mouse_inv_drain [of "g_mouse g1" pending] gui_inv_apps [OF g1]
    by (auto simp: mouse_poll_def Let_def apps_inv_def mouse_inv_def)
  moreover have "on_screen mx my" by (auto simp: on_screen_def mx_def my_def GUI_FB_W_def GUI_FB_H_def)
  ultimately have g2: "gui_inv (g1\<lparr>g_mouse := m, g_mx := mx, g_my := my\<rparr>)"
    using g1 by (simp add: gui_inv_def stack_inv_def fm_inv_def apps_inv_def)
  note eq = assms(2) [unfolded gui_round_def g1_def [symmetric] Let_def [of g1] m]
  have "gui_keys now (g1\<lparr>g_mouse := m, g_mx := mx, g_my := my\<rparr>) \<bind> (\<lambda>(quit, g). if quit then Some (True, g) else do {
       g \<leftarrow> paint_handle_mouse mx my btn (g_prev_btn g) g;
       g \<leftarrow> (if btn AND MOUSE_BTN_LEFT \<noteq> 0 \<and> g_prev_btn g AND MOUSE_BTN_LEFT = 0 then handle_mouse_click mx my now g else Some g);
       let g = (if btn AND MOUSE_BTN_RIGHT \<noteq> 0 \<and> g_prev_btn g AND MOUSE_BTN_RIGHT = 0 then handle_mouse_right_click mx my g else g);
       Some (False, g\<lparr>g_prev_btn := btn\<rparr>) }) = Some (q, g')"
    using eq by (simp add: mx_def [symmetric] my_def [symmetric] Let_def split del: if_split cong: if_cong)
  then obtain q3 g3 where k: "gui_keys now (g1\<lparr>g_mouse := m, g_mx := mx, g_my := my\<rparr>) = Some (q3, g3)"
    and r: "(if q3 then Some (True, g3) else do {
       g \<leftarrow> paint_handle_mouse mx my btn (g_prev_btn g3) g3;
       g \<leftarrow> (if btn AND MOUSE_BTN_LEFT \<noteq> 0 \<and> g_prev_btn g AND MOUSE_BTN_LEFT = 0 then handle_mouse_click mx my now g else Some g);
       let g = (if btn AND MOUSE_BTN_RIGHT \<noteq> 0 \<and> g_prev_btn g AND MOUSE_BTN_RIGHT = 0 then handle_mouse_right_click mx my g else g);
       Some (False, g\<lparr>g_prev_btn := btn\<rparr>) }) = Some (q, g')"
    by (auto simp: bind_eq_Some_conv)
  have g3: "gui_inv g3" using gui_inv_keys [OF k g2] by simp
  show ?thesis
  proof (cases q3)
    case True
    with r g3 show ?thesis by simp
  next
    case False
    with r obtain g4 g5 where p: "paint_handle_mouse mx my btn (g_prev_btn g3) g3 = Some g4"
      and c: "(if btn AND MOUSE_BTN_LEFT \<noteq> 0 \<and> g_prev_btn g4 AND MOUSE_BTN_LEFT = 0 then handle_mouse_click mx my now g4 else Some g4) = Some g5"
      and e: "g' = (if btn AND MOUSE_BTN_RIGHT \<noteq> 0 \<and> g_prev_btn g5 AND MOUSE_BTN_RIGHT = 0 then handle_mouse_right_click mx my g5 else g5)\<lparr>g_prev_btn := btn\<rparr>"
      by (auto simp: bind_eq_Some_conv Let_def)
    have g4: "gui_inv g4" by (rule gui_inv_paint_mouse [OF g3 p])
    have g5: "gui_inv g5" using c g4 gui_inv_click [OF g4] by (elim if_eqE) auto
    show ?thesis unfolding e using g5 gui_inv_right_click [OF g5] by simp
  qed
qed

end
