(* ===== verification/Deskrun.thy ===== *)
theory Deskrun
  imports Deskinv
begin

text \<open>
  Whole runs of the desktop: the loop over the typed keys compared with handling the list of waiting
  characters one by one, and the states \<open>gui_run\<close> can be in, from the zeroed variables of the loaded
  kernel through any number of rounds, key interrupts and restarts.
\<close>

section \<open>The keys of a round\<close>

text \<open>Handling a list of characters: whether the desktop ends, the characters left, and the state.\<close>

fun run_keys :: "u32 \<Rightarrow> u8 list \<Rightarrow> gui \<Rightarrow> (bool \<times> u8 list \<times> gui) option" where
  "run_keys now [] g = Some (False, [], g)"
| "run_keys now (c # cs) g = do {
     (quit, g) \<leftarrow> handle_key c now g;
     if quit then Some (True, cs, g) else run_keys now cs g
   }"

text \<open>No key handler looks at the keyboard buffer.\<close>

definition with_kbd :: "kbd \<Rightarrow> gui \<Rightarrow> gui" where
  "with_kbd k g = g\<lparr>g_kbd := k\<rparr>"

named_theorems kbd_frame \<open>operations of the desktop commute with a change of the keyboard\<close>

lemma with_kbd_fields [simp]:
  "g_stack (with_kbd k g) = g_stack g" "pm_sel (with_kbd k g) = pm_sel g" "fm_cwd (with_kbd k g) = fm_cwd g"
  "fm_names (with_kbd k g) = fm_names g" "fm_sel (with_kbd k g) = fm_sel g" "g_calc (with_kbd k g) = g_calc g"
  "g_note (with_kbd k g) = g_note g" "g_clk (with_kbd k g) = g_clk g" "g_snake (with_kbd k g) = g_snake g"
  "g_paint (with_kbd k g) = g_paint g" "g_ms (with_kbd k g) = g_ms g" "g_fs (with_kbd k g) = g_fs g"
  "g_kbd (with_kbd k g) = k" "stack_top (with_kbd k g) = stack_top g"
  by (simp_all add: with_kbd_def stack_top_def)

lemma with_kbd_updates [kbd_frame]:
  "(with_kbd k g)\<lparr>g_stack := s\<rparr> = with_kbd k (g\<lparr>g_stack := s\<rparr>)"
  "(with_kbd k g)\<lparr>pm_sel := r\<rparr> = with_kbd k (g\<lparr>pm_sel := r\<rparr>)"
  "(with_kbd k g)\<lparr>fm_cwd := c\<rparr> = with_kbd k (g\<lparr>fm_cwd := c\<rparr>)"
  "(with_kbd k g)\<lparr>fm_names := ns\<rparr> = with_kbd k (g\<lparr>fm_names := ns\<rparr>)"
  "(with_kbd k g)\<lparr>fm_sel := i\<rparr> = with_kbd k (g\<lparr>fm_sel := i\<rparr>)"
  "(with_kbd k g)\<lparr>g_calc := ca\<rparr> = with_kbd k (g\<lparr>g_calc := ca\<rparr>)"
  "(with_kbd k g)\<lparr>g_note := n\<rparr> = with_kbd k (g\<lparr>g_note := n\<rparr>)"
  "(with_kbd k g)\<lparr>g_clk := cl\<rparr> = with_kbd k (g\<lparr>g_clk := cl\<rparr>)"
  "(with_kbd k g)\<lparr>g_snake := sn\<rparr> = with_kbd k (g\<lparr>g_snake := sn\<rparr>)"
  "(with_kbd k g)\<lparr>g_paint := p\<rparr> = with_kbd k (g\<lparr>g_paint := p\<rparr>)"
  "(with_kbd k g)\<lparr>g_ms := m\<rparr> = with_kbd k (g\<lparr>g_ms := m\<rparr>)"
  "(with_kbd k g)\<lparr>g_fs := f\<rparr> = with_kbd k (g\<lparr>g_fs := f\<rparr>)"
  by (simp_all add: with_kbd_def)

lemma stack_kbd [kbd_frame]:
  "stack_push a (with_kbd k g) = with_kbd k (stack_push a g)" "stack_pop (with_kbd k g) = with_kbd k (stack_pop g)"
  by (simp_all add: stack_push_def stack_pop_def kbd_frame)

lemma refresh_kbd [kbd_frame]: "fm_refresh (with_kbd k g) = map_option (with_kbd k) (fm_refresh g)"
  by (cases "fs_get_cwd FS_PATH_MAX (g_fs g)") (auto simp: fm_refresh_def kbd_frame Let_def split: prod.split)

lemma bind_map_some [kbd_frame]:
  "map_option f x \<bind> h = x \<bind> (\<lambda>v. h (f v))" "map_option e (y \<bind> h') = y \<bind> (\<lambda>v. map_option e (h' v))"
  by (cases x; cases y; simp)+

lemma parent_kbd [kbd_frame]: "fm_parent (with_kbd k g) = map_option (with_kbd k) (fm_parent g)"
  by (simp add: fm_parent_def kbd_frame Let_def split del: if_split cong: if_cong) (simp add: kbd_frame)

lemma open_kbd [kbd_frame]: "fm_open_sel (with_kbd k g) = map_option (with_kbd k) (fm_open_sel g)"
  by (cases "path_join (fm_cwd g) (fm_names g ! fm_sel g) True"; cases "path_join (fm_cwd g) (fm_names g ! fm_sel g) False")
     (auto simp: fm_open_sel_def kbd_frame Let_def split: prod.split)

lemma fm_key_kbd [kbd_frame]: "fm_key c (with_kbd k g) = map_option (with_kbd k) (fm_key c g)"
  by (simp add: fm_key_def kbd_frame)

lemma launch_kbd [kbd_frame]: "launch_from_pm r now (with_kbd k g) = map_option (with_kbd k) (launch_from_pm r now g)"
  by (simp add: launch_from_pm_def kbd_frame Let_def)

lemma handle_key_kbd:
  "handle_key c now (with_kbd k g) = map_option (\<lambda>(q, g). (q, with_kbd k g)) (handle_key c now g)"
  by (cases "stack_top g") (simp_all add: handle_key_def kbd_frame split_def)

lemma run_keys_kbd:
  "run_keys now cs (with_kbd k g) = map_option (\<lambda>(q, r, g). (q, r, with_kbd k g)) (run_keys now cs g)"
proof (induction cs arbitrary: g)
  case (Cons c cs)
  show ?case
    by (cases "handle_key c now g") (auto simp: handle_key_kbd Cons.IH)
qed simp

lemma getchar_items:
  assumes "keybuf_inv k" and "keyboard_getchar k = (key, k')"
  shows "keybuf_inv k' \<and> (case keybuf_items k of [] \<Rightarrow> key = 0 \<and> keybuf_items k' = []
    | c # cs \<Rightarrow> key = c \<and> c \<noteq> 0 \<and> keybuf_items k' = cs)"
proof -
  have "0 \<notin> set (keybuf_items k)" using assms(1) by (simp add: keybuf_inv_def)
  with char_pop_eq [OF assms(1)] assms(2) show ?thesis
    by (cases "keybuf_items k") (auto simp: char_pop_def split: if_splits)
qed

lemma gui_keys_run:
  assumes "keybuf_inv k" and "keybuf_items k = cs"
  shows "case run_keys now cs g of None \<Rightarrow> gui_keys now (with_kbd k g) = None
    | Some (q, rest, h) \<Rightarrow> \<exists>k'. gui_keys now (with_kbd k g) = Some (q, with_kbd k' h) \<and> keybuf_inv k' \<and> keybuf_items k' = rest"
  using assms
proof (induction cs arbitrary: k g)
  case Nil
  obtain key k' where g: "keyboard_getchar k = (key, k')" by fastforce
  from getchar_items [OF Nil(1) g] Nil(2) have "key = 0" "keybuf_inv k'" "keybuf_items k' = []" by simp_all
  moreover have "(with_kbd k g)\<lparr>g_kbd := k'\<rparr> = with_kbd k' g" by (simp add: with_kbd_def)
  ultimately show ?case using g by (auto simp: gui_keys.simps)
next
  case (Cons c cs)
  obtain key k' where g: "keyboard_getchar k = (key, k')" by fastforce
  from getchar_items [OF Cons.prems(1) g] Cons.prems(2) have k: "key = c" "c \<noteq> 0" "keybuf_inv k'" "keybuf_items k' = cs" by simp_all
  have u: "(with_kbd k g)\<lparr>g_kbd := k'\<rparr> = with_kbd k' g" by (simp add: with_kbd_def)
  have e: "gui_keys now (with_kbd k g) = handle_key c now g \<bind>
      (\<lambda>(q, h). if q then Some (True, with_kbd k' h) else gui_keys now (with_kbd k' h))"
    using g k(1,2) u by (subst gui_keys.simps) (simp add: handle_key_kbd kbd_frame split_def cong: if_cong)
  show ?case
  proof (cases "handle_key c now g")
    case None
    then show ?thesis by (simp add: e)
  next
    case (Some r)
    obtain q h where r: "r = (q, h)" by fastforce
    show ?thesis
      using Cons.IH [OF k(3,4), of h] k(3,4) by (cases q) (auto simp: e Some r split: option.split)
  qed
qed

text \<open>C18: The key loop of a round takes the waiting characters in the order they were typed and handles each
  once: it ends the way handling the list one by one ends, in the same state up to the keyboard,
  whose buffer holds the characters behind the one that closed the desktop, or none.\<close>

theorem gui_keys_in_order:
  assumes "keybuf_inv (g_kbd g)"
  shows "case run_keys now (keybuf_items (g_kbd g)) g of
      None \<Rightarrow> gui_keys now g = None
    | Some (q, rest, h) \<Rightarrow> \<exists>k. gui_keys now g = Some (q, h\<lparr>g_kbd := k\<rparr>) \<and> keybuf_inv k \<and> keybuf_items k = rest"
proof -
  have u: "with_kbd (g_kbd g) g = g" by (simp add: with_kbd_def)
  show ?thesis using gui_keys_run [OF assms refl, of now g, unfolded u, unfolded with_kbd_def] .
qed

section \<open>Reachable states\<close>

text \<open>The zeroed variables of \<open>gui.c\<close> beside a file system and a keyboard in use.\<close>

definition gui_boot :: "fs \<Rightarrow> kbd \<Rightarrow> gui" where
  "gui_boot f k = \<lparr>g_stack = [], g_mx = 0, g_my = 0, g_prev_btn = 0, pm_sel = 0, fm_cwd = [], fm_names = [], fm_sel = 0,
     g_calc = \<lparr>calc_disp = [], calc_entry = [], calc_op = 0, calc_acc = 0, calc_have_acc = False\<rparr>,
     g_note = note_boot,
     g_clk = \<lparr>clk_mode = 0, clk_sw_start = 0, clk_sw_acc = 0, clk_sw_running = False, clk_timer_deadline = 0,
       clk_timer_active = False, clk_digits = [], clk_alarm_at = 0, clk_alarm_armed = False\<rparr>,
     g_snake = snake_boot,
     g_paint = \<lparr>paint_canvas = replicate 17600 0, paint_color = 0, paint_tool = 0, paint_lx = 0, paint_ly = 0, paint_stroke = False\<rparr>,
     g_ms = mines_boot, g_fs = f, g_kbd = k, g_mouse = mouse_boot\<rparr>"

text \<open>
  The desktop is started, runs rounds, and may be started again later, when the shell has changed the
  file system and the keyboard; a key interrupt can come between any two rounds.
\<close>

inductive gui_reach :: "gui \<Rightarrow> bool" where
  start: "fs_reach f \<Longrightarrow> kbd_reach k \<Longrightarrow> gui_start cfg now (gui_boot f k) = Some g \<Longrightarrow> gui_reach g"
| again: "gui_reach g \<Longrightarrow> fs_reach f \<Longrightarrow> kbd_reach k \<Longrightarrow> gui_start cfg now (g\<lparr>g_fs := f, g_kbd := k\<rparr>) = Some g' \<Longrightarrow> gui_reach g'"
| round: "gui_reach g \<Longrightarrow> gui_round pending now g = Some (q, g') \<Longrightarrow> gui_reach g'"
| irq: "gui_reach g \<Longrightarrow> gui_reach (g\<lparr>g_kbd := keyboard_irq_handler raw (g_kbd g)\<rparr>)"

lemma fm_refresh_result:
  assumes "fm_refresh g = Some g'"
  obtains c ns where "g' = g\<lparr>fm_cwd := c, fm_names := ns\<rparr>" and "length c < FS_PATH_MAX" and "length ns \<le> FM_MAX_NAMES"
    and "\<forall>n \<in> set ns. length n < FS_NAME_MAX + 4"
proof -
  obtain c where c: "fs_get_cwd FS_PATH_MAX (g_fs g) = Some c" using assms by (auto simp: fm_refresh_def bind_eq_Some_conv)
  obtain r l where l: "fs_list [] 512 (g_fs g) = (r, l)" by fastforce
  show thesis
    using assms c l fs_get_cwd_length [OF c] fm_split_bounds [of FM_MAX_NAMES l]
    by (intro that [of "if r \<noteq> 0 then [] else fm_split FM_MAX_NAMES l" c]) (auto simp: fm_refresh_def split: if_splits)
qed

lemma gui_inv_start:
  assumes "gui_start cfg now g = Some g'" and "note_inv (g_note g)" and "length (snake_x (g_snake g)) = SNAKE_MAX"
    and "length (snake_y (g_snake g)) = SNAKE_MAX" and "mouse_inv (g_mouse g)" and "fs_reach (g_fs g)" and "kbd_inv (g_kbd g)"
  shows "gui_inv g'"
proof -
  define h where "h = (stack_push APP_PROGRAM_MANAGER
    (g\<lparr>g_mouse := snd (mouse_init cfg (g_mouse g)), g_mx := 160, g_my := 100, g_prev_btn := 0, g_stack := []\<rparr>))\<lparr>pm_sel := 0\<rparr>"
  have h: "g_stack h = [APP_PROGRAM_MANAGER]" "g_mx h = 160" "g_my h = 100" "g_note h = g_note g" "g_snake h = g_snake g"
    "g_mouse h = snd (mouse_init cfg (g_mouse g))" "g_fs h = g_fs g" "g_kbd h = g_kbd g"
    by (simp_all add: h_def stack_push_def MAX_STACK_def)
  obtain h' where r: "fm_refresh h = Some h'" using assms(1) by (auto simp: gui_start_def Let_def h_def bind_eq_Some_conv)
  obtain c ns where h': "h' = h\<lparr>fm_cwd := c, fm_names := ns\<rparr>" "length c < FS_PATH_MAX" "length ns \<le> FM_MAX_NAMES"
    "\<forall>n \<in> set ns. length n < FS_NAME_MAX + 4" by (rule fm_refresh_result [OF r])
  have g': "g' = h'\<lparr>g_calc := calc_reset (g_calc h'),
       g_note := (g_note h')\<lparr>note_buf := (note_buf (g_note h'))[0 := 0], note_len := 0, note_cursor := 0, note_path := []\<rparr>,
       g_clk := (g_clk h')\<lparr>clk_mode := 0, clk_sw_running := False, clk_sw_acc := 0, clk_timer_active := False,
         clk_digits := [], clk_alarm_armed := False\<rparr>,
       g_snake := snake_reset now (g_snake h'), g_paint := paint_init (g_paint h'), g_ms := minesweeper_init now (g_ms h')\<rparr>"
    using assms(1) r by (simp add: gui_start_def Let_def h_def)
  have "calc_inv (calc_reset c)" for c by (simp add: calc_inv_def calc_reset_def CALC_MAX_def)
  moreover have "note_inv ((g_note g)\<lparr>note_buf := (note_buf (g_note g))[0 := 0], note_len := 0, note_cursor := 0, note_path := []\<rparr>)"
    using assms(2) by (simp add: note_inv_def NOTE_BUF_def FS_PATH_MAX_def)
  moreover have "mouse_inv (snd (mouse_init cfg (g_mouse g)))" using assms(5) by (simp add: mouse_init_def Let_def mouse_inv_def)
  moreover have "clk_inv (k\<lparr>clk_mode := 0, clk_sw_running := False, clk_sw_acc := 0, clk_timer_active := False,
         clk_digits := [], clk_alarm_armed := False\<rparr>)" for k by (simp add: clk_inv_def)
  ultimately show ?thesis
    unfolding g' using h h' assms(6,7) snake_inv_reset [OF assms(3,4)] paint_inv_clear mines_inv_new
    by (simp add: gui_inv_def stack_inv_def fm_inv_def apps_inv_def MAX_STACK_def on_screen_def)
qed

lemma gui_reach_inv: "gui_reach g \<Longrightarrow> gui_inv g"
proof (induction rule: gui_reach.induct)
  case (start f k cfg now g)
  show ?case
    by (rule gui_inv_start [OF start(3)])
       (use start(1,2) kbd_reach_inv note_boot_inv in \<open>simp_all add: gui_boot_def snake_boot_def mouse_boot_def mouse_inv_def\<close>)
next
  case (again g f k cfg now g')
  have "apps_inv g" by (rule gui_inv_apps [OF again.IH])
  then show ?case
    by (intro gui_inv_start [OF again.hyps(4)])
       (use again.hyps kbd_reach_inv in \<open>simp_all add: apps_inv_def snake_inv_def\<close>)
next
  case (round g pending now q g')
  then show ?case by (rule_tac gui_inv_round)
next
  case (irq g raw)
  then show ?case using gui_inv_apps [OF irq.IH] kbd_inv_irq by (simp add: apps_inv_def)
qed

section \<open>When a key is handled\<close>

text \<open>The absolute path of the working directory leaves room for a separator.\<close>

definition roomy :: "fs \<Rightarrow> bool" where
  "roomy f \<longleftrightarrow> (\<forall>c. fs_get_cwd FS_PATH_MAX f = Some c \<longrightarrow> length c < FS_PATH_MAX - 1)"

lemma get_cwd_total: "fs_reach f \<Longrightarrow> \<exists>c. fs_get_cwd FS_PATH_MAX f = Some c"
  using fs_get_cwd_returns [of f FS_PATH_MAX] by (auto simp: FS_PATH_MAX_def)

lemma resolve_total:
  assumes "fs_reach f" and "roomy f"
  shows "\<exists>r. resolve_file_path p f = Some r"
proof -
  obtain c where c: "fs_get_cwd FS_PATH_MAX f = Some c" using get_cwd_total [OF assms(1)] by blast
  with assms(2) have "length c < 127" by (simp add: roomy_def FS_PATH_MAX_def)
  then have "length c + min (length p) (126 - length c) < 127" "length c + min (length p) (127 - length c) < 128" by linarith+
  with c show ?thesis by (simp add: resolve_file_path_def put_name_def Let_def FS_PATH_MAX_def not_le)
qed

lemma fs_read_total:
  assumes "fs_reach f" and "roomy f" and "frame_kept f"
  shows "\<exists>r. fs_read p (of_nat (NOTE_BUF - 1)) f = Some r"
proof -
  have "unat n \<le> FS_FILE_BUF" if "n < 4095" for n :: u64
    using that by (simp add: FS_FILE_BUF_def word_less_nat_alt)
  moreover have "4094 \<le> FS_FILE_BUF" by (simp add: FS_FILE_BUF_def)
  ultimately show ?thesis using resolve_total [OF assms(1,2), of p] assms(3)
    by (fastforce simp: fs_read_def Let_def NOTE_BUF_def not_le split: option.split)
qed

lemma fm_refresh_total: "fs_reach (g_fs g) \<Longrightarrow> \<exists>g'. fm_refresh g = Some g'"
  using get_cwd_total [of "g_fs g"] by (auto simp: fm_refresh_def Let_def split: prod.split)

lemma path_join_total: "length c < FS_PATH_MAX - 1 \<Longrightarrow> \<exists>out. path_join c n s = Some out"
  by (auto simp: path_join_def Let_def FS_PATH_MAX_def min_def)

lemma fm_parent_total:
  assumes "fs_reach (g_fs g)"
  shows "\<exists>g'. fm_parent g = Some g'"
proof (cases "length (fm_cwd g) \<le> 1")
  case False
  then obtain u where u: "fm_parent g = fm_refresh (g\<lparr>fm_cwd := u, g_fs := snd (fs_chdir u (g_fs g))\<rparr>) \<bind> (\<lambda>g. Some (g\<lparr>fm_sel := 0\<rparr>))"
    using fm_parent_eq by blast
  with fm_refresh_total [of "g\<lparr>fm_cwd := u, g_fs := snd (fs_chdir u (g_fs g))\<rparr>"] fs_reach.chdir [OF assms, of u]
  show ?thesis by auto
qed (simp add: fm_parent_def)

lemma fm_open_total:
  assumes "fs_reach (g_fs g)" and "roomy (g_fs g)" and "length (fm_cwd g) < FS_PATH_MAX - 1" and "frame_kept (g_fs g)"
  shows "\<exists>g'. fm_open_sel g = Some g'"
proof -
  obtain p q where p: "path_join (fm_cwd g) (fm_names g ! fm_sel g) True = Some p" "path_join (fm_cwd g) (fm_names g ! fm_sel g) False = Some q"
    using path_join_total [OF assms(3)] by metis
  obtain r f where f: "fs_chdir p (g_fs g) = (r, f)" by fastforce
  have "fs_reach f" using fs_reach.chdir [OF assms(1), of p] f by simp
  then obtain g1 where g1: "fm_refresh (g\<lparr>g_fs := f\<rparr>) = Some g1" using fm_refresh_total [of "g\<lparr>g_fs := f\<rparr>"] by auto
  obtain n where n: "note_open q (g_note g) (g_fs g) = Some n"
    using fs_read_total [OF assms(1,2,4), of q] by (auto simp: note_open_def Let_def)
  show ?thesis by (simp add: fm_open_sel_def p f g1 n Let_def)
qed

text \<open>A key is always handled when the calculator is not on top and the key does not save a note, as long
  as the paths of the working directory and of the File Manager have fewer than 127 characters and the build leaves the dead frame alone:
  opening a file or directory, going up, launching an application and every key of the games return.\<close>

theorem desktop_handles_keys:
  assumes "gui_inv g" and "stack_top g \<noteq> APP_CALCULATOR" and "c \<noteq> 19" and "roomy (g_fs g)" and "length (fm_cwd g) < FS_PATH_MAX - 1"
    and "frame_kept (g_fs g)"
  shows "\<exists>q g'. handle_key c now g = Some (q, g')"
proof -
  have f: "fs_reach (g_fs g)" using gui_inv_apps [OF assms(1)] by (simp add: apps_inv_def)
  obtain gp go where P: "fm_parent g = Some gp" "fm_open_sel g = Some go"
    using fm_parent_total [OF f] fm_open_total [OF f assms(4-6)] by blast
  obtain gk where k: "fm_key c g = Some gk" by (rule that [of "the (fm_key c g)"]) (simp add: fm_key_def P)
  have "\<exists>g'. launch_from_pm row now g = Some g'" for row
    using fm_refresh_total [of "g\<lparr>pm_sel := row\<rparr>"] f by (auto simp: launch_from_pm_def Let_def)
  then obtain gl where l: "launch_from_pm (int (unat (c - 49))) now g = Some gl" by blast
  obtain n h where n: "note_key c (g_note g) (g_fs g) = Some (n, h)"
    using assms(3) by (intro that [of "fst (the (note_key c (g_note g) (g_fs g)))" "snd (the (note_key c (g_note g) (g_fs g)))"])
      (simp add: note_key_def)
  have "handle_key c now g \<noteq> None"
    using assms(2) by (cases "stack_top g") (simp_all add: handle_key_def k l [simplified] n del: not_None_eq)
  then show ?thesis by auto
qed

text \<open>C5: Every state the desktop can be in is well formed: the stack holds one to eight windows above the
  Program Manager, the pointer is on the screen, the names and path of the File Manager fit their
  arrays, and the invariants of the calculator, the notepad, the clock, the snake, the canvas, the
  mines, the mouse, the keyboard and the file system all hold, whatever is typed, moved and clicked.\<close>

theorem desktop_stays_well_formed:
  assumes "gui_reach g"
  shows "gui_inv g"
  by (rule gui_reach_inv [OF assms])

lemma desktop_start:
  obtains g where "gui_start 0 5 (gui_boot (fs_init f) kbd_boot) = Some g"
    and "g_stack g = [APP_PROGRAM_MANAGER]" and "fm_cwd g = ''/''" and "g_fs g = fs_init f"
    and "g_mx g = 160" and "g_my g = 100" and "g_prev_btn g = 0" and "g_kbd g = kbd_boot"
    and "g_mouse g = snd (mouse_init 0 mouse_boot)"
proof -
  have c: "fs_get_cwd FS_PATH_MAX (fs_init f) = Some ''/''" by (simp add: fs_get_cwd_def)
  obtain r l where l: "fs_list [] 512 (fs_init f) = (r, l)" by fastforce
  show thesis
    using l by (intro that [of "the (gui_start 0 5 (gui_boot (fs_init f) kbd_boot))"])
      (auto simp: gui_start_def fm_refresh_def stack_push_def gui_boot_def c MAX_STACK_def Let_def)
qed

theorem desktop_stays_well_formed_witness:
  "\<exists>g g'. gui_start 0 5 (gui_boot (fs_init fs_boot) kbd_boot) = Some g
     \<and> gui_round [8, 3, 4] 6 g = Some (False, g') \<and> gui_inv g' \<and> (g_mx g', g_my g') = (163, 96)"
proof -
  obtain g where g: "gui_start 0 5 (gui_boot (fs_init fs_boot) kbd_boot) = Some g"
    and f: "g_stack g = [APP_PROGRAM_MANAGER]" "g_mx g = 160" "g_my g = 100" "g_prev_btn g = 0" "g_kbd g = kbd_boot"
    "g_mouse g = snd (mouse_init 0 mouse_boot)"
    by (rule desktop_start)
  obtain g' where g': "gui_round [8, 3, 4] 6 g = Some (False, g')" "(g_mx g', g_my g') = (163, 96)"
    using f by (auto simp: gui_round_def stack_top_def mouse_poll_def mouse_init_def mouse_boot_def mouse_byte_def Let_def
        gui_keys.simps keyboard_getchar_def kbd_boot_def paint_handle_mouse_def GUI_FB_W_def GUI_FB_H_def)
  have r: "gui_reach g" by (rule gui_reach.start [OF fs_reach_boot kbd_reach.boot g])
  have "gui_inv g'" by (rule desktop_stays_well_formed [OF gui_reach.round [OF r g'(1)]])
  with g g' show ?thesis by blast
qed

lemma gui_boot_kbd [simp]: "g_kbd (gui_boot f k) = k"
  by (simp add: gui_boot_def)

theorem gui_keys_in_order_witness:
  "\<exists>h k. gui_keys 5 (gui_boot (fs_init fs_boot) (keyboard_irq_handler 0x1E kbd_boot)) = Some (False, h\<lparr>g_kbd := k\<rparr>)
     \<and> keybuf_items k = []"
proof -
  let ?k = "keyboard_irq_handler 0x1E kbd_boot"
  have k: "keybuf_inv ?k" using kbd_inv_irq [OF kbd_inv_boot, of "0x1E"] by (simp add: kbd_inv_def)
  have i: "keybuf_items ?k = [97]" by code_simp
  have "handle_key 97 5 (gui_boot (fs_init fs_boot) ?k) = Some (False, gui_boot (fs_init fs_boot) ?k)"
    by (simp add: handle_key_def gui_boot_def stack_top_def)
  then show ?thesis
    using gui_keys_in_order [of "gui_boot (fs_init fs_boot) ?k" 5] k i by auto
qed

text \<open>The first key of a session: the digit 1 opens the File Manager.\<close>

theorem desktop_handles_keys_witness:
  "\<exists>g q g'. gui_start 0 5 (gui_boot (fs_init fs_kept) kbd_boot) = Some g \<and> handle_key 49 5 g = Some (q, g')"
proof -
  obtain g where g: "gui_start 0 5 (gui_boot (fs_init fs_kept) kbd_boot) = Some g"
    and s: "g_stack g = [APP_PROGRAM_MANAGER]" "fm_cwd g = ''/''" "g_fs g = fs_init fs_kept"
    by (rule desktop_start)
  have i: "gui_inv g" by (rule gui_reach_inv [OF gui_reach.start [OF fs_kept_boot(1) kbd_reach.boot g]])
  have "\<exists>q g'. handle_key 49 5 g = Some (q, g')"
    by (rule desktop_handles_keys [OF i]) (use s fs_kept_boot(2) in \<open>simp_all add: stack_top_def roomy_def fs_get_cwd_def FS_PATH_MAX_def\<close>)
  with g show ?thesis by blast
qed

end
