(* ===== verification/Deskdraw.thy ===== *)
theory Deskdraw
  imports Deskrun
begin

text \<open>
  What a round of the desktop draws (\<open>draw_desktop\<close> in \<^verbatim>\<open>src/kernel/gui/gui.c\<close>): the background, then every
  window of the stack from the bottom to the top, each application by a function of its own on the
  frame buffer. \<open>now\<close> is what \<open>timer_get_ms\<close> returns while the clock is drawn.
\<close>

section \<open>Numbers and colours\<close>

definition fmt_uint :: "u32 \<Rightarrow> string" where
  "fmt_uint v = (if v = 0 then ''0'' else rev (tmp_digits (unat v)))"

definition ms_digit_color :: "int \<Rightarrow> u8" where
  "ms_digit_color n =
     (if n = 1 then GUI_C_BR_BLUE else if n = 2 then GUI_C_BR_GREEN else if n = 3 then GUI_C_BR_RED
      else if n = 4 then GUI_C_BR_CYAN else if n = 5 then GUI_C_BR_MAGENTA else if n = 6 then GUI_C_CYAN
      else if n = 7 then GUI_C_BLACK else if n = 8 then GUI_C_DKGRAY else GUI_C_BLACK)"

section \<open>The applications\<close>

definition draw_program_manager :: "int \<Rightarrow> int \<Rightarrow> bool \<Rightarrow> gui \<Rightarrow> fb \<Rightarrow> fb option" where
  "draw_program_manager wx wy front g fb = do {
     let ww = 220;
     let wh = 170;
     fb \<leftarrow> gui_draw_window wx wy ww wh ''Program Manager'' front fb;
     let items = [''File Manager'', ''Calculator'', ''Notepad'', ''Clock'', ''Snake'', ''Paint'', ''Minesweeper''];
     for_each [0..6] (\<lambda>i. gui_draw_button (wx + 8) (wy + 18 + i * 20) (ww - 16) 16 (items ! nat i) False (pm_sel g = i \<and> front)) fb
   }"

definition draw_file_manager :: "int \<Rightarrow> int \<Rightarrow> bool \<Rightarrow> gui \<Rightarrow> fb \<Rightarrow> fb option" where
  "draw_file_manager wx wy front g fb = do {
     let ww = 260;
     let wh = 140;
     fb \<leftarrow> gui_draw_window wx wy ww wh ''File Manager'' front fb;
     fb \<leftarrow> gui_draw_text (wx + 6) (wy + 18) ''PATH:'' GUI_C_BLACK GUI_C_LTGRAY fb;
     fb \<leftarrow> gui_draw_text_len (wx + 50) (wy + 18) (fm_cwd g) (int (length (fm_cwd g))) GUI_C_BLACK GUI_C_LTGRAY fb;
     fb \<leftarrow> gui_draw_text (wx + 6) (wy + 30) ''U=up ENT=open TAB=sel'' GUI_C_DKGRAY GUI_C_LTGRAY fb;
     for_each [0..<min (length (fm_names g)) 8] (\<lambda>i fb.
       let bg = (if i = fm_sel g \<and> front then GUI_C_BR_CYAN else GUI_C_LTGRAY)
       in gui_draw_text_len (wx + 8) (wy + 44 + int i * 10) (fm_names g ! i) (int (length (fm_names g ! i))) GUI_C_BLACK bg fb) fb
   }"

definition draw_calculator :: "int \<Rightarrow> int \<Rightarrow> bool \<Rightarrow> calc \<Rightarrow> fb \<Rightarrow> fb option" where
  "draw_calculator wx wy front s fb = do {
     let ww = 200;
     let wh = 118;
     fb \<leftarrow> gui_draw_window wx wy ww wh ''Calculator'' front fb;
     fb \<leftarrow> gui_draw_fill_rect (wx + 6) (wy + 18) (ww - 12) 14 GUI_C_BLACK fb;
     fb \<leftarrow> gui_draw_text (wx + 8) (wy + 20) (calc_disp s) GUI_C_BR_GREEN GUI_C_BLACK fb;
     let keys = ''789/456*123-0.=+C'';
     let kw = 36;
     let kh = 14;
     fb \<leftarrow> for_each [0..3] (\<lambda>r. for_each [0..3] (\<lambda>c fb.
       let idx = r * 4 + c
       in if idx < 16 then gui_draw_button (wx + 8 + c * 46) (wy + 36 + r * 16) kw kh [keys ! nat idx] False False fb
          else Some fb)) fb;
     gui_draw_button (wx + 8) (wy + 36 + 4 * 16) 80 kh ''C'' False False fb
   }"

text \<open>The loop over the text of a note, from \<open>idx\<close> on: a full row is left when its next character comes.\<close>

function note_chars :: "int \<Rightarrow> int \<Rightarrow> u8 list \<Rightarrow> nat \<Rightarrow> nat \<Rightarrow> fb \<Rightarrow> fb option" where
  "note_chars wx wy [] r c fb = Some fb"
| "note_chars wx wy (ch # cs) r c fb =
     (if \<not> r < NOTE_ROWS then Some fb
      else if ch = 10 then note_chars wx wy cs (r + 1) 0 fb
      else if c \<ge> NOTE_COLS then note_chars wx wy (ch # cs) (r + 1) 0 fb
      else do {
        let py = wy + 30 + int r * 8;
        let bg = GUI_C_WHITE;
        fb \<leftarrow> gui_draw_fill_rect (wx + 8 + int c * 8) py 8 8 bg fb;
        fb \<leftarrow> gui_draw_text (wx + 8 + int c * 8) py [byte_char ch] GUI_C_BLACK bg fb;
        note_chars wx wy cs r (c + 1) fb
      })"
  by pat_completeness auto

termination note_chars
  by (relation "measures [\<lambda>(wx, wy, cs, r, c, fb). length cs, \<lambda>(wx, wy, cs, r, c, fb). NOTE_ROWS - r]") auto

declare note_chars.simps [simp del]

definition draw_notepad :: "int \<Rightarrow> int \<Rightarrow> bool \<Rightarrow> note_st \<Rightarrow> fb \<Rightarrow> fb option" where
  "draw_notepad wx wy front n fb = do {
     let ww = 280;
     let wh = 150;
     fb \<leftarrow> gui_draw_window wx wy ww wh ''Notepad'' front fb;
     fb \<leftarrow> gui_draw_text (wx + 6) (wy + 18) (note_path n) GUI_C_BLACK GUI_C_LTGRAY fb;
     fb \<leftarrow> note_chars wx wy (take (note_len n) (note_buf n)) 0 0 fb;
     let (cr, cc) = note_index_to_rc (note_cursor n) n;
     fb \<leftarrow> (if cr < NOTE_ROWS \<and> front
           then gui_draw_fill_rect (wx + 8 + int cc * 8) (wy + 30 + int cr * 8) 8 8 GUI_C_YELLOW fb else Some fb);
     gui_draw_text (wx + 6) (wy + wh - 20) ''^S save'' GUI_C_DKGRAY GUI_C_LTGRAY fb
   }"

text \<open>The line of the session clock; the three numbers are those of \<open>fmt_uint\<close>.\<close>

definition clock_line :: "u32 \<Rightarrow> string" where
  "clock_line now =
     (let tot = now div 1000; h = (tot div 3600) mod 99; m = (tot div 60) mod 60; s = tot mod 60
      in ''TIME '' @ fmt_uint h @ '':'' @ (if m < 10 then ''0'' else []) @ fmt_uint m @ '':''
           @ (if s < 10 then ''0'' else []) @ fmt_uint s)"

definition draw_clock :: "int \<Rightarrow> int \<Rightarrow> bool \<Rightarrow> u32 \<Rightarrow> clock \<Rightarrow> fb \<Rightarrow> fb option" where
  "draw_clock wx wy front now k fb = do {
     let ww = 240;
     let wh = 130;
     fb \<leftarrow> gui_draw_window wx wy ww wh ''Clock'' front fb;
     fb \<leftarrow> (if clk_mode k = 0 then do {
         fb \<leftarrow> gui_draw_text (wx + 8) (wy + 22) ''Session clock (from boot)'' GUI_C_BLACK GUI_C_LTGRAY fb;
         gui_draw_text (wx + 8) (wy + 40) (clock_line now) GUI_C_BLACK GUI_C_LTGRAY fb
       } else if clk_mode k = 1 then do {
         let el = (if clk_sw_running k then now - clk_sw_start k + clk_sw_acc k else clk_sw_acc k);
         fb \<leftarrow> gui_draw_text (wx + 8) (wy + 22) ''Stopwatch'' GUI_C_BLACK GUI_C_LTGRAY fb;
         fb \<leftarrow> gui_draw_text (wx + 8) (wy + 38) (fmt_uint el) GUI_C_BLACK GUI_C_LTGRAY fb;
         fb \<leftarrow> gui_draw_text (wx + 8) (wy + 50) ''ms'' GUI_C_BLACK GUI_C_LTGRAY fb;
         gui_draw_text (wx + 8) (wy + 68) ''S start/stop  R reset'' GUI_C_DKGRAY GUI_C_LTGRAY fb
       } else if clk_mode k = 2 then do {
         fb \<leftarrow> gui_draw_text (wx + 8) (wy + 22) ''Timer (sec)'' GUI_C_BLACK GUI_C_LTGRAY fb;
         fb \<leftarrow> gui_draw_text (wx + 8) (wy + 36) (clk_digits k) GUI_C_BLACK GUI_C_LTGRAY fb;
         fb \<leftarrow> (if clk_timer_active k then do {
             let left = sint (clk_timer_deadline k - now);
             let left = (if left < 0 then 0 else left);
             fb \<leftarrow> gui_draw_text (wx + 8) (wy + 52) (fmt_uint (of_int (left sdiv 1000))) GUI_C_BR_RED GUI_C_LTGRAY fb;
             (if left = 0 then gui_draw_text (wx + 8) (wy + 66) ''DONE'' GUI_C_BR_RED GUI_C_LTGRAY fb else Some fb)
           } else Some fb);
         gui_draw_text (wx + 8) (wy + 88) ''0-9 type  ENT=start'' GUI_C_DKGRAY GUI_C_LTGRAY fb
       } else do {
         fb \<leftarrow> gui_draw_text (wx + 8) (wy + 22) ''Alarm (sec from now)'' GUI_C_BLACK GUI_C_LTGRAY fb;
         fb \<leftarrow> gui_draw_text (wx + 8) (wy + 36) (clk_digits k) GUI_C_BLACK GUI_C_LTGRAY fb;
         fb \<leftarrow> (if clk_alarm_armed k then
             let left = sint (clk_alarm_at k - now)
             in if left \<le> 0 then do {
                  let flash = (now div 400) mod 2 \<noteq> 0;
                  fb \<leftarrow> (if flash then gui_draw_fill_rect (wx + 4) (wy + 50) (ww - 8) 20 GUI_C_BR_RED fb else Some fb);
                  gui_draw_text (wx + 8) (wy + 54) ''ALARM!'' GUI_C_WHITE (if flash then GUI_C_BR_RED else GUI_C_LTGRAY) fb
                } else gui_draw_text (wx + 8) (wy + 54) (fmt_uint (of_int (left sdiv 1000))) GUI_C_BLACK GUI_C_LTGRAY fb
           else Some fb);
         gui_draw_text (wx + 8) (wy + 88) ''ENT=arm  0-9'' GUI_C_DKGRAY GUI_C_LTGRAY fb
       });
     gui_draw_text (wx + 8) (wy + wh - 18) ''1=clk 2=SW 3=TMR 4=ALM'' GUI_C_DKGRAY GUI_C_LTGRAY fb
   }"

definition snake_draw :: "int \<Rightarrow> int \<Rightarrow> snake \<Rightarrow> fb \<Rightarrow> fb option" where
  "snake_draw gx gy s fb = do {
     fb \<leftarrow> gui_draw_fill_rect gx gy (GRID_W * CELL) (GRID_H * CELL) GUI_C_BLACK fb;
     fb \<leftarrow> for_each [0..GRID_H - 1] (\<lambda>y. for_each [0..GRID_W - 1] (\<lambda>x.
       gui_draw_fill_rect (gx + x * CELL) (gy + y * CELL) (CELL - 1) (CELL - 1) GUI_C_DKGRAY)) fb;
     fb \<leftarrow> (if snake_alive s then do {
         fb \<leftarrow> gui_draw_fill_rect (gx + snake_fx s * CELL) (gy + snake_fy s * CELL) (CELL - 1) (CELL - 1) GUI_C_BR_RED fb;
         for_each [0..<snake_len s] (\<lambda>i.
           gui_draw_fill_rect (gx + snake_x s ! i * CELL) (gy + snake_y s ! i * CELL) (CELL - 1) (CELL - 1)
             (if i = 0 then GUI_C_BR_GREEN else GUI_C_GREEN)) fb
       } else gui_draw_text (gx + 20) (gy + GRID_H * CELL sdiv 2 - 4) ''GAME OVER'' GUI_C_BR_RED GUI_C_BLACK fb);
     gui_draw_text gx (gy + GRID_H * CELL + 2) ''WASD move  R restart'' GUI_C_BLACK GUI_C_LTGRAY fb
   }"

definition draw_snake :: "int \<Rightarrow> int \<Rightarrow> bool \<Rightarrow> snake \<Rightarrow> fb \<Rightarrow> fb option" where
  "draw_snake wx wy front s fb = do {
     let ww = GRID_W * CELL + 16;
     let wh = GRID_H * CELL + 44;
     fb \<leftarrow> gui_draw_window wx wy ww wh ''Snake'' front fb;
     snake_draw (wx + 8) (wy + 18) s fb
   }"

definition draw_paint :: "int \<Rightarrow> int \<Rightarrow> bool \<Rightarrow> paint \<Rightarrow> fb \<Rightarrow> fb option" where
  "draw_paint wx wy front p fb = do {
     let ww = 280;
     let wh = 168;
     fb \<leftarrow> gui_draw_window wx wy ww wh ''Paint'' front fb;
     fb \<leftarrow> gui_draw_button (wx + 8) (wy + 18) 44 14 ''Clear'' False False fb;
     fb \<leftarrow> gui_draw_button (wx + 56) (wy + 18) 44 14 ''Brush'' False (paint_tool p = 0 \<and> front) fb;
     fb \<leftarrow> gui_draw_button (wx + 104) (wy + 18) 44 14 ''Erase'' False (paint_tool p \<noteq> 0 \<and> front) fb;
     let cx0 = wx + 8;
     let cy0 = wy + 18 + PAINT_TOOLBAR_H;
     fb \<leftarrow> gui_draw_fill_rect (cx0 - 1) (cy0 - 1) (PAINT_CW + 2) (PAINT_CH + 2) GUI_C_DKGRAY fb;
     fb \<leftarrow> for_each [0..PAINT_CH - 1] (\<lambda>y.
       let row = cy0 + y
       in for_each [0..PAINT_CW - 1] (\<lambda>x. fb_put (row * GUI_FB_W + (cx0 + x)) (paint_canvas p ! nat (y * PAINT_CW + x)))) fb;
     let pal_y = cy0 + PAINT_CH + 4;
     fb \<leftarrow> for_each [0..15] (\<lambda>i fb. do {
       let hi = (if paint_color p = of_int i \<and> front then GUI_C_WHITE else GUI_C_DKGRAY);
       fb \<leftarrow> gui_draw_fill_rect (wx + 8 + i * 16 - 1) (pal_y - 1) 16 16 hi fb;
       gui_draw_fill_rect (wx + 8 + i * 16) pal_y 14 14 (of_int i) fb
     }) fb;
     gui_draw_text (wx + 6) (wy + wh - 12) ''drag=draw  C=clear'' GUI_C_DKGRAY GUI_C_LTGRAY fb
   }"

text \<open>One cell of the minesweeper grid: hidden, flagged, a mine, or open with its number.\<close>

definition draw_cell :: "int \<Rightarrow> int \<Rightarrow> nat \<Rightarrow> mines \<Rightarrow> fb \<Rightarrow> fb option" where
  "draw_cell cx cy i m fb =
     (if ms_vis m ! i = 0 then do {
        fb \<leftarrow> gui_draw_fill_rect cx cy (MS_CSZ - 1) (MS_CSZ - 1) GUI_C_LTGRAY fb;
        fb \<leftarrow> gui_draw_fill_rect cx cy (MS_CSZ - 1) 1 GUI_C_WHITE fb;
        fb \<leftarrow> gui_draw_fill_rect cx cy 1 (MS_CSZ - 1) GUI_C_WHITE fb;
        fb \<leftarrow> gui_draw_fill_rect (cx + MS_CSZ - 2) cy 1 (MS_CSZ - 1) GUI_C_DKGRAY fb;
        gui_draw_fill_rect cx (cy + MS_CSZ - 2) (MS_CSZ - 1) 1 GUI_C_DKGRAY fb
      } else if ms_vis m ! i = 2 then do {
        fb \<leftarrow> gui_draw_fill_rect cx cy (MS_CSZ - 1) (MS_CSZ - 1) GUI_C_LTGRAY fb;
        gui_draw_text (cx + 3) (cy + 3) ''F'' GUI_C_BR_RED GUI_C_LTGRAY fb
      } else if ms_mine m ! i \<noteq> 0 then do {
        fb \<leftarrow> gui_draw_fill_rect cx cy (MS_CSZ - 1) (MS_CSZ - 1) (if ms_dead m then GUI_C_BR_RED else GUI_C_MAGENTA) fb;
        gui_draw_text (cx + 3) (cy + 3) ''*'' GUI_C_BLACK (if ms_dead m then GUI_C_BR_RED else GUI_C_MAGENTA) fb
      } else do {
        fb \<leftarrow> gui_draw_fill_rect cx cy (MS_CSZ - 1) (MS_CSZ - 1) GUI_C_LTGRAY fb;
        let a = int (unat (ms_adj m ! i));
        (if a > 0 then gui_draw_text (cx + 3) (cy + 3) [byte_char (48 + of_int a)] (ms_digit_color a) GUI_C_LTGRAY fb else Some fb)
      })"

definition draw_minesweeper :: "int \<Rightarrow> int \<Rightarrow> bool \<Rightarrow> mines \<Rightarrow> fb \<Rightarrow> fb option" where
  "draw_minesweeper wx wy front m fb = do {
     let ww = 8 + MS_COLS * MS_CSZ + 8;
     let wh = 34 + MS_ROWS * MS_CSZ + 22;
     fb \<leftarrow> gui_draw_window wx wy ww wh ''Minesweeper'' front fb;
     fb \<leftarrow> gui_draw_button (wx + 8) (wy + 18) 52 14 ''New'' False False fb;
     let gx = wx + 8;
     let gy = wy + 34;
     fb \<leftarrow> for_each [0..MS_ROWS - 1] (\<lambda>y. for_each [0..MS_COLS - 1] (\<lambda>x.
       draw_cell (gx + x * MS_CSZ) (gy + y * MS_CSZ) (nat (y * MS_COLS + x)) m)) fb;
     fb \<leftarrow> (if ms_win m then gui_draw_text gx (gy + MS_ROWS * MS_CSZ + 4) ''YOU WIN'' GUI_C_BR_GREEN GUI_C_LTGRAY fb
           else if ms_dead m then gui_draw_text gx (gy + MS_ROWS * MS_CSZ + 4) ''BOOM'' GUI_C_BR_RED GUI_C_LTGRAY fb
           else Some fb);
     gui_draw_text (wx + 6) (wy + wh - 12) ''L=open r=flag New R'' GUI_C_DKGRAY GUI_C_LTGRAY fb
   }"

section \<open>The desktop\<close>

definition draw_app :: "u32 \<Rightarrow> gui \<Rightarrow> nat \<Rightarrow> fb \<Rightarrow> fb option" where
  "draw_app now g z fb =
     (let depth = int z; wx = 12 + depth * 10; wy = 16 + depth * 8; front = (z = length (g_stack g) - 1)
      in case g_stack g ! z of
           APP_PROGRAM_MANAGER \<Rightarrow> draw_program_manager wx wy front g fb
         | APP_FILE_MANAGER \<Rightarrow> draw_file_manager wx wy front g fb
         | APP_CALCULATOR \<Rightarrow> draw_calculator wx wy front (g_calc g) fb
         | APP_NOTEPAD \<Rightarrow> draw_notepad wx wy front (g_note g) fb
         | APP_CLOCK \<Rightarrow> draw_clock wx wy front now (g_clk g) fb
         | APP_SNAKE \<Rightarrow> draw_snake wx wy front (g_snake g) fb
         | APP_PAINT \<Rightarrow> draw_paint wx wy front (g_paint g) fb
         | APP_MINESWEEPER \<Rightarrow> draw_minesweeper wx wy front (g_ms g) fb
         | APP_NONE \<Rightarrow> Some fb)"

definition draw_desktop :: "u32 \<Rightarrow> gui \<Rightarrow> fb \<Rightarrow> fb option" where
  "draw_desktop now g fb = do {
     fb \<leftarrow> gui_draw_fill_rect 0 0 GUI_FB_W GUI_FB_H GUI_C_BR_BLUE fb;
     fb \<leftarrow> gui_draw_fill_rect 0 (GUI_FB_H - 14) GUI_FB_W 14 GUI_C_DKGRAY fb;
     fb \<leftarrow> gui_draw_text 4 (GUI_FB_H - 12) (''ESC close/quit  '' @ [CHR 0x60] @ '' Program Mgr'') GUI_C_WHITE GUI_C_DKGRAY fb;
     for_each [0..<length (g_stack g)] (draw_app now g) fb
   }"

section \<open>Drawing stays inside the frame buffer\<close>

lemma draws_prod [draws_intros]: "draws (\<lambda>fb. (case p of (a, b) \<Rightarrow> f a b fb))" if "\<And>a b. draws (f a b)"
  using that by (cases p) simp

lemma note_chars_stays: "length fb = 64000 \<Longrightarrow> \<exists>fb'. note_chars wx wy cs r c fb = Some fb' \<and> length fb' = 64000"
proof (induction wx wy cs r c fb rule: note_chars.induct)
  case (1 wx wy r c fb)
  then show ?case by (simp add: note_chars.simps)
next
  case (2 wx wy ch cs r c fb)
  let ?fill = "gui_draw_fill_rect (wx + 8 + int c * 8) (wy + 30 + int r * 8) 8 8 GUI_C_WHITE"
  let ?text = "gui_draw_text (wx + 8 + int c * 8) (wy + 30 + int r * 8) [byte_char ch] GUI_C_BLACK GUI_C_WHITE"
  obtain f1 where f1: "?fill fb = Some f1" "length f1 = 64000" using drawsD [OF draws_fill_rect 2(4)] by blast
  obtain f2 where f2: "?text f1 = Some f2" "length f2 = 64000" using drawsD [OF draws_text f1(2)] by blast
  consider "\<not> r < NOTE_ROWS" | "r < NOTE_ROWS" "ch = 10" | "r < NOTE_ROWS" "ch \<noteq> 10" "c \<ge> NOTE_COLS"
    | "r < NOTE_ROWS" "ch \<noteq> 10" "\<not> c \<ge> NOTE_COLS" by blast
  then show ?case
  proof cases
    case 1
    with 2(4) show ?thesis by (simp add: note_chars.simps)
  next
    case 2
    with "2.IH"(1) "2.prems" show ?thesis by (simp add: note_chars.simps)
  next
    case 3
    with "2.IH"(2) "2.prems" show ?thesis by (simp add: note_chars.simps(2) [of _ _ ch])
  next
    case 4
    with "2.IH"(3) [OF _ _ _ refl refl f1(1) f2(1) f2(2)] f1 f2 show ?thesis by (simp add: note_chars.simps(2) [of _ _ ch] Let_def)
  qed
qed

lemma draws_note_chars [draws_intros]: "draws (note_chars wx wy cs r c)"
  by (rule drawsI) (rule note_chars_stays)

lemma draws_program_manager [draws_intros]: "draws (draw_program_manager wx wy front g)"
  unfolding draw_program_manager_def Let_def by (intro draws_intros)

lemma draws_file_manager [draws_intros]: "draws (draw_file_manager wx wy front g)"
  unfolding draw_file_manager_def Let_def by (intro draws_intros)

lemma draws_calculator [draws_intros]: "draws (draw_calculator wx wy front s)"
  unfolding draw_calculator_def Let_def by (intro draws_intros)

lemma draws_notepad [draws_intros]: "draws (draw_notepad wx wy front n)"
  unfolding draw_notepad_def Let_def by (intro draws_intros)

lemma draws_clock [draws_intros]: "draws (draw_clock wx wy front now k)"
  unfolding draw_clock_def Let_def by (intro draws_intros)

lemma draws_snake [draws_intros]: "draws (draw_snake wx wy front s)"
  unfolding draw_snake_def snake_draw_def Let_def by (intro draws_intros)

lemma draws_cell [draws_intros]: "draws (draw_cell cx cy i m)"
  unfolding draw_cell_def Let_def by (intro draws_intros)

lemma draws_minesweeper [draws_intros]: "draws (draw_minesweeper wx wy front m)"
  unfolding draw_minesweeper_def Let_def by (intro draws_intros)

text \<open>The canvas is copied without clipping: at every position in the stack it lies inside the screen.\<close>

lemma draws_paint:
  assumes "z < 8"
  shows "draws (draw_paint (12 + int z * 10) (16 + int z * 8) front p)"
proof -
  have "0 \<le> (16 + int z * 8 + 18 + PAINT_TOOLBAR_H + y) * GUI_FB_W + (12 + int z * 10 + 8 + x)
      \<and> (16 + int z * 8 + 18 + PAINT_TOOLBAR_H + y) * GUI_FB_W + (12 + int z * 10 + 8 + x) < 64000"
    if "y \<in> set [0..PAINT_CH - 1]" "x \<in> set [0..PAINT_CW - 1]" for x y
    using that assms by (simp add: PAINT_TOOLBAR_H_def PAINT_CH_def PAINT_CW_def GUI_FB_W_def)
  then show ?thesis unfolding draw_paint_def Let_def by (intro draws_intros; blast)
qed

text \<open>The array \<open>t\<close> of \<open>fmt_uint\<close> has 12 characters, the line of the clock 48.\<close>

lemma fmt_uint_fits: "length (fmt_uint v) \<le> 10"
proof -
  have "unat v < 2 ^ LENGTH(32)" by (rule unsigned_less)
  then have "unat v < 10 ^ 10" by simp
  from tmp_digits_length [OF this] show ?thesis by (simp add: fmt_uint_def)
qed

lemma clock_line_fits: "length (clock_line now) < 48"
  using fmt_uint_fits [of "now div 1000 div 3600 mod 99"] fmt_uint_fits [of "now div 1000 div 60 mod 60"]
    fmt_uint_fits [of "now div 1000 mod 60"]
  by (simp add: clock_line_def Let_def)

lemma draws_desktop:
  assumes "length (g_stack g) \<le> 8"
  shows "draws (draw_desktop now g)"
proof -
  have "draws (draw_app now g z)" if "z \<in> set [0..<length (g_stack g)]" for z
    using draws_paint [of z] that assms unfolding draw_app_def Let_def
    by (cases "g_stack g ! z") (simp_all add: draws_intros)
  then show ?thesis unfolding draw_desktop_def by (intro draws_intros)
qed

text \<open>C6: For every state the desktop can reach, at every time, drawing it succeeds: no store of the desktop,
  of any of its eight windows or of the unclipped canvas of Paint falls outside the 64000 bytes of the
  frame buffer, and the line of the clock fits its 48 bytes.\<close>

theorem draw_desktop_stays_inside:
  assumes "gui_reach g" and "length fb = 64000"
  shows "\<exists>fb'. draw_desktop now g fb = Some fb' \<and> length fb' = 64000 \<and> length (clock_line now) < 48"
proof -
  have z: "length (g_stack g) \<le> 8"
    using gui_reach_inv [OF assms(1)] by (simp add: gui_inv_def stack_inv_def MAX_STACK_def)
  then have "draws (draw_desktop now g)" by (rule draws_desktop)
  then show ?thesis using drawsD assms(2) clock_line_fits by blast
qed

theorem draw_desktop_stays_inside_witness:
  "\<exists>g fb'. gui_start 0 5 (gui_boot (fs_init fs_boot) kbd_boot) = Some g
     \<and> draw_desktop 7 g (replicate 64000 0) = Some fb' \<and> length fb' = 64000"
proof -
  obtain g where g: "gui_start 0 5 (gui_boot (fs_init fs_boot) kbd_boot) = Some g" by (rule desktop_start)
  with draw_desktop_stays_inside [OF gui_reach.start [OF fs_reach_boot kbd_reach.boot g], of "replicate 64000 0" 7]
  show ?thesis by auto
qed

end
