(* ===== verification/Vga13.thy ===== *)
theory Vga13
  imports Kprelude
begin

text \<open>
  The driver of VGA mode 13h (\<^verbatim>\<open>src/kernel/drivers/video_mode13.c\<close>). The ports lead to the registers of the
  card, in four files that are reached by writing the number of a register to an index port and then
  using a data port. Two rules of the hardware matter: bit 7 of the CRTC register 0x11 protects the
  registers 0 to 7, and the attribute controller has one port for the index and the data, with a
  flip-flop that tells which is next, that every write toggles and that reading the status port clears;
  reading a register through \<open>AC_RD\<close> leaves it alone. The variables of the driver and the card are one
  record. \<open>restore_state\<close> reads four bytes past the end of \<open>saved_attr\<close>, which C leaves undefined: \<open>v_behind\<close>, a
  parameter of the state, is what can be read there. At the start it is empty, and the read is \<open>None\<close>; with four bytes in
  it the model is of a build that finds these behind the array.
\<close>

definition SEQ_IDX :: u16 where "SEQ_IDX = 0x3C4"
definition SEQ_DAT :: u16 where "SEQ_DAT = 0x3C5"
definition GC_IDX :: u16 where "GC_IDX = 0x3CE"
definition GC_DAT :: u16 where "GC_DAT = 0x3CF"
definition CRTC_IDX :: u16 where "CRTC_IDX = 0x3D4"
definition CRTC_DAT :: u16 where "CRTC_DAT = 0x3D5"
definition AC_IDX :: u16 where "AC_IDX = 0x3C0"
definition AC_RD :: u16 where "AC_RD = 0x3C1"
definition MISC_WR :: u16 where "MISC_WR = 0x3C2"
definition DAC_WR :: u16 where "DAC_WR = 0x3C8"
definition DAC_DAT :: u16 where "DAC_DAT = 0x3C9"
definition IN_STAT :: u16 where "IN_STAT = 0x3DA"
definition MISC_RD :: u16 where "MISC_RD = 0x3CC"
definition MODE13_FB :: u64 where "MODE13_FB = 0xA0000"

record card =
  c_misc :: u8
  c_seq_ix :: nat
  c_seq :: "nat \<Rightarrow> u8"
  c_gc_ix :: nat
  c_gc :: "nat \<Rightarrow> u8"
  c_crtc_ix :: nat
  c_crtc :: "nat \<Rightarrow> u8"
  c_attr_ix :: u8
  c_attr_data :: bool
  c_attr :: "nat \<Rightarrow> u8"
  c_dac_pos :: nat
  c_dac :: "nat \<Rightarrow> u8"

section \<open>Ports\<close>

definition protected :: "card \<Rightarrow> bool" where
  "protected c \<longleftrightarrow> c_crtc_ix c \<le> 7 \<and> c_crtc c 0x11 AND 0x80 \<noteq> 0"

definition outb :: "u16 \<Rightarrow> u8 \<Rightarrow> card \<Rightarrow> card" where
  "outb port v c =
     (if port = SEQ_IDX then c\<lparr>c_seq_ix := unat v\<rparr>
      else if port = SEQ_DAT then c\<lparr>c_seq := (c_seq c)(c_seq_ix c := v)\<rparr>
      else if port = GC_IDX then c\<lparr>c_gc_ix := unat v\<rparr>
      else if port = GC_DAT then c\<lparr>c_gc := (c_gc c)(c_gc_ix c := v)\<rparr>
      else if port = CRTC_IDX then c\<lparr>c_crtc_ix := unat v\<rparr>
      else if port = CRTC_DAT then (if protected c then c else c\<lparr>c_crtc := (c_crtc c)(c_crtc_ix c := v)\<rparr>)
      else if port = AC_IDX then
        (if c_attr_data c then c\<lparr>c_attr := (c_attr c)(unat (c_attr_ix c AND 0x1F) := v), c_attr_data := False\<rparr>
         else c\<lparr>c_attr_ix := v, c_attr_data := True\<rparr>)
      else if port = MISC_WR then c\<lparr>c_misc := v\<rparr>
      else if port = DAC_WR then c\<lparr>c_dac_pos := 3 * unat v\<rparr>
      else if port = DAC_DAT then c\<lparr>c_dac := (c_dac c)(c_dac_pos c := v), c_dac_pos := (c_dac_pos c + 1) mod 768\<rparr>
      else c)"

definition inb :: "u16 \<Rightarrow> card \<Rightarrow> u8 \<times> card" where
  "inb port c =
     (if port = SEQ_DAT then (c_seq c (c_seq_ix c), c)
      else if port = GC_DAT then (c_gc c (c_gc_ix c), c)
      else if port = CRTC_DAT then (c_crtc c (c_crtc_ix c), c)
      else if port = AC_RD then (c_attr c (unat (c_attr_ix c AND 0x1F)), c)
      else if port = MISC_RD then (c_misc c, c)
      else if port = IN_STAT then (0, c\<lparr>c_attr_data := False\<rparr>)
      else (0, c))"

lemmas ports = SEQ_IDX_def SEQ_DAT_def GC_IDX_def GC_DAT_def CRTC_IDX_def CRTC_DAT_def AC_IDX_def AC_RD_def MISC_WR_def
  DAC_WR_def DAC_DAT_def IN_STAT_def MISC_RD_def

section \<open>The driver\<close>

record video =
  saved_sequencer :: "u8 list"
  saved_gc :: "u8 list"
  saved_crtc :: "u8 list"
  saved_attr :: "u8 list"
  saved_misc :: u8
  mode13_active :: bool
  v_behind :: "u8 list"
  v_card :: card

definition write_sequencer :: "u8 \<Rightarrow> u8 \<Rightarrow> card \<Rightarrow> card" where
  "write_sequencer ix v c = outb SEQ_DAT v (outb SEQ_IDX ix c)"

definition write_gc :: "u8 \<Rightarrow> u8 \<Rightarrow> card \<Rightarrow> card" where
  "write_gc ix v c = outb GC_DAT v (outb GC_IDX ix c)"

definition write_crtc :: "u8 \<Rightarrow> u8 \<Rightarrow> card \<Rightarrow> card" where
  "write_crtc ix v c = outb CRTC_DAT v (outb CRTC_IDX ix c)"

definition read_crtc :: "u8 \<Rightarrow> card \<Rightarrow> u8 \<times> card" where
  "read_crtc ix c = inb CRTC_DAT (outb CRTC_IDX ix c)"

text \<open>A loop that fills \<open>n\<close> elements of an array with what reading through a pair of ports gives.\<close>

fun read_regs :: "u16 \<Rightarrow> u16 \<Rightarrow> nat \<Rightarrow> nat \<Rightarrow> card \<Rightarrow> u8 list \<times> card" where
  "read_regs idx dat i 0 c = ([], c)"
| "read_regs idx dat i (Suc n) c =
     (let (v, c) = inb dat (outb idx (of_nat i) c); (vs, c) = read_regs idx dat (i + 1) n c in (v # vs, c))"

definition read_attr :: "card \<Rightarrow> u8 list \<times> card" where
  "read_attr c =
     (let (_, c) = inb IN_STAT c; (vs, c) = read_regs AC_IDX AC_RD 0 21 c; (_, c) = inb IN_STAT c in (vs, c))"

definition write_attr :: "u8 \<Rightarrow> u8 \<Rightarrow> card \<Rightarrow> card" where
  "write_attr ix v c =
     (let (_, c) = inb IN_STAT c; c = outb AC_IDX ix c; c = outb AC_IDX v c; (_, c) = inb IN_STAT c in c)"

definition save_state :: "video \<Rightarrow> video" where
  "save_state v =
     (let (m, c) = inb MISC_RD (v_card v);
          (sq, c) = read_regs SEQ_IDX SEQ_DAT 0 5 c;
          (gc, c) = read_regs GC_IDX GC_DAT 0 9 c;
          (cr, c) = read_regs CRTC_IDX CRTC_DAT 0 25 c;
          (at, c) = read_attr c
      in v\<lparr>saved_misc := m, saved_sequencer := sq, saved_gc := gc, saved_crtc := cr, saved_attr := at, v_card := c\<rparr>)"

text \<open>\<open>for (i = 0; i < n; i++) write(i, a[i])\<close>\<close>

definition write_all :: "(u8 \<Rightarrow> u8 \<Rightarrow> card \<Rightarrow> card) \<Rightarrow> nat \<Rightarrow> u8 list \<Rightarrow> card \<Rightarrow> card" where
  "write_all w n a c = fold (\<lambda>i. w (of_nat i) (a ! i)) [0..<n] c"

definition restore_state :: "video \<Rightarrow> video option" where
  "restore_state v =
     (if length (saved_attr v @ v_behind v) < 25 then None
      else let c = snd (inb IN_STAT (v_card v));
          c = write_all write_attr 25 (saved_attr v @ v_behind v) c;
          c = outb AC_IDX 0x20 c;
          c = write_all write_sequencer 5 (saved_sequencer v) c;
          c = write_all write_gc 9 (saved_gc v) c;
          (crtc_prot, c) = read_crtc 0x11 c;
          c = write_crtc 0x11 (crtc_prot AND 0x7F) c;
          c = write_all write_crtc 25 (saved_crtc v) c;
          c = write_crtc 0x11 crtc_prot c;
          c = outb MISC_WR (saved_misc v) c
      in Some (v\<lparr>v_card := c\<rparr>))"

text \<open>The writes of a list of (register, value) pairs, one after the other.\<close>

definition write_pairs :: "(u8 \<Rightarrow> u8 \<Rightarrow> card \<Rightarrow> card) \<Rightarrow> (u8 \<times> u8) list \<Rightarrow> card \<Rightarrow> card" where
  "write_pairs w ps c = fold (\<lambda>(ix, v). w ix v) ps c"

definition set_mode13_registers :: "card \<Rightarrow> card" where
  "set_mode13_registers c =
     (let c = outb MISC_WR 0x63 c;
          c = write_pairs write_sequencer [(0x00, 0x03), (0x01, 0x01), (0x02, 0x0F), (0x03, 0x00), (0x04, 0x06)] c;
          c = write_pairs write_gc [(0x00, 0x00), (0x01, 0x00), (0x02, 0x00), (0x03, 0x00), (0x04, 0x00), (0x05, 0x40),
            (0x06, 0x05), (0x07, 0x0F), (0x08, 0xFF)] c;
          (cr11, c) = read_crtc 0x11 c;
          c = write_crtc 0x11 (cr11 AND 0x7F) c;
          c = write_pairs write_crtc [(0x00, 0x5F), (0x01, 0x4F), (0x02, 0x50), (0x03, 0x82), (0x04, 0x54), (0x05, 0x80),
            (0x06, 0xBF), (0x07, 0x1F), (0x08, 0x00), (0x09, 0x41), (0x10, 0x00), (0x11, 0x40), (0x12, 0x00), (0x13, 0x00),
            (0x14, 0x00), (0x15, 0x00), (0x16, 0x00), (0x17, 0x9C), (0x18, 0x8E), (0x19, 0x8F), (0x20, 0x40), (0x21, 0x00),
            (0x22, 0x07), (0x23, 0x00), (0x24, 0x00)] c;
          c = write_crtc 0x11 cr11 c;
          c = fold (\<lambda>i. write_attr (of_nat i) (of_nat i)) [0..<16] c;
          c = write_pairs write_attr [(0x10, 0x41), (0x11, 0x00), (0x12, 0x0F), (0x13, 0x00), (0x14, 0x00)] c
      in outb AC_IDX 0x20 c)"

definition video_mode13_enter :: "video \<Rightarrow> video" where
  "video_mode13_enter v =
     (if mode13_active v then v
      else let v = save_state v in v\<lparr>v_card := set_mode13_registers (v_card v), mode13_active := True\<rparr>)"

definition video_mode13_leave :: "video \<Rightarrow> video option" where
  "video_mode13_leave v =
     (if \<not> mode13_active v then Some v else map_option (\<lambda>v. v\<lparr>mode13_active := False\<rparr>) (restore_state v))"

definition video_mode13_framebuffer :: u64 where
  "video_mode13_framebuffer = MODE13_FB"

text \<open>\<open>rgb\<close> has 768 bytes.\<close>

definition video_mode13_set_palette :: "u8 list \<Rightarrow> video \<Rightarrow> video" where
  "video_mode13_set_palette rgb v =
     v\<lparr>v_card := fold (\<lambda>i c. outb DAC_DAT (rgb ! (i * 3 + 2)) (outb DAC_DAT (rgb ! (i * 3 + 1))
       (outb DAC_DAT (rgb ! (i * 3)) (outb DAC_WR (of_nat i) c)))) [0..<256] (v_card v)\<rparr>"

section \<open>Reading a register file\<close>

text \<open>A register file that is read by selecting a register and reading its value.\<close>

locale reg_file =
  fixes idx dat :: u16 and reg :: "card \<Rightarrow> nat \<Rightarrow> u8" and select :: "nat \<Rightarrow> card \<Rightarrow> card"
  assumes read: "j < 256 \<Longrightarrow> inb dat (outb idx (of_nat j) c) = (reg c j, select j c)"
    and reg_select: "reg (select j c) = reg c"
    and select_select: "select j (select k c) = select j c"
begin

lemma read_all: "i + n < 256 \<Longrightarrow> read_regs idx dat i (Suc n) c = (map (reg c) [i..<i + Suc n], select (i + n) c)"
proof (induction n arbitrary: i c)
  case 0
  then show ?case by (simp add: read)
next
  case (Suc n)
  have "read_regs idx dat (i + 1) (Suc n) (select i c) = (map (reg c) [i + 1..<i + 1 + Suc n], select (i + 1 + n) c)"
    using Suc.IH [of "i + 1" "select i c"] Suc.prems by (simp add: reg_select select_select)
  moreover have "[i..<i + Suc (Suc n)] = i # [i + 1..<i + 1 + Suc n]" by (simp add: upt_rec)
  ultimately show ?case using Suc.prems by (subst read_regs.simps) (simp add: read)
qed

end

lemma of_nat_byte [simp]: "j < 256 \<Longrightarrow> unat (of_nat j :: u8) = j"
  by (simp add: unat_of_nat take_bit_eq_mod)

interpretation sq: reg_file SEQ_IDX SEQ_DAT c_seq "\<lambda>j c. c\<lparr>c_seq_ix := j\<rparr>"
  by unfold_locales (simp_all add: inb_def outb_def ports)

interpretation gc: reg_file GC_IDX GC_DAT c_gc "\<lambda>j c. c\<lparr>c_gc_ix := j\<rparr>"
  by unfold_locales (simp_all add: inb_def outb_def ports)

interpretation cr: reg_file CRTC_IDX CRTC_DAT c_crtc "\<lambda>j c. c\<lparr>c_crtc_ix := j\<rparr>"
  by unfold_locales (simp_all add: inb_def outb_def ports)

text \<open>The attribute registers are read without clearing the flip-flop in between: every second index is
  taken as data for the register before.\<close>

lemma low5: "n < 32 \<Longrightarrow> unat ((of_nat n :: u8) AND 0x1F) = n"
proof -
  have "\<forall>n \<in> set [0..<32]. unat ((of_nat n :: u8) AND 0x1F) = n" by code_simp
  then show "n < 32 \<Longrightarrow> ?thesis" by simp
qed

definition ac_wrote :: "nat \<Rightarrow> nat \<Rightarrow> (nat \<Rightarrow> u8) \<Rightarrow> nat \<Rightarrow> u8" where
  "ac_wrote i m f = (\<lambda>j. if even j \<and> i \<le> j \<and> j < m then of_nat (j + 1) else f j)"

definition ac_read :: "(nat \<Rightarrow> u8) \<Rightarrow> nat \<Rightarrow> u8" where
  "ac_read f i = (if even i then f i else of_nat i)"

lemma two_reads:
  assumes "even i" and "i + 1 < 32" and "\<not> c_attr_data c"
  shows "read_regs AC_IDX AC_RD i (Suc (Suc n)) c
    = (let (vs, c') = read_regs AC_IDX AC_RD (i + 2) n (c\<lparr>c_attr_ix := of_nat i, c_attr := (c_attr c)(i := of_nat (i + 1))\<rparr>)
       in (c_attr c i # of_nat (i + 1) # vs, c'))"
  using assms low5 [of i] by (cases c) (simp add: inb_def outb_def ports split: prod.split)

lemma read_attr_regs:
  "even i \<Longrightarrow> i + 2 * k < 32 \<Longrightarrow> \<not> c_attr_data c \<Longrightarrow> read_regs AC_IDX AC_RD i (Suc (2 * k)) c
    = (map (ac_read (c_attr c)) [i..<i + Suc (2 * k)],
       c\<lparr>c_attr_ix := of_nat (i + 2 * k), c_attr_data := True, c_attr := ac_wrote i (i + 2 * k) (c_attr c)\<rparr>)"
proof (induction k arbitrary: i c)
  case 0
  have "ac_wrote i i (c_attr c) = c_attr c" by (auto simp: ac_wrote_def fun_eq_iff)
  with 0 low5 [of i] show ?case by (simp add: inb_def outb_def ports ac_read_def)
next
  case (Suc k)
  let ?c = "c\<lparr>c_attr_ix := of_nat i, c_attr := (c_attr c)(i := of_nat (i + 1))\<rparr>"
  have r: "ac_read (c_attr ?c) j = ac_read (c_attr c) j" if "j \<in> set [i + 2..<i + 2 + Suc (2 * k)]" for j
    using that unfolding set_upt by (simp add: ac_read_def)
  have m: "map (ac_read (c_attr ?c)) [i + 2..<i + 2 + Suc (2 * k)] = map (ac_read (c_attr c)) [i + 2..<i + 2 + Suc (2 * k)]"
    by (rule map_cong [OF refl r])
  have l: "[i..<i + Suc (2 * Suc k)] = i # (i + 1) # [i + 2..<i + 2 + Suc (2 * k)]" by (simp add: upt_rec)
  have w: "ac_wrote (i + 2) (i + 2 + 2 * k) (c_attr ?c) = ac_wrote i (i + 2 * Suc k) (c_attr c)"
    using Suc.prems(1) by (auto simp: ac_wrote_def fun_eq_iff) presburger?
  have e: "Suc (2 * Suc k) = Suc (Suc (Suc (2 * k)))" by simp
  have IH: "read_regs AC_IDX AC_RD (i + 2) (Suc (2 * k)) ?c = (map (ac_read (c_attr ?c)) [i + 2..<i + 2 + Suc (2 * k)],
       ?c\<lparr>c_attr_ix := of_nat (i + 2 + 2 * k), c_attr_data := True, c_attr := ac_wrote (i + 2) (i + 2 + 2 * k) (c_attr ?c)\<rparr>)"
    by (rule Suc.IH) (use Suc.prems in simp_all)
  show ?case
    unfolding e using two_reads [OF Suc.prems(1) _ Suc.prems(3), of "Suc (2 * k)"] Suc.prems(1,2)
    by (simp only: IH m w l [unfolded e] Let_def prod.case list.map) (simp add: ac_read_def)
qed

lemma read_attr_eq:
  "read_attr c = (map (ac_read (c_attr c)) [0..<21],
     c\<lparr>c_attr_ix := 20, c_attr_data := False, c_attr := ac_wrote 0 20 (c_attr c)\<rparr>)"
proof -
  have "read_regs AC_IDX AC_RD 0 21 (c\<lparr>c_attr_data := False\<rparr>)
    = (map (ac_read (c_attr c)) [0..<21], c\<lparr>c_attr_ix := 20, c_attr_data := True, c_attr := ac_wrote 0 20 (c_attr c)\<rparr>)"
    using read_attr_regs [of 0 10 "c\<lparr>c_attr_data := False\<rparr>"] by simp
  then show ?thesis by (simp add: read_attr_def inb_def ports)
qed

section \<open>Writing a register file\<close>

definition filled :: "nat \<Rightarrow> u8 list \<Rightarrow> (nat \<Rightarrow> u8) \<Rightarrow> nat \<Rightarrow> u8" where
  "filled n a f = (\<lambda>j. if j < n then a ! j else f j)"

lemma filled_0 [simp]: "filled 0 a f = f"
  by (simp add: filled_def)

lemma filled_Suc: "(filled n a f)(n := a ! n) = filled (Suc n) a f"
  by (auto simp: filled_def fun_eq_iff less_Suc_eq)

lemma write_all_Suc: "write_all w (Suc n) a c = w (of_nat n) (a ! n) (write_all w n a c)"
  by (simp add: write_all_def)

lemma write_all_0 [simp]: "write_all w 0 a c = c"
  by (simp add: write_all_def)

lemma write_all_seq: "n \<le> 256 \<Longrightarrow> \<exists>k. write_all write_sequencer n a c = c\<lparr>c_seq_ix := k, c_seq := filled n a (c_seq c)\<rparr>"
proof (induction n)
  case (Suc n)
  then obtain k where "write_all write_sequencer n a c = c\<lparr>c_seq_ix := k, c_seq := filled n a (c_seq c)\<rparr>" by auto
  then have "write_all write_sequencer (Suc n) a c = c\<lparr>c_seq_ix := n, c_seq := filled (Suc n) a (c_seq c)\<rparr>"
    using Suc.prems by (simp add: write_all_Suc write_sequencer_def outb_def ports filled_Suc)
  then show ?case by blast
qed (auto intro: exI [of _ "c_seq_ix c"])

lemma write_all_gc: "n \<le> 256 \<Longrightarrow> \<exists>k. write_all write_gc n a c = c\<lparr>c_gc_ix := k, c_gc := filled n a (c_gc c)\<rparr>"
proof (induction n)
  case (Suc n)
  then obtain k where "write_all write_gc n a c = c\<lparr>c_gc_ix := k, c_gc := filled n a (c_gc c)\<rparr>" by auto
  then have "write_all write_gc (Suc n) a c = c\<lparr>c_gc_ix := n, c_gc := filled (Suc n) a (c_gc c)\<rparr>"
    using Suc.prems by (simp add: write_all_Suc write_gc_def outb_def ports filled_Suc)
  then show ?case by blast
qed (auto intro: exI [of _ "c_gc_ix c"])

lemma write_all_attr:
  "n \<le> 32 \<Longrightarrow> \<not> c_attr_data c \<Longrightarrow> \<exists>k. write_all write_attr n a c = c\<lparr>c_attr_ix := k, c_attr := filled n a (c_attr c)\<rparr>"
proof (induction n)
  case (Suc n)
  have m: "unat ((of_nat n :: u8) AND 0x1F) = n" using low5 Suc.prems(1) by simp
  from Suc obtain k where "write_all write_attr n a c = c\<lparr>c_attr_ix := k, c_attr := filled n a (c_attr c)\<rparr>" by auto
  then have "write_all write_attr (Suc n) a c = c\<lparr>c_attr_ix := of_nat n, c_attr := filled (Suc n) a (c_attr c)\<rparr>"
    using Suc.prems m by (simp add: write_all_Suc write_attr_def inb_def outb_def ports filled_Suc)
  then show ?case by blast
qed (auto intro: exI [of _ "c_attr_ix c"])

text \<open>The CRTC registers are written in ascending order, so the protection that register 0x11 may bring back
  comes too late to matter.\<close>

lemma write_all_crtc:
  assumes "c_crtc c 0x11 AND 0x80 = 0"
  shows "n \<le> 25 \<Longrightarrow> \<exists>k. write_all write_crtc n a c = c\<lparr>c_crtc_ix := k, c_crtc := filled n a (c_crtc c)\<rparr>"
proof (induction n)
  case (Suc n)
  have p: "n \<le> 7 \<Longrightarrow> filled n a (c_crtc c) 17 = c_crtc c 17" by (simp add: filled_def)
  from Suc obtain k where "write_all write_crtc n a c = c\<lparr>c_crtc_ix := k, c_crtc := filled n a (c_crtc c)\<rparr>" by auto
  then have "write_all write_crtc (Suc n) a c = c\<lparr>c_crtc_ix := n, c_crtc := filled (Suc n) a (c_crtc c)\<rparr>"
    using Suc.prems assms by (simp add: write_all_Suc write_crtc_def outb_def ports filled_Suc protected_def p cong: conj_cong)
  then show ?case by blast
qed (auto intro: exI [of _ "c_crtc_ix c"])

section \<open>Entering and leaving\<close>

lemma save_state_eq:
  "\<exists>sx gx cx. save_state v = v\<lparr>saved_misc := c_misc (v_card v), saved_sequencer := map (c_seq (v_card v)) [0..<5],
     saved_gc := map (c_gc (v_card v)) [0..<9], saved_crtc := map (c_crtc (v_card v)) [0..<25],
     saved_attr := map (ac_read (c_attr (v_card v))) [0..<21],
     v_card := (v_card v)\<lparr>c_seq_ix := sx, c_gc_ix := gx, c_crtc_ix := cx, c_attr_ix := 20, c_attr_data := False,
       c_attr := ac_wrote 0 20 (c_attr (v_card v))\<rparr>\<rparr>"
proof -
  let ?c = "v_card v"
  have "save_state v = v\<lparr>saved_misc := c_misc ?c, saved_sequencer := map (c_seq ?c) [0..<5],
     saved_gc := map (c_gc ?c) [0..<9], saved_crtc := map (c_crtc ?c) [0..<25], saved_attr := map (ac_read (c_attr ?c)) [0..<21],
     v_card := ?c\<lparr>c_seq_ix := 4, c_gc_ix := 8, c_crtc_ix := 24, c_attr_ix := 20, c_attr_data := False,
       c_attr := ac_wrote 0 20 (c_attr ?c)\<rparr>\<rparr>"
    using sq.read_all [of 0 4] gc.read_all [of 0 8] cr.read_all [of 0 24]
    by (simp add: save_state_def read_attr_eq) (simp add: inb_def ports)
  then show ?thesis by blast
qed

text \<open>Every port of a file leaves the other files alone.\<close>

lemma file_frames [simp]:
  "c_crtc (write_sequencer ix v c) = c_crtc c" "c_crtc (write_gc ix v c) = c_crtc c" "c_crtc (write_attr ix v c) = c_crtc c"
  "c_seq (write_gc ix v c) = c_seq c" "c_seq (write_crtc ix v c) = c_seq c" "c_seq (write_attr ix v c) = c_seq c"
  "c_gc (write_sequencer ix v c) = c_gc c" "c_gc (write_crtc ix v c) = c_gc c" "c_gc (write_attr ix v c) = c_gc c"
  "c_attr (write_sequencer ix v c) = c_attr c" "c_attr (write_gc ix v c) = c_attr c" "c_attr (write_crtc ix v c) = c_attr c"
  "c_dac (write_sequencer ix v c) = c_dac c" "c_dac (write_gc ix v c) = c_dac c" "c_dac (write_crtc ix v c) = c_dac c"
  "c_dac (write_attr ix v c) = c_dac c"
  by (simp_all add: write_sequencer_def write_gc_def write_crtc_def write_attr_def outb_def inb_def ports)

lemma port_frames [simp]:
  "c_seq (outb AC_IDX x c) = c_seq c" "c_gc (outb AC_IDX x c) = c_gc c" "c_crtc (outb AC_IDX x c) = c_crtc c" "c_dac (outb AC_IDX x c) = c_dac c"
  "c_seq (outb MISC_WR x c) = c_seq c" "c_gc (outb MISC_WR x c) = c_gc c" "c_crtc (outb MISC_WR x c) = c_crtc c" "c_dac (outb MISC_WR x c) = c_dac c"
  by (simp_all add: outb_def ports)

lemma read_17 [simp]:
  "fst (read_crtc 0x11 c) = c_crtc c 17" "c_seq (snd (read_crtc 0x11 c)) = c_seq c" "c_gc (snd (read_crtc 0x11 c)) = c_gc c"
  "c_crtc (snd (read_crtc 0x11 c)) = c_crtc c" "c_attr (snd (read_crtc 0x11 c)) = c_attr c" "c_dac (snd (read_crtc 0x11 c)) = c_dac c"
  by (simp_all add: read_crtc_def inb_def outb_def ports)

lemma fold_frame:
  assumes "\<And>x c. f (g x c) = f c"
  shows "f (fold g xs c) = f c"
  by (induction xs arbitrary: c) (simp_all add: assms)

lemma write_pairs_frame: "(\<And>ix v c. f (w ix v c) = f c) \<Longrightarrow> f (write_pairs w ps c) = f c"
  unfolding write_pairs_def by (rule fold_frame) (simp split: prod.split)

definition stores :: "(u8 \<times> u8) list \<Rightarrow> (nat \<Rightarrow> u8) \<Rightarrow> nat \<Rightarrow> u8" where
  "stores ps f = fold (\<lambda>(ix, v) f. f(unat ix := v)) ps f"

lemma write_pairs_seq: "c_seq (write_pairs write_sequencer ps c) = stores ps (c_seq c)"
  by (induction ps arbitrary: c) (auto simp: write_pairs_def stores_def write_sequencer_def outb_def ports)

lemma write_pairs_gc: "c_gc (write_pairs write_gc ps c) = stores ps (c_gc c)"
  by (induction ps arbitrary: c) (auto simp: write_pairs_def stores_def write_gc_def outb_def ports)

text \<open>The CRTC stays unlocked as long as nothing with bit 7 goes to register 0x11.\<close>

lemma write_pairs_crtc:
  "c_crtc c 17 AND 0x80 = 0 \<Longrightarrow> \<forall>(ix, v) \<in> set ps. ix = 0x11 \<longrightarrow> v AND 0x80 = 0
    \<Longrightarrow> c_crtc (write_pairs write_crtc ps c) = stores ps (c_crtc c)"
proof (induction ps arbitrary: c)
  case (Cons p ps)
  obtain ix v where p: "p = (ix, v)" by fastforce
  have w: "c_crtc (write_crtc ix v c) = (c_crtc c)(unat ix := v)"
    using Cons.prems(1) by (simp add: write_crtc_def outb_def ports protected_def)
  have "unat ix = 17 \<Longrightarrow> ix = 0x11" by (simp add: word_unat_eq_iff)
  then have "c_crtc (write_crtc ix v c) 17 AND 0x80 = 0" using Cons.prems p by (auto simp: w)
  then have "c_crtc (write_pairs write_crtc ps (write_crtc ix v c)) = stores ps ((c_crtc c)(unat ix := v))"
    unfolding w [symmetric] by (rule Cons.IH) (use Cons.prems(2) in simp)
  then show ?case by (simp add: write_pairs_def stores_def p)
qed (simp add: write_pairs_def stores_def)

lemma crtc_write_17: "c_crtc (write_crtc 0x11 v c) = (c_crtc c)(17 := v)"
  by (simp add: write_crtc_def outb_def ports protected_def)

text \<open>What entering the mode leaves of the registers that leaving it does not restore.\<close>

lemma set_mode13_regs:
  "\<forall>i \<ge> 5. c_seq (set_mode13_registers c) i = c_seq c i" "\<forall>i \<ge> 9. c_gc (set_mode13_registers c) i = c_gc c i"
  "c_crtc (set_mode13_registers c) 17 = c_crtc c 17" "c_dac (set_mode13_registers c) = c_dac c"
  "\<forall>i \<ge> 25. c_crtc (set_mode13_registers c) i = (if i = 0x19 then 0x8F else if i = 0x20 then 0x40 else if i = 0x22 then 7
     else if i \<in> {0x21, 0x23, 0x24} then 0 else c_crtc c i)"
proof -
  have lock: "(x AND 0x7F) AND 0x80 = 0" for x :: u8 by (simp add: and.assoc)
  have s: "f (write_pairs write_sequencer ps c) = f c" if "\<And>ix v c. f (write_sequencer ix v c) = f c" for f :: "card \<Rightarrow> nat \<Rightarrow> u8" and ps c
    by (rule write_pairs_frame) (rule that)
  have g: "f (write_pairs write_gc ps c) = f c" if "\<And>ix v c. f (write_gc ix v c) = f c" for f :: "card \<Rightarrow> nat \<Rightarrow> u8" and ps c
    by (rule write_pairs_frame) (rule that)
  have a: "f (write_pairs write_attr ps c) = f c" if "\<And>ix v c. f (write_attr ix v c) = f c" for f :: "card \<Rightarrow> nat \<Rightarrow> u8" and ps c
    by (rule write_pairs_frame) (rule that)
  have t: "f (write_pairs write_crtc ps c) = f c" if "\<And>ix v c. f (write_crtc ix v c) = f c" for f :: "card \<Rightarrow> nat \<Rightarrow> u8" and ps c
    by (rule write_pairs_frame) (rule that)
  have l: "f (fold (\<lambda>i. write_attr (of_nat i) (of_nat i)) xs c) = f c" if "\<And>ix v c. f (write_attr ix v c) = f c"
    for f :: "card \<Rightarrow> nat \<Rightarrow> u8" and xs c by (rule fold_frame) (rule that)
  note F = s [of c_gc] s [of c_crtc] s [of c_dac] g [of c_seq] g [of c_crtc] g [of c_dac] a [of c_seq] a [of c_gc] a [of c_crtc]
    a [of c_dac] t [of c_seq] t [of c_gc] t [of c_dac] l [of c_seq] l [of c_gc] l [of c_crtc] l [of c_dac]
  note R = set_mode13_registers_def Let_def case_prod_beta write_pairs_seq write_pairs_gc crtc_write_17
  show "\<forall>i \<ge> 5. c_seq (set_mode13_registers c) i = c_seq c i" "\<forall>i \<ge> 9. c_gc (set_mode13_registers c) i = c_gc c i"
    "c_dac (set_mode13_registers c) = c_dac c"
    by (simp_all add: R F stores_def)
  show "c_crtc (set_mode13_registers c) 17 = c_crtc c 17" by (simp add: R F)
  show "\<forall>i \<ge> 25. c_crtc (set_mode13_registers c) i = (if i = 0x19 then 0x8F else if i = 0x20 then 0x40 else if i = 0x22 then 7
     else if i \<in> {0x21, 0x23, 0x24} then 0 else c_crtc c i)"
    by (simp add: R F write_pairs_crtc lock) (simp add: stores_def)
qed

lemma restore_state_regs:
  assumes len: "25 \<le> length (saved_attr v @ v_behind v)"
  obtains c where "restore_state v = Some (v\<lparr>v_card := c\<rparr>)" and "c_misc c = saved_misc v"
    and "c_seq c = filled 5 (saved_sequencer v) (c_seq (v_card v))"
    and "c_gc c = filled 9 (saved_gc v) (c_gc (v_card v))"
    and "c_crtc c = (filled 25 (saved_crtc v) (c_crtc (v_card v)))(17 := c_crtc (v_card v) 17)"
    and "c_attr c = filled 25 (saved_attr v @ v_behind v) (c_attr (v_card v))" and "c_dac c = c_dac (v_card v)"
proof -
  define c1 where "c1 = (v_card v)\<lparr>c_attr_data := False\<rparr>"
  obtain k where a: "write_all write_attr 25 (saved_attr v @ v_behind v) c1
      = c1\<lparr>c_attr_ix := k, c_attr := filled 25 (saved_attr v @ v_behind v) (c_attr c1)\<rparr>"
    using write_all_attr [of 25 c1] by (auto simp: c1_def)
  define c2 where "c2 = outb AC_IDX 0x20 (c1\<lparr>c_attr_ix := k, c_attr := filled 25 (saved_attr v @ v_behind v) (c_attr c1)\<rparr>)"
  obtain ks where s: "write_all write_sequencer 5 (saved_sequencer v) c2 = c2\<lparr>c_seq_ix := ks, c_seq := filled 5 (saved_sequencer v) (c_seq c2)\<rparr>"
    using write_all_seq [of 5] by auto
  define c3 where "c3 = c2\<lparr>c_seq_ix := ks, c_seq := filled 5 (saved_sequencer v) (c_seq c2)\<rparr>"
  obtain kg where g: "write_all write_gc 9 (saved_gc v) c3 = c3\<lparr>c_gc_ix := kg, c_gc := filled 9 (saved_gc v) (c_gc c3)\<rparr>"
    using write_all_gc [of 9] by auto
  define c4 where "c4 = c3\<lparr>c_gc_ix := kg, c_gc := filled 9 (saved_gc v) (c_gc c3)\<rparr>"
  define prot where "prot = c_crtc c4 17"
  have r: "read_crtc 0x11 c4 = (prot, c4\<lparr>c_crtc_ix := 17\<rparr>)" by (simp add: read_crtc_def inb_def outb_def ports prot_def)
  define c5 where "c5 = write_crtc 0x11 (prot AND 0x7F) (c4\<lparr>c_crtc_ix := 17\<rparr>)"
  have c5: "c5 = c4\<lparr>c_crtc_ix := 17, c_crtc := (c_crtc c4)(17 := prot AND 0x7F)\<rparr>"
    by (simp add: c5_def write_crtc_def outb_def ports protected_def)
  have "(prot AND 0x7F) AND 0x80 = 0" by (simp add: and.assoc)
  then obtain kc where w: "write_all write_crtc 25 (saved_crtc v) c5 = c5\<lparr>c_crtc_ix := kc, c_crtc := filled 25 (saved_crtc v) (c_crtc c5)\<rparr>"
    using write_all_crtc [of c5 25] c5 by auto
  define c6 where "c6 = outb MISC_WR (saved_misc v) (write_crtc 0x11 prot
      (c5\<lparr>c_crtc_ix := kc, c_crtc := filled 25 (saved_crtc v) (c_crtc c5)\<rparr>))"
  have R: "restore_state v = Some (v\<lparr>v_card := c6\<rparr>)"
    unfolding restore_state_def Let_def
    using len a s g r w by (simp add: c1_def c2_def c3_def c4_def c5_def c6_def inb_def ports)
  show thesis
    by (rule that [OF R])
      (auto simp: c6_def c5 c4_def c3_def c2_def c1_def outb_def write_crtc_def ports protected_def prot_def filled_def fun_eq_iff)
qed

text \<open>The palette fills the colour table and nothing else.\<close>

lemma dac_entry:
  assumes "n < 256"
  shows "outb DAC_DAT z (outb DAC_DAT y (outb DAC_DAT x (outb DAC_WR (of_nat n) c)))
    = c\<lparr>c_dac_pos := (3 * n + 3) mod 768, c_dac := (c_dac c)(3 * n := x, 3 * n + 1 := y, 3 * n + 2 := z)\<rparr>"
proof -
  have w: "outb DAC_WR (of_nat n) c = c\<lparr>c_dac_pos := 3 * n\<rparr>" using assms by (simp add: outb_def ports)
  have d: "outb DAC_DAT v c' = c'\<lparr>c_dac := (c_dac c')(c_dac_pos c' := v), c_dac_pos := (c_dac_pos c' + 1) mod 768\<rparr>" for v c'
    by (simp add: outb_def ports)
  have "(3 * n + 1) mod 768 = 3 * n + 1" "(3 * n + 1 + 1) mod 768 = 3 * n + 2" "3 * n + 2 + 1 = 3 * n + 3"
    using assms by simp_all
  then show ?thesis unfolding w d by (cases c) (simp add: add.commute del: One_nat_def add_2_eq_Suc' add_2_eq_Suc)
qed

lemma filled_3: "filled (3 * Suc n) a f = (filled (3 * n) a f)(3 * n := a ! (n * 3), 3 * n + 1 := a ! (n * 3 + 1), 3 * n + 2 := a ! (n * 3 + 2))"
proof
  fix j
  have "j < 3 * n \<or> j = 3 * n \<or> j = 3 * n + 1 \<or> j = 3 * n + 2 \<or> 3 * Suc n \<le> j" by arith
  then show "filled (3 * Suc n) a f j = ((filled (3 * n) a f)(3 * n := a ! (n * 3), 3 * n + 1 := a ! (n * 3 + 1), 3 * n + 2 := a ! (n * 3 + 2))) j"
    by (elim disjE) (simp_all add: filled_def mult.commute)
qed

lemma palette_loop:
  fixes rgb :: "u8 list"
  shows "n \<le> 256 \<Longrightarrow> \<exists>p. fold (\<lambda>i c. outb DAC_DAT (rgb ! (i * 3 + 2)) (outb DAC_DAT (rgb ! (i * 3 + 1))
       (outb DAC_DAT (rgb ! (i * 3)) (outb DAC_WR (of_nat i) c)))) [0..<n] c = c\<lparr>c_dac_pos := p, c_dac := filled (3 * n) rgb (c_dac c)\<rparr>"
proof (induction n)
  case 0
  have "filled 0 rgb (c_dac c) = c_dac c" by (simp add: filled_def fun_eq_iff)
  then show ?case by (intro exI [of _ "c_dac_pos c"]) simp
next
  case (Suc n)
  then obtain p where p: "fold (\<lambda>i c. outb DAC_DAT (rgb ! (i * 3 + 2)) (outb DAC_DAT (rgb ! (i * 3 + 1))
       (outb DAC_DAT (rgb ! (i * 3)) (outb DAC_WR (of_nat i) c)))) [0..<n] c = c\<lparr>c_dac_pos := p, c_dac := filled (3 * n) rgb (c_dac c)\<rparr>"
    by auto
  have n: "n < 256" using Suc.prems by simp
  show ?case
    unfolding filled_3 upt_Suc fold_append comp_apply
    by (rule exI [of _ "(3 * n + 3) mod 768"], simp only: p dac_entry [OF n] fold.simps comp_apply id_apply le0 if_True fold_append) (simp add: fun_upd_def)
qed

lemma set_palette_eq:
  obtains p where "video_mode13_set_palette rgb v
    = v\<lparr>v_card := (v_card v)\<lparr>c_dac_pos := p, c_dac := filled 768 rgb (c_dac (v_card v))\<rparr>\<rparr>"
  using palette_loop [of 256 rgb "v_card v"] by (auto simp: video_mode13_set_palette_def)

lemma mode13_leaves:
  assumes "\<not> mode13_active v" and "\<not> length (v_behind v) < 4"
  obtains v' where "video_mode13_leave (video_mode13_set_palette rgb (video_mode13_enter v)) = Some v'" and "\<not> mode13_active v'"
proof -
  let ?w = "video_mode13_set_palette rgb (video_mode13_enter v)"
  have "mode13_active ?w" "25 \<le> length (saved_attr ?w @ v_behind ?w)"
    using assms save_state_eq [of v] by (auto simp: video_mode13_set_palette_def video_mode13_enter_def Let_def)
  then show thesis
    using that restore_state_regs [of ?w thesis] by (auto simp: video_mode13_leave_def)
qed

text \<open>C34: Entering mode 13h, setting a palette of 768 bytes and leaving the mode. Leaving reads four bytes past the end of
  \<open>saved_attr\<close>, which is undefined; in a build where four bytes can be read there, the card gets
  back its miscellaneous, sequencer and graphics registers and the CRTC registers up to 0x18. It does not get back
  the CRTC registers 0x19 and 0x20 to 0x24, which keep what entering wrote; the odd attribute registers up to 20, half of
  the sixteen palette registers among them, which hold their own numbers, because the reading loop does not reset the
  flip-flop; the attribute registers 21 to 24, which get the four bytes; and the colour table, which keeps the palette.\<close>

theorem mode13_enter_leave:
  assumes "\<not> mode13_active v" and "length rgb = 768"
  shows "if length (v_behind v) < 4 then video_mode13_leave (video_mode13_set_palette rgb (video_mode13_enter v)) = None
    else \<exists>v'. video_mode13_leave (video_mode13_set_palette rgb (video_mode13_enter v)) = Some v'
    \<and> \<not> mode13_active v' \<and> c_misc (v_card v') = c_misc (v_card v) \<and> c_seq (v_card v') = c_seq (v_card v)
    \<and> c_gc (v_card v') = c_gc (v_card v)
    \<and> (\<forall>i. c_crtc (v_card v') i = (if i = 0x19 then 0x8F else if i = 0x20 then 0x40 else if i = 0x22 then 7
         else if i \<in> {0x21, 0x23, 0x24} then 0 else c_crtc (v_card v) i))
    \<and> (\<forall>i < 25. c_attr (v_card v') i = (if 21 \<le> i then v_behind v ! (i - 21) else if even i then c_attr (v_card v) i else of_nat i))
    \<and> (\<forall>i < 768. c_dac (v_card v') i = rgb ! i)"
proof -
  obtain sx gx cx where S: "save_state v = v\<lparr>saved_misc := c_misc (v_card v), saved_sequencer := map (c_seq (v_card v)) [0..<5],
     saved_gc := map (c_gc (v_card v)) [0..<9], saved_crtc := map (c_crtc (v_card v)) [0..<25],
     saved_attr := map (ac_read (c_attr (v_card v))) [0..<21],
     v_card := (v_card v)\<lparr>c_seq_ix := sx, c_gc_ix := gx, c_crtc_ix := cx, c_attr_ix := 20, c_attr_data := False,
       c_attr := ac_wrote 0 20 (c_attr (v_card v))\<rparr>\<rparr>" using save_state_eq by blast
  define w where "w = video_mode13_set_palette rgb (video_mode13_enter v)"
  obtain p where p: "w = (video_mode13_enter v)\<lparr>v_card := (v_card (video_mode13_enter v))\<lparr>c_dac_pos := p,
      c_dac := filled 768 rgb (c_dac (v_card (video_mode13_enter v)))\<rparr>\<rparr>"
    unfolding w_def by (rule set_palette_eq)
  have f: "mode13_active w" "saved_misc w = c_misc (v_card v)" "saved_sequencer w = map (c_seq (v_card v)) [0..<5]"
    "saved_gc w = map (c_gc (v_card v)) [0..<9]" "saved_crtc w = map (c_crtc (v_card v)) [0..<25]"
    "saved_attr w = map (ac_read (c_attr (v_card v))) [0..<21]" "v_behind w = v_behind v"
    "\<forall>i \<ge> 5. c_seq (v_card w) i = c_seq (v_card v) i" "\<forall>i \<ge> 9. c_gc (v_card w) i = c_gc (v_card v) i"
    "c_crtc (v_card w) 17 = c_crtc (v_card v) 17" "\<forall>i < 768. c_dac (v_card w) i = rgb ! i"
    "\<forall>i \<ge> 25. c_crtc (v_card w) i = (if i = 0x19 then 0x8F else if i = 0x20 then 0x40 else if i = 0x22 then 7
       else if i \<in> {0x21, 0x23, 0x24} then 0 else c_crtc (v_card v) i)"
    using assms(1) set_mode13_regs by (simp_all add: p video_mode13_enter_def S filled_def)
  show ?thesis
  proof (cases "length (v_behind v) < 4")
    case True
    then show ?thesis using f(1,6,7) by (simp add: w_def [symmetric] video_mode13_leave_def restore_state_def)
  next
    case False
    then obtain c where c: "restore_state w = Some (w\<lparr>v_card := c\<rparr>)" "c_misc c = saved_misc w"
      "c_seq c = filled 5 (saved_sequencer w) (c_seq (v_card w))" "c_gc c = filled 9 (saved_gc w) (c_gc (v_card w))"
      "c_crtc c = (filled 25 (saved_crtc w) (c_crtc (v_card w)))(17 := c_crtc (v_card w) 17)"
      "c_attr c = filled 25 (saved_attr w @ v_behind w) (c_attr (v_card w))" "c_dac c = c_dac (v_card w)"
      using f(6,7) by (elim restore_state_regs [of w, rotated]) simp_all
    have "c_seq c = c_seq (v_card v)" "c_gc c = c_gc (v_card v)" using c(3,4) f by (auto simp: filled_def fun_eq_iff)
    moreover have "c_crtc c i = (if i = 0x19 then 0x8F else if i = 0x20 then 0x40 else if i = 0x22 then 7
         else if i \<in> {0x21, 0x23, 0x24} then 0 else c_crtc (v_card v) i)" for i
      using f(5,10,12) by (cases "i < 25") (auto simp: c(5) filled_def)
    moreover have "c_attr c i = (if 21 \<le> i then v_behind v ! (i - 21) else if even i then c_attr (v_card v) i else of_nat i)" if "i < 25" for i
      using that by (simp add: c(6) f(6,7) filled_def nth_append ac_read_def)
    ultimately show ?thesis
      using False f(1,2,11) c(1,2,7) by (simp add: w_def [symmetric] video_mode13_leave_def)
  qed
qed

text \<open>The attribute registers of the text mode: the bright colours are 0x38 to 0x3F.\<close>

definition text_card :: card where
  "text_card = \<lparr>c_misc = 0x67, c_seq_ix = 0, c_seq = (\<lambda>i. of_nat i), c_gc_ix = 0, c_gc = (\<lambda>i. of_nat i), c_crtc_ix = 0,
     c_crtc = (\<lambda>i. 0x80 + of_nat i), c_attr_ix = 0x20, c_attr_data = False,
     c_attr = (\<lambda>i. if i = 6 then 0x14 else if 8 \<le> i \<and> i < 16 then 0x30 + of_nat i else of_nat i),
     c_dac_pos = 0, c_dac = (\<lambda>i. 0)\<rparr>"

definition video_boot :: "card \<Rightarrow> video" where
  "video_boot c = \<lparr>saved_sequencer = replicate 5 0, saved_gc = replicate 9 0, saved_crtc = replicate 25 0,
     saved_attr = replicate 21 0, saved_misc = 0, mode13_active = False, v_behind = [], v_card = c\<rparr>"

theorem mode13_enter_leave_witness:
  "\<exists>v'. video_mode13_leave (video_mode13_set_palette (replicate 768 9) (video_mode13_enter ((video_boot text_card)\<lparr>v_behind := [1, 2, 3, 4]\<rparr>))) = Some v'
     \<and> c_crtc (v_card v') 17 = 0x91 \<and> c_crtc (v_card v') 0x19 = 0x8F \<and> c_attr (v_card v') 8 = 0x38 \<and> c_attr (v_card v') 9 = 9
     \<and> c_attr text_card 9 = 0x39 \<and> c_attr (v_card v') 22 = 2 \<and> c_dac (v_card v') 700 = 9"
proof -
  let ?v = "(video_boot text_card)\<lparr>v_behind := [1, 2, 3, 4]\<rparr>"
  have v: "\<not> mode13_active ?v" "length (replicate 768 (9 :: u8)) = 768" "\<not> length (v_behind ?v) < 4"
    by (simp_all add: video_boot_def)
  from mode13_enter_leave [OF v(1,2), unfolded if_not_P [OF v(3)]] obtain v' where
    l: "video_mode13_leave (video_mode13_set_palette (replicate 768 9) (video_mode13_enter ?v)) = Some v'"
    and c: "\<forall>i. c_crtc (v_card v') i = (if i = 0x19 then 0x8F else if i = 0x20 then 0x40 else if i = 0x22 then 7
         else if i \<in> {0x21, 0x23, 0x24} then 0 else c_crtc (v_card ?v) i)"
    and a: "\<forall>i < 25. c_attr (v_card v') i = (if 21 \<le> i then v_behind ?v ! (i - 21) else if even i then c_attr (v_card ?v) i else of_nat i)"
    and d: "\<forall>i < 768. c_dac (v_card v') i = replicate 768 9 ! i"
    by (elim exE conjE) (rule that)
  have "c_attr (v_card v') 22 = 2" using a by simp
  then show ?thesis using l c a d by (simp add: video_boot_def text_card_def)
qed

end
