(* ===== verification/Idt.thy ===== *)
theory Idt
  imports Keyboard
begin

text \<open>
  The interrupt descriptor table (\<^verbatim>\<open>src/kernel/arch/idt.c\<close>) and the interrupt controllers
  (\<^verbatim>\<open>src/kernel/arch/irq.c\<close>). The addresses of the assembly handlers and of the table are parameters. Each
  of the two controllers is what the driver programs of it: while it is being initialised its data port
  takes the initialisation words, the first of them the vector of its line 0, and afterwards its mask;
  the end-of-interrupt command clears the lowest line in service.
\<close>

section \<open>The descriptor table\<close>

record idt_entry =
  offset_low :: u16
  selector :: u16
  ist :: u8
  type_attr :: u8
  offset_mid :: u16
  offset_high :: u32
  zero_word :: u32

definition IDT_ENTRIES :: nat where "IDT_ENTRIES = 256"
definition IDT_TYPE_INTR :: u8 where "IDT_TYPE_INTR = 0x0E"
definition IRQ_BASE :: nat where "IRQ_BASE = 32"

definition no_gate :: idt_entry where
  "no_gate = \<lparr>offset_low = 0, selector = 0, ist = 0, type_attr = 0, offset_mid = 0, offset_high = 0, zero_word = 0\<rparr>"

definition set_gate :: "nat \<Rightarrow> u64 \<Rightarrow> u16 \<Rightarrow> u8 \<Rightarrow> idt_entry list \<Rightarrow> idt_entry list" where
  "set_gate n handler sel type idt =
     idt[n := \<lparr>offset_low = ucast (handler AND 0xFFFF), selector = sel, ist = 0, type_attr = type OR 0x60,
       offset_mid = ucast (drop_bit 16 handler AND 0xFFFF), offset_high = ucast (drop_bit 32 handler AND 0xFFFFFFFF), zero_word = 0\<rparr>]"

definition idt_set_gate :: "u8 \<Rightarrow> u64 \<Rightarrow> u16 \<Rightarrow> u8 \<Rightarrow> idt_entry list \<Rightarrow> idt_entry list" where
  "idt_set_gate n handler sel type idt = set_gate (unat n) handler sel type idt"

text \<open>The table pointer and the table, given the addresses of the table and of the handlers.\<close>

definition idt_init :: "u64 \<Rightarrow> (nat \<Rightarrow> u64) \<Rightarrow> (nat \<Rightarrow> u64) \<Rightarrow> idt_entry list \<Rightarrow> (u16 \<times> u64) \<times> idt_entry list" where
  "idt_init base exc irq idt =
     (let idtp = (of_nat (IDT_ENTRIES * 16 - 1), base);
          idt = fold (\<lambda>i. set_gate i (exc i) 0x08 IDT_TYPE_INTR) [0..<32] idt;
          idt = fold (\<lambda>i. set_gate (IRQ_BASE + i) (irq i) 0x08 IDT_TYPE_INTR) [0..<16] idt
      in (idtp, idt))"

section \<open>The interrupt controllers\<close>

definition PIC1_CMD :: u16 where "PIC1_CMD = 0x20"
definition PIC1_DATA :: u16 where "PIC1_DATA = 0x21"
definition PIC2_CMD :: u16 where "PIC2_CMD = 0xA0"
definition PIC2_DATA :: u16 where "PIC2_DATA = 0xA1"
definition PIC_EOI :: u8 where "PIC_EOI = 0x20"
definition ICW1_ICW4 :: u8 where "ICW1_ICW4 = 0x01"
definition ICW1_INIT :: u8 where "ICW1_INIT = 0x10"
definition ICW4_8086 :: u8 where "ICW4_8086 = 0x01"

text \<open>One controller: the vector of line 0, the mask, the lines in service, the initialisation words to come.\<close>

record pic =
  pic_base :: u8
  pic_mask :: u8
  pic_isr :: u8
  pic_words :: nat

definition pic_cmd :: "u8 \<Rightarrow> pic \<Rightarrow> pic" where
  "pic_cmd v p =
     (if v AND 0x10 \<noteq> 0 then p\<lparr>pic_mask := 0, pic_isr := 0, pic_words := 3\<rparr>
      else if v = PIC_EOI then p\<lparr>pic_isr := pic_isr p AND (pic_isr p - 1)\<rparr>
      else p)"

definition pic_data :: "u8 \<Rightarrow> pic \<Rightarrow> pic" where
  "pic_data v p =
     (if pic_words p = 0 then p\<lparr>pic_mask := v\<rparr>
      else (if pic_words p = 3 then p\<lparr>pic_base := v\<rparr> else p)\<lparr>pic_words := pic_words p - 1\<rparr>)"

definition pic_outb :: "u16 \<Rightarrow> u8 \<Rightarrow> pic \<times> pic \<Rightarrow> pic \<times> pic" where
  "pic_outb port v = (\<lambda>(p1, p2).
     if port = PIC1_CMD then (pic_cmd v p1, p2) else if port = PIC1_DATA then (pic_data v p1, p2)
     else if port = PIC2_CMD then (p1, pic_cmd v p2) else if port = PIC2_DATA then (p1, pic_data v p2) else (p1, p2))"

definition pic_inb :: "u16 \<Rightarrow> pic \<times> pic \<Rightarrow> u8" where
  "pic_inb port = (\<lambda>(p1, p2). if port = PIC1_DATA then pic_mask p1 else if port = PIC2_DATA then pic_mask p2 else 0)"

definition irq_init :: "pic \<times> pic \<Rightarrow> pic \<times> pic" where
  "irq_init p =
     (let p = pic_outb PIC1_CMD (ICW1_INIT OR ICW1_ICW4) p;
          p = pic_outb PIC2_CMD (ICW1_INIT OR ICW1_ICW4) p;
          p = pic_outb PIC1_DATA (of_nat IRQ_BASE) p;
          p = pic_outb PIC2_DATA (of_nat (IRQ_BASE + 8)) p;
          p = pic_outb PIC1_DATA 4 p;
          p = pic_outb PIC2_DATA 2 p;
          p = pic_outb PIC1_DATA ICW4_8086 p;
          p = pic_outb PIC2_DATA ICW4_8086 p;
          p = pic_outb PIC1_DATA 0xFC p
      in pic_outb PIC2_DATA 0xFF p)"

definition irq_mask_set :: "u8 \<Rightarrow> pic \<times> pic \<Rightarrow> pic \<times> pic" where
  "irq_mask_set irq p =
     (let port = (if irq < 8 then PIC1_DATA else PIC2_DATA); mask = pic_inb port p OR push_bit (unat (irq AND 7)) 1
      in pic_outb port mask p)"

definition irq_mask_clear :: "u8 \<Rightarrow> pic \<times> pic \<Rightarrow> pic \<times> pic" where
  "irq_mask_clear irq p =
     (let port = (if irq < 8 then PIC1_DATA else PIC2_DATA); mask = pic_inb port p AND NOT (push_bit (unat (irq AND 7)) 1)
      in pic_outb port mask p)"

definition irq_eoi :: "u8 \<Rightarrow> pic \<times> pic \<Rightarrow> pic \<times> pic" where
  "irq_eoi irq p =
     (let p = (if irq \<ge> 8 then pic_outb PIC2_CMD PIC_EOI p else p) in pic_outb PIC1_CMD PIC_EOI p)"

text \<open>An interrupt: \<open>raw\<close> is the byte the keyboard has ready.\<close>

definition idt_irq_handler :: "u64 \<Rightarrow> u8 \<Rightarrow> (pic \<times> pic) \<times> kbd \<Rightarrow> (pic \<times> pic) \<times> kbd" where
  "idt_irq_handler vector raw = (\<lambda>(p, k).
     let p = (if vector \<ge> of_nat IRQ_BASE \<and> vector < of_nat IRQ_BASE + 16 then irq_eoi (ucast (vector - of_nat IRQ_BASE)) p else p);
         k = (if vector = of_nat IRQ_BASE + 1 then keyboard_irq_handler raw k else k)
     in (p, k))"

section \<open>What the table says\<close>

text \<open>The address the processor takes from a gate, and whether the gate is present at all.\<close>

definition gate_handler :: "idt_entry \<Rightarrow> u64" where
  "gate_handler e = ucast (offset_low e) OR push_bit 16 (ucast (offset_mid e)) OR push_bit 32 (ucast (offset_high e))"

definition gate_present :: "idt_entry \<Rightarrow> bool" where
  "gate_present e \<longleftrightarrow> type_attr e AND 0x80 \<noteq> 0"

definition gate_dpl :: "idt_entry \<Rightarrow> nat" where
  "gate_dpl e = unat (drop_bit 5 (type_attr e) AND 3)"

lemma gate_parts:
  "ucast (ucast (h AND 0xFFFF) :: u16) OR push_bit 16 (ucast (ucast (drop_bit 16 h AND 0xFFFF) :: u16))
     OR push_bit 32 (ucast (ucast (drop_bit 32 h AND 0xFFFFFFFF) :: u32)) = (h :: u64)"
proof -
  have m: "(0xFFFF :: u64) = mask 16" "(0xFFFFFFFF :: u64) = mask 32" by (simp_all add: mask_eq_exp_minus_1)
  show ?thesis
    unfolding m
  proof (rule bit_word_eqI)
    fix k assume k: "k < LENGTH(64)"
    consider "k < 16" | "16 \<le> k" "k < 32" | "32 \<le> k" by linarith
    then show "bit (ucast (ucast (h AND mask 16) :: u16) OR push_bit 16 (ucast (ucast (drop_bit 16 h AND mask 16) :: u16))
        OR push_bit 32 (ucast (ucast (drop_bit 32 h AND mask 32) :: u32)) :: u64) k = bit h k"
      using k by cases (auto simp: bit_simps)
  qed
qed

lemma set_gate_fields:
  assumes "n < length idt"
  shows "gate_handler (set_gate n h sel t idt ! n) = h" and "selector (set_gate n h sel t idt ! n) = sel"
    and "type_attr (set_gate n h sel t idt ! n) = t OR 0x60"
  using assms by (simp_all add: gate_handler_def set_gate_def gate_parts)

lemma set_gate_other: "m \<noteq> n \<Longrightarrow> set_gate n h sel t idt ! m = idt ! m" "length (set_gate n h sel t idt) = length idt"
  by (simp_all add: set_gate_def)

definition gate_ok :: "u64 \<Rightarrow> idt_entry \<Rightarrow> bool" where
  "gate_ok h e \<longleftrightarrow> gate_handler e = h \<and> selector e = 0x08 \<and> type_attr e = IDT_TYPE_INTR OR 0x60"

text \<open>The loops that set \<open>n\<close> gates from number \<open>b\<close> on.\<close>

lemma set_gates:
  assumes "b + n \<le> length idt"
  shows "length (fold (\<lambda>i. set_gate (b + i) (h i) 0x08 IDT_TYPE_INTR) [0..<n] idt) = length idt
    \<and> (\<forall>m < length idt. if b \<le> m \<and> m < b + n
        then gate_ok (h (m - b)) (fold (\<lambda>i. set_gate (b + i) (h i) 0x08 IDT_TYPE_INTR) [0..<n] idt ! m)
        else fold (\<lambda>i. set_gate (b + i) (h i) 0x08 IDT_TYPE_INTR) [0..<n] idt ! m = idt ! m)"
  using assms
proof (induction n)
  case (Suc n)
  define t where "t = fold (\<lambda>i. set_gate (b + i) (h i) 0x08 IDT_TYPE_INTR) [0..<n] idt"
  from Suc have t: "length t = length idt"
    "\<And>m. m < length idt \<Longrightarrow> if b \<le> m \<and> m < b + n then gate_ok (h (m - b)) (t ! m) else t ! m = idt ! m"
    by (simp_all add: t_def)
  have g: "gate_ok (h n) (set_gate (b + n) (h n) 0x08 IDT_TYPE_INTR t ! (b + n))"
    using set_gate_fields [of "b + n" t "h n" "0x08" IDT_TYPE_INTR] t(1) Suc.prems by (simp add: gate_ok_def)
  have "if b \<le> m \<and> m < b + Suc n then gate_ok (h (m - b)) (set_gate (b + n) (h n) 0x08 IDT_TYPE_INTR t ! m)
      else set_gate (b + n) (h n) 0x08 IDT_TYPE_INTR t ! m = idt ! m" if "m < length idt" for m
    using t(2) [OF that] g by (cases "m = b + n") (auto simp: set_gate_other split: if_splits)
  moreover have "fold (\<lambda>i. set_gate (b + i) (h i) 0x08 IDT_TYPE_INTR) [0..<Suc n] idt = set_gate (b + n) (h n) 0x08 IDT_TYPE_INTR t"
    by (simp add: t_def)
  ultimately show ?case using t(1) by (simp only: set_gate_other) blast
qed auto

lemma idt_init_ok:
  assumes "length idt = IDT_ENTRIES"
  obtains t where "idt_init base exc irq idt = ((0xFFF, base), t)" and "length t = IDT_ENTRIES"
    and "\<And>m. m < 48 \<Longrightarrow> gate_ok (if m < 32 then exc m else irq (m - 32)) (t ! m)"
    and "\<And>m. 48 \<le> m \<Longrightarrow> m < 256 \<Longrightarrow> t ! m = idt ! m"
proof -
  define t1 where "t1 = fold (\<lambda>i. set_gate i (exc i) 0x08 IDT_TYPE_INTR) [0..<32] idt"
  define t where "t = fold (\<lambda>i. set_gate (32 + i) (irq i) 0x08 IDT_TYPE_INTR) [0..<16] t1"
  have n: "length idt = 256" using assms by (simp add: IDT_ENTRIES_def)
  have t1: "length t1 = 256" "\<And>m. m < 256 \<Longrightarrow> if m < 32 then gate_ok (exc m) (t1 ! m) else t1 ! m = idt ! m"
    using set_gates [of 0 32 idt exc] n unfolding add_0 diff_zero t1_def [symmetric] by auto
  have t: "length t = 256" "\<And>m. m < 256 \<Longrightarrow> if 32 \<le> m \<and> m < 48 then gate_ok (irq (m - 32)) (t ! m) else t ! m = t1 ! m"
    using set_gates [of 32 16 t1 irq] t1(1) unfolding t_def [symmetric] by auto
  have e: "idt_init base exc irq idt = ((0xFFF, base), t)"
    by (simp add: idt_init_def t_def t1_def IDT_ENTRIES_def IRQ_BASE_def Let_def)
  have g: "gate_ok (if m < 32 then exc m else irq (m - 32)) (t ! m)" if "m < 48" for m
    using t(2) [of m] t1(2) [of m] that by (auto split: if_splits)
  have o: "t ! m = idt ! m" if "48 \<le> m" "m < 256" for m
    using t(2) [of m] t1(2) [of m] that by auto
  show thesis using that [OF e _ g o] t(1) by (simp add: IDT_ENTRIES_def)
qed

lemma gate_ok_absent: "gate_ok h g \<Longrightarrow> \<not> gate_present g \<and> gate_dpl g = 3"
  by (simp add: gate_ok_def gate_present_def gate_dpl_def IDT_TYPE_INTR_def)

lemma gates_absent: "length idt = IDT_ENTRIES \<Longrightarrow> m < 48 \<Longrightarrow> \<not> gate_present (snd (idt_init base exc irq idt) ! m)"
  using gate_ok_absent by (elim idt_init_ok [of idt base exc irq]) fastforce

text \<open>C37: \<open>idt_init\<close> gives the gates 0 to 31 the exception handlers and 32 to 47 the interrupt handlers, each
  with its whole 64-bit address and the kernel code segment, and leaves the other 208 as they are; but no
  gate it sets has the present bit, and all have privilege level 3: the type is combined with 0x60 where
  a present gate of level 0 needs 0x80.\<close>

theorem idt_init_gates:
  assumes "length idt = IDT_ENTRIES"
  shows "case idt_init base exc irq idt of (p, t) \<Rightarrow> p = (0xFFF, base) \<and> length t = IDT_ENTRIES
    \<and> (\<forall>m < 48. gate_handler (t ! m) = (if m < 32 then exc m else irq (m - 32)) \<and> selector (t ! m) = 0x08
        \<and> \<not> gate_present (t ! m) \<and> gate_dpl (t ! m) = 3)
    \<and> (\<forall>m. 48 \<le> m \<and> m < 256 \<longrightarrow> t ! m = idt ! m)"
proof -
  obtain t where t: "idt_init base exc irq idt = ((0xFFF, base), t)" "length t = IDT_ENTRIES"
    "\<And>m. m < 48 \<Longrightarrow> gate_ok (if m < 32 then exc m else irq (m - 32)) (t ! m)"
    "\<And>m. 48 \<le> m \<Longrightarrow> m < 256 \<Longrightarrow> t ! m = idt ! m"
    by (rule idt_init_ok [OF assms]) (rule that)
  then show ?thesis using gate_ok_absent by (auto simp: gate_ok_def)
qed

theorem idt_init_gates_witness:
  "case idt_init 0x8000 (\<lambda>i. 0x100000 + of_nat i) (\<lambda>i. 0xFFFFFFFF80200000 + of_nat i) (replicate 256 no_gate) of (p, t) \<Rightarrow>
     gate_handler (t ! 33) = 0xFFFFFFFF80200001 \<and> \<not> gate_present (t ! 33) \<and> t ! 200 = no_gate"
proof -
  have "length (replicate 256 no_gate) = IDT_ENTRIES" by (simp add: IDT_ENTRIES_def)
  from idt_init_gates [OF this, of "0x8000" "\<lambda>i. 0x100000 + of_nat i" "\<lambda>i. 0xFFFFFFFF80200000 + of_nat i"]
  show ?thesis by (auto split: prod.splits)
qed

section \<open>What the controllers do\<close>

text \<open>Whether a line is masked, the lines of both controllers counted through.\<close>

definition line_masked :: "pic \<times> pic \<Rightarrow> nat \<Rightarrow> bool" where
  "line_masked p n = (if n < 8 then bit (pic_mask (fst p)) n else bit (pic_mask (snd p)) (n - 8))"

definition pics_ready :: "pic \<times> pic \<Rightarrow> bool" where
  "pics_ready p \<longleftrightarrow> pic_words (fst p) = 0 \<and> pic_words (snd p) = 0"

lemmas pic_ports = PIC1_CMD_def PIC1_DATA_def PIC2_CMD_def PIC2_DATA_def

lemma irq_init_eq:
  "irq_init (p1, p2) = (\<lparr>pic_base = 32, pic_mask = 0xFC, pic_isr = 0, pic_words = 0\<rparr>,
     \<lparr>pic_base = 40, pic_mask = 0xFF, pic_isr = 0, pic_words = 0\<rparr>)"
  by (cases p1; cases p2)
     (simp add: irq_init_def pic_outb_def pic_cmd_def pic_data_def pic_ports ICW1_INIT_def ICW1_ICW4_def ICW4_8086_def IRQ_BASE_def)

lemma irq_low: "irq < 16 \<Longrightarrow> unat (irq AND 7) = (if irq < 8 then unat irq else unat irq - 8)" for irq :: u8
proof -
  have "\<forall>k \<in> set [0..<16]. unat ((of_nat k :: u8) AND 7) = (if k < 8 then k else k - 8)" by code_simp
  moreover assume "irq < 16"
  then have "unat irq \<in> set [0..<16]" "irq < 8 \<longleftrightarrow> unat irq < 8" by (simp_all add: word_less_nat_alt)
  ultimately show ?thesis by fastforce
qed

lemma mask_line:
  assumes "pics_ready p" and "irq < 16" and "n < 16"
  shows "line_masked (irq_mask_set irq p) n = (n = unat irq \<or> line_masked p n)"
    and "line_masked (irq_mask_clear irq p) n = (n \<noteq> unat irq \<and> line_masked p n)"
proof -
  obtain p1 p2 where p: "p = (p1, p2)" by fastforce
  have i: "irq < 8 \<longleftrightarrow> unat irq < 8" "unat irq < 16" using assms(2) by (simp_all add: word_less_nat_alt)
  have w: "pic_words p1 = 0" "pic_words p2 = 0" using assms(1) p by (simp_all add: pics_ready_def)
  show "line_masked (irq_mask_set irq p) n = (n = unat irq \<or> line_masked p n)"
    using assms(3) i w irq_low [OF assms(2)]
    by (auto simp: p irq_mask_set_def line_masked_def pic_outb_def pic_inb_def pic_data_def pic_ports Let_def bit_simps)
  show "line_masked (irq_mask_clear irq p) n = (n \<noteq> unat irq \<and> line_masked p n)"
    using assms(3) i w irq_low [OF assms(2)]
    by (auto simp: p irq_mask_clear_def line_masked_def pic_outb_def pic_inb_def pic_data_def pic_ports Let_def bit_simps)
qed

fun mask_ops :: "(u8 \<times> bool) list \<Rightarrow> pic \<times> pic \<Rightarrow> pic \<times> pic" where
  "mask_ops [] p = p"
| "mask_ops ((irq, m) # ops) p = mask_ops ops (if m then irq_mask_set irq p else irq_mask_clear irq p)"

lemma mask_ops_snoc: "mask_ops (ops @ [(irq, m)]) p = (let q = mask_ops ops p in if m then irq_mask_set irq q else irq_mask_clear irq q)"
  by (induction ops p rule: mask_ops.induct) (simp_all add: Let_def)

lemma mask_ready: "pics_ready p \<Longrightarrow> pics_ready (irq_mask_set irq p) \<and> pics_ready (irq_mask_clear irq p)"
  by (cases p) (simp add: pics_ready_def irq_mask_set_def irq_mask_clear_def pic_outb_def pic_data_def pic_ports Let_def)

lemma mask_ops_ready: "pics_ready p \<Longrightarrow> pics_ready (mask_ops ops p)"
  by (induction ops p rule: mask_ops.induct) (simp_all add: mask_ready)

text \<open>C38: After \<open>irq_init\<close>, whatever state the controllers were in, the interrupts come as vectors 32 to 47 and
  after any sequence of mask and unmask calls a line is masked as the last call for it says; without such
  a call only the timer and the keyboard, lines 0 and 1, are open.\<close>

theorem irq_lines_follow_masks:
  assumes "\<forall>(irq, m) \<in> set ops. irq < 16" and "n < 16"
  shows "line_masked (mask_ops ops (irq_init p)) n
      = (case find (\<lambda>(irq, m). unat irq = n) (rev ops) of Some (irq, m) \<Rightarrow> m | None \<Rightarrow> 2 \<le> n)
    \<and> (pic_base (fst (irq_init p)), pic_base (snd (irq_init p))) = (32, 40)"
proof -
  obtain p1 p2 where p: "p = (p1, p2)" by fastforce
  have r: "pics_ready (irq_init p)" by (simp add: p irq_init_eq pics_ready_def)
  have "line_masked (mask_ops ops (irq_init p)) n
      = (case find (\<lambda>(irq, m). unat irq = n) (rev ops) of Some (irq, m) \<Rightarrow> m | None \<Rightarrow> 2 \<le> n)"
    using assms(1)
  proof (induction ops rule: rev_induct)
    case Nil
    have "\<forall>n \<in> set [0..<16]. (if n < 8 then bit (0xFC :: u8) n else bit (0xFF :: u8) (n - 8)) = (2 \<le> n)" by code_simp
    then have "(if n < 8 then bit (0xFC :: u8) n else bit (0xFF :: u8) (n - 8)) = (2 \<le> n)" by (rule bspec) (simp add: assms(2))
    then show ?case by (simp only: p irq_init_eq line_masked_def mask_ops.simps fst_conv snd_conv pic.simps rev.simps find.simps option.case)
  next
    case (snoc op ops)
    obtain irq m where op: "op = (irq, m)" by fastforce
    have "irq < 16" using snoc.prems op by simp
    note L = mask_line [OF mask_ops_ready [OF r, of ops] this assms(2)]
    show ?case using snoc L by (cases m) (auto simp: op mask_ops_snoc Let_def)
  qed
  then show ?thesis by (simp add: p irq_init_eq)
qed

theorem irq_lines_follow_masks_witness:
  "\<not> line_masked (mask_ops [(1, True), (12, False), (1, False)] (irq_init (\<lparr>pic_base = 8, pic_mask = 0, pic_isr = 0, pic_words = 0\<rparr>,
     \<lparr>pic_base = 112, pic_mask = 0, pic_isr = 0, pic_words = 0\<rparr>))) 12"
  using irq_lines_follow_masks [of "[(1, True), (12, False), (1, False)]" 12] by simp

end
