(* ===== verification/Hosts.thy ===== *)
theory Hosts
  imports Netclient Posixfd Mouse Vga13 Freelist Sched
begin

text \<open>
  The host layers of the programs the kernel is linked with: the Lynx-style browser
  (\<^verbatim>\<open>src/kernel/lynx_host\<close>), and the interfaces of the DOOM and Red Alert ports
  (\<^verbatim>\<open>src/kernel/doom_host\<close>, \<^verbatim>\<open>src/kernel/redalert_host\<close>), most of which forward to the drivers and
  to the POSIX layer. The programs themselves are not in the repository: \<open>doom_main\<close> and
  \<open>redalert_main\<close> are the stubs it has in their place. Sound and the network of Red Alert are stubs too.
\<close>

section \<open>The browser\<close>

fun str_eq :: "string \<Rightarrow> string \<Rightarrow> bool" where
  "str_eq (a # as) (b # bs) = (a = b \<and> str_eq as bs)"
| "str_eq [] [] = True"
| "str_eq _ _ = False"

lemma str_eq_iff [simp]: "str_eq a b \<longleftrightarrow> a = b"
  by (induction a b rule: str_eq.induct) simp_all

text \<open>A string literal on the console, and a buffer up to its terminator.\<close>

definition say :: "string \<Rightarrow> vga \<Rightarrow> vga" where
  "say s v = vga_puts (bytes_of s) v"

definition c_str :: "u8 list \<Rightarrow> u8 list" where
  "c_str bs = takeWhile (\<lambda>b. b \<noteq> 0) bs"

abbreviation NL :: string where "NL \<equiv> [CHR 0x0A]"

definition lynx_main :: "string list \<Rightarrow> vga \<times> net \<Rightarrow> (int \<times> vga \<times> net) option" where
  "lynx_main argv = (\<lambda>(v, n).
     let url = (if length argv > 1 \<and> argv ! 1 \<noteq> [] then argv ! 1 else ''http://127.0.0.1/'')
     in if \<not> str_eq url ''http://127.0.0.1/'' \<and> \<not> str_eq url ''http://127.0.0.1''
        then Some (- 1, say (''A real NIC driver and DNS are not in this build.'' @ NL)
               (say (''Lynx host: only http://127.0.0.1/ is supported (loopback).'' @ NL) v), n)
        else do {
          (r, buf, n) \<leftarrow> net_http_get_loopback False 4096 n;
          if r < 0 then Some (- 1, say (''Lynx: HTTP fetch failed (is the network stack enabled?)'' @ NL) v, n)
          else Some (0, vga_putchar 10 (vga_puts (c_str buf) v), n)
        })"

section \<open>DOOM\<close>

text \<open>\<open>down\<close> is what the caller's variable holds before.\<close>

definition doom_input_get_key_impl :: "bool \<Rightarrow> kbd \<Rightarrow> (u8 \<times> bool) \<times> kbd" where
  "doom_input_get_key_impl down k =
     (case keyboard_get_scancode k of (None, k) \<Rightarrow> ((0, down), k) | (Some e, k) \<Rightarrow> (e, k))"

definition doom_input_mouse_impl :: "u8 list \<Rightarrow> mouse \<Rightarrow> (int \<times> int \<times> u8) \<times> mouse" where
  "doom_input_mouse_impl = mouse_poll"

definition doom_input_clear_impl :: "kbd \<times> mouse \<Rightarrow> kbd \<times> mouse" where
  "doom_input_clear_impl = (\<lambda>(k, m). (keyboard_clear_scancodes k, mouse_clear m))"

definition doom_time_ms_impl :: "u32 \<Rightarrow> u32" where
  "doom_time_ms_impl ms = ms"

text \<open>
  The interrupts that wake the processor, one by one: whether each is the timer's. The result says whether
  the wait is over, and gives the interrupts to come and the time.
\<close>

fun delay_loop :: "u32 \<Rightarrow> bool list \<Rightarrow> u32 \<Rightarrow> bool \<times> bool list \<times> u32" where
  "delay_loop end [] t = (\<not> t < end, [], t)"
| "delay_loop end (w # ws) t =
     (if t < end then delay_loop end ws (if w then timer_tick t else t) else (True, w # ws, t))"

definition doom_time_delay_ms_impl :: "u32 \<Rightarrow> bool list \<Rightarrow> u32 \<Rightarrow> bool \<times> bool list \<times> u32" where
  "doom_time_delay_ms_impl ms ws t = delay_loop (doom_time_ms_impl t + ms) ws t"

text \<open>Conversion of a result to \<open>int\<close>.\<close>

definition to_int32 :: "int \<Rightarrow> int" where
  "to_int32 r = sint (of_int r :: u32)"

definition doom_video_enter :: "video \<Rightarrow> video" where "doom_video_enter = video_mode13_enter"
definition doom_video_framebuffer :: u64 where "doom_video_framebuffer = video_mode13_framebuffer"
definition doom_video_set_palette :: "u8 list \<Rightarrow> video \<Rightarrow> video" where "doom_video_set_palette = video_mode13_set_palette"
definition doom_video_leave :: "video \<Rightarrow> video option" where "doom_video_leave = video_mode13_leave"
definition doom_input_get_key :: "bool \<Rightarrow> kbd \<Rightarrow> (u8 \<times> bool) \<times> kbd" where "doom_input_get_key = doom_input_get_key_impl"
definition doom_input_mouse :: "u8 list \<Rightarrow> mouse \<Rightarrow> (int \<times> int \<times> u8) \<times> mouse" where "doom_input_mouse = doom_input_mouse_impl"
definition doom_input_clear :: "kbd \<times> mouse \<Rightarrow> kbd \<times> mouse" where "doom_input_clear = doom_input_clear_impl"
definition doom_time_ms :: "u32 \<Rightarrow> u32" where "doom_time_ms = doom_time_ms_impl"
definition doom_time_delay_ms :: "u32 \<Rightarrow> bool list \<Rightarrow> u32 \<Rightarrow> bool \<times> bool list \<times> u32" where
  "doom_time_delay_ms = doom_time_delay_ms_impl"
definition doom_malloc :: "nat \<Rightarrow> u64 \<Rightarrow> flist \<Rightarrow> (nat \<times> flist) option" where "doom_malloc = doom_malloc_impl"
definition doom_free :: "nat \<Rightarrow> nat \<Rightarrow> flist \<Rightarrow> flist option" where "doom_free = doom_free_impl"
definition doom_realloc :: "nat \<Rightarrow> nat \<Rightarrow> u64 \<Rightarrow> flist \<Rightarrow> (nat \<times> flist) option" where "doom_realloc = doom_realloc_impl"
definition doom_open :: "string \<Rightarrow> posix \<Rightarrow> (int \<times> posix) option" where "doom_open = posix_open"
definition doom_read :: "int \<Rightarrow> u64 \<Rightarrow> posix \<Rightarrow> ((int \<times> u8 list) \<times> posix) option" where
  "doom_read fd count p = map_option (\<lambda>((r, bs), p). ((to_int32 r, bs), p)) (posix_read fd count p)"
definition doom_write :: "int \<Rightarrow> u8 list \<Rightarrow> posix \<Rightarrow> int \<times> posix" where
  "doom_write fd buf p = (case posix_write fd buf p of (r, p) \<Rightarrow> (to_int32 r, p))"
definition doom_close :: "int \<Rightarrow> posix \<Rightarrow> int \<times> posix" where "doom_close = posix_close"
definition doom_lseek :: "int \<Rightarrow> u64 \<Rightarrow> int \<Rightarrow> posix \<Rightarrow> int \<times> posix" where "doom_lseek = posix_lseek"
definition doom_main :: int where "doom_main = - 1"

section \<open>Red Alert\<close>

definition redalert_video_enter :: "video \<Rightarrow> video" where "redalert_video_enter = video_mode13_enter"
definition redalert_video_framebuffer :: u64 where "redalert_video_framebuffer = video_mode13_framebuffer"
definition redalert_video_set_palette :: "u8 list \<Rightarrow> video \<Rightarrow> video" where
  "redalert_video_set_palette = video_mode13_set_palette"
definition redalert_video_leave :: "video \<Rightarrow> video option" where "redalert_video_leave = video_mode13_leave"

text \<open>\<open>doom_input_get_key\<close> is declared to return a value and defined without one: \<open>ret\<close> is what is found
  in the place of it.\<close>

definition redalert_input_get_key :: "int \<Rightarrow> bool \<Rightarrow> kbd \<Rightarrow> int \<times> (u8 \<times> bool) \<times> kbd" where
  "redalert_input_get_key ret down k = (ret, doom_input_get_key down k)"

definition redalert_input_mouse :: "u8 list \<Rightarrow> mouse \<Rightarrow> (int \<times> int \<times> u8) \<times> mouse" where "redalert_input_mouse = doom_input_mouse"
definition redalert_input_clear :: "kbd \<times> mouse \<Rightarrow> kbd \<times> mouse" where "redalert_input_clear = doom_input_clear"
definition redalert_time_ms :: "u32 \<Rightarrow> u32" where "redalert_time_ms = doom_time_ms"
definition redalert_time_delay_ms :: "u32 \<Rightarrow> bool list \<Rightarrow> u32 \<Rightarrow> bool \<times> bool list \<times> u32" where
  "redalert_time_delay_ms = doom_time_delay_ms"
definition redalert_malloc :: "nat \<Rightarrow> u64 \<Rightarrow> flist \<Rightarrow> (nat \<times> flist) option" where "redalert_malloc = redalert_malloc_impl"
definition redalert_free :: "nat \<Rightarrow> nat \<Rightarrow> flist \<Rightarrow> flist option" where "redalert_free = redalert_free_impl"
definition redalert_realloc :: "nat \<Rightarrow> nat \<Rightarrow> u64 \<Rightarrow> flist \<Rightarrow> (nat \<times> flist) option" where "redalert_realloc = redalert_realloc_impl"
definition redalert_open :: "string \<Rightarrow> posix \<Rightarrow> (int \<times> posix) option" where "redalert_open = posix_open"
definition redalert_read :: "int \<Rightarrow> u64 \<Rightarrow> posix \<Rightarrow> ((int \<times> u8 list) \<times> posix) option" where
  "redalert_read fd count p = map_option (\<lambda>((r, bs), p). ((to_int32 r, bs), p)) (posix_read fd count p)"
definition redalert_write :: "int \<Rightarrow> u8 list \<Rightarrow> posix \<Rightarrow> int \<times> posix" where
  "redalert_write fd buf p = (case posix_write fd buf p of (r, p) \<Rightarrow> (to_int32 r, p))"
definition redalert_close :: "int \<Rightarrow> posix \<Rightarrow> int \<times> posix" where "redalert_close = posix_close"
definition redalert_lseek :: "int \<Rightarrow> u64 \<Rightarrow> int \<Rightarrow> posix \<Rightarrow> int \<times> posix" where "redalert_lseek = posix_lseek"
definition redalert_main :: int where "redalert_main = - 1"

subsection \<open>Sound\<close>

definition REDALERT_AUDIO_MAX_VOICES :: int where "REDALERT_AUDIO_MAX_VOICES = 8"

definition redalert_audio_init_impl :: "bool \<Rightarrow> int \<times> bool" where "redalert_audio_init_impl inited = (0, True)"
definition redalert_audio_shutdown_impl :: "bool \<Rightarrow> bool" where "redalert_audio_shutdown_impl inited = False"
definition redalert_audio_play_impl :: "int \<Rightarrow> u8 list \<Rightarrow> u32 \<Rightarrow> int" where
  "redalert_audio_play_impl voice data rate = (if voice < 0 \<or> voice \<ge> REDALERT_AUDIO_MAX_VOICES then - 1 else 0)"
definition redalert_audio_stop_impl :: "int \<Rightarrow> bool \<Rightarrow> bool" where "redalert_audio_stop_impl voice inited = inited"
definition redalert_audio_stop_all_impl :: "bool \<Rightarrow> bool" where "redalert_audio_stop_all_impl inited = inited"
definition redalert_audio_init :: "bool \<Rightarrow> int \<times> bool" where "redalert_audio_init = redalert_audio_init_impl"
definition redalert_audio_shutdown :: "bool \<Rightarrow> bool" where "redalert_audio_shutdown = redalert_audio_shutdown_impl"
definition redalert_audio_play :: "int \<Rightarrow> u8 list \<Rightarrow> u32 \<Rightarrow> int" where "redalert_audio_play = redalert_audio_play_impl"
definition redalert_audio_stop :: "int \<Rightarrow> bool \<Rightarrow> bool" where "redalert_audio_stop = redalert_audio_stop_impl"
definition redalert_audio_stop_all :: "bool \<Rightarrow> bool" where "redalert_audio_stop_all = redalert_audio_stop_all_impl"

subsection \<open>Network\<close>

definition REDALERT_NET_PACKET_MAX :: nat where "REDALERT_NET_PACKET_MAX = 512"

definition redalert_net_init_impl :: "bool \<Rightarrow> int \<times> bool" where "redalert_net_init_impl inited = (0, True)"
definition redalert_net_shutdown_impl :: "bool \<Rightarrow> bool" where "redalert_net_shutdown_impl inited = False"
definition redalert_net_broadcast_impl :: "u8 list \<Rightarrow> int" where
  "redalert_net_broadcast_impl data = (if length data > REDALERT_NET_PACKET_MAX then - 1 else 0)"
definition redalert_net_send_impl :: "u8 \<Rightarrow> u8 list \<Rightarrow> int" where
  "redalert_net_send_impl peer data = (if length data > REDALERT_NET_PACKET_MAX then - 1 else 0)"
definition redalert_net_receive_impl :: "nat \<Rightarrow> int" where "redalert_net_receive_impl max_len = 0"
definition redalert_net_peer_count_impl :: int where "redalert_net_peer_count_impl = 0"

text \<open>The caller's array, or \<open>NULL\<close>.\<close>

definition redalert_net_get_peer_address_impl :: "u8 \<Rightarrow> u8 list option \<Rightarrow> u8 list option" where
  "redalert_net_get_peer_address_impl peer out =
     (case out of Some a \<Rightarrow> (if length a > 0 then Some (a[0 := 0]) else out) | None \<Rightarrow> out)"

definition redalert_net_init :: "bool \<Rightarrow> int \<times> bool" where "redalert_net_init = redalert_net_init_impl"
definition redalert_net_shutdown :: "bool \<Rightarrow> bool" where "redalert_net_shutdown = redalert_net_shutdown_impl"
definition redalert_net_broadcast :: "u8 list \<Rightarrow> int" where "redalert_net_broadcast = redalert_net_broadcast_impl"
definition redalert_net_send :: "u8 \<Rightarrow> u8 list \<Rightarrow> int" where "redalert_net_send = redalert_net_send_impl"
definition redalert_net_receive :: "nat \<Rightarrow> int" where "redalert_net_receive = redalert_net_receive_impl"
definition redalert_net_peer_count :: int where "redalert_net_peer_count = redalert_net_peer_count_impl"
definition redalert_net_get_peer_address :: "u8 \<Rightarrow> u8 list option \<Rightarrow> u8 list option" where
  "redalert_net_get_peer_address = redalert_net_get_peer_address_impl"

section \<open>The wait\<close>

text \<open>How many of the interrupts are the timer's.\<close>

definition ticks :: "bool list \<Rightarrow> nat" where
  "ticks ws = length (filter id ws)"

lemma ticks_simps [simp]: "ticks [] = 0" "ticks (w # ws) = (if w then Suc (ticks ws) else ticks ws)"
  by (simp_all add: ticks_def)

lemma delay_done: "\<not> t < end \<Longrightarrow> delay_loop end ws t = (True, ws, t)"
  by (cases ws) simp_all

text \<open>\<open>k\<close> ticks are needed when the time passes the end with the \<open>k\<close>-th.\<close>

lemma delay_ticks:
  assumes "k \<le> ticks ws" and "unat t + 10 * k < 2 ^ 32" and "unat end \<le> unat t + 10 * k"
    and "0 < k \<Longrightarrow> unat t + 10 * (k - 1) < unat end"
  shows "\<exists>ws'. delay_loop end ws t = (True, ws', t + of_nat (10 * k)) \<and> ticks ws = k + ticks ws'"
  using assms
proof (induction ws arbitrary: t k)
  case Nil
  then show ?case by (auto simp: word_less_nat_alt)
next
  case (Cons w ws)
  show ?case
  proof (cases k)
    case 0
    then have "\<not> t < end" using Cons.prems by (simp add: word_less_nat_alt)
    with 0 show ?thesis by (simp add: delay_done)
  next
    case (Suc j)
    then have l: "t < end" using Cons.prems by (simp add: word_less_nat_alt)
    have u: "unat (timer_tick t) = unat t + 10"
      using Cons.prems(2) Suc by (simp add: timer_tick_def unat_word_ariths)
    show ?thesis
    proof (cases w)
      case True
      have "\<exists>ws'. delay_loop end ws (timer_tick t) = (True, ws', timer_tick t + of_nat (10 * j)) \<and> ticks ws = j + ticks ws'"
        using Cons.prems Suc True u by (intro Cons.IH) auto
      then show ?thesis using l True Suc by (auto simp: timer_tick_def algebra_simps)
    next
      case False
      then show ?thesis using Cons.IH [of k t] Cons.prems l by auto
    qed
  qed
qed

text \<open>Waiting for \<open>ms\<close> milliseconds ends with the first timer tick that brings the time to the end, after
  \<open>ms\<close> divided by 10 ticks, rounded up, whatever other interrupts wake the processor. But when the
  32-bit sum of the time and \<open>ms\<close> wraps it does not wait at all.\<close>

theorem delay_waits:
  "(unat t + unat ms + 10 < 2 ^ 32 \<and> (unat ms + 9) div 10 \<le> ticks ws \<longrightarrow>
      (\<exists>ws'. doom_time_delay_ms ms ws t = (True, ws', t + of_nat (10 * ((unat ms + 9) div 10)))
         \<and> ticks ws = (unat ms + 9) div 10 + ticks ws'))
   \<and> (2 ^ 32 \<le> unat t + unat ms \<longrightarrow> doom_time_delay_ms ms ws t = (True, ws, t))"
proof (intro conjI impI)
  assume a: "unat t + unat ms + 10 < 2 ^ 32 \<and> (unat ms + 9) div 10 \<le> ticks ws"
  then have "unat (t + ms) = unat t + unat ms" by (simp add: unat_word_ariths)
  then show "\<exists>ws'. doom_time_delay_ms ms ws t = (True, ws', t + of_nat (10 * ((unat ms + 9) div 10)))
      \<and> ticks ws = (unat ms + 9) div 10 + ticks ws'"
    unfolding doom_time_delay_ms_def doom_time_delay_ms_impl_def doom_time_ms_impl_def
    using a by (intro delay_ticks) auto
next
  assume a: "2 ^ 32 \<le> unat t + unat ms"
  have b: "unat t < 2 ^ LENGTH(32)" "unat ms < 2 ^ LENGTH(32)" by (rule unsigned_less)+
  have "unat (t + ms) = unat t + unat ms - 2 ^ 32" using a b by (simp add: unat_word_ariths mod_if)
  then have "\<not> t < t + ms" using a b by (simp add: word_less_nat_alt)
  then show "doom_time_delay_ms ms ws t = (True, ws, t)"
    by (simp add: doom_time_delay_ms_def doom_time_delay_ms_impl_def doom_time_ms_impl_def delay_done)
qed

theorem delay_waits_witness:
  "\<exists>ws'. doom_time_delay_ms 25 [True, False, True, True, False] 1000 = (True, ws', 1030) \<and> ticks ws' = 0"
proof -
  have "(unat (1000 :: u32) + unat (25 :: u32) + 10 < 2 ^ 32 \<and> (unat (25 :: u32) + 9) div 10 \<le> ticks [True, False, True, True, False])"
    by simp
  with delay_waits [of 1000 25 "[True, False, True, True, False]"] show ?thesis by auto
qed

section \<open>The browser shows the page\<close>

text \<open>On an idle stack the browser shows the page of the built-in server and returns 0, with no argument and
  with either spelling of the loopback address; with any other address it prints two lines, returns
  -1 and leaves the network alone.\<close>

theorem lynx_shows_page:
  assumes "net_ok n" and "queue n = []"
  shows "(length argv \<le> 1 \<or> argv ! 1 \<in> {[], ''http://127.0.0.1/'', ''http://127.0.0.1''} \<longrightarrow>
      (\<exists>n'. lynx_main argv (v, n) = Some (0, vga_putchar 10 (vga_puts http_body v), n') \<and> net_ok n' \<and> queue n' = []))
    \<and> (length argv > 1 \<and> argv ! 1 \<notin> {[], ''http://127.0.0.1/'', ''http://127.0.0.1''} \<longrightarrow>
      (\<exists>v'. lynx_main argv (v, n) = Some (- 1, v', n)))"
proof -
  have b: "length http_body \<le> 4095" "c_str (http_body @ [0]) = http_body" by code_simp+
  have u: "unat (4096 :: u64) - 1 = 4095" by simp
  obtain n' where n': "net_http_get_loopback False 4096 n = Some (int (length http_body), http_body @ [0], n')"
    "net_ok n'" "queue n' = []"
    using http_get_runs [OF assms, where max_out = 4096] b(1) unfolding u by (auto simp: min_def)
  show ?thesis using n' b(2) by (auto simp: lynx_main_def Let_def)
qed

theorem lynx_shows_page_witness:
  "\<exists>v n. lynx_main [''LYNX''] (\<lparr>vga_buffer = replicate 2000 0, vga_row = 0, vga_column = 0, vga_fg = 7, vga_bg = 0\<rparr>, net_boot) = Some (0, v, n)"
proof -
  have "queue net_boot = []" by (simp add: net_boot_def loopback_boot_def lb_items_def lb_count_def ring_dist_def)
  note ok = net_ok_boot this
  from lynx_shows_page [OF ok, of "[''LYNX'']" "\<lparr>vga_buffer = replicate 2000 0, vga_row = 0, vga_column = 0, vga_fg = 7, vga_bg = 0\<rparr>"]
  show ?thesis by auto
qed

end
