(* ===== verification/Shell.thy ===== *)
theory Shell
  imports Hosts Alias Fatfs Deskdraw Deskrun
begin

text \<open>
  The shell (\<^verbatim>\<open>src/kernel/shell/shell.c\<close>) and what it drives: the console, the keyboard, the file
  system, the alias table, the FAT driver, the network stack, mode 13h, the mouse and the desktop
  (\<open>gui_run\<close> of \<^verbatim>\<open>src/kernel/gui/gui.c\<close>, from its start to its end). One record holds them all.

  The outside world is the list of the interrupts that end a \<open>hlt\<close>: each brings the bytes the keyboard
  sent, the bytes that wait in the controller for the mouse, and the time. A command gives the state and
  whether it has come to its end: \<open>False\<close> when it waits for a key and no interrupt is left. \<open>None\<close> is a
  call whose C text has no defined meaning. The two compile-time switches \<open>ENABLE_GUI\<close> and
  \<open>ENABLE_NET\<close> are arguments.
\<close>

section \<open>The state\<close>

record wakeup =
  w_keys :: "u8 list"
  w_mouse :: "u8 list"
  w_ms :: u32

record os =
  o_line :: string
  o_vga :: vga
  o_kbd :: kbd
  o_mouse :: mouse
  o_fs :: fs
  o_alias :: alias_table
  o_fat :: fat
  o_net :: net
  o_video :: video
  o_fb :: fb
  o_desk :: gui
  o_cfg :: u8
  o_pending :: "u8 list"
  o_now :: u32
  o_wakes :: "wakeup list"

text \<open>The variables as the kernel is loaded, with the console, the disk and the card as they are found.\<close>

definition os_boot :: "vga \<Rightarrow> drive \<Rightarrow> card \<Rightarrow> u8 \<Rightarrow> wakeup list \<Rightarrow> os" where
  "os_boot v d c cfg ws = \<lparr>o_line = [], o_vga = v, o_kbd = kbd_boot, o_mouse = mouse_boot, o_fs = fs_boot, o_alias = [],
     o_fat = fat_boot d, o_net = net_boot, o_video = video_boot c, o_fb = replicate 64000 0, o_desk = gui_boot fs_boot kbd_boot,
     o_cfg = cfg, o_pending = [], o_now = 0, o_wakes = ws\<rparr>"

definition LINE_MAX :: nat where "LINE_MAX = 256"

abbreviation puts :: "string \<Rightarrow> os \<Rightarrow> os" where
  "puts t s \<equiv> s\<lparr>o_vga := say t (o_vga s)\<rparr>"

abbreviation putbytes :: "u8 list \<Rightarrow> os \<Rightarrow> os" where
  "putbytes bs s \<equiv> s\<lparr>o_vga := vga_puts bs (o_vga s)\<rparr>"

section \<open>Waiting for a key\<close>

definition wake_up :: "wakeup \<Rightarrow> os \<Rightarrow> os" where
  "wake_up w s = s\<lparr>o_kbd := fold keyboard_irq_handler (w_keys w) (o_kbd s), o_pending := o_pending s @ w_mouse w, o_now := w_ms w\<rparr>"

text \<open>The next character; 0 when none comes.\<close>

function get_key :: "os \<Rightarrow> u8 \<times> os" where
  "get_key s =
     (let (c, k) = keyboard_getchar (o_kbd s); s = s\<lparr>o_kbd := k\<rparr>
      in if c \<noteq> 0 then (c, s)
         else case o_wakes s of [] \<Rightarrow> (0, s) | w # ws \<Rightarrow> get_key (wake_up w (s\<lparr>o_wakes := ws\<rparr>)))"
  by pat_completeness auto
termination by (relation "measure (\<lambda>s. length (o_wakes s))") (auto simp: wake_up_def)

declare get_key.simps [simp del]

section \<open>The desktop from the shell\<close>

definition lend :: "os \<Rightarrow> gui" where
  "lend s = (o_desk s)\<lparr>g_fs := o_fs s, g_kbd := o_kbd s, g_mouse := o_mouse s\<rparr>"

definition give_back :: "gui \<Rightarrow> os \<Rightarrow> os" where
  "give_back g s = s\<lparr>o_desk := g, o_fs := g_fs g, o_kbd := g_kbd g, o_mouse := g_mouse g\<rparr>"

partial_function (option) gui_loop :: "os \<Rightarrow> (bool \<times> os) option" where
  "gui_loop s = do {
     (quit, g) \<leftarrow> gui_round (o_pending s) (o_now s) (lend s);
     let s = (give_back g s)\<lparr>o_pending := []\<rparr>;
     if quit then do { v \<leftarrow> video_mode13_leave (o_video s); Some (True, s\<lparr>o_video := v\<rparr>) }
     else do {
       fb \<leftarrow> draw_desktop (o_now s) g (o_fb s);
       let s = s\<lparr>o_fb := fb\<rparr>;
       case o_wakes s of [] \<Rightarrow> Some (False, s) | w # ws \<Rightarrow> gui_loop (wake_up w (s\<lparr>o_wakes := ws\<rparr>))
     }
   }"

definition gui_run :: "os \<Rightarrow> (bool \<times> os) option" where
  "gui_run s = do {
     let s = s\<lparr>o_video := video_mode13_enter (o_video s)\<rparr>;
     g \<leftarrow> gui_start (o_cfg s) (o_now s) (lend s);
     let s = give_back g s;
     gui_loop (s\<lparr>o_video := video_mode13_set_palette gui_draw_apply_palette (o_video s)\<rparr>)
   }"

section \<open>Arguments\<close>

definition skip_spaces :: "string \<Rightarrow> string" where
  "skip_spaces p = dropWhile (\<lambda>c. c = CHR '' '') p"

definition next_arg :: "nat \<Rightarrow> string \<Rightarrow> string \<times> string" where
  "next_arg max_len p =
     (let p = skip_spaces p; buf = take (max_len - 1) (takeWhile (\<lambda>c. c \<noteq> CHR '' '') p) in (buf, drop (length buf) p))"

text \<open>The padded name of \<open>cmd_fatcat\<close> and \<open>cmd_fatput\<close>.\<close>

definition fat_name :: "string \<Rightarrow> string" where
  "fat_name name =
     (let base = take 8 (takeWhile (\<lambda>c. c \<noteq> CHR ''.'') name);
          rest = drop (length base) name;
          rest = (if rest \<noteq> [] \<and> hd rest = CHR ''.'' then tl rest else rest);
          ext = take 3 rest
      in base @ replicate (8 - length base) (CHR '' '') @ ext @ replicate (3 - length ext) (CHR '' ''))"

section \<open>Commands\<close>

definition cmd_help :: "bool \<Rightarrow> bool \<Rightarrow> os \<Rightarrow> os" where
  "cmd_help enable_gui enable_net s =
     (let s = puts ''Commands: help clear echo ls cd mkdir cat edit alias fatcat fatput DOOM REDALERT'' s;
          s = (if enable_gui then puts '' gui'' s else s);
          s = (if enable_net then puts '' ping httpget LYNX'' s else s)
      in puts NL s)"

definition cmd_clear :: "os \<Rightarrow> os" where
  "cmd_clear s = s\<lparr>o_vga := vga_clear (o_vga s)\<rparr>"

definition cmd_echo :: "string \<Rightarrow> os \<Rightarrow> os" where
  "cmd_echo args s = putbytes [10] (puts (skip_spaces args) s)"

definition cmd_ls :: "string \<Rightarrow> os \<Rightarrow> os" where
  "cmd_ls args s =
     (let (path, _) = next_arg FS_PATH_MAX args; (r, out) = fs_list path 512 (o_fs s)
      in if r \<noteq> 0 then puts (''ls: cannot list'' @ NL) s else putbytes [10] (puts out s))"

definition cmd_cd :: "string \<Rightarrow> os \<Rightarrow> os" where
  "cmd_cd args s =
     (let (path, _) = next_arg FS_PATH_MAX args in
      if path = [] then puts (''cd: missing path'' @ NL) s
      else let (r, f) = fs_chdir path (o_fs s); s = s\<lparr>o_fs := f\<rparr>
        in if r \<noteq> 0 then puts (''cd: no such directory'' @ NL) s else s)"

definition cmd_mkdir :: "string \<Rightarrow> os \<Rightarrow> os option" where
  "cmd_mkdir args s =
     (let (path, _) = next_arg FS_PATH_MAX args in
      if path = [] then Some (puts (''mkdir: missing path'' @ NL) s)
      else do {
        (r, f) \<leftarrow> fs_mkdir path (o_fs s);
        let s = s\<lparr>o_fs := f\<rparr>;
        Some (if r \<noteq> 0 then puts (''mkdir: failed'' @ NL) s else s)
      })"

definition cmd_cat :: "string \<Rightarrow> os \<Rightarrow> os option" where
  "cmd_cat args s =
     (let (path, _) = next_arg FS_PATH_MAX args in
      if path = [] then Some (puts (''cat: missing file'' @ NL) s)
      else do {
        (n, buf) \<leftarrow> fs_read path (of_nat FS_FILE_BUF) (o_fs s);
        if n < 0 then Some (puts (''cat: cannot read file'' @ NL) s)
        else let s = putbytes (c_str buf) s
          in Some (if n > 0 \<and> buf ! (nat n - 1) \<noteq> 10 then putbytes [10] s else s)
      })"

definition cmd_fatcat :: "string \<Rightarrow> os \<Rightarrow> os option" where
  "cmd_fatcat args s =
     (let (name, _) = next_arg 12 args in
      if name = [] then Some (puts (''fatcat: missing 8.3 filename'' @ NL) s)
      else do {
        (r, f) \<leftarrow> fat_find_root (bytes_of (fat_name name)) (o_fat s);
        let s = s\<lparr>o_fat := f\<rparr>;
        case r of
          None \<Rightarrow> Some (puts (''fatcat: file not found on disk'' @ NL) s)
        | Some (cluster, sz) \<Rightarrow> do {
            let sz = (if sz > of_nat FS_FILE_BUF then of_nat FS_FILE_BUF else sz);
            ((n, buf), f) \<leftarrow> fat_read_file cluster sz (o_fat s);
            let s = s\<lparr>o_fat := f\<rparr>;
            if n > 0 then
              (let s = putbytes (take (nat n) buf) s in Some (if buf ! (nat n - 1) \<noteq> 10 then putbytes [10] s else s))
            else Some s
          }
      })"

definition cmd_fatput :: "string \<Rightarrow> os \<Rightarrow> os option" where
  "cmd_fatput args s =
     (let (name, args) = next_arg 12 args in
      if name = [] then Some (puts (''fatput: missing filename'' @ NL) s)
      else do {
        let wb = take (FS_FILE_BUF - 1) (bytes_of (skip_spaces args));
        (r, f) \<leftarrow> fat_write_root (bytes_of (fat_name name)) (wb @ [0]) (of_nat (length wb)) (o_fat s);
        let s = s\<lparr>o_fat := f\<rparr>;
        Some (if r \<noteq> 0 then puts (''fatput: write failed'' @ NL) s else s)
      })"

text \<open>The line typed for \<open>edit\<close>: whether it has been ended, the content, the state.\<close>

partial_function (option) edit_loop :: "u8 list \<Rightarrow> os \<Rightarrow> (bool \<times> u8 list \<times> os) option" where
  "edit_loop content s =
     (let (c, s) = get_key s in
      if c = 0 then Some (False, content, s)
      else if c = 10 then Some (True, content, s)
      else edit_loop (if length content < FS_FILE_BUF - 1 then content @ [c] else content) (putbytes [c] s))"

definition cmd_edit :: "string \<Rightarrow> os \<Rightarrow> (bool \<times> os) option" where
  "cmd_edit args s =
     (let (path, _) = next_arg FS_PATH_MAX args in
      if path = [] then Some (True, puts (''edit: missing file'' @ NL) s)
      else do {
        e \<leftarrow> fs_exists path (o_fs s);
        let (r, f) = (if e = 0 then fs_create path (o_fs s) else (0, o_fs s));
        let s = s\<lparr>o_fs := f\<rparr>;
        if r \<noteq> 0 then Some (True, puts (''edit: cannot create file'' @ NL) s)
        else do {
          (ended, content, s) \<leftarrow> edit_loop [] (puts (''Enter content (single line), then press Enter:'' @ NL) s);
          if \<not> ended then Some (False, s)
          else let s = putbytes [10] s; (r, f) = fs_write path content (o_fs s); s = s\<lparr>o_fs := f\<rparr>
            in Some (True, puts ((if r \<noteq> 0 then ''edit: write failed'' else ''Saved.'') @ NL) s)
        }
      })"

definition cmd_alias :: "string \<Rightarrow> os \<Rightarrow> os" where
  "cmd_alias args s =
     (let (name, args) = next_arg ALIAS_NAME_MAX args in
      if name = [] then puts (''alias: usage alias <name> <value>'' @ NL) s
      else let val = take (ALIAS_VALUE_MAX - 1) (skip_spaces args); (r, t) = alias_set name val (o_alias s); s = s\<lparr>o_alias := t\<rparr>
        in puts ((if r \<noteq> 0 then ''alias: failed'' else ''ok'') @ NL) s)"

definition cmd_doom :: "os \<Rightarrow> os option" where
  "cmd_doom s =
     (let (k, m) = doom_input_clear (o_kbd s, snd (mouse_init (o_cfg s) (o_mouse s)))
      in do {
        v \<leftarrow> doom_video_leave (doom_video_enter (o_video s));
        let s = s\<lparr>o_video := v, o_kbd := k, o_mouse := m\<rparr>;
        Some (if doom_main \<noteq> 0 then puts (''DOOM not available (link a DOOM port to provide doom_main).'' @ NL) s else s)
      })"

definition cmd_redalert :: "os \<Rightarrow> os option" where
  "cmd_redalert s =
     (let (k, m) = redalert_input_clear (o_kbd s, snd (mouse_init (o_cfg s) (o_mouse s)))
      in do {
        v \<leftarrow> redalert_video_leave (redalert_video_enter (o_video s));
        let s = s\<lparr>o_video := v, o_kbd := k, o_mouse := m\<rparr>;
        Some (if redalert_main \<noteq> 0 then puts (''Red Alert not available (link a Red Alert port to provide redalert_main).'' @ NL) s else s)
      })"

definition cmd_gui :: "os \<Rightarrow> (bool \<times> os) option" where
  "cmd_gui s = gui_run s"

definition cmd_ping :: "os \<Rightarrow> os option" where
  "cmd_ping s = do {
     (r, n) \<leftarrow> net_ping NET_IPV4_LOOPBACK (o_net s);
     Some (puts ((if r = 0 then ''ping 127.0.0.1: ok'' else ''ping 127.0.0.1: no reply'') @ NL) (s\<lparr>o_net := n\<rparr>))
   }"

definition cmd_httpget :: "os \<Rightarrow> os option" where
  "cmd_httpget s = do {
     (r, buf, n) \<leftarrow> net_http_get_loopback False 4096 (o_net s);
     let s = s\<lparr>o_net := n\<rparr>;
     Some (if r < 0 then puts (''httpget: failed'' @ NL) s else putbytes [10] (putbytes (c_str buf) s))
   }"

definition cmd_lynx :: "string \<Rightarrow> os \<Rightarrow> os option" where
  "cmd_lynx args s =
     (let p = skip_spaces args; argv = (if p \<noteq> [] then [''LYNX'', take (128 - 1) p] else [''LYNX''])
      in do {
        (_, v, n) \<leftarrow> lynx_main argv (o_vga s, o_net s);
        Some (s\<lparr>o_vga := v, o_net := n\<rparr>)
      })"

section \<open>Dispatch\<close>

abbreviation ended :: "os option \<Rightarrow> (bool \<times> os) option" where
  "ended \<equiv> map_option (Pair True)"

definition no_net :: "os \<Rightarrow> os" where
  "no_net s = puts (''The OS was built without the network stack.'' @ NL) s"

text \<open>The command named \<open>cmd\<close> with the rest of the line.\<close>

definition dispatch :: "bool \<Rightarrow> bool \<Rightarrow> string \<Rightarrow> string \<Rightarrow> os \<Rightarrow> (bool \<times> os) option" where
  "dispatch enable_gui enable_net cmd p s =
     (if cmd = ''help'' then ended (Some (cmd_help enable_gui enable_net s))
      else if cmd = ''clear'' then ended (Some (cmd_clear s))
      else if cmd = ''echo'' then ended (Some (cmd_echo p s))
      else if cmd = ''ls'' then ended (Some (cmd_ls p s))
      else if cmd = ''cd'' then ended (Some (cmd_cd p s))
      else if cmd = ''mkdir'' then ended (cmd_mkdir p s)
      else if cmd = ''cat'' then ended (cmd_cat p s)
      else if cmd = ''edit'' then cmd_edit p s
      else if cmd = ''alias'' then ended (Some (cmd_alias p s))
      else if cmd = ''fatcat'' then ended (cmd_fatcat p s)
      else if cmd = ''fatput'' then ended (cmd_fatput p s)
      else if cmd = ''DOOM'' then ended (cmd_doom s)
      else if cmd = ''REDALERT'' then ended (cmd_redalert s)
      else if cmd = ''gui'' then
        (if enable_gui then cmd_gui s else ended (Some (puts (''The OS was built without a GUI.'' @ NL) s)))
      else if cmd = ''ping'' then ended (if enable_net then cmd_ping s else Some (no_net s))
      else if cmd = ''httpget'' then ended (if enable_net then cmd_httpget s else Some (no_net s))
      else if cmd = ''LYNX'' then ended (if enable_net then cmd_lynx p s else Some (no_net s))
      else ended (Some (puts (''Unknown command. Type 'help' for list.'' @ NL) s)))"

definition run_command :: "bool \<Rightarrow> bool \<Rightarrow> string \<Rightarrow> os \<Rightarrow> (bool \<times> os) option" where
  "run_command enable_gui enable_net line s =
     (let p = skip_spaces (alias_parse_and_expand line (of_nat LINE_MAX) (o_alias s)) in
      if p = [] then Some (True, s)
      else let (cmd, p) = next_arg 32 p in dispatch enable_gui enable_net cmd p s)"

definition shell_init :: "os \<Rightarrow> os" where
  "shell_init s = s\<lparr>o_line := [], o_fs := fs_init (o_fs s)\<rparr>"

text \<open>The state in which the shell waits for ever.\<close>

partial_function (option) shell_run :: "bool \<Rightarrow> bool \<Rightarrow> os \<Rightarrow> os option" where
  "shell_run enable_gui enable_net s =
     (let (c, s) = get_key s in
      if c = 0 then Some s
      else if c = 10 \<or> c = 13 then do {
        (finished, s) \<leftarrow> run_command enable_gui enable_net (o_line s) (putbytes [10] s);
        if \<not> finished then Some s else shell_run enable_gui enable_net (puts ''> '' (s\<lparr>o_line := []\<rparr>))
      }
      else if c = 8 then
        shell_run enable_gui enable_net (if o_line s \<noteq> [] then putbytes [8, 32, 8] (s\<lparr>o_line := butlast (o_line s)\<rparr>) else s)
      else if length (o_line s) < LINE_MAX - 1 then
        shell_run enable_gui enable_net (putbytes [c] (s\<lparr>o_line := o_line s @ [byte_char c]\<rparr>))
      else shell_run enable_gui enable_net s)"

end
