(* ===== verification/Shellprops.thy ===== *)
theory Shellprops
  imports Shell
begin

text \<open>
  Properties of the shell: how the characters that interrupts bring become lines, and what lines do.
  The input still to come is compared as one list of characters; the batches the interrupts bring it in,
  and the ring buffer it passes through, do not matter as long as no batch is longer than the ring.
\<close>

section \<open>The characters to come\<close>

definition key_chars :: "u8 list \<Rightarrow> u8 list" where
  "key_chars raws = List.map_filter key_char raws"

definition typed :: "os \<Rightarrow> u8 list" where
  "typed s = keybuf_items (o_kbd s) @ concat (map (\<lambda>w. key_chars (w_keys w)) (o_wakes s))"

definition os_ok :: "os \<Rightarrow> bool" where
  "os_ok s \<longleftrightarrow> keybuf_inv (o_kbd s) \<and> (\<forall>w \<in> set (o_wakes s). length (key_chars (w_keys w)) \<le> KEYBUF_SIZE)"

text \<open>\<open>s'\<close> is \<open>s\<close> when interrupts have come and the characters \<open>cs\<close> are left.\<close>

definition at_input :: "os \<Rightarrow> u8 list \<Rightarrow> os \<Rightarrow> bool" where
  "at_input s cs s' \<longleftrightarrow> (\<exists>k p n ws. s' = s\<lparr>o_kbd := k, o_pending := p, o_now := n, o_wakes := ws\<rparr>) \<and> os_ok s' \<and> typed s' = cs"

lemma key_chars_simps [simp]:
  "key_chars [] = []" "key_chars (r # rs) = (case key_char r of None \<Rightarrow> key_chars rs | Some c \<Rightarrow> c # key_chars rs)"
  by (simp_all add: key_chars_def map_filter_simps split: option.split)

lemma fold_irq:
  assumes "keybuf_inv k" and "length (keybuf_items k) + length (key_chars raws) \<le> KEYBUF_SIZE"
  shows "keybuf_items (fold keyboard_irq_handler raws k) = keybuf_items k @ key_chars raws
    \<and> keybuf_inv (fold keyboard_irq_handler raws k)"
  using assms
proof (induction raws arbitrary: k)
  case (Cons r raws)
  have i: "keybuf_inv (keyboard_irq_handler r k)"
    using Cons.prems(1) key_char_nonzero [of r] by (simp add: irq_eq Let_def keybuf_inv_put split: prod.split option.split)
  show ?case
    using Cons.IH [OF i] Cons.prems by (simp add: keybuf_items_irq split: option.splits)
qed simp

lemma at_input_refl: "os_ok s \<Longrightarrow> at_input s (typed s) s"
  unfolding at_input_def by (intro conjI exI [of _ "o_kbd s"] exI [of _ "o_pending s"] exI [of _ "o_now s"] exI [of _ "o_wakes s"]) auto

lemma get_key_typed:
  "os_ok s \<Longrightarrow> \<exists>s'. get_key s = ((case typed s of [] \<Rightarrow> 0 | c # cs \<Rightarrow> c), s') \<and> at_input s (tl (typed s)) s'"
proof (induction s rule: get_key.induct)
  case (1 s)
  obtain c k where g: "keyboard_getchar (o_kbd s) = (c, k)" by fastforce
  have inv: "keybuf_inv (o_kbd s)" using "1.prems" by (simp add: os_ok_def)
  note k = getchar_items [OF inv g]
  let ?s = "s\<lparr>o_kbd := k\<rparr>"
  have r: "get_key s = (if c \<noteq> 0 then (c, ?s) else case o_wakes s of [] \<Rightarrow> (0, ?s) | w # ws \<Rightarrow> get_key (wake_up w (?s\<lparr>o_wakes := ws\<rparr>)))"
    by (subst get_key.simps) (simp add: g Let_def)
  show ?case
  proof (cases "keybuf_items (o_kbd s)")
    case (Cons d ds)
    then have "at_input s (ds @ concat (map (\<lambda>w. key_chars (w_keys w)) (o_wakes s))) ?s"
      unfolding at_input_def using k "1.prems"
      by (intro conjI exI [of _ k] exI [of _ "o_pending s"] exI [of _ "o_now s"] exI [of _ "o_wakes s"])
         (auto simp: os_ok_def typed_def)
    then show ?thesis using Cons k by (simp add: r typed_def)
  next
    case Nil
    then have c: "c = 0" "keybuf_inv k" "keybuf_items k = []" using k by simp_all
    show ?thesis
    proof (cases "o_wakes s")
      case wakes: Nil
      have "at_input s [] ?s"
        unfolding at_input_def using c wakes
        by (intro conjI exI [of _ k] exI [of _ "o_pending s"] exI [of _ "o_now s"] exI [of _ "o_wakes s"])
           (auto simp: os_ok_def typed_def)
      then show ?thesis using Nil c wakes by (simp add: r typed_def)
    next
      case wakes: (Cons w ws)
      let ?t = "wake_up w (?s\<lparr>o_wakes := ws\<rparr>)"
      have f: "keybuf_items (o_kbd ?t) = key_chars (w_keys w)" "keybuf_inv (o_kbd ?t)"
        using fold_irq [OF c(2), of "w_keys w"] c(3) "1.prems" wakes by (simp_all add: wake_up_def os_ok_def)
      then have t: "os_ok ?t" "typed ?t = typed s"
        using "1.prems" wakes Nil by (simp_all add: os_ok_def typed_def wake_up_def)
      obtain s' where s': "get_key ?t = ((case typed s of [] \<Rightarrow> 0 | c # cs \<Rightarrow> c), s')" "at_input ?t (tl (typed s)) s'"
        using "1.IH" [OF refl g [symmetric] refl, of w ws] c(1) t wakes by auto
      have "at_input s (tl (typed s)) s'"
        using s'(2) by (auto simp: at_input_def wake_up_def)
      then show ?thesis using s'(1) c(1) wakes by (simp add: r)
    qed
  qed
qed

lemma typed_nonzero: "os_ok s \<Longrightarrow> 0 \<notin> set (typed s)"
proof -
  have "0 \<notin> set (key_chars raws)" for raws
    by (induction raws) (auto dest: key_char_nonzero split: option.splits)
  then show "os_ok s \<Longrightarrow> ?thesis" by (auto simp: typed_def os_ok_def keybuf_inv_def)
qed

lemma get_key_next:
  assumes "os_ok s" and "typed s = c # cs"
  obtains s' where "get_key s = (c, s')" and "at_input s cs s'" and "c \<noteq> 0"
  using get_key_typed [OF assms(1)] typed_nonzero [OF assms(1)] assms(2) by auto

lemma get_key_none:
  assumes "os_ok s" and "typed s = []"
  obtains s' where "get_key s = (0, s')" and "at_input s [] s'"
  using get_key_typed [OF assms(1)] assms(2) by auto

lemma at_input_fields:
  assumes "at_input s cs s'"
  shows "o_line s' = o_line s" "o_vga s' = o_vga s" "o_fs s' = o_fs s" "o_alias s' = o_alias s" "o_fat s' = o_fat s"
    "o_net s' = o_net s" "o_video s' = o_video s" "o_mouse s' = o_mouse s" "o_desk s' = o_desk s" "o_fb s' = o_fb s"
    "os_ok s'" "typed s' = cs"
  using assms by (auto simp: at_input_def)

section \<open>Reading a line\<close>

text \<open>What a character does to the line, and what it puts on the screen.\<close>

definition type_char :: "u8 \<Rightarrow> string \<Rightarrow> string \<times> u8 list" where
  "type_char c l =
     (if c = 8 then (if l = [] then ([], []) else (butlast l, [8, 32, 8]))
      else if length l < LINE_MAX - 1 then (l @ [byte_char c], [c]) else (l, []))"

fun type_text :: "u8 list \<Rightarrow> string \<Rightarrow> string \<times> u8 list" where
  "type_text [] l = (l, [])"
| "type_text (c # cs) l = (let (l, out) = type_char c l; (l, out') = type_text cs l in (l, out @ out'))"

lemma vga_puts_append [simp]: "vga_puts (a @ b) v = vga_puts b (vga_puts a v)"
  by (induction a arbitrary: v) simp_all

lemma type_text_Cons: "fst (type_text (c # cs) l) = fst (type_text cs (fst (type_char c l)))"
  by (simp split: prod.split)

lemma type_text_length: "length l < LINE_MAX \<Longrightarrow> length (fst (type_text cs l)) < LINE_MAX"
proof (induction cs arbitrary: l)
  case (Cons c cs)
  have "length (fst (type_char c l)) < LINE_MAX" using Cons.prems by (auto simp: type_char_def)
  then show ?case unfolding type_text_Cons by (rule Cons.IH)
qed simp

lemma type_text_plain:
  "8 \<notin> set cs \<Longrightarrow> length l + length cs < LINE_MAX \<Longrightarrow> type_text cs l = (l @ map byte_char cs, cs)"
  by (induction cs arbitrary: l) (simp_all add: type_char_def)

lemma at_input_step:
  assumes "at_input s cs s'" and "os_ok s' \<and> typed s' = cs \<Longrightarrow> at_input (s'\<lparr>o_line := l, o_vga := v\<rparr>) ds t"
  shows "at_input (s\<lparr>o_line := l, o_vga := v\<rparr>) ds t"
proof -
  obtain k p n ws where s': "s' = s\<lparr>o_kbd := k, o_pending := p, o_now := n, o_wakes := ws\<rparr>" and ok: "os_ok s'" "typed s' = cs"
    using assms(1) unfolding at_input_def by blast
  from assms(2) ok obtain k' p' n' ws' where
    "t = s'\<lparr>o_line := l, o_vga := v\<rparr>\<lparr>o_kbd := k', o_pending := p', o_now := n', o_wakes := ws'\<rparr>" "os_ok t" "typed t = ds"
    unfolding at_input_def by blast
  then show ?thesis
    unfolding at_input_def s' by (intro conjI exI [of _ k'] exI [of _ p'] exI [of _ n'] exI [of _ ws']) simp_all
qed

lemma at_input_frame:
  assumes "at_input s cs s'"
  shows "at_input (s\<lparr>o_line := l, o_vga := v\<rparr>) cs (s'\<lparr>o_line := l, o_vga := v\<rparr>)"
proof -
  obtain k p n ws where s': "s' = s\<lparr>o_kbd := k, o_pending := p, o_now := n, o_wakes := ws\<rparr>" "os_ok s'" "typed s' = cs"
    using assms unfolding at_input_def by blast
  moreover have "os_ok (s'\<lparr>o_line := l, o_vga := v\<rparr>)" "typed (s'\<lparr>o_line := l, o_vga := v\<rparr>) = cs"
    using s'(2,3) by (simp_all add: os_ok_def typed_def)
  ultimately show ?thesis
    unfolding at_input_def by (intro conjI exI [of _ k] exI [of _ p] exI [of _ n] exI [of _ ws]) simp_all
qed

lemma os_ok_upd [simp]:
  "os_ok (s\<lparr>o_line := l\<rparr>) = os_ok s" "os_ok (s\<lparr>o_vga := v\<rparr>) = os_ok s" "os_ok (s\<lparr>o_fs := f\<rparr>) = os_ok s"
  "os_ok (s\<lparr>o_alias := a\<rparr>) = os_ok s" "os_ok (s\<lparr>o_fat := ft\<rparr>) = os_ok s" "os_ok (s\<lparr>o_net := n\<rparr>) = os_ok s"
  "typed (s\<lparr>o_line := l\<rparr>) = typed s" "typed (s\<lparr>o_vga := v\<rparr>) = typed s" "typed (s\<lparr>o_fs := f\<rparr>) = typed s"
  "typed (s\<lparr>o_alias := a\<rparr>) = typed s" "typed (s\<lparr>o_fat := ft\<rparr>) = typed s" "typed (s\<lparr>o_net := n\<rparr>) = typed s"
  by (simp_all add: os_ok_def typed_def)

lemma shell_types:
  "os_ok s \<Longrightarrow> typed s = keys @ rest \<Longrightarrow> 10 \<notin> set keys \<Longrightarrow> 13 \<notin> set keys \<Longrightarrow> type_text keys (o_line s) = (l, out) \<Longrightarrow>
   \<exists>s1. at_input (s\<lparr>o_line := l, o_vga := vga_puts out (o_vga s)\<rparr>) rest s1 \<and> shell_run eg en s = shell_run eg en s1"
proof (induction keys arbitrary: s l out)
  case Nil
  then show ?case using at_input_refl [of s] by auto
next
  case (Cons c keys)
  obtain l1 o1 where 1: "type_char c (o_line s) = (l1, o1)" by fastforce
  obtain o2 where 2: "type_text keys l1 = (l, o2)" and out: "out = o1 @ o2"
    using Cons.prems(5) 1 by (auto split: prod.splits)
  have "typed s = c # (keys @ rest)" using Cons.prems(2) by simp
  from get_key_next [OF Cons.prems(1) this] obtain s' where
    s': "get_key s = (c, s')" "at_input s (keys @ rest) s'" "c \<noteq> 0" .
  note f = at_input_fields [OF s'(2)]
  let ?t = "s'\<lparr>o_line := l1, o_vga := vga_puts o1 (o_vga s')\<rparr>"
  have "shell_run eg en s = shell_run eg en ?t"
  proof -
    have u: "s'\<lparr>o_line := x, o_vga := o_vga s'\<rparr> = s'" if "o_line s' = x" for x using that by auto
    have "type_char c (o_line s') = (l1, o1)" using 1 f(1) by simp
    then show ?thesis
      using Cons.prems(3,4) s'(3) by (subst shell_run.simps) (auto simp: s'(1) type_char_def u split: if_splits)
  qed
  moreover obtain s1 where s1: "at_input (?t\<lparr>o_line := l, o_vga := vga_puts o2 (o_vga ?t)\<rparr>) rest s1" "shell_run eg en ?t = shell_run eg en s1"
    using Cons.IH [of ?t l o2] Cons.prems(3,4) 2 f(11,12) by auto
  ultimately show ?case
    using at_input_step [OF s'(2)] s1 f(2) out by (intro exI [of _ s1]) simp
qed

lemma shell_line:
  assumes "os_ok s" and "typed s = keys @ e # rest" and "e = 10 \<or> e = 13" and "10 \<notin> set keys" and "13 \<notin> set keys"
    and "length (o_line s) < LINE_MAX" and "type_text keys (o_line s) = (line, echo)"
  shows "length line < LINE_MAX \<and>
    (\<exists>s1. at_input (s\<lparr>o_line := line, o_vga := vga_puts (echo @ [10]) (o_vga s)\<rparr>) rest s1
     \<and> shell_run eg en s = (case run_command eg en line s1 of None \<Rightarrow> None | Some (finished, t) \<Rightarrow>
         if finished then shell_run eg en (puts ''> '' (t\<lparr>o_line := []\<rparr>)) else Some t))"
proof -
  obtain s0 where s0: "at_input (s\<lparr>o_line := line, o_vga := vga_puts echo (o_vga s)\<rparr>) (e # rest) s0"
    "shell_run eg en s = shell_run eg en s0"
    using shell_types [OF assms(1,2,4,5,7)] by blast
  note f0 = at_input_fields [OF s0(1)]
  from get_key_next [OF f0(11,12)] obtain s' where s': "get_key s0 = (e, s')" "at_input s0 rest s'" "e \<noteq> 0" .
  note f = at_input_fields [OF s'(2)]
  let ?s1 = "putbytes [10] s'"
  have "at_input (s\<lparr>o_line := line, o_vga := vga_puts (echo @ [10]) (o_vga s)\<rparr>) rest ?s1"
  proof -
    have u: "s'\<lparr>o_line := line, o_vga := x\<rparr> = s'\<lparr>o_vga := x\<rparr>" for x using f(1) f0(1) by (cases s') simp
    have "at_input (s0\<lparr>o_line := line, o_vga := vga_puts [10] (o_vga s0)\<rparr>) rest ?s1"
      using at_input_frame [OF s'(2), where l = line and v = "vga_puts [10] (o_vga s0)"] f(1,2) f0(1) by (simp add: u)
    from at_input_step [OF s0(1) this] show ?thesis using f0(2) by simp
  qed
  moreover have "shell_run eg en s0 = run_command eg en line ?s1 \<bind>
      (\<lambda>(finished, t). if \<not> finished then Some t else shell_run eg en (puts ''> '' (t\<lparr>o_line := []\<rparr>)))"
    using assms(3) s'(1) f(1) f0(1) by (subst shell_run.simps) auto
  moreover have "length line < LINE_MAX" using type_text_length [OF assms(6), of keys] assms(7) by simp
  ultimately show ?thesis
    using s0(2) by (intro conjI exI [of _ ?s1]) (auto split: option.split)
qed

text \<open>C19: However the interrupts deliver it, a line that is typed and ended with either newline character is
  given to \<open>run_command\<close> as the editing of the typed characters leaves it: a backspace takes back one
  character, and what does not fit in 255 is ignored. The screen shows the echo, and when the command ends the
  prompt is shown and the shell goes on with the input that is left.\<close>

theorem shell_reads_line:
  assumes "os_ok s" and "typed s = keys @ e # rest" and "e = 10 \<or> e = 13" and "10 \<notin> set keys" and "13 \<notin> set keys"
    and "length (o_line s) < LINE_MAX" and "type_text keys (o_line s) = (line, echo)"
  shows "length line < LINE_MAX \<and>
    (\<exists>s1. at_input (s\<lparr>o_line := line, o_vga := vga_puts (echo @ [10]) (o_vga s)\<rparr>) rest s1
     \<and> shell_run eg en s = (case run_command eg en line s1 of None \<Rightarrow> None | Some (finished, t) \<Rightarrow>
         if finished then shell_run eg en (puts ''> '' (t\<lparr>o_line := []\<rparr>)) else Some t))"
  by (rule shell_line [OF assms])

lemma keybuf_boot: "keybuf_items kbd_boot = []" "keybuf_inv kbd_boot"
  using kbd_inv_boot by (simp_all add: kbd_inv_def) (simp add: kbd_boot_def keybuf_items_def keybuf_count_def ring_dist_def)

lemma os_boot_input:
  "os_ok (os_boot v d c cfg ws) \<longleftrightarrow> (\<forall>w \<in> set ws. length (key_chars (w_keys w)) \<le> KEYBUF_SIZE)"
  "typed (os_boot v d c cfg ws) = concat (map (\<lambda>w. key_chars (w_keys w)) ws)"
  using keybuf_boot by (simp_all add: os_ok_def typed_def os_boot_def)

text \<open>A machine with an empty disk, for examples: each string is typed with one interrupt.\<close>

definition test_os :: "u8 list list \<Rightarrow> os" where
  "test_os ks = os_boot \<lparr>vga_buffer = replicate 2000 0, vga_row = 0, vga_column = 0, vga_fg = 7, vga_bg = 0\<rparr>
     \<lparr>dr_data = \<lambda>_. replicate 512 0, dr_status = \<lambda>_. Sec_ok\<rparr> text_card 0 (map (\<lambda>k. \<lparr>w_keys = k, w_mouse = [], w_ms = 10\<rparr>) ks)"

lemma test_os_input:
  assumes "\<forall>k \<in> set ks. length (key_chars k) \<le> KEYBUF_SIZE"
  shows "os_ok (test_os ks)" and "typed (test_os ks) = concat (map key_chars ks)" and "o_line (test_os ks) = []"
  using assms unfolding test_os_def by (simp_all add: os_boot_input comp_def) (simp add: os_boot_def)

text \<open>The keys \<open>l\<close> and \<open>d\<close>, then a backspace, \<open>s\<close> and the newline with the next interrupt.\<close>

theorem shell_reads_line_witness:
  "\<exists>s1. o_line s1 = ''ls'' \<and> shell_run True True (test_os [[0x26, 0x20], [0xA0, 0x0E, 0x8E, 0x1F, 0x1C]])
     = (case run_command True True ''ls'' s1 of None \<Rightarrow> None
        | Some (finished, t) \<Rightarrow> if finished then shell_run True True (puts ''> '' (t\<lparr>o_line := []\<rparr>)) else Some t)"
proof -
  let ?s = "test_os [[0x26, 0x20], [0xA0, 0x0E, 0x8E, 0x1F, 0x1C]]"
  have k: "\<forall>k \<in> set [[0x26, 0x20], [0xA0, 0x0E, 0x8E, 0x1F, 0x1C]]. length (key_chars k) \<le> KEYBUF_SIZE"
    "concat (map key_chars [[0x26, 0x20], [0xA0, 0x0E, 0x8E, 0x1F, 0x1C]]) = [108, 100, 8, 115] @ 10 # []" by code_simp+
  note ok = test_os_input(1) [OF k(1)] test_os_input(2) [OF k(1), unfolded k(2)] and l = test_os_input(3) [OF k(1)]
  have t: "type_text [108, 100, 8, 115] (o_line ?s) = (''ls'', [108, 100, 8, 32, 8, 115])" unfolding l by code_simp
  have m: "length (o_line ?s) < LINE_MAX" by (simp add: l LINE_MAX_def)
  from shell_reads_line [OF ok _ _ _ m t, of True True] obtain s1 where
    s1: "at_input (?s\<lparr>o_line := ''ls'', o_vga := vga_puts ([108, 100, 8, 32, 8, 115] @ [10]) (o_vga ?s)\<rparr>) [] s1"
    and r: "shell_run True True ?s = (case run_command True True ''ls'' s1 of None \<Rightarrow> None
      | Some (finished, t) \<Rightarrow> if finished then shell_run True True (puts ''> '' (t\<lparr>o_line := []\<rparr>)) else Some t)" by auto
  from at_input_fields(1) [OF s1] r show ?thesis by auto
qed

section \<open>Running a line\<close>

lemma shell_waits:
  assumes "os_ok s" and "typed s = []"
  obtains s' where "shell_run g n s = Some s'" and "at_input s [] s'"
proof -
  obtain s' where "get_key s = (0, s')" "at_input s [] s'" by (rule get_key_none [OF assms])
  then show ?thesis by (intro that [of s']) (subst shell_run.simps, simp)
qed

lemma byte_char_of [simp]: "byte_char (of_char c) = c"
proof -
  have "(of_char c :: u8) = of_nat (of_char c)" by (rule of_nat_of_char [symmetric])
  moreover have "(of_char c :: nat) < 256" by (rule nat_of_char_less_256)
  ultimately show ?thesis by (simp add: byte_char_def unat_of_nat take_bit_eq_mod)
qed

lemma byte_chars_of [simp]: "map byte_char (bytes_of t) = t"
  by (induction t) (simp_all add: bytes_of_def)

definition no_ctrl :: "string \<Rightarrow> bool" where
  "no_ctrl t \<longleftrightarrow> CHR 0x08 \<notin> set t \<and> CHR 0x0A \<notin> set t \<and> CHR 0x0D \<notin> set t"

lemma no_ctrl_bytes: "no_ctrl t \<Longrightarrow> 8 \<notin> set (bytes_of t) \<and> 10 \<notin> set (bytes_of t) \<and> 13 \<notin> set (bytes_of t)"
proof -
  have b: "byte_char 8 = CHR 0x08" "byte_char 10 = CHR 0x0A" "byte_char 13 = CHR 0x0D" by code_simp+
  have "byte_char b \<in> set t" if "b \<in> set (bytes_of t)" for b using that by (auto simp: bytes_of_def)
  from this [of 8] this [of 10] this [of 13] show "no_ctrl t \<Longrightarrow> ?thesis" unfolding b no_ctrl_def by blast
qed

text \<open>A line typed without corrections.\<close>

lemma shell_plain_line:
  assumes "os_ok s" and "o_line s = []" and "typed s = bytes_of line @ 10 # rest" and "no_ctrl line" and "length line < LINE_MAX"
  obtains s1 where "at_input (s\<lparr>o_line := line, o_vga := say (line @ NL) (o_vga s)\<rparr>) rest s1"
    and "shell_run g n s = (case run_command g n line s1 of None \<Rightarrow> None | Some (finished, t) \<Rightarrow>
         if finished then shell_run g n (puts ''> '' (t\<lparr>o_line := []\<rparr>)) else Some t)"
proof -
  note c = no_ctrl_bytes [OF assms(4)]
  have t: "type_text (bytes_of line) (o_line s) = (line, bytes_of line)"
    using c assms(2,5) by (simp add: type_text_plain bytes_of_def [of line, THEN arg_cong, of length])
  have l: "length (o_line s) < LINE_MAX" using assms(2) by (simp add: LINE_MAX_def)
  have "vga_puts (bytes_of line @ [10]) v = say (line @ NL) v" for v
    by (simp add: say_def bytes_of_def)
  then show ?thesis
    using shell_line [OF assms(1,3) _ _ _ l t, of g n] c that by auto
qed

text \<open>Splitting off words.\<close>

lemma first_word:
  assumes "CHR '' '' \<notin> set w" and "w \<noteq> []" and "args = [] \<or> hd args = CHR '' ''"
  shows "takeWhile (\<lambda>c. c \<noteq> CHR '' '') (w @ args) = w" and "dropWhile (\<lambda>c. c = CHR '' '') (w @ args) = w @ args"
proof -
  have "\<forall>c \<in> set w. c \<noteq> CHR '' ''" using assms(1) by auto
  then show "takeWhile (\<lambda>c. c \<noteq> CHR '' '') (w @ args) = w"
    using assms(3) by (cases args) (simp_all add: takeWhile_append)
  show "dropWhile (\<lambda>c. c = CHR '' '') (w @ args) = w @ args" using assms(1,2) by (cases w) auto
qed

lemma next_arg_word:
  assumes "CHR '' '' \<notin> set w" and "w \<noteq> []" and "length w < m" and "args = [] \<or> hd args = CHR '' ''"
  shows "next_arg m (w @ args) = (w, args)" and "next_arg m (CHR '' '' # w @ args) = (w, args)"
proof -
  note f = first_word [OF assms(1,2,4)]
  show "next_arg m (w @ args) = (w, args)" "next_arg m (CHR '' '' # w @ args) = (w, args)"
    using assms(3) by (simp_all add: next_arg_def skip_spaces_def Let_def f)
qed

lemma run_unaliased:
  assumes "CHR '' '' \<notin> set w" and "w \<noteq> []" and "length w < 32" and "args = [] \<or> hd args = CHR '' ''"
    and "alias_get w (o_alias s) = None" and "length (w @ args) < LINE_MAX"
  shows "run_command g n (w @ args) s = dispatch g n w args s"
proof -
  note f = first_word [OF assms(1,2,4)]
  have w: "w = take (ALIAS_NAME_MAX - 1) (takeWhile (\<lambda>c. c \<noteq> CHR '' '') (w @ args))"
    using assms(3) by (simp add: ALIAS_NAME_MAX_def f)
  have "alias_parse_and_expand (w @ args) (of_nat LINE_MAX) (o_alias s) = w @ args"
    using alias_expand_first_word [OF _ f(2) [symmetric] w refl, of "of_nat LINE_MAX" "o_alias s"] assms(2,5,6) by (simp add: LINE_MAX_def)
  then show ?thesis
    using assms(2) next_arg_word(1) [OF assms(1,2,3,4)] by (simp add: run_command_def skip_spaces_def f(2))
qed

section \<open>Editing a file and showing it\<close>

lemma edit_types:
  "os_ok s \<Longrightarrow> typed s = cs @ 10 # rest \<Longrightarrow> 10 \<notin> set cs \<Longrightarrow> length acc + length cs < FS_FILE_BUF \<Longrightarrow>
   \<exists>s'. edit_loop acc s = Some (True, acc @ cs, s') \<and> at_input (putbytes cs s) rest s'"
proof (induction cs arbitrary: s acc)
  case Nil
  then have "typed s = 10 # rest" by simp
  from get_key_next [OF Nil.prems(1) this] obtain s' where "get_key s = (10, s')" "at_input s rest s'" .
  then show ?case by (subst edit_loop.simps) (auto intro!: exI [of _ s'])
next
  case (Cons c cs)
  have "typed s = c # (cs @ 10 # rest)" using Cons.prems(2) by simp
  from get_key_next [OF Cons.prems(1) this] obtain s' where
    s': "get_key s = (c, s')" "at_input s (cs @ 10 # rest) s'" "c \<noteq> 0" .
  note f = at_input_fields [OF s'(2)]
  let ?t = "putbytes [c] s'"
  have e: "edit_loop acc s = edit_loop (acc @ [c]) ?t"
    using Cons.prems(3,4) s'(3) by (subst edit_loop.simps) (auto simp: s'(1))
  obtain s1 where s1: "edit_loop (acc @ [c]) ?t = Some (True, (acc @ [c]) @ cs, s1)" "at_input (putbytes cs ?t) rest s1"
    using Cons.IH [of ?t "acc @ [c]"] Cons.prems(3,4) f(11,12) by auto
  have "at_input (s'\<lparr>o_line := o_line s, o_vga := vga_puts (c # cs) (o_vga s)\<rparr>) rest s1"
    using s1(2) f(1,2) by (cases s') simp
  from at_input_step [OF s'(2) this] have "at_input (putbytes (c # cs) s) rest s1" by (cases s) simp
  then show ?case using e s1(1) by auto
qed

lemma fs_exists_top:
  assumes "plain name" and "name \<noteq> []" and "length name < FS_NAME_MAX" and "path_to_dir (''/'' @ name) f = None"
    and "file_by_name 0 name f = None"
  shows "fs_exists (''/'' @ name) f = Some 0"
proof -
  have n: "normalize_path (''/'' @ name) FS_PATH_MAX = ''/'' @ name"
    using assms(1-3) by (intro normalize_top) (simp_all add: FS_NAME_MAX_def)
  have "scan_last name 1 1 = 1" using assms(1) by (intro scan_last_no_slash) (simp add: plain_def)
  moreover have "path_to_dir ''/'' f = Some 0"
  proof -
    have "normalize_path ''/'' FS_PATH_MAX = ''/''" by code_simp
    then show ?thesis by (simp add: path_to_dir_def cget_def walk_path.simps)
  qed
  ultimately show ?thesis using assms(4,5) n by (simp add: fs_exists_def Let_def)
qed

text \<open>A name for a file of the root directory that is not taken.\<close>

definition fresh_name :: "string \<Rightarrow> fs \<Rightarrow> bool" where
  "fresh_name name f \<longleftrightarrow> plain name \<and> name \<noteq> [] \<and> length name < FS_NAME_MAX \<and> CHR '' '' \<notin> set name \<and> no_ctrl name
     \<and> path_to_dir (''/'' @ name) f = None \<and> file_by_name 0 name f = None \<and> length (files f) < FS_MAX_FILES"

definition edit_prompt :: string where
  "edit_prompt = ''Enter content (single line), then press Enter:'' @ NL"

lemma bytes_of_append [simp]: "bytes_of (a @ b) = bytes_of a @ bytes_of b" "bytes_of [] = []"
  by (simp_all add: bytes_of_def)

lemma bytes_NL [simp]: "bytes_of (CHR 0x0A # t) = 10 # bytes_of t"
  by (simp add: bytes_of_def)

lemma bytes_Cons: "bytes_of (c # t) = of_char c # bytes_of t"
  by (simp add: bytes_of_def)

lemma next_arg_path:
  "fresh_name name f \<Longrightarrow> next_arg FS_PATH_MAX ('' /'' @ name) = (''/'' @ name, [])"
  using next_arg_word(2) [of "''/'' @ name" FS_PATH_MAX "[]"] by (simp add: fresh_name_def FS_PATH_MAX_def FS_NAME_MAX_def)

lemma edit_new_file:
  assumes "os_ok s" and "typed s = content @ 10 # rest" and "10 \<notin> set content" and "length content < FS_FILE_BUF"
    and "fresh_name name (o_fs s)" and f: "fs_create (''/'' @ name) (o_fs s) = (0, f1)" "fs_write (''/'' @ name) content f1 = (0, f2)"
  obtains t where "cmd_edit ('' /'' @ name) s = Some (True, t)" and "os_ok t" and "typed t = rest" and "o_alias t = o_alias s"
    and "o_vga t = vga_puts (bytes_of edit_prompt @ content @ bytes_of (NL @ ''Saved.'' @ NL)) (o_vga s)" and "o_fs t = f2"
proof -
  have ex: "fs_exists (''/'' @ name) (o_fs s) = Some 0" using assms(5) by (intro fs_exists_top) (simp_all add: fresh_name_def)
  let ?s0 = "puts edit_prompt (s\<lparr>o_fs := f1\<rparr>)"
  obtain s1 where s1: "edit_loop [] ?s0 = Some (True, content, s1)" "at_input (putbytes content ?s0) rest s1"
    using edit_types [of ?s0 content rest "[]"] assms(1-4) by auto
  note g = at_input_fields [OF s1(2)]
  let ?t = "puts (''Saved.'' @ NL) (putbytes [10] s1\<lparr>o_fs := f2\<rparr>)"
  have "cmd_edit ('' /'' @ name) s = Some (True, ?t)"
    using next_arg_path [OF assms(5)] f ex s1(1) g(3) by (simp add: cmd_edit_def edit_prompt_def)
  then show ?thesis
    using g by (intro that [of ?t]) (simp_all add: say_def)
qed

lemma cat_file:
  assumes "fs_read (''/'' @ name) (of_nat FS_FILE_BUF) (o_fs s) = Some (int (length content), content @ [0])"
    and "0 \<notin> set content" and "10 \<notin> set content" and "fresh_name name f"
  shows "cmd_cat ('' /'' @ name) s = Some (putbytes (content @ (if content = [] then [] else [10])) s)"
proof -
  have c: "c_str (content @ [0]) = content" using assms(2) by (auto simp: c_str_def takeWhile_append)
  have "content \<noteq> [] \<Longrightarrow> (content @ [0]) ! (length content - 1) \<noteq> 10"
    using assms(3) by (metis last_conv_nth last_in_set nth_append diff_less length_greater_0_conv less_numeral_extra(1))
  then show ?thesis using next_arg_path [OF assms(4)] assms(1) c by (cases "content = []") (auto simp: cmd_cat_def Let_def)
qed

lemma shell_ends:
  assumes "run_command g n line s1 = Some (True, t)"
    and "shell_run g n s = (case run_command g n line s1 of None \<Rightarrow> None | Some (finished, t) \<Rightarrow>
         if finished then shell_run g n (puts ''> '' (t\<lparr>o_line := []\<rparr>)) else Some t)"
  shows "shell_run g n s = shell_run g n (puts ''> '' (t\<lparr>o_line := []\<rparr>))"
  using assms by simp

text \<open>A typed command that is no alias: it is dispatched with the line shown, and the shell prompts again.\<close>

lemma shell_types_command:
  assumes "os_ok s" and "o_line s = []" and "typed s = bytes_of (w @ args) @ 10 # rest" and "no_ctrl (w @ args)"
    and "length (w @ args) < LINE_MAX" and "CHR '' '' \<notin> set w" "w \<noteq> []" "length w < 32"
    and "args = [] \<or> hd args = CHR '' ''" and "alias_get w (o_alias s) = None"
  obtains s1 where "at_input (s\<lparr>o_line := w @ args, o_vga := say (w @ args @ NL) (o_vga s)\<rparr>) rest s1"
    and "\<And>t. dispatch g n w args s1 = Some (True, t)
      \<Longrightarrow> shell_run g n s = shell_run g n (puts ''> '' (t\<lparr>o_line := []\<rparr>))"
    and "dispatch g n w args s1 = None \<Longrightarrow> shell_run g n s = None"
proof -
  from shell_plain_line [OF assms(1-5), of g n] obtain s1 where
    s1: "at_input (s\<lparr>o_line := w @ args, o_vga := say ((w @ args) @ NL) (o_vga s)\<rparr>) rest s1"
    and r1: "shell_run g n s = (case run_command g n (w @ args) s1 of None \<Rightarrow> None | Some (finished, t) \<Rightarrow>
         if finished then shell_run g n (puts ''> '' (t\<lparr>o_line := []\<rparr>)) else Some t)" .
  have "run_command g n (w @ args) s1 = dispatch g n w args s1"
    using assms(5-10) at_input_fields(4) [OF s1] by (intro run_unaliased) simp_all
  with that [of s1] s1 shell_ends [OF _ r1] r1 show thesis by simp
qed

lemma shell_types_cat:
  assumes "os_ok s" and "o_line s = []" and "typed s = bytes_of (''cat /'' @ name @ NL)" and "alias_get ''cat'' (o_alias s) = None"
    and "fresh_name name f"
  obtains s2 where "at_input (s\<lparr>o_line := ''cat /'' @ name, o_vga := say (''cat /'' @ name @ NL) (o_vga s)\<rparr>) [] s2"
    and "shell_run g n s = (case cmd_cat ('' /'' @ name) s2 of None \<Rightarrow> None | Some t \<Rightarrow> shell_run g n (puts ''> '' (t\<lparr>o_line := []\<rparr>)))"
proof -
  have n: "no_ctrl name" "length name < 32" using assms(5) by (simp_all add: fresh_name_def FS_NAME_MAX_def)
  let ?p = "'' /'' @ name"
  have "no_ctrl (''cat'' @ ?p)" "length (''cat'' @ ?p) < LINE_MAX" "typed s = bytes_of (''cat'' @ ?p) @ 10 # []"
    using n assms(3) by (simp_all add: no_ctrl_def LINE_MAX_def bytes_Cons)
  from shell_types_command [OF assms(1,2) this(3,1,2) _ _ _ _ assms(4), of g n] obtain s2 where
    "at_input (s\<lparr>o_line := ''cat'' @ ?p, o_vga := say (''cat'' @ ?p @ NL) (o_vga s)\<rparr>) [] s2"
    "\<And>t. dispatch g n ''cat'' ?p s2 = Some (True, t) \<Longrightarrow> shell_run g n s = shell_run g n (puts ''> '' (t\<lparr>o_line := []\<rparr>))"
    "dispatch g n ''cat'' ?p s2 = None \<Longrightarrow> shell_run g n s = None" by auto
  then show thesis by (intro that [of s2]) (simp_all add: dispatch_def split: option.split)
qed

text \<open>Typing \<open>cat\<close> with the path of a file shows it; then the shell waits.\<close>

lemma shell_cats:
  assumes "os_ok s" and "o_line s = []" and "typed s = bytes_of (''cat /'' @ name @ NL)" and "alias_get ''cat'' (o_alias s) = None"
    and fresh: "fresh_name name f" and "0 \<notin> set content" "10 \<notin> set content"
    and rd: "fs_read (''/'' @ name) (of_nat FS_FILE_BUF) (o_fs s) = Some (int (length content), content @ [0])"
  obtains s' where "shell_run g n s = Some s'" and "o_line s' = []" and "typed s' = []" and "o_fs s' = o_fs s"
    and "o_vga s' = vga_puts (bytes_of (''cat /'' @ name @ NL) @ content @ (if content = [] then [] else [10]) @ bytes_of ''> '') (o_vga s)"
proof -
  obtain s2 where s2: "at_input (s\<lparr>o_line := ''cat /'' @ name, o_vga := say (''cat /'' @ name @ NL) (o_vga s)\<rparr>) [] s2"
    and r2: "shell_run g n s = (case cmd_cat ('' /'' @ name) s2 of None \<Rightarrow> None | Some t \<Rightarrow> shell_run g n (puts ''> '' (t\<lparr>o_line := []\<rparr>)))"
    by (rule shell_types_cat [OF assms(1-5), of g n])
  note f2 = at_input_fields [OF s2]
  let ?u = "puts ''> '' ((putbytes (content @ (if content = [] then [] else [10])) s2)\<lparr>o_line := []\<rparr>)"
  have "cmd_cat ('' /'' @ name) s2 = Some (putbytes (content @ (if content = [] then [] else [10])) s2)"
    using rd f2(3) by (intro cat_file [OF _ assms(6,7) fresh]) simp
  then have run: "shell_run g n s = shell_run g n ?u" using r2 by simp
  have "os_ok ?u" "typed ?u = []" using f2(11,12) by simp_all
  from shell_waits [OF this, of g n] obtain s' where s': "shell_run g n ?u = Some s'" "at_input ?u [] s'" by blast
  note f = at_input_fields [OF s'(2)]
  have "o_vga s' = vga_puts (bytes_of (''cat /'' @ name @ NL) @ content @ (if content = [] then [] else [10]) @ bytes_of ''> '') (o_vga s)"
    using f(2) f2(2) by (simp add: say_def bytes_Cons)
  then show thesis using that run s' f f2(3) by simp
qed

lemma shell_cat_undefined:
  assumes "os_ok s" and "o_line s = []" and "typed s = bytes_of (''cat /'' @ name @ NL)" and "alias_get ''cat'' (o_alias s) = None"
    and "fresh_name name f" and "dead_frame (o_fs s) name = None"
  shows "shell_run g n s = None"
proof -
  obtain s2 where s2: "at_input (s\<lparr>o_line := ''cat /'' @ name, o_vga := say (''cat /'' @ name @ NL) (o_vga s)\<rparr>) [] s2"
    and r2: "shell_run g n s = (case cmd_cat ('' /'' @ name) s2 of None \<Rightarrow> None | Some t \<Rightarrow> shell_run g n (puts ''> '' (t\<lparr>o_line := []\<rparr>)))"
    by (rule shell_types_cat [OF assms(1-5), of g n])
  have "plain name" "name \<noteq> []" "length name < FS_NAME_MAX" using assms(5) by (simp_all add: fresh_name_def)
  from resolve_top [OF this] have "fs_read (''/'' @ name) m (o_fs s) = None" for m by (rule fs_read_undefined) (rule assms(6))
  moreover have "o_fs s2 = o_fs s" using at_input_fields(3) [OF s2] by simp
  ultimately have "cmd_cat ('' /'' @ name) s2 = None"
    by (simp only: cmd_cat_def next_arg_path [OF assms(5)] Let_def prod.case) simp
  then show ?thesis using r2 by simp
qed

text \<open>C1: From the keyboard to the screen: typing \<open>edit\<close> with the name of a new file, a line of text and then
  \<open>cat\<close> with the name stores the text and shows it again, in a build that leaves the dead frame of
  \<open>resolve_file_path\<close> alone. The screen gets exactly the commands, the
  messages, the text as it is typed and the text as it is read back, with a newline behind it unless it is empty; at the end
  the shell waits, and the file holds the text. By the C standard, which defines nothing in that frame, \<open>cat\<close> of the
  name just stored is undefined.\<close>

theorem edit_then_cat:
  assumes "os_ok s" and "o_line s = []" and "fs_reach (o_fs s)" and "fresh_name name (o_fs s)"
    and "alias_get ''edit'' (o_alias s) = None" and "alias_get ''cat'' (o_alias s) = None"
    and "typed s = bytes_of (''edit /'' @ name @ NL) @ content @ bytes_of (NL @ ''cat /'' @ name @ NL)"
    and "10 \<notin> set content" and "length content < FS_FILE_BUF"
  shows "(frame_kept (o_fs s) \<longrightarrow> (\<exists>s'. shell_run g n s = Some s' \<and> o_line s' = [] \<and> typed s' = []
      \<and> o_vga s' = vga_puts (bytes_of (''edit /'' @ name @ NL @ edit_prompt) @ content @ bytes_of (NL @ ''Saved.'' @ NL @ ''> cat /'' @ name @ NL)
          @ content @ (if content = [] then [] else [10]) @ bytes_of ''> '') (o_vga s)
      \<and> fs_read (''/'' @ name) (of_nat FS_FILE_BUF) (o_fs s') = Some (int (length content), content @ [0])))
    \<and> (dead_frame (o_fs s) name = None \<longrightarrow> shell_run g n s = None)"
proof -
  have n: "no_ctrl name" "length name < 32" "plain name" "name \<noteq> []" "length name < FS_NAME_MAX" "length (files (o_fs s)) < FS_MAX_FILES"
    "file_by_name 0 name (o_fs s) = None" using assms(4) by (simp_all add: fresh_name_def FS_NAME_MAX_def)
  have nz: "0 \<notin> set content" using typed_nonzero [OF assms(1)] assms(7) by auto
  let ?p = "'' /'' @ name"
  have nc: "no_ctrl (''edit'' @ ?p)" using n(1) by (simp add: no_ctrl_def)
  have len: "length (''edit'' @ ?p) < LINE_MAX" using n(2) by (simp add: LINE_MAX_def)
  have "typed s = bytes_of (''edit'' @ ?p) @ 10 # (content @ 10 # bytes_of (''cat'' @ ?p) @ [10])"
    using assms(7) by (simp add: bytes_Cons)
  from shell_types_command [OF assms(1,2) this nc len _ _ _ _ assms(5), of g n] obtain s1 where
    s1: "at_input (s\<lparr>o_line := ''edit'' @ ?p, o_vga := say (''edit'' @ ?p @ NL) (o_vga s)\<rparr>) (content @ 10 # bytes_of (''cat'' @ ?p) @ [10]) s1"
    and r1: "\<And>t. dispatch g n ''edit'' ?p s1 = Some (True, t) \<Longrightarrow> shell_run g n s = shell_run g n (puts ''> '' (t\<lparr>o_line := []\<rparr>))"
    by auto
  note f1 = at_input_fields [OF s1]
  obtain fa fb where fs: "fs_create (''/'' @ name) (o_fs s) = (0, fa)" "fs_write (''/'' @ name) content fa = (0, fb)" "fs_reach fa"
    "dead_frame fa = dead_frame (o_fs s)" "dead_frame fb = dead_frame (o_fs s)"
    by (rule fs_create_then_write [OF assms(3) n(3-7), of content])
  have "o_fs s1 = o_fs s" using f1(3) by simp
  then have fr: "fresh_name name (o_fs s1)" and fs1: "fs_create (''/'' @ name) (o_fs s1) = (0, fa)" "fs_write (''/'' @ name) content fa = (0, fb)"
    using assms(4) fs(1,2) by simp_all
  obtain t1 where t1: "cmd_edit ?p s1 = Some (True, t1)" "os_ok t1" "typed t1 = bytes_of (''cat'' @ ?p) @ [10]" "o_alias t1 = o_alias s1"
    "o_vga t1 = vga_puts (bytes_of edit_prompt @ content @ bytes_of (NL @ ''Saved.'' @ NL)) (o_vga s1)" "o_fs t1 = fb"
    by (rule edit_new_file [OF f1(11,12) assms(8,9) fr fs1])
  let ?t1 = "puts ''> '' (t1\<lparr>o_line := []\<rparr>)"
  have run: "shell_run g n s = shell_run g n ?t1" using r1 [of t1] t1(1) by (simp add: dispatch_def)
  have ok: "os_ok ?t1" "o_line ?t1 = []" "typed ?t1 = bytes_of (''cat /'' @ name @ NL)" "alias_get ''cat'' (o_alias ?t1) = None" "o_fs ?t1 = fb"
    using t1(2-4,6) f1(4) assms(6) by (simp_all add: bytes_Cons)
  show ?thesis
  proof (intro conjI impI)
    assume kept: "frame_kept (o_fs s)"
    have "fs_read (''/'' @ name) (of_nat FS_FILE_BUF) fb = Some (int (length content), content @ [0])"
      using fs_create_write_read [OF assms(3) n(3-7) _ _ kept, of content "of_nat FS_FILE_BUF"] fs(1,2) assms(9)
      by (simp add: FS_FILE_BUF_def)
    then have rd: "fs_read (''/'' @ name) (of_nat FS_FILE_BUF) (o_fs ?t1) = Some (int (length content), content @ [0])" unfolding ok(5) .
    obtain s' where s': "shell_run g n ?t1 = Some s'" "o_line s' = []" "typed s' = []" "o_fs s' = o_fs ?t1"
      "o_vga s' = vga_puts (bytes_of (''cat /'' @ name @ NL) @ content @ (if content = [] then [] else [10]) @ bytes_of ''> '') (o_vga ?t1)"
      by (rule shell_cats [OF ok(1-4) assms(4) nz assms(8) rd])
    have "o_vga s' = vga_puts (bytes_of (''edit /'' @ name @ NL @ edit_prompt) @ content @ bytes_of (NL @ ''Saved.'' @ NL @ ''> cat /'' @ name @ NL)
          @ content @ (if content = [] then [] else [10]) @ bytes_of ''> '') (o_vga s)"
      using s'(5) t1(5) f1(2) by (simp add: say_def bytes_Cons)
    then show "\<exists>s'. shell_run g n s = Some s' \<and> o_line s' = [] \<and> typed s' = []
      \<and> o_vga s' = vga_puts (bytes_of (''edit /'' @ name @ NL @ edit_prompt) @ content @ bytes_of (NL @ ''Saved.'' @ NL @ ''> cat /'' @ name @ NL)
          @ content @ (if content = [] then [] else [10]) @ bytes_of ''> '') (o_vga s)
      \<and> fs_read (''/'' @ name) (of_nat FS_FILE_BUF) (o_fs s') = Some (int (length content), content @ [0])"
      using run s'(1-4) rd by auto
  next
    assume "dead_frame (o_fs s) name = None"
    then show "shell_run g n s = None"
      unfolding run using fs(5) ok(5) by (intro shell_cat_undefined [OF ok(1-4) assms(4)]) simp
  qed
qed

lemma shell_init_input:
  "os_ok (shell_init s) = os_ok s" "typed (shell_init s) = typed s" "o_line (shell_init s) = []"
  "o_fs (shell_init s) = fs_init (o_fs s)" "o_alias (shell_init s) = o_alias s"
  by (simp_all add: shell_init_def)

lemma test_os_fields: "o_fs (test_os ks) = fs_boot" "o_alias (test_os ks) = []" "o_net (test_os ks) = net_boot"
  by (simp_all add: test_os_def os_boot_def)

definition keys_edit_cat :: "u8 list list" where
  "keys_edit_cat = [[0x12, 0x20, 0x17, 0x14, 0x39, 0x35, 0x31, 0x1C], [0x23, 0x17], [0x1C], [0x2E, 0x1E, 0x14, 0x39, 0x35, 0x31, 0x1C]]"

text \<open>The example once on a build that keeps the frame and once by the standard alone.\<close>

definition test_os_kept :: "u8 list list \<Rightarrow> os" where
  "test_os_kept ks = (test_os ks)\<lparr>o_fs := fs_kept\<rparr>"

theorem edit_then_cat_witness:
  "(\<exists>s'. shell_run True True (shell_init (test_os_kept keys_edit_cat)) = Some s'
      \<and> fs_read ''/n'' (of_nat FS_FILE_BUF) (o_fs s') = Some (2, [104, 105, 0]))
    \<and> shell_run True True (shell_init (test_os keys_edit_cat)) = None"
proof -
  have k: "\<forall>k \<in> set keys_edit_cat. length (key_chars k) \<le> KEYBUF_SIZE"
    "concat (map key_chars keys_edit_cat) = bytes_of (''edit /'' @ ''n'' @ NL) @ [104, 105] @ bytes_of (NL @ ''cat /'' @ ''n'' @ NL)"
    by code_simp+
  have fr: "fresh_name ''n'' (fs_init f)" for f
  proof -
    have n: "normalize_path (''/'' @ ''n'') FS_PATH_MAX = ''/'' @ ''n''"
      by (rule normalize_top) (simp_all add: plain_def)
    have "path_to_dir (''/'' @ ''n'') (fs_init f) = None"
      unfolding path_to_dir_def n by (simp add: cget_def walk_path.simps next_part_def FS_NAME_MAX_def fs_init_def dir_by_name_def)
    then show ?thesis
      by (simp add: fresh_name_def plain_def no_ctrl_def FS_NAME_MAX_def fs_init_def file_by_name_def FS_MAX_FILES_def)
  qed
  have d: "dead_frame (fs_init fs_boot) ''n'' = None" by (simp add: fs_init_def fs_boot_def)
  note F = test_os_kept_def shell_init_input test_os_fields test_os_input [OF k(1)] k(2) fr
  show ?thesis
    using edit_then_cat [of "shell_init (test_os_kept keys_edit_cat)" "''n''" "[104, 105]" True True] fs_kept_boot
      edit_then_cat [of "shell_init (test_os keys_edit_cat)" "''n''" "[104, 105]" True True] fs_reach_boot d
    by (auto simp: F FS_FILE_BUF_def)
qed

section \<open>Aliases\<close>

lemma run_aliased:
  assumes "CHR '' '' \<notin> set w" and "w \<noteq> []" and "length w < 32" and "alias_get w (o_alias s) = Some (v @ vargs)"
    and "args \<noteq> []" and "hd args \<noteq> CHR '' ''" and "length (v @ vargs @ '' '' @ args) < LINE_MAX"
    and "CHR '' '' \<notin> set v" and "v \<noteq> []" and "length v < 32" and "vargs = [] \<or> hd vargs = CHR '' ''"
  shows "run_command g n (w @ '' '' @ args) s = dispatch g n v (vargs @ '' '' @ args) s"
proof -
  have sp: "'' '' @ args = [] \<or> hd ('' '' @ args) = CHR '' ''" "vargs @ '' '' @ args = [] \<or> hd (vargs @ '' '' @ args) = CHR '' ''"
    using assms(11) by (cases vargs; simp)+
  note f = first_word [OF assms(1,2) sp(1)] and f' = first_word [OF assms(8,9) sp(2)]
  have w: "w = take (ALIAS_NAME_MAX - 1) (takeWhile (\<lambda>c. c \<noteq> CHR '' '') (w @ '' '' @ args))"
    using assms(3) by (simp only: f) (simp add: ALIAS_NAME_MAX_def)
  have a: "args = dropWhile (\<lambda>c. c = CHR '' '') (drop (length w) (w @ '' '' @ args))"
    using assms(5,6) by (cases args) simp_all
  have "alias_parse_and_expand (w @ '' '' @ args) (of_nat LINE_MAX) (o_alias s) = v @ vargs @ '' '' @ args"
    using alias_expand_first_word [OF _ f(2) [symmetric] w a, of "of_nat LINE_MAX" "o_alias s"] assms(2,4,5,7) by (simp add: LINE_MAX_def)
  then show ?thesis
    using assms(9) next_arg_word(1) [OF assms(8,9,10) sp(2)] f'(2) by (simp add: run_command_def skip_spaces_def)
qed

text \<open>C21: After \<open>alias name value\<close> has answered \<open>ok\<close>, a line that begins with the name runs as the same line with the
  value in the place of the name, whatever the value's command and arguments are; the first word of the value is
  not expanded again.\<close>

theorem alias_stands_for_value:
  assumes "alias_get ''alias'' (o_alias s) = None" and "length (o_alias s) < ALIAS_MAX \<or> alias_get name (o_alias s) \<noteq> None"
    and "CHR '' '' \<notin> set name" and "name \<noteq> []" and "length name < ALIAS_NAME_MAX"
    and "CHR '' '' \<notin> set v" and "v \<noteq> []" and "length v < 32" and "vargs = [] \<or> hd vargs = CHR '' ''" and "length (v @ vargs) < ALIAS_VALUE_MAX"
    and "args \<noteq> []" and "hd args \<noteq> CHR '' ''" and "length (v @ vargs @ '' '' @ args) < LINE_MAX"
  shows "\<exists>t. run_command g n (''alias '' @ name @ '' '' @ v @ vargs) s = Some (True, t) \<and> o_vga t = say (''ok'' @ NL) (o_vga s)
    \<and> (\<forall>u. o_alias u = o_alias t \<longrightarrow> run_command g n (name @ '' '' @ args) u = dispatch g n v (vargs @ '' '' @ args) u)"
proof -
  obtain r t' where set: "alias_set name (v @ vargs) (o_alias s) = (r, t')" by fastforce
  have r: "r = 0"
    using set assms(2,4) by (auto simp: alias_set_eq alias_get_map_of alias_replace_None split: option.splits if_splits)
  have "alias_get name t' = Some (v @ vargs)"
    using alias_set_lookup [OF set [unfolded r] assms(5), of name] assms(10) by simp
  moreover have "length (''alias'' @ '' '' @ name @ '' '' @ v @ vargs) < LINE_MAX"
    using assms(5,10) by (simp add: ALIAS_NAME_MAX_def ALIAS_VALUE_MAX_def LINE_MAX_def)
  then have "run_command g n (''alias'' @ '' '' @ name @ '' '' @ v @ vargs) s = dispatch g n ''alias'' ('' '' @ name @ '' '' @ v @ vargs) s"
    using assms(1) by (intro run_unaliased) simp_all
  moreover have "next_arg ALIAS_NAME_MAX ('' '' @ name @ '' '' @ v @ vargs) = (name, '' '' @ v @ vargs)"
    using next_arg_word(2) [OF assms(3,4,5), of "'' '' @ v @ vargs"] by simp
  moreover have "skip_spaces ('' '' @ v @ vargs) = v @ vargs"
    using first_word(2) [OF assms(6,7,9)] by (simp add: skip_spaces_def)
  moreover have "take (ALIAS_VALUE_MAX - 1) (v @ vargs) = v @ vargs" using assms(10) by simp
  ultimately have *: "run_command g n (''alias '' @ name @ '' '' @ v @ vargs) s = Some (True, puts (''ok'' @ NL) (s\<lparr>o_alias := t'\<rparr>))"
    "alias_get name t' = Some (v @ vargs)"
    using set r assms(4) by (simp_all add: dispatch_def cmd_alias_def del: take_append)
  have "run_command g n (name @ '' '' @ args) u = dispatch g n v (vargs @ '' '' @ args) u" if "o_alias u = t'" for u
    using run_aliased [OF assms(3,4) _ _ assms(11,12,13,6,7,8,9)] assms(5) *(2) that by (simp add: ALIAS_NAME_MAX_def)
  with *(1) show ?thesis by simp
qed

theorem alias_stands_for_value_witness:
  "\<exists>t. run_command True True ''alias p echo x'' (test_os []) = Some (True, t) \<and> run_command True True ''p y'' t = ended (Some (cmd_echo '' x y'' t))"
  using alias_stands_for_value [of "test_os []" "''p''" "''echo''" "'' x''" "''y''" True True]
  by (auto simp: test_os_fields ALIAS_MAX_def ALIAS_NAME_MAX_def ALIAS_VALUE_MAX_def LINE_MAX_def dispatch_def)

section \<open>Names of files on the disk\<close>

definition padded :: "nat \<Rightarrow> string \<Rightarrow> string" where
  "padded k t = t @ replicate (k - length t) (CHR '' '')"

lemma fat_name_parts:
  assumes "CHR ''.'' \<notin> set base" and "length base \<le> 8" and "length ext \<le> 3"
  shows "fat_name (base @ ''.'' @ ext) = padded 8 base @ padded 3 ext"
proof -
  have "\<forall>c \<in> set base. c \<noteq> CHR ''.''" using assms(1) by auto
  then have "takeWhile (\<lambda>c. c \<noteq> CHR ''.'') (base @ ''.'' @ ext) = base" by (simp add: takeWhile_append)
  then show ?thesis using assms(2,3) by (simp add: fat_name_def padded_def)
qed

lemma cmd_fatput_word:
  assumes "CHR '' '' \<notin> set w" and "w \<noteq> []" and "length w \<le> 11" and "content \<noteq> []" and "hd content \<noteq> CHR '' ''"
    and "length content < 4000"
  shows "cmd_fatput ('' '' @ w @ '' '' @ content) s = do {
       (r, f) \<leftarrow> fat_write_root (bytes_of (fat_name w)) (bytes_of content @ [0]) (of_nat (length content)) (o_fat s);
       Some (if r \<noteq> 0 then puts (''fatput: write failed'' @ NL) (s\<lparr>o_fat := f\<rparr>) else s\<lparr>o_fat := f\<rparr>)
     }"
proof -
  have "next_arg 12 ('' '' @ w @ '' '' @ content) = (w, '' '' @ content)"
    using next_arg_word(2) [OF assms(1,2), of 12 "'' '' @ content"] assms(3) by simp
  moreover have "skip_spaces ('' '' @ content) = content" using assms(4,5) by (cases content) (simp_all add: skip_spaces_def)
  moreover have "length (bytes_of t) = length t" for t by (simp add: bytes_of_def)
  ultimately show ?thesis using assms(2,6) by (simp add: cmd_fatput_def FS_FILE_BUF_def Let_def)
qed

text \<open>C35: \<open>fatput\<close> with a name and an extension writes the rest of the line to the file of the padded 8.3 name, as
  long as name, dot and extension together have at most 11 characters. A name of 8 characters with an extension of 3
  has 12: its last character is cut off the name and becomes the first character of what is written.\<close>

theorem fatput_writes:
  assumes "CHR ''.'' \<notin> set base" and "CHR '' '' \<notin> set base" and "base \<noteq> []" and "length base \<le> 8"
    and "CHR '' '' \<notin> set ext" and "length ext \<le> 3" and "content \<noteq> []" and "hd content \<noteq> CHR '' ''" and "length content < 4000"
  shows "cmd_fatput ('' '' @ base @ ''.'' @ ext @ '' '' @ content) s =
    (let (e, c) = (if length base + 1 + length ext \<le> 11 then (ext, content) else (take 2 ext, drop 2 ext @ '' '' @ content))
     in do {
       (r, f) \<leftarrow> fat_write_root (bytes_of (padded 8 base @ padded 3 e)) (bytes_of c @ [0]) (of_nat (length c)) (o_fat s);
       Some (if r \<noteq> 0 then puts (''fatput: write failed'' @ NL) (s\<lparr>o_fat := f\<rparr>) else s\<lparr>o_fat := f\<rparr>)
     })"
proof -
  let ?w = "base @ ''.'' @ ext"
  have sp: "CHR '' '' \<notin> set ?w" "?w \<noteq> []" "'' '' @ content = [] \<or> hd ('' '' @ content) = CHR '' ''" using assms(2,5) by simp_all
  have lb: "length (bytes_of t) = length t" for t by (simp add: bytes_of_def)
  show ?thesis
  proof (cases "length base + 1 + length ext \<le> 11")
    case True
    then have l: "length ?w \<le> 11" by simp
    show ?thesis
      using True cmd_fatput_word [OF sp(1,2) l assms(7-9), of s] fat_name_parts [OF assms(1,4,6)] by (simp add: Let_def)
  next
    case False
    then have l: "length base = 8" "length ext = 3" using assms(4,6) by simp_all
    have "take 11 ?w = base @ ''.'' @ take 2 ext" "drop 11 (?w @ '' '' @ content) = drop 2 ext @ '' '' @ content"
      using l by simp_all
    moreover have "length (base @ ''.'' @ take 2 ext) = 11" using l by simp
    ultimately have "next_arg 12 ('' '' @ ?w @ '' '' @ content) = (base @ ''.'' @ take 2 ext, drop 2 ext @ '' '' @ content)"
      using first_word [OF sp] by (simp add: next_arg_def skip_spaces_def Let_def)
    moreover have "skip_spaces (drop 2 ext @ '' '' @ content) = drop 2 ext @ '' '' @ content"
    proof -
      have "drop 2 ext \<noteq> []" "CHR '' '' \<notin> set (drop 2 ext)" using l assms(5) by (auto dest: in_set_dropD)
      from first_word(2) [OF this(2,1) sp(3)] show ?thesis by (simp add: skip_spaces_def)
    qed
    ultimately show ?thesis
      using False assms(9) l fat_name_parts [OF assms(1,4), of "take 2 ext"] by (simp add: cmd_fatput_def FS_FILE_BUF_def lb Let_def)
  qed
qed

theorem fatput_writes_witness:
  "let s = test_os [] in cmd_fatput '' READMEEE.TXT hi'' s = do {
       (r, f) \<leftarrow> fat_write_root (bytes_of ''READMEEETX '') (bytes_of ''T hi'' @ [0]) 4 (o_fat s);
       Some (if r \<noteq> 0 then puts (''fatput: write failed'' @ NL) (s\<lparr>o_fat := f\<rparr>) else s\<lparr>o_fat := f\<rparr>)
     }"
  using fatput_writes [of "''READMEEE''" "''TXT''" "''hi''" "test_os []"] by (simp add: padded_def)

section \<open>Editing a file again\<close>

lemma normalize_relative:
  assumes "plain name" and "name \<noteq> []" and "length name < 127"
  shows "normalize_path name FS_PATH_MAX = name"
proof -
  have "norm_loop name FS_PATH_MAX 0 [] = name"
    using norm_loop_plain [of name "[]" FS_PATH_MAX "[]"] assms by (simp add: FS_PATH_MAX_def)
  moreover have "last name \<noteq> CHR ''/''"
    using last_in_set [OF assms(2)] assms(1) unfolding plain_def by metis
  moreover have "cget name 0 \<noteq> CHR ''/''" using assms(1,2) by (cases name) (auto simp: cget_def plain_def)
  ultimately show ?thesis by (simp add: normalize_path_def)
qed

lemma root_dir_path: "path_to_dir ''/'' f = Some 0"
proof -
  have "normalize_path ''/'' FS_PATH_MAX = ''/''" by code_simp
  then show ?thesis by (simp add: path_to_dir_def cget_def walk_path.simps)
qed

text \<open>What the operations of \<open>edit\<close> make of a plain name, and of the same name with a slash in front.\<close>

lemma plain_name_ops:
  assumes "plain name" and "name \<noteq> []" and "length name < FS_NAME_MAX"
  shows "fs_exists name f = Some (if file_by_name 0 (tl name) f = None then 0 else 1)"
    and "file_by_name 0 name f \<noteq> None \<Longrightarrow> fs_create name f = (- 1, f)"
    and "fs_write name c f = fs_write (''/'' @ name) c f"
    and "file_by_name 0 name f \<noteq> None \<Longrightarrow> fs_exists (''/'' @ name) f = Some 1"
proof -
  have n: "normalize_path name FS_PATH_MAX = name" using assms by (intro normalize_relative) (simp_all add: FS_NAME_MAX_def)
  have t: "normalize_path (''/'' @ name) FS_PATH_MAX = ''/'' @ name" using assms by (intro normalize_top) (simp_all add: FS_NAME_MAX_def)
  have h: "cget name 0 \<noteq> CHR ''/''" and sl: "CHR ''/'' \<notin> set (tl name)" "CHR ''/'' \<notin> set name"
    using assms(1,2) by (cases name; auto simp: cget_def plain_def)+
  have l: "last_of name = 0" using h sl(2) by (simp add: last_of_def scan_last_no_slash)
  have d: "drop 1 (''/'' @ name) = name" by simp
  show "fs_exists name f = Some (if file_by_name 0 (tl name) f = None then 0 else 1)"
    using n h sl(1) assms(2) root_dir_path by (simp add: fs_exists_def Let_def path_to_dir_def [of name] scan_last_no_slash drop_Suc)
  show "file_by_name 0 name f \<noteq> None \<Longrightarrow> fs_create name f = (- 1, f)"
    using n l assms(2) by (auto simp: fs_create_def Let_def parent_of_def)
  show "fs_write name c f = fs_write (''/'' @ name) c f"
    unfolding fs_write_def n t Let_def l last_of_top [OF assms(1)] d parent_of_top by (simp add: parent_of_def)
  show "file_by_name 0 name f \<noteq> None \<Longrightarrow> fs_exists (''/'' @ name) f = Some 1"
    using t sl(2) root_dir_path by (simp add: fs_exists_def Let_def scan_last_no_slash)
qed

text \<open>C36: Editing a file of the root directory again by its plain name: \<open>fs_exists\<close> skips the first
  character of a path without a slash, so it looks for a file that is named by the rest. If the root directory has no such
  file, creating the file fails because it exists, and \<open>edit\<close> reports it and changes nothing; if it has one,
  \<open>edit\<close> does the same as with the absolute path of the file, which asks for a line and writes it.
  (The name is a plain name of 1 to 31 characters without a blank.)\<close>

theorem edit_again_fails:
  assumes "plain name" and "name \<noteq> []" and "length name < FS_NAME_MAX" and "CHR '' '' \<notin> set name"
    and "file_by_name 0 name (o_fs s) \<noteq> None"
  shows "cmd_edit ('' '' @ name) s = (if file_by_name 0 (tl name) (o_fs s) = None
    then Some (True, puts (''edit: cannot create file'' @ NL) s) else cmd_edit ('' /'' @ name) s)"
proof -
  note ops = plain_name_ops [OF assms(1-3)]
  have a: "next_arg FS_PATH_MAX ('' '' @ name) = (name, [])" "next_arg FS_PATH_MAX ('' /'' @ name) = (''/'' @ name, [])"
    using next_arg_word(2) [of name FS_PATH_MAX "[]"] next_arg_word(2) [of "''/'' @ name" FS_PATH_MAX "[]"] assms(2-4)
    by (simp_all add: FS_PATH_MAX_def FS_NAME_MAX_def)
  show ?thesis
  proof (cases "file_by_name 0 (tl name) (o_fs s) = None")
    case True
    then show ?thesis using a(1) ops(1,2) assms(2,5) by (simp add: cmd_edit_def)
  next
    case False
    then show ?thesis using assms(2) by (simp only: cmd_edit_def a ops(1) ops(3) ops(4) [OF assms(5)] Let_def prod.case) simp
  qed
qed

text \<open>With only \<open>note\<close> in the root directory a second \<open>edit\<close> fails; with \<open>ote\<close> there as well it does not.\<close>

lemma note_files:
  "files (snd (fs_create ''note'' (fs_init fs_boot))) = [\<lparr>fn_type = FS_FILE, fn_name = ''note'', fn_parent = 0, fn_size = 0, fn_data = None\<rparr>]"
proof -
  have n: "normalize_path ''note'' FS_PATH_MAX = ''note''" by (rule normalize_relative) (simp_all add: plain_def)
  show ?thesis
    by (simp add: fs_create_def n fs_init_def last_of_def cget_def parent_of_def file_by_name_def FS_MAX_FILES_def node_name_def FS_NAME_MAX_def)
qed

theorem edit_again_fails_witness:
  "let f = snd (fs_create ''note'' (fs_init fs_boot)); f' = snd (fs_create ''ote'' f)
   in cmd_edit '' note'' ((test_os [])\<lparr>o_fs := f\<rparr>) = Some (True, puts (''edit: cannot create file'' @ NL) ((test_os [])\<lparr>o_fs := f\<rparr>))
     \<and> cmd_edit '' note'' ((test_os [])\<lparr>o_fs := f'\<rparr>) = cmd_edit '' /note'' ((test_os [])\<lparr>o_fs := f'\<rparr>)"
proof -
  define f where "f = snd (fs_create ''note'' (fs_init fs_boot))"
  define f' where "f' = snd (fs_create ''ote'' f)"
  have n: "normalize_path ''ote'' FS_PATH_MAX = ''ote''" by (rule normalize_relative) (simp_all add: plain_def)
  have f: "files f = [\<lparr>fn_type = FS_FILE, fn_name = ''note'', fn_parent = 0, fn_size = 0, fn_data = None\<rparr>]"
    unfolding f_def by (rule note_files)
  have f': "files f' = files f @ [\<lparr>fn_type = FS_FILE, fn_name = ''ote'', fn_parent = 0, fn_size = 0, fn_data = None\<rparr>]"
    using f by (simp add: f'_def fs_create_def Let_def n last_of_def cget_def parent_of_def file_by_name_def FS_MAX_FILES_def node_name_def FS_NAME_MAX_def)
  have "file_by_name 0 ''note'' f \<noteq> None" "file_by_name 0 (tl ''note'') f = None"
    "file_by_name 0 ''note'' f' \<noteq> None" "file_by_name 0 (tl ''note'') f' = Some 1" by (simp_all add: file_by_name_def f f')
  then show ?thesis
    using edit_again_fails [of "''note''" "(test_os [])\<lparr>o_fs := f\<rparr>"] edit_again_fails [of "''note''" "(test_os [])\<lparr>o_fs := f'\<rparr>"]
    by (simp add: f_def [symmetric] f'_def [symmetric] Let_def plain_def FS_NAME_MAX_def)
qed

end
