(* ===== verification/Fatroot.thy ===== *)
theory Fatroot
  imports Fatwrite
begin

text \<open>
  \<open>fat_write_root\<close> as a whole on a FAT16 volume with an empty root directory: the slot, the cluster, its
  data and the directory entry, and what looking the new file up gives afterwards.
\<close>

section \<open>Names and the slot\<close>

definition upper_name :: "u8 list \<Rightarrow> bool" where
  "upper_name nm \<longleftrightarrow> length nm = 11 \<and> 0 \<notin> set nm \<and> nm ! 0 \<noteq> 0xE5 \<and> (\<forall>c \<in> set nm. ascii_upper c = c)"

lemma normalize_loop_upper:
  "i + n \<le> length nm \<Longrightarrow> \<forall>c \<in> set nm. ascii_upper c = c \<Longrightarrow> normalize_loop nm i n = Some (take n (drop i nm))"
proof (induction n arbitrary: i)
  case (Suc n)
  then have "char_at nm i = Some (nm ! i)" "ascii_upper (nm ! i) = nm ! i" by (simp_all add: char_at_def)
  moreover have "take (Suc n) (drop i nm) = nm ! i # take n (drop (i + 1) nm)"
    using Suc.prems(1) by (simp add: take_Suc_conv_app_nth Cons_nth_drop_Suc [symmetric])
  ultimately show ?case using Suc by simp
qed simp

lemma normalize_83_upper: "upper_name nm \<Longrightarrow> normalize_83 nm = Some nm"
  using normalize_loop_upper [of 0 11 nm] by (simp add: upper_name_def normalize_83_def)

text \<open>The root directory lies between the table and the data.\<close>

definition root_geom :: "fat \<Rightarrow> bool" where
  "root_geom s \<longleftrightarrow> root_sectors s \<noteq> 0
     \<and> unat (fat_start_lba s) + unat (fat_num_fats s) * unat (fat_sectors s) \<le> unat (root_start_lba s)
     \<and> unat (root_start_lba s) + unat (root_sectors s) \<le> unat (data_start_lba s)"

lemma root_geomD:
  assumes "root_geom s" and "full_vol s"
  shows "unat (root_start_lba s) < unat (data_start_lba s)" "lba28 (root_start_lba s) = root_start_lba s"
    "\<not> in_fat s (root_start_lba s)" "\<not> cluster_sec s c (root_start_lba s)"
proof -
  have g: "data_geom s" "fat_geom s" using assms(2) vol16D(2) by (simp_all add: full_vol_def)
  have "0 < unat (root_sectors s)" using assms(1) by (simp add: root_geom_def unat_gt_0)
  then show lt: "unat (root_start_lba s) < unat (data_start_lba s)" using assms(1) by (simp add: root_geom_def)
  then show l: "lba28 (root_start_lba s) = root_start_lba s"
    using g(1) by (intro lba28_id) (simp add: data_geom_def)
  show "\<not> cluster_sec s c (root_start_lba s)" using lt by (simp add: cluster_sec_def base_of_def l)
  show "\<not> in_fat s (root_start_lba s)"
    using in_fat_before [OF g(2), of "unat (root_start_lba s)" "root_start_lba s"] assms(1) l by (auto simp: root_geom_def)
qed

lemma root_geom_cong: "same_params s s' \<Longrightarrow> root_geom s' = root_geom s"
  by (simp add: root_geom_def same_params_def)

lemma find_slot_empty:
  assumes "fat_ok s" and "root_sectors s \<noteq> 0" and "sec_at s (root_start_lba s) ! 0 = 0"
  shows "fat1216_find_slot nm s
    = Some (Some (False, root_start_lba s, 0), s\<lparr>sector_buf := sec_at s (root_start_lba s)\<rparr>)"
proof -
  obtain m where m: "unat (root_sectors s) = Suc m"
    using assms(2) by (cases "unat (root_sectors s)") (simp_all add: unat_eq_0)
  define d where "d = sec_at s (root_start_lba s)"
  have ld: "length d = 512" unfolding d_def by (rule sec_at_length [OF assms(1)])
  have ok: "fat_ok (s\<lparr>sector_buf := d\<rparr>)" using assms(1) ld by simp
  have n: "unat (bps (s\<lparr>sector_buf := d\<rparr>) div FAT_ROOT_ENTRY_SIZE) = Suc 15"
    unfolding bps_ok [OF ok] FAT_ROOT_ENTRY_SIZE_def by simp
  have "peek d (0 * SIZEOF_DIRENT) 1 = Some [0]"
    using ld assms(3) by (simp add: peek_def take_Suc_conv_app_nth d_def)
  then have "slot_entries nm d (root_start_lba s) 0 (Suc 15) None = Some (Sl_end None 0)"
    unfolding slot_entries.simps(2) by simp
  then show ?thesis
    unfolding fat1216_find_slot_def m d_def [symmetric]
    using load_sector_ok [OF assms(1), of "root_start_lba s", folded d_def] n
    by (simp add: Let_def del: slot_entries.simps)
qed

lemma one_cluster:
  assumes "0 < sz" and "unat sz \<le> 512 * unat (sectors_per_cluster s)" and "fat_ok s"
  shows "spc s * bps s \<noteq> 0" and "(sz + spc s * bps s - 1) div (spc s * bps s) = 1"
proof -
  have "unat (sectors_per_cluster s) < 256" by (rule unat_less_8)
  then have u: "unat (spc s * bps s) = 512 * unat (sectors_per_cluster s)"
    unfolding bps_ok [OF assms(3)] by (simp add: spc_def unat_word_ariths)
  have pos: "0 < unat sz" using assms(1) by (simp add: unat_gt_0 word_gt_0)
  then show nz: "spc s * bps s \<noteq> 0" using u assms(2) by (auto simp: unat_eq_0 [symmetric])
  have "unat (sz + spc s * bps s) = unat sz + unat (spc s * bps s)"
    using assms(2) u \<open>unat (sectors_per_cluster s) < 256\<close> by (simp add: unat_word_ariths)
  moreover from this have "sz + spc s * bps s \<noteq> 0" using pos by (auto simp: unat_eq_0 [symmetric])
  ultimately have "unat (sz + spc s * bps s - 1) = unat (spc s * bps s) + (unat sz - 1)"
    using pos by (simp add: unat_minus_one)
  moreover have "(n + (m - 1)) div n = 1" if "0 < m" "m \<le> n" for n m :: nat
    using that by (subst div_add_self1) simp_all
  ultimately have "unat ((sz + spc s * bps s - 1) div (spc s * bps s)) = 1"
    using assms(2) pos unfolding u unat_div by simp
  then show "(sz + spc s * bps s - 1) div (spc s * bps s) = 1" by (simp add: word_unat_eq_iff)
qed

section \<open>Writing a new file\<close>

text \<open>A file that fits one cluster: it goes to the first free cluster.\<close>

text \<open>One cluster for a small file: allocated, written, and the end of its own chain.\<close>

lemma one_cluster_written:
  assumes v: "full_vol s" and b1: "buffered s s1" and c: "first_free s 2 c"
    and sz: "unat sz \<le> 512 * unat (sectors_per_cluster s)" "unat sz < 2 ^ 31" "unat sz \<le> length buf"
  obtains s2 s3 where "fat1216_alloc_chain 1 s1 = Some (Some c, s2)" "fat1216_write_bytes c buf sz s2 = Some (0, s3)"
    "full_vol s3" "same_params s s3" "chain s3 c [c]" "take (unat sz) (cluster_data s3 c) = take (unat sz) buf"
    "\<And>l. \<not> in_fat s l \<Longrightarrow> \<not> cluster_sec s c l \<Longrightarrow> sec_at s3 l = sec_at s l"
proof -
  have ok: "fat_ok s" using v vol16D(1) by (simp add: full_vol_def)
  have cc: "cluster_of s c" using c by (simp add: first_free_def)
  have p1: "same_params s s1" by (rule buffered_params [OF b1])
  have v1: "full_vol s1" by (rule full_vol_buffered [OF b1 v])
  have c1: "first_free s1 2 c"
    using c by (simp add: first_free_def none_free_def cluster_of_cong [OF p1] fat_entry_buffered [OF ok b1])
  obtain s2 where s2: "fat1216_alloc_chain 1 s1 = Some (Some c, s2)" "table_of s1 s2" "chain s2 c [c]"
    using alloc_one [OF _ c1] v1 by (auto simp: full_vol_def)
  have p2: "same_params s s2" using p1 table_ofD(2) [OF s2(2)] by (simp add: same_params_def)
  have v2: "full_vol s2"
    using table_ofD(1) [OF s2(2)] v same_params_geom(1) [OF p2] by (simp add: full_vol_def)
  have spc: "sectors_per_cluster s2 = sectors_per_cluster s" using p2 by (simp add: same_params_def)
  have w0: "unat (0 :: u32) \<le> unat sz" and lt: "unat sz + 512 < 2 ^ 32" using sz(2) by simp_all
  have room: "unat sz \<le> unat (0 :: u32) + 512 * unat (sectors_per_cluster s2) * length [c]" using sz(1) spc by simp
  have in2: "\<forall>x \<in> set [c]. cluster_of s2 x" using cc cluster_of_cong [OF p2] by simp
  obtain s3 where s3: "fat1216_write_loop c buf sz 0 s2 = Some (0, s3)" "full_vol s3" "same_params s2 s3"
    and d3: "take (unat sz - unat (0 :: u32)) (concat (map (cluster_data s3) [c])) = take (unat sz - unat (0 :: u32)) (drop (unat (0 :: u32)) buf)"
    and o3: "\<forall>l. (\<forall>x \<in> set [c]. \<not> cluster_sec s2 x l) \<longrightarrow> sec_at s3 l = sec_at s2 l"
    and e3: "\<forall>x. cluster_of s2 x \<longrightarrow> fat_entry s3 x = fat_entry s2 x"
    using write_loop_ok [OF v2 s2(3) in2 w0 sz(3) lt room] by (elim exE conjE) (rule that)
  show thesis
  proof (rule that [OF s2(1) _ s3(2)])
    show "fat1216_write_bytes c buf sz s2 = Some (0, s3)" using s3(1) by (simp add: fat1216_write_bytes_def)
    show "same_params s s3" using p2 s3(3) by (simp add: same_params_def)
    show "chain s3 c [c]"
      by (rule fat_chain_cong [OF s2(3)]) (use e3 in2 s3(3) in \<open>auto simp: eoc_min_def same_params_def\<close>)
    show "take (unat sz) (cluster_data s3 c) = take (unat sz) buf" using d3 by simp
    show "sec_at s3 l = sec_at s l" if "\<not> in_fat s l" "\<not> cluster_sec s c l" for l
    proof -
      have "sec_at s3 l = sec_at s2 l" using o3 that(2) same_params_geom(3) [OF p2] by simp
      also have "\<dots> = sec_at s1 l" using table_ofD(3) [OF s2(2)] that(1) in_fat_cong [OF p1] by simp
      finally show ?thesis using buffered_simps(3) [OF b1] by simp
    qed
  qed
qed

lemma write_root_new:
  assumes v: "full_vol s" "fs_kind s = FS_FAT1216" "root_geom s" "sec_at s (root_start_lba s) ! 0 = 0"
    and c: "first_free s 2 c" and nm: "upper_name nm"
    and sz: "0 < sz" "unat sz \<le> 512 * unat (sectors_per_cluster s)" "unat sz < 2 ^ 31" "unat sz \<le> length buf"
  obtains s' where "fat_write_root nm buf sz s = Some (0, s')" "full_vol s'" "same_params s s'" "chain s' c [c]"
    "take (unat sz) (cluster_data s' c) = take (unat sz) buf"
    "sec_at s' (root_start_lba s') = entry_sector (sec_at s (root_start_lba s)) 0 nm c sz"
proof -
  let ?r = "root_start_lba s"
  have ok: "fat_ok s" and v16: "vol16 s" using v(1) vol16D(1) by (simp_all add: full_vol_def)
  have cc: "cluster_of s c" using c by (simp add: first_free_def)
  have rs: "root_sectors s \<noteq> 0" using v(3) by (simp add: root_geom_def)
  define s1 where "s1 = s\<lparr>sector_buf := sec_at s ?r\<rparr>"
  have b1: "buffered s s1" unfolding s1_def by (rule buffered_sector [OF ok sec_at_length [OF ok]])
  have p1: "same_params s s1" by (rule buffered_params [OF b1])
  obtain s2 s3 where s3: "fat1216_alloc_chain 1 s1 = Some (Some c, s2)" "fat1216_write_bytes c buf sz s2 = Some (0, s3)"
    "full_vol s3" "same_params s s3" "chain s3 c [c]"
    and d3: "take (unat sz) (cluster_data s3 c) = take (unat sz) buf"
    and o3: "\<And>l. \<not> in_fat s l \<Longrightarrow> \<not> cluster_sec s c l \<Longrightarrow> sec_at s3 l = sec_at s l"
    by (rule one_cluster_written [OF v(1) b1 c sz(2-4)]) (rule that)
  note p3 = s3(4)
  have ok3: "fat_ok s3" using s3(3) vol16D(1) by (simp add: full_vol_def)
  have lnm: "length nm = 11" using nm by (simp add: upper_name_def)
  have c16: "unat c < 2 ^ 16" using vol16D(7) [OF v16 cc] .
  have i0: "(0 :: nat) \<le> 13" by simp
  obtain s4 where s4: "put_dirent nm c sz False ?r 0 s3 = Some (0, s4)" "fat_ok s4" "same_params s3 s4"
    and o4: "\<And>l. sec_at s4 l = (if lba28 l = lba28 ?r then entry_sector (sec_at s3 ?r) 0 nm c sz else sec_at s3 l)"
    using put_dirent_new [OF ok3 lnm c16 i0, of sz ?r] by (elim exE conjE) (rule that, auto)
  have p4: "same_params s s4" using p3 s4(3) by (simp add: same_params_def)
  note R = root_geomD [OF v(3,1)]
  have r3: "sec_at s3 ?r = sec_at s ?r" using o3 R(3,4) by simp
  have g3: "root_geom s3" "root_start_lba s3 = ?r" using v(3) root_geom_cong [OF p3] p3 by (simp_all add: same_params_def)
  note R3 = root_geomD [OF g3(1) s3(3), unfolded g3(2)]
  have v163: "vol16 s3" using s3(3) by (simp add: full_vol_def)
  have "sec_at s4 l = sec_at s3 l" if "in_fat s3 l" for l
    using o4 [of l] R3(2,3) that by (auto simp: in_fat_def)
  then have e4: "fat_entry s4 x = fat_entry s3 x" if "cluster_of s3 x" for x
    using fat_entry_table [OF v163 s4(2,3) _ that] by blast
  have d4: "cluster_data s4 c = cluster_data s3 c"
    by (rule cluster_data_keep [OF v(1) cc p3 p4]) (use o4 R(2,4) in \<open>auto simp: cluster_sec_def\<close>)
  have v4: "full_vol s4"
    using v163 s3(3) s4(2,3) same_params_geom(1) [OF s4(3)] by (simp add: full_vol_def vol16_def same_params_def fat_geom_def)
  have ch4: "chain s4 c [c]"
    by (rule fat_chain_cong [OF s3(5)]) (use e4 cc cluster_of_cong [OF p3] s4(3) in \<open>auto simp: eoc_min_def same_params_def\<close>)
  have "fat_write_root nm buf sz s = Some (0, s4)"
  proof -
    have slot: "fat1216_find_slot nm s = Some (Some (False, ?r, 0), s1)"
      unfolding s1_def by (rule find_slot_empty [OF ok rs v(4)])
    have sz1: "0 < sz" "unat sz \<le> 512 * unat (sectors_per_cluster s1)" using sz(1,2) p1 by (simp_all add: same_params_def)
    have ok1: "fat_ok s1" by (rule buffered_simps(1) [OF b1 ok])
    show ?thesis
      using normalize_83_upper [OF nm] slot one_cluster [OF sz1 ok1] s3(1,2) s4(1) sz(1) v(2)
      by (simp add: fat_write_root_def fat1216_write_root_def Let_def)
  qed
  moreover have "take (unat sz) (cluster_data s4 c) = take (unat sz) buf" using d3 d4 by simp
  moreover have "sec_at s4 (root_start_lba s4) = entry_sector (sec_at s ?r) 0 nm c sz"
    using o4 r3 p4 by (simp add: same_params_def)
  ultimately show ?thesis using that v4 p4 ch4 by blast
qed

end
