(* ===== verification/Shellfat.thy ===== *)
theory Shellfat
  imports Shellprops Fatroot
begin

text \<open>
  The commands \<open>fatput\<close> and \<open>fatcat\<close> of the shell together with the FAT driver: what is shown of a file
  that has just been written to an empty root directory.
\<close>

lemma length_bytes_of [simp]: "length (bytes_of t) = length t"
  by (simp add: bytes_of_def)

text \<open>Showing a file: its bytes, and a newline unless they end in one.\<close>

definition shown :: "u8 list \<Rightarrow> u8 list" where
  "shown bs = (if bs = [] then [] else if last bs = 10 then bs else bs @ [10])"

lemma cmd_fatcat_word:
  assumes "CHR '' '' \<notin> set w" and "w \<noteq> []" and "length w \<le> 11"
    and "fat_find_root (bytes_of (fat_name w)) (o_fat s) = Some (Some (c, sz), f1)" and "unat sz \<le> FS_FILE_BUF"
    and "fat_read_file c sz f1 = Some ((int (length bs), bs), f2)"
  shows "\<exists>u. cmd_fatcat ('' '' @ w) s = Some u \<and> o_vga u = vga_puts (shown bs) (o_vga s)"
proof -
  have "next_arg 12 ('' '' @ w) = (w, [])" using next_arg_word(2) [OF assms(1,2), of 12 "[]"] assms(3) by simp
  moreover have "\<not> sz > of_nat FS_FILE_BUF" using assms(5) by (simp add: FS_FILE_BUF_def word_less_nat_alt)
  moreover have "bs \<noteq> [] \<Longrightarrow> bs ! (length bs - 1) = last bs" by (simp add: last_conv_nth)
  ultimately show ?thesis
    using assms(2,4,6) by (simp add: cmd_fatcat_def Let_def shown_def vga_puts_append)
qed

text \<open>What \<open>fatcat\<close> shows of a file of one cluster, by the cluster number as it is read from the entry.\<close>

lemma fatcat_one_cluster:
  assumes nm: "CHR '' '' \<notin> set name" "name \<noteq> []" "length name \<le> 11"
    and find: "fat_find_root (bytes_of (fat_name name)) (o_fat t) = Some (Some (entry_read c sz), f1)"
    and bu: "buffered (o_fat t) f1" and ok: "fat_ok (o_fat t)" "fs_kind (o_fat t) \<noteq> FS_EXFAT"
    and ch: "chain (o_fat t) c [c]" and dat: "take (unat sz) (cluster_data (o_fat t) c) = bytes_of content"
    and sz: "unat sz = length content" "length content < 4000"
  shows "\<exists>u. cmd_fatcat ('' '' @ name) t = Some u
    \<and> o_vga u = vga_puts (shown (if (ucast c :: u8) \<noteq> 0 then [] else bytes_of content)) (o_vga t)"
proof -
  have ok1: "fat_ok f1" "fs_kind f1 \<noteq> FS_EXFAT" using buffered_simps(1,5) [OF bu] ok by simp_all
  show ?thesis
  proof (cases "(ucast c :: u8) = 0")
    case True
    have ch1: "chain f1 c [c]" unfolding chain_buffered [OF ok(1) bu] by (rule ch)
    have "unat sz + 512 < 2 ^ 32" using sz by simp
    from read_loop_ok [OF ok1(1) ch1 _ this, of "[]"] obtain f2 where
      "fat1216_read_loop c sz [] f1 = Some (bytes_of content, f2)"
      using dat sz by (auto simp: cluster_data_buffered [OF bu])
    then have "fat_read_file c sz f1 = Some ((int (length content), bytes_of content), f2)"
      using ok1(2) sint_of_nat_32 [of "length content"] sz by (simp add: fat_read_file_def)
    then show ?thesis
      using cmd_fatcat_word [OF nm, of t c sz f1] find True sz by (simp add: entry_read_def FS_FILE_BUF_def)
  next
    case False
    have "fat1216_read_loop 0 0 [] f1 = Some ([], f1)" by (subst fat1216_read_loop.simps) simp
    then have "fat_read_file 0 0 f1 = Some ((int (length []), []), f1)" using ok1(2) by (simp add: fat_read_file_def)
    then show ?thesis
      using cmd_fatcat_word [OF nm, of t 0 0 f1 "[]" f1] find False by (simp add: entry_read_def)
  qed
qed

text \<open>C28: \<open>fatput\<close> of a new file and \<open>fatcat\<close> of it, on a FAT16 volume with an empty root directory and a free
  cluster: the first succeeds silently and the second shows nothing, because the cluster and size it finds
  are 0, unless the number of the cluster is a multiple of 256; then it shows the content. (The name
  is in capitals, and the content fits a cluster.)\<close>

theorem fatput_then_fatcat:
  assumes "full_vol (o_fat s)" and "fs_kind (o_fat s) = FS_FAT1216" and "root_geom (o_fat s)"
    and "sec_at (o_fat s) (root_start_lba (o_fat s)) ! 0 = 0" and "first_free (o_fat s) 2 c"
    and "CHR '' '' \<notin> set name" and "name \<noteq> []" and "length name \<le> 11" and "upper_name (bytes_of (fat_name name))"
    and "content \<noteq> []" and "hd content \<noteq> CHR '' ''" and "length content < 4000"
    and "length content \<le> 512 * unat (sectors_per_cluster (o_fat s))"
  shows "\<exists>t u. cmd_fatput ('' '' @ name @ '' '' @ content) s = Some t \<and> o_vga t = o_vga s
    \<and> cmd_fatcat ('' '' @ name) t = Some u
    \<and> o_vga u = (if (ucast c :: u8) \<noteq> 0 then o_vga s else vga_puts (shown (bytes_of content)) (o_vga s))"
proof -
  let ?f = "o_fat s" and ?nm = "bytes_of (fat_name name)"
  define sz :: u32 where "sz = of_nat (length content)"
  have u: "unat sz = length content" using assms(12) by (simp add: sz_def unat_of_nat_32)
  have pos: "0 < sz" using u assms(10) by (simp add: word_less_nat_alt)
  have room: "unat sz \<le> 512 * unat (sectors_per_cluster ?f)" "unat sz < 2 ^ 31" "unat sz \<le> length (bytes_of content @ [0])"
    using u assms(12,13) by simp_all
  obtain f where f: "fat_write_root ?nm (bytes_of content @ [0]) sz ?f = Some (0, f)" "full_vol f" "same_params ?f f" "chain f c [c]"
    and dat: "take (unat sz) (cluster_data f c) = take (unat sz) (bytes_of content @ [0])"
    and sec: "sec_at f (root_start_lba f) = entry_sector (sec_at ?f (root_start_lba ?f)) 0 ?nm c sz"
    by (rule write_root_new [OF assms(1-5,9) pos room])
  define t where "t = s\<lparr>o_fat := f\<rparr>"
  have put: "cmd_fatput ('' '' @ name @ '' '' @ content) s = Some t"
    unfolding cmd_fatput_word [OF assms(6-8,10-12)] by (simp add: f(1) sz_def [symmetric] t_def)
  have par: "fs_kind f \<noteq> FS_EXFAT" "root_sectors f \<noteq> 0"
    using f(3) assms(2,3) by (simp_all add: same_params_def root_geom_def)
  have ok: "fat_ok f" "fat_ok ?f" using f(2) assms(1) vol16D(1) by (simp_all add: full_vol_def)
  have c16: "unat c < 2 ^ 16" using vol16D(7) [of ?f c] assms(1,5) by (simp add: full_vol_def first_free_def)
  note N = assms(9) [unfolded upper_name_def]
  define f1 where "f1 = f\<lparr>sector_buf := sec_at f (root_start_lba f)\<rparr>"
  have find: "fat_find_root ?nm (o_fat t) = Some (Some (entry_read c sz), f1)"
    unfolding t_def f1_def sec using new_entry_lookup [OF ok(1) par sec_at_length [OF ok(2)] _ _ _ c16 sec] N by simp
  have bu: "buffered f f1" unfolding f1_def by (rule buffered_sector [OF ok(1) sec_at_length [OF ok(1)]])
  have fields: "fat_ok (o_fat t)" "fs_kind (o_fat t) \<noteq> FS_EXFAT" "chain (o_fat t) c [c]" "buffered (o_fat t) f1"
    "take (unat sz) (cluster_data (o_fat t) c) = bytes_of content"
    using ok(1) par(1) f(4) bu dat u by (simp_all add: t_def)
  have "length content < 4000" by (rule assms(12))
  from fatcat_one_cluster [OF assms(6-8) find fields(4,1-3,5) u this] show ?thesis
    using put by (auto simp: t_def shown_def)
qed

text \<open>On the small volume cluster 2 is taken: the file is lost.\<close>

lemma sample_root: "root_geom sample16" "sec_at sample16 (root_start_lba sample16) ! 0 = 0" "first_free sample16 2 2"
proof -
  show "root_geom sample16" by (simp add: root_geom_def sample16_def)
  show "sec_at sample16 (root_start_lba sample16) ! 0 = 0" by (simp add: sec_at_sample)
  show "first_free sample16 2 2" by (simp add: first_free_def none_free_def sample_cluster sample_entry)
qed

theorem fatput_then_fatcat_witness:
  "\<exists>t u. cmd_fatput '' A.TXT hi'' ((test_os [])\<lparr>o_fat := sample16\<rparr>) = Some t \<and> cmd_fatcat '' A.TXT'' t = Some u
    \<and> o_vga u = o_vga (test_os [])"
proof -
  let ?s = "(test_os [])\<lparr>o_fat := sample16\<rparr>"
  have k: "fs_kind sample16 = FS_FAT1216" "unat (sectors_per_cluster sample16) = 1" by (simp_all add: sample16_def)
  have nm: "fat_name ''A.TXT'' = ''A       TXT''" by (simp add: fat_name_def eval_nat_numeral)
  have up: "upper_name (bytes_of (fat_name ''A.TXT''))" unfolding nm by (simp add: upper_name_def bytes_of_def ascii_upper_def)
  have "(ucast (2 :: u32) :: u8) \<noteq> 0" by simp
  with fatput_then_fatcat [of ?s 2 "''A.TXT''" "''hi''"] sample_full k sample_root up show ?thesis by auto
qed

end
