(* ===== verification/Shelldesk.thy ===== *)
theory Shelldesk
  imports Shellprops
begin

text \<open>
  The desktop seen from the shell: the command \<open>gui\<close> switches to mode 13h, runs rounds of the desktop, one for each
  interrupt, and gives the shell back the file system, the keyboard and the mouse it has used.
\<close>

section \<open>Starting\<close>

lemma gui_start_opens:
  assumes "fs_reach (g_fs g0)"
  obtains g where "gui_start cfg now g0 = Some g" and "g_stack g = [APP_PROGRAM_MANAGER]" and "g_fs g = g_fs g0"
    and "g_kbd g = g_kbd g0" and "g_mouse g = snd (mouse_init cfg (g_mouse g0))" and "g_prev_btn g = 0" and "g_mx g = 160" and "g_my g = 100"
proof -
  define h where "h = (stack_push APP_PROGRAM_MANAGER
    (g0\<lparr>g_mouse := snd (mouse_init cfg (g_mouse g0)), g_mx := 160, g_my := 100, g_prev_btn := 0, g_stack := []\<rparr>))\<lparr>pm_sel := 0\<rparr>"
  have h: "g_stack h = [APP_PROGRAM_MANAGER]" "g_mx h = 160" "g_my h = 100" "g_mouse h = snd (mouse_init cfg (g_mouse g0))"
    "g_fs h = g_fs g0" "g_kbd h = g_kbd g0" "g_prev_btn h = 0"
    by (simp_all add: h_def stack_push_def MAX_STACK_def)
  obtain c where "fs_get_cwd FS_PATH_MAX (g_fs h) = Some c" using get_cwd_total assms h(5) by auto
  then have "\<exists>h'. fm_refresh h = Some h'" by (simp add: fm_refresh_def Let_def split: prod.split)
  then obtain h' where h': "fm_refresh h = Some h'" by blast
  obtain c' ns where "h' = h\<lparr>fm_cwd := c', fm_names := ns\<rparr>" by (rule fm_refresh_result [OF h'])
  with h have f: "g_stack h' = [APP_PROGRAM_MANAGER]" "g_mx h' = 160" "g_my h' = 100" "g_mouse h' = snd (mouse_init cfg (g_mouse g0))"
    "g_fs h' = g_fs g0" "g_kbd h' = g_kbd g0" "g_prev_btn h' = 0" by simp_all
  have "\<exists>g. gui_start cfg now g0 = Some g \<and> g_stack g = g_stack h' \<and> g_fs g = g_fs h' \<and> g_kbd g = g_kbd h' \<and> g_mouse g = g_mouse h'
      \<and> g_prev_btn g = g_prev_btn h' \<and> g_mx g = g_mx h' \<and> g_my g = g_my h'"
    using h' by (simp add: gui_start_def Let_def h_def)
  with f that show ?thesis by auto
qed

text \<open>A round without keys and without the mouse, with only the Program Manager open, changes nothing.\<close>

lemma idle_round:
  assumes "g_stack g = [APP_PROGRAM_MANAGER]" and "mouse_dx (g_mouse g) = 0" and "mouse_dy (g_mouse g) = 0" and "mouse_buttons (g_mouse g) = 0"
    and "g_prev_btn g = 0" and "on_screen (g_mx g) (g_my g)" and "keybuf_inv (g_kbd g)" and "keybuf_items (g_kbd g) = []"
  obtains g' where "gui_round [] now g = Some (False, g')" and "g_stack g' = g_stack g" and "g_mouse g' = g_mouse g"
    and "g_prev_btn g' = 0" and "g_mx g' = g_mx g" and "g_my g' = g_my g" and "g_fs g' = g_fs g" and "keybuf_inv (g_kbd g')" and "keybuf_items (g_kbd g') = []"
proof -
  obtain key k where gc: "keyboard_getchar (g_kbd g) = (key, k)" by fastforce
  from getchar_items [OF assms(7) gc] assms(8) have k: "key = 0" "keybuf_inv k" "keybuf_items k = []" by simp_all
  have m: "mouse_poll [] (g_mouse g) = ((0, 0, 0), g_mouse g)" using assms(2-4) by (cases "g_mouse g") (simp add: mouse_poll_def)
  have s: "0 \<le> g_mx g" "g_mx g < GUI_FB_W" "0 \<le> g_my g" "g_my g < GUI_FB_H" using assms(6) by (simp_all add: on_screen_def GUI_FB_W_def GUI_FB_H_def)
  have st: "stack_top g \<noteq> APP_SNAKE" "stack_top g \<noteq> APP_PAINT" using assms(1) by (simp_all add: stack_top_def)
  have keys: "gui_keys now (g\<lparr>g_mouse := g_mouse g, g_mx := g_mx g, g_my := g_my g\<rparr>) = Some (False, g\<lparr>g_kbd := k\<rparr>)"
    using gc k(1) by (subst gui_keys.simps) simp
  have "stack_top (g\<lparr>g_kbd := k\<rparr>) \<noteq> APP_PAINT" using assms(1) by (simp add: stack_top_def)
  then have ph: "paint_handle_mouse x y b pb (g\<lparr>g_kbd := k\<rparr>) = Some (g\<lparr>g_kbd := k\<rparr>)" for x y b pb
    by (simp add: paint_handle_mouse_def)
  have "gui_round [] now g = Some (False, g\<lparr>g_kbd := k, g_prev_btn := 0\<rparr>)"
    using s st m keys assms(5) ph by (simp add: gui_round_def Let_def)
  then show ?thesis using assms k by (intro that [of "g\<lparr>g_kbd := k, g_prev_btn := 0\<rparr>"]) simp_all
qed

text \<open>The escape key closes the desktop when only one window is open, before any other key of the round is read.\<close>

lemma escape_round:
  assumes "g_stack g = [APP_PROGRAM_MANAGER]" and "keybuf_inv (g_kbd g)" and "keybuf_items (g_kbd g) = 27 # cs"
  obtains g' where "gui_round pending now g = Some (True, g')" and "g_fs g' = g_fs g" and "keybuf_inv (g_kbd g')" and "keybuf_items (g_kbd g') = cs"
proof -
  obtain key k where gc: "keyboard_getchar (g_kbd g) = (key, k)" by fastforce
  from getchar_items [OF assms(2) gc] assms(3) have k: "key = 27" "keybuf_inv k" "keybuf_items k = cs" by simp_all
  have keys: "gui_keys now (g\<lparr>g_mouse := m, g_mx := x, g_my := y\<rparr>) = Some (True, g\<lparr>g_mouse := m, g_mx := x, g_my := y, g_kbd := k\<rparr>)" for m x y
    using gc k(1) assms(1) by (subst gui_keys.simps) (simp add: handle_key_def)
  have "stack_top g \<noteq> APP_SNAKE" using assms(1) by (simp add: stack_top_def)
  then have "\<exists>g'. gui_round pending now g = Some (True, g') \<and> g_fs g' = g_fs g \<and> g_kbd g' = k"
    by (simp add: gui_round_def keys Let_def split: prod.split)
  then show ?thesis using k by (auto intro: that)
qed

section \<open>A visit\<close>

lemma fb_after_draw:
  "length (g_stack g) \<le> 8 \<Longrightarrow> length fb = 64000 \<Longrightarrow> \<exists>fb'. draw_desktop now g fb = Some fb' \<and> length fb' = 64000"
  using drawsD [OF draws_desktop] by blast

text \<open>C20: The command \<open>gui\<close>, with no key waiting, opens the desktop, waits in it for the next interrupt and comes back to the
  shell when that brings the escape key: the text screen, the files and the characters typed behind
  the escape are as they were, and the card has been switched to mode 13h, given the palette and switched back. Switching back
  reads four bytes behind \<open>saved_attr\<close>: with nothing defined there that is undefined, and nothing else in the run is.\<close>

theorem gui_escape_returns:
  assumes "fs_reach (o_fs s)" and "keybuf_inv (o_kbd s)" and "keybuf_items (o_kbd s) = []" and "o_pending s = []"
    and "length (o_fb s) = 64000" and "o_wakes s = w # ws" and "key_chars (w_keys w) = 27 # cs" and "length cs < KEYBUF_SIZE"
  shows "\<exists>s'. cmd_gui s = map_option (\<lambda>v. (True, s'\<lparr>o_video := v\<rparr>))
      (video_mode13_leave (video_mode13_set_palette gui_draw_apply_palette (video_mode13_enter (o_video s))))
    \<and> o_vga s' = o_vga s \<and> o_fs s' = o_fs s \<and> keybuf_items (o_kbd s') = cs \<and> o_wakes s' = ws \<and> length (o_fb s') = 64000"
proof -
  let ?s1 = "s\<lparr>o_video := video_mode13_enter (o_video s)\<rparr>"
  have l: "g_fs (lend ?s1) = o_fs s" "g_kbd (lend ?s1) = o_kbd s" by (simp_all add: lend_def)
  obtain g where g: "gui_start (o_cfg s) (o_now s) (lend ?s1) = Some g" "g_stack g = [APP_PROGRAM_MANAGER]" "g_fs g = o_fs s"
    "g_kbd g = o_kbd s" "g_mouse g = snd (mouse_init (o_cfg s) (g_mouse (lend ?s1)))" "g_prev_btn g = 0" "g_mx g = 160" "g_my g = 100"
    by (rule gui_start_opens [of "lend ?s1" "o_cfg s" "o_now s"]) (use assms(1) l in auto)
  let ?s2 = "(give_back g ?s1)\<lparr>o_video := video_mode13_set_palette gui_draw_apply_palette (o_video ?s1)\<rparr>"
  have l2: "lend ?s2 = g" by (simp add: lend_def give_back_def)
  obtain g2 where g2: "gui_round [] (o_now s) g = Some (False, g2)" "g_stack g2 = [APP_PROGRAM_MANAGER]" "g_fs g2 = o_fs s"
    "keybuf_inv (g_kbd g2)" "keybuf_items (g_kbd g2) = []"
    by (rule idle_round [of g "o_now s"]) (use g assms(2,3) in \<open>simp_all add: mouse_init_def Let_def on_screen_def\<close>)
  obtain fb where fb: "draw_desktop (o_now s) g2 (o_fb s) = Some fb" "length fb = 64000"
    using fb_after_draw [of g2 "o_fb s"] g2(2) assms(5) by auto
  let ?s3 = "((give_back g2 ?s2)\<lparr>o_pending := [], o_fb := fb, o_wakes := ws\<rparr>)"
  let ?s4 = "wake_up w ?s3"
  have step1: "gui_loop ?s2 = gui_loop ?s4"
    using g2(1) fb(1) l2 assms(4,6) by (subst gui_loop.simps) (simp add: give_back_def Let_def)
  have k4: "keybuf_items (g_kbd (lend ?s4)) = 27 # cs" "keybuf_inv (g_kbd (lend ?s4))"
    using fold_irq [OF g2(4), of "w_keys w"] g2(5) assms(7,8) by (simp_all add: wake_up_def lend_def give_back_def)
  have st4: "g_stack (lend ?s4) = [APP_PROGRAM_MANAGER]" "g_fs (lend ?s4) = o_fs s"
    using g2(2,3) by (simp_all add: wake_up_def lend_def give_back_def)
  obtain g5 where g5: "gui_round (o_pending ?s4) (o_now ?s4) (lend ?s4) = Some (True, g5)" "g_fs g5 = o_fs s"
    "keybuf_items (g_kbd g5) = cs"
    using escape_round [OF st4(1) k4(2,1)] st4(2) by metis
  let ?t = "(give_back g5 ?s4)\<lparr>o_pending := []\<rparr>"
  have "gui_loop ?s4 = map_option (\<lambda>v. (True, ?t\<lparr>o_video := v\<rparr>)) (video_mode13_leave (o_video ?s4))"
    using g5(1) by (subst gui_loop.simps) (simp add: give_back_def Let_def map_option_case split: option.split)
  moreover have "cmd_gui s = gui_loop ?s2" using g(1) by (simp add: cmd_gui_def gui_run_def Let_def give_back_def)
  ultimately have "cmd_gui s = map_option (\<lambda>v. (True, ?t\<lparr>o_video := v\<rparr>)) (video_mode13_leave (o_video ?s4))"
    using step1 by (simp only:)
  moreover have "o_video ?s4 = video_mode13_set_palette gui_draw_apply_palette (video_mode13_enter (o_video s))"
    by (simp add: give_back_def wake_up_def)
  ultimately show ?thesis using g5(2,3) fb(2) by (intro exI [of _ ?t]) (simp add: give_back_def wake_up_def)
qed

text \<open>The example in a build that has four zero bytes behind \<open>saved_attr\<close>.\<close>

theorem gui_escape_returns_witness:
  "\<exists>s'. cmd_gui (shell_init ((test_os [[0x01, 0x26]])\<lparr>o_video := (video_boot text_card)\<lparr>v_behind := replicate 4 0\<rparr>\<rparr>)) = Some (True, s')
     \<and> keybuf_items (o_kbd s') = [108] \<and> \<not> mode13_active (o_video s')"
proof -
  let ?v = "(video_boot text_card)\<lparr>v_behind := replicate 4 0\<rparr>"
  let ?s = "shell_init ((test_os [[0x01, 0x26]])\<lparr>o_video := ?v\<rparr>)"
  have k: "key_chars (w_keys \<lparr>w_keys = [0x01, 0x26], w_mouse = [], w_ms = 10\<rparr>) = 27 # [108]" by code_simp
  have "o_fs ?s = fs_init fs_boot" "o_video ?s = ?v" by (simp_all add: shell_init_def test_os_fields)
  moreover have "o_kbd ?s = kbd_boot" "o_pending ?s = []" "length (o_fb ?s) = 64000"
    "o_wakes ?s = \<lparr>w_keys = [0x01, 0x26], w_mouse = [], w_ms = 10\<rparr> # []"
    by (simp_all add: shell_init_def test_os_def os_boot_def)
  ultimately obtain s' where r: "cmd_gui ?s = map_option (\<lambda>v. (True, s'\<lparr>o_video := v\<rparr>))
      (video_mode13_leave (video_mode13_set_palette gui_draw_apply_palette (video_mode13_enter ?v)))" "keybuf_items (o_kbd s') = [108]"
    using gui_escape_returns [OF _ _ _ _ _ _ k, of ?s "[]"] keybuf_boot fs_reach_boot by (auto simp: KEYBUF_SIZE_def)
  have v: "\<not> mode13_active ?v" "\<not> length (v_behind ?v) < 4" by (simp_all add: video_boot_def)
  obtain v' where "video_mode13_leave (video_mode13_set_palette gui_draw_apply_palette (video_mode13_enter ?v)) = Some v'" "\<not> mode13_active v'"
    by (rule mode13_leaves [OF v])
  with r show ?thesis by simp
qed

end
