(* ===== verification/Kernel.thy ===== *)
theory Kernel
  imports Shellprops Idt
begin

text \<open>
  The start of the kernel (\<^verbatim>\<open>src/kernel/kernel.c\<close>), which puts the other components together, and the timer
  interrupt, which joins the interrupt controller and the scheduler. The addresses the linker assigns and
  the information of the boot loader are parameters; the machine before the start is the argument.
\<close>

definition MULTIBOOT_MAGIC :: u32 where "MULTIBOOT_MAGIC = 0x2BADB002"
definition MULTIBOOT_FLAG_MEM :: u32 where "MULTIBOOT_FLAG_MEM = push_bit 0 1"
definition HEAP_SIZE :: u64 where "HEAP_SIZE = 256 * 1024"

definition VGA_COLOR_BLACK :: u8 where "VGA_COLOR_BLACK = 0"
definition VGA_COLOR_RED :: u8 where "VGA_COLOR_RED = 4"
definition VGA_COLOR_LIGHT_GREEN :: u8 where "VGA_COLOR_LIGHT_GREEN = 10"
definition VGA_COLOR_WHITE :: u8 where "VGA_COLOR_WHITE = 15"

record multiboot_info =
  mb_flags :: u32
  mem_lower :: u32
  mem_upper :: u32
  boot_device :: u32
  cmdline :: u32
  mods_count :: u32
  mods_addr :: u32
  syms :: "u32 list"
  mmap_length :: u32
  mmap_addr :: u32

record image =
  heap_region :: u64
  idt_addr :: u64
  idle_loop :: u64
  shell_entry :: u64
  exc_handlers :: "nat \<Rightarrow> u64"
  irq_handlers :: "nat \<Rightarrow> u64"

record kernel =
  k_os :: os
  k_sched :: sched
  k_pics :: "pic \<times> pic"
  k_idt :: "idt_entry list"
  k_idtp :: "u16 \<times> u64"
  k_pit :: "(u16 \<times> u8) list"
  k_interrupts :: bool

text \<open>What the screen shows before the drivers start.\<close>

definition boot_banner :: "(u32 \<Rightarrow> multiboot_info) \<Rightarrow> u32 \<Rightarrow> u32 \<Rightarrow> vga \<Rightarrow> vga" where
  "boot_banner mem magic addr v =
     (let v = vga_clear v;
          v = say (''BonfireOS - minimal x86_64 kernel'' @ NL) (vga_set_color VGA_COLOR_LIGHT_GREEN VGA_COLOR_BLACK v);
          v = say (''Boot successful. Kernel is running in long mode.'' @ NL) (vga_set_color VGA_COLOR_WHITE VGA_COLOR_BLACK v)
      in if magic \<noteq> MULTIBOOT_MAGIC then say (''Invalid multiboot magic.'' @ NL) (vga_set_color VGA_COLOR_RED VGA_COLOR_BLACK v)
         else let mb = mem addr in
           if mb_flags mb AND MULTIBOOT_FLAG_MEM \<noteq> 0
           then say ('' KB'' @ NL) (vga_putdec (mem_upper mb) (say '' KB, upper='' (vga_putdec (mem_lower mb) (say ''Memory: lower='' v))))
           else v)"

text \<open>The stack pointer the first process is started with, and the state.\<close>

definition kernel_main ::
  "bool \<Rightarrow> image \<Rightarrow> (u32 \<Rightarrow> multiboot_info) \<Rightarrow> u32 \<Rightarrow> u32 \<Rightarrow> kernel \<Rightarrow> (u64 option \<times> kernel) option" where
  "kernel_main enable_net im mem magic addr k = do {
     let s = k_os k;
     let s = s\<lparr>o_vga := boot_banner mem magic addr (o_vga s)\<rparr>;
     let sd = (k_sched k)\<lparr>heap := heap_init (heap_region im) HEAP_SIZE\<rparr>;
     let s = shell_init s;
     let pics = irq_init (k_pics k);
     let (idtp, idt) = idt_init (idt_addr im) (exc_handlers im) (irq_handlers im) (k_idt k);
     let sd = process_create (shell_entry im) (process_init (idle_loop im) sd);
     (ms, pit) \<leftarrow> timer_init 100;
     let sd = sd\<lparr>timer_ms := ms\<rparr>;
     (r, f) \<leftarrow> fat_mount (o_fat s);
     let s = s\<lparr>o_fat := f\<rparr>;
     let s = (if r = 0 then puts (''FAT or exFAT filesystem mounted.'' @ NL) s else s);
     let s = (if enable_net then puts (''Network stack (loopback) initialized.'' @ NL) (s\<lparr>o_net := net_init (o_net s)\<rparr>) else s);
     let s = puts (NL @ ''> '') s;
     let (rsp, sd) = scheduler_first_run sd;
     Some (rsp, k\<lparr>k_os := s, k_sched := sd, k_pics := pics, k_idt := idt, k_idtp := idtp, k_pit := k_pit k @ pit, k_interrupts := True\<rparr>)
   }"

text \<open>The timer interrupt, with the stack pointer it came with.\<close>

definition timer_interrupt :: "u64 \<Rightarrow> kernel \<Rightarrow> u64 \<times> kernel" where
  "timer_interrupt rsp k =
     (let p = irq_eoi 0 (k_pics k); (rsp, sd) = scheduler_tick rsp (k_sched k) in (rsp, k\<lparr>k_pics := p, k_sched := sd\<rparr>))"

text \<open>Any other interrupt; \<open>raw\<close> is the byte the keyboard has ready.\<close>

definition other_interrupt :: "u64 \<Rightarrow> u8 \<Rightarrow> kernel \<Rightarrow> kernel" where
  "other_interrupt vector raw k =
     (let (p, kb) = idt_irq_handler vector raw (k_pics k, o_kbd (k_os k))
      in k\<lparr>k_pics := p, k_os := (k_os k)\<lparr>o_kbd := kb\<rparr>\<rparr>)"

section \<open>The state the kernel starts the shell in\<close>

fun timer_interrupts :: "u64 list \<Rightarrow> kernel \<Rightarrow> kernel" where
  "timer_interrupts [] k = k"
| "timer_interrupts (rsp # rsps) k = timer_interrupts rsps (snd (timer_interrupt rsp k))"

lemma timer_interrupts_sched: "k_sched (timer_interrupts rsps k) = run_ticks rsps (k_sched k)"
  by (induction rsps arbitrary: k) (simp_all add: timer_interrupt_def Let_def split: prod.split)

lemma vga_inv_say: "vga_inv v \<Longrightarrow> vga_inv (say t v)"
  by (simp add: say_def vga_inv_puts)

lemma vga_inv_color: "vga_inv (vga_set_color fg bg v) = vga_inv v"
  by (simp add: vga_inv_def vga_set_color_def)

lemma vga_inv_putdec: "vga_inv v \<Longrightarrow> vga_inv (vga_putdec n v)"
  using vga_inv_puts [of v "[48]"] by (simp add: vga_putdec_def vga_inv_puts)

lemma vga_inv_banner:
  "length (vga_buffer v) = VGA_WIDTH * VGA_HEIGHT \<Longrightarrow> vga_inv (boot_banner mem magic addr v)"
  by (simp add: boot_banner_def Let_def vga_inv_say vga_inv_color vga_inv_putdec vga_inv_clear)

text \<open>The two processes of the kernel in a heap of 256 KiB.\<close>

lemma stack_alloc:
  assumes "unat r + 0x40000 < 2 ^ 64"
  shows "kmalloc PROCESS_STACK_SIZE (heap_init r HEAP_SIZE) = (Some r, \<lparr>heap_start = r, heap_cur = r + 0x10000, heap_end = r + 0x40000\<rparr>)"
    and "kmalloc PROCESS_STACK_SIZE \<lparr>heap_start = r, heap_cur = r + 0x10000, heap_end = r + 0x40000\<rparr>
      = (Some (r + 0x10000), \<lparr>heap_start = r, heap_cur = r + 0x20000, heap_end = r + 0x40000\<rparr>)"
proof -
  have a: "align_up8 PROCESS_STACK_SIZE = 0x10000" by (simp add: align_up8_def PROCESS_STACK_SIZE_def)
  have "\<not> r + 0x10000 > r + 0x40000" "\<not> r + 0x20000 > r + 0x40000"
    using assms by (simp_all add: word_less_nat_alt unat_word_ariths)
  then show "kmalloc PROCESS_STACK_SIZE (heap_init r HEAP_SIZE) = (Some r, \<lparr>heap_start = r, heap_cur = r + 0x10000, heap_end = r + 0x40000\<rparr>)"
    and "kmalloc PROCESS_STACK_SIZE \<lparr>heap_start = r, heap_cur = r + 0x10000, heap_end = r + 0x40000\<rparr>
      = (Some (r + 0x10000), \<lparr>heap_start = r, heap_cur = r + 0x20000, heap_end = r + 0x40000\<rparr>)"
    by (simp_all add: kmalloc_def a heap_init_def HEAP_SIZE_def add.assoc)
qed

lemma frame_below: "store_words a (replicate 15 0) m (a - 16) = m (a - 16)"
proof -
  have "replicate 15 (0 :: u64) = [0, 0, 0, 0, 0, 0, 0, 0, 0, 0, 0, 0, 0, 0, 0]" by (simp add: numeral_eq_Suc)
  then show ?thesis by simp
qed

text \<open>The tops of the two stacks are 64 KiB apart, whatever the alignment of the heap, and the word above the
  second one is in neither frame.\<close>

lemma stack_tops: "(x + 0x10000) AND NOT 15 = (x AND NOT 15) + 0x10000" for x :: u64
proof -
  have n: "a AND NOT b = a - (a AND b)" for a b :: u64
  proof -
    have "(a AND b) + (a AND NOT b) = (a AND b) OR (a AND NOT b)" by (rule disjunctive_add) (auto simp: bit_simps)
    also have "\<dots> = a" by (rule bit_eqI) (auto simp: bit_simps)
    finally show ?thesis by (simp add: eq_diff_eq add.commute)
  qed
  have m: "a AND 15 = take_bit 4 a" for a :: u64
    using take_bit_eq_mask [of 4 a] by (simp add: mask_eq_exp_minus_1)
  have u: "unat (take_bit 4 a) = unat a mod 16" for a :: u64
    by (simp add: take_bit_eq_mod unat_mod)
  have d: "(16 :: nat) dvd 2 ^ 64" by simp
  have "unat (x + 0x10000) = (unat x + 0x10000) mod 2 ^ 64" by (simp add: unat_word_ariths)
  then have "unat (x + 0x10000) mod 16 = (unat x + 0x10000) mod 16" by (simp only: mod_mod_cancel [OF d])
  also have "\<dots> = unat x mod 16" using mod_mult_self1 [of "unat x" 4096 16] by simp
  finally have "take_bit 4 (x + 0x10000) = take_bit 4 x" by (simp only: word_unat_eq_iff u)
  then show ?thesis unfolding n m by simp
qed

lemma above_frames:
  fixes t :: u64
  shows "store_words (t + 0x10000 - 120) (replicate 15 0)
      ((store_words (t - 120) (replicate 15 0)
         ((\<lambda>_. 0)(t - 128 := 32, t - 136 := e, t - 144 := 8, t - 152 := 514, t - 160 := 0, t - 168 := 16)))
       (t + 0x10000 - 128 := 32, t + 0x10000 - 136 := e', t + 0x10000 - 144 := 8, t + 0x10000 - 152 := 514,
        t + 0x10000 - 160 := 0, t + 0x10000 - 168 := 16)) (0x10008 + t) = 0"
  by (simp add: replicate_15)

lemma boot_processes:
  assumes "unat r + 0x40000 < 2 ^ 64"
    and s_def: "s = process_create shell (process_init idle ((sched_boot h)\<lparr>heap := heap_init r HEAP_SIZE\<rparr>))"
  shows "sched_inv s [0, 1]" and "current_process s = None" and "run_list s = Some 1"
    and "kernel_stack (processes s ! 0) = Some r" and "kernel_stack (processes s ! 1) = Some (r + 0x10000)"
    and "stk s (saved_rsp (processes s ! 1) - 16) = shell" and "resume_rip (saved_rsp (processes s ! 1)) s = 0"
proof -
  note d = process_create_def process_init_def alloc_process_def sched_boot_def MAX_PROCESSES_def process_setup_stack_def upd_def Let_def stack_alloc [OF assms(1)]
  show "current_process s = None" "run_list s = Some 1" "kernel_stack (processes s ! 0) = Some r"
    "kernel_stack (processes s ! 1) = Some (r + 0x10000)"
    by (simp_all add: s_def d)
  show "stk s (saved_rsp (processes s ! 1) - 16) = shell"
    using frame_below [of "(r + 65536 + PROCESS_STACK_SIZE AND NOT (STACK_ALIGN - 1)) - 120"] by (simp add: s_def d)
  define t where "t = (r + 0x10000) AND NOT 15"
  have "r + 0x10000 + PROCESS_STACK_SIZE AND NOT (STACK_ALIGN - 1) = t + 0x10000"
    "r + PROCESS_STACK_SIZE AND NOT (STACK_ALIGN - 1) = t"
    using stack_tops [of "r + 0x10000"] by (simp_all add: t_def PROCESS_STACK_SIZE_def STACK_ALIGN_def)
  then show "resume_rip (saved_rsp (processes s ! 1)) s = 0"
    using above_frames [of t idle shell] by (simp add: s_def d resume_rip_def resume_slot_def)
  show "sched_inv s [0, 1]"
    by (simp add: s_def d sched_inv_def next_of_def states_ok_def)
qed

lemma boot_masks:
  assumes "n < 16"
  shows "line_masked (irq_init pics) n = (2 \<le> n)"
proof -
  obtain p1 p2 where p: "pics = (p1, p2)" by fastforce
  have "\<forall>n \<in> set [0..<16]. (if n < 8 then bit (0xFC :: u8) n else bit (0xFF :: u8) (n - 8)) = (2 \<le> n)" by code_simp
  then have "(if n < 8 then bit (0xFC :: u8) n else bit (0xFF :: u8) (n - 8)) = (2 \<le> n)" by (rule bspec) (simp add: assms)
  then show ?thesis by (simp only: p irq_init_eq line_masked_def fst_conv snd_conv pic.simps)
qed

text \<open>The first run takes the shell's stack; from then on the two processes alternate.\<close>

lemma boot_first_run:
  assumes room: "unat (heap_region im) + 0x40000 < 2 ^ 64"
    and sd: "sd = process_create (shell_entry im) (process_init (idle_loop im) ((sched_boot h)\<lparr>heap := heap_init (heap_region im) HEAP_SIZE\<rparr>))"
  obtains rsp sd2 where "scheduler_first_run (sd\<lparr>timer_ms := 0\<rparr>) = (Some rsp, sd2)" "stk sd2 (rsp - 16) = shell_entry im"
    "resume_rip rsp sd2 = 0" "sched_inv sd2 [0, 1]" "current_process sd2 = Some 1" "rsp = saved_rsp (processes sd2 ! 1)"
    "kernel_stack (processes sd2 ! 0) = Some (heap_region im)"
    "kernel_stack (processes sd2 ! 1) = Some (heap_region im + PROCESS_STACK_SIZE)"
    "\<And>rsps. current_process (run_ticks rsps sd2) = Some ((1 + length rsps) mod 2)"
proof -
  note b = boot_processes [OF room sd]
  define sd' where "sd' = sd\<lparr>timer_ms := 0\<rparr>"
  have b': "sched_inv sd' [0, 1]" "current_process sd' = None" "run_list sd' = Some 1"
    "kernel_stack (processes sd' ! 0) = Some (heap_region im)" "kernel_stack (processes sd' ! 1) = Some (heap_region im + 0x10000)"
    "stk sd' (saved_rsp (processes sd' ! 1) - 16) = shell_entry im" "resume_rip (saved_rsp (processes sd' ! 1)) sd' = 0"
    using b by (simp_all add: sd'_def sched_inv_def next_of_def resume_rip_def cong: chain_cong)
  obtain rsp sd2 where fr: "scheduler_first_run sd' = (rsp, sd2)" by fastforce
  have l: "length (processes sd') = MAX_PROCESSES" using b'(1) by (simp add: sched_inv_def)
  have fr2: "rsp = Some (saved_rsp (processes sd' ! 1))" "stk sd2 = stk sd'" "current_process sd2 = Some 1"
    "kernel_stack (processes sd2 ! 0) = Some (heap_region im)" "kernel_stack (processes sd2 ! 1) = Some (heap_region im + 0x10000)"
    using fr b'(3-5) l by (auto simp: scheduler_first_run_def Let_def MAX_PROCESSES_def)
  have same: "saved_rsp (processes sd2 ! 1) = saved_rsp (processes sd' ! 1)"
    using fr b'(3) l by (auto simp: scheduler_first_run_def Let_def MAX_PROCESSES_def)
  have inv2: "sched_inv sd2 [0, 1]" using sched_inv_first_run [OF b'(1,2)] fr by simp
  have "current_process (run_ticks rsps sd2) = Some ((1 + length rsps) mod 2)" for rsps
  proof -
    have "current_process (run_ticks rsps sd2) = Some ([0, 1] ! ((1 + length rsps) mod 2))"
      using run_ticks_ring [OF inv2, of 1 rsps] fr2(3) by (simp add: numeral_2_eq_2)
    moreover have "[0, 1 :: nat] ! m = m" if "m < 2" for m using that by (cases m) auto
    ultimately show ?thesis by simp
  qed
  note ring = this
  have start: "scheduler_first_run (sd\<lparr>timer_ms := 0\<rparr>) = (Some (saved_rsp (processes sd' ! 1)), sd2)"
    using fr fr2(1) by (simp only: sd'_def)
  have stack: "kernel_stack (processes sd2 ! 1) = Some (heap_region im + PROCESS_STACK_SIZE)"
    using fr2(5) by (simp only: PROCESS_STACK_SIZE_def) simp
  have "stk sd2 (saved_rsp (processes sd' ! 1) - 16) = shell_entry im" "resume_rip (saved_rsp (processes sd' ! 1)) sd2 = 0"
    using b'(6,7) by (simp_all only: fr2(2) resume_rip_def)
  from that [OF start this inv2 fr2(3) same [symmetric] fr2(4) stack ring] show thesis .
qed

text \<open>C2: From any machine whose text screen has its 2000 cells, with a disk that can be mounted or refused and a
  zeroed heap, \<open>kernel_main\<close> runs to the first context switch. Then the console, the file system, the network stack and the ring of
  processes are in their invariants, the shell has an empty line, and only the timer and the keyboard are unmasked. The stacks of
  the idle process and of the shell are the first two blocks of the heap, in this order, and the switch is given the
  shell's frame, with the shell's entry 16 bytes below the stack pointer. But two faults keep the kernel from going on: the
  word the switch resumes at is not that entry but 0, as it lies above the frame; and no gate that a timer or
  keyboard interrupt goes through is present. If the handler of the timer is called all the same, each call
  makes the other of the two processes the current one.\<close>

theorem kernel_boots:
  assumes "length (vga_buffer (o_vga (k_os k))) = VGA_WIDTH * VGA_HEIGHT" and "o_fs (k_os k) = fs_boot\<lparr>dead_frame := d\<rparr>"
    and "net_ok (o_net (k_os k))" and "k_sched k = sched_boot h" and "unat (heap_region im) + 0x40000 < 2 ^ 64"
    and "fat_mount (o_fat (k_os k)) = Some (r, f)" and "length (k_idt k) = IDT_ENTRIES"
  shows "\<exists>rsp k'. kernel_main enable_net im mem magic addr k = Some (Some rsp, k') \<and> k_interrupts k'
    \<and> vga_inv (o_vga (k_os k')) \<and> fs_reach (o_fs (k_os k')) \<and> net_ok (o_net (k_os k')) \<and> o_line (k_os k') = [] \<and> o_fat (k_os k') = f
    \<and> sched_inv (k_sched k') [0, 1] \<and> (\<forall>n < 16. line_masked (k_pics k') n = (2 \<le> n))
    \<and> kernel_stack (processes (k_sched k') ! 0) = Some (heap_region im)
    \<and> kernel_stack (processes (k_sched k') ! 1) = Some (heap_region im + PROCESS_STACK_SIZE)
    \<and> current_process (k_sched k') = Some 1 \<and> rsp = saved_rsp (processes (k_sched k') ! 1)
    \<and> stk (k_sched k') (rsp - 16) = shell_entry im \<and> resume_rip rsp (k_sched k') = 0
    \<and> (\<forall>m < 48. \<not> gate_present (k_idt k' ! m))
    \<and> (\<forall>rsps. current_process (k_sched (timer_interrupts rsps k')) = Some ((1 + length rsps) mod 2))"
proof -
  define sd where "sd = process_create (shell_entry im) (process_init (idle_loop im) ((sched_boot h)\<lparr>heap := heap_init (heap_region im) HEAP_SIZE\<rparr>))"
  obtain rsp sd2 where fr: "scheduler_first_run (sd\<lparr>timer_ms := 0\<rparr>) = (Some rsp, sd2)" "stk sd2 (rsp - 16) = shell_entry im"
    "resume_rip rsp sd2 = 0" "sched_inv sd2 [0, 1]" "current_process sd2 = Some 1" "rsp = saved_rsp (processes sd2 ! 1)"
    "kernel_stack (processes sd2 ! 0) = Some (heap_region im)"
    "kernel_stack (processes sd2 ! 1) = Some (heap_region im + PROCESS_STACK_SIZE)"
    and ring: "\<And>rsps. current_process (run_ticks rsps sd2) = Some ((1 + length rsps) mod 2)"
    by (rule boot_first_run [OF assms(5) sd_def]) (rule that)
  have t: "timer_init 100 = Some (0, [(0x43, 0x36), (0x40, 0x9B), (0x40, 0x2E)])" by (simp add: timer_init_def PIT_HZ_def)
  obtain idtp idt where idt: "idt_init (idt_addr im) (exc_handlers im) (irq_handlers im) (k_idt k) = (idtp, idt)" by fastforce
  have gates: "\<not> gate_present (idt ! m)" if "m < 48" for m
    using gates_absent [OF assms(7) that, of "idt_addr im" "exc_handlers im" "irq_handlers im"] idt by simp
  note banner = vga_inv_banner [OF assms(1), of mem magic addr]
  have "\<exists>k'. kernel_main enable_net im mem magic addr k = Some (Some rsp, k') \<and> k_interrupts k' \<and> k_sched k' = sd2
      \<and> k_pics k' = irq_init (k_pics k) \<and> k_idt k' = idt \<and> vga_inv (o_vga (k_os k')) \<and> o_fs (k_os k') = fs_init (fs_boot\<lparr>dead_frame := d\<rparr>) \<and> net_ok (o_net (k_os k'))
      \<and> o_line (k_os k') = [] \<and> o_fat (k_os k') = f"
    using assms(2,3,4,6) banner
    by (simp add: kernel_main_def idt t fr(1) [unfolded sd_def] shell_init_def Let_def vga_inv_say net_ok_init)
  then show ?thesis
    using fr ring gates by (auto simp: timer_interrupts_sched fs_reach.init boot_masks)
qed

text \<open>The example machine has an empty disk, which is refused.\<close>

definition test_kernel :: kernel where
  "test_kernel = \<lparr>k_os = test_os [], k_sched = sched_boot \<lparr>heap_start = 0, heap_cur = 0, heap_end = 0\<rparr>,
     k_pics = (\<lparr>pic_base = 8, pic_mask = 0, pic_isr = 0, pic_words = 0\<rparr>, \<lparr>pic_base = 112, pic_mask = 0, pic_isr = 0, pic_words = 0\<rparr>),
     k_idt = replicate 256 no_gate, k_idtp = (0, 0), k_pit = [], k_interrupts = False\<rparr>"

definition test_image :: image where
  "test_image = \<lparr>heap_region = 0x200000, idt_addr = 0x8000, idle_loop = 0x100000, shell_entry = 0x100100,
     exc_handlers = (\<lambda>i. 0x101000 + of_nat i), irq_handlers = (\<lambda>i. 0x102000 + of_nat i)\<rparr>"

theorem kernel_boots_witness:
  "\<exists>rsp k'. kernel_main True test_image (\<lambda>_. undefined) 0 0 test_kernel = Some (Some rsp, k')
     \<and> current_process (k_sched (timer_interrupts [7, 8] k')) = Some 1 \<and> resume_rip rsp (k_sched k') = 0"
proof -
  let ?f = "o_fat (k_os test_kernel)"
  have m: "\<exists>f. fat_mount ?f = Some (- 1, f)"
    by (simp add: test_kernel_def test_os_def os_boot_def fat_boot_def fat_mount_def load_sector_def ata_read_1 ATA_SECTOR_SIZE_def
        exfat_mount_def memcmp_ex_def sig_exfat_def fat1216_mount_def rd16at_def of_le16_def blit_def)
  then obtain f where m: "fat_mount ?f = Some (- 1, f)" by blast
  have "length (vga_buffer (o_vga (k_os test_kernel))) = VGA_WIDTH * VGA_HEIGHT" "o_fs (k_os test_kernel) = fs_boot\<lparr>dead_frame := \<lambda>_. None\<rparr>"
    "net_ok (o_net (k_os test_kernel))" "unat (heap_region test_image) + 0x40000 < 2 ^ 64"
    "length (k_idt test_kernel) = IDT_ENTRIES"
    by (simp_all add: test_kernel_def test_image_def test_os_fields net_ok_boot IDT_ENTRIES_def fs_boot_def) (simp add: test_os_def os_boot_def VGA_WIDTH_def VGA_HEIGHT_def)
  moreover have "k_sched test_kernel = sched_boot \<lparr>heap_start = 0, heap_cur = 0, heap_end = 0\<rparr>" by (simp add: test_kernel_def)
  ultimately show ?thesis
    using kernel_boots [OF _ _ _ _ _ m, where im = test_image and enable_net = True and mem = "\<lambda>_. undefined" and magic = 0 and addr = 0] by (fastforce dest: spec [of _ "[7, 8]"])
qed

end
