(* ===== verification/Spec2Isabelle.thy ===== *)
theory Spec2Isabelle
  imports Kprelude Ring Keyboard Loopback Kheap Allocator Freelist Sched Netsum Netstack Netclient Nettcp
    Alias Console Memfs Fatwrite Exfatprops Posixfd Deskdraw Vga13 Idt
    Shellfat Shelldesk Kernel
begin

text \<open>
  A verification library for BonfireOS, a small x86-64 kernel in C with a shell, an in-memory file system, a
  FAT and exFAT driver, a loopback network stack, preemptive processes and a desktop in VGA mode 13h.
  Paths below are relative to \<^verbatim>\<open>src/src/kernel/\<close>; the headers are in \<^verbatim>\<open>src/include/kernel/\<close>.

  \<^bold>\<open>Parts of the program and where they are modelled.\<close> \<open>kernel_main\<close> initialises everything and starts the
  shell as a process beside an idle process; the timer interrupt switches between them. The shell reads
  characters from the keyboard's ring buffer, expands aliases and runs commands on the other components.

  \<^item> \<open>Kprelude\<close>: machine types, C strings and byte buffers, little and big endian, the lemma
    collections \<open>kmem\<close> and \<open>kbytes\<close> every component uses.
  \<^item> \<open>Store\<close>: the locale \<open>named_store\<close>, contents under names that lead to places, and its extension \<open>total_store\<close>;
    interpreted on the files of \<open>Memfs\<close>, the sectors of \<open>Ata\<close>, the entries of the FAT16 table and the aliases.
  \<^item> \<open>Ring\<close>, \<open>Keyboard\<close>, \<open>Loopback\<close>: ring buffers, and the two of the kernel, \<^verbatim>\<open>drivers/keyboard.c\<close> and
    \<^verbatim>\<open>net/net_loopback.c\<close>. The locale \<open>bounded_fifo\<close> states what a ring promises, a list that refuses
    elements when it is full, and is interpreted on both drivers.
  \<^item> \<open>Console\<close> (\<^verbatim>\<open>drivers/vga.c\<close>), \<open>Mouse\<close> (\<^verbatim>\<open>drivers/mouse.c\<close>), \<open>Vga13\<close> (\<^verbatim>\<open>drivers/video_mode13.c\<close>, over the
    registers of the card; the locale \<open>reg_file\<close> is interpreted on its three files of indexed registers),
    \<open>Idt\<close> (\<^verbatim>\<open>arch/idt.c\<close>, \<^verbatim>\<open>arch/irq.c\<close>, over the two interrupt controllers).
  \<^item> \<open>Kheap\<close> (\<^verbatim>\<open>mm/heap.c\<close>); \<open>Allocator\<close> and \<open>Freelist\<close>: the locale \<open>allocator\<close> is the contract of
    malloc, free and realloc with what a client that keeps it can rely on, interpreted on the heaps of
    \<^verbatim>\<open>doom_host/doom_malloc.c\<close> and \<^verbatim>\<open>redalert_host/redalert_malloc.c\<close>.
  \<^item> \<open>Sched\<close>: \<^verbatim>\<open>process/process.c\<close>, \<^verbatim>\<open>drivers/timer.c\<close> and what \<^verbatim>\<open>arch/context_switch.asm\<close> reads.
  \<^item> \<open>Netsum\<close>, \<open>Netstack\<close>, \<open>Netclient\<close>, \<open>Nettcp\<close>: \<^verbatim>\<open>net/\<close>, with checksums, IPv4, ICMP, TCP,
    the polling loop and the two clients. The locale \<open>staged\<close>, an automaton driven by a sequence, is interpreted on
    server and client of \<^verbatim>\<open>net/net_tcp.c\<close>.
  \<^item> \<open>Memfs\<close> (\<^verbatim>\<open>fs/fs.c\<close>), \<open>Posixfd\<close> (\<^verbatim>\<open>posix/posix.c\<close>).
  \<^item> \<open>Ata\<close> (\<^verbatim>\<open>drivers/ata.c\<close>; the locale \<open>block_device\<close>, a \<open>total_store\<close>, is interpreted on it), \<open>Fatbase\<close>, \<open>Exfat\<close>, \<open>Fatfs\<close>
    (the definitions of \<^verbatim>\<open>fs/fat.c\<close>), \<open>Fattable\<close>, \<open>Fatfile\<close>, \<open>Fatalloc\<close>, \<open>Fatdir\<close>, \<open>Fatwrite\<close>,
    \<open>Fatroot\<close>, \<open>Exfatprops\<close> (their properties).
  \<^item> \<open>Guidraw\<close> (\<^verbatim>\<open>gui/gui_draw.c\<close>) and, all of \<^verbatim>\<open>gui/gui.c\<close>: \<open>Paint\<close>, \<open>Notepad\<close>, \<open>Calc\<close>, \<open>Snake\<close>, \<open>Mines\<close>,
    \<open>Minesflood\<close>, \<open>Minesplace\<close>, \<open>Minesgame\<close>, \<open>Desktop\<close>, \<open>Deskinv\<close>, \<open>Deskrun\<close>, \<open>Deskdraw\<close>.
  \<^item> \<open>Alias\<close> (\<^verbatim>\<open>shell/alias.c\<close>), \<open>Hosts\<close> (\<^verbatim>\<open>lynx_host/\<close>, \<^verbatim>\<open>doom_host/\<close>, \<^verbatim>\<open>redalert_host/\<close>), \<open>Shell\<close>
    (\<^verbatim>\<open>shell/shell.c\<close> and \<open>gui_run\<close>), \<open>Shellprops\<close>, \<open>Shellfat\<close>, \<open>Shelldesk\<close>, \<open>Kernel\<close> (\<^verbatim>\<open>kernel.c\<close>).

  \<^bold>\<open>How state and operations correspond to the code.\<close> The static variables of a file are one record; a function is
  a definition of the same name that takes the state last and returns it updated. A C result is an
  \<open>int\<close> or a word of the C width; a \<open>char\<close> array with a length is a list of its characters in use, and a
  buffer whose other bytes can be seen is a list of its full size. \<open>NULL\<close> is \<open>None\<close>. Where the C text has no defined
  meaning (an index outside an array, a signed overflow, a division by zero) or a loop does not end, the value is
  \<open>None\<close> of an option, so that a property with \<open>Some\<close> states that nothing of the kind happens. Device
  registers, the bytes a device sends and the interrupts that end a \<open>hlt\<close> are arguments or fields of the
  record. In \<open>Shell\<close> the outside world is the list of these interrupts.

  \<^bold>\<open>Undefined behaviour the program relies on.\<close> In two places every run meets what C leaves undefined, and a field of the state
  says what a build finds there; at the start both fields say that nothing is defined. \<open>resolve_file_path\<close> gives
  \<open>fs_read\<close> a pointer into its own dead frame: \<open>dead_frame\<close> of \<open>Memfs\<close> maps the name that was there to the name that is
  found, so a read of the in-memory file system is \<open>None\<close> at the start. The properties of what is read state both
  cases: with \<open>frame_kept\<close>, the builds that leave the frame alone, and with nothing defined. \<open>restore_state\<close> reads four bytes behind
  \<open>saved_attr\<close>: \<open>v_behind\<close> of \<open>Vga13\<close> is what can be read there, and with fewer than four bytes leaving mode 13h is \<open>None\<close>.
  No operation changes the two fields.

  \<^bold>\<open>What the lemmas show.\<close> Rings: refinement of bounded lists under any interleaving. Heaps: blocks are disjoint and in
  the region for every script of a client, and realloc keeps contents. Scheduler: round robin over the
  processes that were created with a stack, in their order, and the initial stack frame that the switch does not match. Network: every poll ends, by a weight of packets
  and connection states, and the clients get their replies; TCP server and client are where the order of the
  segments that arrive puts them. File systems: what is written is read
  back, whatever else is stored; chains in the table are allocated and freed as sets of clusters; the names of
  exFAT. Desktop: every reachable state is well formed, drawing stays in the frame buffer, keys are
  handled in order, each application meets a specification of its own (an edited text, a list of
  cells, a region of a board, a computed value, a line). Mode 13h: what leaving restores, and what not. Interrupts: gates and masks.
  Shell: what is typed, however interrupts deliver it, is what is run; the transcript of editing and showing
  a file; aliases; names on the disk; the desktop entered and left. Kernel: the state at the end of the start satisfies
  the invariants of the components; the shell's frame is the one the switch is given, which resumes at 0 and not at the shell, no
  gate is present, and the handler of the timer, when it is called, alternates the two processes.

  \<^bold>\<open>Bounds and fuel.\<close> Loops that may not end are \<^theory_text>\<open>partial_function (option)\<close>: polling the network,
  chains of a damaged table, the exFAT directory, the line algorithm of Paint, drawing of random cells, opening of
  cells, the key loops, the shell itself. That they return is proved, on the states they are used in, for all of these but the scans of the exFAT
  directory and bitmap. No definition has artificial fuel: a recursion on a natural number counts what the C loop counts. The sizes
  of arrays are those of the code, defined by name.

  \<^bold>\<open>What is not modelled.\<close> Boot code and interrupt entry in assembly, because there is no model of the machine below C
  here; \<^verbatim>\<open>port.h\<close>, single instructions; \<open>idt_exception_handler\<close>, which only halts; \<open>doom_main\<close> and \<open>redalert_main\<close>
  beyond the stubs of the repository. Delays for slow devices have no effect. Time does not pass inside a
  round of the desktop, and interrupts of the keyboard arrive at a \<open>hlt\<close>. The idle process and the shell are
  not interleaved: the idle loop has no effect on the state. Video memory of the text and the graphics mode
  are kept apart. In the heaps of the games the headers and the memory of the client are separate fields, so a client that
  writes outside its block is not a run of the model. Two C ints are unbounded: the counter \<open>icmp_echo_reply_rx\<close>, which every ping
  clears and which counts the replies since, and the coordinates of \<open>paint_line\<close>, whose callers give points of the canvas.
\<close>

end
